(* ===== verification/F64.thy ===== *)
theory F64
  imports Complex_Main "HOL-Library.Log_Nat"
begin

text \<open>
  Rust's \<^verbatim>\<open>f64\<close>: IEEE 754 binary64 with round-to-nearest, ties to even.
  A finite value is carried as the rational number it denotes; \<open>rnd\<close> is the rounding
  every arithmetic operation ends with, so overflow to an infinity and underflow into the
  subnormal range are the format's own.  The two zeros are one value: the modelled code
  compares zeros only with \<^verbatim>\<open>==\<close>, \<^verbatim>\<open><\<close> and
  \<^verbatim>\<open>>\<close>, which do not tell them apart, and divides only by
  values it has checked to be positive.

  The lemmas show that rounding keeps signs, is monotone, and is exact on integers up to
  \<open>2^53\<close>; the bounds on rates and percentages elsewhere rest on these facts.
\<close>

section \<open>Rounding\<close>

text \<open>The exponent of the leading bit of a positive rational.\<close>

definition ilog2 :: "rat \<Rightarrow> int" where
  "ilog2 x = (let (a, b) = quotient_of x; k = int (floorlog 2 (nat a)) - int (floorlog 2 (nat b))
     in if 2 powi k \<le> x then k else k - 1)"

definition round_half_even :: "rat \<Rightarrow> int" where
  "round_half_even x = (let f = \<lfloor>x\<rfloor>; d = x - of_int f
     in if d < 1/2 then f else if 1/2 < d then f + 1 else if even f then f else f + 1)"

text \<open>The weight of the last significand bit: 53 bits, and never below \<open>2^-1074\<close>.\<close>

definition ulp_exp :: "rat \<Rightarrow> int" where
  "ulp_exp x = max (ilog2 x - 52) (- 1074)"

definition round_pos :: "rat \<Rightarrow> rat" where
  "round_pos x = of_int (round_half_even (x / 2 powi ulp_exp x)) * 2 powi ulp_exp x"

datatype f64 = Fin rat | PInf | NInf | NaN

definition rnd :: "rat \<Rightarrow> f64" where
  "rnd x = (if x = 0 then Fin 0
     else let r = round_pos \<bar>x\<bar> in
       if 2 ^ 1024 \<le> r then (if 0 < x then PInf else NInf)
       else Fin (if 0 < x then r else - r))"

subsection \<open>The leading exponent\<close>

lemma powi_mono2: "(a::int) \<le> b \<Longrightarrow> (2::rat) powi a \<le> 2 powi b"
  by (rule power_int_increasing) auto

lemma powi_Suc2: "(2::rat) powi (k + 1) = 2 * 2 powi k"
  by (simp add: power_int_add)

lemma powi_less2: "(2::rat) powi a < 2 powi b \<Longrightarrow> a < b"
  by (meson linorder_not_less powi_mono2)

lemma floorlog2_bounds:
  assumes "0 < n"
  shows "(2::rat) powi (int (floorlog 2 n) - 1) \<le> of_nat n" "of_nat n < (2::rat) powi int (floorlog 2 n)"
proof -
  have b: "2 ^ (floorlog 2 n - 1) \<le> n" "n < 2 ^ floorlog 2 n"
    using floorlog_bounds [of n 2] assms by auto
  have pos: "0 < floorlog 2 n"
    using assms by (simp add: floorlog_def)
  have "(of_nat (2 ^ (floorlog 2 n - 1)) :: rat) \<le> of_nat n"
    using b(1) of_nat_le_iff by blast
  moreover have "int (floorlog 2 n) - 1 = int (floorlog 2 n - 1)"
    using pos by simp
  ultimately show "(2::rat) powi (int (floorlog 2 n) - 1) \<le> of_nat n"
    by (metis of_nat_numeral of_nat_power power_int_of_nat)
  have "(of_nat n :: rat) < of_nat (2 ^ floorlog 2 n)"
    using b(2) of_nat_less_iff by blast
  then show "of_nat n < (2::rat) powi int (floorlog 2 n)"
    by simp
qed

lemma ilog2_bounds:
  assumes "0 < x"
  shows "2 powi ilog2 x \<le> x" "x < 2 powi (ilog2 x + 1)"
proof -
  obtain a b where q: "quotient_of x = (a, b)" by (cases "quotient_of x")
  have b0: "0 < b" using q by (rule quotient_of_denom_pos)
  have xe: "x = of_int a / of_int b" using q by (rule quotient_of_div)
  have a0: "0 < a" using assms b0 unfolding xe by (simp add: zero_less_divide_iff)
  define l m where "l = int (floorlog 2 (nat a))" and "m = int (floorlog 2 (nat b))"
  have A: "2 powi (l - 1) \<le> (of_int a :: rat)" "(of_int a :: rat) < 2 powi l"
    using floorlog2_bounds [of "nat a"] a0 by (simp_all add: l_def)
  have B: "2 powi (m - 1) \<le> (of_int b :: rat)" "(of_int b :: rat) < 2 powi m"
    using floorlog2_bounds [of "nat b"] b0 by (simp_all add: m_def)
  have bp: "(0::rat) < of_int b" using b0 by simp
  have up: "x < 2 powi (l - m + 1)"
  proof -
    have "2 powi (l - m + 1) * 2 powi (m - 1) = (2::rat) powi l"
      by (simp add: power_int_add [symmetric])
    then have "(of_int a::rat) < 2 powi (l - m + 1) * 2 powi (m - 1)" using A by simp
    also have "\<dots> \<le> 2 powi (l - m + 1) * of_int b"
      using B(1) by (intro mult_left_mono) auto
    finally show ?thesis using bp by (simp add: xe divide_less_eq)
  qed
  have lo: "2 powi (l - m - 1) \<le> x"
  proof -
    have "2 powi (l - m - 1) * of_int b \<le> 2 powi (l - m - 1) * (2 powi m :: rat)"
      using B(2) by (intro mult_left_mono) auto
    also have "\<dots> = 2 powi (l - 1)" by (simp add: power_int_add [symmetric])
    also have "\<dots> \<le> of_int a" using A by simp
    finally show ?thesis using bp by (simp add: xe le_divide_eq)
  qed
  have i: "ilog2 x = (if 2 powi (l - m) \<le> x then l - m else l - m - 1)"
    by (simp add: ilog2_def q l_def m_def)
  show "2 powi ilog2 x \<le> x" using lo by (simp add: i)
  show "x < 2 powi (ilog2 x + 1)" using up by (simp add: i)
qed

lemma ilog2_mono:
  assumes "0 < x" "x \<le> y"
  shows "ilog2 x \<le> ilog2 y"
proof -
  have "2 powi ilog2 x < (2::rat) powi (ilog2 y + 1)"
    using ilog2_bounds [of x] ilog2_bounds [of y] assms by linarith
  then show ?thesis using powi_less2 by fastforce
qed

lemma ilog2_eqI: "0 < x \<Longrightarrow> 2 powi k \<le> x \<Longrightarrow> x < 2 powi (k + 1) \<Longrightarrow> ilog2 x = k"
  using ilog2_bounds [of x] powi_less2 [of "ilog2 x" "k + 1"] powi_less2 [of k "ilog2 x + 1"]
  by fastforce

subsection \<open>Rounding to an integer\<close>

lemma round_half_even_int [simp]: "round_half_even (of_int n) = n"
  by (simp add: round_half_even_def)

lemma round_half_even_bounds: "\<lfloor>x\<rfloor> \<le> round_half_even x" "round_half_even x \<le> \<lfloor>x\<rfloor> + 1"
  by (simp_all add: round_half_even_def Let_def)

lemma round_half_even_mono:
  assumes "x \<le> y"
  shows "round_half_even x \<le> round_half_even y"
proof (cases "\<lfloor>x\<rfloor> = \<lfloor>y\<rfloor>")
  case True
  then show ?thesis using assms by (auto simp: round_half_even_def Let_def)
next
  case False
  then have "\<lfloor>x\<rfloor> + 1 \<le> \<lfloor>y\<rfloor>" using floor_mono [OF assms] by simp
  then show ?thesis using round_half_even_bounds [of x] round_half_even_bounds [of y] by simp
qed

lemma round_half_even_le_int: "x \<le> of_int n \<Longrightarrow> round_half_even x \<le> n"
  using round_half_even_mono [of x "of_int n"] by simp

lemma round_half_even_ge_int: "of_int n \<le> x \<Longrightarrow> n \<le> round_half_even x"
  using round_half_even_mono [of "of_int n" x] by simp

subsection \<open>Rounding positive values\<close>

lemma round_pos_nonneg: "0 \<le> x \<Longrightarrow> 0 \<le> round_pos x"
  using round_half_even_ge_int [of 0 "x / 2 powi ulp_exp x"] by (simp add: round_pos_def)

lemma round_pos_le_pow:
  assumes "0 < x" "x \<le> 2 powi k" "ulp_exp x \<le> k"
  shows "round_pos x \<le> 2 powi k"
proof -
  define n :: int where "n = 2 ^ nat (k - ulp_exp x)"
  have n: "(of_int n :: rat) = 2 powi (k - ulp_exp x)"
    using assms(3) by (simp add: n_def power_int_def)
  have "x / 2 powi ulp_exp x \<le> of_int n"
    using assms(2) by (simp add: n divide_le_eq power_int_diff)
  then have "round_half_even (x / 2 powi ulp_exp x) \<le> n" by (rule round_half_even_le_int)
  then have "round_pos x \<le> of_int n * 2 powi ulp_exp x"
    unfolding round_pos_def by (intro mult_right_mono) auto
  also have "\<dots> = 2 powi k" by (simp add: n power_int_diff)
  finally show ?thesis .
qed

lemma round_pos_ge_pow:
  assumes "0 < x" "2 powi k \<le> x" "ulp_exp x \<le> k"
  shows "2 powi k \<le> round_pos x"
proof -
  define n :: int where "n = 2 ^ nat (k - ulp_exp x)"
  have n: "(of_int n :: rat) = 2 powi (k - ulp_exp x)"
    using assms(3) by (simp add: n_def power_int_def)
  have "of_int n \<le> x / 2 powi ulp_exp x"
    using assms(2) by (simp add: n le_divide_eq power_int_diff)
  then have "n \<le> round_half_even (x / 2 powi ulp_exp x)" by (rule round_half_even_ge_int)
  then have "of_int n * 2 powi ulp_exp x \<le> round_pos x"
    unfolding round_pos_def by (intro mult_right_mono) auto
  moreover have "of_int n * 2 powi ulp_exp x = (2::rat) powi k" by (simp add: n power_int_diff)
  ultimately show ?thesis by simp
qed

lemma round_pos_mono:
  assumes "0 < x" "x \<le> y"
  shows "round_pos x \<le> round_pos y"
proof -
  have y0: "0 < y" using assms by simp
  have le: "ulp_exp x \<le> ulp_exp y"
    using ilog2_mono [OF assms] by (simp add: ulp_exp_def max_def)
  show ?thesis
  proof (cases "ulp_exp x = ulp_exp y")
    case True
    have "x / 2 powi ulp_exp x \<le> y / 2 powi ulp_exp x"
      using assms by (simp add: divide_right_mono)
    then show ?thesis
      unfolding round_pos_def True [symmetric]
      by (intro mult_right_mono) (simp_all add: round_half_even_mono)
  next
    case False
    define k where "k = ulp_exp y + 52"
    have lt: "ulp_exp x < ulp_exp y" using False le by simp
    then have ey: "ilog2 y = k" unfolding ulp_exp_def k_def by linarith
    have ix: "ilog2 x + 1 \<le> k" using lt unfolding ulp_exp_def [of x] k_def by linarith
    have "x < 2 powi (ilog2 x + 1)" using assms(1) by (rule ilog2_bounds)
    also have "\<dots> \<le> 2 powi k" using ix by (rule powi_mono2)
    finally have "round_pos x \<le> 2 powi k"
      using round_pos_le_pow [of x k] assms(1) le by (simp add: k_def)
    also have "2 powi k \<le> round_pos y"
      using round_pos_ge_pow [of y k] ilog2_bounds(1) [OF y0] y0 ey by (simp add: k_def)
    finally show ?thesis .
  qed
qed

lemma round_pos_exact:
  assumes "x = of_int n * 2 powi ulp_exp x"
  shows "round_pos x = x"
proof -
  have "x / 2 powi ulp_exp x = of_int n" by (subst assms) simp
  then have "round_pos x = of_int n * 2 powi ulp_exp x" by (simp add: round_pos_def)
  then show ?thesis using assms by simp
qed

lemma round_pos_of_int:
  assumes "0 < n" "n < 2 ^ 53"
  shows "round_pos (of_int n) = of_int n"
proof -
  let ?x = "of_int n :: rat"
  have "?x < of_int (2 ^ 53)" using assms(2) by (simp only: of_int_less_iff)
  then have "?x < 2 powi 53" by simp
  moreover have "2 powi ilog2 ?x \<le> ?x" using assms(1) by (intro ilog2_bounds) simp
  ultimately have "ilog2 ?x < 53" by (intro powi_less2) linarith
  then have e: "ulp_exp ?x \<le> 0" by (simp add: ulp_exp_def)
  have "of_int (n * 2 ^ nat (- ulp_exp ?x)) * 2 powi ulp_exp ?x = ?x * (2 powi (- ulp_exp ?x) * 2 powi ulp_exp ?x)"
    using e by (simp add: power_int_def)
  also have "\<dots> = ?x" by (simp add: power_int_add [symmetric])
  finally show ?thesis by (intro round_pos_exact [where n = "n * 2 ^ nat (- ulp_exp ?x)"]) simp
qed

subsection \<open>Sign, order and exactness of \<open>rnd\<close>\<close>

text \<open>The comparisons of IEEE 754: every comparison with a NaN is false.\<close>

instantiation f64 :: ord
begin

fun less_f64 :: "f64 \<Rightarrow> f64 \<Rightarrow> bool" where
  "less_f64 (Fin a) (Fin b) = (a < b)"
| "less_f64 (Fin a) PInf = True"
| "less_f64 NInf (Fin b) = True"
| "less_f64 NInf PInf = True"
| "less_f64 _ _ = False"

fun less_eq_f64 :: "f64 \<Rightarrow> f64 \<Rightarrow> bool" where
  "less_eq_f64 (Fin a) (Fin b) = (a \<le> b)"
| "less_eq_f64 (Fin a) PInf = True"
| "less_eq_f64 NInf (Fin b) = True"
| "less_eq_f64 NInf PInf = True"
| "less_eq_f64 PInf PInf = True"
| "less_eq_f64 NInf NInf = True"
| "less_eq_f64 _ _ = False"

instance ..

end

text \<open>\<^verbatim>\<open>==\<close> on \<^verbatim>\<open>f64\<close>: a NaN equals nothing, not even itself.\<close>

definition f64_eq :: "f64 \<Rightarrow> f64 \<Rightarrow> bool" where
  "f64_eq x y \<longleftrightarrow> x \<noteq> NaN \<and> x = y"

fun is_finite :: "f64 \<Rightarrow> bool" where
  "is_finite (Fin _) = True"
| "is_finite _ = False"

lemma is_finite_iff: "is_finite x \<longleftrightarrow> (\<exists>q. x = Fin q)"
  by (cases x) auto

lemma f64_le_trans: "(x::f64) \<le> y \<Longrightarrow> y \<le> z \<Longrightarrow> x \<le> z"
  by (cases x; cases y; cases z) auto

lemma f64_less_imp_le: "(x::f64) < y \<Longrightarrow> x \<le> y"
  by (cases x; cases y) auto

lemma f64_not_less: "x \<noteq> NaN \<Longrightarrow> y \<noteq> NaN \<Longrightarrow> \<not> x < y \<longleftrightarrow> y \<le> (x::f64)"
  by (cases x; cases y) auto

lemma rnd_0 [simp]: "rnd 0 = Fin 0"
  by (simp add: rnd_def)

lemma rnd_not_NaN [simp]: "rnd x \<noteq> NaN"
  by (simp add: rnd_def Let_def)

lemma rnd_nonneg: "0 \<le> x \<Longrightarrow> Fin 0 \<le> rnd x"
  using round_pos_nonneg [of x] by (auto simp: rnd_def Let_def)

lemma rnd_nonpos: "x \<le> 0 \<Longrightarrow> rnd x \<le> Fin 0"
  using round_pos_nonneg [of "- x"] by (auto simp: rnd_def Let_def)

lemma rnd_mono:
  assumes "x \<le> y"
  shows "rnd x \<le> rnd y"
proof (cases "0 < x")
  case True
  then have "round_pos x \<le> round_pos y" using assms by (rule round_pos_mono)
  with True assms show ?thesis by (auto simp: rnd_def Let_def)
next
  case False
  show ?thesis
  proof (cases "y < 0")
    case True
    then have "round_pos (- y) \<le> round_pos (- x)" using assms by (intro round_pos_mono) auto
    with True assms show ?thesis by (auto simp: rnd_def Let_def)
  next
    case False
    with \<open>\<not> 0 < x\<close> have "rnd x \<le> Fin 0" "Fin 0 \<le> rnd y"
      by (auto intro: rnd_nonneg rnd_nonpos)
    then show ?thesis by (rule f64_le_trans)
  qed
qed

lemma rnd_of_int:
  assumes "\<bar>n\<bar> < 2 ^ 53"
  shows "rnd (of_int n) = Fin (of_int n)"
proof (cases "n = 0")
  case False
  have r: "round_pos (of_int \<bar>n\<bar>) = of_int \<bar>n\<bar>"
    using assms False by (intro round_pos_of_int) auto
  have "(of_int \<bar>n\<bar> :: rat) < of_int (2 ^ 53)" using assms by (simp only: of_int_less_iff)
  also have "\<dots> \<le> (2::rat) ^ 1024" by simp
  finally have "\<not> (2::rat) ^ 1024 \<le> of_int \<bar>n\<bar>" by simp
  with r False show ?thesis by (auto simp: rnd_def Let_def)
qed simp

lemma rnd_numeral [simp]: "(numeral k :: int) < 2 ^ 53 \<Longrightarrow> rnd (numeral k) = Fin (numeral k)"
  using rnd_of_int [of "numeral k"] by simp

lemma rnd_1 [simp]: "rnd 1 = Fin 1"
  using rnd_of_int [of 1] by simp

text \<open>A dyadic rational with fewer than 54 significant bits is itself a \<^verbatim>\<open>f64\<close>.\<close>

lemma round_pos_dyadic:
  assumes "0 < x" "x * 2 ^ k = of_int n" "n < 2 ^ 53" "k \<le> 1021"
  shows "round_pos x = x"
proof -
  have "of_int n < (of_int (2 ^ 53) :: rat)" using assms(3) by (simp only: of_int_less_iff)
  then have "x * 2 ^ k < 2 powi 53" by (simp add: assms(2))
  then have "x < 2 powi (53 - int k)" by (simp add: power_int_diff less_divide_eq)
  then have "2 powi ilog2 x < (2::rat) powi (53 - int k)"
    using ilog2_bounds(1) [OF assms(1)] by linarith
  then have "ilog2 x < 53 - int k" by (rule powi_less2)
  then have e: "ulp_exp x \<le> - int k" using assms(4) by (simp add: ulp_exp_def)
  define m where "m = n * 2 ^ nat (- int k - ulp_exp x)"
  have "(2::rat) ^ nat (- int k - ulp_exp x) = 2 powi (- int k - ulp_exp x)"
    using e by (simp add: power_int_def)
  then have "of_int m * 2 powi ulp_exp x = of_int n * (2 powi (- int k - ulp_exp x) * 2 powi ulp_exp x :: rat)"
    by (simp add: m_def)
  also have "\<dots> = of_int n * 2 powi (- int k)" by (simp add: power_int_add [symmetric])
  also have "\<dots> = x" by (simp add: assms(2) [symmetric] power_int_minus)
  finally show ?thesis by (intro round_pos_exact [where n = m]) simp
qed

lemma rnd_dyadic:
  assumes "\<bar>x\<bar> * 2 ^ k = of_int n" "n < 2 ^ 53" "k \<le> 1021"
  shows "rnd x = Fin x"
proof (cases "x = 0")
  case False
  then have r: "round_pos \<bar>x\<bar> = \<bar>x\<bar>" using round_pos_dyadic [of "\<bar>x\<bar>" k n] assms by simp
  have "\<bar>x\<bar> \<le> \<bar>x\<bar> * 2 ^ k" by (simp add: mult_le_cancel_left1)
  also have "\<dots> < of_int (2 ^ 53)" unfolding assms(1) using assms(2) by (simp only: of_int_less_iff)
  also have "\<dots> \<le> (2::rat) ^ 1024" by simp
  finally have "\<not> (2::rat) ^ 1024 \<le> \<bar>x\<bar>" by simp
  with r False show ?thesis by (auto simp: rnd_def Let_def)
qed simp

lemma rnd_ge_pow:
  assumes "2 powi k \<le> x" "- 1074 \<le> k"
  shows "Fin (2 powi k) \<le> rnd x"
proof -
  have x0: "0 < x" by (rule less_le_trans [OF _ assms(1)]) simp
  have "(2::rat) powi k < 2 powi (ilog2 x + 1)" using assms(1) ilog2_bounds(2) [OF x0] by linarith
  then have k: "k \<le> ilog2 x" using powi_less2 by fastforce
  then have "2 powi ilog2 x \<le> round_pos x"
    using x0 ilog2_bounds(1) [OF x0] assms(2) by (intro round_pos_ge_pow) (auto simp: ulp_exp_def)
  then have "2 powi k \<le> round_pos x" using powi_mono2 [OF k] by linarith
  then show ?thesis using x0 by (auto simp: rnd_def Let_def)
qed

section \<open>Arithmetic\<close>

fun fneg :: "f64 \<Rightarrow> f64" where
  "fneg (Fin a) = Fin (- a)"
| "fneg PInf = NInf"
| "fneg NInf = PInf"
| "fneg NaN = NaN"

fun fadd :: "f64 \<Rightarrow> f64 \<Rightarrow> f64" where
  "fadd (Fin a) (Fin b) = rnd (a + b)"
| "fadd NaN _ = NaN"
| "fadd _ NaN = NaN"
| "fadd PInf NInf = NaN"
| "fadd NInf PInf = NaN"
| "fadd PInf _ = PInf"
| "fadd _ PInf = PInf"
| "fadd NInf _ = NInf"
| "fadd _ NInf = NInf"

definition fsub :: "f64 \<Rightarrow> f64 \<Rightarrow> f64" where
  "fsub x y = fadd x (fneg y)"

text \<open>The sign of a non-NaN value, and the infinity of a sign (a NaN for sign 0).\<close>

fun fsgn :: "f64 \<Rightarrow> rat" where
  "fsgn (Fin a) = sgn a"
| "fsgn PInf = 1"
| "fsgn NInf = - 1"
| "fsgn NaN = 0"

definition inf_of_sgn :: "rat \<Rightarrow> f64" where
  "inf_of_sgn s = (if 0 < s then PInf else if s < 0 then NInf else NaN)"

fun fmul :: "f64 \<Rightarrow> f64 \<Rightarrow> f64" where
  "fmul (Fin a) (Fin b) = rnd (a * b)"
| "fmul NaN _ = NaN"
| "fmul _ NaN = NaN"
| "fmul x y = inf_of_sgn (fsgn x * fsgn y)"

fun fdiv :: "f64 \<Rightarrow> f64 \<Rightarrow> f64" where
  "fdiv (Fin a) (Fin b) = (if b = 0 then inf_of_sgn (sgn a) else rnd (a / b))"
| "fdiv NaN _ = NaN"
| "fdiv _ NaN = NaN"
| "fdiv (Fin a) _ = Fin 0"
| "fdiv x (Fin b) = inf_of_sgn (fsgn x * (if b < 0 then - 1 else 1))"
| "fdiv _ _ = NaN"

text \<open>\<^verbatim>\<open>f64::max\<close> ignores a NaN operand; \<^verbatim>\<open>f64::clamp\<close> keeps one.\<close>

definition fmax :: "f64 \<Rightarrow> f64 \<Rightarrow> f64" where
  "fmax x y = (if x = NaN then y else if y = NaN then x else if x < y then y else x)"

definition fmin :: "f64 \<Rightarrow> f64 \<Rightarrow> f64" where
  "fmin x y = (if x = NaN then y else if y = NaN then x else if y < x then y else x)"

definition fclamp :: "f64 \<Rightarrow> f64 \<Rightarrow> f64 \<Rightarrow> f64" where
  "fclamp lo hi x = (if x < lo then lo else if hi < x then hi else x)"

text \<open>\<^verbatim>\<open>n as f64\<close>, and the saturating \<^verbatim>\<open>x as u64\<close>.\<close>

definition f64_of_nat :: "nat \<Rightarrow> f64" where
  "f64_of_nat n = rnd (of_nat n)"

definition f64_of_int :: "int \<Rightarrow> f64" where
  "f64_of_int n = rnd (of_int n)"

fun f64_to_nat :: "nat \<Rightarrow> f64 \<Rightarrow> nat" where
  "f64_to_nat w (Fin a) = min (nat \<lfloor>a\<rfloor>) (2 ^ w - 1)"
| "f64_to_nat w PInf = 2 ^ w - 1"
| "f64_to_nat w NInf = 0"
| "f64_to_nat w NaN = 0"

lemma fneg_eq_NaN [simp]: "fneg x = NaN \<longleftrightarrow> x = NaN"
  by (cases x) auto

lemma fsub_Fin [simp]: "fsub (Fin a) (Fin b) = rnd (a - b)"
  by (simp add: fsub_def)

text \<open>A value of the format: a finite one is its own rounding.\<close>

definition f64_ok :: "f64 \<Rightarrow> bool" where
  "f64_ok v = (case v of Fin x \<Rightarrow> rnd x = Fin x | _ \<Rightarrow> True)"

lemma fsub_finite:
  assumes "f64_ok (Fin x)" "0 \<le> y" "y \<le> x"
  shows "\<exists>z. fsub (Fin x) (Fin y) = Fin z \<and> 0 \<le> z"
proof -
  have "rnd (x - y) \<le> rnd x" using assms(2) by (intro rnd_mono) simp
  moreover have "Fin 0 \<le> rnd (x - y)" using assms(3) by (intro rnd_nonneg) simp
  ultimately show ?thesis using assms(1) by (cases "rnd (x - y)") (auto simp: f64_ok_def)
qed

lemma fsub_pos_less: "Fin 0 < fsub (Fin x) (Fin y) \<Longrightarrow> y < x"
proof (rule ccontr)
  assume a: "Fin 0 < fsub (Fin x) (Fin y)" "\<not> y < x"
  then have "rnd (x - y) \<le> Fin 0" by (intro rnd_nonpos) simp
  then show False using a(1) by (cases "rnd (x - y)") auto
qed

lemma nonneg_not_NaN: "Fin 0 \<le> x \<Longrightarrow> x \<noteq> NaN"
  by auto

lemma fsub_self_nonneg: "is_finite x \<Longrightarrow> is_finite y \<Longrightarrow> y \<le> x \<Longrightarrow> Fin 0 \<le> fsub x y"
  by (auto simp: is_finite_iff intro!: rnd_nonneg)

lemma inf_of_sgn_nonneg: "0 < s \<Longrightarrow> Fin 0 \<le> inf_of_sgn s"
  by (simp add: inf_of_sgn_def)

lemma fdiv_nonneg: "Fin 0 \<le> x \<Longrightarrow> 0 < b \<Longrightarrow> Fin 0 \<le> fdiv x (Fin b)"
  by (cases x) (auto intro!: rnd_nonneg inf_of_sgn_nonneg)

lemma fmul_nonneg: "Fin 0 \<le> x \<Longrightarrow> 0 < b \<Longrightarrow> Fin 0 \<le> fmul x (Fin b)"
  by (cases x) (auto intro!: rnd_nonneg inf_of_sgn_nonneg)

lemma fadd_nonneg: "Fin 0 \<le> x \<Longrightarrow> Fin 0 \<le> y \<Longrightarrow> Fin 0 \<le> fadd x y"
  by (cases x; cases y) (auto intro!: rnd_nonneg)

lemma f64_of_nat_nonneg [simp]: "Fin 0 \<le> f64_of_nat n"
  by (simp add: f64_of_nat_def rnd_nonneg)

lemma f64_of_nat_not_NaN [simp]: "f64_of_nat n \<noteq> NaN"
  by (simp add: f64_of_nat_def)

lemma f64_of_nat_mono: "m \<le> n \<Longrightarrow> f64_of_nat m \<le> f64_of_nat n"
  by (simp add: f64_of_nat_def rnd_mono)

lemma f64_of_nat_exact: "n < 2 ^ 53 \<Longrightarrow> f64_of_nat n = Fin (of_nat n)"
  using rnd_of_int [of "int n"] by (simp add: f64_of_nat_def)

lemma f64_of_nat_pos:
  assumes "0 < n"
  shows "Fin 1 \<le> f64_of_nat n"
  using rnd_mono [of 1 "of_nat n"] assms by (simp add: f64_of_nat_def)

lemma rnd_le_pow:
  assumes "0 \<le> x" "x \<le> 2 powi k" "0 \<le> k" "k < 1024"
  shows "is_finite (rnd x) \<and> rnd x \<le> Fin (2 powi k)"
proof (cases "x = 0")
  case False
  then have pos: "0 < x" using assms(1) by simp
  have "2 powi ilog2 x \<le> x" using pos by (intro ilog2_bounds)
  also note assms(2)
  also have "(2::rat) powi k < 2 powi (k + 1)" by (simp add: power_int_strict_increasing)
  finally have "ilog2 x < k + 1" by (rule powi_less2)
  then have "ulp_exp x \<le> k" using assms(3) unfolding ulp_exp_def by linarith
  then have r: "round_pos x \<le> 2 powi k" using pos assms(2) by (intro round_pos_le_pow) auto
  also have "(2::rat) powi k < 2 powi 1024" using assms(4) by (rule power_int_strict_increasing) simp
  finally have "round_pos x < 2 ^ 1024" by (simp add: power_int_def)
  then show ?thesis using pos r by (simp add: rnd_def Let_def)
qed (use assms in simp)

lemma f64_of_nat_u64_finite:
  assumes "n < 2 ^ 64"
  shows "is_finite (f64_of_nat n) \<and> f64_of_nat n \<le> Fin (2 powi 64)"
proof -
  have "(of_nat n :: rat) \<le> of_nat (2 ^ 64)" using assms of_nat_le_iff by (metis less_imp_le)
  then have "(of_nat n :: rat) \<le> 2 powi 64" by simp
  then show ?thesis unfolding f64_of_nat_def by (intro rnd_le_pow) simp_all
qed

text \<open>The rounding of a number whose significand is scaled to an integer by \<open>2^s\<close>.\<close>

lemma rnd_frac:
  assumes "2 ^ 52 \<le> x * 2 ^ s" "x * 2 ^ s < 2 ^ 53" "s \<le> 1074"
  shows "rnd x = Fin (of_int (round_half_even (x * 2 ^ s)) / 2 ^ s)"
proof -
  have "0 < x * 2 ^ s" by (rule less_le_trans [OF _ assms(1)]) simp
  then have x0: "0 < x" by (simp add: zero_less_mult_iff)
  have e: "(2::rat) powi (52 - int s) = 2 ^ 52 / 2 ^ s" "(2::rat) powi (52 - int s + 1) = 2 ^ 53 / 2 ^ s"
    by (simp_all add: power_int_diff power_int_add)
  have "ilog2 x = 52 - int s"
    using x0 assms(1,2) by (intro ilog2_eqI) (simp_all only: e, simp_all add: divide_le_eq less_divide_eq)
  then have "ulp_exp x = - int s" using assms(3) by (simp add: ulp_exp_def)
  then have r: "round_pos x = of_int (round_half_even (x * 2 ^ s)) / 2 ^ s"
    by (simp add: round_pos_def power_int_minus divide_inverse)
  have "x < 2 ^ 53 / 2 ^ s" using assms(2) by (simp add: less_divide_eq)
  also have "\<dots> \<le> 2 ^ 53" by (simp add: divide_le_eq)
  finally have "x \<le> 2 powi 53" by simp
  then have "is_finite (rnd x)" using x0 rnd_le_pow [of x 53] by simp
  then show ?thesis using x0 by (auto simp: rnd_def Let_def r split: if_splits)
qed

lemma floor_num: "\<lfloor>numeral a / numeral b :: rat\<rfloor> = numeral a div numeral b"
  using floor_divide_of_int_eq [of "numeral a" "numeral b", where ?'a = rat] by simp

lemma fclamp_in_range: "lo \<le> hi \<Longrightarrow> x \<noteq> NaN \<Longrightarrow> lo \<le> fclamp lo hi x \<and> fclamp lo hi x \<le> hi"
  by (cases x; cases lo; cases hi) (auto simp: fclamp_def)

lemma fclamp_id: "lo \<le> x \<Longrightarrow> x \<le> hi \<Longrightarrow> fclamp lo hi x = x"
  by (cases x; cases lo; cases hi) (auto simp: fclamp_def)

lemma fmax_ge: "lo \<noteq> NaN \<Longrightarrow> lo \<le> fmax x lo"
  by (cases x; cases lo) (auto simp: fmax_def)

text \<open>A share of a whole never leaves \<open>0..100\<close>, whatever the roundings do.\<close>

lemma share_percent_bounds:
  assumes "Fin 0 \<le> x" "x \<le> y" "is_finite y" "Fin 0 < y"
  shows "Fin 0 \<le> fmul (fdiv x y) (Fin 100)" "fmul (fdiv x y) (Fin 100) \<le> Fin 100"
proof -
  obtain b where y: "y = Fin b" using assms(3) by (auto simp: is_finite_iff)
  then obtain a where x: "x = Fin a" using assms(1,2) by (cases x) auto
  have ab: "0 \<le> a" "a \<le> b" "0 < b" using assms by (simp_all add: x y)
  have "rnd (a / b) \<le> rnd 1" using ab by (intro rnd_mono) simp
  moreover have "Fin 0 \<le> rnd (a / b)" using ab by (intro rnd_nonneg) simp
  ultimately obtain q where q: "rnd (a / b) = Fin q" "0 \<le> q" "q \<le> 1"
    by (cases "rnd (a / b)") auto
  have "Fin 0 \<le> rnd (q * 100)" using q by (intro rnd_nonneg) simp
  moreover have "rnd (q * 100) \<le> rnd 100" using q by (intro rnd_mono) simp
  ultimately show "Fin 0 \<le> fmul (fdiv x y) (Fin 100)" "fmul (fdiv x y) (Fin 100) \<le> Fin 100"
    using ab q by (simp_all add: x y)
qed

end
