(* ===== verification/Prelude.thy ===== *)
theory Prelude
  imports F64 "HOL-Library.Word" "HOL-Library.Option_ord" "HOL-Library.List_Lexorder"
    "HOL-Library.Code_Target_Nat"
begin

text \<open>
  What every component shares: the machine integer types and Rust's saturating operations on
  them, durations and instants, and the generic lemmas on options and lists.  An
  \<^verbatim>\<open>Instant\<close> is the number of nanoseconds since a fixed origin of the
  monotonic clock and a \<^verbatim>\<open>Duration\<close> a number of nanoseconds, so
  \<^verbatim>\<open>saturating_duration_since\<close> is subtraction on \<open>nat\<close>.
\<close>

named_theorems sat_simps \<open>saturating word operations read as naturals\<close>
named_theorems inv_intros \<open>preservation of a component's invariant\<close>
named_theorems frame_simps \<open>fields an operation leaves alone\<close>

type_synonym u16 = "16 word"
type_synonym u32 = "32 word"
type_synonym u64 = "64 word"
type_synonym instant = nat
type_synonym duration = nat

section \<open>Saturating words\<close>

definition sat_add :: "'a::len word \<Rightarrow> 'a word \<Rightarrow> 'a word" where
  "sat_add a b = (if unat a + unat b < 2 ^ LENGTH('a) then a + b else - 1)"

definition sat_sub :: "'a::len word \<Rightarrow> 'a word \<Rightarrow> 'a word" where
  "sat_sub a b = (if a < b then 0 else a - b)"

definition clampw :: "'a::len word \<Rightarrow> 'a word \<Rightarrow> 'a word \<Rightarrow> 'a word" where
  "clampw lo hi x = (if x < lo then lo else if hi < x then hi else x)"

lemma unat_max_word: "unat (- 1 :: 'a::len word) = 2 ^ LENGTH('a) - 1"
  by (simp add: unsigned_minus_1_eq_mask mask_eq_exp_minus_1)

lemma unat_sat_add [sat_simps]:
  "unat (sat_add a b) = min (unat a + unat b) (2 ^ LENGTH('a) - 1)" for a b :: "'a::len word"
  using unsigned_less [of a, where ?'a = nat] unat_max_word by (auto simp: sat_add_def unat_word_ariths)

lemma unat_sat_sub [sat_simps]: "unat (sat_sub a b) = unat a - unat b"
  by (auto simp: sat_sub_def word_less_nat_alt unat_sub word_le_nat_alt)

lemma sat_add_zero [simp]: "sat_add a 0 = a" "sat_add 0 a = a"
  by (simp_all add: sat_add_def)

lemma unat_le_max: "unat a \<le> 2 ^ LENGTH('a) - Suc 0" for a :: "'a::len word"
proof -
  have "unat a < 2 ^ LENGTH('a)" by (rule unsigned_less)
  then show ?thesis by linarith
qed

lemma sat_add_ge: "a \<le> sat_add a b" "b \<le> sat_add a b"
  using unat_le_max [of a] unat_le_max [of b] by (auto simp: word_le_nat_alt sat_simps)

lemma clampw_bounds: "lo \<le> hi \<Longrightarrow> lo \<le> clampw lo hi x \<and> clampw lo hi x \<le> hi"
  by (auto simp: clampw_def not_less)

lemma clampw_id: "lo \<le> x \<Longrightarrow> x \<le> hi \<Longrightarrow> clampw lo hi x = x"
  by (auto simp: clampw_def not_less)

lemma clampw_idem [simp]: "lo \<le> hi \<Longrightarrow> clampw lo hi (clampw lo hi x) = clampw lo hi x"
  by (simp add: clampw_id clampw_bounds)

text \<open>\<^verbatim>\<open>n as f64\<close> and \<^verbatim>\<open>x as u64\<close>.\<close>

definition f64_of_u64 :: "u64 \<Rightarrow> f64" where
  "f64_of_u64 w = f64_of_nat (unat w)"

definition u64_of_f64 :: "f64 \<Rightarrow> u64" where
  "u64_of_f64 x = of_nat (f64_to_nat 64 x)"

lemma f64_of_u64_finite [simp]: "is_finite (f64_of_u64 w)"
  using f64_of_nat_u64_finite [of "unat w"] unsigned_less [of w, where ?'a = nat] by (simp add: f64_of_u64_def)

lemma f64_of_u64_nonneg [simp]: "Fin 0 \<le> f64_of_u64 w"
  by (simp add: f64_of_u64_def)

section \<open>Durations\<close>

abbreviation (input) ms :: "nat \<Rightarrow> duration" where
  "ms n \<equiv> n * 1000000"

abbreviation (input) secs :: "nat \<Rightarrow> duration" where
  "secs n \<equiv> n * 1000000000"

text \<open>\<^verbatim>\<open>Duration::as_secs_f64\<close>: whole seconds plus nanoseconds over \<open>10^9\<close>.\<close>

definition as_secs_f64 :: "duration \<Rightarrow> f64" where
  "as_secs_f64 d = fadd (f64_of_nat (d div 1000000000))
     (fdiv (f64_of_nat (d mod 1000000000)) (f64_of_nat 1000000000))"

lemma ns_ge_pow: "1 / 1000000000 \<le> x \<Longrightarrow> 2 powi (- 30) \<le> (x::rat)"
  by (rule order_trans [of _ "1 / 1000000000"]) (simp_all add: power_int_def field_simps)

lemma f64_of_nat_ns: "n \<le> 1000000000 \<Longrightarrow> f64_of_nat n = Fin (of_nat n)"
  by (simp add: f64_of_nat_exact)

lemma as_secs_f64_parts:
  "as_secs_f64 d = fadd (f64_of_nat (d div 1000000000)) (rnd (of_nat (d mod 1000000000) / 1000000000))"
  using mod_less_divisor [of 1000000000 d] by (simp add: as_secs_f64_def f64_of_nat_ns)

lemma as_secs_f64_0 [simp]: "as_secs_f64 0 = Fin 0"
  by (simp add: as_secs_f64_parts f64_of_nat_exact)

text \<open>Instants within the range of the clock, where a difference in seconds is finite.\<close>

definition INSTANT_BOUND :: nat where
  "INSTANT_BOUND = 2 ^ 93"

lemma as_secs_f64_finite:
  assumes "d < INSTANT_BOUND"
  shows "is_finite (as_secs_f64 d)"
proof -
  have "d div 1000000000 < 2 ^ 64" using assms by (simp add: INSTANT_BOUND_def less_mult_imp_div_less)
  then have a: "is_finite (f64_of_nat (d div 1000000000))" "f64_of_nat (d div 1000000000) \<le> Fin (2 powi 64)"
    using f64_of_nat_u64_finite by blast+
  have b: "is_finite (rnd (of_nat (d mod 1000000000) / 1000000000)) \<and> rnd (of_nat (d mod 1000000000) / 1000000000) \<le> Fin (2 powi 0)"
    by (rule rnd_le_pow) (simp_all add: less_imp_le)
  obtain x y where xy: "f64_of_nat (d div 1000000000) = Fin x" "rnd (of_nat (d mod 1000000000) / 1000000000) = Fin y"
    using a b by (auto simp: is_finite_iff)
  have "Fin 0 \<le> Fin x" unfolding xy(1) [symmetric] by simp
  moreover have "Fin 0 \<le> Fin y" unfolding xy(2) [symmetric] by (rule rnd_nonneg) simp
  ultimately have "0 \<le> x + y" "x + y \<le> 2 powi 65" using a b by (simp_all add: xy)
  then have "is_finite (rnd (x + y))" using rnd_le_pow [of "x + y" 65] by simp
  then show ?thesis by (simp add: as_secs_f64_parts xy)
qed

lemma pow_le_imp_pos: "Fin (2 powi k) \<le> x \<Longrightarrow> Fin 0 < x"
  by (cases x) (auto intro: less_le_trans [of _ "2 powi k"])

lemma as_secs_f64_pos:
  assumes "0 < d"
  shows "Fin 0 < as_secs_f64 d"
proof (cases "d < 1000000000")
  case True
  define x :: rat where "x = of_nat d / 1000000000"
  have "1 / 1000000000 \<le> x" using assms by (simp add: x_def divide_right_mono)
  then have r: "Fin (2 powi (- 30)) \<le> rnd x" by (intro rnd_ge_pow ns_ge_pow) auto
  have "rnd x \<le> rnd 1" using True by (intro rnd_mono) (simp add: x_def)
  then obtain q where q: "rnd x = Fin q" using r by (cases "rnd x") auto
  have "Fin (2 powi (- 30)) \<le> rnd q" using r q by (intro rnd_ge_pow) auto
  then have "Fin 0 < rnd q" by (rule pow_le_imp_pos)
  then show ?thesis using True q by (simp add: as_secs_f64_parts f64_of_nat_exact x_def)
next
  case False
  then have one: "Fin 1 \<le> f64_of_nat (d div 1000000000)" by (intro f64_of_nat_pos) simp
  define n where "n = d div 1000000000"
  define y where "y = rnd (of_nat (d mod 1000000000) / 1000000000)"
  have y: "Fin 0 \<le> y" unfolding y_def by (intro rnd_nonneg) simp
  have "Fin 0 < fadd (f64_of_nat n) y"
  proof (cases "\<exists>a b. f64_of_nat n = Fin a \<and> y = Fin b")
    case True
    then obtain a b where ab: "f64_of_nat n = Fin a" "y = Fin b" by blast
    have "2 powi 0 \<le> a + b" using ab one y by (simp add: n_def)
    then have "Fin (2 powi 0) \<le> rnd (a + b)" by (rule rnd_ge_pow) simp
    then show ?thesis unfolding ab fadd.simps by (rule pow_le_imp_pos)
  next
    case False
    then show ?thesis using one y by (cases "f64_of_nat n"; cases y) (auto simp: n_def)
  qed
  then show ?thesis by (simp add: as_secs_f64_parts n_def y_def)
qed

section \<open>Optional values\<close>

text \<open>\<^verbatim>\<open>Option::filter\<close>, \<^verbatim>\<open>or\<close>, \<^verbatim>\<open>is_some_and\<close>, \<^verbatim>\<open>is_none_or\<close> and \<^verbatim>\<open>unwrap_or\<close>.\<close>

definition opt_filter :: "('a \<Rightarrow> bool) \<Rightarrow> 'a option \<Rightarrow> 'a option" where
  "opt_filter p o' = (case o' of Some x \<Rightarrow> if p x then Some x else None | None \<Rightarrow> None)"

definition opt_or :: "'a option \<Rightarrow> 'a option \<Rightarrow> 'a option" where
  "opt_or a b = (case a of Some x \<Rightarrow> Some x | None \<Rightarrow> b)"

definition is_some_and :: "('a \<Rightarrow> bool) \<Rightarrow> 'a option \<Rightarrow> bool" where
  "is_some_and p x = (case x of Some y \<Rightarrow> p y | None \<Rightarrow> False)"

definition is_none_or :: "('a \<Rightarrow> bool) \<Rightarrow> 'a option \<Rightarrow> bool" where
  "is_none_or p x = (case x of None \<Rightarrow> True | Some y \<Rightarrow> p y)"

definition unwrap_or :: "'a \<Rightarrow> 'a option \<Rightarrow> 'a" where
  "unwrap_or d x = (case x of Some y \<Rightarrow> y | None \<Rightarrow> d)"

lemma unwrap_or_simps [simp]: "unwrap_or d None = d" "unwrap_or d (Some x) = x"
  by (simp_all add: unwrap_or_def)

end
