(* ===== verification/RStr.thy ===== *)
theory RStr
  imports Prelude
begin

text \<open>
  Rust strings and the standard-library operations the code uses on them.  A
  \<^verbatim>\<open>str\<close> is the list of its Unicode scalar values, each a
  \<open>nat\<close>; \<open>lit\<close> turns an ASCII literal into one.  Byte lengths, where the
  code measures them, go through \<open>utf8_len\<close>.  Comparison of strings is the
  lexicographic order of \<^verbatim>\<open>HOL-Library.List_Lexorder\<close>, which on scalar values is
  the byte order Rust's \<^verbatim>\<open>Ord\<close> uses on UTF-8.

  The lemmas give the algebra the parsers and printers need: trimming is idempotent,
  splitting undoes joining, and decimal printing is undone by decimal parsing.
\<close>

type_synonym rchar = nat
type_synonym rstr = "nat list"

definition lit :: "string \<Rightarrow> rstr" where
  "lit s = map of_char s"

lemma lit_eq_iff [simp]: "lit s = lit t \<longleftrightarrow> s = t"
  by (simp add: lit_def inj_map_eq_map inj_on_def)

lemma lit_Nil [simp]: "lit [] = []"
  by (simp add: lit_def)

lemma lit_eq_Nil [simp]: "lit s = [] \<longleftrightarrow> s = []"
  by (simp add: lit_def)

lemma lit_append [simp]: "lit (s @ t) = lit s @ lit t"
  by (simp add: lit_def)

lemma lit_Cons: "lit (c # s) = of_char c # lit s"
  by (simp add: lit_def)

section \<open>Characters\<close>

text \<open>Unicode \<^verbatim>\<open>White_Space\<close> and \<^verbatim>\<open>Cc\<close>.\<close>

definition is_ws :: "rchar \<Rightarrow> bool" where
  "is_ws c \<longleftrightarrow> (9 \<le> c \<and> c \<le> 13) \<or> c = 32 \<or> c = 133 \<or> c = 160 \<or> c = 5760
     \<or> (8192 \<le> c \<and> c \<le> 8202) \<or> c = 8232 \<or> c = 8233 \<or> c = 8239 \<or> c = 8287 \<or> c = 12288"

definition is_ctl :: "rchar \<Rightarrow> bool" where
  "is_ctl c \<longleftrightarrow> c \<le> 31 \<or> (127 \<le> c \<and> c \<le> 159)"

definition is_digit :: "rchar \<Rightarrow> bool" where
  "is_digit c \<longleftrightarrow> 48 \<le> c \<and> c \<le> 57"

definition is_alnum :: "rchar \<Rightarrow> bool" where
  "is_alnum c \<longleftrightarrow> is_digit c \<or> (65 \<le> c \<and> c \<le> 90) \<or> (97 \<le> c \<and> c \<le> 122)"

definition is_hex :: "rchar \<Rightarrow> bool" where
  "is_hex c \<longleftrightarrow> is_digit c \<or> (65 \<le> c \<and> c \<le> 70) \<or> (97 \<le> c \<and> c \<le> 102)"

definition lower_char :: "rchar \<Rightarrow> rchar" where
  "lower_char c = (if 65 \<le> c \<and> c \<le> 90 then c + 32 else c)"

abbreviation lower :: "rstr \<Rightarrow> rstr" where
  "lower \<equiv> map lower_char"

definition utf8_len :: "rchar \<Rightarrow> nat" where
  "utf8_len c = (if c < 128 then 1 else if c < 2048 then 2 else if c < 65536 then 3 else 4)"

definition byte_len :: "rstr \<Rightarrow> nat" where
  "byte_len s = sum_list (map utf8_len s)"

lemma digit_not_ws [simp]: "is_digit c \<Longrightarrow> \<not> is_ws c"
  by (auto simp: is_digit_def is_ws_def)

lemma lower_char_idem [simp]: "lower_char (lower_char c) = lower_char c"
  by (simp add: lower_char_def)

lemma lower_char_comp [simp]: "lower_char \<circ> lower_char = lower_char"
  by (simp add: fun_eq_iff)

lemma lower_idem [simp]: "lower (lower s) = lower s"
  by (simp add: comp_def)

lemma is_hex_lower [simp]: "is_hex (lower_char c) = is_hex c"
  by (auto simp: is_hex_def is_digit_def lower_char_def)

lemma is_ws_lower [simp]: "is_ws (lower_char c) = is_ws c"
  by (auto simp: is_ws_def lower_char_def)

lemma length_le_byte_len: "length s \<le> byte_len s"
  by (induction s) (auto simp: byte_len_def utf8_len_def)

lemma byte_len_ascii: "\<forall>c \<in> set s. c < 128 \<Longrightarrow> byte_len s = length s"
  by (induction s) (auto simp: byte_len_def utf8_len_def)

section \<open>Trimming\<close>

definition trim_start_by :: "(rchar \<Rightarrow> bool) \<Rightarrow> rstr \<Rightarrow> rstr" where
  "trim_start_by p s = dropWhile p s"

definition trim_end_by :: "(rchar \<Rightarrow> bool) \<Rightarrow> rstr \<Rightarrow> rstr" where
  "trim_end_by p s = rev (dropWhile p (rev s))"

abbreviation trim_start :: "rstr \<Rightarrow> rstr" where
  "trim_start \<equiv> trim_start_by is_ws"

definition trim :: "rstr \<Rightarrow> rstr" where
  "trim s = trim_end_by is_ws (trim_start_by is_ws s)"

lemma set_trim_start_by: "set (trim_start_by p s) \<subseteq> set s"
  by (auto simp: trim_start_by_def dest: set_dropWhileD)

lemma set_trim_end_by: "set (trim_end_by p s) \<subseteq> set s"
  by (auto simp: trim_end_by_def dest: set_dropWhileD)

lemma set_trim: "set (trim s) \<subseteq> set s"
  using set_trim_end_by set_trim_start_by unfolding trim_def by blast

lemma trim_end_by_prefix: "\<exists>u. s = trim_end_by p s @ u \<and> (\<forall>c \<in> set u. p c)"
proof -
  have "rev s = takeWhile p (rev s) @ dropWhile p (rev s)" by simp
  then have "s = rev (dropWhile p (rev s)) @ rev (takeWhile p (rev s))"
    by (metis rev_append rev_rev_ident)
  then show ?thesis unfolding trim_end_by_def by (metis set_rev set_takeWhileD)
qed

definition trimmed :: "rstr \<Rightarrow> bool" where
  "trimmed s \<longleftrightarrow> s = [] \<or> (\<not> is_ws (hd s) \<and> \<not> is_ws (last s))"

lemma trim_start_by_id: "s = [] \<or> \<not> p (hd s) \<Longrightarrow> trim_start_by p s = s"
  by (cases s) (auto simp: trim_start_by_def)

lemma trim_end_by_id: "s = [] \<or> \<not> p (last s) \<Longrightarrow> trim_end_by p s = s"
  by (cases s rule: rev_cases) (auto simp: trim_end_by_def)

lemma trim_end_by_last: "trim_end_by p s \<noteq> [] \<Longrightarrow> \<not> p (last (trim_end_by p s))"
  unfolding trim_end_by_def using hd_dropWhile [of p "rev s"] by (simp add: last_rev)

lemma trim_end_by_hd: "trim_end_by p s \<noteq> [] \<Longrightarrow> hd (trim_end_by p s) = hd s"
  using trim_end_by_prefix [of s p] by (metis hd_append2)

lemma trimmed_trim [simp]: "trimmed (trim s)"
proof (cases "trim s = []")
  case False
  let ?t = "trim_start_by is_ws s"
  have "hd (trim s) = hd ?t" using False unfolding trim_def by (rule trim_end_by_hd)
  moreover have "?t \<noteq> []" using False by (auto simp: trim_def trim_end_by_def)
  then have "\<not> is_ws (hd ?t)" unfolding trim_start_by_def by (rule hd_dropWhile)
  ultimately show ?thesis using False trim_end_by_last [of is_ws ?t] by (simp add: trimmed_def trim_def)
qed (simp add: trimmed_def)

lemma trim_id: "trimmed s \<Longrightarrow> trim s = s"
  by (auto simp: trimmed_def trim_def trim_start_by_id trim_end_by_id)

lemma trim_trim [simp]: "trim (trim s) = trim s"
  by (simp add: trim_id)

lemma trim_Nil [simp]: "trim [] = []"
  by (simp add: trim_def trim_start_by_def trim_end_by_def)

lemma trimmed_no_ws: "\<forall>c \<in> set s. \<not> is_ws c \<Longrightarrow> trimmed s"
  by (cases s) (auto simp: trimmed_def)

lemma trim_end_by_snoc [simp]: "p c \<Longrightarrow> trim_end_by p (s @ [c]) = trim_end_by p s"
  by (simp add: trim_end_by_def)

lemma trim_snoc_ws: "is_ws c \<Longrightarrow> trim (s @ [c]) = trim s"
proof (cases "\<forall>x \<in> set s. is_ws x")
  case True
  then have "dropWhile is_ws s = []" by simp
  moreover assume "is_ws c"
  ultimately show ?thesis using True by (simp add: trim_def trim_start_by_def dropWhile_append del: dropWhile_eq_Nil_conv)
next
  case False
  moreover assume "is_ws c"
  ultimately show ?thesis by (auto simp: trim_def trim_start_by_def dropWhile_append)
qed

section \<open>Prefixes, substrings and splitting\<close>

definition strip_prefix :: "rstr \<Rightarrow> rstr \<Rightarrow> rstr option" where
  "strip_prefix p s = (if take (length p) s = p then Some (drop (length p) s) else None)"

definition starts_with :: "rstr \<Rightarrow> rstr \<Rightarrow> bool" where
  "starts_with p s \<longleftrightarrow> take (length p) s = p"

definition strip_suffix :: "rstr \<Rightarrow> rstr \<Rightarrow> rstr option" where
  "strip_suffix p s = (if length p \<le> length s \<and> drop (length s - length p) s = p
     then Some (take (length s - length p) s) else None)"

lemma strip_prefix_Some: "strip_prefix p s = Some r \<longleftrightarrow> s = p @ r"
  by (auto simp: strip_prefix_def) (metis append_take_drop_id)

lemma strip_prefix_append [simp]: "strip_prefix p (p @ r) = Some r"
  by (simp add: strip_prefix_Some)

lemma starts_with_iff: "starts_with p s \<longleftrightarrow> (\<exists>r. s = p @ r)"
  by (auto simp: starts_with_def) (metis append_take_drop_id)

text \<open>\<^verbatim>\<open>trim_end_matches\<close> of a string removes every trailing repetition.\<close>

function trim_end_str :: "rstr \<Rightarrow> rstr \<Rightarrow> rstr" where
  "trim_end_str suf s = (case (if suf = [] then None else strip_suffix suf s) of
     Some r \<Rightarrow> trim_end_str suf r | None \<Rightarrow> s)"
  by pat_completeness auto
termination
  by (relation "measure (\<lambda>(_, s). length s)") (auto simp: strip_suffix_def neq_Nil_conv split: if_splits)

declare trim_end_str.simps [simp del]

text \<open>Position of the first occurrence of a substring.\<close>

fun find_sub :: "rstr \<Rightarrow> rstr \<Rightarrow> nat option" where
  "find_sub p s = (if starts_with p s then Some 0
     else case s of [] \<Rightarrow> None | _ # t \<Rightarrow> map_option Suc (find_sub p t))"

declare find_sub.simps [simp del]

definition contains_sub :: "rstr \<Rightarrow> rstr \<Rightarrow> bool" where
  "contains_sub p s \<longleftrightarrow> find_sub p s \<noteq> None"

lemma find_sub_SomeD: "find_sub p s = Some i \<Longrightarrow> \<exists>u v. s = u @ p @ v \<and> length u = i"
proof (induction s arbitrary: i)
  case Nil
  then show ?case by (subst (asm) find_sub.simps) (auto simp: starts_with_iff split: if_splits)
next
  case (Cons c s)
  show ?case
  proof (cases "starts_with p (c # s)")
    case True
    then have "i = 0" using Cons.prems by (simp add: find_sub.simps [of p "c # s"])
    then show ?thesis using True by (auto simp: starts_with_iff)
  next
    case False
    then obtain j where "find_sub p s = Some j" "i = Suc j"
      using Cons.prems by (auto simp: find_sub.simps [of p "c # s"])
    with Cons.IH obtain u v where "s = u @ p @ v" "length u = j" by blast
    then have "c # s = (c # u) @ p @ v \<and> length (c # u) = i" using \<open>i = Suc j\<close> by simp
    then show ?thesis by blast
  qed
qed

lemma find_sub_complete: "find_sub p (u @ p @ v) \<noteq> None"
  by (induction u) (subst find_sub.simps; force simp: starts_with_iff)+

lemma contains_sub_iff: "contains_sub p s \<longleftrightarrow> (\<exists>u v. s = u @ p @ v)"
  unfolding contains_sub_def using find_sub_SomeD find_sub_complete by (metis not_None_eq)

lemma find_sub_first:
  "find_sub p s = Some i \<Longrightarrow> s = u @ p @ v \<Longrightarrow> i \<le> length u"
proof (induction s arbitrary: i u)
  case Nil
  then show ?case by (subst (asm) find_sub.simps) (auto split: if_splits)
next
  case (Cons c s)
  show ?case
  proof (cases "starts_with p (c # s)")
    case True
    then show ?thesis using Cons.prems(1) by (simp add: find_sub.simps [of p "c # s"])
  next
    case False
    then obtain j where j: "find_sub p s = Some j" "i = Suc j"
      using Cons.prems(1) by (auto simp: find_sub.simps [of p "c # s"])
    obtain d u' where u: "u = d # u'"
      using False Cons.prems(2) by (cases u) (auto simp: starts_with_iff)
    then show ?thesis using Cons.IH [OF j(1), of u'] Cons.prems(2) j(2) by simp
  qed
qed

text \<open>\<^verbatim>\<open>str::split(char)\<close>: always at least one piece.\<close>

fun split_on :: "rchar \<Rightarrow> rstr \<Rightarrow> rstr list" where
  "split_on d [] = [[]]"
| "split_on d (c # s) = (if c = d then [] # split_on d s
     else case split_on d s of [] \<Rightarrow> [[c]] | p # ps \<Rightarrow> (c # p) # ps)"

fun join :: "rstr \<Rightarrow> rstr list \<Rightarrow> rstr" where
  "join sep [] = []"
| "join sep [p] = p"
| "join sep (p # q # ps) = p @ sep @ join sep (q # ps)"

lemma split_on_not_Nil [simp]: "split_on d s \<noteq> []"
  by (induction s) (auto split: list.splits)

lemma join_split_on: "join [d] (split_on d s) = s"
proof (induction s)
  case (Cons c s)
  then show ?case by (cases "split_on d s") (auto, (cases "tl (split_on d s)"; force)+)
qed simp

lemma split_on_no_sep: "p \<in> set (split_on d s) \<Longrightarrow> d \<notin> set p"
proof (induction s arbitrary: p)
  case (Cons c s)
  obtain q qs where "split_on d s = q # qs" by (cases "split_on d s") auto
  with Cons show ?case by (fastforce split: if_splits)
qed auto

lemma split_on_plain: "d \<notin> set s \<Longrightarrow> split_on d s = [s]"
  by (induction s) auto

lemma split_on_append: "d \<notin> set p \<Longrightarrow> split_on d (p @ d # s) = p # split_on d s"
  by (induction p) auto

lemma split_on_join:
  "ps \<noteq> [] \<Longrightarrow> \<forall>p \<in> set ps. d \<notin> set p \<Longrightarrow> split_on d (join [d] ps) = ps"
  by (induction "[d]" ps rule: join.induct) (auto simp: split_on_plain split_on_append)

text \<open>\<^verbatim>\<open>split_once\<close> and \<^verbatim>\<open>rsplit_once\<close> at a character.\<close>

fun split_once :: "rchar \<Rightarrow> rstr \<Rightarrow> (rstr \<times> rstr) option" where
  "split_once d [] = None"
| "split_once d (c # s) = (if c = d then Some ([], s)
     else map_option (\<lambda>(a, b). (c # a, b)) (split_once d s))"

definition rsplit_once :: "rchar \<Rightarrow> rstr \<Rightarrow> (rstr \<times> rstr) option" where
  "rsplit_once d s = map_option (\<lambda>(a, b). (rev b, rev a)) (split_once d (rev s))"

lemma split_once_Some: "split_once d s = Some (a, b) \<longleftrightarrow> s = a @ d # b \<and> d \<notin> set a"
proof (induction s arbitrary: a)
  case (Cons c s)
  then show ?case by (cases a) (auto split: if_splits)
qed simp

lemma split_once_None: "split_once d s = None \<longleftrightarrow> d \<notin> set s"
  by (induction s) auto

lemma rsplit_once_Some: "rsplit_once d s = Some (a, b) \<longleftrightarrow> s = a @ d # b \<and> d \<notin> set b"
proof -
  have "rsplit_once d s = Some (a, b) \<longleftrightarrow> split_once d (rev s) = Some (rev b, rev a)"
    by (auto simp: rsplit_once_def)
  also have "\<dots> \<longleftrightarrow> s = a @ d # b \<and> d \<notin> set b"
    by (auto simp: split_once_Some) (metis append.assoc append_Cons append_Nil rev.simps(2) rev_append rev_rev_ident)
  finally show ?thesis .
qed

lemma rsplit_once_None: "rsplit_once d s = None \<longleftrightarrow> d \<notin> set s"
  by (simp add: rsplit_once_def split_once_None)

text \<open>\<^verbatim>\<open>str::lines\<close>: pieces ended by LF, a CR before it dropped, no last empty line.\<close>

definition strip_cr :: "rstr \<Rightarrow> rstr" where
  "strip_cr s = (if s \<noteq> [] \<and> last s = 13 then butlast s else s)"

definition lines :: "rstr \<Rightarrow> rstr list" where
  "lines s = (let ps = split_on 10 s in
     map strip_cr (butlast ps) @ (if last ps = [] then [] else [last ps]))"

text \<open>\<^verbatim>\<open>split_whitespace\<close>: the maximal runs of non-whitespace.\<close>

fun words_acc :: "rstr \<Rightarrow> rstr \<Rightarrow> rstr list" where
  "words_acc w [] = (if w = [] then [] else [rev w])"
| "words_acc w (c # s) = (if is_ws c then (if w = [] then words_acc [] s else rev w # words_acc [] s)
     else words_acc (c # w) s)"

definition split_ws :: "rstr \<Rightarrow> rstr list" where
  "split_ws s = words_acc [] s"

lemma words_acc_props:
  "list_all (\<lambda>c. \<not> is_ws c) w \<Longrightarrow>
    list_all (\<lambda>p. p \<noteq> [] \<and> list_all (\<lambda>c. \<not> is_ws c) p) (words_acc w s)"
  by (induction w s rule: words_acc.induct) (simp_all add: list_all_rev)

lemma split_ws_props: "p \<in> set (split_ws s) \<Longrightarrow> p \<noteq> [] \<and> (\<forall>c \<in> set p. \<not> is_ws c)"
  using words_acc_props [of "[]" s] by (simp add: split_ws_def list_all_iff)

section \<open>Numbers\<close>

definition digit_val :: "rchar \<Rightarrow> nat" where
  "digit_val c = c - 48"

definition dec_val :: "rstr \<Rightarrow> nat" where
  "dec_val s = foldl (\<lambda>n c. 10 * n + digit_val c) 0 s"

text \<open>
  \<^verbatim>\<open>str::parse\<close> at an unsigned type of \<open>w\<close> bits: an optional plus sign, at least
  one digit, nothing else, and no overflow.
\<close>

definition parse_nat :: "nat \<Rightarrow> rstr \<Rightarrow> nat option" where
  "parse_nat w s = (let ds = (case s of c # r \<Rightarrow> if c = 43 then r else s | [] \<Rightarrow> s) in
     if ds \<noteq> [] \<and> (\<forall>c \<in> set ds. is_digit c) \<and> dec_val ds < 2 ^ w then Some (dec_val ds) else None)"

definition parse_word :: "rstr \<Rightarrow> 'a::len word option" where
  "parse_word s = map_option of_nat (parse_nat LENGTH('a) s)"

fun show_nat :: "nat \<Rightarrow> rstr" where
  "show_nat n = (if n < 10 then [48 + n] else show_nat (n div 10) @ [48 + n mod 10])"

declare show_nat.simps [simp del]

definition show_word :: "'a::len word \<Rightarrow> rstr" where
  "show_word w = show_nat (unat w)"

lemma dec_val_snoc [simp]: "dec_val (s @ [c]) = 10 * dec_val s + digit_val c"
  by (simp add: dec_val_def)

lemma show_nat_digits: "c \<in> set (show_nat n) \<Longrightarrow> is_digit c"
proof (induction n rule: show_nat.induct)
  case (1 n)
  then show ?case
    by (cases "n < 10") (auto simp: show_nat.simps [of n] is_digit_def)
qed

lemma show_nat_not_Nil [simp]: "show_nat n \<noteq> []"
  by (subst show_nat.simps) simp

lemma dec_val_show_nat [simp]: "dec_val (show_nat n) = n"
proof (induction n rule: show_nat.induct)
  case (1 n)
  show ?case
  proof (cases "n < 10")
    case True
    then show ?thesis by (simp add: show_nat.simps [of n] dec_val_def digit_val_def)
  next
    case False
    then show ?thesis using 1 by (simp add: show_nat.simps [of n] digit_val_def)
  qed
qed

lemma parse_nat_digits:
  assumes "ds \<noteq> []" "\<forall>c \<in> set ds. is_digit c"
  shows "parse_nat w ds = (if dec_val ds < 2 ^ w then Some (dec_val ds) else None)"
proof -
  have "hd ds \<noteq> 43" using assms by (cases ds) (auto simp: is_digit_def)
  then have "(case ds of c # r \<Rightarrow> if c = 43 then r else ds | [] \<Rightarrow> ds) = ds" by (cases ds) auto
  then show ?thesis using assms by (simp add: parse_nat_def Let_def)
qed

lemma parse_show_nat: "n < 2 ^ w \<Longrightarrow> parse_nat w (show_nat n) = Some n"
  by (subst parse_nat_digits) (auto simp: show_nat_digits)

lemma parse_show_word [simp]: "parse_word (show_word w) = Some w" for w :: "'a::len word"
proof -
  have "unat w < 2 ^ LENGTH('a)" by (rule unsigned_less)
  then have "parse_nat LENGTH('a) (show_nat (unat w)) = Some (unat w)" by (rule parse_show_nat)
  then show ?thesis by (simp only: parse_word_def show_word_def option.map) simp
qed

lemma parse_nat_digits_only: "parse_nat w s = Some n \<Longrightarrow> c \<in> set s \<Longrightarrow> is_digit c \<or> c = 43"
  by (auto simp: parse_nat_def Let_def split: list.splits if_splits)

subsection \<open>Decimal floating point literals\<close>

text \<open>
  \<^verbatim>\<open>str::parse::<f64>\<close>: an optional sign, then \<^verbatim>\<open>inf\<close>,
  \<^verbatim>\<open>infinity\<close> or \<^verbatim>\<open>nan\<close> in any case, or digits with an
  optional point (a digit on at least one side of it) and an optional decimal exponent; the
  exact decimal value is rounded once.
\<close>

definition span_digits :: "rstr \<Rightarrow> rstr \<times> rstr" where
  "span_digits s = (takeWhile is_digit s, dropWhile is_digit s)"

definition parse_exponent :: "rstr \<Rightarrow> int option" where
  "parse_exponent s = (case s of [] \<Rightarrow> Some 0
     | c # r \<Rightarrow> if c = 101 \<or> c = 69 then
         (let (neg, ds) = (case r of d # r' \<Rightarrow> if d = 45 then (True, r') else if d = 43 then (False, r') else (False, r)
            | [] \<Rightarrow> (False, r))
          in if ds \<noteq> [] \<and> (\<forall>d \<in> set ds. is_digit d)
             then Some (if neg then - int (dec_val ds) else int (dec_val ds)) else None)
       else None)"

definition parse_decimal :: "rstr \<Rightarrow> rat option" where
  "parse_decimal s = (let (ip, r) = span_digits s;
      (fp, r') = (case r of c # t \<Rightarrow> if c = 46 then span_digits t else ([], r) | [] \<Rightarrow> ([], r))
    in if ip = [] \<and> fp = [] then None
       else case parse_exponent r' of None \<Rightarrow> None
         | Some e \<Rightarrow> Some (of_nat (dec_val (ip @ fp)) * 10 powi (e - int (length fp))))"

definition parse_f64 :: "rstr \<Rightarrow> f64 option" where
  "parse_f64 s = (let (neg, r) = (case s of c # t \<Rightarrow> if c = 45 then (True, t) else if c = 43 then (False, t) else (False, s)
       | [] \<Rightarrow> (False, s))
     in if lower r = lit ''inf'' \<or> lower r = lit ''infinity'' then Some (if neg then NInf else PInf)
        else if lower r = lit ''nan'' then Some NaN
        else map_option (\<lambda>q. rnd (if neg then - q else q)) (parse_decimal r))"

end
