(* ===== verification/Prometheus.thy ===== *)
theory Prometheus
  imports RStr
begin

text \<open>
  The line-oriented metrics parser of \<^verbatim>\<open>src/llama/prometheus.rs\<close>.  The loop body is
  \<open>parse_line\<close>, each \<^verbatim>\<open>continue\<close> of it a \<open>None\<close>; the character codes
  are 35 for the hash sign, 123 and 125 for the braces, 10 for the line feed.
\<close>

record MetricSample =
  ms_name :: rstr
  ms_labels :: "rstr option"
  ms_value :: f64

definition split_labels :: "rstr \<Rightarrow> rstr \<times> rstr option" where
  "split_labels name_with_labels = (case split_once 123 name_with_labels of
       Some (name, raw_labels) \<Rightarrow>
         (let labels = trim_end_by (\<lambda>c. c = 125) raw_labels in
          (name, if labels \<noteq> [] then Some labels else None))
     | None \<Rightarrow> (name_with_labels, None))"

definition parse_line :: "rstr \<Rightarrow> MetricSample option" where
  "parse_line raw = (let line = trim raw in
     if line = [] \<or> starts_with (lit ''#'') line then None
     else case split_ws line of
       name_with_labels # raw_value # _ \<Rightarrow>
         (case parse_f64 raw_value of
            None \<Rightarrow> None
          | Some value \<Rightarrow>
              if \<not> is_finite value then None
              else (let (name, labels) = split_labels name_with_labels in
                Some \<lparr>ms_name = name, ms_labels = labels, ms_value = value\<rparr>))
     | _ \<Rightarrow> None)"

definition parse_prometheus :: "rstr \<Rightarrow> MetricSample list" where
  "parse_prometheus input = List.map_filter parse_line (lines input)"

section \<open>What a sample looks like\<close>

definition sample_ok :: "MetricSample \<Rightarrow> bool" where
  "sample_ok s \<longleftrightarrow> is_finite (ms_value s) \<and> 123 \<notin> set (ms_name s)
     \<and> (\<forall>c \<in> set (ms_name s). \<not> is_ws c)
     \<and> (case ms_labels s of None \<Rightarrow> True | Some l \<Rightarrow> l \<noteq> [] \<and> last l \<noteq> 125)"

lemma split_labels_ok:
  assumes "split_labels n = (name, labels)" "\<forall>c \<in> set n. \<not> is_ws c"
  shows "123 \<notin> set name \<and> (\<forall>c \<in> set name. \<not> is_ws c)
    \<and> (case labels of None \<Rightarrow> True | Some l \<Rightarrow> l \<noteq> [] \<and> last l \<noteq> 125)"
proof (cases "split_once 123 n")
  case None
  then have "name = n" "labels = None" using assms(1) by (simp_all add: split_labels_def)
  moreover have "123 \<notin> set n" using None by (simp add: split_once_None)
  ultimately show ?thesis using assms(2) by simp
next
  case (Some p)
  obtain a b where p: "p = (a, b)" by (cases p)
  then have n: "n = a @ 123 # b" "123 \<notin> set a" using Some by (simp_all add: split_once_Some)
  then show ?thesis
    using assms Some p trim_end_by_last [of "\<lambda>c. c = 125" b]
    by (auto simp: split_labels_def Let_def)
qed

lemma parse_line_ok:
  assumes "parse_line l = Some s"
  shows "sample_ok s"
proof -
  obtain n v r where w: "split_ws (trim l) = n # v # r"
    and s: "\<exists>x. parse_f64 v = Some x \<and> is_finite x \<and>
      s = \<lparr>ms_name = fst (split_labels n), ms_labels = snd (split_labels n), ms_value = x\<rparr>"
    using assms by (auto simp: parse_line_def Let_def case_prod_unfold split: if_splits list.splits option.splits)
  have "\<forall>c \<in> set n. \<not> is_ws c" using split_ws_props [of n "trim l"] w by simp
  then show ?thesis using s split_labels_ok [of n "fst (split_labels n)" "snd (split_labels n)"]
    by (auto simp: sample_ok_def)
qed

text \<open>
  Every sample the parser lets through has a finite value, a name without a brace or white
  space, and labels that are either absent or a non-empty text the closing brace is off.
\<close>

theorem parse_prometheus_sound: "list_all sample_ok (parse_prometheus input)"
  by (auto simp: parse_prometheus_def list_all_iff List.map_filter_def intro: parse_line_ok)

section \<open>Lines do not affect each other\<close>

lemma parse_line_Nil [simp]: "parse_line [] = None"
  by (simp add: parse_line_def)

lemma trim_strip_cr: "trim (strip_cr s) = trim s"
proof (cases s rule: rev_cases)
  case (snoc t c)
  then show ?thesis using trim_snoc_ws [of 13 t] by (cases "c = 13") (simp_all add: strip_cr_def is_ws_def)
qed (simp add: strip_cr_def)

lemma parse_line_strip_cr [simp]: "parse_line (strip_cr s) = parse_line s"
  by (simp add: parse_line_def trim_strip_cr)

lemma map_filter_append: "List.map_filter f (xs @ ys) = List.map_filter f xs @ List.map_filter f ys"
  by (simp add: List.map_filter_def)

lemma map_filter_strip_cr: "List.map_filter parse_line (map strip_cr ls) = List.map_filter parse_line ls"
  by (induction ls) (auto simp: List.map_filter_simps split: option.split)

lemma parse_prometheus_split: "parse_prometheus s = List.map_filter parse_line (split_on 10 s)"
proof -
  define ps where "ps = split_on 10 s"
  have "ps = butlast ps @ [last ps]" by (simp add: ps_def)
  then have "List.map_filter parse_line ps
      = List.map_filter parse_line (butlast ps) @ List.map_filter parse_line [last ps]"
    by (metis map_filter_append)
  also have "\<dots> = List.map_filter parse_line (lines s)"
    by (simp add: lines_def Let_def ps_def [symmetric] map_filter_append map_filter_strip_cr List.map_filter_simps)
  finally show ?thesis by (simp add: parse_prometheus_def ps_def)
qed

lemma split_on_app: "split_on d (a @ d # b) = split_on d a @ split_on d b"
proof (induction a)
  case (Cons c a)
  obtain p ps where "split_on d a = p # ps" by (cases "split_on d a") auto
  then show ?case using Cons by simp
qed simp

text \<open>
  The parser is compositional in the lines of the body: a line it cannot read, of whatever
  content, neither hides nor changes the samples of the lines before and after it.
\<close>

theorem parse_prometheus_lines: "parse_prometheus (a @ 10 # b) = parse_prometheus a @ parse_prometheus b"
  by (simp add: parse_prometheus_split split_on_app map_filter_append)

end
