(* ===== verification/Json.thy ===== *)
theory Json
  imports RStr
begin

text \<open>
  \<^verbatim>\<open>serde_json::Value\<close> as the adapters read it.  An object is the
  association list of its entries in iteration order (the map is a
  \<^verbatim>\<open>BTreeMap\<close>: keys ascending and distinct, \<open>json_wf\<close>).  A number keeps
  serde's three representations, since \<^verbatim>\<open>as_u64\<close> accepts only the first.
  Turning text into a value is the third-party parser's work and a parameter wherever the
  code calls it.
\<close>

datatype jnum = PosInt u64 | NegInt int | JFloat f64

datatype json = JNull | JBool bool | JNumber jnum | JString rstr
  | JArray "json list" | JObject "(rstr \<times> json) list"

fun as_object :: "json \<Rightarrow> (rstr \<times> json) list option" where
  "as_object (JObject m) = Some m"
| "as_object _ = None"

fun as_array :: "json \<Rightarrow> json list option" where
  "as_array (JArray xs) = Some xs"
| "as_array _ = None"

fun as_bool :: "json \<Rightarrow> bool option" where
  "as_bool (JBool b) = Some b"
| "as_bool _ = None"

fun as_str :: "json \<Rightarrow> rstr option" where
  "as_str (JString s) = Some s"
| "as_str _ = None"

fun as_u64 :: "json \<Rightarrow> u64 option" where
  "as_u64 (JNumber (PosInt n)) = Some n"
| "as_u64 _ = None"

fun as_i64 :: "json \<Rightarrow> int option" where
  "as_i64 (JNumber (PosInt n)) = (if unat n < 2 ^ 63 then Some (int (unat n)) else None)"
| "as_i64 (JNumber (NegInt i)) = Some i"
| "as_i64 _ = None"

fun num_as_f64 :: "jnum \<Rightarrow> f64" where
  "num_as_f64 (PosInt n) = f64_of_u64 n"
| "num_as_f64 (NegInt i) = f64_of_int i"
| "num_as_f64 (JFloat x) = x"

fun as_f64 :: "json \<Rightarrow> f64 option" where
  "as_f64 (JNumber n) = Some (num_as_f64 n)"
| "as_f64 _ = None"

definition is_object :: "json \<Rightarrow> bool" where
  "is_object v \<longleftrightarrow> as_object v \<noteq> None"

text \<open>\<^verbatim>\<open>Value::get\<close> with a string key: only objects have entries.\<close>

fun jget :: "rstr \<Rightarrow> json \<Rightarrow> json option" where
  "jget k (JObject m) = map_of m k"
| "jget k _ = None"

definition jget_u64 :: "rstr \<Rightarrow> json \<Rightarrow> u64 option" where
  "jget_u64 k v = Option.bind (jget k v) as_u64"

definition jget_bool :: "rstr \<Rightarrow> json \<Rightarrow> bool option" where
  "jget_bool k v = Option.bind (jget k v) as_bool"

fun json_wf :: "json \<Rightarrow> bool" and entries_wf :: "(rstr \<times> json) list \<Rightarrow> bool" where
  "json_wf (JObject m) = entries_wf m"
| "json_wf _ = True"
| "entries_wf [] = True"
| "entries_wf ((k, v) # m) = (json_wf v \<and> (case m of [] \<Rightarrow> True | (k', _) # _ \<Rightarrow> k < k') \<and> entries_wf m)"

lemma jget_Some_object: "jget k v = Some w \<Longrightarrow> \<exists>m. v = JObject m \<and> map_of m k = Some w"
  by (cases v) auto

lemma jget_u64_Some: "jget_u64 k v = Some n \<longleftrightarrow> jget k v = Some (JNumber (PosInt n))"
  unfolding jget_u64_def by (cases "jget k v") (auto elim: as_u64.elims)

end
