(* ===== verification/Strata_Metrics.thy ===== *)
theory Strata_Metrics
  imports Prometheus Json
begin

text \<open>
  The adapter of \<^verbatim>\<open>src/strata.rs\<close> for the JSON telemetry of a Strata server:
  recognising its object, reading its live phase, and mapping the cumulative counters to the
  canonical metric names through the table \<open>CANONICAL\<close>.  A leaf keeps its normalized path,
  as in the source.
\<close>

section \<open>The table of canonical metrics\<close>

definition MARKER_GROUPS :: "rstr list" where
  "MARKER_GROUPS = map lit [''engine'', ''live'', ''requests_kept'', ''hardware'', ''hardware_static'',
     ''conversation_cache'']"

record Canonical =
  cn_name :: rstr
  cn_aliases :: "rstr list"
  cn_scale :: f64
  cn_group :: "rstr option"

definition canonical :: "string \<Rightarrow> string list \<Rightarrow> f64 \<Rightarrow> string \<Rightarrow> Canonical" where
  "canonical n al sc g = \<lparr>cn_name = lit n, cn_aliases = map lit al, cn_scale = sc, cn_group = Some (lit g)\<rparr>"

text \<open>The literal \<^verbatim>\<open>0.001\<close> is the double nearest to it.\<close>

definition MILLI :: f64 where
  "MILLI = rnd (1 / 1000)"

definition CANONICAL :: "Canonical list" where
  "CANONICAL = [
     canonical ''llamacpp:prompt_tokens_total''
       [''prompt_tokens'', ''prompt_tokens_total'', ''total_prompt_tokens'', ''prompt_token_count'',
        ''prompt_eval_count'', ''prefill_tokens''] (Fin 1) ''totals'',
     canonical ''llamacpp:tokens_predicted_total''
       [''output_tokens'', ''generated_tokens'', ''generated_tokens_total'', ''completion_tokens'',
        ''predicted_tokens'', ''tokens_predicted''] (Fin 1) ''totals'',
     canonical ''llamacpp:prompt_seconds_total''
       [''prompt_seconds'', ''prompt_seconds_total'', ''prompt_time_seconds'', ''prompt_eval_seconds'',
        ''prefill_seconds''] (Fin 1) ''totals'',
     canonical ''llamacpp:prompt_seconds_total''
       [''prompt_ms'', ''prompt_time_ms'', ''prompt_eval_ms''] MILLI ''totals'',
     canonical ''llamacpp:tokens_predicted_seconds_total''
       [''generation_seconds'', ''generation_seconds_total'', ''generation_time_seconds'', ''decode_seconds'',
        ''predicted_seconds'', ''eval_seconds''] (Fin 1) ''totals'',
     canonical ''llamacpp:tokens_predicted_seconds_total''
       [''decode_ms'', ''generation_ms'', ''generation_time_ms''] MILLI ''totals'',
     canonical ''llamacpp:requests_deferred''
       [''queued'', ''requests_queued'', ''queue_depth'', ''deferred_requests'', ''requests_deferred'']
       (Fin 1) ''live'',
     canonical ''llamacpp:spec_decode_num_draft_tokens_total''
       [''drafts_offered'', ''draft_tokens_offered'', ''draft_tokens_total''] (Fin 1) ''totals'',
     canonical ''llamacpp:spec_decode_num_accepted_tokens_total''
       [''drafts_accepted'', ''accepted_tokens_total'', ''num_accepted_tokens''] (Fin 1) ''totals'']"

section \<open>Recognition and live state\<close>

definition contains_key :: "rstr \<Rightarrow> (rstr \<times> json) list \<Rightarrow> bool" where
  "contains_key k m \<longleftrightarrow> map_of m k \<noteq> None"

definition is_strata_metrics :: "json \<Rightarrow> bool" where
  "is_strata_metrics value = (case as_object value of None \<Rightarrow> False
     | Some m \<Rightarrow>
         if \<not> (case map_of m (lit ''totals'') of Some t \<Rightarrow> is_object t | None \<Rightarrow> False) then False
         else list_ex (\<lambda>g. contains_key g m) MARKER_GROUPS)"

definition totals_since :: "json \<Rightarrow> f64 option" where
  "totals_since value = Option.bind (Option.bind (jget (lit ''totals'') value) (jget (lit ''since''))) as_f64"

datatype StrataPhase = SIdle | SReading | SGenerating

record StrataLive =
  sl_state :: "rstr option"
  sl_phase :: "StrataPhase option"
  sl_decode_tps :: "f64 option"
  sl_request_prompt_tokens :: "u64 option"
  sl_request_generated :: "u64 option"

definition engine_capacity :: "json \<Rightarrow> u64 option" where
  "engine_capacity value = (case jget (lit ''engine'') value of None \<Rightarrow> None
     | Some engine \<Rightarrow>
         opt_filter (\<lambda>c. 0 < c) (opt_or (jget_u64 (lit ''max_context'') engine) (jget_u64 (lit ''context'') engine)))"

definition state_phase :: "rstr \<Rightarrow> StrataPhase option" where
  "state_phase s = (if s = lit ''idle'' then Some SIdle else if s = lit ''reading'' then Some SReading
     else if s = lit ''generating'' then Some SGenerating else None)"

definition live_rates :: "json \<Rightarrow> StrataLive" where
  "live_rates value = (let live = jget (lit ''live'') value;
       state = map_option lower (Option.bind (Option.bind live (jget (lit ''state''))) as_str);
       active = (state = Some (lit ''reading'') \<or> state = Some (lit ''generating''));
       read_u64 = (\<lambda>key. Option.bind live (jget_u64 key))
     in \<lparr>sl_state = state, sl_phase = Option.bind state state_phase,
         sl_decode_tps = (if state = Some (lit ''generating'')
           then opt_filter is_finite (Option.bind (Option.bind live (jget (lit ''tok_s''))) as_f64) else None),
         sl_request_prompt_tokens = (if active then read_u64 (lit ''prompt_tokens'') else None),
         sl_request_generated = (if active then read_u64 (lit ''generated'') else None)\<rparr>)"

section \<open>Normalizing the counters\<close>

record Leaf =
  lf_path :: "rstr list"
  lf_value :: f64

definition normalize :: "rstr \<Rightarrow> rstr" where
  "normalize segment = map lower_char (filter is_alnum segment)"

fun flatten :: "json \<Rightarrow> rstr list \<Rightarrow> Leaf list"
  and flatten_fields :: "(rstr \<times> json) list \<Rightarrow> rstr list \<Rightarrow> Leaf list" where
  "flatten (JObject m) path = flatten_fields m path"
| "flatten (JNumber n) path = (let found = num_as_f64 n in
     if is_finite found then [\<lparr>lf_path = path, lf_value = found\<rparr>] else [])"
| "flatten _ path = []"
| "flatten_fields [] path = []"
| "flatten_fields ((key, child) # m) path = flatten child (path @ [normalize key]) @ flatten_fields m path"

definition leaf_matches :: "Leaf \<Rightarrow> rstr \<Rightarrow> bool" where
  "leaf_matches leaf wanted = (let p = lf_path leaf; len = length p in
     if len = 0 then False
     else if p ! (len - 1) = wanted then True
     else 2 \<le> len \<and> p ! (len - 2) @ p ! (len - 1) = wanted)"

text \<open>\<^verbatim>\<open>sort_by_key\<close> is stable, as \<open>sort_key\<close> is.\<close>

fun resolve :: "Leaf list \<Rightarrow> rstr list \<Rightarrow> rstr option \<Rightarrow> bool \<Rightarrow> Leaf option" where
  "resolve leaves [] grp group_present = None"
| "resolve leaves (alias # aliases) grp group_present = (let wanted = normalize alias in
     if wanted = [] then resolve leaves aliases grp group_present
     else (let matches = filter (\<lambda>leaf. leaf_matches leaf wanted) leaves in
       if matches = [] then resolve leaves aliases grp group_present
       else (case grp of
           None \<Rightarrow> Some (hd (sort_key (\<lambda>leaf. length (lf_path leaf)) matches))
         | Some g \<Rightarrow>
             (let in_group = filter (\<lambda>leaf. normalize g \<in> set (lf_path leaf)) matches in
              if in_group \<noteq> [] then Some (hd (sort_key (\<lambda>leaf. length (lf_path leaf)) in_group))
              else if group_present then None
              else Some (hd (sort_key (\<lambda>leaf. length (lf_path leaf)) matches))))))"

definition extract_step :: "json \<Rightarrow> Leaf list \<Rightarrow> MetricSample list \<Rightarrow> Canonical \<Rightarrow> MetricSample list" where
  "extract_step value leaves samples cn =
     (if list_ex (\<lambda>s. ms_name s = cn_name cn) samples then samples
      else (let group_present = (case cn_group cn of Some g \<Rightarrow> jget g value \<noteq> None | None \<Rightarrow> False) in
        case resolve leaves (cn_aliases cn) (cn_group cn) group_present of
          Some found \<Rightarrow> samples @ [\<lparr>ms_name = cn_name cn, ms_labels = None, ms_value = fmul (lf_value found) (cn_scale cn)\<rparr>]
        | None \<Rightarrow> samples))"

definition extract_samples :: "json \<Rightarrow> MetricSample list" where
  "extract_samples value = foldl (extract_step value (flatten value [])) [] CANONICAL"

section \<open>Where a sample comes from\<close>

lemma hd_sort_key_in: "xs \<noteq> [] \<Longrightarrow> hd (sort_key f xs) \<in> set xs"
  by (metis hd_in_set set_sort set_empty)

lemma resolve_sound:
  assumes "resolve leaves aliases g present = Some leaf"
  shows "leaf \<in> set leaves \<and> (\<exists>alias \<in> set aliases. leaf_matches leaf (normalize alias))
    \<and> (\<forall>gr. g = Some gr \<and> present \<longrightarrow> normalize gr \<in> set (lf_path leaf))"
  using assms
proof (induction aliases)
  case (Cons al aliases)
  define ms where "ms = filter (\<lambda>leaf. leaf_matches leaf (normalize al)) leaves"
  show ?case
  proof (cases "normalize al = [] \<or> ms = []")
    case True
    then have "resolve leaves (al # aliases) g present = resolve leaves aliases g present"
      unfolding resolve.simps Let_def ms_def [symmetric] by auto
    then have "resolve leaves aliases g present = Some leaf" using Cons.prems by simp
    then show ?thesis using Cons.IH by simp
  next
    case False
    define ig where "ig = (case g of None \<Rightarrow> [] | Some gr \<Rightarrow> filter (\<lambda>leaf. normalize gr \<in> set (lf_path leaf)) ms)"
    have eq: "resolve leaves (al # aliases) g present =
        (case g of None \<Rightarrow> Some (hd (sort_key (\<lambda>leaf. length (lf_path leaf)) ms))
          | Some gr \<Rightarrow> if ig \<noteq> [] then Some (hd (sort_key (\<lambda>leaf. length (lf_path leaf)) ig))
              else if present then None else Some (hd (sort_key (\<lambda>leaf. length (lf_path leaf)) ms)))"
      using False unfolding resolve.simps Let_def ms_def [symmetric] by (simp add: ig_def split: option.split)
    have sub: "x \<in> set ms \<Longrightarrow> x \<in> set leaves \<and> leaf_matches x (normalize al)" for x by (simp add: ms_def)
    have igs: "x \<in> set ig \<Longrightarrow> x \<in> set ms \<and> (\<forall>gr. g = Some gr \<longrightarrow> normalize gr \<in> set (lf_path x))" for x
      by (auto simp: ig_def split: option.splits)
    consider "leaf \<in> set ms" "\<not> (\<exists>gr. g = Some gr \<and> present)" | "leaf \<in> set ig"
      using Cons.prems False hd_sort_key_in [of ms] hd_sort_key_in [of ig]
      unfolding eq by (cases g) (auto split: if_splits)
    then show ?thesis using sub igs by cases auto
  qed
qed simp

definition sample_from :: "json \<Rightarrow> MetricSample \<Rightarrow> Canonical \<Rightarrow> Leaf \<Rightarrow> bool" where
  "sample_from v s cn leaf \<longleftrightarrow> ms_name s = cn_name cn \<and> ms_labels s = None
     \<and> ms_value s = fmul (lf_value leaf) (cn_scale cn)
     \<and> (\<exists>al \<in> set (cn_aliases cn). leaf_matches leaf (normalize al))
     \<and> (\<forall>g. cn_group cn = Some g \<and> jget g v \<noteq> None \<longrightarrow> normalize g \<in> set (lf_path leaf))"

definition samples_inv :: "json \<Rightarrow> Leaf list \<Rightarrow> Canonical list \<Rightarrow> MetricSample list \<Rightarrow> bool" where
  "samples_inv v leaves cns ss \<longleftrightarrow> distinct (map ms_name ss)
     \<and> (\<forall>s \<in> set ss. \<exists>cn \<in> set cns. \<exists>leaf \<in> set leaves. sample_from v s cn leaf)"

lemma extract_step_inv [inv_intros]:
  assumes inv: "samples_inv v leaves cns ss" and cn: "cn \<in> set cns"
  shows "samples_inv v leaves cns (extract_step v leaves ss cn)"
proof -
  define gp where "gp \<longleftrightarrow> (case cn_group cn of Some g \<Rightarrow> jget g v \<noteq> None | None \<Rightarrow> False)"
  define r where "r = resolve leaves (cn_aliases cn) (cn_group cn) gp"
  show ?thesis
  proof (cases "list_ex (\<lambda>s. ms_name s = cn_name cn) ss \<or> r = None")
    case True
    then show ?thesis using inv by (auto simp: extract_step_def Let_def r_def gp_def)
  next
    case False
    then obtain leaf where leaf: "r = Some leaf" by blast
    let ?s = "\<lparr>ms_name = cn_name cn, ms_labels = None, ms_value = fmul (lf_value leaf) (cn_scale cn)\<rparr>"
    have step: "extract_step v leaves ss cn = ss @ [?s]"
      using False leaf unfolding extract_step_def Let_def gp_def [symmetric] r_def [symmetric] by simp
    have "leaf \<in> set leaves" "sample_from v ?s cn leaf"
      using resolve_sound [OF leaf [unfolded r_def]] by (auto simp: sample_from_def gp_def)
    moreover have "cn_name cn \<notin> ms_name ` set ss" using False by (auto simp: list_ex_iff)
    ultimately show ?thesis using inv cn unfolding step samples_inv_def by auto
  qed
qed

lemma extract_fold_inv:
  "set cns \<subseteq> set all \<Longrightarrow> samples_inv v leaves all ss \<Longrightarrow> samples_inv v leaves all (foldl (extract_step v leaves) ss cns)"
  by (induction cns arbitrary: ss) (simp_all add: inv_intros)

lemma extract_samples_inv: "samples_inv v (flatten v []) CANONICAL (extract_samples v)"
  unfolding extract_samples_def by (rule extract_fold_inv) (simp_all add: samples_inv_def)

text \<open>
  No counter is invented: the samples read from a Strata body carry distinct canonical names, and
  each is the scaled value of a numeric leaf of the body whose path matches one of the name's
  aliases, and passes through the metric's group when the body has that group.
\<close>

theorem extract_samples_sound:
  "distinct (map ms_name (extract_samples v))
   \<and> list_all (\<lambda>s. list_ex (\<lambda>cn. list_ex (sample_from v s cn) (flatten v [])) CANONICAL) (extract_samples v)"
  using extract_samples_inv [of v] by (auto simp: samples_inv_def list_all_iff list_ex_iff)

section \<open>Arrays\<close>

text \<open>The body with every array emptied.\<close>

fun drop_arrays :: "json \<Rightarrow> json" and drop_arrays_fields :: "(rstr \<times> json) list \<Rightarrow> (rstr \<times> json) list" where
  "drop_arrays (JArray xs) = JArray []"
| "drop_arrays (JObject m) = JObject (drop_arrays_fields m)"
| "drop_arrays v = v"
| "drop_arrays_fields [] = []"
| "drop_arrays_fields ((k, v) # m) = (k, drop_arrays v) # drop_arrays_fields m"

lemma flatten_drop_arrays:
  "flatten (drop_arrays v) path = flatten v path"
  "flatten_fields (drop_arrays_fields m) path = flatten_fields m path"
  by (induction v path and m path rule: flatten_flatten_fields.induct) simp_all

lemma map_of_drop_arrays: "(map_of (drop_arrays_fields m) k = None) = (map_of m k = None)"
  by (induction m) auto

lemma jget_drop_arrays: "(jget k (drop_arrays v) = None) = (jget k v = None)"
  by (cases v) (simp_all add: map_of_drop_arrays)

text \<open>
  The per-request and rolling-sample arrays of a Strata body cannot reach the aggregate counters:
  emptying every array leaves the samples unchanged.
\<close>

theorem extract_samples_no_arrays: "extract_samples (drop_arrays v) = extract_samples v"
proof -
  have "extract_step (drop_arrays v) ls ss cn = extract_step v ls ss cn" for ls ss cn
    by (simp add: extract_step_def jget_drop_arrays cong: option.case_cong)
  then have "extract_step (drop_arrays v) = extract_step v" by (intro ext)
  then show ?thesis by (simp add: extract_samples_def flatten_drop_arrays)
qed

text \<open>
  A leaf outside the group hides a counter spelled by a later alias: with a live prompt length
  under the first alias and the cumulative counter under the third, the counter is reported
  absent although the body carries it in its group.
\<close>

theorem resolve_hidden_by_lookalike:
  "resolve (flatten (JObject [(lit ''live'', JObject [(lit ''prompt_tokens'', JNumber (JFloat (Fin 7)))]),
      (lit ''totals'', JObject [(lit ''total_prompt_tokens'', JNumber (JFloat (Fin 900)))])]) [])
     (cn_aliases (hd CANONICAL)) (cn_group (hd CANONICAL)) True = None
   \<and> resolve (flatten (JObject [
      (lit ''totals'', JObject [(lit ''total_prompt_tokens'', JNumber (JFloat (Fin 900)))])]) [])
     (cn_aliases (hd CANONICAL)) (cn_group (hd CANONICAL)) True \<noteq> None"
  unfolding CANONICAL_def list.sel(1) by code_simp

section \<open>The live state\<close>

text \<open>
  A decode rate is shown only with phase evidence: it is present only while the server says it
  is generating and is finite then; request progress is present only while a request is being
  read or generated; an idle or unknown state carries neither.
\<close>

theorem live_rates_gated:
  "(case sl_decode_tps (live_rates v) of Some r \<Rightarrow> sl_phase (live_rates v) = Some SGenerating \<and> is_finite r | None \<Rightarrow> True)
   \<and> (sl_phase (live_rates v) \<notin> {Some SReading, Some SGenerating} \<longrightarrow>
        sl_request_prompt_tokens (live_rates v) = None \<and> sl_request_generated (live_rates v) = None
        \<and> sl_decode_tps (live_rates v) = None)"
  by (auto simp: live_rates_def Let_def state_phase_def opt_filter_def split: option.splits)

end
