(* ===== verification/Domain.thy ===== *)
theory Domain
  imports RStr
begin

text \<open>
  The telemetry domain of \<^verbatim>\<open>src/domain.rs\<close>: the limits every worker shares, process and
  device identities, the PCI address grammar (\<^verbatim>\<open>parse_pci_bdf\<close>,
  \<^verbatim>\<open>normalize_pci_bdf\<close>), the MIG identities, the GPU selector the configuration stores,
  and the key that identifies a monitored server.  The URL library is a parameter.
\<close>

section \<open>Limits\<close>

definition MIN_REFRESH_MS :: u64 where "MIN_REFRESH_MS = 100"
definition MAX_REFRESH_MS :: u64 where "MAX_REFRESH_MS = 10000"
definition REFRESH_STEP_MS :: u64 where "REFRESH_STEP_MS = 100"
definition MIN_LLM_POLL_MS :: u64 where "MIN_LLM_POLL_MS = 250"
definition MAX_MONITORED_SERVERS :: nat where "MAX_MONITORED_SERVERS = 16"

section \<open>Process identities\<close>

record ProcessIdentity =
  pi_pid :: u32
  pi_start_time :: u64

record LocalServerIdentity =
  ls_pid :: u32
  ls_start_time :: u64

section \<open>PCI addresses\<close>

text \<open>The UTF-8 bytes of a string, which \<^verbatim>\<open>as_bytes\<close> exposes.\<close>

definition utf8_char :: "rchar \<Rightarrow> nat list" where
  "utf8_char c =
     (if c < 128 then [c]
      else if c < 2048 then [192 + c div 64, 128 + c mod 64]
      else if c < 65536 then [224 + c div 4096, 128 + c div 64 mod 64, 128 + c mod 64]
      else [240 + c div 262144, 128 + c div 4096 mod 64, 128 + c div 64 mod 64, 128 + c mod 64])"

definition utf8 :: "rstr \<Rightarrow> nat list" where
  "utf8 s = concat (map utf8_char s)"

lemma utf8_Cons: "utf8 (c # s) = utf8_char c @ utf8 s"
  by (simp add: utf8_def)

lemma length_utf8_char: "length (utf8_char c) = utf8_len c"
  by (simp add: utf8_char_def utf8_len_def)

lemma length_utf8: "length (utf8 s) = byte_len s"
  by (simp add: utf8_def byte_len_def length_concat comp_def length_utf8_char)

lemma utf8_ascii: "\<forall>c \<in> set s. c < 128 \<Longrightarrow> utf8 s = s"
  by (induction s) (auto simp: utf8_def utf8_char_def)

lemma utf8_Cons_ascii: "(\<forall>b \<in> set (utf8 (c # s)). b < 128) \<longleftrightarrow> c < 128 \<and> (\<forall>b \<in> set (utf8 s). b < 128)"
  by (auto simp: utf8_def utf8_char_def)

lemma utf8_ascii_iff: "(\<forall>b \<in> set (utf8 s). b < 128) \<longleftrightarrow> (\<forall>c \<in> set s. c < 128)"
  by (induction s) (simp add: utf8_def, simp only: utf8_Cons_ascii list.set(2) ball_simps)

lemma utf8_inv: "\<forall>b \<in> set (utf8 s). b < 128 \<Longrightarrow> utf8 s = s"
  by (simp add: utf8_ascii_iff utf8_ascii)

text \<open>The two shapes \<^verbatim>\<open>dddd:bb:dd.f\<close> and \<^verbatim>\<open>dddddddd:bb:dd.f\<close>, by byte position.\<close>

definition hex_range :: "nat list \<Rightarrow> nat \<Rightarrow> nat \<Rightarrow> bool" where
  "hex_range bs lo hi \<longleftrightarrow> (\<forall>i \<in> set [lo..<hi]. is_hex (bs ! i))"

definition bdf_shape :: "nat \<Rightarrow> nat list \<Rightarrow> bool" where
  "bdf_shape k bs \<longleftrightarrow> length bs = k + 8 \<and> hex_range bs 0 k \<and> bs ! k = 58
     \<and> hex_range bs (k + 1) (k + 3) \<and> bs ! (k + 3) = 58
     \<and> hex_range bs (k + 4) (k + 6) \<and> bs ! (k + 6) = 46"

definition hex_digit_val :: "rchar \<Rightarrow> nat" where
  "hex_digit_val c = (if is_digit c then c - 48 else lower_char c - 87)"

definition hex_val :: "rstr \<Rightarrow> nat" where
  "hex_val s = foldl (\<lambda>n c. 16 * n + hex_digit_val c) 0 s"

definition hex_char :: "nat \<Rightarrow> rchar" where
  "hex_char d = (if d < 10 then 48 + d else 87 + d)"

text \<open>\<^verbatim>\<open>{:04x}\<close> of a value below \<open>2^16\<close>.\<close>

definition show_hex4 :: "nat \<Rightarrow> rstr" where
  "show_hex4 n = [hex_char (n div 4096 mod 16), hex_char (n div 256 mod 16),
     hex_char (n div 16 mod 16), hex_char (n mod 16)]"

text \<open>
  The slices \<^verbatim>\<open>[..8]\<close> and \<^verbatim>\<open>[8..]\<close> are taken only when all sixteen bytes are
  ASCII, where byte and character positions agree; \<^verbatim>\<open>from_str_radix\<close> of eight hex digits
  always fits \<^verbatim>\<open>u32\<close>.
\<close>

definition normalize_pci_bdf :: "rstr \<Rightarrow> rstr" where
  "normalize_pci_bdf s = (let value = lower s; bytes = utf8 value in
     if bdf_shape 8 bytes \<and> is_hex (bytes ! 15) \<and> hex_val (take 8 value) < 65536
     then show_hex4 (hex_val (take 8 value)) @ drop 8 value
     else value)"

definition bdf_valid :: "nat list \<Rightarrow> bool" where
  "bdf_valid bytes \<longleftrightarrow>
     (length bytes = 12 \<and> bdf_shape 4 bytes \<and> 48 \<le> bytes ! 11 \<and> bytes ! 11 \<le> 55)
   \<or> (length bytes = 16 \<and> bdf_shape 8 bytes \<and> 48 \<le> bytes ! 15 \<and> bytes ! 15 \<le> 55)"

definition parse_pci_bdf :: "rstr \<Rightarrow> rstr option" where
  "parse_pci_bdf text = (if bdf_valid (utf8 text) then Some (normalize_pci_bdf (lower text)) else None)"

text \<open>The device address a valid spelling denotes: domain number and the lower-case rest.\<close>

definition pci_address :: "rstr \<Rightarrow> nat \<times> rstr" where
  "pci_address s = (hex_val (take (length s - 8) s), lower (drop (length s - 8) s))"

subsection \<open>Lemmas on hexadecimal text\<close>

lemma is_hex_lt: "is_hex c \<Longrightarrow> c < 128"
  by (auto simp: is_hex_def is_digit_def)

lemma hex_digit_val_lt: "is_hex c \<Longrightarrow> hex_digit_val c < 16"
  by (auto simp: is_hex_def hex_digit_val_def is_digit_def lower_char_def)

lemma hex_char_val [simp]: "is_hex c \<Longrightarrow> hex_char (hex_digit_val c) = lower_char c"
  by (auto simp: is_hex_def hex_digit_val_def is_digit_def lower_char_def hex_char_def)

lemma hex_digit_val_lower [simp]: "hex_digit_val (lower_char c) = hex_digit_val c"
  by (auto simp: hex_digit_val_def is_digit_def lower_char_def)

lemma hex_val_lower [simp]: "hex_val (lower s) = hex_val s"
  by (simp add: hex_val_def foldl_map)

lemma hex_fold: "foldl (\<lambda>n c. 16 * n + hex_digit_val c) m s = m * 16 ^ length s + hex_val s"
proof (induction s arbitrary: m)
  case (Cons c s)
  have "hex_val (c # s) = foldl (\<lambda>n c. 16 * n + hex_digit_val c) (hex_digit_val c) s"
    by (simp add: hex_val_def)
  then show ?case using Cons [of "16 * m + hex_digit_val c"] Cons [of "hex_digit_val c"]
    by (simp add: algebra_simps)
qed (simp add: hex_val_def)

lemma hex_val_append: "hex_val (a @ b) = hex_val a * 16 ^ length b + hex_val b"
  using hex_fold [of "hex_val a" b] by (simp add: hex_val_def)

lemma hex_val_Cons: "hex_val (c # s) = hex_digit_val c * 16 ^ length s + hex_val s"
  using hex_val_append [of "[c]" s] by (simp add: hex_val_def)

lemma hex_val_lt: "\<forall>c \<in> set s. is_hex c \<Longrightarrow> hex_val s < 16 ^ length s"
proof (induction s)
  case (Cons c s)
  then have "hex_digit_val c * 16 ^ length s + hex_val s < (hex_digit_val c + 1) * 16 ^ length s" by simp
  also have "\<dots> \<le> 16 * 16 ^ length s"
    using Cons.prems hex_digit_val_lt [of c] by (intro mult_le_mono1) simp
  finally show ?case by (simp add: hex_val_Cons)
qed (simp add: hex_val_def)

lemma hex_step: "w < 16 \<Longrightarrow> (n * 16 + w) div 16 = n \<and> (n * 16 + w) mod 16 = w" for n w :: nat
  by simp

lemma show_hex4_val:
  assumes "length s = 4" "\<forall>c \<in> set s. is_hex c"
  shows "show_hex4 (hex_val s) = lower s"
proof -
  obtain a b c d where s: "s = [a, b, c, d]"
    using assms(1) by (auto simp: numeral_eq_Suc length_Suc_conv)
  have hx: "is_hex a" "is_hex b" "is_hex c" "is_hex d" using assms(2) by (simp_all add: s)
  note lt = hx [THEN hex_digit_val_lt]
  define n3 where "n3 = hex_digit_val a"
  define n2 where "n2 = n3 * 16 + hex_digit_val b"
  define n1 where "n1 = n2 * 16 + hex_digit_val c"
  define n0 where "n0 = n1 * 16 + hex_digit_val d"
  have v: "hex_val s = n0" by (simp add: s hex_val_def n0_def n1_def n2_def n3_def mult.commute)
  have 0: "n0 div 16 = n1 \<and> n0 mod 16 = hex_digit_val d" unfolding n0_def using lt(4) by (rule hex_step)
  have 1: "n1 div 16 = n2 \<and> n1 mod 16 = hex_digit_val c" unfolding n1_def using lt(3) by (rule hex_step)
  have 2: "n2 div 16 = n3 \<and> n2 mod 16 = hex_digit_val b" unfolding n2_def using lt(2) by (rule hex_step)
  have 3: "n3 mod 16 = hex_digit_val a" using lt(1) by (simp add: n3_def)
  have "n0 div 256 = n2" "n0 div 4096 = n3"
    using div_mult2_eq [of n0 16 16] div_mult2_eq [of n0 16 256] div_mult2_eq [of n1 16 16] 0 1 2 by simp_all
  then show ?thesis unfolding v using 0 1 2 3 hx by (simp add: show_hex4_def s)
qed

lemma hex_val_zero: "\<forall>c \<in> set s. is_hex c \<Longrightarrow> hex_val s = 0 \<Longrightarrow> lower s = replicate (length s) 48"
proof (induction s)
  case (Cons c s)
  then have "hex_digit_val c = 0" "hex_val s = 0" by (simp_all add: hex_val_Cons)
  then have "lower_char c = 48" using Cons.prems(1) hex_char_val [of c] by (simp add: hex_char_def)
  then show ?case using Cons \<open>hex_val s = 0\<close> by simp
qed simp

lemma show_hex4_hex: "c \<in> set (show_hex4 n) \<Longrightarrow> is_hex c"
proof -
  have "is_hex (hex_char (k mod 16))" for k
    using mod_less_divisor [of 16 k] by (auto simp: hex_char_def is_hex_def is_digit_def)
  then show "c \<in> set (show_hex4 n) \<Longrightarrow> is_hex c" by (auto simp: show_hex4_def)
qed

lemma hex_val_inj:
  "length a = length b \<Longrightarrow> \<forall>c \<in> set a. is_hex c \<Longrightarrow> \<forall>c \<in> set b. is_hex c \<Longrightarrow>
   hex_val a = hex_val b \<Longrightarrow> lower a = lower b"
proof (induction a b rule: list_induct2)
  case (Cons x xs y ys)
  define p where "p = (16::nat) ^ length xs"
  have lt: "hex_val xs < p" "hex_val ys < p"
    using Cons.hyps Cons.prems hex_val_lt [of xs] hex_val_lt [of ys] by (simp_all add: p_def)
  have eq: "hex_digit_val x * p + hex_val xs = hex_digit_val y * p + hex_val ys"
    using Cons.prems(3) Cons.hyps by (simp add: hex_val_Cons p_def)
  have "hex_digit_val x = (hex_digit_val x * p + hex_val xs) div p" using lt by simp
  also have "\<dots> = hex_digit_val y" unfolding eq using lt by simp
  finally have "hex_digit_val x = hex_digit_val y" .
  then have "lower_char x = lower_char y" using Cons.prems hex_char_val by (metis list.set_intros(1))
  moreover have "hex_val xs = hex_val ys" using eq \<open>hex_digit_val x = hex_digit_val y\<close> by simp
  ultimately show ?case using Cons by simp
qed simp

subsection \<open>The address grammar\<close>

lemma hex_range_nth: "hex_range bs lo hi \<Longrightarrow> lo \<le> i \<Longrightarrow> i < hi \<Longrightarrow> is_hex (bs ! i)"
  by (simp add: hex_range_def)

lemma bdf_shape_ascii:
  assumes "bdf_shape k bs" "bs ! (k + 7) < 128" "i < length bs"
  shows "bs ! i < 128"
proof -
  have len: "length bs = k + 8" using assms(1) by (simp add: bdf_shape_def)
  consider "i < k" | "i = k" | "k + 1 \<le> i \<and> i < k + 3" | "i = k + 3" | "k + 4 \<le> i \<and> i < k + 6" | "i = k + 6"
    | "i = k + 7" using assms(3) len by linarith
  then show ?thesis
    using assms(1,2) by cases (auto simp: bdf_shape_def intro: is_hex_lt hex_range_nth)
qed

lemma bdf_valid_ascii: "bdf_valid bs \<Longrightarrow> \<forall>b \<in> set bs. b < 128"
  using bdf_shape_ascii [of 4 bs] bdf_shape_ascii [of 8 bs] by (auto simp: bdf_valid_def in_set_conv_nth)

lemma bdf_valid_utf8: "bdf_valid (utf8 s) \<Longrightarrow> utf8 s = s"
  by (rule utf8_inv) (rule bdf_valid_ascii)

lemma utf8_lower: "\<forall>c \<in> set s. c < 128 \<Longrightarrow> utf8 (lower s) = lower s"
  by (rule utf8_ascii) (auto simp: lower_char_def)

lemma hex_range_lower: "hi \<le> length s \<Longrightarrow> hex_range (lower s) lo hi = hex_range s lo hi"
  by (auto simp: hex_range_def)

lemma lower_char_punct: "lower_char c = 58 \<longleftrightarrow> c = 58" "lower_char c = 46 \<longleftrightarrow> c = 46"
  by (auto simp: lower_char_def)

lemma bdf_shape_lower: "bdf_shape k (lower s) = bdf_shape k s"
proof (cases "length s = k + 8")
  case True
  then have "k + 3 \<le> length s" "k + 6 \<le> length s" "k \<le> length s" "k < length s" "k + 3 < length s"
    "k + 6 < length s" by simp_all
  then show ?thesis
    unfolding bdf_shape_def by (simp only: hex_range_lower nth_map lower_char_punct length_map)
qed (simp add: bdf_shape_def)

lemma bdf_valid_lower: "bdf_valid (lower s) = bdf_valid s"
proof -
  have "48 \<le> lower_char c \<and> lower_char c \<le> 55 \<longleftrightarrow> 48 \<le> c \<and> c \<le> 55" for c
    by (auto simp: lower_char_def)
  then show ?thesis unfolding bdf_valid_def bdf_shape_lower by (cases "length s = 12"; cases "length s = 16") auto
qed

lemma bdf_shape_take: "bdf_shape k s \<Longrightarrow> \<forall>c \<in> set (take k s). is_hex c"
  by (auto simp: bdf_shape_def in_set_conv_nth hex_range_def)

lemma hex_range_drop: "lo + n \<le> length s \<Longrightarrow> hi + n \<le> length s \<Longrightarrow>
   hex_range (drop n s) lo hi = hex_range s (lo + n) (hi + n)"
proof (rule iffI)
  assume b: "hi + n \<le> length s" and h: "hex_range (drop n s) lo hi"
  have "is_hex (s ! i)" if "lo + n \<le> i" "i < hi + n" for i
    using hex_range_nth [OF h, of "i - n"] that b by (simp add: add.commute)
  then show "hex_range s (lo + n) (hi + n)" by (simp add: hex_range_def)
next
  assume "lo + n \<le> length s" "hex_range s (lo + n) (hi + n)"
  then show "hex_range (drop n s) lo hi" by (simp add: hex_range_def add.commute)
qed

lemma bdf_shape_drop4:
  assumes "bdf_shape 8 s"
  shows "bdf_shape 4 (drop 4 s)"
proof -
  have len: "length s = 16" using assms by (simp add: bdf_shape_def)
  have "hex_range s 0 8" using assms by (simp add: bdf_shape_def)
  then have "hex_range s 4 8" by (simp add: hex_range_def del: set_upt) (simp add: ball_Un)
  then show ?thesis using assms len by (simp add: bdf_shape_def hex_range_drop)
qed

lemma normalize_long:
  assumes "bdf_shape 8 s" "is_hex (s ! 15)"
  shows "normalize_pci_bdf s = (if hex_val (take 8 s) < 65536 then lower (drop 4 s) else lower s)"
proof -
  have len: "length s = 16" using assms(1) by (simp add: bdf_shape_def)
  have asc: "\<forall>c \<in> set s. c < 128"
    using bdf_shape_ascii [of 8 s] assms is_hex_lt by (auto simp: in_set_conv_nth)
  have hx: "\<forall>c \<in> set (take 8 s). is_hex c" using assms(1) by (rule bdf_shape_take)
  define a b where ab: "a = take 4 s" "b = take 4 (drop 4 s)"
  have t8: "take 8 s = a @ b" using take_add [of 4 4 s] by (simp add: ab)
  have l4: "length b = 4" "length a = 4" using len by (simp_all add: ab)
  have hab: "\<forall>c \<in> set a. is_hex c" "\<forall>c \<in> set b. is_hex c" using hx unfolding t8 by auto
  have d4: "drop 4 s = b @ drop 8 s" using append_take_drop_id [of 4 "drop 4 s"] by (simp add: ab)
  have "hex_val (take 8 s) < 65536 \<Longrightarrow> hex_val a = 0" using l4 by (simp add: t8 hex_val_append)
  then have "hex_val (take 8 s) < 65536 \<Longrightarrow> show_hex4 (hex_val (take 8 s)) = lower b"
    using l4 hab show_hex4_val [of b] unfolding t8 hex_val_append by (metis add_0 mult_0)
  then show ?thesis
    using assms len asc
    by (simp add: normalize_pci_bdf_def Let_def utf8_lower bdf_shape_lower take_map drop_map d4)
qed

lemma normalize_short: "length (utf8 (lower s)) \<noteq> 16 \<Longrightarrow> normalize_pci_bdf s = lower s"
  by (simp add: normalize_pci_bdf_def Let_def bdf_shape_def)

text \<open>The canonical spelling as a function of the address, given the domain digits as typed.\<close>

lemma parse_pci_bdf_cases:
  assumes "parse_pci_bdf s = Some t"
  obtains (short) "length s = 12" "bdf_valid s" "t = lower s"
  | (low) "length s = 16" "bdf_valid s" "hex_val (take 8 s) < 65536" "t = lower (drop 4 s)"
  | (high) "length s = 16" "bdf_valid s" "65536 \<le> hex_val (take 8 s)" "t = lower s"
proof -
  have v: "bdf_valid (utf8 s)" and t: "t = normalize_pci_bdf (lower s)"
    using assms by (simp_all add: parse_pci_bdf_def split: if_splits)
  have u: "utf8 s = s" using v by (rule bdf_valid_utf8)
  have bv: "bdf_valid s" using v u by simp
  then have asc: "\<forall>c \<in> set s. c < 128" by (rule bdf_valid_ascii)
  consider "length s = 12" | "length s = 16" using bv by (auto simp: bdf_valid_def)
  then show ?thesis
  proof cases
    case 1
    then have "t = lower s" using t asc by (subst (asm) normalize_short) (simp_all add: utf8_lower)
    then show ?thesis using 1 bv short by blast
  next
    case 2
    then have "bdf_shape 8 s" "48 \<le> s ! 15" "s ! 15 \<le> 55" using bv by (auto simp: bdf_valid_def)
    then have "bdf_shape 8 (lower s)" "is_hex (lower s ! 15)"
      using 2 by (simp_all add: bdf_shape_lower is_hex_def is_digit_def lower_char_def)
    then have "t = (if hex_val (take 8 s) < 65536 then lower (drop 4 s) else lower s)"
      using t by (simp add: normalize_long take_map drop_map)
    then show ?thesis using 2 bv low high by (cases "hex_val (take 8 s) < 65536") simp_all
  qed
qed

lemma bdf_valid_drop4:
  assumes "bdf_valid s" "length s = 16"
  shows "bdf_valid (drop 4 s)"
  using assms bdf_shape_drop4 [of s] by (simp add: bdf_valid_def)

lemma parse_valid_short: "bdf_valid s \<Longrightarrow> length s = 12 \<Longrightarrow> parse_pci_bdf s = Some (lower s)"
proof -
  assume a: "bdf_valid s" "length s = 12"
  then have asc: "\<forall>c \<in> set s. c < 128" by (simp add: bdf_valid_ascii)
  then have "normalize_pci_bdf (lower s) = lower s"
    using a by (subst normalize_short) (simp_all add: utf8_lower)
  then show ?thesis using a asc by (simp add: parse_pci_bdf_def utf8_ascii)
qed

lemma parse_valid_high:
  assumes "bdf_valid s" "length s = 16" "65536 \<le> hex_val (take 8 s)"
  shows "parse_pci_bdf s = Some (lower s)"
proof -
  have asc: "\<forall>c \<in> set s. c < 128" using assms(1) by (rule bdf_valid_ascii)
  then have "parse_pci_bdf s \<noteq> None" using assms(1) by (simp add: parse_pci_bdf_def utf8_ascii)
  then obtain t where t: "parse_pci_bdf s = Some t" by blast
  from t have "t = lower s" using assms by (cases rule: parse_pci_bdf_cases) simp_all
  with t show ?thesis by simp
qed

lemma pci_address_lower [simp]: "pci_address (lower s) = pci_address s"
  by (simp add: pci_address_def take_map drop_map)

lemma pci_address_drop4:
  assumes "bdf_valid s" "length s = 16" "hex_val (take 8 s) < 65536"
  shows "pci_address (drop 4 s) = pci_address s"
proof -
  define a b where ab: "a = take 4 s" "b = take 4 (drop 4 s)"
  have t8: "take 8 s = a @ b" using take_add [of 4 4 s] by (simp add: ab)
  have "length b = 4" using assms by (simp add: ab)
  then have "hex_val (take 8 s) = hex_val b" using assms(3) by (simp add: t8 hex_val_append)
  then show ?thesis using assms(2) by (simp add: pci_address_def ab)
qed

lemma bdf_valid_domain_hex:
  assumes "bdf_valid s"
  shows "\<forall>c \<in> set (take (length s - 8) s). is_hex c"
  using assms bdf_shape_take [of 4 s] bdf_shape_take [of 8 s]
  by (cases "length s = 12") (auto simp: bdf_valid_def)

lemma parse_pci_bdf_address: "parse_pci_bdf s = Some t \<Longrightarrow> pci_address t = pci_address s"
  by (erule parse_pci_bdf_cases) (simp_all add: pci_address_drop4)

text \<open>What a canonical spelling looks like: the short form below domain \<open>2^16\<close>, the long one above.\<close>

definition bdf_spelling :: "nat \<times> rstr \<Rightarrow> rstr \<Rightarrow> bool" where
  "bdf_spelling adr t \<longleftrightarrow> lower t = t \<and> pci_address t = adr \<and> 8 \<le> length t
     \<and> length t = (if fst adr < 65536 then 12 else 16)
     \<and> (\<forall>c \<in> set (take (length t - 8) t). is_hex c)"

lemma parse_pci_bdf_spelling:
  assumes "parse_pci_bdf s = Some t"
  shows "bdf_spelling (pci_address s) t"
  using assms
proof (cases rule: parse_pci_bdf_cases)
  case short
  have hx: "\<forall>c \<in> set (take 4 s). is_hex c" using bdf_valid_domain_hex [of s] short by simp
  then have "hex_val (take 4 s) < 16 ^ length (take 4 s)" by (rule hex_val_lt)
  then show ?thesis using short hx by (auto simp: bdf_spelling_def pci_address_def take_map drop_map)
next
  case low
  have "bdf_valid (drop 4 s)" using low by (intro bdf_valid_drop4) auto
  then have "\<forall>c \<in> set (take 4 (drop 4 s)). is_hex c" using bdf_valid_domain_hex [of "drop 4 s"] low by simp
  then show ?thesis using low pci_address_drop4 [of s]
    by (auto simp: bdf_spelling_def take_map) (simp_all add: pci_address_def)
next
  case high
  have "\<forall>c \<in> set (take 8 s). is_hex c" using bdf_valid_domain_hex [of s] high by simp
  then show ?thesis using high by (auto simp: bdf_spelling_def pci_address_def take_map drop_map)
qed

lemma spelling_unique:
  assumes "bdf_spelling p x" "bdf_spelling q y" "p = q"
  shows "x = y"
proof -
  have len: "length x = length y" and hx: "\<forall>c \<in> set (take (length x - 8) x). is_hex c"
    "\<forall>c \<in> set (take (length y - 8) y). is_hex c" and low: "lower x = x" "lower y = y"
    and adr: "pci_address x = pci_address y"
    using assms by (auto simp: bdf_spelling_def)
  have "lower (take (length x - 8) x) = lower (take (length y - 8) y)"
    using len hx adr by (intro hex_val_inj) (auto simp: pci_address_def)
  moreover have "lower (drop (length x - 8) x) = lower (drop (length y - 8) y)"
    using adr by (simp add: pci_address_def)
  ultimately have "lower x = lower y"
    using append_take_drop_id [of "length x - 8" x] append_take_drop_id [of "length y - 8" y]
    by (metis map_append)
  then show ?thesis using low by simp
qed

text \<open>
  parsing a PCI address gives the one canonical spelling of the device: the result parses
  to itself, and it denotes the same domain, bus, device and function.
\<close>

theorem parse_pci_bdf_canonical:
  assumes "parse_pci_bdf s = Some t"
  shows "parse_pci_bdf t = Some t \<and> pci_address t = pci_address s"
  using assms
proof (cases rule: parse_pci_bdf_cases)
  case short
  then show ?thesis using parse_valid_short [of t] by (simp add: bdf_valid_lower)
next
  case low
  have v: "bdf_valid (drop 4 s)" using low by (intro bdf_valid_drop4) auto
  then show ?thesis
    using low parse_valid_short [of t] pci_address_drop4 [of s] by (simp add: bdf_valid_lower)
next
  case high
  then show ?thesis using parse_valid_high [of t] by (simp add: bdf_valid_lower take_map)
qed

theorem parse_pci_bdf_canonical_witness:
  "parse_pci_bdf (lit ''0000:0a:0f.7'') = Some (lit ''0000:0a:0f.7'')
   \<and> pci_address (lit ''0000:0a:0f.7'') = pci_address (lit ''00000000:0A:0F.7'')"
proof -
  have "parse_pci_bdf (lit ''00000000:0A:0F.7'') = Some (lit ''0000:0a:0f.7'')" by code_simp
  then show ?thesis by (rule parse_pci_bdf_canonical)
qed

text \<open>
  two spellings are normalized to the same string exactly when they denote the same device,
  whichever of the two domain widths and whichever letter case each uses.
\<close>

theorem parse_pci_bdf_identity:
  assumes "parse_pci_bdf a = Some x" "parse_pci_bdf b = Some y"
  shows "x = y \<longleftrightarrow> pci_address a = pci_address b"
proof
  assume "x = y"
  then show "pci_address a = pci_address b" using assms parse_pci_bdf_address by metis
next
  assume eq: "pci_address a = pci_address b"
  show "x = y" using parse_pci_bdf_spelling [OF assms(1)] parse_pci_bdf_spelling [OF assms(2)] eq
    by (rule spelling_unique)
qed

theorem parse_pci_bdf_identity_witness:
  "lit ''000a:01:0f.7'' = lit ''000a:01:0f.7'' \<longleftrightarrow>
     pci_address (lit ''0000000A:01:0F.7'') = pci_address (lit ''000a:01:0f.7'')"
proof -
  have "parse_pci_bdf (lit ''0000000A:01:0F.7'') = Some (lit ''000a:01:0f.7'')"
    "parse_pci_bdf (lit ''000a:01:0f.7'') = Some (lit ''000a:01:0f.7'')" by code_simp+
  then show ?thesis by (rule parse_pci_bdf_identity)
qed

section \<open>Devices and MIG identities\<close>

record DeviceId =
  pci_bdf :: "rstr option"
  uuid :: "rstr option"

definition DeviceId_new :: "rstr option \<Rightarrow> rstr option \<Rightarrow> DeviceId" where
  "DeviceId_new b u = \<lparr>pci_bdf = map_option normalize_pci_bdf b, uuid = u\<rparr>"

definition DeviceId_key :: "DeviceId \<Rightarrow> rstr" where
  "DeviceId_key d = (case pci_bdf d of Some b \<Rightarrow> b
     | None \<Rightarrow> (case uuid d of Some u \<Rightarrow> u | None \<Rightarrow> []))"

definition is_mig_uuid :: "rstr \<Rightarrow> bool" where
  "is_mig_uuid v = (case strip_prefix (lit ''MIG-'') v of Some rest \<Rightarrow> rest \<noteq> [] | None \<Rightarrow> False)"

text \<open>\<^verbatim>\<open>?\<close> on an option is \<open>case\<close> with an early \<open>None\<close>; 47 is the slash.\<close>

definition mig_instance_of_mig_uuid :: "rstr \<Rightarrow> (u32 \<times> u32) option" where
  "mig_instance_of_mig_uuid v = (case strip_prefix (lit ''MIG-'') v of None \<Rightarrow> None
     | Some rest \<Rightarrow> (case rsplit_once 47 rest of None \<Rightarrow> None
       | Some (without_ci, ci) \<Rightarrow> (case rsplit_once 47 without_ci of None \<Rightarrow> None
         | Some (parent, gi) \<Rightarrow>
             if parent = [] \<or> gi = [] \<or> ci = [] then None
             else (case parse_word gi of None \<Rightarrow> None
               | Some g \<Rightarrow> (case parse_word ci of None \<Rightarrow> None | Some c \<Rightarrow> Some (g, c))))))"

definition rfind_sub :: "rstr \<Rightarrow> rstr \<Rightarrow> nat option" where
  "rfind_sub p s = map_option (\<lambda>i. length s - i - length p) (find_sub (rev p) (rev s))"

definition mig_instance :: "DeviceId \<Rightarrow> (u32 \<times> u32) option" where
  "mig_instance d = Option.bind (uuid d) mig_instance_of_mig_uuid"

definition mig_parent_uuid :: "DeviceId \<Rightarrow> rstr option" where
  "mig_parent_uuid d = (case uuid d of None \<Rightarrow> None
     | Some value \<Rightarrow> (case strip_prefix (lit ''MIG-'') value of
         Some stripped \<Rightarrow> (case rsplit_once 47 stripped of None \<Rightarrow> None
           | Some (without_ci, ci) \<Rightarrow> (case rsplit_once 47 without_ci of None \<Rightarrow> None
             | Some (parent, gi) \<Rightarrow>
                 if (parse_word gi :: u32 option) \<noteq> None \<and> (parse_word ci :: u32 option) \<noteq> None \<and> parent \<noteq> []
                 then Some parent else None))
       | None \<Rightarrow> (case rfind_sub (lit ''#mig-'') value of None \<Rightarrow> None
           | Some pos \<Rightarrow> if take pos value \<noteq> [] then Some (take pos value) else None)))"

lemma parse_word_Nil [simp]: "(parse_word [] :: 'a::len word option) = None"
  by (simp add: parse_word_def parse_nat_def)

lemma show_word_not_Nil: "show_word w \<noteq> []"
  by (simp add: show_word_def)

lemma show_word_no_slash: "47 \<notin> set (show_word w)"
  by (auto simp: show_word_def is_digit_def dest: show_nat_digits)

text \<open>
  a legacy MIG identity built from a parent UUID and two instance numbers gives back exactly
  those numbers and that parent, whatever slashes the parent contains.
\<close>

theorem mig_uuid_roundtrip:
  assumes "parent \<noteq> []" "uuid d = Some (lit ''MIG-'' @ parent @ 47 # show_word gi @ 47 # show_word ci)"
  shows "mig_instance d = Some (gi, ci) \<and> mig_parent_uuid d = Some parent"
proof -
  have 1: "rsplit_once 47 (parent @ 47 # show_word gi @ 47 # show_word ci)
      = Some (parent @ 47 # show_word gi, show_word ci)"
    by (simp add: rsplit_once_Some show_word_no_slash)
  have 2: "rsplit_once 47 (parent @ 47 # show_word gi) = Some (parent, show_word gi)"
    by (simp add: rsplit_once_Some show_word_no_slash)
  show ?thesis
    using assms(1)
    by (simp add: mig_instance_def mig_parent_uuid_def mig_instance_of_mig_uuid_def assms(2) 1 2
        show_word_not_Nil)
qed

theorem mig_uuid_roundtrip_witness:
  "mig_instance \<lparr>pci_bdf = None, uuid = Some (lit ''MIG-'' @ lit ''GPU-1'' @ 47 # show_word (3::u32) @ 47 # show_word (0::u32))\<rparr> = Some (3, 0)
   \<and> mig_parent_uuid \<lparr>pci_bdf = None, uuid = Some (lit ''MIG-'' @ lit ''GPU-1'' @ 47 # show_word (3::u32) @ 47 # show_word (0::u32))\<rparr>
     = Some (lit ''GPU-1'')"
  by (rule mig_uuid_roundtrip) simp_all

text \<open>
  for a MIG identity the two readings agree: instance numbers are decoded exactly when a
  parent is, so no process is attributed by instance numbers without the parent GPU they
  belong to; an opaque identity yields neither.
\<close>

theorem mig_instance_iff_parent:
  assumes "uuid d = Some v" "is_mig_uuid v"
  shows "mig_instance d \<noteq> None \<longleftrightarrow> mig_parent_uuid d \<noteq> None"
  using assms
  by (cases "strip_prefix (lit ''MIG-'') v")
    (auto simp: mig_instance_def mig_parent_uuid_def mig_instance_of_mig_uuid_def is_mig_uuid_def
      split: option.splits if_splits)

theorem mig_instance_iff_parent_witness:
  "mig_instance \<lparr>pci_bdf = None, uuid = Some (lit ''MIG-a/b/c'')\<rparr> \<noteq> None
   \<longleftrightarrow> mig_parent_uuid \<lparr>pci_bdf = None, uuid = Some (lit ''MIG-a/b/c'')\<rparr> \<noteq> None"
proof -
  have "is_mig_uuid (lit ''MIG-a/b/c'')" by code_simp
  then show ?thesis using mig_instance_iff_parent [of _ "lit ''MIG-a/b/c''"] by simp
qed

section \<open>GPU attribution\<close>

datatype GpuVendor = Nvidia | Amd | Intel | Other | UnknownVendor

datatype GpuEvidence = NvmlCompute | RenderNodeFd

record MappedGpu =
  mg_device :: DeviceId
  mg_name :: rstr
  mg_vendor :: GpuVendor
  mg_evidence :: GpuEvidence

definition MappedGpu_key :: "MappedGpu \<Rightarrow> rstr" where
  "MappedGpu_key g = (if DeviceId_key (mg_device g) = [] then lit ''<unkeyed>'' else DeviceId_key (mg_device g))"

datatype GpuMapping = MapNone | Single MappedGpu | Multi "MappedGpu list" | MapUnknown

definition GpuMapping_is_empty :: "GpuMapping \<Rightarrow> bool" where
  "GpuMapping_is_empty m = (case m of MapNone \<Rightarrow> True | MapUnknown \<Rightarrow> True | _ \<Rightarrow> False)"

definition GpuMapping_len :: "GpuMapping \<Rightarrow> nat option" where
  "GpuMapping_len m = (case m of MapNone \<Rightarrow> Some 0 | Single _ \<Rightarrow> Some 1
     | Multi ds \<Rightarrow> Some (length ds) | MapUnknown \<Rightarrow> None)"

section \<open>GPU selectors\<close>

datatype GpuSelector = Auto | Uuid rstr | PciBusId rstr | Index u32

definition GpuSelector_parse :: "rstr \<Rightarrow> GpuSelector" where
  "GpuSelector_parse raw = (let value = trim raw in
     if value = [] then Auto
     else case parse_word value of
       Some index \<Rightarrow> Index index
     | None \<Rightarrow> (case strip_prefix (lit ''gpu-'') value of
         Some rest \<Rightarrow> Uuid (lit ''GPU-'' @ rest)
       | None \<Rightarrow> (case strip_prefix (lit ''mig-'') value of
           Some rest \<Rightarrow> Uuid (lit ''MIG-'' @ rest)
         | None \<Rightarrow> if starts_with (lit ''GPU-'') value \<or> is_mig_uuid value then Uuid value
             else PciBusId value)))"

type_synonym gpu_device = "u32 \<times> rstr option \<times> rstr option"

definition GpuSelector_resolve :: "GpuSelector \<Rightarrow> gpu_device list \<Rightarrow> u32 option" where
  "GpuSelector_resolve sel devices = (case sel of
       Auto \<Rightarrow> (case devices of [] \<Rightarrow> None | (index, _, _) # _ \<Rightarrow> Some index)
     | Index index \<Rightarrow> map_option fst (find (\<lambda>(i, _, _). i = index) devices)
     | Uuid u \<Rightarrow> map_option fst (find (\<lambda>(_, v, _). v = Some u) devices)
     | PciBusId b \<Rightarrow> map_option fst (find (\<lambda>(_, _, v). v = Some b) devices))"

definition GpuSelector_as_string :: "GpuSelector \<Rightarrow> rstr" where
  "GpuSelector_as_string sel = (case sel of Auto \<Rightarrow> [] | Index i \<Rightarrow> show_word i
     | Uuid u \<Rightarrow> u | PciBusId u \<Rightarrow> u)"

definition GpuSelector_sanitized :: "GpuSelector \<Rightarrow> GpuSelector" where
  "GpuSelector_sanitized sel = (case sel of
       Uuid u \<Rightarrow> let value = trim u in if value = [] then Auto else Uuid value
     | PciBusId b \<Rightarrow> let value = trim b in if value = [] then Auto else PciBusId (normalize_pci_bdf value)
     | other \<Rightarrow> other)"

subsection \<open>Lemmas\<close>

lemma trimmed_lower [simp]: "trimmed (lower s) = trimmed s"
  by (cases s) (auto simp: trimmed_def hd_map last_map)

lemma not_ws_hex: "is_hex c \<Longrightarrow> \<not> is_ws c"
  by (auto simp: is_hex_def is_ws_def is_digit_def)

text \<open>Normalizing either lower-cases or shortens a full sixteen-byte address.\<close>

lemma normalize_cases:
  obtains (lower) "normalize_pci_bdf s = lower s"
  | (short) "length s = 16" "\<forall>c \<in> set s. c < 128" "bdf_shape 8 (lower s)" "is_hex (lower s ! 15)"
      "normalize_pci_bdf s = lower (drop 4 s)"
proof (cases "bdf_shape 8 (utf8 (lower s)) \<and> is_hex (utf8 (lower s) ! 15)")
  case True
  then have asc: "\<forall>c \<in> set (utf8 (lower s)). c < 128"
    using bdf_shape_ascii [of 8 "utf8 (lower s)"] is_hex_lt by (auto simp: in_set_conv_nth)
  then have u: "utf8 (lower s) = lower s" by (rule utf8_inv)
  have sh: "bdf_shape 8 (lower s)" "is_hex (lower s ! 15)" using True unfolding u by auto
  have len: "length s = 16" using sh(1) by (simp add: bdf_shape_def)
  have "c < 128" if "c \<in> set s" for c
  proof -
    have "lower_char c < 128" using asc that unfolding u by auto
    then show ?thesis by (auto simp: lower_char_def split: if_splits)
  qed
  moreover have "normalize_pci_bdf s = normalize_pci_bdf (lower s)" by (simp add: normalize_pci_bdf_def)
  then have "normalize_pci_bdf s = (if hex_val (take 8 s) < 65536 then lower (drop 4 s) else lower s)"
    using normalize_long [OF sh] by (simp add: take_map drop_map)
  ultimately show ?thesis using lower short sh len by (cases "hex_val (take 8 s) < 65536") auto
next
  case False
  then have "normalize_pci_bdf s = lower s" by (auto simp: normalize_pci_bdf_def Let_def)
  then show ?thesis by (rule lower)
qed

lemma normalize_lower [simp]: "normalize_pci_bdf (lower s) = normalize_pci_bdf s"
  by (simp add: normalize_pci_bdf_def)

lemma normalize_idem [simp]: "normalize_pci_bdf (normalize_pci_bdf s) = normalize_pci_bdf s"
proof (cases s rule: normalize_cases)
  case lower
  then show ?thesis by simp
next
  case short
  have "\<forall>c \<in> set (drop 4 s). c < 128" using short(2) by (auto dest: in_set_dropD)
  then have "utf8 (lower (drop 4 s)) = lower (drop 4 s)" by (rule utf8_lower)
  then have "normalize_pci_bdf (drop 4 s) = lower (drop 4 s)"
    using short(1) by (intro normalize_short) simp
  then show ?thesis using short by simp
qed

lemma trimmed_drop4:
  assumes "trimmed s" "length s = 16" "bdf_shape 8 (lower s)"
  shows "trimmed (drop 4 s)"
proof -
  have "is_hex (lower s ! 4)" using hex_range_nth [of "lower s" 0 8 4] assms(3) by (simp add: bdf_shape_def)
  then have "\<not> is_ws (s ! 4)" using assms(2) by (simp add: not_ws_hex)
  then show ?thesis using assms by (auto simp: trimmed_def hd_drop_conv_nth last_drop)
qed

lemma trimmed_normalize: "trimmed s \<Longrightarrow> trimmed (normalize_pci_bdf s)"
  by (cases s rule: normalize_cases) (simp_all add: trimmed_drop4)

lemma normalize_Nil_iff [simp]: "normalize_pci_bdf s = [] \<longleftrightarrow> s = []"
  by (cases s rule: normalize_cases) auto

lemma trimmed_prefix_swap:
  assumes "trimmed (p @ rest)" "length q = length p" "q \<noteq> []" "last q = last p" "\<not> is_ws (hd q)"
  shows "trimmed (q @ rest)"
  using assms by (cases rest rule: rev_cases) (auto simp: trimmed_def hd_append)

lemma parse_word_nondigit:
  assumes "c \<in> set s" "\<not> is_digit c" "c \<noteq> 43"
  shows "(parse_word s :: 'a::len word option) = None"
  using assms parse_nat_digits_only [of "LENGTH('a)" s _ c] by (cases "parse_nat LENGTH('a) s") (auto simp: parse_word_def)

lemma parse_word_lower: "(parse_word (lower s) :: 'a::len word option) = None" if "(parse_word s :: 'a word option) = None"
proof (cases "\<forall>c \<in> set s. is_digit c \<or> c = 43")
  case True
  then have "lower s = s" by (intro map_idI) (auto simp: lower_char_def is_digit_def)
  then show ?thesis using that by simp
next
  case False
  then obtain c where c: "c \<in> set s" "\<not> is_digit c" "c \<noteq> 43" by blast
  have "\<not> is_digit (lower_char c) \<and> lower_char c \<noteq> 43" using c(2,3) by (auto simp: lower_char_def is_digit_def)
  then show ?thesis using c(1) by (intro parse_word_nondigit [of "lower_char c"]) auto
qed

lemma normalize_not_index:
  assumes "(parse_word s :: u32 option) = None"
  shows "(parse_word (normalize_pci_bdf s) :: u32 option) = None"
proof (cases s rule: normalize_cases)
  case lower
  then show ?thesis using assms by (simp add: parse_word_lower)
next
  case short
  have "lower s ! 8 = 58" using short(3) by (simp add: bdf_shape_def)
  then have "58 = lower (drop 4 s) ! 4" using short(1) by simp
  then have "58 \<in> set (lower (drop 4 s))" using short(1) using nth_mem [of 4 "lower (drop 4 s)"] by simp
  then show ?thesis unfolding short(5) by (intro parse_word_nondigit [of 58]) (auto simp: is_digit_def)
qed

lemma normalize_is_lower: "lower (normalize_pci_bdf s) = normalize_pci_bdf s"
  by (cases s rule: normalize_cases) simp_all

lemma lower_no_upper_prefix: "lower s = s \<Longrightarrow> \<not> starts_with (lit (CHR ''G'' # t)) s \<and> \<not> starts_with (lit (CHR ''M'' # t)) s"
  by (auto simp: starts_with_iff lit_Cons lower_char_def)

lemma lower_not_mig: "lower s = s \<Longrightarrow> \<not> is_mig_uuid s"
  using lower_no_upper_prefix [of s "''IG-''"] by (auto simp: is_mig_uuid_def starts_with_iff strip_prefix_Some split: option.splits)

text \<open>A string headed by the upper-case prefix of a vendor UUID parses to that UUID.\<close>

lemma parse_vendor_uuid:
  assumes "trimmed v" "v = lit ''GPU-'' @ r \<or> (v = lit ''MIG-'' @ r \<and> r \<noteq> [])"
  shows "GpuSelector_parse v = Uuid v"
proof -
  have hd: "v \<noteq> []" "hd v = 71 \<or> hd v = 77" using assms(2) by (auto simp: lit_Cons)
  then have "hd v \<in> set v" by simp
  then have w: "(parse_word v :: u32 option) = None"
    using hd by (intro parse_word_nondigit [of "hd v"]) (auto simp: is_digit_def)
  have "strip_prefix (lit ''gpu-'') v = None" "strip_prefix (lit ''mig-'') v = None"
    using hd by (auto simp: strip_prefix_Some lit_Cons simp flip: not_Some_eq)
  moreover have "starts_with (lit ''GPU-'') v \<or> is_mig_uuid v"
    using assms(2) by (auto simp: starts_with_iff is_mig_uuid_def)
  ultimately show ?thesis using assms(1) hd w by (simp add: GpuSelector_parse_def trim_id)
qed

lemma parse_Uuid_shape:
  assumes "GpuSelector_parse raw = Uuid w"
  shows "trimmed w \<and> (\<exists>r. w = lit ''GPU-'' @ r \<or> w = lit ''MIG-'' @ r)"
proof -
  define v where "v = trim raw"
  have v: "trimmed v" by (simp add: v_def)
  consider (g) r where "v = lit ''gpu-'' @ r" "w = lit ''GPU-'' @ r" | (m) r where "v = lit ''mig-'' @ r" "w = lit ''MIG-'' @ r"
    | (s) "w = v" "starts_with (lit ''GPU-'') v \<or> is_mig_uuid v"
    using assms by (auto simp: GpuSelector_parse_def Let_def strip_prefix_Some v_def [symmetric] split: if_splits option.splits)
  then show ?thesis
  proof cases
    case g
    have "trimmed (lit ''GPU-'' @ r)" using v [unfolded g(1)]
      by (rule trimmed_prefix_swap) (simp_all add: lit_Cons is_ws_def)
    then show ?thesis using g by blast
  next
    case m
    have "trimmed (lit ''MIG-'' @ r)" using v [unfolded m(1)]
      by (rule trimmed_prefix_swap) (simp_all add: lit_Cons is_ws_def)
    then show ?thesis using m by blast
  next
    case s
    then show ?thesis using v by (auto simp: starts_with_iff is_mig_uuid_def strip_prefix_Some split: option.splits)
  qed
qed

text \<open>
  sanitizing a selector is idempotent: a configuration loaded, sanitized and sanitized again
  before it is saved keeps the device it names.
\<close>

theorem selector_sanitized_idem: "GpuSelector_sanitized (GpuSelector_sanitized sel) = GpuSelector_sanitized sel"
  by (cases sel) (simp_all add: GpuSelector_sanitized_def Let_def trim_id trimmed_normalize)

lemma selector_reparse:
  assumes sel: "sel = GpuSelector_sanitized (GpuSelector_parse raw)"
    and not_mig: "sel \<noteq> Uuid (lit ''MIG-'')"
    and not_prefix: "\<And>b. sel = PciBusId b \<Longrightarrow> \<not> starts_with (lit ''gpu-'') b \<and> \<not> starts_with (lit ''mig-'') b"
  shows "GpuSelector_parse (GpuSelector_as_string sel) = sel"
proof (cases sel)
  case Auto
  then show ?thesis by (simp add: GpuSelector_parse_def GpuSelector_as_string_def)
next
  case (Index i)
  have "trim (show_word i) = show_word i"
    by (intro trim_id trimmed_no_ws) (auto simp: show_word_def dest: show_nat_digits)
  then show ?thesis using Index by (simp add: GpuSelector_parse_def GpuSelector_as_string_def show_word_not_Nil)
next
  case (Uuid u)
  have "\<exists>w. GpuSelector_parse raw = Uuid w \<and> u = trim w"
    using sel Uuid by (auto simp: GpuSelector_sanitized_def Let_def split: GpuSelector.splits if_splits)
  then obtain w where w: "GpuSelector_parse raw = Uuid w" "u = trim w" by blast
  have "trimmed w \<and> (\<exists>r. w = lit ''GPU-'' @ r \<or> w = lit ''MIG-'' @ r)"
    using parse_Uuid_shape [OF w(1)] .
  then have "trimmed u" "\<exists>r. u = lit ''GPU-'' @ r \<or> (u = lit ''MIG-'' @ r \<and> r \<noteq> [])"
    using w(2) not_mig Uuid by (auto simp: trim_id)
  then have "GpuSelector_parse u = Uuid u" by (metis parse_vendor_uuid)
  then show ?thesis using Uuid by (simp add: GpuSelector_as_string_def)
next
  case (PciBusId b)
  have "\<exists>w. GpuSelector_parse raw = PciBusId w \<and> b = normalize_pci_bdf (trim w) \<and> trim w \<noteq> []"
    using sel PciBusId by (auto simp: GpuSelector_sanitized_def Let_def split: GpuSelector.splits if_splits)
  then obtain w where w: "GpuSelector_parse raw = PciBusId w" "b = normalize_pci_bdf (trim w)" "trim w \<noteq> []" by blast
  have "trimmed w" "(parse_word w :: u32 option) = None"
    using w(1) by (auto simp: GpuSelector_parse_def Let_def split: if_splits option.splits)
  then have "trimmed b" "b \<noteq> []" "(parse_word b :: u32 option) = None"
    using w by (simp_all add: trim_id trimmed_normalize normalize_not_index)
  moreover have "lower b = b" by (simp add: w(2) normalize_is_lower)
  moreover have "strip_prefix (lit ''gpu-'') b = None" "strip_prefix (lit ''mig-'') b = None"
    using not_prefix [OF PciBusId] by (auto simp: starts_with_def strip_prefix_def)
  ultimately have "GpuSelector_parse b = PciBusId b"
    using lower_no_upper_prefix [of b "''PU-''"] lower_not_mig [of b] by (simp add: GpuSelector_parse_def trim_id)
  then show ?thesis using PciBusId by (simp add: GpuSelector_as_string_def)
qed

text \<open>
  a selector survives being written to the configuration file and read back, for every text a
  user may have typed, except a bus id that begins with a vendor prefix in lower case and the
  bare MIG prefix.
\<close>

theorem selector_save_load:
  assumes "sel = GpuSelector_sanitized (GpuSelector_parse raw)"
    and "sel \<noteq> Uuid (lit ''MIG-'')"
    and "\<And>b. sel = PciBusId b \<Longrightarrow> \<not> starts_with (lit ''gpu-'') b \<and> \<not> starts_with (lit ''mig-'') b"
  shows "GpuSelector_parse (GpuSelector_as_string sel) = sel"
  using assms by (rule selector_reparse)

theorem selector_save_load_witness:
  "GpuSelector_parse (GpuSelector_as_string (GpuSelector_sanitized (GpuSelector_parse (lit '' 0000:0A:00.0''))))
   = GpuSelector_sanitized (GpuSelector_parse (lit '' 0000:0A:00.0''))"
proof -
  have v: "GpuSelector_sanitized (GpuSelector_parse (lit '' 0000:0A:00.0'')) = PciBusId (lit ''0000:0a:00.0'')"
    by code_simp
  have "\<not> starts_with (lit ''gpu-'') (lit ''0000:0a:00.0'') \<and> \<not> starts_with (lit ''mig-'') (lit ''0000:0a:00.0'')"
    by code_simp
  then show ?thesis by (intro selector_save_load [OF refl]) (auto simp: v)
qed

text \<open>
  the exception is real: a selector typed with a mixed-case vendor prefix is kept as a bus
  id, and after one save and load it has become a device UUID.
\<close>

theorem selector_mixed_case_changes_kind:
  "GpuSelector_sanitized (GpuSelector_parse (lit ''Gpu-1'')) = PciBusId (lit ''gpu-1'')
   \<and> GpuSelector_parse (GpuSelector_as_string (PciBusId (lit ''gpu-1''))) = Uuid (lit ''GPU-1'')"
  by code_simp

definition selects :: "GpuSelector \<Rightarrow> gpu_device \<Rightarrow> bool" where
  "selects sel d = (case sel of Auto \<Rightarrow> True | Index i \<Rightarrow> fst d = i
     | Uuid u \<Rightarrow> fst (snd d) = Some u | PciBusId b \<Rightarrow> snd (snd d) = Some b)"

lemma resolve_find: "GpuSelector_resolve sel ds = map_option fst (find (selects sel) ds)"
  by (cases sel; cases ds)
    (auto simp: GpuSelector_resolve_def selects_def [abs_def] case_prod_unfold intro!: arg_cong [of _ _ "map_option fst"])

text \<open>
  resolving a selector never invents a device: it returns the index of the first device in
  the list that matches the selector, and nothing when no device does.
\<close>

theorem selector_resolve_first:
  "GpuSelector_resolve sel ds = (case dropWhile (\<lambda>d. \<not> selects sel d) ds of [] \<Rightarrow> None | d # _ \<Rightarrow> Some (fst d))"
  unfolding resolve_find by (induction ds) auto

section \<open>Servers\<close>

text \<open>
  \<^verbatim>\<open>server_key\<close> over the URL library: \<^verbatim>\<open>url_parse\<close> is
  \<^verbatim>\<open>Url::parse\<close>, the others its methods; a rejected setter leaves the URL as it is.
\<close>

record 'u url_api =
  url_parse :: "rstr \<Rightarrow> 'u option"
  url_to_string :: "'u \<Rightarrow> rstr"
  url_scheme :: "'u \<Rightarrow> rstr"
  url_host_str :: "'u \<Rightarrow> rstr option"
  url_port :: "'u \<Rightarrow> u16 option"
  url_path :: "'u \<Rightarrow> rstr"
  url_query :: "'u \<Rightarrow> rstr option"
  url_fragment :: "'u \<Rightarrow> rstr option"
  url_username :: "'u \<Rightarrow> rstr"
  url_password :: "'u \<Rightarrow> rstr option"
  url_clear_password :: "'u \<Rightarrow> 'u"
  url_clear_username :: "'u \<Rightarrow> 'u"
  url_set_path :: "rstr \<Rightarrow> 'u \<Rightarrow> 'u"
  url_clear_query :: "'u \<Rightarrow> 'u"
  url_clear_fragment :: "'u \<Rightarrow> 'u"

definition ends_with_char :: "rchar \<Rightarrow> rstr \<Rightarrow> bool" where
  "ends_with_char c s \<longleftrightarrow> s \<noteq> [] \<and> last s = c"

definition strip_userinfo :: "('u, 'z) url_api_scheme \<Rightarrow> 'u \<Rightarrow> 'u" where
  "strip_userinfo api url = url_clear_username api (url_clear_password api url)"

definition server_key :: "('u, 'z) url_api_scheme \<Rightarrow> rstr \<Rightarrow> rstr" where
  "server_key api endpoint = (let trimmed = trim endpoint in
     case url_parse api trimmed of None \<Rightarrow> trimmed
     | Some url0 \<Rightarrow> (let url = strip_userinfo api url0; path = url_path api url in
         if path \<noteq> lit ''/'' \<and> ends_with_char 47 path
         then url_to_string api (url_set_path api (trim_end_by (\<lambda>c. c = 47) path) url)
         else url_to_string api url))"

datatype ActivityPhase = PhIdle | PhUnknown | PhPrefill | PhGenerating | PhProcessing | PhQueued | PhReconnecting

datatype ServerBackend = UnknownBackend | LlamaCpp | Strata

record ServerSpec =
  sv_key :: rstr
  sv_endpoint :: rstr
  sv_identity :: "LocalServerIdentity option"

text \<open>
  What the key relies on in the URL library: a URL is parsed back from its own serialization,
  which neither starts nor ends in white space; the clearing setters remove the credentials and
  setting the path does not bring them back; setting a path that ends in no slash does not append
  one, unless the path becomes the root.
\<close>

definition url_laws :: "('u, 'z) url_api_scheme \<Rightarrow> bool" where
  "url_laws api \<longleftrightarrow>
     (\<forall>u. url_parse api (url_to_string api u) = Some u) \<and> (\<forall>u. trimmed (url_to_string api u))
   \<and> (\<forall>u. strip_userinfo api (strip_userinfo api u) = strip_userinfo api u)
   \<and> (\<forall>u. url_username api (strip_userinfo api u) = [] \<and> url_password api (strip_userinfo api u) = None)
   \<and> (\<forall>p u. strip_userinfo api (url_set_path api p u) = url_set_path api p (strip_userinfo api u))
   \<and> (\<forall>p u. \<not> ends_with_char 47 p \<longrightarrow>
        url_path api (url_set_path api p u) = lit ''/'' \<or> \<not> ends_with_char 47 (url_path api (url_set_path api p u)))"

lemma trim_end_by_not_ends: "\<not> ends_with_char c (trim_end_by (\<lambda>d. d = c) s)"
  using trim_end_by_last [of "\<lambda>d. d = c" s] by (auto simp: ends_with_char_def)

text \<open>
  a server key identifies an endpoint once and for all: for an endpoint that parses, the key
  parses to a URL with no user name and no password, and taking the key of a key changes nothing.
\<close>

theorem server_key_canonical:
  assumes laws: "url_laws api" and parse: "url_parse api (trim e) = Some u"
  shows "(\<exists>w. url_parse api (server_key api e) = Some w \<and> url_username api w = [] \<and> url_password api w = None)
    \<and> server_key api (server_key api e) = server_key api e"
proof -
  define v where "v = strip_userinfo api u"
  define c where "c \<longleftrightarrow> url_path api v \<noteq> lit ''/'' \<and> ends_with_char 47 (url_path api v)"
  define w where "w = (if c then url_set_path api (trim_end_by (\<lambda>c. c = 47) (url_path api v)) v else v)"
  have key: "server_key api e = url_to_string api w"
    using parse by (simp add: server_key_def Let_def w_def c_def v_def)
  have rt: "url_parse api (url_to_string api w) = Some w" "trimmed (url_to_string api w)"
    using laws by (simp_all add: url_laws_def)
  have sv: "strip_userinfo api v = v" using laws by (simp add: url_laws_def v_def)
  have sw: "strip_userinfo api w = w" using laws sv by (simp add: url_laws_def w_def)
  have "url_path api w = lit ''/'' \<or> \<not> ends_with_char 47 (url_path api w)"
    using laws trim_end_by_not_ends [of 47 "url_path api v"] by (auto simp: url_laws_def w_def c_def)
  then have "server_key api (url_to_string api w) = url_to_string api w"
    using rt sw by (auto simp: server_key_def Let_def trim_id)
  moreover have "url_username api (strip_userinfo api w) = [] \<and> url_password api (strip_userinfo api w) = None"
    using laws unfolding url_laws_def by blast
  ultimately show ?thesis unfolding key using rt(1) sw by auto
qed

text \<open>
  A URL library over four URLs, with and without credentials and with and without a trailing
  slash, at which the laws hold.
\<close>

definition sample_url_string :: "bool \<times> bool \<Rightarrow> rstr" where
  "sample_url_string u = (case u of (cred, slash) \<Rightarrow>
     lit ''http://'' @ (if cred then lit ''u:p@'' else []) @ lit ''h/v1'' @ (if slash then lit ''/'' else []))"

definition sample_urls :: "(bool \<times> bool) url_api" where
  "sample_urls = \<lparr>
     url_parse = (\<lambda>s. find (\<lambda>u. sample_url_string u = s) [(False, False), (False, True), (True, False), (True, True)]),
     url_to_string = sample_url_string, url_scheme = (\<lambda>_. lit ''http''), url_host_str = (\<lambda>_. Some (lit ''h'')),
     url_port = (\<lambda>_. None), url_path = (\<lambda>(_, slash). if slash then lit ''/v1/'' else lit ''/v1''),
     url_query = (\<lambda>_. None), url_fragment = (\<lambda>_. None),
     url_username = (\<lambda>(cred, _). if cred then lit ''u'' else []),
     url_password = (\<lambda>(cred, _). if cred then Some (lit ''p'') else None),
     url_clear_password = (\<lambda>(_, slash). (False, slash)), url_clear_username = (\<lambda>(_, slash). (False, slash)),
     url_set_path = (\<lambda>p (cred, _). (cred, p = lit ''/v1/'')),
     url_clear_query = id, url_clear_fragment = id\<rparr>"

lemma sample_urls_laws: "url_laws sample_urls"
proof -
  have p: "url_parse sample_urls (url_to_string sample_urls u) = Some u" for u
    by (cases u rule: prod.exhaust; cases "fst u"; cases "snd u")
      (simp_all add: sample_urls_def sample_url_string_def lit_def)
  have t: "trimmed (url_to_string sample_urls u)" for u
    by (cases u rule: prod.exhaust; cases "fst u"; cases "snd u")
      (simp_all add: sample_urls_def sample_url_string_def lit_def trimmed_def is_ws_def)
  show ?thesis unfolding url_laws_def
    by (simp add: p t) (auto simp: sample_urls_def strip_userinfo_def ends_with_char_def lit_def split: prod.splits)
qed

theorem server_key_canonical_witness:
  "(\<exists>w. url_parse sample_urls (server_key sample_urls (lit ''http://u:p@h/v1/'')) = Some w
      \<and> url_username sample_urls w = [] \<and> url_password sample_urls w = None)
   \<and> server_key sample_urls (server_key sample_urls (lit ''http://u:p@h/v1/'')) = server_key sample_urls (lit ''http://u:p@h/v1/'')"
proof (rule server_key_canonical [OF sample_urls_laws])
  show "url_parse sample_urls (trim (lit ''http://u:p@h/v1/'')) = Some (True, True)" by code_simp
qed

end
