(* ===== verification/Llama.thy ===== *)
theory Llama
  imports Strata_Metrics Domain
begin

text \<open>
  The telemetry of one server, from \<^verbatim>\<open>src/llama.rs\<close>, and the reading of a metrics
  body, from \<^verbatim>\<open>src/llama/metrics.rs\<close>: which wire format a body is in, which sample
  answers a name, and what a counter pair says about the rate.  Text to JSON is the parameter
  \<open>from_str\<close>.
\<close>

section \<open>The statistics of a server\<close>

record LlmSlotInfo =
  si_id :: u64
  si_busy :: bool
  si_context_used :: "u64 option"
  si_context_size :: "u64 option"

record LlmStats =
  connected :: bool
  metrics_available :: bool
  reconnecting :: bool
  model :: rstr
  context_size :: u64
  context_used :: "u64 option"
  context_high_watermark :: "u64 option"
  context_slot_id :: "u64 option"
  slots_available :: bool
  slot_count :: u64
  props_slot_count :: u64
  busy_slots :: u64
  slot_overview :: "LlmSlotInfo list"
  slots_error :: rstr
  prompt_total :: "f64 option"
  prompt_cached_total :: "f64 option"
  generated_total :: "f64 option"
  request_prompt_tokens :: "u64 option"
  request_generated_tokens :: "u64 option"
  prompt_seconds_total :: "f64 option"
  generation_seconds_total :: "f64 option"
  prompt_tps :: "f64 option"
  generation_tps :: "f64 option"
  prompt_avg_tps :: "f64 option"
  generation_avg_tps :: "f64 option"
  active_requests :: "f64 option"
  deferred_requests :: "f64 option"
  strata_phase :: "StrataPhase option"
  backend :: ServerBackend
  spec_drafts_total :: "f64 option"
  spec_draft_tokens :: "f64 option"
  spec_accepted_tokens :: "f64 option"
  spec_enabled :: bool
  spec_is_mtp :: bool
  spec_n_max :: "u64 option"
  spec_acceptance_pct :: "f64 option"
  error_text :: rstr

text \<open>\<^verbatim>\<open>LlmStats::default()\<close>.\<close>

definition LlmStats_default :: LlmStats where
  "LlmStats_default = \<lparr>connected = False, metrics_available = False, reconnecting = False, model = [],
     context_size = 0, context_used = None, context_high_watermark = None, context_slot_id = None,
     slots_available = False, slot_count = 0, props_slot_count = 0, busy_slots = 0, slot_overview = [],
     slots_error = [], prompt_total = None, prompt_cached_total = None, generated_total = None,
     request_prompt_tokens = None, request_generated_tokens = None, prompt_seconds_total = None,
     generation_seconds_total = None, prompt_tps = None, generation_tps = None, prompt_avg_tps = None,
     generation_avg_tps = None, active_requests = None, deferred_requests = None, strata_phase = None,
     backend = UnknownBackend, spec_drafts_total = None, spec_draft_tokens = None,
     spec_accepted_tokens = None, spec_enabled = False, spec_is_mtp = False, spec_n_max = None,
     spec_acceptance_pct = None, error_text = []\<rparr>"

section \<open>Activity\<close>

text \<open>The literal \<^verbatim>\<open>0.05\<close>.\<close>

definition ACTIVE_RATE :: f64 where
  "ACTIVE_RATE = rnd (1 / 20)"

text \<open>\<^verbatim>\<open>== Some(0.0)\<close> is IEEE equality under the option.\<close>

definition opt_f64_eq :: "f64 option \<Rightarrow> f64 option \<Rightarrow> bool" where
  "opt_f64_eq a b = (case (a, b) of (Some x, Some y) \<Rightarrow> f64_eq x y | (None, None) \<Rightarrow> True | _ \<Rightarrow> False)"

definition classify_phase :: "LlmStats \<Rightarrow> ActivityPhase" where
  "classify_phase llm = (let
       generating = (strata_phase llm = Some SGenerating \<or> is_some_and (\<lambda>v. ACTIVE_RATE < v) (generation_tps llm));
       reading = (strata_phase llm = Some SReading \<or> is_some_and (\<lambda>v. ACTIVE_RATE < v) (prompt_tps llm))
     in if generating then PhGenerating
        else if reading then PhPrefill
        else if 0 < busy_slots llm \<or> is_some_and (\<lambda>v. Fin 0 < v) (active_requests llm) then PhProcessing
        else if is_some_and (\<lambda>v. Fin 0 < v) (deferred_requests llm) then PhQueued
        else if strata_phase llm = Some SIdle \<or> slots_available llm \<or> opt_f64_eq (active_requests llm) (Some (Fin 0))
          then PhIdle
        else PhUnknown)"

definition activity_phase :: "LlmStats \<Rightarrow> ActivityPhase option" where
  "activity_phase llm = (if reconnecting llm then Some PhReconnecting
     else if \<not> connected llm then None else Some (classify_phase llm))"

section \<open>Metrics bodies\<close>

datatype MetricsFormat = FPrometheus | FStrata

record ParsedMetrics =
  pm_samples :: "MetricSample list"
  pm_format :: "MetricsFormat option"
  pm_strata_since :: "f64 option"
  pm_strata_live :: "StrataLive option"
  pm_strata_capacity :: "u64 option"
  pm_json :: bool

definition classify_backend :: "MetricsFormat option \<Rightarrow> MetricSample list \<Rightarrow> ServerBackend" where
  "classify_backend format metrics = (case format of
       Some FStrata \<Rightarrow> Strata
     | Some FPrometheus \<Rightarrow>
         if list_ex (\<lambda>s. contains_sub (lit ''llamacpp'') (ms_name s)) metrics then LlamaCpp else UnknownBackend
     | None \<Rightarrow> UnknownBackend)"

definition parse_metrics_body :: "(rstr \<Rightarrow> json option) \<Rightarrow> rstr \<Rightarrow> ParsedMetrics" where
  "parse_metrics_body from_str text = (let trimmed = trim_start text;
       rejected = \<lparr>pm_samples = [], pm_format = None, pm_strata_since = None, pm_strata_live = None,
          pm_strata_capacity = None, pm_json = True\<rparr> in
     if starts_with (lit ''{'') trimmed \<or> starts_with (lit ''['') trimmed then
       (case from_str trimmed of
          Some value \<Rightarrow>
            if is_strata_metrics value then
              \<lparr>pm_samples = extract_samples value, pm_format = Some FStrata, pm_strata_since = totals_since value,
               pm_strata_live = Some (live_rates value), pm_strata_capacity = engine_capacity value, pm_json = True\<rparr>
            else rejected
        | None \<Rightarrow> rejected)
     else \<lparr>pm_samples = parse_prometheus text, pm_format = Some FPrometheus, pm_strata_since = None,
        pm_strata_live = None, pm_strata_capacity = None, pm_json = False\<rparr>)"

text \<open>The first name, in the order given, that an unlabelled sample carries.\<close>

fun pick_metric_opt :: "MetricSample list \<Rightarrow> rstr list \<Rightarrow> f64 option" where
  "pick_metric_opt metrics [] = None"
| "pick_metric_opt metrics (name # names) =
     (case find (\<lambda>s. ms_name s = name \<and> ms_labels s = None) metrics of
        Some s \<Rightarrow> Some (ms_value s) | None \<Rightarrow> pick_metric_opt metrics names)"

definition average_over_seconds :: "f64 option \<Rightarrow> f64 option \<Rightarrow> f64 option" where
  "average_over_seconds tokens seconds = (case (tokens, seconds) of
       (Some t, Some s) \<Rightarrow> if is_finite t \<and> is_finite s \<and> Fin 0 < s then Some (fdiv t s) else None
     | _ \<Rightarrow> None)"

definition counter_delta_opt :: "f64 \<Rightarrow> f64 \<Rightarrow> f64 option" where
  "counter_delta_opt current previous =
     (if is_finite current \<and> is_finite previous \<and> previous \<le> current then Some (fsub current previous) else None)"

definition counter_rate :: "f64 option \<Rightarrow> f64 option \<Rightarrow> f64 \<Rightarrow> f64 option" where
  "counter_rate current previous seconds = (case (current, previous) of
       (Some c, Some p) \<Rightarrow> map_option (\<lambda>delta. fdiv delta seconds) (counter_delta_opt c p)
     | _ \<Rightarrow> None)"

end
