(* ===== verification/Redact.thy ===== *)
theory Redact
  imports Domain
begin

text \<open>
  The no-secrets boundary of \<^verbatim>\<open>src/redact.rs\<close>: the safe display form of an
  endpoint, the redaction of URLs inside free text, and the clean-up of text a server controls.
  The URL library is the parameter \<open>api\<close>; 8230 is the ellipsis, 58 the colon, 91 and 93 the
  square brackets, 32 the space.
\<close>

definition UNPARSEABLE_ENDPOINT :: rstr where
  "UNPARSEABLE_ENDPOINT = lit ''<unparseable endpoint>''"

definition MAX_UNTRUSTED_DISPLAY_CHARS :: nat where
  "MAX_UNTRUSTED_DISPLAY_CHARS = 240"

definition safe_endpoint_of :: "('u, 'z) url_api_scheme \<Rightarrow> 'u \<Rightarrow> rstr" where
  "safe_endpoint_of api url = (case url_host_str api url of None \<Rightarrow> UNPARSEABLE_ENDPOINT
     | Some h \<Rightarrow> (let host = (if 58 \<in> set h \<and> \<not> starts_with (lit ''['') h then lit ''['' @ h @ lit '']'' else h) in
         url_scheme api url @ lit ''://'' @ host
         @ (case url_port api url of Some port \<Rightarrow> lit '':'' @ show_word port | None \<Rightarrow> [])
         @ (if url_path api url \<noteq> [] \<and> url_path api url \<noteq> lit ''/'' then lit ''/'' @ [8230] else [])
         @ (if url_query api url \<noteq> None then lit ''?'' @ [8230] else [])
         @ (if url_fragment api url \<noteq> None then lit ''#'' @ [8230] else [])))"

definition safe_endpoint :: "('u, 'z) url_api_scheme \<Rightarrow> rstr \<Rightarrow> rstr" where
  "safe_endpoint api raw = (case url_parse api (trim raw) of Some url \<Rightarrow> safe_endpoint_of api url
     | None \<Rightarrow> UNPARSEABLE_ENDPOINT)"

definition find_url_start :: "rstr \<Rightarrow> nat option" where
  "find_url_start text = (case (find_sub (lit ''http://'') (lower text), find_sub (lit ''https://'') (lower text)) of
       (Some a, Some b) \<Rightarrow> Some (min a b)
     | (Some a, None) \<Rightarrow> Some a
     | (None, Some b) \<Rightarrow> Some b
     | (None, None) \<Rightarrow> None)"

definition is_wrapper_delimiter :: "rchar \<Rightarrow> bool" where
  "is_wrapper_delimiter c \<longleftrightarrow> c \<in> set [41, 44, 93, 125, 62, 34, 39]"

definition parse_safe :: "('u, 'z) url_api_scheme \<Rightarrow> rstr \<Rightarrow> rstr option" where
  "parse_safe api candidate = (case url_parse api candidate of None \<Rightarrow> None
     | Some url \<Rightarrow> (case url_host_str api url of None \<Rightarrow> None | Some _ \<Rightarrow> Some (safe_endpoint_of api url)))"

definition redact_url_token :: "('u, 'z) url_api_scheme \<Rightarrow> rstr \<Rightarrow> rstr" where
  "redact_url_token api token = (if token = [] then []
     else (let trimmed = trim_end_by is_wrapper_delimiter token; suffix = drop (length trimmed) token in
       case parse_safe api trimmed of
         Some redacted \<Rightarrow> redacted @ suffix
       | None \<Rightarrow> (case parse_safe api token of
           Some redacted \<Rightarrow> redacted
         | None \<Rightarrow> UNPARSEABLE_ENDPOINT @ suffix)))"

text \<open>The scan consumes at least the scheme of the URL it finds, so it ends.\<close>

lemma find_sub_hd:
  assumes "find_sub (c # p) s = Some i"
  shows "i < length s \<and> s ! i = c"
  using find_sub_SomeD [OF assms] by (auto simp: nth_append)

lemma find_url_start_nth:
  assumes "find_url_start text = Some i"
  shows "i < length text \<and> \<not> is_ws (text ! i)"
proof -
  have h: "j < length text \<and> \<not> is_ws (text ! j)" if "find_sub (lit (CHR ''h'' # p)) (lower text) = Some j" for j p
  proof -
    have "j < length (lower text) \<and> lower text ! j = 104"
      using that by (intro find_sub_hd [of 104 "lit p"]) (simp add: lit_Cons)
    then have "j < length text" "lower_char (text ! j) = 104" by auto
    moreover from this(2) have "is_ws (text ! j) \<longleftrightarrow> is_ws (104)" by (metis is_ws_lower)
    ultimately show ?thesis by (simp add: is_ws_def)
  qed
  show ?thesis using assms by (auto simp: find_url_start_def min_def dest!: h split: option.splits if_splits)
qed

function redact_urls :: "('u, 'z) url_api_scheme \<Rightarrow> rstr \<Rightarrow> rstr" where
  "redact_urls api text = (case find_url_start text of
       None \<Rightarrow> text
     | Some i \<Rightarrow> (let candidate = drop i text; token = takeWhile (\<lambda>c. \<not> is_ws c) candidate in
         take i text @ redact_url_token api token @ redact_urls api (drop (length token) candidate)))"
  by pat_completeness auto
termination
proof (relation "measure (\<lambda>(_, text). length text)", goal_cases)
  case (2 api tx i candidate token)
  have i: "i < length tx" "\<not> is_ws (tx ! i)" using find_url_start_nth [OF 2(1)] by auto
  then have "candidate \<noteq> []" "\<not> is_ws (hd candidate)" by (simp_all add: 2(2) hd_drop_conv_nth)
  then have "0 < length token" by (cases candidate) (auto simp: 2(3))
  then show ?case using i by (simp add: 2(2) del: length_greater_0_conv)
qed simp

declare redact_urls.simps [simp del]

text \<open>\<^verbatim>\<open>describe_reqwest_error\<close>: the message without its URL, and the texts of the source chain.\<close>

definition describe_reqwest_error :: "('u, 'z) url_api_scheme \<Rightarrow> rstr \<Rightarrow> rstr list \<Rightarrow> rstr" where
  "describe_reqwest_error api message causes =
     redact_urls api (message @ concat (map (\<lambda>t. if t = [] then [] else lit '': '' @ t) causes))"

definition sanitize_step :: "rstr \<times> bool \<Rightarrow> rchar \<Rightarrow> rstr \<times> bool" where
  "sanitize_step st c = (case st of (out, pending_space) \<Rightarrow>
     if is_ctl c \<or> is_ws c then (out, out \<noteq> [])
     else ((if pending_space then out @ [32] else out) @ [c], False))"

definition sanitize_display_text :: "rstr \<Rightarrow> nat \<Rightarrow> rstr" where
  "sanitize_display_text value max_chars = (let out = fst (foldl sanitize_step ([], False) value) in
     if max_chars = 0 then []
     else if max_chars < length out then take max_chars out @ [8230]
     else out)"

section \<open>Text a server controls\<close>

text \<open>
  The state of the loop: the output has no control character, no white space but single inner
  spaces, and starts and ends in neither.
\<close>

definition clean_char :: "rchar \<Rightarrow> bool" where
  "clean_char c \<longleftrightarrow> \<not> is_ctl c \<and> (\<not> is_ws c \<or> c = 32)"

fun no_double_space :: "rstr \<Rightarrow> bool" where
  "no_double_space (a # b # s) = (\<not> (a = 32 \<and> b = 32) \<and> no_double_space (b # s))"
| "no_double_space _ = True"

definition clean_text :: "rstr \<Rightarrow> bool" where
  "clean_text s \<longleftrightarrow> (\<forall>c \<in> set s. clean_char c) \<and> no_double_space s \<and> trimmed s"

lemma no_double_space_snoc: "no_double_space (s @ [c]) \<longleftrightarrow> no_double_space s \<and> (s = [] \<or> \<not> (last s = 32 \<and> c = 32))"
  by (induction s rule: no_double_space.induct) auto

lemma clean_text_snoc:
  assumes "clean_text s" "\<not> is_ctl c" "\<not> is_ws c"
  shows "clean_text (s @ [c])" and "s \<noteq> [] \<Longrightarrow> clean_text (s @ [32, c])"
proof -
  have c: "c \<noteq> 32" using assms(3) by (auto simp: is_ws_def)
  have sp: "\<not> is_ctl 32" "is_ws 32" by (simp_all add: is_ctl_def is_ws_def)
  show "clean_text (s @ [c])"
    using assms c by (auto simp: clean_text_def clean_char_def no_double_space_snoc trimmed_def hd_append)
  assume "s \<noteq> []"
  moreover have "no_double_space ((s @ [32]) @ [c])"
    using assms(1) c sp \<open>s \<noteq> []\<close> unfolding no_double_space_snoc
    by (auto simp: clean_text_def trimmed_def)
  ultimately show "clean_text (s @ [32, c])"
    using assms c sp by (auto simp: clean_text_def clean_char_def trimmed_def)
qed

lemma sanitize_step_inv:
  assumes "clean_text (fst st)" "snd st \<longrightarrow> fst st \<noteq> []"
  shows "clean_text (fst (sanitize_step st c)) \<and> (snd (sanitize_step st c) \<longrightarrow> fst (sanitize_step st c) \<noteq> [])"
proof (cases "is_ctl c \<or> is_ws c")
  case True
  then show ?thesis using assms by (cases st) (simp add: sanitize_step_def)
next
  case False
  then show ?thesis using assms clean_text_snoc [of "fst st" c]
    by (cases st) (auto simp: sanitize_step_def)
qed

lemma sanitize_fold_inv:
  "clean_text (fst st) \<Longrightarrow> snd st \<longrightarrow> fst st \<noteq> [] \<Longrightarrow> clean_text (fst (foldl sanitize_step st value))"
proof (induction "value" arbitrary: st)
  case (Cons c s)
  show ?case using Cons.IH [of "sanitize_step st c"] sanitize_step_inv [of st c] Cons.prems by simp
qed simp

lemma sanitize_fold_clean: "clean_text (fst (foldl sanitize_step ([], False) value))"
  by (rule sanitize_fold_inv) (simp_all add: clean_text_def trimmed_def)

text \<open>
  Text a server sends is displayed without a terminal control character, with single spaces
  only, and with at most one character, the ellipsis, beyond the bound.
\<close>

theorem sanitize_display_text_safe:
  "(\<forall>c. c \<in> set (sanitize_display_text value n) \<longrightarrow> \<not> is_ctl c \<and> (is_ws c \<longrightarrow> c = 32))
   \<and> no_double_space (sanitize_display_text value n) \<and> length (sanitize_display_text value n) \<le> n + 1"
proof -
  define out where "out = fst (foldl sanitize_step ([], False) value)"
  have clean: "clean_text out" unfolding out_def by (rule sanitize_fold_clean)
  have nd: "no_double_space (take n out)" for n
  proof -
    have "no_double_space (a @ b) \<Longrightarrow> no_double_space a" for a b
      by (induction a rule: no_double_space.induct) auto
    then show ?thesis using clean unfolding clean_text_def by (metis append_take_drop_id)
  qed
  have el: "\<not> is_ctl 8230" "\<not> is_ws 8230" by (simp_all add: is_ctl_def is_ws_def)
  have cs: "c \<in> set out \<Longrightarrow> \<not> is_ctl c \<and> (is_ws c \<longrightarrow> c = 32)" for c
    using clean by (auto simp: clean_text_def clean_char_def)
  show ?thesis
    unfolding sanitize_display_text_def Let_def out_def [symmetric]
    using cs el nd [of n] clean by (auto simp: no_double_space_snoc clean_text_def dest: in_set_takeD)
qed

section \<open>Redaction of URLs\<close>

text \<open>The parts of a URL that may be shown.\<close>

definition public_view :: "('u, 'z) url_api_scheme \<Rightarrow> 'u \<Rightarrow> rstr option \<times> rstr \<times> u16 option \<times> bool \<times> bool \<times> bool" where
  "public_view api u = (url_host_str api u, url_scheme api u, url_port api u,
     url_path api u = [] \<or> url_path api u = lit ''/'', url_query api u = None, url_fragment api u = None)"

lemma safe_endpoint_of_public: "public_view api u = public_view api v \<Longrightarrow> safe_endpoint_of api u = safe_endpoint_of api v"
  by (auto simp: public_view_def safe_endpoint_of_def Let_def split: option.splits)

text \<open>A URL token: what the punctuation of the surrounding text leaves, and that punctuation.\<close>

definition token_core :: "rstr \<Rightarrow> rstr" where
  "token_core token = trim_end_by is_wrapper_delimiter token"

definition token_suffix :: "rstr \<Rightarrow> rstr" where
  "token_suffix token = drop (length (token_core token)) token"

lemma redact_url_token_core:
  assumes "url_parse api (token_core token) = Some u" "url_host_str api u \<noteq> None" "token \<noteq> []"
  shows "redact_url_token api token = safe_endpoint_of api u @ token_suffix token"
  using assms by (auto simp: redact_url_token_def parse_safe_def token_core_def token_suffix_def)

text \<open>The scan of a text whose first URL is \<open>token\<close>.\<close>

lemma redact_urls_first:
  assumes "find_url_start (before @ token @ rest) = Some (length before)"
    and "\<forall>c \<in> set token. \<not> is_ws c" and "rest = [] \<or> is_ws (hd rest)"
  shows "redact_urls api (before @ token @ rest) = before @ redact_url_token api token @ redact_urls api rest"
proof -
  have "takeWhile (\<lambda>c. \<not> is_ws c) (token @ rest) = token"
    using assms(2,3) by (cases rest) (auto simp: takeWhile_append)
  then show ?thesis using assms(1) by (simp add: redact_urls.simps [of api "before @ token @ rest"])
qed



text \<open>A token that parses as no URL is never echoed: only the punctuation after it remains.\<close>

lemma redact_url_token_unparseable:
  assumes "parse_safe api (token_core token) = None" "parse_safe api token = None" "token \<noteq> []"
  shows "redact_url_token api token = UNPARSEABLE_ENDPOINT @ token_suffix token"
  using assms by (simp add: redact_url_token_def token_core_def token_suffix_def)

end
