(* ===== verification/Utf8.thy ===== *)
theory Utf8
  imports Domain
begin

text \<open>
  Decoding UTF-8 as the standard library does it: \<^verbatim>\<open>String::from_utf8\<close>, which reports where and how the
  bytes are at fault, and \<^verbatim>\<open>String::from_utf8_lossy\<close>.
\<close>

text \<open>\<^verbatim>\<open>Result::ok\<close>.\<close>

definition result_ok :: "'e + 'a \<Rightarrow> 'a option" where
  "result_ok x = (case x of Inl _ \<Rightarrow> None | Inr a \<Rightarrow> Some a)"

text \<open>
  \<^verbatim>\<open>String::from_utf8\<close>.  A fault is the number of valid bytes before it and the length of the invalid
  sequence, none when the input ends inside a sequence.
\<close>

type_synonym utf8_fault = "nat \<times> nat option"

definition is_cont :: "nat \<Rightarrow> bool" where
  "is_cont b \<longleftrightarrow> 128 \<le> b \<and> b < 192"

definition utf8_width :: "nat \<Rightarrow> nat" where
  "utf8_width b = (if b < 128 then 1 else if 194 \<le> b \<and> b < 224 then 2 else if 224 \<le> b \<and> b < 240 then 3
     else if 240 \<le> b \<and> b < 245 then 4 else 0)"

definition second_ok :: "nat \<Rightarrow> nat \<Rightarrow> bool" where
  "second_ok b c \<longleftrightarrow> is_cont c \<and> (b = 224 \<longrightarrow> 160 \<le> c) \<and> (b = 237 \<longrightarrow> c < 160) \<and> (b = 240 \<longrightarrow> 144 \<le> c) \<and> (b = 244 \<longrightarrow> c < 144)"

text \<open>The continuation bytes that follow the second one, \<open>k\<close> of them, at position \<open>i\<close> of the sequence.\<close>

fun utf8_tail :: "nat \<Rightarrow> nat \<Rightarrow> nat \<Rightarrow> nat list \<Rightarrow> nat option + (rchar \<times> nat list)" where
  "utf8_tail i k acc [] = (if k = 0 then Inr (acc, []) else Inl None)"
| "utf8_tail i k acc (b # bs) = (if k = 0 then Inr (acc, b # bs)
     else if is_cont b then utf8_tail (Suc i) (k - 1) (acc * 64 + (b - 128)) bs else Inl (Some i))"

lemma utf8_tail_0 [simp]: "utf8_tail i 0 acc bs = Inr (acc, bs)"
  by (cases bs) simp_all

definition utf8_head :: "nat \<Rightarrow> nat list \<Rightarrow> nat option + (rchar \<times> nat list)" where
  "utf8_head b bs = (let w = utf8_width b in
     if w = 0 then Inl (Some 1) else if w = 1 then Inr (b, bs)
     else (case bs of [] \<Rightarrow> Inl None
       | c # rest \<Rightarrow> if \<not> second_ok b c then Inl (Some 1)
           else utf8_tail 2 (w - 2) ((if w = 2 then b - 192 else if w = 3 then b - 224 else b - 240) * 64 + (c - 128)) rest))"

lemma utf8_tail_shorter: "utf8_tail i k acc bs = Inr (c, rest) \<Longrightarrow> length rest + k = length bs"
  by (induction i k acc bs rule: utf8_tail.induct) (auto split: if_splits)

lemma utf8_head_shorter: "utf8_head b bs = Inr (c, rest) \<Longrightarrow> length rest \<le> length bs"
  by (auto simp: utf8_head_def Let_def split: if_splits list.splits dest!: utf8_tail_shorter)

function from_utf8_at :: "nat \<Rightarrow> nat list \<Rightarrow> utf8_fault + rstr" where
  "from_utf8_at i [] = Inr []"
| "from_utf8_at i (b # bs) = (case utf8_head b bs of Inl e \<Rightarrow> Inl (i, e)
     | Inr (c, rest) \<Rightarrow> (case from_utf8_at (i + (Suc (length bs) - length rest)) rest of Inl e \<Rightarrow> Inl e | Inr s \<Rightarrow> Inr (c # s)))"
  by pat_completeness auto
termination by (relation "measure (\<lambda>(i, bs). length bs)") (auto dest!: utf8_head_shorter)

definition from_utf8 :: "nat list \<Rightarrow> utf8_fault + rstr" where
  "from_utf8 bs = from_utf8_at 0 bs"

text \<open>Each invalid sequence, and one cut off by the end, becomes one U+FFFD.\<close>

function from_utf8_lossy :: "nat list \<Rightarrow> rstr" where
  "from_utf8_lossy [] = []"
| "from_utf8_lossy (b # bs) = (case utf8_head b bs of
       Inr (c, rest) \<Rightarrow> c # from_utf8_lossy rest
     | Inl (Some n) \<Rightarrow> 65533 # from_utf8_lossy (drop (n - 1) bs)
     | Inl None \<Rightarrow> [65533])"
  by pat_completeness auto
termination by (relation "measure length") (auto dest!: utf8_head_shorter)

definition utf8_fault_text :: "utf8_fault \<Rightarrow> rstr" where
  "utf8_fault_text e = (case e of
       (i, Some n) \<Rightarrow> lit ''invalid utf-8 sequence of '' @ show_nat n @ lit '' bytes from index '' @ show_nat i
     | (i, None) \<Rightarrow> lit ''incomplete utf-8 byte sequence from index '' @ show_nat i)"

text \<open>A Unicode scalar value, and the two directions.\<close>

definition is_scalar :: "rchar \<Rightarrow> bool" where
  "is_scalar c \<longleftrightarrow> c < 55296 \<or> 57344 \<le> c \<and> c < 1114112"

lemma div_64_split:
  "c div 64 = c div 4096 * 64 + c div 64 mod 64" "c div 4096 = c div 262144 * 64 + c div 4096 mod 64" for c :: nat
proof -
  have "c div 4096 = c div 64 div 64" "c div 262144 = c div 4096 div 64" by (simp_all flip: div_mult2_eq)
  then show "c div 64 = c div 4096 * 64 + c div 64 mod 64" "c div 4096 = c div 262144 * 64 + c div 4096 mod 64" by simp_all
qed

lemma utf8_head_char:
  assumes "is_scalar c" "utf8_char c = b # bs"
  shows "utf8_head b (bs @ rest) = Inr (c, rest)"
proof -
  consider "c < 128" | "128 \<le> c" "c < 2048" | "2048 \<le> c" "c < 65536" | "65536 \<le> c" "c < 1114112"
    using assms(1) by (force simp: is_scalar_def)
  then show ?thesis
  proof cases
    case 1
    then show ?thesis using assms(2) by (auto simp: utf8_char_def utf8_head_def utf8_width_def)
  next
    case 2
    then have b: "b = 192 + c div 64" "bs = [128 + c mod 64]" using assms(2) by (auto simp: utf8_char_def)
    have "2 \<le> c div 64" "c div 64 < 32" using 2 by simp_all
    then show ?thesis by (simp add: b utf8_head_def utf8_width_def second_ok_def is_cont_def)
  next
    case 3
    then have b: "b = 224 + c div 4096" "bs = [128 + c div 64 mod 64, 128 + c mod 64]" using assms(2) by (auto simp: utf8_char_def)
    have lt: "c div 4096 < 16" using 3 by simp
    note split = div_64_split(1) [of c]
    have "(c div 4096 = 0 \<longrightarrow> 32 \<le> c div 64 mod 64) \<and> (c div 4096 = 13 \<longrightarrow> c div 64 mod 64 < 32)"
      using 3 assms(1) split by (auto simp: is_scalar_def)
    then have "second_ok b (128 + c div 64 mod 64)" using lt by (simp add: b second_ok_def is_cont_def)
    moreover have "(c div 4096 * 64 + c div 64 mod 64) * 64 + c mod 64 = c" unfolding split [symmetric] by simp
    ultimately show ?thesis using lt by (simp add: b utf8_head_def utf8_width_def is_cont_def Let_def numeral_2_eq_2)
  next
    case 4
    then have b: "b = 240 + c div 262144" "bs = [128 + c div 4096 mod 64, 128 + c div 64 mod 64, 128 + c mod 64]"
      using assms(2) by (auto simp: utf8_char_def)
    have lt: "c div 262144 < 5" using 4 by simp
    note split = div_64_split(2) [of c] and split2 = div_64_split(1) [of c]
    have "(c div 262144 = 0 \<longrightarrow> 16 \<le> c div 4096 mod 64) \<and> (c div 262144 = 4 \<longrightarrow> c div 4096 mod 64 < 16)"
      using 4 split by auto
    then have "second_ok b (128 + c div 4096 mod 64)" using lt by (simp add: b second_ok_def is_cont_def)
    moreover have "((c div 262144 * 64 + c div 4096 mod 64) * 64 + c div 64 mod 64) * 64 + c mod 64 = c"
      unfolding split [symmetric] split2 [symmetric] by simp
    ultimately show ?thesis using lt by (simp add: b utf8_head_def utf8_width_def is_cont_def Let_def numeral_2_eq_2 numeral_3_eq_3)
  qed
qed

lemma digits_64: "r < 64 \<Longrightarrow> (a * 64 + r) div 64 = a" "r < 64 \<Longrightarrow> (a * 64 + r) mod 64 = r" for a r :: nat
  by simp_all

lemma utf8_tail_Suc: "utf8_tail i (Suc k) acc bs = Inr r \<longleftrightarrow>
    (\<exists>b ys. bs = b # ys \<and> is_cont b \<and> utf8_tail (Suc i) k (acc * 64 + (b - 128)) ys = Inr r)"
  by (cases bs) auto

lemma utf8_head_inv:
  assumes "utf8_head b bs = Inr (c, rest)"
  shows "is_scalar c \<and> b # bs = utf8_char c @ rest"
proof -
  consider "b < 128" | "194 \<le> b" "b < 224" | "224 \<le> b" "b < 240" | "240 \<le> b" "b < 245"
    using assms by (fastforce simp: utf8_head_def utf8_width_def split: if_splits)
  then show ?thesis
  proof cases
    case 1
    then show ?thesis using assms by (simp add: utf8_head_def utf8_width_def is_scalar_def utf8_char_def)
  next
    case 2
    then obtain x where x: "bs = x # rest" "second_ok b x" "c = (b - 192) * 64 + (x - 128)"
      using assms by (auto simp: utf8_head_def utf8_width_def split: list.splits if_splits)
    define p q where "p = b - 192" and "q = x - 128"
    have pq: "b = 192 + p" "x = 128 + q" "2 \<le> p" "p < 32" "q < 64" "c = p * 64 + q"
      using 2 x by (auto simp: p_def q_def second_ok_def is_cont_def)
    have "c div 64 = p" "c mod 64 = q" using pq(5,6) by simp_all
    moreover have "128 \<le> c" "c < 2048" using pq by linarith+
    ultimately show ?thesis using pq(1,2) by (simp add: x(1) utf8_char_def is_scalar_def)
  next
    case 3
    then obtain x y where x: "bs = x # y # rest" "second_ok b x" "is_cont y" "c = ((b - 224) * 64 + (x - 128)) * 64 + (y - 128)"
      using assms by (auto simp: utf8_head_def utf8_width_def utf8_tail_Suc numeral_3_eq_3 split: list.splits if_splits)
    define p q r where "p = b - 224" and "q = x - 128" and "r = y - 128"
    have pq: "b = 224 + p" "x = 128 + q" "y = 128 + r" "p < 16" "q < 64" "r < 64" "c = (p * 64 + q) * 64 + r"
      "p = 0 \<longrightarrow> 32 \<le> q" "p = 13 \<longrightarrow> q < 32"
      using 3 x by (auto simp: p_def q_def r_def second_ok_def is_cont_def)
    have "c div 64 = p * 64 + q" "c mod 64 = r" unfolding pq(7) using pq(6) by (rule digits_64)+
    moreover have "c div 4096 = p" using pq(5) calculation div_64_split(1) [of c] by simp
    moreover have c: "2048 \<le> c" "c < 65536" using pq by auto
    moreover have "c < 55296 \<or> 57344 \<le> c"
    proof (cases "p < 13")
      case True
      moreover have "c = 4096 * p + 64 * q + r" using pq(7) by simp
      ultimately have "c < 55296" using pq(5,6) by linarith
      then show ?thesis ..
    next
      case False
      then show ?thesis using pq(5-7,9) by (cases "p = 13") auto
    qed
    then have "is_scalar c" using c by (auto simp: is_scalar_def)
    ultimately show ?thesis using pq(1-3,5) by (simp add: x(1) utf8_char_def)
  next
    case 4
    then obtain x y z where x: "bs = x # y # z # rest" "second_ok b x" "is_cont y" "is_cont z"
      "c = (((b - 240) * 64 + (x - 128)) * 64 + (y - 128)) * 64 + (z - 128)"
      using assms by (auto simp: utf8_head_def utf8_width_def utf8_tail_Suc numeral_2_eq_2 split: list.splits if_splits)
    define p q r t where "p = b - 240" and "q = x - 128" and "r = y - 128" and "t = z - 128"
    have pq: "b = 240 + p" "x = 128 + q" "y = 128 + r" "z = 128 + t" "p < 5" "q < 64" "r < 64" "t < 64"
      "c = ((p * 64 + q) * 64 + r) * 64 + t" "p = 0 \<longrightarrow> 16 \<le> q" "p = 4 \<longrightarrow> q < 16"
      using 4 x by (auto simp: p_def q_def r_def t_def second_ok_def is_cont_def)
    have d: "c div 64 = (p * 64 + q) * 64 + r" "c mod 64 = t" unfolding pq(9) using pq(8) by (rule digits_64)+
    have e: "c div 4096 = p * 64 + q" using pq(7) d(1) div_64_split(1) [of c] by simp
    moreover have "c div 64 mod 64 = r" unfolding d(1) using pq(7) by (rule digits_64)
    moreover have "c div 262144 = p" using pq(6) e div_64_split(2) [of c] by simp
    moreover have "65536 \<le> c" "c < 1114112" using pq by auto
    ultimately show ?thesis using pq(1-4,6) d(2) by (simp add: x(1) utf8_char_def is_scalar_def)
  qed
qed

lemma utf8_char_Cons: obtains b bs where "utf8_char c = b # bs"
  by (metis length_utf8_char length_0_conv neq_Nil_conv utf8_len_def zero_neq_numeral zero_neq_one)

lemma from_utf8_at_utf8: "\<forall>c \<in> set s. is_scalar c \<Longrightarrow> from_utf8_at i (utf8 s) = Inr s"
proof (induction s arbitrary: i)
  case Nil
  then show ?case by (simp add: utf8_def)
next
  case (Cons c s)
  obtain b bs where b: "utf8_char c = b # bs" by (rule utf8_char_Cons)
  have "utf8_head b (bs @ utf8 s) = Inr (c, utf8 s)" using Cons.prems by (intro utf8_head_char [OF _ b]) simp
  then show ?case using Cons by (simp add: utf8_Cons b)
qed

lemma from_utf8_at_inv: "from_utf8_at i bs = Inr s \<Longrightarrow> bs = utf8 s \<and> (\<forall>c \<in> set s. is_scalar c)"
proof (induction i bs arbitrary: s rule: from_utf8_at.induct)
  case (1 i)
  then show ?case by (simp add: utf8_def)
next
  case (2 i b bs)
  obtain c rest where head: "utf8_head b bs = Inr (c, rest)" using "2.prems" by (cases "utf8_head b bs") auto
  then obtain s' where tl: "from_utf8_at (i + (Suc (length bs) - length rest)) rest = Inr s'" "s = c # s'"
    using "2.prems" by (cases "from_utf8_at (i + (Suc (length bs) - length rest)) rest") auto
  show ?case using "2.IH" [OF head refl tl(1)] utf8_head_inv [OF head] tl(2) by (simp add: utf8_Cons)
qed

text \<open>
  Decoding accepts exactly the encodings of texts of scalar values, and yields that text.
\<close>

theorem from_utf8_exact: "from_utf8 bs = Inr s \<longleftrightarrow> bs = utf8 s \<and> (\<forall>c \<in> set s. is_scalar c)"
  using from_utf8_at_utf8 from_utf8_at_inv unfolding from_utf8_def by blast

lemma from_utf8_lossy_utf8: "\<forall>c \<in> set s. is_scalar c \<Longrightarrow> from_utf8_lossy (utf8 s) = s"
proof (induction s)
  case (Cons c s)
  obtain b bs where b: "utf8_char c = b # bs" by (rule utf8_char_Cons)
  have "utf8_head b (bs @ utf8 s) = Inr (c, utf8 s)" using Cons.prems by (intro utf8_head_char [OF _ b]) simp
  then show ?case using Cons by (simp add: utf8_Cons b)
qed (simp add: utf8_def)

end
