(* ===== verification/Speculative.thy ===== *)
theory Speculative
  imports Llama Redact Utf8
begin

text \<open>
  Speculative decoding, from \<^verbatim>\<open>src/llama/speculative.rs\<close>: what a server's JSON says
  of it, what the command line and environment of a local server process say, and which of the
  two decides each field; with the small helpers of \<^verbatim>\<open>src/llama/props.rs\<close>.
   The process table is an argument, the list of
  \<^verbatim>\<open>/proc\<close> entries with the bytes of their files; 44 is the comma, 61 the equals sign.
\<close>

section \<open>What the server says\<close>

record SpeculativeConfig =
  sp_present :: bool
  sp_enabled :: "bool option"
  sp_is_mtp :: bool
  sp_n_max :: "u64 option"
  sp_types_known :: bool
  sp_named_type :: bool

definition names_mtp :: "rstr \<Rightarrow> bool" where
  "names_mtp types = list_ex (\<lambda>kind. trim kind = lit ''draft-mtp'') (split_on 44 types)"

definition speculative_config :: "json \<Rightarrow> SpeculativeConfig" where
  "speculative_config value = (let
       params = jget (lit ''params'') value;
       enabled_value = jget (lit ''speculative'') value;
       n_max_value = opt_or (Option.bind params (jget (lit ''speculative.n_max''))) (jget (lit ''speculative.n_max'') value);
       types_value = opt_or (Option.bind params (jget (lit ''speculative.types''))) (jget (lit ''speculative.types'') value);
       types = (case Option.bind types_value as_str of Some t \<Rightarrow> t | None \<Rightarrow> [])
     in \<lparr>sp_present = (enabled_value \<noteq> None \<or> n_max_value \<noteq> None \<or> types_value \<noteq> None),
         sp_enabled = Option.bind enabled_value as_bool,
         sp_is_mtp = names_mtp types,
         sp_n_max = Option.bind n_max_value as_u64,
         sp_types_known = (types_value \<noteq> None),
         sp_named_type = list_ex (\<lambda>kind. trim kind \<noteq> [] \<and> trim kind \<noteq> lit ''none'') (split_on 44 types)\<rparr>)"

section \<open>What the local process says\<close>

record LocalSpeculativeConfig =
  lc_enabled :: bool
  lc_is_mtp :: bool
  lc_n_max :: "u64 option"

fun cli_value :: "rstr list \<Rightarrow> rstr \<Rightarrow> rstr option" where
  "cli_value [] flag = None"
| "cli_value (arg # args) flag =
     (if arg = flag then (case args of [] \<Rightarrow> None | v # _ \<Rightarrow> Some v)
      else case strip_prefix (flag @ [61]) arg of
        Some v \<Rightarrow> Some v
      | None \<Rightarrow> cli_value args flag)"

text \<open>
  The index loop of \<^verbatim>\<open>command_targets_port\<close>: the separate form consumes two arguments.
  The second component is \<^verbatim>\<open>saw_port\<close>.
\<close>

fun port_scan :: "rstr list \<Rightarrow> u16 \<Rightarrow> bool \<Rightarrow> bool" where
  "port_scan [] target saw_port = (\<not> saw_port \<and> target = 8080)"
| "port_scan [arg] target saw_port =
     (if arg = lit ''--port'' then port_scan [] target True
      else case strip_prefix (lit ''--port='') arg of
        Some v \<Rightarrow> if parse_word v = Some target then True else port_scan [] target True
      | None \<Rightarrow> port_scan [] target saw_port)"
| "port_scan (arg # v # args) target saw_port =
     (if arg = lit ''--port'' then
        (if parse_word v = Some target then True else port_scan args target True)
      else case strip_prefix (lit ''--port='') arg of
        Some w \<Rightarrow> if parse_word w = Some target then True else port_scan (v # args) target True
      | None \<Rightarrow> port_scan (v # args) target saw_port)"

definition command_targets_port :: "rstr list \<Rightarrow> u16 \<Rightarrow> bool" where
  "command_targets_port args target = port_scan args target False"

text \<open>
  \<^verbatim>\<open>Path::file_name\<close> on a Unix path: the last component, ignoring trailing slashes
  and components that are a single dot; none for the root and for a path ending in two dots.
\<close>

definition file_name :: "rstr \<Rightarrow> rstr option" where
  "file_name p = (case rev (filter (\<lambda>c. c \<noteq> [] \<and> c \<noteq> lit ''.'') (split_on 47 p)) of
       [] \<Rightarrow> None
     | c # _ \<Rightarrow> if c = lit ''..'' then None else Some c)"

definition is_llama_server_process :: "rstr list \<Rightarrow> bool" where
  "is_llama_server_process args = (case args of [] \<Rightarrow> False
     | e # rest \<Rightarrow> (let executable = (case file_name e of Some n \<Rightarrow> n | None \<Rightarrow> e) in
         contains_sub (lit ''llama-server'') executable
         \<or> (executable = lit ''llama'' \<and> (case rest of a # _ \<Rightarrow> a = lit ''serve'' | [] \<Rightarrow> False))))"

subsection \<open>The scan of the process table\<close>

definition env_value :: "nat list option \<Rightarrow> rstr \<Rightarrow> rstr option" where
  "env_value env_bytes key = (case env_bytes of None \<Rightarrow> None
     | Some bytes \<Rightarrow> (let entries = List.map_filter (\<lambda>entry. result_ok (from_utf8 entry)) (split_on 0 bytes) in
         case List.map_filter (strip_prefix (key @ [61])) entries of v # _ \<Rightarrow> Some v | [] \<Rightarrow> None))"

definition speculative_from_process :: "rstr list \<Rightarrow> nat list option \<Rightarrow> LocalSpeculativeConfig" where
  "speculative_from_process args env_bytes = (let
       unwrap_or_default = (\<lambda>v. case v of Some t \<Rightarrow> t | None \<Rightarrow> []);
       is_mtp = names_mtp (unwrap_or_default (cli_value args (lit ''--spec-type'')));
       n_max = opt_or (Option.bind (cli_value args (lit ''--spec-draft-n-max'')) parse_word)
                      (Option.bind (env_value env_bytes (lit ''LLAMA_ARG_SPEC_DRAFT_N_MAX'')) parse_word);
       env_mtp = names_mtp (unwrap_or_default (env_value env_bytes (lit ''LLAMA_ARG_SPEC_TYPE'')))
     in \<lparr>lc_enabled = (is_mtp \<or> env_mtp \<or> n_max \<noteq> None), lc_is_mtp = (is_mtp \<or> env_mtp), lc_n_max = n_max\<rparr>)"

text \<open>\<^verbatim>\<open>IpAddr\<close> literals and \<^verbatim>\<open>is_loopback\<close>.\<close>

definition octet :: "rstr \<Rightarrow> nat option" where
  "octet s = (if s \<noteq> [] \<and> length s \<le> 3 \<and> (\<forall>c \<in> set s. is_digit c) \<and> (length s = 1 \<or> hd s \<noteq> 48) \<and> dec_val s < 256
     then Some (dec_val s) else None)"

definition parse_ipv4 :: "rstr \<Rightarrow> nat list option" where
  "parse_ipv4 s = (case map octet (split_on 46 s) of
       [Some a, Some b, Some c, Some d] \<Rightarrow> Some [a, b, c, d] | _ \<Rightarrow> None)"

fun ipv6_groups :: "bool \<Rightarrow> rstr list \<Rightarrow> nat list option" where
  "ipv6_groups v4 [] = Some []"
| "ipv6_groups v4 (g # gs) =
     (if g \<noteq> [] \<and> length g \<le> 4 \<and> (\<forall>c \<in> set g. is_hex c) then map_option (\<lambda>r. hex_val g # r) (ipv6_groups v4 gs)
      else if v4 \<and> gs = [] then map_option (\<lambda>q. [q ! 0 * 256 + q ! 1, q ! 2 * 256 + q ! 3]) (parse_ipv4 g)
      else None)"

definition ipv6_part :: "bool \<Rightarrow> rstr \<Rightarrow> nat list option" where
  "ipv6_part v4 s = (if s = [] then Some [] else ipv6_groups v4 (split_on 58 s))"

definition parse_ipv6 :: "rstr \<Rightarrow> nat list option" where
  "parse_ipv6 s = (case find_sub (lit ''::'') s of
       None \<Rightarrow> (case ipv6_part True s of Some g \<Rightarrow> if length g = 8 then Some g else None | None \<Rightarrow> None)
     | Some i \<Rightarrow> (case (ipv6_part False (take i s), ipv6_part True (drop (i + 2) s)) of
           (Some h, Some t) \<Rightarrow> if length h + length t \<le> 7 then Some (h @ replicate (8 - length h - length t) 0 @ t) else None
         | _ \<Rightarrow> None))"

definition ip_is_loopback :: "rstr \<Rightarrow> bool" where
  "ip_is_loopback s = (case parse_ipv4 s of Some q \<Rightarrow> hd q = 127
     | None \<Rightarrow> (case parse_ipv6 s of Some g \<Rightarrow> g = [0, 0, 0, 0, 0, 0, 0, 1] | None \<Rightarrow> False))"

definition is_loopback_host :: "rstr \<Rightarrow> bool" where
  "is_loopback_host host0 = (let host = trim_end_by (\<lambda>c. c = 93) (trim_start_by (\<lambda>c. c = 91) host0) in
     lower host = lit ''localhost'' \<or> ip_is_loopback host)"

record proc_entry =
  pe_name :: rstr
  pe_cmdline :: "nat list option"
  pe_environ :: "nat list option"

definition known_port :: "('u, 'z) url_api_scheme \<Rightarrow> 'u \<Rightarrow> u16 option" where
  "known_port api url = opt_or (url_port api url)
     (if url_scheme api url = lit ''http'' \<or> url_scheme api url = lit ''ws'' then Some 80
      else if url_scheme api url = lit ''https'' \<or> url_scheme api url = lit ''wss'' then Some 443
      else if url_scheme api url = lit ''ftp'' then Some 21 else None)"

text \<open>The loop body: \<open>None\<close> continues with the next entry.\<close>

definition proc_spec :: "u16 \<Rightarrow> proc_entry \<Rightarrow> LocalSpeculativeConfig option" where
  "proc_spec target e =
     (if \<not> (\<forall>c \<in> set (pe_name e). is_digit c) then None
      else case pe_cmdline e of None \<Rightarrow> None
        | Some cmdline \<Rightarrow> (let args = map from_utf8_lossy (filter (\<lambda>a. a \<noteq> []) (split_on 0 cmdline)) in
            if args = [] \<or> \<not> is_llama_server_process args then None
            else if \<not> command_targets_port args target then None
            else Some (speculative_from_process args (pe_environ e))))"

definition local_speculative_process_config ::
  "('u, 'z) url_api_scheme \<Rightarrow> proc_entry list option \<Rightarrow> rstr \<Rightarrow> LocalSpeculativeConfig option" where
  "local_speculative_process_config api procs base = (case url_parse api base of None \<Rightarrow> None
     | Some url \<Rightarrow> (case url_host_str api url of None \<Rightarrow> None
       | Some host \<Rightarrow> if \<not> is_loopback_host host then None
         else (case known_port api url of None \<Rightarrow> None
           | Some port \<Rightarrow> (case procs of None \<Rightarrow> None
             | Some es \<Rightarrow> (case List.map_filter (proc_spec port) es of c # _ \<Rightarrow> Some c | [] \<Rightarrow> None)))))"

section \<open>Who decides\<close>

record CachedProps =
  cp_model :: rstr
  cp_context_size :: u64
  cp_total_slots :: u64
  cp_spec_enabled :: bool
  cp_spec_enabled_known :: bool
  cp_spec_is_mtp :: bool
  cp_spec_named_type :: bool
  cp_spec_n_max :: "u64 option"
  cp_spec_n_max_known :: bool
  cp_last_refresh :: "instant option"

definition CachedProps_default :: CachedProps where
  "CachedProps_default = \<lparr>cp_model = [], cp_context_size = 0, cp_total_slots = 0, cp_spec_enabled = False,
     cp_spec_enabled_known = False, cp_spec_is_mtp = False, cp_spec_named_type = False, cp_spec_n_max = None,
     cp_spec_n_max_known = False, cp_last_refresh = None\<rparr>"

definition server_disabled :: "CachedProps \<Rightarrow> bool" where
  "server_disabled props \<longleftrightarrow> (cp_spec_enabled_known props \<and> \<not> cp_spec_enabled props)
     \<or> (cp_spec_n_max_known props \<and> cp_spec_n_max props = None)"

definition apply_local_spec_fallback :: "CachedProps \<Rightarrow> LlmStats \<Rightarrow> LocalSpeculativeConfig \<Rightarrow> LlmStats" where
  "apply_local_spec_fallback props stats0 local = (let
       stats1 = (if \<not> cp_spec_enabled_known props \<and> \<not> server_disabled props
         then stats0\<lparr>spec_enabled := spec_enabled stats0 \<or> lc_enabled local\<rparr> else stats0);
       stats2 = (if \<not> cp_spec_named_type props \<and> \<not> server_disabled props
         then stats1\<lparr>spec_is_mtp := spec_is_mtp stats1 \<or> lc_is_mtp local\<rparr> else stats1)
     in if \<not> cp_spec_n_max_known props \<and> \<not> server_disabled props \<and> spec_n_max stats2 = None
        then stats2\<lparr>spec_n_max := lc_n_max local\<rparr> else stats2)"

text \<open>
  What the server stated stands: each of the three fields the server decided keeps its value,
  everything keeps it when the server disabled speculation, and no other field is touched.
\<close>

theorem local_fallback_precedence:
  "(let s' = apply_local_spec_fallback props stats local in
     s' = stats\<lparr>spec_enabled := spec_enabled s', spec_is_mtp := spec_is_mtp s', spec_n_max := spec_n_max s'\<rparr>
   \<and> (spec_enabled s' \<noteq> spec_enabled stats \<longrightarrow> \<not> cp_spec_enabled_known props \<and> \<not> server_disabled props \<and> lc_enabled local)
   \<and> (spec_is_mtp s' \<noteq> spec_is_mtp stats \<longrightarrow> \<not> cp_spec_named_type props \<and> \<not> server_disabled props \<and> lc_is_mtp local)
   \<and> (spec_n_max s' \<noteq> spec_n_max stats \<longrightarrow> \<not> cp_spec_n_max_known props \<and> \<not> server_disabled props
        \<and> spec_n_max stats = None \<and> spec_n_max s' = lc_n_max local))"
  by (simp add: apply_local_spec_fallback_def Let_def) blast

text \<open>The values of every port option on a command line, the last one possibly missing.\<close>

fun port_flags :: "rstr list \<Rightarrow> rstr option list" where
  "port_flags [] = []"
| "port_flags [arg] = (if arg = lit ''--port'' then [None]
     else case strip_prefix (lit ''--port='') arg of Some v \<Rightarrow> [Some v] | None \<Rightarrow> [])"
| "port_flags (arg # v # args) = (if arg = lit ''--port'' then Some v # port_flags args
     else case strip_prefix (lit ''--port='') arg of Some w \<Rightarrow> Some w # port_flags (v # args) | None \<Rightarrow> port_flags (v # args))"

lemma port_scan_flags:
  "port_scan args target saw = (list_ex (\<lambda>v. Option.bind v parse_word = Some target) (port_flags args)
     \<or> (port_flags args = [] \<and> \<not> saw \<and> target = 8080))"
  by (induction args target saw rule: port_scan.induct) (auto split: option.split)

text \<open>
  A local process is taken for the monitored server only by its port options: some option names
  the port, or there is none and the port is the default.
\<close>

theorem command_targets_port_iff:
  "command_targets_port args target =
     (if port_flags args = [] then target = 8080
      else list_ex (\<lambda>v. Option.bind v parse_word = Some target) (port_flags args))"
  by (simp add: command_targets_port_def port_scan_flags)

section \<open>Small helpers\<close>

definition sanitize_error_text :: "LlmStats \<Rightarrow> LlmStats" where
  "sanitize_error_text stats = stats\<lparr>
     error_text := sanitize_display_text (error_text stats) MAX_UNTRUSTED_DISPLAY_CHARS,
     slots_error := sanitize_display_text (slots_error stats) MAX_UNTRUSTED_DISPLAY_CHARS\<rparr>"

definition json_string :: "json \<Rightarrow> rstr list \<Rightarrow> rstr option" where
  "json_string value keys = (case List.map_filter (\<lambda>k. Option.bind (jget k value) as_str) keys of
     s # _ \<Rightarrow> Some s | [] \<Rightarrow> None)"

fun json_u64_path :: "json \<Rightarrow> rstr list \<Rightarrow> u64 option" where
  "json_u64_path current [] = as_u64 current"
| "json_u64_path current (k # ks) = (case jget k current of Some v \<Rightarrow> json_u64_path v ks | None \<Rightarrow> None)"

definition MAX_MODEL_DISPLAY_CHARS :: nat where
  "MAX_MODEL_DISPLAY_CHARS = 120"

definition model_display_name :: "rstr \<Rightarrow> rstr" where
  "model_display_name value = (let name = trim_end_str (lit ''.gguf'') (case file_name value of Some n \<Rightarrow> n | None \<Rightarrow> value)
     in sanitize_display_text name MAX_MODEL_DISPLAY_CHARS)"

end
