(* ===== verification/Slots.thy ===== *)
theory Slots
  imports Speculative "HOL-Library.Multiset"
begin

text \<open>
  The slot state of a server, from \<^verbatim>\<open>src/llama/slots.rs\<close>: one pass over the
  \<^verbatim>\<open>/slots\<close> array that fills the displayed context pair and the per-slot counters, and
  the throughput from two successive samples of the counters.  The loop of
  \<^verbatim>\<open>apply_slots_json\<close> is the fold of \<open>slot_step\<close> over its local variables.
\<close>

record SlotCounter =
  sc_slot_id :: "u64 option"
  sc_task_id :: "int option"
  sc_prompt_processed :: "u64 option"
  sc_decoded :: "u64 option"

definition slot_decoded_tokens_opt :: "json \<Rightarrow> u64 option" where
  "slot_decoded_tokens_opt slot = (case jget (lit ''next_token'') slot of
       Some (JArray items) \<Rightarrow> (case items of item # _ \<Rightarrow> jget_u64 (lit ''n_decoded'') item | [] \<Rightarrow> None)
     | Some (JObject m) \<Rightarrow> Option.bind (map_of m (lit ''n_decoded'')) as_u64
     | _ \<Rightarrow> None)"

text \<open>The local variables of the loop and the three statistics it updates.\<close>

record SlotLoop =
  best_busy :: "(u64 \<times> u64 \<times> u64 option) option"
  best_any :: "(u64 \<times> u64 \<times> u64 option) option"
  fallback_busy :: "(u64 \<times> u64 option) option"
  fallback_any :: "(u64 \<times> u64 option) option"
  busy :: u64
  req_prompt :: "u64 option"
  req_generated :: "u64 option"
  prompt_complete :: bool
  generated_complete :: bool
  counters :: "SlotCounter list"
  overview :: "LlmSlotInfo list"
  sl_spec_enabled :: bool
  sl_spec_is_mtp :: bool
  sl_spec_n_max :: "u64 option"

definition slot_loop_init :: "LlmStats \<Rightarrow> SlotLoop" where
  "slot_loop_init stats = \<lparr>best_busy = None, best_any = None, fallback_busy = None, fallback_any = None,
     busy = 0, req_prompt = None, req_generated = None, prompt_complete = True, generated_complete = True,
     counters = [], overview = [], sl_spec_enabled = spec_enabled stats, sl_spec_is_mtp = spec_is_mtp stats,
     sl_spec_n_max = spec_n_max stats\<rparr>"

text \<open>What the loop reads of one slot.\<close>

record SlotView =
  v_n_ctx :: u64
  v_id :: "u64 option"
  v_processing :: bool
  v_prompt_tokens :: "u64 option"
  v_processed :: "u64 option"
  v_decoded :: "u64 option"
  v_task :: "int option"
  v_spec :: SpeculativeConfig

definition slot_view :: "json \<Rightarrow> SlotView" where
  "slot_view slot = \<lparr>v_n_ctx = unwrap_or 0 (jget_u64 (lit ''n_ctx'') slot),
     v_id = jget_u64 (lit ''id'') slot,
     v_processing = unwrap_or False (jget_bool (lit ''is_processing'') slot),
     v_prompt_tokens = jget_u64 (lit ''n_prompt_tokens'') slot,
     v_processed = jget_u64 (lit ''n_prompt_tokens_processed'') slot,
     v_decoded = slot_decoded_tokens_opt slot,
     v_task = Option.bind (jget (lit ''id_task'') slot) as_i64,
     v_spec = speculative_config slot\<rparr>"

definition spec_step :: "SpeculativeConfig \<Rightarrow> SlotLoop \<Rightarrow> SlotLoop" where
  "spec_step sp s = s\<lparr>
     sl_spec_enabled := sl_spec_enabled s \<or> unwrap_or False (sp_enabled sp) \<or> is_some_and (\<lambda>v. 0 < v) (sp_n_max sp),
     sl_spec_is_mtp := sl_spec_is_mtp s \<or> sp_is_mtp sp,
     sl_spec_n_max := (case opt_filter (\<lambda>v. 0 < v) (sp_n_max sp) of
         Some n \<Rightarrow> Some (case sl_spec_n_max s of None \<Rightarrow> n | Some c \<Rightarrow> max c n)
       | None \<Rightarrow> sl_spec_n_max s)\<rparr>"

definition request_step :: "SlotView \<Rightarrow> SlotLoop \<Rightarrow> SlotLoop" where
  "request_step v s = (if \<not> v_processing v then s else (let
       s1 = (case v_processed v of
           Some n \<Rightarrow> s\<lparr>req_prompt := Some (sat_add (unwrap_or 0 (req_prompt s)) n)\<rparr>
         | None \<Rightarrow> s\<lparr>prompt_complete := False\<rparr>)
     in case v_decoded v of
           Some n \<Rightarrow> s1\<lparr>req_generated := Some (sat_add (unwrap_or 0 (req_generated s1)) n)\<rparr>
         | None \<Rightarrow> s1\<lparr>generated_complete := False\<rparr>))"

definition best_step :: "SlotView \<Rightarrow> SlotLoop \<Rightarrow> SlotLoop" where
  "best_step v s = (let
       s1 = (case v_prompt_tokens v of None \<Rightarrow> s
         | Some used \<Rightarrow> (let
             s0 = (if v_processing v \<and> is_none_or (\<lambda>b. fst b < used) (best_busy s)
                   then s\<lparr>best_busy := Some (used, v_n_ctx v, v_id v)\<rparr> else s)
           in if is_none_or (\<lambda>b. fst b < used) (best_any s0)
              then s0\<lparr>best_any := Some (used, v_n_ctx v, v_id v)\<rparr> else s0));
       s2 = (if v_processing v \<and> is_none_or (\<lambda>b. fst b < v_n_ctx v) (fallback_busy s1)
             then s1\<lparr>fallback_busy := Some (v_n_ctx v, v_id v)\<rparr> else s1)
     in if is_none_or (\<lambda>b. fst b < v_n_ctx v) (fallback_any s2)
        then s2\<lparr>fallback_any := Some (v_n_ctx v, v_id v)\<rparr> else s2)"

definition record_step :: "SlotView \<Rightarrow> SlotLoop \<Rightarrow> SlotLoop" where
  "record_step v s = (let
       s1 = s\<lparr>counters := counters s @ [\<lparr>sc_slot_id = v_id v, sc_task_id = v_task v,
                sc_prompt_processed = v_processed v, sc_decoded = v_decoded v\<rparr>]\<rparr>
     in case v_id v of None \<Rightarrow> s1
        | Some i \<Rightarrow> s1\<lparr>overview := overview s1 @ [\<lparr>si_id = i, si_busy = v_processing v,
              si_context_used = v_prompt_tokens v,
              si_context_size = (if 0 < v_n_ctx v then Some (v_n_ctx v) else None)\<rparr>]\<rparr>)"

definition slot_step :: "SlotLoop \<Rightarrow> json \<Rightarrow> SlotLoop" where
  "slot_step s slot = (let v = slot_view slot;
       s1 = (if v_processing v then s\<lparr>busy := busy s + 1\<rparr> else s)
     in record_step v (best_step v (request_step v (spec_step (v_spec v) s1))))"

definition slots_finish :: "LlmStats \<Rightarrow> SlotLoop \<Rightarrow> LlmStats" where
  "slots_finish stats s = (let
       (used, n_ctx, slot) = (case opt_or (best_busy s) (best_any s) of
           Some (used, n_ctx, slot) \<Rightarrow> (Some used, n_ctx, slot)
         | None \<Rightarrow> (let (n_ctx, slot) = unwrap_or (0, None) (opt_or (fallback_busy s) (fallback_any s))
             in (None, n_ctx, slot)))
     in stats\<lparr>busy_slots := busy s,
        request_prompt_tokens := (if prompt_complete s then req_prompt s else None),
        request_generated_tokens := (if generated_complete s then req_generated s else None),
        context_used := used,
        context_slot_id := slot,
        slot_overview := sort_key si_id (overview s),
        context_size := (if 0 < n_ctx then n_ctx else context_size stats),
        spec_enabled := sl_spec_enabled s, spec_is_mtp := sl_spec_is_mtp s, spec_n_max := sl_spec_n_max s\<rparr>)"

definition apply_slots_json :: "LlmStats \<Rightarrow> json \<Rightarrow> LlmStats \<times> (rstr + SlotCounter list)" where
  "apply_slots_json stats value = (case as_array value of
       None \<Rightarrow> (stats, Inl (lit ''/slots response is not an array''))
     | Some slots \<Rightarrow> (let
         stats1 = stats\<lparr>slots_available := True, slots_error := [], slot_count := of_nat (length slots)\<rparr>;
         s = foldl slot_step (slot_loop_init stats1) slots
       in (slots_finish stats1 s, Inr (counters s))))"

section \<open>Throughput from two samples\<close>

definition task_ids_match :: "int option \<Rightarrow> int option \<Rightarrow> bool" where
  "task_ids_match previous current = (case (previous, current) of
       (Some p, Some c) \<Rightarrow> p = c | (None, None) \<Rightarrow> True | _ \<Rightarrow> False)"

text \<open>The accumulator of one dimension: the sum, and whether it is known and reported.\<close>

record Dim =
  d_delta :: u64
  d_known :: bool
  d_reported :: bool

definition dim_init :: Dim where
  "dim_init = \<lparr>d_delta = 0, d_known = True, d_reported = False\<rparr>"

definition dim_step :: "u64 option \<Rightarrow> u64 option \<Rightarrow> Dim \<Rightarrow> Dim" where
  "dim_step now before d = (case (now, before) of
       (Some n, Some b) \<Rightarrow> if b \<le> n then d\<lparr>d_delta := sat_add (d_delta d) (n - b), d_reported := True\<rparr>
         else d\<lparr>d_known := False\<rparr>
     | (None, None) \<Rightarrow> d
     | _ \<Rightarrow> d\<lparr>d_known := False\<rparr>)"

definition count_id :: "u64 \<Rightarrow> SlotCounter list \<Rightarrow> nat" where
  "count_id i xs = length (filter (\<lambda>s. sc_slot_id s = Some i) xs)"

text \<open>The first loop; \<open>None\<close> is \<^verbatim>\<open>return unavailable\<close>.\<close>

fun delta_loop :: "SlotCounter list \<Rightarrow> SlotCounter list \<Rightarrow> SlotCounter list \<Rightarrow> Dim \<times> Dim \<Rightarrow> (Dim \<times> Dim) option" where
  "delta_loop previous current [] acc = Some acc"
| "delta_loop previous current (slot # rest) (prompt, decoded) = (case sc_slot_id slot of None \<Rightarrow> None
     | Some i \<Rightarrow>
         if count_id i current \<noteq> 1 then None
         else if count_id i previous \<noteq> 1 then None
         else (case find (\<lambda>s. sc_slot_id s = Some i) previous of None \<Rightarrow> None
           | Some p \<Rightarrow>
               if \<not> task_ids_match (sc_task_id p) (sc_task_id slot) then None
               else delta_loop previous current rest
                 (dim_step (sc_prompt_processed slot) (sc_prompt_processed p) prompt,
                  dim_step (sc_decoded slot) (sc_decoded p) decoded)))"

text \<open>The second loop, over the previous slots.\<close>

fun still_present :: "SlotCounter list \<Rightarrow> SlotCounter list \<Rightarrow> bool" where
  "still_present current [] = True"
| "still_present current (slot # rest) = (case sc_slot_id slot of None \<Rightarrow> False
     | Some i \<Rightarrow> count_id i current = 1 \<and> still_present current rest)"

definition dim_rate :: "Dim \<Rightarrow> f64 \<Rightarrow> f64 option" where
  "dim_rate d seconds = (if d_known d \<and> d_reported d then Some (fdiv (f64_of_u64 (d_delta d)) seconds) else None)"

definition slot_delta_tps :: "SlotCounter list \<Rightarrow> SlotCounter list \<Rightarrow> f64 \<Rightarrow> f64 option \<times> f64 option" where
  "slot_delta_tps previous current seconds =
     (if \<not> is_finite seconds \<or> seconds \<le> Fin 0 \<or> current = [] then (None, None)
      else case delta_loop previous current current (dim_init, dim_init) of None \<Rightarrow> (None, None)
        | Some (prompt, decoded) \<Rightarrow>
            if \<not> still_present current previous then (None, None)
            else (dim_rate prompt seconds, dim_rate decoded seconds))"

definition choose_live_throughput ::
  "f64 option \<times> f64 option \<Rightarrow> f64 option \<times> f64 option \<Rightarrow> f64 option \<times> f64 option" where
  "choose_live_throughput slot_live metric_live =
     (opt_or (fst slot_live) (fst metric_live), opt_or (snd slot_live) (snd metric_live))"

section \<open>Pairing is by identity, not by position\<close>

text \<open>
  What a pair of samples must satisfy: every slot of either carries an id, no id occurs twice,
  the two have the same ids, and paired slots have the same task.
\<close>

definition prev_of :: "SlotCounter list \<Rightarrow> u64 \<Rightarrow> SlotCounter option" where
  "prev_of previous i = find (\<lambda>s. sc_slot_id s = Some i) previous"

definition slot_paired :: "SlotCounter list \<Rightarrow> SlotCounter list \<Rightarrow> SlotCounter \<Rightarrow> bool" where
  "slot_paired previous current slot = (case sc_slot_id slot of None \<Rightarrow> False
     | Some i \<Rightarrow> count_id i current = 1 \<and> count_id i previous = 1
         \<and> (case prev_of previous i of None \<Rightarrow> False | Some p \<Rightarrow> task_ids_match (sc_task_id p) (sc_task_id slot)))"

definition before_of :: "SlotCounter list \<Rightarrow> (SlotCounter \<Rightarrow> u64 option) \<Rightarrow> SlotCounter \<Rightarrow> u64 option" where
  "before_of previous f slot = Option.bind (Option.bind (sc_slot_id slot) (prev_of previous)) f"

definition dim_of :: "SlotCounter list \<Rightarrow> (SlotCounter \<Rightarrow> u64 option) \<Rightarrow> SlotCounter \<Rightarrow> Dim \<Rightarrow> Dim" where
  "dim_of previous f slot = dim_step (f slot) (before_of previous f slot)"

lemma delta_loop_eq:
  "delta_loop previous current rest (p, d) =
     (if list_all (slot_paired previous current) rest
      then Some (fold (dim_of previous sc_prompt_processed) rest p, fold (dim_of previous sc_decoded) rest d)
      else None)"
  by (induction rest arbitrary: p d)
    (auto simp: slot_paired_def dim_of_def before_of_def prev_of_def split: option.splits)

lemma still_present_eq:
  "still_present current previous = list_all (\<lambda>s. case sc_slot_id s of None \<Rightarrow> False | Some i \<Rightarrow> count_id i current = 1) previous"
  by (induction previous) (auto split: option.splits)

subsection \<open>The declarative reading\<close>

definition paired_samples :: "SlotCounter list \<Rightarrow> SlotCounter list \<Rightarrow> bool" where
  "paired_samples previous current \<longleftrightarrow> list_all (slot_paired previous current) current
     \<and> list_all (\<lambda>s. case sc_slot_id s of None \<Rightarrow> False | Some i \<Rightarrow> count_id i current = 1) previous"

definition advances :: "u64 option \<Rightarrow> u64 option \<Rightarrow> bool" where
  "advances now before = (case (now, before) of (Some n, Some b) \<Rightarrow> b \<le> n | _ \<Rightarrow> False)"

definition gap :: "u64 option \<Rightarrow> u64 option \<Rightarrow> nat" where
  "gap now before = (case (now, before) of (Some n, Some b) \<Rightarrow> unat n - unat b | _ \<Rightarrow> 0)"

text \<open>
  One dimension: every slot either advances or reports nothing in both samples, at least one
  advances, and the rate is the total advance, capped at the largest 64-bit number, per second.
\<close>

definition dim_spec :: "SlotCounter list \<Rightarrow> SlotCounter list \<Rightarrow> (SlotCounter \<Rightarrow> u64 option) \<Rightarrow> f64 \<Rightarrow> f64 option" where
  "dim_spec previous current f seconds =
     (if list_all (\<lambda>s. advances (f s) (before_of previous f s) \<or> (f s = None \<and> before_of previous f s = None)) current
       \<and> list_ex (\<lambda>s. advances (f s) (before_of previous f s)) current
      then Some (fdiv (f64_of_nat (min (sum_list (map (\<lambda>s. gap (f s) (before_of previous f s)) current)) (2 ^ 64 - 1))) seconds)
      else None)"

lemma dim_step_fields:
  "d_known (dim_step now before d) \<longleftrightarrow> d_known d \<and> (advances now before \<or> (now = None \<and> before = None))"
  "d_reported (dim_step now before d) \<longleftrightarrow> d_reported d \<or> advances now before"
  "unat (d_delta (dim_step now before d)) = min (unat (d_delta d) + gap now before) (2 ^ 64 - 1)"
  using unat_le_max [of "d_delta d"]
  by (auto simp: dim_step_def advances_def gap_def sat_simps unat_sub not_le word_le_nat_alt word_less_nat_alt split: option.splits)

lemma dim_fold:
  "d_known (fold (dim_of previous f) xs d) \<longleftrightarrow> d_known d \<and>
     list_all (\<lambda>s. advances (f s) (before_of previous f s) \<or> (f s = None \<and> before_of previous f s = None)) xs"
  "d_reported (fold (dim_of previous f) xs d) \<longleftrightarrow> d_reported d \<or> list_ex (\<lambda>s. advances (f s) (before_of previous f s)) xs"
  by (induction xs arbitrary: d) (auto simp: dim_of_def dim_step_fields)

lemma dim_fold_delta:
  "unat (d_delta (fold (dim_of previous f) xs d)) =
     min (unat (d_delta d) + sum_list (map (\<lambda>s. gap (f s) (before_of previous f s)) xs)) (2 ^ 64 - 1)"
proof (induction xs arbitrary: d)
  case Nil
  then show ?case using unat_le_max [of "d_delta d"] by simp
next
  case (Cons x xs)
  have m: "min (min a b + c) b = min (a + c) b" for a b c :: nat by simp
  have "unat (d_delta (fold (dim_of previous f) (x # xs) d)) =
      min (unat (d_delta (dim_of previous f x d)) + sum_list (map (\<lambda>s. gap (f s) (before_of previous f s)) xs)) (2 ^ 64 - 1)"
    by (simp only: fold_simps(2) Cons.IH)
  then show ?case unfolding dim_of_def dim_step_fields(3) m by (simp add: add.assoc)
qed

lemma dim_rate_spec: "dim_rate (fold (dim_of previous f) current dim_init) seconds = dim_spec previous current f seconds"
  by (simp add: dim_rate_def dim_spec_def dim_fold f64_of_u64_def dim_fold_delta) (simp add: dim_init_def)

lemma slot_delta_tps_eq:
  "slot_delta_tps previous current seconds =
     (if is_finite seconds \<and> Fin 0 < seconds \<and> current \<noteq> [] \<and> paired_samples previous current
      then (dim_spec previous current sc_prompt_processed seconds, dim_spec previous current sc_decoded seconds)
      else (None, None))"
proof -
  have "is_finite seconds \<Longrightarrow> (seconds \<le> Fin 0) = (\<not> Fin 0 < seconds)" by (cases seconds) auto
  then show ?thesis
    by (auto simp: slot_delta_tps_def delta_loop_eq still_present_eq paired_samples_def dim_rate_spec)
qed

text \<open>
  C10: Per-slot throughput is exactly the declared one: unless the two samples pair up completely by
  slot id and task over a positive finite time the result is unavailable in both dimensions, and
  otherwise each dimension is the total advance of its counters per second, or unavailable when a
  counter went backwards, appeared, disappeared, or was reported by no slot.
\<close>

theorem slot_delta_tps_spec:
  "slot_delta_tps previous current seconds =
     (if is_finite seconds \<and> Fin 0 < seconds \<and> current \<noteq> [] \<and> paired_samples previous current
      then (dim_spec previous current sc_prompt_processed seconds, dim_spec previous current sc_decoded seconds)
      else (None, None))"
  by (rule slot_delta_tps_eq)

subsection \<open>Reordering\<close>

lemma count_id_mset: "count_id i xs = size (filter_mset (\<lambda>s. sc_slot_id s = Some i) (mset xs))"
  by (simp add: count_id_def flip: mset_filter)

lemma find_filter: "find P xs = (case filter P xs of [] \<Rightarrow> None | x # _ \<Rightarrow> Some x)"
  by (induction xs) auto

lemma prev_of_mset:
  assumes "mset xs = mset ys" "count_id i xs = 1"
  shows "prev_of xs i = prev_of ys i"
proof -
  let ?P = "\<lambda>s. sc_slot_id s = Some i"
  obtain x where x: "filter ?P xs = [x]" using assms(2) by (auto simp: count_id_def length_Suc_conv)
  have "mset (filter ?P ys) = mset (filter ?P xs)" using assms(1) by (simp add: mset_filter)
  then have "mset (filter ?P ys) = {#x#}" by (simp only: x mset.simps add_mset_eq_singleton_iff)
  then have "filter ?P ys = [x]" by (simp only: mset_single_iff)
  then show ?thesis by (simp add: prev_of_def find_filter x)
qed

lemma list_all_mset: "mset xs = mset ys \<Longrightarrow> list_all P xs = list_all P ys"
  by (metis list_all_iff set_mset_mset)

lemma list_ex_mset: "mset xs = mset ys \<Longrightarrow> list_ex P xs = list_ex P ys"
  by (metis list_ex_iff set_mset_mset)

lemma sum_list_mset: "mset xs = mset ys \<Longrightarrow> sum_list (map g xs) = sum_list (map g ys)" for g :: "'a \<Rightarrow> nat"
  by (metis mset_map sum_mset_sum_list)

lemma paired_samples_mset:
  assumes "mset current = mset current'" "mset previous = mset previous'"
  shows "paired_samples previous current = paired_samples previous' current'"
proof -
  have c: "count_id i current = count_id i current'" "count_id i previous = count_id i previous'" for i
    by (simp_all add: count_id_mset assms)
  have "slot_paired previous current = slot_paired previous' current'"
  proof
    fix s
    show "slot_paired previous current s = slot_paired previous' current' s"
      using prev_of_mset [OF assms(2)] c by (auto simp: slot_paired_def split: option.splits)
  qed
  then show ?thesis
    unfolding paired_samples_def c(1) using list_all_mset [OF assms(1)] list_all_mset [OF assms(2)] by simp
qed

lemma dim_spec_mset:
  assumes m: "mset current = mset current'" "mset previous = mset previous'" and pair: "paired_samples previous current"
  shows "dim_spec previous current f seconds = dim_spec previous' current' f seconds"
proof -
  have b: "before_of previous f s = before_of previous' f s" if "s \<in> set current" for s
  proof -
    have "slot_paired previous current s" using pair that by (auto simp: paired_samples_def list_all_iff)
    then obtain i where "sc_slot_id s = Some i" "count_id i previous = 1" by (auto simp: slot_paired_def split: option.splits)
    then show ?thesis using prev_of_mset [OF m(2)] by (simp add: before_of_def)
  qed
  then have "dim_spec previous current f seconds = dim_spec previous' current f seconds"
    unfolding dim_spec_def by (auto simp: list_all_iff list_ex_iff cong: map_cong)
  also have "\<dots> = dim_spec previous' current' f seconds"
    unfolding dim_spec_def list_all_mset [OF m(1)] list_ex_mset [OF m(1)] sum_list_mset [OF m(1)] ..
  finally show ?thesis .
qed

text \<open>
  The position of a slot in the array is never its identity: any reordering of either sample
  leaves the throughput unchanged.
\<close>

theorem slot_delta_tps_order:
  assumes "mset current = mset current'" "mset previous = mset previous'"
  shows "slot_delta_tps previous current seconds = slot_delta_tps previous' current' seconds"
  unfolding slot_delta_tps_eq
  using paired_samples_mset [OF assms] dim_spec_mset [OF assms] assms(1) by auto

theorem slot_delta_tps_order_witness:
  "slot_delta_tps [\<lparr>sc_slot_id = Some 1, sc_task_id = None, sc_prompt_processed = Some 3, sc_decoded = None\<rparr>,
      \<lparr>sc_slot_id = Some 0, sc_task_id = None, sc_prompt_processed = Some 5, sc_decoded = None\<rparr>]
     [\<lparr>sc_slot_id = Some 0, sc_task_id = None, sc_prompt_processed = Some 9, sc_decoded = None\<rparr>,
      \<lparr>sc_slot_id = Some 1, sc_task_id = None, sc_prompt_processed = Some 3, sc_decoded = None\<rparr>] (Fin 2)
   = slot_delta_tps [\<lparr>sc_slot_id = Some 0, sc_task_id = None, sc_prompt_processed = Some 5, sc_decoded = None\<rparr>,
      \<lparr>sc_slot_id = Some 1, sc_task_id = None, sc_prompt_processed = Some 3, sc_decoded = None\<rparr>]
     [\<lparr>sc_slot_id = Some 0, sc_task_id = None, sc_prompt_processed = Some 9, sc_decoded = None\<rparr>,
      \<lparr>sc_slot_id = Some 1, sc_task_id = None, sc_prompt_processed = Some 3, sc_decoded = None\<rparr>] (Fin 2)"
  by (rule slot_delta_tps_order) simp_all

text \<open>A concrete pair of samples: four tokens in two seconds are two per second.\<close>

lemma slot_delta_tps_example:
  "slot_delta_tps [\<lparr>sc_slot_id = Some 0, sc_task_id = None, sc_prompt_processed = Some 5, sc_decoded = None\<rparr>]
     [\<lparr>sc_slot_id = Some 0, sc_task_id = None, sc_prompt_processed = Some 9, sc_decoded = None\<rparr>] (Fin 2)
   = (Some (Fin 2), None)"
  by (simp add: slot_delta_tps_def dim_step_def dim_init_def count_id_def task_ids_match_def dim_rate_def
      f64_of_u64_def f64_of_nat_exact)

section \<open>The pass over the slots\<close>

text \<open>Which variables each part of the loop body leaves alone.\<close>

lemma spec_step_frame [frame_simps]:
  "best_busy (spec_step p s) = best_busy s" "best_any (spec_step p s) = best_any s" "busy (spec_step p s) = busy s"
  "fallback_busy (spec_step p s) = fallback_busy s" "fallback_any (spec_step p s) = fallback_any s"
  "req_prompt (spec_step p s) = req_prompt s" "req_generated (spec_step p s) = req_generated s"
  "prompt_complete (spec_step p s) = prompt_complete s" "generated_complete (spec_step p s) = generated_complete s"
  "counters (spec_step p s) = counters s" "overview (spec_step p s) = overview s"
  by (simp_all add: spec_step_def)

lemma request_step_frame [frame_simps]:
  "best_busy (request_step v s) = best_busy s" "best_any (request_step v s) = best_any s" "busy (request_step v s) = busy s"
  "fallback_busy (request_step v s) = fallback_busy s" "fallback_any (request_step v s) = fallback_any s"
  "counters (request_step v s) = counters s" "overview (request_step v s) = overview s"
  by (simp_all add: request_step_def Let_def split: option.split)

lemma best_step_frame [frame_simps]:
  "busy (best_step v s) = busy s" "req_prompt (best_step v s) = req_prompt s"
  "req_generated (best_step v s) = req_generated s" "prompt_complete (best_step v s) = prompt_complete s"
  "generated_complete (best_step v s) = generated_complete s"
  "counters (best_step v s) = counters s" "overview (best_step v s) = overview s"
  by (simp_all add: best_step_def Let_def split: option.split)

lemma record_step_frame [frame_simps]:
  "best_busy (record_step v s) = best_busy s" "best_any (record_step v s) = best_any s" "busy (record_step v s) = busy s"
  "fallback_busy (record_step v s) = fallback_busy s" "fallback_any (record_step v s) = fallback_any s"
  "req_prompt (record_step v s) = req_prompt s" "req_generated (record_step v s) = req_generated s"
  "prompt_complete (record_step v s) = prompt_complete s" "generated_complete (record_step v s) = generated_complete s"
  by (simp_all add: record_step_def Let_def split: option.split)

text \<open>Keeping the first maximum.\<close>

definition max_upd :: "('a \<Rightarrow> u64) \<Rightarrow> 'a \<Rightarrow> 'a option \<Rightarrow> 'a option" where
  "max_upd key x b = (if is_none_or (\<lambda>b. key b < key x) b then Some x else b)"

lemma max_fold:
  "case fold (max_upd key) xs b of None \<Rightarrow> xs = [] \<and> b = None
   | Some y \<Rightarrow> (y \<in> set xs \<or> b = Some y) \<and> (\<forall>x \<in> set xs. key x \<le> key y) \<and> (\<forall>x. b = Some x \<longrightarrow> key x \<le> key y)"
proof (induction xs arbitrary: b)
  case (Cons x xs)
  have "max_upd key x b \<noteq> None" by (auto simp: max_upd_def is_none_or_def split: option.splits)
  then obtain z where z: "max_upd key x b = Some z" by blast
  then have "(z = x \<or> b = Some z) \<and> key x \<le> key z \<and> (\<forall>w. b = Some w \<longrightarrow> key w \<le> key z)"
    by (auto simp: max_upd_def is_none_or_def split: option.splits if_splits)
  then show ?case using Cons.IH [of "Some z"] z by (auto split: option.splits intro: order_trans)
qed (simp split: option.split)

definition known_of :: "SlotView \<Rightarrow> (u64 \<times> u64 \<times> u64 option) option" where
  "known_of v = map_option (\<lambda>used. (used, v_n_ctx v, v_id v)) (v_prompt_tokens v)"

definition known_busy_of :: "SlotView \<Rightarrow> (u64 \<times> u64 \<times> u64 option) option" where
  "known_busy_of v = (if v_processing v then known_of v else None)"

lemma best_step_any: "best_any (best_step v s) = (case known_of v of None \<Rightarrow> best_any s | Some x \<Rightarrow> max_upd fst x (best_any s))"
  by (simp add: best_step_def Let_def known_of_def max_upd_def split: option.split)

lemma best_step_busy:
  "best_busy (best_step v s) = (case known_busy_of v of None \<Rightarrow> best_busy s | Some x \<Rightarrow> max_upd fst x (best_busy s))"
  by (simp add: best_step_def Let_def known_of_def known_busy_of_def max_upd_def split: option.split)

lemma slot_step_any:
  "best_any (slot_step s j) = (case known_of (slot_view j) of None \<Rightarrow> best_any s | Some x \<Rightarrow> max_upd fst x (best_any s))"
  by (simp add: slot_step_def Let_def frame_simps best_step_any split: option.split)

lemma slot_step_busy:
  "best_busy (slot_step s j) = (case known_busy_of (slot_view j) of None \<Rightarrow> best_busy s | Some x \<Rightarrow> max_upd fst x (best_busy s))"
  by (simp add: slot_step_def Let_def frame_simps best_step_busy split: option.split)

lemma slots_best:
  "best_any (foldl slot_step s js) = fold (max_upd fst) (List.map_filter known_of (map slot_view js)) (best_any s)"
  "best_busy (foldl slot_step s js) = fold (max_upd fst) (List.map_filter known_busy_of (map slot_view js)) (best_busy s)"
  by (induction js arbitrary: s)
    (simp_all add: List.map_filter_simps slot_step_any slot_step_busy split: option.split)

text \<open>The slots the pair may come from: the busy ones with a known occupancy, or else all such.\<close>

definition known_pool :: "SlotView list \<Rightarrow> SlotView list" where
  "known_pool vs = (let known = filter (\<lambda>v. v_prompt_tokens v \<noteq> None) vs; working = filter v_processing known in
     if working \<noteq> [] then working else known)"

definition shows_slot :: "LlmStats \<Rightarrow> LlmStats \<Rightarrow> u64 \<Rightarrow> SlotView \<Rightarrow> bool" where
  "shows_slot old new u v \<longleftrightarrow> v_prompt_tokens v = Some u \<and> context_slot_id new = v_id v
     \<and> context_size new = (if 0 < v_n_ctx v then v_n_ctx v else context_size old)"

lemma set_map_filter: "set (List.map_filter f xs) = {y. \<exists>x \<in> set xs. f x = Some y}"
  by (auto simp: List.map_filter_def image_iff) force

lemma map_filter_Nil: "List.map_filter f xs = [] \<longleftrightarrow> (\<forall>x \<in> set xs. f x = None)"
  by (induction xs) (auto simp: List.map_filter_simps split: option.split)

lemma known_pool_busy: "List.map_filter known_busy_of vs = [] \<Longrightarrow> known_pool vs = filter (\<lambda>v. v_prompt_tokens v \<noteq> None) vs"
  using set_map_filter [of known_busy_of vs]
  by (fastforce simp: known_pool_def Let_def known_busy_of_def known_of_def filter_empty_conv)

lemma pool_max:
  assumes y: "fold (max_upd fst) (List.map_filter f vs) None = Some y"
    and f: "\<And>v x. f v = Some x \<longleftrightarrow> P v \<and> known_of v = Some x"
    and pool: "pool = filter (\<lambda>v. v_prompt_tokens v \<noteq> None \<and> P v) vs"
  shows "\<exists>v \<in> set pool. v_prompt_tokens v = Some (fst y) \<and> y = (fst y, v_n_ctx v, v_id v)"
    and "\<forall>v \<in> set pool. \<forall>w. v_prompt_tokens v = Some w \<longrightarrow> w \<le> fst y"
proof -
  have m: "y \<in> set (List.map_filter f vs)" "\<forall>x \<in> set (List.map_filter f vs). fst x \<le> fst y"
    using max_fold [where key = fst and xs = "List.map_filter f vs" and b = None] y by simp_all
  obtain v where "v \<in> set vs" "f v = Some y" using m(1) by (auto simp: set_map_filter)
  then show "\<exists>v \<in> set pool. v_prompt_tokens v = Some (fst y) \<and> y = (fst y, v_n_ctx v, v_id v)"
    unfolding pool f by (auto simp: known_of_def intro!: bexI [of _ v])
  show "\<forall>v \<in> set pool. \<forall>w. v_prompt_tokens v = Some w \<longrightarrow> w \<le> fst y"
  proof (intro ballI allI impI)
    fix v w
    assume "v \<in> set pool" "v_prompt_tokens v = Some w"
    then have "v \<in> set vs" "f v = Some (w, v_n_ctx v, v_id v)" unfolding pool f by (auto simp: known_of_def)
    then have "(w, v_n_ctx v, v_id v) \<in> set (List.map_filter f vs)" by (auto simp: set_map_filter)
    then show "w \<le> fst y" using m(2) by force
  qed
qed

lemma pool_none:
  assumes "fold (max_upd fst) (List.map_filter f vs) None = None"
  shows "List.map_filter f vs = []"
  using max_fold [where key = fst and xs = "List.map_filter f vs" and b = None] assms by simp

lemma slots_finish_pair:
  "context_used (slots_finish st s) = map_option fst (opt_or (best_busy s) (best_any s))"
  "opt_or (best_busy s) (best_any s) = Some (u, n, i) \<Longrightarrow>
     context_slot_id (slots_finish st s) = i \<and> context_size (slots_finish st s) = (if 0 < n then n else context_size st)"
  by (auto simp: slots_finish_def Let_def split: option.splits prod.splits)

definition pair_from :: "LlmStats \<Rightarrow> LlmStats \<Rightarrow> SlotView list \<Rightarrow> bool" where
  "pair_from old new pool = (case context_used new of None \<Rightarrow> pool = []
     | Some u \<Rightarrow> list_ex (shows_slot old new u) pool
         \<and> list_all (\<lambda>v. case v_prompt_tokens v of Some w \<Rightarrow> w \<le> u | None \<Rightarrow> False) pool)"

lemma pair_from_best:
  assumes y: "opt_or (best_busy s) (best_any s) = Some y" "fold (max_upd fst) (List.map_filter f vs) None = Some y"
    and f: "\<And>v x. f v = Some x \<longleftrightarrow> P v \<and> known_of v = Some x"
    and pool: "pool = filter (\<lambda>v. v_prompt_tokens v \<noteq> None \<and> P v) vs" and size: "context_size st = context_size old"
  shows "pair_from old (slots_finish st s) pool"
proof -
  obtain v where v: "v \<in> set pool" "v_prompt_tokens v = Some (fst y)" "y = (fst y, v_n_ctx v, v_id v)"
    using pool_max(1) [OF y(2) f pool] by blast
  have "context_used (slots_finish st s) = Some (fst y)" using y(1) by (simp add: slots_finish_pair)
  moreover have "shows_slot old (slots_finish st s) (fst y) v"
    using v slots_finish_pair(2) [of s "fst y" "v_n_ctx v" "v_id v" st] y(1) size by (simp add: shows_slot_def)
  ultimately show ?thesis
    using v(1) pool_max(2) [OF y(2) f pool] pool by (auto simp: pair_from_def list_ex_iff list_all_iff)
qed

text \<open>
  The displayed context pair is never mixed from several slots: the occupancy, the capacity and
  the slot id all come from one slot, which is among the busy slots that report an occupancy when
  there is one, and no slot of that pool is fuller.  The occupancy is unknown only when no slot
  reports one.
\<close>

theorem slots_context_pair:
  "pair_from old (fst (apply_slots_json old (JArray slots))) (known_pool (map slot_view slots))"
proof -
  define vs where "vs = map slot_view slots"
  define st where "st = old\<lparr>slots_available := True, slots_error := [], slot_count := of_nat (length slots)\<rparr>"
  define s where "s = foldl slot_step (slot_loop_init st) slots"
  have new: "fst (apply_slots_json old (JArray slots)) = slots_finish st s"
    by (simp add: apply_slots_json_def Let_def st_def s_def)
  have size: "context_size st = context_size old" by (simp add: st_def)
  have bb: "best_busy s = fold (max_upd fst) (List.map_filter known_busy_of vs) None"
    and ba: "best_any s = fold (max_upd fst) (List.map_filter known_of vs) None"
    by (simp_all add: s_def slots_best slot_loop_init_def vs_def)
  show ?thesis unfolding new vs_def [symmetric]
  proof (cases "best_busy s")
    case (Some y)
    have "List.map_filter known_busy_of vs \<noteq> []" using Some bb by auto
    then have "filter v_processing (filter (\<lambda>v. v_prompt_tokens v \<noteq> None) vs) \<noteq> []"
      using set_map_filter [of known_busy_of vs]
      by (fastforce simp: known_busy_of_def known_of_def filter_empty_conv neq_Nil_conv split: if_splits)
    then have pool: "known_pool vs = filter (\<lambda>v. v_prompt_tokens v \<noteq> None \<and> v_processing v) vs"
      by (simp add: known_pool_def Let_def)
    show "pair_from old (slots_finish st s) (known_pool vs)"
      using Some bb by (intro pair_from_best [OF _ _ _ pool size]) (auto simp: opt_or_def known_busy_of_def split: if_splits)
  next
    case None
    have pool: "known_pool vs = filter (\<lambda>v. v_prompt_tokens v \<noteq> None) vs"
      using None by (intro known_pool_busy pool_none) (simp add: bb)
    show "pair_from old (slots_finish st s) (known_pool vs)"
    proof (cases "best_any s")
      case (Some y)
      then show ?thesis using None ba
        by (intro pair_from_best [where f = known_of and P = "\<lambda>_. True"]) (auto simp: opt_or_def pool size)
    next
      case any: None
      have "List.map_filter known_of vs = []" using any ba by (intro pool_none) simp
      then have "known_pool vs = []" unfolding pool by (simp add: map_filter_Nil known_of_def filter_empty_conv)
      then show ?thesis using None any by (simp add: pair_from_def slots_finish_pair opt_or_def)
    qed
  qed
qed

subsection \<open>Totals\<close>

text \<open>The sum of a counter over the busy slots, unknown when one of them does not report it.\<close>

definition busy_total :: "(SlotView \<Rightarrow> u64 option) \<Rightarrow> SlotView list \<Rightarrow> nat option" where
  "busy_total f vs = (let working = filter v_processing vs in
     if working = [] \<or> list_ex (\<lambda>v. f v = None) working then None
     else Some (min (sum_list (map (\<lambda>v. unat (unwrap_or 0 (f v))) working)) (2 ^ 64 - 1)))"

definition total_inv :: "(SlotView \<Rightarrow> u64 option) \<Rightarrow> SlotView list \<Rightarrow> u64 option \<Rightarrow> bool \<Rightarrow> bool" where
  "total_inv f vs tot compl \<longleftrightarrow> (compl \<longleftrightarrow> \<not> list_ex (\<lambda>v. f v = None) (filter v_processing vs))
     \<and> (compl \<longrightarrow> (tot = None \<longleftrightarrow> filter v_processing vs = []))
     \<and> unat (unwrap_or 0 tot) = min (sum_list (map (\<lambda>v. unat (unwrap_or 0 (f v))) (filter v_processing vs))) (2 ^ 64 - 1)"

lemma total_inv_step:
  assumes "total_inv f vs tot compl"
  shows "total_inv f (vs @ [v])
    (if v_processing v then (case f v of Some n \<Rightarrow> Some (sat_add (unwrap_or 0 tot) n) | None \<Rightarrow> tot) else tot)
    (if v_processing v \<and> f v = None then False else compl)"
proof -
  have m: "min (min a b + c) b = min (a + c) b" for a b c :: nat by simp
  show ?thesis
    using assms
    by (cases "v_processing v"; cases "f v") (auto simp: total_inv_def sat_simps m)
qed

lemma total_inv_result:
  "total_inv f vs tot compl \<Longrightarrow> map_option unat (if compl then tot else None) = busy_total f vs"
  by (cases tot) (auto simp: total_inv_def busy_total_def Let_def)

definition busy_count :: "SlotView list \<Rightarrow> u64" where
  "busy_count vs = of_nat (length (filter v_processing vs))"

definition counter_of :: "SlotView \<Rightarrow> SlotCounter" where
  "counter_of v = \<lparr>sc_slot_id = v_id v, sc_task_id = v_task v, sc_prompt_processed = v_processed v, sc_decoded = v_decoded v\<rparr>"

definition info_of :: "SlotView \<Rightarrow> LlmSlotInfo option" where
  "info_of v = map_option (\<lambda>i. \<lparr>si_id = i, si_busy = v_processing v, si_context_used = v_prompt_tokens v,
     si_context_size = (if 0 < v_n_ctx v then Some (v_n_ctx v) else None)\<rparr>) (v_id v)"

definition loop_inv :: "SlotView list \<Rightarrow> SlotLoop \<Rightarrow> bool" where
  "loop_inv vs s \<longleftrightarrow> total_inv v_processed vs (req_prompt s) (prompt_complete s)
     \<and> total_inv v_decoded vs (req_generated s) (generated_complete s)
     \<and> busy s = busy_count vs \<and> counters s = map counter_of vs \<and> overview s = List.map_filter info_of vs"

lemma request_step_fields:
  "req_prompt (request_step v s) = (if v_processing v then (case v_processed v of
      Some n \<Rightarrow> Some (sat_add (unwrap_or 0 (req_prompt s)) n) | None \<Rightarrow> req_prompt s) else req_prompt s)"
  "prompt_complete (request_step v s) = (if v_processing v \<and> v_processed v = None then False else prompt_complete s)"
  "req_generated (request_step v s) = (if v_processing v then (case v_decoded v of
      Some n \<Rightarrow> Some (sat_add (unwrap_or 0 (req_generated s)) n) | None \<Rightarrow> req_generated s) else req_generated s)"
  "generated_complete (request_step v s) = (if v_processing v \<and> v_decoded v = None then False else generated_complete s)"
  by (auto simp: request_step_def Let_def split: option.split)

lemma record_step_fields:
  "counters (record_step v s) = counters s @ [counter_of v]"
  "overview (record_step v s) = overview s @ (case info_of v of Some i \<Rightarrow> [i] | None \<Rightarrow> [])"
  by (auto simp: record_step_def Let_def counter_of_def info_of_def split: option.split)

lemma slot_step_fields:
  "req_prompt (slot_step s j) = (if v_processing (slot_view j) then (case v_processed (slot_view j) of
      Some n \<Rightarrow> Some (sat_add (unwrap_or 0 (req_prompt s)) n) | None \<Rightarrow> req_prompt s) else req_prompt s)"
  "prompt_complete (slot_step s j) =
     (if v_processing (slot_view j) \<and> v_processed (slot_view j) = None then False else prompt_complete s)"
  "req_generated (slot_step s j) = (if v_processing (slot_view j) then (case v_decoded (slot_view j) of
      Some n \<Rightarrow> Some (sat_add (unwrap_or 0 (req_generated s)) n) | None \<Rightarrow> req_generated s) else req_generated s)"
  "generated_complete (slot_step s j) =
     (if v_processing (slot_view j) \<and> v_decoded (slot_view j) = None then False else generated_complete s)"
  "busy (slot_step s j) = (if v_processing (slot_view j) then busy s + 1 else busy s)"
  "counters (slot_step s j) = counters s @ [counter_of (slot_view j)]"
  "overview (slot_step s j) = overview s @ (case info_of (slot_view j) of Some i \<Rightarrow> [i] | None \<Rightarrow> [])"
  unfolding slot_step_def Let_def
  by (auto simp: frame_simps request_step_fields record_step_fields split: option.split)

lemma loop_inv_step [inv_intros]:
  assumes "loop_inv vs s"
  shows "loop_inv (vs @ [slot_view j]) (slot_step s j)"
proof -
  have "total_inv v_processed (vs @ [slot_view j]) (req_prompt (slot_step s j)) (prompt_complete (slot_step s j))"
    "total_inv v_decoded (vs @ [slot_view j]) (req_generated (slot_step s j)) (generated_complete (slot_step s j))"
    unfolding slot_step_fields using assms by (intro total_inv_step; simp add: loop_inv_def)+
  moreover have "busy (slot_step s j) = busy_count (vs @ [slot_view j])"
    using assms by (simp add: slot_step_fields loop_inv_def busy_count_def)
  moreover have "overview (slot_step s j) = List.map_filter info_of (vs @ [slot_view j])"
    using assms by (simp add: slot_step_fields loop_inv_def List.map_filter_def split: option.split)
  ultimately show ?thesis using assms by (simp add: loop_inv_def slot_step_fields(6))
qed

lemma loop_inv_fold: "loop_inv vs s \<Longrightarrow> loop_inv (vs @ map slot_view js) (foldl slot_step s js)"
proof (induction js arbitrary: vs s)
  case (Cons j js)
  show ?case using Cons.IH [OF loop_inv_step [OF Cons.prems, of j]] by simp
qed simp

lemma slots_ok:
  "slots_available (fst (apply_slots_json old (JArray slots))) \<and> (\<exists>cs. snd (apply_slots_json old (JArray slots)) = Inr cs)"
  by (simp add: apply_slots_json_def Let_def slots_finish_def split: option.split prod.split)

text \<open>What the pass reports of the slots depends on the array only, not on the earlier statistics.\<close>

lemma slots_loop_indep:
  "best_any (foldl slot_step (slot_loop_init a) js) = best_any (foldl slot_step (slot_loop_init b) js)"
  "best_busy (foldl slot_step (slot_loop_init a) js) = best_busy (foldl slot_step (slot_loop_init b) js)"
  "busy (foldl slot_step (slot_loop_init a) js) = busy (foldl slot_step (slot_loop_init b) js)"
  "overview (foldl slot_step (slot_loop_init a) js) = overview (foldl slot_step (slot_loop_init b) js)"
proof -
  have i: "loop_inv [] (slot_loop_init st)" for st
    by (simp add: loop_inv_def total_inv_def slot_loop_init_def busy_count_def List.map_filter_simps)
  show "busy (foldl slot_step (slot_loop_init a) js) = busy (foldl slot_step (slot_loop_init b) js)"
    "overview (foldl slot_step (slot_loop_init a) js) = overview (foldl slot_step (slot_loop_init b) js)"
    using loop_inv_fold [OF i [of a], of js] loop_inv_fold [OF i [of b], of js] by (simp_all add: loop_inv_def)
qed (simp_all add: slots_best slot_loop_init_def)

lemma slots_finish_fields:
  "slots_available (slots_finish st s) = slots_available st" "slots_error (slots_finish st s) = slots_error st"
  "slot_count (slots_finish st s) = slot_count st" "busy_slots (slots_finish st s) = busy s"
  "slot_overview (slots_finish st s) = sort_key si_id (overview s)"
  "request_prompt_tokens (slots_finish st s) = (if prompt_complete s then req_prompt s else None)"
  "request_generated_tokens (slots_finish st s) = (if generated_complete s then req_generated s else None)"
  by (simp_all add: slots_finish_def Let_def split: option.split prod.split)

definition slot_fields :: "LlmStats \<Rightarrow> bool \<times> u64 \<times> u64 \<times> LlmSlotInfo list \<times> u64 option" where
  "slot_fields st = (slots_available st, slot_count st, busy_slots st, slot_overview st, context_used st)"

lemma slot_fields_indep:
  "slot_fields (fst (apply_slots_json a (JArray js))) = slot_fields (fst (apply_slots_json b (JArray js)))"
  by (simp add: slot_fields_def apply_slots_json_def Let_def slots_finish_fields slots_finish_pair)
    (metis slots_loop_indep)

text \<open>
  The other results of a valid array: its length, the number of busy slots, one counter per slot
  in array order, the overview of the slots that report an id sorted by it, and request totals
  that are the capped sums over the busy slots, unavailable rather than partial when a busy slot
  does not report the counter.
\<close>

theorem slots_totals:
  "let (new, r) = apply_slots_json old (JArray slots); vs = map slot_view slots in
     slots_available new \<and> slots_error new = [] \<and> slot_count new = of_nat (length slots)
   \<and> busy_slots new = busy_count vs \<and> r = Inr (map counter_of vs)
   \<and> slot_overview new = sort_key si_id (List.map_filter info_of vs)
   \<and> map_option unat (request_prompt_tokens new) = busy_total v_processed vs
   \<and> map_option unat (request_generated_tokens new) = busy_total v_decoded vs"
proof -
  define st where "st = old\<lparr>slots_available := True, slots_error := [], slot_count := of_nat (length slots)\<rparr>"
  define s where "s = foldl slot_step (slot_loop_init st) slots"
  have "loop_inv [] (slot_loop_init st)"
    by (simp add: loop_inv_def total_inv_def slot_loop_init_def busy_count_def unwrap_or_def List.map_filter_simps)
  then have inv: "loop_inv (map slot_view slots) s" unfolding s_def by (rule loop_inv_fold [of "[]", simplified])
  have "apply_slots_json old (JArray slots) = (slots_finish st s, Inr (counters s))"
    by (simp add: apply_slots_json_def Let_def st_def s_def)
  then show ?thesis
    using inv total_inv_result [of v_processed] total_inv_result [of v_decoded]
    by (simp add: Let_def slots_finish_fields loop_inv_def) (simp add: st_def)
qed

text \<open>A response that is not an array changes nothing and is reported.\<close>

theorem slots_not_array: "as_array v = None \<Longrightarrow> apply_slots_json old v = (old, Inl (lit ''/slots response is not an array''))"
  by (simp add: apply_slots_json_def)

end
