(* ===== verification/Monitor.thy ===== *)
theory Monitor
  imports Slots
begin

text \<open>
  The state machine of one monitored server, from \<^verbatim>\<open>src/llama/monitor.rs\<close>: the cached
  properties and their refresh window, the counter baselines and when they are dropped, and the
  sample each poll derives.  The three HTTP answers, the process table and the clock readings of
  one poll are its inputs, in the order the code obtains them; the JSON parser and the URL
  library are parameters.
\<close>

section \<open>State\<close>

definition PROPS_REFRESH :: duration where "PROPS_REFRESH = secs 30"
definition SPEC_ACCEPTANCE_HOLD :: duration where "SPEC_ACCEPTANCE_HOLD = secs 3"
definition SPEC_REFRESH :: duration where "SPEC_REFRESH = secs 30"

definition UNKNOWN_MODEL_LABEL :: rstr where
  "UNKNOWN_MODEL_LABEL = lit ''llama.cpp model''"

record PreviousMetricCounters =
  pc_at :: "instant option"
  pc_prompt_total :: "f64 option"
  pc_generated_total :: "f64 option"
  pc_draft_total :: "f64 option"
  pc_accepted_total :: "f64 option"

definition no_counters :: PreviousMetricCounters where
  "no_counters = \<lparr>pc_at = None, pc_prompt_total = None, pc_generated_total = None, pc_draft_total = None,
     pc_accepted_total = None\<rparr>"

record PreviousSlotCounters =
  ps_at :: "instant option"
  ps_slots :: "SlotCounter list"

definition no_slots :: PreviousSlotCounters where
  "no_slots = \<lparr>ps_at = None, ps_slots = []\<rparr>"

record LlamaMonitor =
  base :: rstr
  previous_metrics :: PreviousMetricCounters
  previous_slots :: PreviousSlotCounters
  props :: CachedProps
  last_spec_acceptance_pct :: "f64 option"
  last_spec_acceptance_at :: "instant option"
  props_dirty :: bool
  local_spec :: "LocalSpeculativeConfig option"
  local_spec_scanned_at :: "instant option"
  last_metrics_format :: "MetricsFormat option"
  last_strata_since :: "f64 option"

definition LlamaMonitor_new :: "rstr \<Rightarrow> LlamaMonitor" where
  "LlamaMonitor_new server = \<lparr>base = trim_end_by (\<lambda>c. c = 47) server, previous_metrics = no_counters,
     previous_slots = no_slots, props = CachedProps_default, last_spec_acceptance_pct = None,
     last_spec_acceptance_at = None, props_dirty = True, local_spec = None, local_spec_scanned_at = None,
     last_metrics_format = None, last_strata_since = None\<rparr>"

section \<open>Answers\<close>

text \<open>An HTTP status is its code and the text it is displayed as.\<close>

datatype MetricsOutcome = MOk rstr | MHttp nat rstr | MBody rstr | MUnreachable rstr

datatype JsonOutcome = JOk json | JHttp nat rstr | JInvalid rstr | JUnreachable rstr

text \<open>The inputs of one poll.\<close>

record Poll =
  p_props :: JsonOutcome
  p_metrics :: MetricsOutcome
  p_slots :: JsonOutcome
  p_procs :: "proc_entry list option"
  t_refresh :: instant
  t_props :: instant
  t_spec_due :: instant
  t_spec_set :: instant
  t_metrics :: instant
  t_slots :: instant

section \<open>Cached properties\<close>

definition props_needs_refresh :: "LlamaMonitor \<Rightarrow> instant \<Rightarrow> bool" where
  "props_needs_refresh m now \<longleftrightarrow> props_dirty m
     \<or> (case cp_last_refresh (props m) of Some t0 \<Rightarrow> PROPS_REFRESH \<le> now - t0 | None \<Rightarrow> True)"

definition local_spec_config ::
  "('u, 'z) url_api_scheme \<Rightarrow> LlamaMonitor \<Rightarrow> Poll \<Rightarrow> LlamaMonitor \<times> LocalSpeculativeConfig option" where
  "local_spec_config api m p = (let
       due = (case local_spec_scanned_at m of Some t0 \<Rightarrow> SPEC_REFRESH \<le> t_spec_due p - t0 | None \<Rightarrow> True);
       m' = (if due then m\<lparr>local_spec := local_speculative_process_config api (p_procs p) (base m),
               local_spec_scanned_at := Some (t_spec_set p)\<rparr> else m)
     in (m', local_spec m'))"

definition merge_spec :: "SpeculativeConfig option \<Rightarrow> SpeculativeConfig \<Rightarrow> SpeculativeConfig" where
  "merge_spec nested top_spec = (let type_source = opt_filter sp_types_known nested in
     \<lparr>sp_present = is_some_and sp_present nested \<or> sp_present top_spec,
      sp_enabled = opt_or (Option.bind nested sp_enabled) (sp_enabled top_spec),
      sp_is_mtp = (case type_source of None \<Rightarrow> sp_is_mtp top_spec | Some s \<Rightarrow> sp_is_mtp s),
      sp_n_max = opt_or (Option.bind nested sp_n_max) (sp_n_max top_spec),
      sp_types_known = (type_source \<noteq> None \<or> sp_types_known top_spec),
      sp_named_type = (case type_source of None \<Rightarrow> sp_named_type top_spec | Some s \<Rightarrow> sp_named_type s)\<rparr>)"

definition apply_spec :: "SpeculativeConfig \<Rightarrow> CachedProps \<Rightarrow> CachedProps" where
  "apply_spec merged c = (if \<not> sp_present merged then c else
     (let n_max = opt_filter (\<lambda>v. 0 < v) (sp_n_max merged) in
      c\<lparr>cp_spec_enabled := unwrap_or (n_max \<noteq> None \<or> sp_is_mtp merged) (sp_enabled merged),
        cp_spec_enabled_known := sp_enabled merged \<noteq> None,
        cp_spec_is_mtp := sp_is_mtp merged,
        cp_spec_named_type := sp_named_type merged,
        cp_spec_n_max_known := sp_n_max merged \<noteq> None,
        cp_spec_n_max := n_max\<rparr>))"

definition apply_props_json :: "json \<Rightarrow> instant \<Rightarrow> CachedProps \<Rightarrow> CachedProps" where
  "apply_props_json v now c0 = (let
       c1 = c0\<lparr>cp_last_refresh := Some now\<rparr>;
       c2 = c1\<lparr>cp_context_size := unwrap_or (cp_context_size c1)
         (opt_or (json_u64_path v [lit ''default_generation_settings'', lit ''n_ctx'']) (json_u64_path v [lit ''n_ctx'']))\<rparr>;
       c3 = c2\<lparr>cp_total_slots := unwrap_or (cp_total_slots c2) (jget_u64 (lit ''total_slots'') v)\<rparr>;
       nested = map_option speculative_config (jget (lit ''default_generation_settings'') v);
       c4 = apply_spec (merge_spec nested (speculative_config v)) c3;
       model = map_option model_display_name (json_string v (map lit [''model_name'', ''model_alias'', ''model_path'']))
     in case opt_filter (\<lambda>name. name \<noteq> []) model of Some name \<Rightarrow> c4\<lparr>cp_model := name\<rparr> | None \<Rightarrow> c4)"

definition apply_props_result :: "LlamaMonitor \<Rightarrow> JsonOutcome \<Rightarrow> instant \<Rightarrow> LlamaMonitor" where
  "apply_props_result m outcome now = (case outcome of
       JOk v \<Rightarrow> m\<lparr>props_dirty := False, props := apply_props_json v now (props m)\<rparr>
     | _ \<Rightarrow> m\<lparr>props_dirty := True\<rparr>)"

section \<open>Counters\<close>

text \<open>
  \<^verbatim>\<open>update_metric_counters\<close> in three parts: the live rates, the acceptance and its
  hold, and the new baseline.
\<close>

definition metric_rates :: "PreviousMetricCounters \<Rightarrow> LlmStats \<Rightarrow> instant \<Rightarrow> f64 option \<times> f64 option" where
  "metric_rates prev stats now = (case pc_at prev of None \<Rightarrow> (None, None)
     | Some t0 \<Rightarrow> (let seconds = as_secs_f64 (now - t0) in
         if Fin 0 < seconds then
           (counter_rate (prompt_total stats) (pc_prompt_total prev) seconds,
            counter_rate (generated_total stats) (pc_generated_total prev) seconds)
         else (None, None)))"

definition counter_delta2 :: "f64 option \<Rightarrow> f64 option \<Rightarrow> f64 option" where
  "counter_delta2 now before = (case (now, before) of (Some n, Some b) \<Rightarrow> counter_delta_opt n b | _ \<Rightarrow> None)"

definition acceptance :: "PreviousMetricCounters \<Rightarrow> LlmStats \<Rightarrow> f64 option" where
  "acceptance prev stats = (let
       draft_delta = opt_filter (\<lambda>d. Fin 0 < d) (counter_delta2 (spec_draft_tokens stats) (pc_draft_total prev));
       accepted_delta = counter_delta2 (spec_accepted_tokens stats) (pc_accepted_total prev)
     in case (draft_delta, accepted_delta) of
          (Some d, Some a) \<Rightarrow> Some (fclamp (Fin 0) (Fin 100) (fmul (fdiv a d) (Fin 100)))
        | _ \<Rightarrow> None)"

definition update_acceptance :: "LlamaMonitor \<Rightarrow> LlmStats \<Rightarrow> instant \<Rightarrow> LlamaMonitor \<times> LlmStats" where
  "update_acceptance m stats now = (if pc_at (previous_metrics m) = None then (m, stats)
     else case acceptance (previous_metrics m) stats of
         Some a \<Rightarrow> (m\<lparr>last_spec_acceptance_pct := Some a, last_spec_acceptance_at := Some now\<rparr>,
                    stats\<lparr>spec_acceptance_pct := Some a\<rparr>)
       | None \<Rightarrow> if is_some_and (\<lambda>t0. now - t0 \<le> SPEC_ACCEPTANCE_HOLD) (last_spec_acceptance_at m)
           then (m, stats\<lparr>spec_acceptance_pct := last_spec_acceptance_pct m\<rparr>) else (m, stats))"

definition baseline_of :: "LlmStats \<Rightarrow> instant \<Rightarrow> PreviousMetricCounters" where
  "baseline_of stats now = \<lparr>pc_at = Some now, pc_prompt_total = prompt_total stats,
     pc_generated_total = generated_total stats, pc_draft_total = spec_draft_tokens stats,
     pc_accepted_total = spec_accepted_tokens stats\<rparr>"

definition update_metric_counters ::
  "LlamaMonitor \<Rightarrow> LlmStats \<Rightarrow> instant \<Rightarrow> LlamaMonitor \<times> LlmStats \<times> (f64 option \<times> f64 option)" where
  "update_metric_counters m stats now = (let
       live = metric_rates (previous_metrics m) stats now;
       (m1, stats1) = update_acceptance m stats now
     in (m1\<lparr>previous_metrics := baseline_of stats1 now\<rparr>, stats1, live))"

definition update_live_slot_throughput ::
  "LlamaMonitor \<Rightarrow> SlotCounter list \<Rightarrow> instant \<Rightarrow> LlamaMonitor \<times> (f64 option \<times> f64 option)" where
  "update_live_slot_throughput m slots now = (let
       live = (case ps_at (previous_slots m) of
           Some t0 \<Rightarrow> slot_delta_tps (ps_slots (previous_slots m)) slots (as_secs_f64 (now - t0))
         | None \<Rightarrow> (None, None))
     in (m\<lparr>previous_slots := \<lparr>ps_at = Some now, ps_slots = slots\<rparr>\<rparr>, live))"

definition apply_slots_outcome :: "LlmStats \<Rightarrow> JsonOutcome \<Rightarrow> LlmStats \<times> SlotCounter list option" where
  "apply_slots_outcome stats outcome = (case outcome of
       JUnreachable err \<Rightarrow> (stats\<lparr>slots_error := lit ''cannot reach /slots: '' @ err\<rparr>, None)
     | JHttp code status \<Rightarrow> (stats\<lparr>slots_error := lit ''/slots returned HTTP '' @ status\<rparr>, None)
     | JInvalid err \<Rightarrow> (stats\<lparr>slots_error := lit ''invalid /slots response: '' @ err\<rparr>, None)
     | JOk v \<Rightarrow> (case apply_slots_json stats v of
           (stats', Inr slots) \<Rightarrow> (stats', Some slots)
         | (stats', Inl err) \<Rightarrow> (stats'\<lparr>slots_error := err\<rparr>, None)))"

section \<open>The sample\<close>

definition seed_stats :: "CachedProps \<Rightarrow> LlmStats" where
  "seed_stats c = LlmStats_default\<lparr>model := cp_model c, context_size := cp_context_size c,
     props_slot_count := cp_total_slots c, spec_enabled := cp_spec_enabled c, spec_is_mtp := cp_spec_is_mtp c,
     spec_n_max := cp_spec_n_max c\<rparr>"

definition apply_metrics_outcome :: "LlmStats \<Rightarrow> MetricsOutcome \<Rightarrow> LlmStats \<times> rstr option" where
  "apply_metrics_outcome stats outcome = (case outcome of
       MOk body \<Rightarrow> (stats, Some body)
     | MHttp code status \<Rightarrow> (stats\<lparr>error_text := (if code = 501
           then lit ''/metrics disabled; start llama.cpp with --metrics''
           else lit ''/metrics returned HTTP '' @ status)\<rparr>, None)
     | MBody err \<Rightarrow> (stats\<lparr>error_text := lit ''metrics response error: '' @ err\<rparr>, None)
     | MUnreachable err \<Rightarrow> (stats\<lparr>error_text := lit ''cannot reach llama.cpp: '' @ err\<rparr>, None))"

definition no_metrics :: ParsedMetrics where
  "no_metrics = \<lparr>pm_samples = [], pm_format = None, pm_strata_since = None, pm_strata_live = None,
     pm_strata_capacity = None, pm_json = False\<rparr>"

text \<open>Availability, the error for an unusable body, the backend and the capacity fallback.\<close>

definition apply_parsed :: "rstr option \<Rightarrow> ParsedMetrics \<Rightarrow> LlmStats \<Rightarrow> LlmStats" where
  "apply_parsed body parsed stats = (let
       available = (case pm_format parsed of Some FStrata \<Rightarrow> True
         | Some FPrometheus \<Rightarrow> body \<noteq> None \<and> pm_samples parsed \<noteq> [] | None \<Rightarrow> False);
       stats1 = stats\<lparr>metrics_available := available\<rparr>;
       stats2 = (if body \<noteq> None \<and> \<not> available then stats1\<lparr>error_text :=
           (if pm_json parsed then lit ''/metrics returned an unrecognized JSON format''
            else lit ''/metrics returned no metrics'')\<rparr> else stats1);
       stats3 = stats2\<lparr>backend := classify_backend (pm_format parsed) (pm_samples parsed)\<rparr>
     in if context_size stats3 = 0 then (case pm_strata_capacity parsed of
          Some capacity \<Rightarrow> stats3\<lparr>context_size := capacity\<rparr> | None \<Rightarrow> stats3) else stats3)"

definition pick :: "MetricSample list \<Rightarrow> string list \<Rightarrow> f64 option" where
  "pick metrics names = pick_metric_opt metrics (map lit names)"

definition fill_metric_fields :: "MetricSample list \<Rightarrow> LlmStats \<Rightarrow> LlmStats" where
  "fill_metric_fields metrics stats0 = (let
       stats1 = stats0\<lparr>
         prompt_total := pick metrics [''llamacpp:prompt_tokens_total'', ''llamacpp:tokens_evaluated_total'',
           ''llamacpp_prompt_tokens_total'', ''prompt_tokens_total''],
         prompt_cached_total := pick metrics [''llamacpp:prompt_tokens_cached_total''],
         generated_total := pick metrics [''llamacpp:tokens_predicted_total'',
           ''llamacpp_predicted_tokens_total'', ''predicted_tokens_total''],
         prompt_seconds_total := pick metrics [''llamacpp:prompt_seconds_total''],
         generation_seconds_total := pick metrics [''llamacpp:tokens_predicted_seconds_total'']\<rparr>;
       stats2 = stats1\<lparr>
         prompt_avg_tps := opt_or (average_over_seconds (prompt_total stats1) (prompt_seconds_total stats1))
           (pick metrics [''llamacpp:prompt_tokens_seconds'', ''llamacpp_prompt_tokens_seconds'']),
         generation_avg_tps := opt_or (average_over_seconds (generated_total stats1) (generation_seconds_total stats1))
           (pick metrics [''llamacpp:predicted_tokens_seconds'', ''llamacpp_predicted_tokens_seconds'']),
         active_requests := pick metrics [''llamacpp:requests_processing'', ''llamacpp_requests_processing'',
           ''requests_processing''],
         deferred_requests := pick metrics [''llamacpp:requests_deferred'', ''llamacpp_requests_deferred'',
           ''requests_deferred''],
         context_high_watermark := map_option u64_of_f64
           (pick metrics [''llamacpp:n_tokens_max'', ''llamacpp_n_tokens_max'']),
         spec_drafts_total := pick metrics [''llamacpp:spec_decode_num_drafts_total''],
         spec_draft_tokens := pick metrics [''llamacpp:spec_decode_num_draft_tokens_total''],
         spec_accepted_tokens := pick metrics [''llamacpp:spec_decode_num_accepted_tokens_total'']\<rparr>
     in if is_some_and (\<lambda>v. Fin 0 < v) (spec_drafts_total stats2) \<or> is_some_and (\<lambda>v. Fin 0 < v) (spec_draft_tokens stats2)
          \<or> is_some_and (\<lambda>v. Fin 0 < v) (spec_accepted_tokens stats2)
        then stats2\<lparr>spec_enabled := True\<rparr> else stats2)"

text \<open>Dropping a baseline that cannot be compared with the new sample.\<close>

definition format_changed :: "LlamaMonitor \<Rightarrow> ParsedMetrics \<Rightarrow> bool" where
  "format_changed m parsed \<longleftrightarrow> last_metrics_format m \<noteq> None \<and> last_metrics_format m \<noteq> pm_format parsed"

definition since_changed :: "LlamaMonitor \<Rightarrow> ParsedMetrics \<Rightarrow> bool" where
  "since_changed m parsed \<longleftrightarrow> pm_format parsed = Some FStrata \<and> pm_strata_since parsed \<noteq> None
     \<and> last_strata_since m \<noteq> None \<and> \<not> opt_f64_eq (pm_strata_since parsed) (last_strata_since m)"

definition reset_baseline :: "LlamaMonitor \<Rightarrow> ParsedMetrics \<Rightarrow> LlamaMonitor" where
  "reset_baseline m parsed = (let
       m1 = (if format_changed m parsed \<or> since_changed m parsed then m\<lparr>previous_metrics := no_counters\<rparr> else m);
       m2 = m1\<lparr>last_metrics_format := pm_format parsed\<rparr>
     in if pm_format parsed = Some FStrata then m2\<lparr>last_strata_since := pm_strata_since parsed\<rparr> else m2)"

definition metric_stage :: "LlamaMonitor \<Rightarrow> LlmStats \<Rightarrow> instant \<Rightarrow> LlamaMonitor \<times> LlmStats \<times> (f64 option \<times> f64 option)" where
  "metric_stage m stats now = (if metrics_available stats then update_metric_counters m stats now
     else (m\<lparr>previous_metrics := no_counters\<rparr>, stats, (None, None)))"

definition slot_stage ::
  "LlamaMonitor \<Rightarrow> SlotCounter list option \<Rightarrow> f64 option \<times> f64 option \<Rightarrow> instant \<Rightarrow> LlamaMonitor \<times> (f64 option \<times> f64 option)" where
  "slot_stage m slots metric_live now = (case slots of
       Some ss \<Rightarrow> (let (m1, slot_live) = update_live_slot_throughput m ss now
         in (m1, choose_live_throughput slot_live metric_live))
     | None \<Rightarrow> (m\<lparr>previous_slots := no_slots\<rparr>, choose_live_throughput (None, None) metric_live))"

definition strata_default :: StrataLive where
  "strata_default = \<lparr>sl_state = None, sl_phase = None, sl_decode_tps = None, sl_request_prompt_tokens = None,
     sl_request_generated = None\<rparr>"

definition strata_stage :: "ParsedMetrics \<Rightarrow> LlmStats \<Rightarrow> LlmStats" where
  "strata_stage parsed stats = (if pm_format parsed \<noteq> Some FStrata then stats else (let
       live = unwrap_or strata_default (pm_strata_live parsed)
     in stats\<lparr>prompt_tps := None, generation_tps := sl_decode_tps live, strata_phase := sl_phase live,
         request_prompt_tokens := opt_or (request_prompt_tokens stats) (sl_request_prompt_tokens live),
         request_generated_tokens := opt_or (request_generated_tokens stats) (sl_request_generated live)\<rparr>))"

text \<open>
  \<^verbatim>\<open>sample\<close> up to and including the slots outcome: the monitor, the parsed metrics, the
  statistics so far and the slot counters.
\<close>

definition prepare :: "(rstr \<Rightarrow> json option) \<Rightarrow> ('u, 'z) url_api_scheme \<Rightarrow> LlamaMonitor \<Rightarrow> Poll \<Rightarrow>
    LlamaMonitor \<times> ParsedMetrics \<times> LlmStats \<times> SlotCounter list option" where
  "prepare from_str api m0 p = (let
       m1 = (if props_needs_refresh m0 (t_refresh p) then apply_props_result m0 (p_props p) (t_props p) else m0);
       stats1 = seed_stats (props m1);
       (m2, local) = local_spec_config api m1 p;
       stats2 = (case local of Some l \<Rightarrow> apply_local_spec_fallback (props m2) stats1 l | None \<Rightarrow> stats1);
       (stats3, body) = apply_metrics_outcome stats2 (p_metrics p);
       parsed = (case body of Some text \<Rightarrow> parse_metrics_body from_str text | None \<Rightarrow> no_metrics);
       stats4 = apply_parsed body parsed stats3;
       (stats5, slots) = apply_slots_outcome stats4 (p_slots p)
     in (m2, parsed, stats5, slots))"

definition derive :: "Poll \<Rightarrow> LlamaMonitor \<Rightarrow> ParsedMetrics \<Rightarrow> LlmStats \<Rightarrow> SlotCounter list option \<Rightarrow> LlamaMonitor \<times> LlmStats" where
  "derive p m2 parsed stats5 slots = (let
       stats6 = stats5\<lparr>connected := metrics_available stats5 \<or> slots_available stats5\<rparr>;
       stats7 = fill_metric_fields (pm_samples parsed) stats6;
       m3 = reset_baseline m2 parsed;
       (m4, stats8, metric_live) = metric_stage m3 stats7 (t_metrics p);
       (m5, live) = slot_stage m4 slots metric_live (t_slots p);
       stats9 = stats8\<lparr>prompt_tps := fst live, generation_tps := snd live\<rparr>;
       stats10 = strata_stage parsed stats9;
       stats11 = (if model stats10 = [] then stats10\<lparr>model := UNKNOWN_MODEL_LABEL\<rparr> else stats10)
     in (m5, sanitize_error_text stats11))"

definition sample :: "(rstr \<Rightarrow> json option) \<Rightarrow> ('u, 'z) url_api_scheme \<Rightarrow> LlamaMonitor \<Rightarrow> Poll \<Rightarrow> LlamaMonitor \<times> LlmStats" where
  "sample from_str api m p = (case prepare from_str api m p of
     (m2, parsed, stats5, slots) \<Rightarrow> derive p m2 parsed stats5 slots)"

section \<open>Baselines\<close>

text \<open>
  The contract the two counter baselines share.  An observation replaces the baseline whatever it
  was, an empty baseline yields no rate, and a rate is never negative and never a NaN.
\<close>

definition opt_nonneg :: "f64 option \<Rightarrow> bool" where
  "opt_nonneg r = (case r of Some x \<Rightarrow> Fin 0 \<le> x | None \<Rightarrow> True)"

lemma opt_nonneg_simps [simp]: "opt_nonneg None" "opt_nonneg (Some x) = (Fin 0 \<le> x)"
  by (simp_all add: opt_nonneg_def)

locale baseline =
  fixes empty :: 'b
    and store :: "'o \<Rightarrow> instant \<Rightarrow> 'b"
    and rates :: "'b \<Rightarrow> 'o \<Rightarrow> instant \<Rightarrow> f64 option \<times> f64 option"
  assumes empty_rates: "rates empty obs now = (None, None)"
    and rates_nonneg: "now < INSTANT_BOUND \<Longrightarrow> opt_nonneg (fst (rates b obs now)) \<and> opt_nonneg (snd (rates b obs now))"
begin

text \<open>A run of observations and outages; an outage empties the baseline.\<close>

fun run :: "'b \<Rightarrow> ('o \<times> instant) option list \<Rightarrow> (f64 option \<times> f64 option) list" where
  "run b [] = []"
| "run b (None # es) = (None, None) # run empty es"
| "run b (Some (obs, now) # es) = rates b obs now # run (store obs now) es"

lemma run_nonneg:
  "list_all (\<lambda>e. case e of None \<Rightarrow> True | Some (_, now) \<Rightarrow> now < INSTANT_BOUND) es \<Longrightarrow>
   list_all (\<lambda>r. opt_nonneg (fst r) \<and> opt_nonneg (snd r)) (run b es)"
  by (induction b es rule: run.induct) (auto simp: rates_nonneg)

lemma run_append: "run b (es @ [e, e']) = run b (es @ [e]) @ [case e' of None \<Rightarrow> (None, None)
    | Some (obs', now') \<Rightarrow> (case e of None \<Rightarrow> (None, None) | Some (obs, now) \<Rightarrow> rates (store obs now) obs' now')]"
proof (induction b es rule: run.induct)
  case (1 b)
  show ?case by (cases e; cases e') (auto simp: empty_rates)
qed auto

lemma run_first: "run empty (Some (obs, now) # es) = (None, None) # run (store obs now) es"
  by (simp add: empty_rates)

text \<open>A rate rests on the two last events only, and an outage before it leaves none.\<close>

lemma last_rate: "last (run b (es @ [e, e'])) = last (run b' (es' @ [e, e']))"
  unfolding run_append by simp

lemma rate_after_outage: "last (run b (es @ [None, e'])) = (None, None)"
  unfolding run_append by (simp split: option.split)

end

definition slot_rates :: "PreviousSlotCounters \<Rightarrow> SlotCounter list \<Rightarrow> instant \<Rightarrow> f64 option \<times> f64 option" where
  "slot_rates prev slots now = (case ps_at prev of
       Some t0 \<Rightarrow> slot_delta_tps (ps_slots prev) slots (as_secs_f64 (now - t0)) | None \<Rightarrow> (None, None))"

definition slot_baseline :: "SlotCounter list \<Rightarrow> instant \<Rightarrow> PreviousSlotCounters" where
  "slot_baseline slots now = \<lparr>ps_at = Some now, ps_slots = slots\<rparr>"

lemma update_live_slot_throughput_eq:
  "update_live_slot_throughput m slots now =
     (m\<lparr>previous_slots := slot_baseline slots now\<rparr>, slot_rates (previous_slots m) slots now)"
  by (simp add: update_live_slot_throughput_def slot_baseline_def slot_rates_def)

lemma finite_pos: "is_finite x \<Longrightarrow> Fin 0 < x \<Longrightarrow> \<exists>b > 0. x = Fin b"
  by (cases x) auto

lemma counter_rate_nonneg:
  assumes "is_finite seconds" "Fin 0 < seconds"
  shows "opt_nonneg (counter_rate c p seconds)"
proof -
  obtain b where "0 < b" "seconds = Fin b" using finite_pos [OF assms] by blast
  then show ?thesis
    by (auto simp: counter_rate_def counter_delta_opt_def split: option.splits intro!: fdiv_nonneg fsub_self_nonneg)
qed

lemma dim_spec_nonneg: "is_finite seconds \<Longrightarrow> Fin 0 < seconds \<Longrightarrow> opt_nonneg (dim_spec previous current f seconds)"
  by (auto simp: dim_spec_def dest!: finite_pos intro!: fdiv_nonneg)

interpretation mb: baseline no_counters baseline_of metric_rates
proof
  show "metric_rates no_counters obs now = (None, None)" for obs now
    by (simp add: metric_rates_def no_counters_def)
  show "now < INSTANT_BOUND \<Longrightarrow> opt_nonneg (fst (metric_rates b obs now)) \<and> opt_nonneg (snd (metric_rates b obs now))" for b obs now
    by (auto simp: metric_rates_def Let_def as_secs_f64_finite intro!: counter_rate_nonneg split: option.split)
qed

interpretation sb: baseline no_slots slot_baseline slot_rates
proof
  show "slot_rates no_slots obs now = (None, None)" for obs now
    by (simp add: slot_rates_def no_slots_def)
  show "now < INSTANT_BOUND \<Longrightarrow> opt_nonneg (fst (slot_rates b obs now)) \<and> opt_nonneg (snd (slot_rates b obs now))" for b obs now
    by (auto simp: slot_rates_def slot_delta_tps_eq intro!: dim_spec_nonneg split: option.split)
qed

section \<open>What a sample shows\<close>

text \<open>Frames of the stages.\<close>

lemma apply_slots_json_frame [frame_simps]:
  "metrics_available (fst (apply_slots_json st v)) = metrics_available st"
  "backend (fst (apply_slots_json st v)) = backend st"
  "prompt_tps (fst (apply_slots_json st v)) = prompt_tps st" "generation_tps (fst (apply_slots_json st v)) = generation_tps st"
  by (simp_all add: apply_slots_json_def slots_finish_def Let_def split: option.split prod.split)

lemma apply_slots_outcome_frame [frame_simps]:
  "metrics_available (fst (apply_slots_outcome st out)) = metrics_available st"
  "backend (fst (apply_slots_outcome st out)) = backend st"
  using apply_slots_json_frame
  by (auto simp: apply_slots_outcome_def split: JsonOutcome.split prod.split sum.split) (metis fst_conv)+

lemma fill_metric_fields_frame [frame_simps]:
  "metrics_available (fill_metric_fields ss st) = metrics_available st"
  "slots_available (fill_metric_fields ss st) = slots_available st"
  "connected (fill_metric_fields ss st) = connected st"
  "busy_slots (fill_metric_fields ss st) = busy_slots st" "slot_count (fill_metric_fields ss st) = slot_count st"
  "slot_overview (fill_metric_fields ss st) = slot_overview st" "context_used (fill_metric_fields ss st) = context_used st"
  "context_slot_id (fill_metric_fields ss st) = context_slot_id st"
  by (simp_all add: fill_metric_fields_def Let_def)

lemma update_acceptance_frame [frame_simps]:
  "previous_metrics (fst (update_acceptance m st now)) = previous_metrics m"
  "previous_slots (fst (update_acceptance m st now)) = previous_slots m"
  "metrics_available (snd (update_acceptance m st now)) = metrics_available st"
  "slots_available (snd (update_acceptance m st now)) = slots_available st"
  "connected (snd (update_acceptance m st now)) = connected st"
  "busy_slots (snd (update_acceptance m st now)) = busy_slots st" "slot_count (snd (update_acceptance m st now)) = slot_count st"
  "slot_overview (snd (update_acceptance m st now)) = slot_overview st"
  "context_used (snd (update_acceptance m st now)) = context_used st"
  "context_slot_id (snd (update_acceptance m st now)) = context_slot_id st"
  "prompt_total (snd (update_acceptance m st now)) = prompt_total st"
  "generated_total (snd (update_acceptance m st now)) = generated_total st"
  "spec_draft_tokens (snd (update_acceptance m st now)) = spec_draft_tokens st"
  "spec_accepted_tokens (snd (update_acceptance m st now)) = spec_accepted_tokens st"
  by (simp_all add: update_acceptance_def split: option.split)

text \<open>\<^verbatim>\<open>update_metric_counters\<close> through the baseline contract.\<close>

lemma update_metric_counters_eq:
  "update_metric_counters m st now = (fst (update_acceptance m st now)\<lparr>previous_metrics := baseline_of st now\<rparr>,
     snd (update_acceptance m st now), metric_rates (previous_metrics m) st now)"
  by (simp add: update_metric_counters_def Let_def case_prod_unfold baseline_of_def frame_simps)

lemma metric_stage_frame [frame_simps]:
  "metrics_available (fst (snd (metric_stage m st now))) = metrics_available st"
  "slots_available (fst (snd (metric_stage m st now))) = slots_available st"
  "connected (fst (snd (metric_stage m st now))) = connected st"
  "busy_slots (fst (snd (metric_stage m st now))) = busy_slots st"
  "slot_count (fst (snd (metric_stage m st now))) = slot_count st"
  "slot_overview (fst (snd (metric_stage m st now))) = slot_overview st"
  "context_used (fst (snd (metric_stage m st now))) = context_used st"
  "previous_slots (fst (metric_stage m st now)) = previous_slots m"
  by (simp_all add: metric_stage_def update_metric_counters_eq frame_simps)

lemma strata_stage_frame [frame_simps]:
  "metrics_available (strata_stage q st) = metrics_available st" "slots_available (strata_stage q st) = slots_available st"
  "connected (strata_stage q st) = connected st" "busy_slots (strata_stage q st) = busy_slots st"
  "slot_count (strata_stage q st) = slot_count st" "slot_overview (strata_stage q st) = slot_overview st"
  "context_used (strata_stage q st) = context_used st" "backend (strata_stage q st) = backend st"
  by (simp_all add: strata_stage_def Let_def)

lemma sanitize_error_text_frame [frame_simps]:
  "metrics_available (sanitize_error_text st) = metrics_available st" "slots_available (sanitize_error_text st) = slots_available st"
  "connected (sanitize_error_text st) = connected st" "busy_slots (sanitize_error_text st) = busy_slots st"
  "slot_count (sanitize_error_text st) = slot_count st" "slot_overview (sanitize_error_text st) = slot_overview st"
  "context_used (sanitize_error_text st) = context_used st" "backend (sanitize_error_text st) = backend st"
  "prompt_tps (sanitize_error_text st) = prompt_tps st" "generation_tps (sanitize_error_text st) = generation_tps st"
  "model (sanitize_error_text st) = model st"
  by (simp_all add: sanitize_error_text_def)

lemma derive_frame:
  "metrics_available (snd (derive p m q st ss)) = metrics_available st"
  "slots_available (snd (derive p m q st ss)) = slots_available st"
  "connected (snd (derive p m q st ss)) = (metrics_available st \<or> slots_available st)"
  "busy_slots (snd (derive p m q st ss)) = busy_slots st" "slot_count (snd (derive p m q st ss)) = slot_count st"
  "slot_overview (snd (derive p m q st ss)) = slot_overview st" "context_used (snd (derive p m q st ss)) = context_used st"
  by (simp_all add: derive_def Let_def case_prod_unfold frame_simps)

lemma local_fallback_frame [frame_simps]:
  "slots_available (apply_local_spec_fallback c st l) = slots_available st"
  "busy_slots (apply_local_spec_fallback c st l) = busy_slots st" "slot_count (apply_local_spec_fallback c st l) = slot_count st"
  "slot_overview (apply_local_spec_fallback c st l) = slot_overview st"
  "context_used (apply_local_spec_fallback c st l) = context_used st"
  "model (apply_local_spec_fallback c st l) = model st"
  by (simp_all add: apply_local_spec_fallback_def Let_def)

lemma apply_metrics_outcome_frame [frame_simps]:
  "slots_available (fst (apply_metrics_outcome st out)) = slots_available st"
  "busy_slots (fst (apply_metrics_outcome st out)) = busy_slots st"
  "slot_count (fst (apply_metrics_outcome st out)) = slot_count st"
  "slot_overview (fst (apply_metrics_outcome st out)) = slot_overview st"
  "context_used (fst (apply_metrics_outcome st out)) = context_used st"
  "model (fst (apply_metrics_outcome st out)) = model st"
  by (simp_all add: apply_metrics_outcome_def split: MetricsOutcome.split)

lemma apply_parsed_frame [frame_simps]:
  "slots_available (apply_parsed b q st) = slots_available st" "busy_slots (apply_parsed b q st) = busy_slots st"
  "slot_count (apply_parsed b q st) = slot_count st" "slot_overview (apply_parsed b q st) = slot_overview st"
  "context_used (apply_parsed b q st) = context_used st" "model (apply_parsed b q st) = model st"
  by (simp_all add: apply_parsed_def Let_def split: option.split)

lemma apply_parsed_available:
  "metrics_available (apply_parsed b q st) = (case pm_format q of Some FStrata \<Rightarrow> True
     | Some FPrometheus \<Rightarrow> b \<noteq> None \<and> pm_samples q \<noteq> [] | None \<Rightarrow> False)"
  "backend (apply_parsed b q st) = classify_backend (pm_format q) (pm_samples q)"
  by (simp_all add: apply_parsed_def Let_def split: option.split MetricsFormat.split)

lemma local_spec_config_frame [frame_simps]:
  "previous_metrics (fst (local_spec_config api m p)) = previous_metrics m"
  "previous_slots (fst (local_spec_config api m p)) = previous_slots m" "props (fst (local_spec_config api m p)) = props m"
  by (simp_all add: local_spec_config_def Let_def)

lemma apply_props_result_frame [frame_simps]:
  "previous_metrics (apply_props_result m out now) = previous_metrics m"
  "previous_slots (apply_props_result m out now) = previous_slots m"
  by (simp_all add: apply_props_result_def split: JsonOutcome.split)

text \<open>The statistics before the slots outcome, and the parsed body.\<close>

definition early_stats :: "(rstr \<Rightarrow> json option) \<Rightarrow> ('u, 'z) url_api_scheme \<Rightarrow> LlamaMonitor \<Rightarrow> Poll \<Rightarrow> LlmStats" where
  "early_stats from_str api m0 p = (let
       m1 = (if props_needs_refresh m0 (t_refresh p) then apply_props_result m0 (p_props p) (t_props p) else m0);
       (m2, local) = local_spec_config api m1 p;
       stats2 = (case local of Some l \<Rightarrow> apply_local_spec_fallback (props m2) (seed_stats (props m1)) l
         | None \<Rightarrow> seed_stats (props m1))
     in stats2)"

definition body_of :: "MetricsOutcome \<Rightarrow> rstr option" where
  "body_of out = (case out of MOk b \<Rightarrow> Some b | _ \<Rightarrow> None)"

definition parsed_of :: "(rstr \<Rightarrow> json option) \<Rightarrow> MetricsOutcome \<Rightarrow> ParsedMetrics" where
  "parsed_of from_str out = (case body_of out of Some b \<Rightarrow> parse_metrics_body from_str b | None \<Rightarrow> no_metrics)"

lemma apply_metrics_outcome_body: "snd (apply_metrics_outcome st out) = body_of out"
  by (simp add: apply_metrics_outcome_def body_of_def split: MetricsOutcome.split)

lemma prepare_eq:
  "\<exists>m2. prepare from_str api m p = (m2, parsed_of from_str (p_metrics p),
       apply_slots_outcome (apply_parsed (body_of (p_metrics p)) (parsed_of from_str (p_metrics p))
         (fst (apply_metrics_outcome (early_stats from_str api m p) (p_metrics p)))) (p_slots p))
     \<and> previous_metrics m2 = previous_metrics m \<and> previous_slots m2 = previous_slots m"
  by (simp add: prepare_def early_stats_def parsed_of_def Let_def case_prod_unfold apply_metrics_outcome_body frame_simps
      split: option.split)

lemma early_stats_slots:
  "\<not> slots_available (early_stats from_str api m p)" "busy_slots (early_stats from_str api m p) = 0"
  "slot_count (early_stats from_str api m p) = 0" "slot_overview (early_stats from_str api m p) = []"
  "context_used (early_stats from_str api m p) = None"
  by (simp_all add: early_stats_def Let_def case_prod_unfold frame_simps seed_stats_def LlmStats_default_def split: option.split)

lemma parsed_of_samples:
  "pm_format (parsed_of f out) = None \<Longrightarrow> pm_samples (parsed_of f out) = []"
  "pm_format (parsed_of f out) = Some FPrometheus \<Longrightarrow> body_of out \<noteq> None"
  by (auto simp: parsed_of_def no_metrics_def parse_metrics_body_def Let_def split: option.splits if_splits)

text \<open>One poll, opened: the state it derives from and the statistics the slots left.\<close>

lemma sample_parts:
  obtains m2 st ss where
    "sample f api m p = derive p m2 (parsed_of f (p_metrics p)) st ss"
    "previous_metrics m2 = previous_metrics m" "previous_slots m2 = previous_slots m"
    "(st, ss) = apply_slots_outcome (apply_parsed (body_of (p_metrics p)) (parsed_of f (p_metrics p))
         (fst (apply_metrics_outcome (early_stats f api m p) (p_metrics p)))) (p_slots p)"
    "backend st = classify_backend (pm_format (parsed_of f (p_metrics p))) (pm_samples (parsed_of f (p_metrics p)))"
    "metrics_available st = (pm_format (parsed_of f (p_metrics p)) = Some FStrata \<or> pm_samples (parsed_of f (p_metrics p)) \<noteq> [])"
proof -
  let ?q = "parsed_of f (p_metrics p)"
  let ?st0 = "apply_parsed (body_of (p_metrics p)) ?q (fst (apply_metrics_outcome (early_stats f api m p) (p_metrics p)))"
  obtain m2 where m2: "prepare f api m p = (m2, ?q, apply_slots_outcome ?st0 (p_slots p))"
    "previous_metrics m2 = previous_metrics m" "previous_slots m2 = previous_slots m"
    using prepare_eq by blast
  have "backend ?st0 = classify_backend (pm_format ?q) (pm_samples ?q)"
    "metrics_available ?st0 = (pm_format ?q = Some FStrata \<or> pm_samples ?q \<noteq> [])"
    using parsed_of_samples [of f "p_metrics p"]
    by (auto simp: apply_parsed_available split: option.split MetricsFormat.split)
  then show ?thesis
    using m2 that [of m2 "fst (apply_slots_outcome ?st0 (p_slots p))" "snd (apply_slots_outcome ?st0 (p_slots p))"]
    by (simp add: sample_def frame_simps split: prod.splits)
qed

lemma backend_Strata: "classify_backend fmt samples = Strata \<longleftrightarrow> fmt = Some FStrata"
  by (simp add: classify_backend_def split: option.split MetricsFormat.split)

lemma fill_metric_fields_backend [frame_simps]: "backend (fill_metric_fields ss st) = backend st"
  by (simp add: fill_metric_fields_def Let_def)

lemma update_acceptance_backend [frame_simps]: "backend (snd (update_acceptance m st now)) = backend st"
  by (simp add: update_acceptance_def split: option.split)

lemma metric_stage_backend [frame_simps]: "backend (fst (snd (metric_stage m st now))) = backend st"
  by (simp add: metric_stage_def update_metric_counters_eq frame_simps)

lemma derive_backend: "backend (snd (derive p m q st ss)) = backend st"
  by (simp add: derive_def Let_def case_prod_unfold frame_simps)

text \<open>The live rates of a poll that no Strata body decides.\<close>

definition metric_live_of :: "Poll \<Rightarrow> LlamaMonitor \<Rightarrow> ParsedMetrics \<Rightarrow> LlmStats \<Rightarrow> f64 option \<times> f64 option" where
  "metric_live_of p m q st = (if metrics_available st
     then metric_rates (previous_metrics (reset_baseline m q))
       (fill_metric_fields (pm_samples q) (st\<lparr>connected := metrics_available st \<or> slots_available st\<rparr>)) (t_metrics p)
     else (None, None))"

definition slot_live_of :: "Poll \<Rightarrow> LlamaMonitor \<Rightarrow> SlotCounter list option \<Rightarrow> f64 option \<times> f64 option" where
  "slot_live_of p m ss = (case ss of Some xs \<Rightarrow> slot_rates (previous_slots m) xs (t_slots p) | None \<Rightarrow> (None, None))"

lemma reset_baseline_frame [frame_simps]: "previous_slots (reset_baseline m q) = previous_slots m"
  by (simp add: reset_baseline_def Let_def)

lemma derive_rates:
  assumes "pm_format q \<noteq> Some FStrata"
  shows "(prompt_tps (snd (derive p m q st ss)), generation_tps (snd (derive p m q st ss))) =
    choose_live_throughput (slot_live_of p m ss) (metric_live_of p m q st)"
  using assms
  by (simp add: derive_def Let_def case_prod_unfold strata_stage_def frame_simps slot_stage_def
      update_live_slot_throughput_eq slot_live_of_def metric_live_of_def metric_stage_def update_metric_counters_eq
      split: option.split)

lemma choose_nonneg:
  "opt_nonneg (fst a) \<Longrightarrow> opt_nonneg (snd a) \<Longrightarrow> opt_nonneg (fst b) \<Longrightarrow> opt_nonneg (snd b) \<Longrightarrow>
   opt_nonneg (fst (choose_live_throughput a b)) \<and> opt_nonneg (snd (choose_live_throughput a b))"
  by (cases "fst a"; cases "snd a") (simp_all add: choose_live_throughput_def opt_or_def)

text \<open>
  C5: A live rate is never negative and never a NaN, in any state and for any answers of the server,
  unless a Strata server reports it itself: the two baselines only ever yield a non-negative
  advance over a positive time.
\<close>

theorem sample_rates_nonneg:
  assumes "sample f api m p = (m', s)" and "backend s \<noteq> Strata"
    and "t_metrics p < INSTANT_BOUND" "t_slots p < INSTANT_BOUND"
  shows "opt_nonneg (prompt_tps s) \<and> opt_nonneg (generation_tps s)"
proof -
  obtain m2 st ss where parts: "sample f api m p = derive p m2 (parsed_of f (p_metrics p)) st ss"
    "backend st = classify_backend (pm_format (parsed_of f (p_metrics p))) (pm_samples (parsed_of f (p_metrics p)))"
    by (rule sample_parts)
  have s: "s = snd (derive p m2 (parsed_of f (p_metrics p)) st ss)" using parts(1) assms(1) by (metis snd_conv)
  then have "pm_format (parsed_of f (p_metrics p)) \<noteq> Some FStrata"
    using assms(2) parts(2) by (metis derive_backend backend_Strata)
  then have r: "(prompt_tps s, generation_tps s) =
      choose_live_throughput (slot_live_of p m2 ss) (metric_live_of p m2 (parsed_of f (p_metrics p)) st)"
    unfolding s by (rule derive_rates)
  have "opt_nonneg (fst (slot_live_of p m2 ss)) \<and> opt_nonneg (snd (slot_live_of p m2 ss))"
    using sb.rates_nonneg [OF assms(4)] by (simp add: slot_live_of_def split: option.split)
  moreover have "opt_nonneg (fst (metric_live_of p m2 (parsed_of f (p_metrics p)) st))
      \<and> opt_nonneg (snd (metric_live_of p m2 (parsed_of f (p_metrics p)) st))"
    using mb.rates_nonneg [OF assms(3)] by (simp add: metric_live_of_def)
  ultimately show ?thesis using choose_nonneg r by (metis fst_conv snd_conv)
qed

lemma slots_outcome_None:
  assumes "\<not> slots_available st" "(st, ss) = apply_slots_outcome st0 out"
  shows "ss = None"
proof (cases out)
  case (JOk v)
  show ?thesis
  proof (cases "as_array v")
    case None
    then show ?thesis using assms(2) JOk by (simp add: apply_slots_outcome_def apply_slots_json_def)
  next
    case (Some slots)
    then have v: "v = JArray slots" by (cases v) auto
    obtain new r where nr: "apply_slots_json st0 v = (new, r)" by (cases "apply_slots_json st0 v")
    then have "slots_available new" "\<exists>cs. r = Inr cs" using slots_ok [of st0 slots] by (auto simp: v)
    then show ?thesis using assms JOk nr by (auto simp: apply_slots_outcome_def)
  qed
qed (use assms in \<open>simp_all add: apply_slots_outcome_def\<close>)

text \<open>A poll whose metrics are unreachable and whose slots answer with an empty array.\<close>

definition outage_poll :: Poll where
  "outage_poll = \<lparr>p_props = JUnreachable (lit ''refused''), p_metrics = MUnreachable (lit ''refused''),
     p_slots = JOk (JArray []), p_procs = None, t_refresh = secs 1, t_props = secs 1, t_spec_due = secs 1,
     t_spec_set = secs 1, t_metrics = secs 1, t_slots = secs 1\<rparr>"

theorem sample_rates_nonneg_witness:
  "opt_nonneg (prompt_tps (snd (sample (\<lambda>_. None) sample_urls (LlamaMonitor_new (lit ''http://h/'')) outage_poll)))
   \<and> opt_nonneg (generation_tps (snd (sample (\<lambda>_. None) sample_urls (LlamaMonitor_new (lit ''http://h/'')) outage_poll)))"
proof (rule sample_rates_nonneg [OF prod.collapse [symmetric]])
  show "backend (snd (sample (\<lambda>_. None) sample_urls (LlamaMonitor_new (lit ''http://h/'')) outage_poll)) \<noteq> Strata"
    by code_simp
  show "t_metrics outage_poll < INSTANT_BOUND" "t_slots outage_poll < INSTANT_BOUND"
    by (simp_all add: outage_poll_def INSTANT_BOUND_def)
qed


lemma slot_fields_cong:
  "slots_available a = slots_available b \<Longrightarrow> slot_count a = slot_count b \<Longrightarrow> busy_slots a = busy_slots b \<Longrightarrow>
   slot_overview a = slot_overview b \<Longrightarrow> context_used a = context_used b \<Longrightarrow> slot_fields a = slot_fields b"
  by (simp add: slot_fields_def)

lemma slots_outcome_fields:
  assumes "slot_fields a = slot_fields b"
  shows "slot_fields (fst (apply_slots_outcome a out)) = slot_fields (fst (apply_slots_outcome b out))"
proof (cases out)
  case (JOk v)
  show ?thesis
  proof (cases "as_array v")
    case None
    then show ?thesis using assms JOk by (simp add: apply_slots_outcome_def apply_slots_json_def slot_fields_def)
  next
    case (Some js)
    then have v: "v = JArray js" by (cases v) auto
    have f: "fst (apply_slots_outcome st out) = fst (apply_slots_json st (JArray js))" for st
      using slots_ok [of st js] JOk v by (auto simp: apply_slots_outcome_def split: prod.split)
    show ?thesis unfolding f by (rule slot_fields_indep)
  qed
qed (use assms in \<open>simp_all add: apply_slots_outcome_def slot_fields_def\<close>)

text \<open>
  A failing or disabled metrics endpoint never hides a healthy slots endpoint: what a sample
  reports of the slots is a function of the slots answer alone, whatever the state of the
  monitor, the other two answers and the clock.
\<close>

theorem sample_slots_independent:
  assumes "p_slots p = p_slots p'"
  shows "slot_fields (snd (sample f api m p)) = slot_fields (snd (sample f' api' m' p'))"
proof -
  have sl: "slot_fields (snd (sample g a n q)) = slot_fields (fst (apply_slots_outcome LlmStats_default (p_slots q)))"
    for g and a :: "('x, 'y) url_api_scheme" and n q
  proof -
    obtain m2 st ss where parts: "sample g a n q = derive q m2 (parsed_of g (p_metrics q)) st ss"
      "(st, ss) = apply_slots_outcome (apply_parsed (body_of (p_metrics q)) (parsed_of g (p_metrics q))
         (fst (apply_metrics_outcome (early_stats g a n q) (p_metrics q)))) (p_slots q)"
      by (rule sample_parts)
    have "slot_fields (snd (sample g a n q)) = slot_fields st" by (simp add: parts(1) slot_fields_def derive_frame)
    also have "st = fst (apply_slots_outcome (apply_parsed (body_of (p_metrics q)) (parsed_of g (p_metrics q))
         (fst (apply_metrics_outcome (early_stats g a n q) (p_metrics q)))) (p_slots q))"
      using parts(2) by (metis fst_conv)
    also have "slot_fields \<dots> = slot_fields (fst (apply_slots_outcome LlmStats_default (p_slots q)))"
      by (rule slots_outcome_fields)
        (simp add: slot_fields_def frame_simps early_stats_slots, simp add: LlmStats_default_def)
    finally show ?thesis .
  qed
  show ?thesis unfolding sl assms ..
qed

theorem sample_slots_independent_witness:
  "slot_fields (snd (sample (\<lambda>_. None) sample_urls (LlamaMonitor_new (lit ''http://h/'')) outage_poll))
   = slot_fields (snd (sample (\<lambda>_. None) sample_urls (LlamaMonitor_new (lit ''http://h/''))
       (outage_poll\<lparr>p_metrics := MOk (lit ''llamacpp:prompt_tokens_total 4'')\<rparr>)))"
  by (rule sample_slots_independent) simp

definition metric_fields :: "LlmStats \<Rightarrow> f64 option list" where
  "metric_fields s = [prompt_total s, prompt_cached_total s, generated_total s, prompt_seconds_total s,
     generation_seconds_total s, prompt_avg_tps s, generation_avg_tps s, active_requests s, deferred_requests s,
     spec_drafts_total s, spec_draft_tokens s, spec_accepted_tokens s]"

lemma metric_fields_update [frame_simps]:
  "metric_fields (snd (update_acceptance m st now)) = metric_fields st"
  "metric_fields (fst (snd (metric_stage m st now))) = metric_fields st"
  "metric_fields (strata_stage q st) = metric_fields st" "metric_fields (sanitize_error_text st) = metric_fields st"
  by (simp_all add: metric_fields_def metric_stage_def update_metric_counters_eq update_acceptance_def strata_stage_def
      sanitize_error_text_def Let_def split: option.split)

lemma metric_fields_connected:
  "metric_fields (st\<lparr>prompt_tps := a, generation_tps := b\<rparr>) = metric_fields st"
  "metric_fields (st\<lparr>model := c\<rparr>) = metric_fields st"
  by (simp_all add: metric_fields_def)

lemma fill_no_metrics: "metric_fields (fill_metric_fields [] st) = replicate 12 None"
  by (simp add: metric_fields_def fill_metric_fields_def Let_def pick_def average_over_seconds_def opt_or_def
      numeral_eq_Suc)

text \<open>
  Nothing is fabricated: when the metrics are unavailable, every field that only the metrics can
  supply is absent, and the server counts as connected exactly when one of the two endpoints
  answered.
\<close>

theorem sample_metrics_unavailable:
  "let s = snd (sample f api m p) in
     (connected s \<longleftrightarrow> metrics_available s \<or> slots_available s)
   \<and> (metrics_available s \<or> metric_fields s = replicate 12 None)"
proof -
  obtain m2 st ss where parts: "sample f api m p = derive p m2 (parsed_of f (p_metrics p)) st ss"
    "metrics_available st = (pm_format (parsed_of f (p_metrics p)) = Some FStrata \<or> pm_samples (parsed_of f (p_metrics p)) \<noteq> [])"
    by (rule sample_parts)
  have d: "metric_fields (snd (derive p m2 q st ss)) =
      metric_fields (fill_metric_fields (pm_samples q) (st\<lparr>connected := metrics_available st \<or> slots_available st\<rparr>))" for q
    by (simp add: derive_def Let_def case_prod_unfold frame_simps metric_fields_connected)
  show ?thesis
  proof (cases "metrics_available st")
    case False
    then have "pm_samples (parsed_of f (p_metrics p)) = []" using parts(2) by simp
    then show ?thesis using d [of "parsed_of f (p_metrics p)"] parts(1) fill_no_metrics by (simp add: Let_def derive_frame)
  qed (use parts(1) in \<open>simp add: Let_def derive_frame\<close>)
qed

text \<open>
  The refresh window of the cached properties: after a failed refresh the next poll retries
  whatever the time, and after a successful one exactly when thirty seconds have passed; a failure
  keeps what was cached.
\<close>

theorem props_refresh_window:
  "(props_needs_refresh (apply_props_result m out now) t \<longleftrightarrow>
      (case out of JOk _ \<Rightarrow> PROPS_REFRESH \<le> t - now | _ \<Rightarrow> True))
   \<and> ((\<exists>v. out = JOk v) \<or> props (apply_props_result m out now) = props m)"
  by (cases out) (simp_all add: props_needs_refresh_def apply_props_result_def apply_props_json_def apply_spec_def Let_def
      split: option.split)

text \<open>The advance of non-negative finite counters is finite.\<close>

lemma counter_delta_nonneg:
  assumes "counter_delta_opt n b = Some d" "Fin 0 \<le> b" "f64_ok n"
  shows "(\<exists>x. d = Fin x \<and> 0 \<le> x) \<and> (Fin 0 < d \<longrightarrow> b < n)"
proof -
  obtain x y where xy: "n = Fin x" "b = Fin y" "y \<le> x" "d = fsub (Fin x) (Fin y)"
    using assms(1) by (auto simp: counter_delta_opt_def is_finite_iff split: if_splits)
  then show ?thesis using assms(2,3) fsub_finite [of x y] fsub_pos_less [of x y] by simp
qed

text \<open>
  The speculative acceptance is a percentage: for counters that are not negative it lies between
  0 and 100, and it is derived only from a growth of the draft counter.
\<close>

theorem acceptance_percent:
  assumes "acceptance prev stats = Some a"
    and "is_some_and (\<lambda>d. Fin 0 \<le> d) (pc_draft_total prev)" "is_some_and (\<lambda>d. Fin 0 \<le> d) (pc_accepted_total prev)"
    and "is_some_and f64_ok (spec_draft_tokens stats)" "is_some_and f64_ok (spec_accepted_tokens stats)"
  shows "Fin 0 \<le> a \<and> a \<le> Fin 100
    \<and> (case (spec_draft_tokens stats, pc_draft_total prev) of (Some n, Some b) \<Rightarrow> b < n | _ \<Rightarrow> False)"
proof -
  obtain d e where de: "opt_filter (\<lambda>d. Fin 0 < d) (counter_delta2 (spec_draft_tokens stats) (pc_draft_total prev)) = Some d"
    "counter_delta2 (spec_accepted_tokens stats) (pc_accepted_total prev) = Some e"
    "a = fclamp (Fin 0) (Fin 100) (fmul (fdiv e d) (Fin 100))"
    using assms(1) by (auto simp: acceptance_def Let_def split: option.splits)
  obtain n b where nb: "spec_draft_tokens stats = Some n" "pc_draft_total prev = Some b" "counter_delta_opt n b = Some d" "Fin 0 < d"
    using de(1) by (auto simp: opt_filter_def counter_delta2_def split: option.splits if_splits)
  obtain k l where kl: "spec_accepted_tokens stats = Some k" "pc_accepted_total prev = Some l" "counter_delta_opt k l = Some e"
    using de(2) by (auto simp: counter_delta2_def split: option.splits)
  have d: "\<exists>x. d = Fin x \<and> 0 < x" "b < n"
    using counter_delta_nonneg [OF nb(3)] nb assms(2,4) by (auto simp: is_some_and_def)
  have e: "\<exists>x. e = Fin x \<and> 0 \<le> x" using counter_delta_nonneg [OF kl(3)] kl assms(3,5) by (simp add: is_some_and_def)
  have "Fin 0 \<le> fmul (fdiv e d) (Fin 100)" using d(1) e by (auto intro!: fmul_nonneg fdiv_nonneg)
  then have "Fin 0 \<le> a \<and> a \<le> Fin 100" unfolding de(3) by (intro fclamp_in_range nonneg_not_NaN) simp_all
  then show ?thesis using nb d(2) by simp
qed

theorem acceptance_percent_witness:
  "Fin 0 \<le> Fin 50 \<and> Fin 50 \<le> Fin 100 \<and> Fin 2 < Fin 6"
proof -
  let ?prev = "no_counters\<lparr>pc_draft_total := Some (Fin 2), pc_accepted_total := Some (Fin 1)\<rparr>"
  let ?stats = "LlmStats_default\<lparr>spec_draft_tokens := Some (Fin 6), spec_accepted_tokens := Some (Fin 3)\<rparr>"
  have half: "rnd (1 / 2) = Fin (1 / 2)" by (rule rnd_dyadic [of _ 1 1]) simp_all
  have "acceptance ?prev ?stats = Some (Fin 50)"
    by (simp add: acceptance_def counter_delta2_def counter_delta_opt_def opt_filter_def half fclamp_def)
  then show ?thesis
    using acceptance_percent [of ?prev ?stats "Fin 50"] by (simp add: is_some_and_def f64_ok_def)
qed

section \<open>Text\<close>

text \<open>Text safe to display, within the bound and one ellipsis.\<close>

definition safe_text :: "nat \<Rightarrow> rstr \<Rightarrow> bool" where
  "safe_text n s \<longleftrightarrow> list_all (\<lambda>c. \<not> is_ctl c \<and> (is_ws c \<longrightarrow> c = 32)) s \<and> length s \<le> n + 1"

lemma safe_text_sanitize: "safe_text n (sanitize_display_text s n)"
  using sanitize_display_text_safe [of s n] by (auto simp: safe_text_def list_all_iff)

definition model_safe :: "LlamaMonitor \<Rightarrow> bool" where
  "model_safe m \<longleftrightarrow> safe_text MAX_MODEL_DISPLAY_CHARS (cp_model (props m))"

lemma apply_props_result_safe [inv_intros]: "model_safe m \<Longrightarrow> model_safe (apply_props_result m out now)"
  by (auto simp: model_safe_def apply_props_result_def apply_props_json_def apply_spec_def Let_def opt_filter_def
      model_display_name_def safe_text_sanitize split: JsonOutcome.split option.split)

fun monitor_run :: "(rstr \<Rightarrow> json option) \<Rightarrow> ('u, 'z) url_api_scheme \<Rightarrow> LlamaMonitor \<Rightarrow> Poll list \<Rightarrow> LlmStats list" where
  "monitor_run f api m [] = []"
| "monitor_run f api m (p # ps) = (let (m', s) = sample f api m p in s # monitor_run f api m' ps)"

lemma model_frame [frame_simps]:
  "model (fst (apply_slots_outcome st out)) = model st" "model (fill_metric_fields ss st) = model st"
  "model (snd (update_acceptance m st now)) = model st" "model (fst (snd (metric_stage m st now))) = model st"
  "model (strata_stage q st) = model st"
  by (simp_all add: apply_slots_outcome_def apply_slots_json_def slots_finish_def fill_metric_fields_def
      update_acceptance_def metric_stage_def update_metric_counters_eq strata_stage_def Let_def
      split: JsonOutcome.split option.split prod.split sum.split)

lemma props_frame [frame_simps]:
  "props (reset_baseline m q) = props m" "props (fst (update_acceptance m st now)) = props m"
  "props (fst (metric_stage m st now)) = props m" "props (fst (slot_stage m ss live now)) = props m"
  by (simp_all add: reset_baseline_def update_acceptance_def metric_stage_def update_metric_counters_eq slot_stage_def
      update_live_slot_throughput_eq Let_def split: option.split)

definition refreshed :: "LlamaMonitor \<Rightarrow> Poll \<Rightarrow> LlamaMonitor" where
  "refreshed m p = (if props_needs_refresh m (t_refresh p) then apply_props_result m (p_props p) (t_props p) else m)"

lemma prepare_model:
  assumes "prepare f api m p = (m2, q, st, ss)"
  shows "model st = cp_model (props (refreshed m p)) \<and> props m2 = props (refreshed m p)"
proof -
  have e: "m2 = fst (prepare f api m p)" "st = fst (snd (snd (prepare f api m p)))" using assms by simp_all
  show ?thesis unfolding e
    by (simp add: prepare_def Let_def case_prod_unfold frame_simps seed_stats_def refreshed_def split: option.split)
qed

lemma sample_model:
  "props (fst (sample f api m p)) = props (refreshed m p)
   \<and> model (snd (sample f api m p)) = (let c = cp_model (props (refreshed m p)) in if c = [] then UNKNOWN_MODEL_LABEL else c)"
proof -
  obtain m2 q st ss where pr: "prepare f api m p = (m2, q, st, ss)" by (cases "prepare f api m p")
  then show ?thesis using prepare_model [OF pr]
    by (simp add: sample_def derive_def Let_def case_prod_unfold frame_simps)
qed

lemma sample_errors_safe:
  "safe_text MAX_UNTRUSTED_DISPLAY_CHARS (error_text (snd (sample f api m p)))
   \<and> safe_text MAX_UNTRUSTED_DISPLAY_CHARS (slots_error (snd (sample f api m p)))"
  by (simp add: sample_def derive_def Let_def case_prod_unfold sanitize_error_text_def safe_text_sanitize)

lemma model_safe_refreshed: "model_safe m \<Longrightarrow> model_safe (refreshed m p)"
  by (simp add: refreshed_def inv_intros)

definition texts_safe :: "LlmStats \<Rightarrow> bool" where
  "texts_safe s \<longleftrightarrow> safe_text MAX_UNTRUSTED_DISPLAY_CHARS (error_text s)
     \<and> safe_text MAX_UNTRUSTED_DISPLAY_CHARS (slots_error s) \<and> safe_text MAX_MODEL_DISPLAY_CHARS (model s)"

lemma unknown_model_safe: "safe_text MAX_MODEL_DISPLAY_CHARS UNKNOWN_MODEL_LABEL"
  by (simp add: safe_text_def UNKNOWN_MODEL_LABEL_def MAX_MODEL_DISPLAY_CHARS_def lit_def is_ctl_def is_ws_def)

lemma monitor_run_safe: "model_safe m \<Longrightarrow> list_all texts_safe (monitor_run f api m ps)"
proof (induction ps arbitrary: m)
  case (Cons p ps)
  have r: "model_safe (refreshed m p)" using Cons.prems by (rule model_safe_refreshed)
  then have "model_safe (fst (sample f api m p))" by (simp add: model_safe_def sample_model)
  moreover have "texts_safe (snd (sample f api m p))"
    using r unknown_model_safe by (simp add: texts_safe_def sample_errors_safe sample_model model_safe_def Let_def)
  ultimately show ?case using Cons.IH by (simp add: Let_def case_prod_unfold)
qed simp

text \<open>
  C11: No server can inject into the terminal: over any sequence of polls of a fresh monitor, whatever
  the answers, the error texts and the model name of every sample are free of control characters
  and bounded in length.
\<close>

theorem monitor_texts_safe: "list_all texts_safe (monitor_run f api (LlamaMonitor_new server) ps)"
  by (rule monitor_run_safe)
    (simp add: model_safe_def LlamaMonitor_new_def CachedProps_default_def safe_text_def)

lemma sample_slots_available:
  "slots_available (snd (sample f api m p)) = (case p_slots p of JOk v \<Rightarrow> as_array v \<noteq> None | _ \<Rightarrow> False)"
proof -
  obtain m2 st ss where parts: "sample f api m p = derive p m2 (parsed_of f (p_metrics p)) st ss"
    "(st, ss) = apply_slots_outcome (apply_parsed (body_of (p_metrics p)) (parsed_of f (p_metrics p))
         (fst (apply_metrics_outcome (early_stats f api m p) (p_metrics p)))) (p_slots p)"
    by (rule sample_parts)
  let ?st0 = "apply_parsed (body_of (p_metrics p)) (parsed_of f (p_metrics p))
         (fst (apply_metrics_outcome (early_stats f api m p) (p_metrics p)))"
  have no: "\<not> slots_available ?st0" by (simp add: frame_simps early_stats_slots)
  have st: "st = fst (apply_slots_outcome ?st0 (p_slots p))" using parts(2) by (metis fst_conv)
  have "slots_available (fst (apply_slots_outcome ?st0 out)) = (case out of JOk v \<Rightarrow> as_array v \<noteq> None | _ \<Rightarrow> False)" for out
    using no by (simp add: apply_slots_outcome_def apply_slots_json_def Let_def slots_finish_fields
        split: JsonOutcome.split option.split)
  then show ?thesis by (simp add: parts(1) derive_frame st)
qed

lemma sample_availability:
  "metrics_available (snd (sample f api m p)) =
     (pm_format (parsed_of f (p_metrics p)) = Some FStrata \<or> pm_samples (parsed_of f (p_metrics p)) \<noteq> [])"
  "backend (snd (sample f api m p)) =
     classify_backend (pm_format (parsed_of f (p_metrics p))) (pm_samples (parsed_of f (p_metrics p)))"
proof -
  obtain m2 st ss where parts: "sample f api m p = derive p m2 (parsed_of f (p_metrics p)) st ss"
    "backend st = classify_backend (pm_format (parsed_of f (p_metrics p))) (pm_samples (parsed_of f (p_metrics p)))"
    "metrics_available st = (pm_format (parsed_of f (p_metrics p)) = Some FStrata \<or> pm_samples (parsed_of f (p_metrics p)) \<noteq> [])"
    by (rule sample_parts)
  then show "metrics_available (snd (sample f api m p)) =
     (pm_format (parsed_of f (p_metrics p)) = Some FStrata \<or> pm_samples (parsed_of f (p_metrics p)) \<noteq> [])"
    "backend (snd (sample f api m p)) =
     classify_backend (pm_format (parsed_of f (p_metrics p))) (pm_samples (parsed_of f (p_metrics p)))"
    by (simp_all add: derive_frame derive_backend)
qed


end
