(* ===== verification/Http.thy ===== *)
theory Http
  imports Monitor
begin

text \<open>
  The requests of a poll, from \<^verbatim>\<open>src/llama/http.rs\<close> and the start of \<^verbatim>\<open>LlamaMonitor::sample\<close> in
  \<^verbatim>\<open>src/llama/monitor.rs\<close>: the URL of an endpoint, the bounded read of a body, its decoding, and the three
  concurrent fetches.  The HTTP client and the connection are third-party code: a request and one read of a
  body are parameters.  The loop that reads a body may not end, so it is a partial function.
\<close>

section \<open>Reading a body\<close>

text \<open>
  One read of a connection of at most so many bytes.  \<^verbatim>\<open>read_to_end\<close> of \<^verbatim>\<open>response.take(limit)\<close>: an exhausted
  limit ends the read without touching the connection, an interruption is retried; \<open>space\<close> is the free
  capacity of the buffer, which grows as the standard library sees fit.
\<close>

datatype ReadResult = ReadBytes "nat list" | ReadInterrupted | ReadError rstr

partial_function (option) read_to_end ::
  "(nat \<Rightarrow> 'c \<Rightarrow> ReadResult \<times> 'c) \<Rightarrow> (nat list \<Rightarrow> nat) \<Rightarrow> nat \<Rightarrow> nat list \<Rightarrow> 'c \<Rightarrow> (rstr + nat list) option" where
  "read_to_end rd space limit buffer c = (if limit = 0 then Some (Inr buffer)
     else (case rd (min (space buffer) limit) c of (res, c') \<Rightarrow> (case res of
         ReadError e \<Rightarrow> Some (Inl e)
       | ReadInterrupted \<Rightarrow> read_to_end rd space limit buffer c'
       | ReadBytes bs \<Rightarrow> if bs = [] then Some (Inr buffer)
           else read_to_end rd space (limit - length bs) (buffer @ bs) c')))"

definition MAX_RESPONSE_BYTES :: u64 where
  "MAX_RESPONSE_BYTES = 4 * 1024 * 1024"

definition body_exceeded :: "u64 \<Rightarrow> rstr" where
  "body_exceeded limit = lit ''response body exceeded '' @ show_word limit @ lit '' bytes''"

definition body_text :: "u64 \<Rightarrow> nat list \<Rightarrow> rstr + rstr" where
  "body_text limit buffer = (if limit < of_nat (length buffer) then Inl (body_exceeded limit)
     else (case from_utf8 buffer of Inl e \<Rightarrow> Inl (utf8_fault_text e) | Inr s \<Rightarrow> Inr s))"

definition read_body_limited ::
  "(nat \<Rightarrow> 'c \<Rightarrow> ReadResult \<times> 'c) \<Rightarrow> (nat list \<Rightarrow> nat) \<Rightarrow> 'c \<Rightarrow> u64 \<Rightarrow> (rstr + rstr) option" where
  "read_body_limited rd space response limit =
     map_option (\<lambda>res. case res of Inl e \<Rightarrow> Inl e | Inr buffer \<Rightarrow> body_text limit buffer)
       (read_to_end rd space (unat (limit + 1)) [] response)"

section \<open>Requests\<close>

definition endpoint_url :: "('u, 'z) url_api_scheme \<Rightarrow> rstr \<Rightarrow> rstr \<Rightarrow> rstr" where
  "endpoint_url api server segment = (case url_parse api server of
       Some url \<Rightarrow> (let path = trim_end_by (\<lambda>c. c = 47) (url_path api url)
         in url_to_string api (url_set_path api (path @ lit ''/'' @ segment) url))
     | None \<Rightarrow> trim_end_by (\<lambda>c. c = 47) server @ lit ''/'' @ segment)"

text \<open>
  A request is answered with a status, the text it is displayed as and a connection to read the body from,
  or fails with the message of the error and those of its causes.  A thread may panic.
\<close>

record 'c Response =
  rs_code :: nat
  rs_status :: rstr
  rs_body :: 'c

datatype 'a task = Finished 'a | Panicked

type_synonym 'c client = "rstr \<Rightarrow> ((rstr \<times> rstr list) + 'c Response) task"

definition join_or :: "'a task \<Rightarrow> 'a \<Rightarrow> 'a" where
  "join_or handle on_panic = (case handle of Finished x \<Rightarrow> x | Panicked \<Rightarrow> on_panic)"

definition is_success :: "nat \<Rightarrow> bool" where
  "is_success code \<longleftrightarrow> 200 \<le> code \<and> code < 300"

definition fetch_raw ::
  "('u, 'z) url_api_scheme \<Rightarrow> (nat \<Rightarrow> 'c \<Rightarrow> ReadResult \<times> 'c) \<Rightarrow> (nat list \<Rightarrow> nat) \<Rightarrow> 'c client \<Rightarrow> rstr \<Rightarrow> MetricsOutcome task option" where
  "fetch_raw api rd space client url = (case client url of Panicked \<Rightarrow> Some Panicked | Finished sent \<Rightarrow>
     map_option Finished (case sent of
         Inl (message, causes) \<Rightarrow> Some (MUnreachable (describe_reqwest_error api message causes))
       | Inr response \<Rightarrow> if \<not> is_success (rs_code response) then Some (MHttp (rs_code response) (rs_status response))
           else map_option (\<lambda>body. case body of Inr text \<Rightarrow> MOk text | Inl e \<Rightarrow> MBody e)
             (read_body_limited rd space (rs_body response) MAX_RESPONSE_BYTES)))"

definition fetch_json ::
  "(rstr \<Rightarrow> rstr + json) \<Rightarrow> ('u, 'z) url_api_scheme \<Rightarrow> (nat \<Rightarrow> 'c \<Rightarrow> ReadResult \<times> 'c) \<Rightarrow> (nat list \<Rightarrow> nat) \<Rightarrow> 'c client \<Rightarrow> rstr
     \<Rightarrow> JsonOutcome task option" where
  "fetch_json from_str api rd space client url = (case client url of Panicked \<Rightarrow> Some Panicked | Finished sent \<Rightarrow>
     map_option Finished (case sent of
         Inl (message, causes) \<Rightarrow> Some (JUnreachable (describe_reqwest_error api message causes))
       | Inr response \<Rightarrow> if \<not> is_success (rs_code response) then Some (JHttp (rs_code response) (rs_status response))
           else map_option (\<lambda>body. case body of
               Inr text \<Rightarrow> (case from_str text of Inr value \<Rightarrow> JOk value | Inl e \<Rightarrow> JInvalid e)
             | Inl e \<Rightarrow> JInvalid e)
             (read_body_limited rd space (rs_body response) MAX_RESPONSE_BYTES)))"

text \<open>
  The three requests of a poll, each in a thread of its own; the properties are asked for when they are due.
  The scope ends when every thread has.
\<close>

definition fetch_all ::
  "(rstr \<Rightarrow> rstr + json) \<Rightarrow> ('u, 'z) url_api_scheme \<Rightarrow> (nat \<Rightarrow> 'c \<Rightarrow> ReadResult \<times> 'c) \<Rightarrow> (nat list \<Rightarrow> nat) \<Rightarrow> 'c client \<Rightarrow> LlamaMonitor
     \<Rightarrow> instant \<Rightarrow> (JsonOutcome option \<times> MetricsOutcome \<times> JsonOutcome) option" where
  "fetch_all from_str api rd space client m now =
     Option.bind (if props_needs_refresh m now
         then map_option Some (fetch_json from_str api rd space client (endpoint_url api (base m) (lit ''props''))) else Some None) (\<lambda>fetched.
     Option.bind (fetch_raw api rd space client (endpoint_url api (base m) (lit ''metrics''))) (\<lambda>metrics.
     Option.bind (fetch_json from_str api rd space client (endpoint_url api (base m) (lit ''slots''))) (\<lambda>slots.
     Some (map_option (\<lambda>handle. join_or handle (JUnreachable (lit ''props fetch task panicked''))) fetched,
       join_or metrics (MUnreachable (lit ''metrics fetch task panicked'')),
       join_or slots (JUnreachable (lit ''slots fetch task panicked''))))))"

text \<open>A whole poll: the fetches, then the sample of what they brought.\<close>

definition with_outcomes :: "JsonOutcome option \<times> MetricsOutcome \<times> JsonOutcome \<Rightarrow> Poll \<Rightarrow> Poll" where
  "with_outcomes out p = (case out of (fetched, metrics, slots) \<Rightarrow>
     p\<lparr>p_props := unwrap_or (p_props p) fetched, p_metrics := metrics, p_slots := slots\<rparr>)"

definition poll_endpoints ::
  "(rstr \<Rightarrow> rstr + json) \<Rightarrow> ('u, 'z) url_api_scheme \<Rightarrow> (nat \<Rightarrow> 'c \<Rightarrow> ReadResult \<times> 'c) \<Rightarrow> (nat list \<Rightarrow> nat) \<Rightarrow> 'c client \<Rightarrow> LlamaMonitor
     \<Rightarrow> Poll \<Rightarrow> (LlamaMonitor \<times> LlmStats) option" where
  "poll_endpoints from_str api rd space client m p =
     map_option (\<lambda>out. sample (\<lambda>text. result_ok (from_str text)) api m (with_outcomes out p))
       (fetch_all from_str api rd space client m (t_refresh p))"

section \<open>The read ends\<close>

lemma read_to_end_ends:
  assumes "wfp (\<lambda>c' c. \<exists>n. rd n c = (ReadInterrupted, c'))" "\<forall>n c bs c'. rd n c = (ReadBytes bs, c') \<longrightarrow> length bs \<le> n"
  shows "\<exists>res. read_to_end rd space limit buffer c = Some res \<and> (\<forall>b. res = Inr b \<longrightarrow> length b \<le> length buffer + limit)"
proof (induction limit arbitrary: buffer c rule: less_induct)
  case (less limit)
  note outer = less.IH
  show ?case
  proof (induction c rule: wfp_induct_rule [OF assms(1)])
    case (1 c)
    obtain res c' where rd: "rd (min (space buffer) limit) c = (res, c')" by (cases "rd (min (space buffer) limit) c")
    show ?case
    proof (cases "limit = 0")
      case False
      show ?thesis
      proof (cases res)
        case (ReadBytes bs)
        have "length bs \<le> limit" using assms(2) rd ReadBytes by (auto dest!: spec)
        show ?thesis
        proof (cases "bs = []")
          case False
          then have "limit - length bs < limit" using \<open>limit \<noteq> 0\<close> by (cases bs) auto
          from outer [OF this, of "buffer @ bs" c'] show ?thesis
            using rd ReadBytes False \<open>limit \<noteq> 0\<close> \<open>length bs \<le> limit\<close> by (subst read_to_end.simps) auto
        qed (use rd ReadBytes \<open>limit \<noteq> 0\<close> in \<open>subst read_to_end.simps, auto\<close>)
      next
        case ReadInterrupted
        then have "\<exists>n. rd n c = (ReadInterrupted, c')" using rd by blast
        from "1" [OF this] show ?thesis using rd ReadInterrupted \<open>limit \<noteq> 0\<close> by (subst read_to_end.simps) simp
      qed (use rd \<open>limit \<noteq> 0\<close> in \<open>subst read_to_end.simps, auto\<close>)
    qed (subst read_to_end.simps, auto)
  qed
qed

lemma body_text_bound: "length buffer \<le> unat limit + 1 \<Longrightarrow> unat limit + 1 < 2 ^ 64 \<Longrightarrow> body_text limit buffer = Inr text \<Longrightarrow> byte_len text \<le> unat limit"
proof -
  assume len: "length buffer \<le> unat limit + 1" and lim: "unat limit + 1 < 2 ^ 64" and ok: "body_text limit buffer = Inr text"
  have "unat (of_nat (length buffer) :: u64) = length buffer" using len lim by (simp add: unat_of_nat take_bit_nat_eq_self)
  moreover have "\<not> limit < of_nat (length buffer)" "from_utf8 buffer = Inr text"
    using ok by (auto simp: body_text_def split: if_splits sum.splits)
  ultimately show "byte_len text \<le> unat limit"
    using from_utf8_at_inv [of 0 buffer "text"] by (simp add: word_less_nat_alt from_utf8_def flip: length_utf8)
qed

lemma read_body_ends:
  assumes "wfp (\<lambda>c' c. \<exists>n. rd n c = (ReadInterrupted, c'))" "\<forall>n c bs c'. rd n c = (ReadBytes bs, c') \<longrightarrow> length bs \<le> n" "unat limit + 1 < 2 ^ 64"
  obtains res where "read_body_limited rd space response limit = Some res" "\<forall>text. res = Inr text \<longrightarrow> byte_len text \<le> unat limit"
proof -
  have "unat (limit + 1) = unat limit + 1" using assms(3) by (simp add: unat_word_ariths)
  then obtain res where res: "read_to_end rd space (unat (limit + 1)) [] response = Some res" "\<forall>b. res = Inr b \<longrightarrow> length b \<le> unat limit + 1"
    using read_to_end_ends [OF assms(1,2), of space "unat (limit + 1)" "[]" response] by auto
  show thesis
  proof (cases res)
    case (Inl e)
    then show ?thesis using res(1) by (intro that [of "Inl e"]) (simp_all add: read_body_limited_def)
  next
    case (Inr b)
    then show ?thesis using res body_text_bound [OF _ assms(3)]
      by (intro that [of "body_text limit b"]) (auto simp: read_body_limited_def)
  qed
qed

lemma MAX_RESPONSE_BYTES_val: "unat MAX_RESPONSE_BYTES + 1 < 2 ^ 64" "unat MAX_RESPONSE_BYTES = 4194304"
  by (simp_all add: MAX_RESPONSE_BYTES_def)

text \<open>What a fetch is after the client has answered.\<close>

definition bounded_text :: "MetricsOutcome \<Rightarrow> bool" where
  "bounded_text out \<longleftrightarrow> (case out of MOk text \<Rightarrow> byte_len text \<le> 4194304 | _ \<Rightarrow> True)"

lemma fetch_raw_ends:
  assumes "wfp (\<lambda>c' c. \<exists>n. rd n c = (ReadInterrupted, c'))" "\<forall>n c bs c'. rd n c = (ReadBytes bs, c') \<longrightarrow> length bs \<le> n"
  obtains out where "fetch_raw api rd space client url = Some out" "bounded_text (join_or out (MUnreachable e))"
proof (cases "client url")
  case Panicked
  then show thesis by (intro that [of Panicked]) (simp_all add: fetch_raw_def join_or_def bounded_text_def)
next
  case (Finished sent)
  show thesis
  proof (cases sent)
    case (Inl err)
    then show ?thesis using Finished
      by (intro that [of "Finished (MUnreachable (describe_reqwest_error api (fst err) (snd err)))"])
        (simp_all add: fetch_raw_def join_or_def bounded_text_def case_prod_beta)
  next
    case (Inr response)
    obtain res where res: "read_body_limited rd space (rs_body response) MAX_RESPONSE_BYTES = Some res"
      "\<forall>text. res = Inr text \<longrightarrow> byte_len text \<le> 4194304"
      using read_body_ends [OF assms MAX_RESPONSE_BYTES_val(1)] unfolding MAX_RESPONSE_BYTES_val(2) by metis
    show ?thesis
      by (rule that [of "Finished (if \<not> is_success (rs_code response) then MHttp (rs_code response) (rs_status response)
          else case res of Inr text \<Rightarrow> MOk text | Inl e \<Rightarrow> MBody e)"])
        (use res Finished Inr in \<open>auto simp: fetch_raw_def join_or_def bounded_text_def split: sum.split\<close>)
  qed
qed

lemma fetch_json_ends:
  assumes "wfp (\<lambda>c' c. \<exists>n. rd n c = (ReadInterrupted, c'))" "\<forall>n c bs c'. rd n c = (ReadBytes bs, c') \<longrightarrow> length bs \<le> n"
  obtains out where "fetch_json from_str api rd space client url = Some out"
proof -
  have "\<exists>res. read_body_limited rd space response MAX_RESPONSE_BYTES = Some res" for response
    by (rule read_body_ends [OF assms MAX_RESPONSE_BYTES_val(1), of space response]) blast
  then obtain r where r: "\<And>response. read_body_limited rd space response MAX_RESPONSE_BYTES = Some (r response)" by metis
  have "\<exists>out. fetch_json from_str api rd space client url = Some out"
    by (cases "client url") (auto simp: fetch_json_def r split: sum.split)
  then show thesis using that by blast
qed

text \<open>
  C23: A poll ends whatever the three endpoints send, a body without an end included, as long as no connection
  interrupts its reader forever, and the text it parses is never longer than four megabytes.
\<close>

theorem poll_ends:
  assumes "wfp (\<lambda>c' c. \<exists>n. rd n c = (ReadInterrupted, c'))" "\<forall>n c bs c'. rd n c = (ReadBytes bs, c') \<longrightarrow> length bs \<le> n"
  shows "\<exists>out. fetch_all from_str api rd space client m (t_refresh p) = Some out \<and> bounded_text (p_metrics (with_outcomes out p)) \<and>
    poll_endpoints from_str api rd space client m p = Some (sample (\<lambda>text. result_ok (from_str text)) api m (with_outcomes out p))"
proof -
  obtain metrics where metrics: "fetch_raw api rd space client (endpoint_url api (base m) (lit ''metrics'')) = Some metrics"
    "bounded_text (join_or metrics (MUnreachable (lit ''metrics fetch task panicked'')))"
    by (rule fetch_raw_ends [OF assms])
  obtain slots_task where slots_task: "fetch_json from_str api rd space client (endpoint_url api (base m) (lit ''slots'')) = Some slots_task"
    by (rule fetch_json_ends [OF assms])
  obtain props_task where props_task: "fetch_json from_str api rd space client (endpoint_url api (base m) (lit ''props'')) = Some props_task"
    by (rule fetch_json_ends [OF assms])
  show ?thesis using metrics slots_task props_task
    by (simp add: fetch_all_def poll_endpoints_def with_outcomes_def)
qed

section \<open>What a body becomes\<close>

text \<open>
  A connection that delivers some bytes and then the end, in reads of any size with interruptions between.
\<close>

inductive delivers :: "(nat \<Rightarrow> 'c \<Rightarrow> ReadResult \<times> 'c) \<Rightarrow> 'c \<Rightarrow> nat list \<Rightarrow> bool" for rd where
  delivers_end: "\<forall>n > 0. \<exists>c'. rd n c = (ReadBytes [], c') \<Longrightarrow> delivers rd c []"
| delivers_step: "\<forall>n > 0. \<exists>c'. (rd n c = (ReadInterrupted, c') \<and> delivers rd c' bs) \<or>
     (\<exists>x ys. rd n c = (ReadBytes x, c') \<and> x \<noteq> [] \<and> length x \<le> n \<and> bs = x @ ys \<and> delivers rd c' ys) \<Longrightarrow> delivers rd c bs"

lemma read_to_end_delivers:
  assumes "delivers rd c bs" "\<forall>b. 0 < space b"
  shows "read_to_end rd space limit buffer c = Some (Inr (buffer @ take limit bs))"
  using assms(1)
proof (induction arbitrary: limit buffer rule: delivers.induct)
  case (delivers_end c)
  show ?case
  proof (cases "limit = 0")
    case False
    then obtain c' where "rd (min (space buffer) limit) c = (ReadBytes [], c')" using delivers_end assms(2) by (meson gr0I min_less_iff_conj)
    then show ?thesis by (subst read_to_end.simps) simp
  qed (subst read_to_end.simps, simp)
next
  case (delivers_step c bs)
  show ?case
  proof (cases "limit = 0")
    case False
    then have "0 < min (space buffer) limit" using assms(2) by simp
    then obtain c' where "rd (min (space buffer) limit) c = (ReadInterrupted, c')
        \<and> (\<forall>limit buffer. read_to_end rd space limit buffer c' = Some (Inr (buffer @ take limit bs)))
      \<or> (\<exists>x ys. rd (min (space buffer) limit) c = (ReadBytes x, c') \<and> x \<noteq> [] \<and> length x \<le> min (space buffer) limit \<and> bs = x @ ys
        \<and> (\<forall>limit buffer. read_to_end rd space limit buffer c' = Some (Inr (buffer @ take limit ys))))"
      using delivers_step by blast
    then show ?thesis using False by (subst read_to_end.simps) auto
  qed (subst read_to_end.simps, simp)
qed

text \<open>
  C24: A body that ends becomes the text it encodes when it fits in the limit; a longer one is refused, and so
  is one that is not UTF-8.
\<close>

theorem read_body_exact:
  assumes "delivers rd response bs" "\<forall>b. 0 < space b" "unat limit + 1 < 2 ^ 64"
  shows "read_body_limited rd space response limit = Some (if unat limit < length bs then Inl (body_exceeded limit)
    else case from_utf8 bs of Inl e \<Rightarrow> Inl (utf8_fault_text e) | Inr s \<Rightarrow> Inr s)"
proof -
  have one: "unat (limit + 1) = unat limit + 1" using assms(3) by (simp add: unat_word_ariths)
  have "unat (of_nat (length (take (unat limit + 1) bs)) :: u64) = min (length bs) (unat limit + 1)"
    using assms(3) by (simp add: unat_of_nat take_bit_nat_eq_self)
  then have "limit < of_nat (length (take (unat limit + 1) bs)) \<longleftrightarrow> unat limit < length bs"
    unfolding word_less_nat_alt by simp
  moreover have "take (unat limit + 1) bs = bs" if "\<not> unat limit < length bs" using that by simp
  ultimately show ?thesis
    using read_to_end_delivers [OF assms(1,2), of "unat (limit + 1)" "[]"]
    unfolding one by (auto simp: read_body_limited_def body_text_def one simp del: One_nat_def)
qed

section \<open>Two connections\<close>

text \<open>One that never ends, and one that holds some bytes, every other read of which is interrupted.\<close>

definition endless :: "nat \<Rightarrow> unit \<Rightarrow> ReadResult \<times> unit" where
  "endless n c = (ReadBytes (replicate n 97), ())"

definition endless_client :: "unit client" where
  "endless_client url = Finished (Inr \<lparr>rs_code = 200, rs_status = lit ''200 OK'', rs_body = ()\<rparr>)"

definition stuttering :: "nat \<Rightarrow> bool \<times> nat list \<Rightarrow> ReadResult \<times> (bool \<times> nat list)" where
  "stuttering n c = (case c of (True, bs) \<Rightarrow> (ReadInterrupted, (False, bs))
     | (False, bs) \<Rightarrow> (ReadBytes (take n bs), (True, drop n bs)))"

lemma delivers_ready: "(\<And>ys. length ys < length bs \<Longrightarrow> delivers stuttering (True, ys) ys) \<Longrightarrow> delivers stuttering (False, bs) bs"
proof (cases "bs = []")
  case True
  then show ?thesis by (auto intro!: delivers_end simp: stuttering_def)
next
  case False
  assume shorter: "\<And>ys. length ys < length bs \<Longrightarrow> delivers stuttering (True, ys) ys"
  show ?thesis
  proof (rule delivers_step, intro allI impI exI disjI2 conjI)
    fix n :: nat assume n: "0 < n"
    show "stuttering n (False, bs) = (ReadBytes (take n bs), (True, drop n bs))" by (simp add: stuttering_def)
    show "take n bs \<noteq> []" "length (take n bs) \<le> n" "bs = take n bs @ drop n bs" using False n by auto
    show "delivers stuttering (True, drop n bs) (drop n bs)" using False n by (intro shorter) simp
  qed
qed

lemma stuttering_delivers: "delivers stuttering (True, bs) bs"
proof (induction "length bs" arbitrary: bs rule: less_induct)
  case less
  then have "delivers stuttering (False, bs) bs" by (intro delivers_ready) blast
  then show ?case by (intro delivers_step) (simp add: stuttering_def)
qed

theorem poll_ends_witness:
  "\<exists>out. fetch_all (\<lambda>_. Inl []) sample_urls endless (\<lambda>_. 4096) endless_client (LlamaMonitor_new (lit ''http://h/v1'')) (t_refresh outage_poll) = Some out
    \<and> bounded_text (p_metrics (with_outcomes out outage_poll))"
proof -
  have never: "wfp (\<lambda>c' c. \<exists>n. endless n c = (ReadInterrupted, c'))" by (simp add: endless_def wfp_def)
  have fits: "\<forall>n c bs c'. endless n c = (ReadBytes bs, c') \<longrightarrow> length bs \<le> n" by (simp add: endless_def)
  show ?thesis using poll_ends [OF never fits] by blast
qed

theorem read_body_exact_witness:
  "read_body_limited stuttering (\<lambda>_. 2) (True, [104, 195, 164]) 3 = Some (Inr [104, 228]) \<and>
   read_body_limited stuttering (\<lambda>_. 2) (True, [104, 195, 164]) 2 = Some (Inl (lit ''response body exceeded 2 bytes''))"
proof -
  have "from_utf8 [104, 195, 164] = Inr [104, 228]"
    by (simp add: from_utf8_def utf8_head_def utf8_width_def second_ok_def is_cont_def)
  moreover have "body_exceeded 2 = lit ''response body exceeded 2 bytes''" by code_simp
  ultimately show ?thesis
    using read_body_exact [OF stuttering_delivers, of "\<lambda>_. 2" 3 "[104, 195, 164]"]
      read_body_exact [OF stuttering_delivers, of "\<lambda>_. 2" 2 "[104, 195, 164]"] by simp
qed

end
