(* ===== verification/Sys.thy ===== *)
theory Sys
  imports Domain
begin

text \<open>
  The view of the filesystem every probe goes through, from the trait
  \<^verbatim>\<open>Sys\<close> of \<^verbatim>\<open>src/system.rs\<close>.  What the operating system answers is a
  parameter: a record of the trait's operations, read at one moment.
\<close>

record SysEntry =
  se_name :: rstr
  se_is_symlink :: bool
  se_is_dir :: bool

record Sys =
  read_to_string :: "rstr \<Rightarrow> rstr option"
  read_to_string_lossy :: "rstr \<Rightarrow> rstr option"
  read_dir :: "rstr \<Rightarrow> SysEntry list option"
  symlink_target :: "rstr \<Rightarrow> rstr option"
  char_device_id :: "rstr \<Rightarrow> u64 option"
  read_dir_names :: "rstr \<Rightarrow> rstr list option"

text \<open>\<^verbatim>\<open>Path::join\<close>: an absolute operand replaces the path.\<close>

definition path_join :: "rstr \<Rightarrow> rstr \<Rightarrow> rstr" where
  "path_join p q = (if starts_with (lit ''/'') q then q
     else if p = [] \<or> last p = 47 then p @ q else p @ lit ''/'' @ q)"

text \<open>A directory listing keeps the readable entries and drops the failures.\<close>

definition collect_dir_entries :: "SysEntry option list \<Rightarrow> SysEntry list" where
  "collect_dir_entries es = List.map_filter (\<lambda>e. e) es"

text \<open>\<^verbatim>\<open>.filter(|s| !s.is_empty())\<close>.\<close>

definition opt_nonempty :: "rstr option \<Rightarrow> rstr option" where
  "opt_nonempty x = (case x of Some s \<Rightarrow> if s = [] then None else Some s | None \<Rightarrow> None)"

end
