(* ===== verification/Config.thy ===== *)
theory Config
  imports Domain
begin

text \<open>
  The saved configuration, from \<^verbatim>\<open>src/config.rs\<close>: its sanitising, its text form and the
  reading of that text, with the legacy keys.  The JSON
  form of a list of strings is the parameter pair of \<open>json_strings\<close>.
\<close>

section \<open>The configuration\<close>

definition DEFAULT_REFRESH_MS :: u64 where "DEFAULT_REFRESH_MS = 1000"
definition DEFAULT_PROCESS_REFRESH_MS :: u64 where "DEFAULT_PROCESS_REFRESH_MS = 1000"
definition DEFAULT_OFFLINE_GRACE_MS :: u64 where "DEFAULT_OFFLINE_GRACE_MS = 2500"
definition MIN_PROCESS_REFRESH_MS :: u64 where "MIN_PROCESS_REFRESH_MS = 100"
definition MAX_PROCESS_REFRESH_MS :: u64 where "MAX_PROCESS_REFRESH_MS = 60000"
definition MAX_OFFLINE_GRACE_MS :: u64 where "MAX_OFFLINE_GRACE_MS = 60000"

record AppConfig =
  cf_server :: "rstr option"
  cf_servers :: "rstr list"
  cf_gpu_selector :: GpuSelector
  cf_refresh_ms :: u64
  cf_process_refresh_ms :: u64
  cf_offline_grace_ms :: u64
  cf_auto_discovery :: bool

definition AppConfig_default :: AppConfig where
  "AppConfig_default = \<lparr>cf_server = None, cf_servers = [], cf_gpu_selector = Auto,
     cf_refresh_ms = DEFAULT_REFRESH_MS, cf_process_refresh_ms = DEFAULT_PROCESS_REFRESH_MS,
     cf_offline_grace_ms = DEFAULT_OFFLINE_GRACE_MS, cf_auto_discovery = True\<rparr>"

text \<open>\<^verbatim>\<open>.filter(|value| seen.insert(key(value)))\<close>: the first of each key.\<close>

fun first_of_key :: "('a \<Rightarrow> 'k) \<Rightarrow> 'k set \<Rightarrow> 'a list \<Rightarrow> 'a list" where
  "first_of_key key seen [] = []"
| "first_of_key key seen (x # xs) = (if key x \<in> seen then first_of_key key seen xs
     else x # first_of_key key (insert (key x) seen) xs)"

definition nonempty_trim :: "rstr option \<Rightarrow> rstr option" where
  "nonempty_trim s = (case s of Some v \<Rightarrow> if trim v = [] then None else Some (trim v) | None \<Rightarrow> None)"

definition AppConfig_sanitized :: "('u, 'z) url_api_scheme \<Rightarrow> AppConfig \<Rightarrow> AppConfig" where
  "AppConfig_sanitized api c = c\<lparr>
     cf_server := nonempty_trim (cf_server c),
     cf_servers := first_of_key (server_key api) {} (filter (\<lambda>v. v \<noteq> []) (map trim (cf_servers c))),
     cf_refresh_ms := clampw 100 10000 (cf_refresh_ms c),
     cf_process_refresh_ms := clampw MIN_PROCESS_REFRESH_MS MAX_PROCESS_REFRESH_MS (cf_process_refresh_ms c),
     cf_offline_grace_ms := min (cf_offline_grace_ms c) MAX_OFFLINE_GRACE_MS,
     cf_gpu_selector := GpuSelector_sanitized (cf_gpu_selector c)\<rparr>"

section \<open>The text form\<close>

record json_strings =
  js_render :: "rstr list \<Rightarrow> rstr"
  js_parse :: "rstr \<Rightarrow> rstr list option"

text \<open>
  What serde_json documents of a list of strings: parsing inverts printing, and the text is one
  line that starts with a bracket and has no white space at its ends.
\<close>

definition json_strings_laws :: "json_strings \<Rightarrow> bool" where
  "json_strings_laws js \<longleftrightarrow> (\<forall>ss. js_parse js (js_render js ss) = Some ss) \<and>
     (\<forall>ss. starts_with (lit ''['') (js_render js ss) \<and> trimmed (js_render js ss) \<and> 10 \<notin> set (js_render js ss))"

definition show_bool :: "bool \<Rightarrow> rstr" where
  "show_bool b = (if b then lit ''true'' else lit ''false'')"

definition config_lines :: "json_strings \<Rightarrow> AppConfig \<Rightarrow> rstr list" where
  "config_lines js c =
     (case cf_server c of Some server \<Rightarrow> [lit ''server='' @ server] | None \<Rightarrow> []) @
     (if cf_servers c = [] then [] else [lit ''servers='' @ js_render js (cf_servers c)]) @
     (let selector = GpuSelector_as_string (cf_gpu_selector c) in
      if selector = [] then [] else [lit ''gpu='' @ selector]) @
     [lit ''refresh_ms='' @ show_word (cf_refresh_ms c),
      lit ''process_refresh_ms='' @ show_word (cf_process_refresh_ms c),
      lit ''offline_grace_ms='' @ show_word (cf_offline_grace_ms c),
      lit ''auto_discovery='' @ show_bool (cf_auto_discovery c)]"

definition render_config :: "('u, 'z) url_api_scheme \<Rightarrow> json_strings \<Rightarrow> AppConfig \<Rightarrow> rstr" where
  "render_config api js c = join [10] (config_lines js (AppConfig_sanitized api c)) @ [10]"

section \<open>Reading\<close>

definition parse_bool :: "rstr \<Rightarrow> bool option" where
  "parse_bool v = (let v = lower v in
     if v \<in> {lit ''1'', lit ''true'', lit ''yes'', lit ''on''} then Some True
     else if v \<in> {lit ''0'', lit ''false'', lit ''no'', lit ''off''} then Some False else None)"

record ConfigParse =
  cp_config :: AppConfig
  cp_saw_server :: bool
  cp_saw_auto :: bool
  cp_saw_gpu :: bool
  cp_legacy_gpu_index :: "u32 option"

definition cp_init :: ConfigParse where
  "cp_init = \<lparr>cp_config = AppConfig_default, cp_saw_server = False, cp_saw_auto = False, cp_saw_gpu = False,
     cp_legacy_gpu_index = None\<rparr>"

definition servers_value :: "json_strings \<Rightarrow> rstr \<Rightarrow> rstr list" where
  "servers_value js v = (if starts_with (lit ''['') v then (case js_parse js v of Some ss \<Rightarrow> ss | None \<Rightarrow> [])
     else filter (\<lambda>e. e \<noteq> []) (map trim (split_on 44 v)))"

definition set_config :: "(AppConfig \<Rightarrow> AppConfig) \<Rightarrow> ConfigParse \<Rightarrow> ConfigParse" where
  "set_config f st = st\<lparr>cp_config := f (cp_config st)\<rparr>"

definition config_entry :: "json_strings \<Rightarrow> rstr \<Rightarrow> rstr \<Rightarrow> ConfigParse \<Rightarrow> ConfigParse" where
  "config_entry js key v st =
     (if key = lit ''server'' \<and> v \<noteq> [] then
        (set_config (\<lambda>c. c\<lparr>cf_server := Some v\<rparr>) st)\<lparr>cp_saw_server := True\<rparr>
      else if key = lit ''servers'' then set_config (\<lambda>c. c\<lparr>cf_servers := cf_servers c @ servers_value js v\<rparr>) st
      else if key = lit ''gpu'' then
        (set_config (\<lambda>c. c\<lparr>cf_gpu_selector := GpuSelector_parse v\<rparr>) st)\<lparr>cp_saw_gpu := True\<rparr>
      else if key = lit ''gpu_index'' \<and> \<not> cp_saw_gpu st then
        (case parse_word v of Some n \<Rightarrow> st\<lparr>cp_legacy_gpu_index := Some n\<rparr> | None \<Rightarrow> st)
      else if key = lit ''refresh_ms'' then
        (case parse_word v of Some n \<Rightarrow> set_config (\<lambda>c. c\<lparr>cf_refresh_ms := n\<rparr>) st | None \<Rightarrow> st)
      else if key = lit ''process_refresh_ms'' then
        (case parse_word v of Some n \<Rightarrow> set_config (\<lambda>c. c\<lparr>cf_process_refresh_ms := n\<rparr>) st | None \<Rightarrow> st)
      else if key = lit ''offline_grace_ms'' then
        (case parse_word v of Some n \<Rightarrow> set_config (\<lambda>c. c\<lparr>cf_offline_grace_ms := n\<rparr>) st | None \<Rightarrow> st)
      else if key = lit ''auto_discovery'' then
        (case parse_bool v of Some b \<Rightarrow> (set_config (\<lambda>c. c\<lparr>cf_auto_discovery := b\<rparr>) st)\<lparr>cp_saw_auto := True\<rparr>
         | None \<Rightarrow> st)
      else st)"

definition config_line :: "json_strings \<Rightarrow> ConfigParse \<Rightarrow> rstr \<Rightarrow> ConfigParse" where
  "config_line js st line = (case split_once 61 line of None \<Rightarrow> st
     | Some (key, v) \<Rightarrow> config_entry js (trim key) (trim v) st)"

definition config_finish :: "('u, 'z) url_api_scheme \<Rightarrow> ConfigParse \<Rightarrow> AppConfig" where
  "config_finish api st = (let c = cp_config st;
       c = (if cp_saw_server st \<and> \<not> cp_saw_auto st then c\<lparr>cf_auto_discovery := False\<rparr> else c);
       c = (if \<not> cp_saw_gpu st then (case cp_legacy_gpu_index st of Some i \<Rightarrow> c\<lparr>cf_gpu_selector := Index i\<rparr> | None \<Rightarrow> c) else c)
     in AppConfig_sanitized api c)"

definition parse_config :: "('u, 'z) url_api_scheme \<Rightarrow> json_strings \<Rightarrow> rstr \<Rightarrow> AppConfig" where
  "parse_config api js s = config_finish api (foldl (config_line js) cp_init (lines s))"


section \<open>Saving and loading\<close>

lemma first_of_key_idem: "first_of_key key S (first_of_key key S xs) = first_of_key key S xs"
  by (induction key S xs rule: first_of_key.induct) auto

lemma set_first_of_key: "set (first_of_key key S xs) \<subseteq> set xs"
  by (induction key S xs rule: first_of_key.induct) auto

lemma first_of_key_fresh: "x \<in> set (first_of_key key S xs) \<Longrightarrow> key x \<notin> S"
  by (induction key S xs rule: first_of_key.induct) (auto split: if_splits)

lemma first_of_key_distinct: "distinct (map key (first_of_key key S xs))"
proof (induction key S xs rule: first_of_key.induct)
  case (2 key S x xs)
  have "key x \<notin> key ` set (first_of_key key (insert (key x) S) xs)"
    using first_of_key_fresh [of _ key "insert (key x) S" xs] by force
  then show ?case using 2 by simp
qed simp

lemma set_first_of_key_id: "set (first_of_key id S xs) = set xs - S"
  by (induction xs arbitrary: S) auto

lemma first_of_key_snoc:
  "first_of_key id S (xs @ [x]) = first_of_key id S xs @ (if x \<in> S \<or> x \<in> set xs then [] else [x])"
  by (induction xs arbitrary: S) auto

lemma distinct_first_of_key_id: "distinct (first_of_key id S xs)"
  using first_of_key_distinct [of id S xs] by simp

lemma first_of_key_trim:
  "first_of_key key S (filter (\<lambda>v. v \<noteq> []) (map trim ys)) = first_of_key key S ys" if "\<forall>y \<in> set ys. trimmed y \<and> y \<noteq> []"
proof -
  have "filter (\<lambda>v. v \<noteq> []) (map trim ys) = ys" using that by (induction ys) (auto simp: trim_id)
  then show ?thesis by simp
qed

lemma nonempty_trim_idem [simp]: "nonempty_trim (nonempty_trim s) = nonempty_trim s"
  by (cases s) (simp_all add: nonempty_trim_def)

lemma selector_sanitized_twice: "GpuSelector_sanitized (GpuSelector_sanitized sel) = GpuSelector_sanitized sel"
  by (cases sel) (simp_all add: GpuSelector_sanitized_def Let_def trim_id trimmed_normalize)

lemma sanitized_servers:
  "v \<in> set (cf_servers (AppConfig_sanitized api c)) \<Longrightarrow> trimmed v \<and> v \<noteq> []"
  by (auto simp: AppConfig_sanitized_def dest!: subsetD [OF set_first_of_key])

lemma sanitized_idem: "AppConfig_sanitized api (AppConfig_sanitized api c) = AppConfig_sanitized api c"
proof -
  let ?ss = "cf_servers (AppConfig_sanitized api c)"
  have "first_of_key (server_key api) {} (filter (\<lambda>v. v \<noteq> []) (map trim ?ss)) = ?ss"
    by (subst first_of_key_trim) (use sanitized_servers in \<open>auto simp: AppConfig_sanitized_def first_of_key_idem\<close>)
  then show ?thesis
    by (simp add: AppConfig_sanitized_def selector_sanitized_twice MIN_PROCESS_REFRESH_MS_def MAX_PROCESS_REFRESH_MS_def)
qed

lemma lines_terminated:
  assumes "\<forall>l \<in> set ls. 10 \<notin> set l" "ls \<noteq> []"
  shows "lines (join [10] ls @ [10]) = map strip_cr ls"
proof -
  have "split_on 10 (join [10] ls @ [10]) = ls @ [[]]"
    using assms
  proof (induction ls)
    case (Cons l ls)
    then show ?case by (cases ls) (simp_all add: split_on_append)
  qed simp
  then show ?thesis by (simp add: lines_def)
qed

lemma strip_cr_trimmed: "trimmed v \<Longrightarrow> v \<noteq> [] \<Longrightarrow> strip_cr (p @ v) = p @ v"
  by (auto simp: strip_cr_def trimmed_def is_ws_def)

lemma config_line_entry:
  assumes "61 \<notin> set k" "trimmed k" "trimmed v"
  shows "config_line js st (k @ 61 # v) = config_entry js k v st"
proof -
  have "split_once 61 (k @ 61 # v) = Some (k, v)" using assms(1) by (simp add: split_once_Some)
  then show ?thesis using assms by (simp add: config_line_def trim_id)
qed

lemma show_word_trimmed [simp]: "trimmed (show_word w)" "10 \<notin> set (show_word w)"
proof -
  have d: "is_digit c" if "c \<in> set (show_word w)" for c using that show_nat_digits by (simp add: show_word_def)
  have "\<not> is_digit 10" by (simp add: is_digit_def)
  then show "trimmed (show_word w)" "10 \<notin> set (show_word w)"
    using d trimmed_no_ws [of "show_word w"] digit_not_ws by blast+
qed

lemma show_bool_props [simp]:
  "trimmed (show_bool b)" "10 \<notin> set (show_bool b)" "show_bool b \<noteq> []" "parse_bool (show_bool b) = Some b"
  by (cases b; simp add: show_bool_def lit_def trimmed_def is_ws_def parse_bool_def lower_char_def)+


text \<open>A line of the rendered text, read back.\<close>

definition config_pairs :: "json_strings \<Rightarrow> AppConfig \<Rightarrow> (rstr \<times> rstr) list" where
  "config_pairs js c =
     (case cf_server c of Some server \<Rightarrow> [(lit ''server'', server)] | None \<Rightarrow> []) @
     (if cf_servers c = [] then [] else [(lit ''servers'', js_render js (cf_servers c))]) @
     (if GpuSelector_as_string (cf_gpu_selector c) = [] then []
      else [(lit ''gpu'', GpuSelector_as_string (cf_gpu_selector c))]) @
     [(lit ''refresh_ms'', show_word (cf_refresh_ms c)),
      (lit ''process_refresh_ms'', show_word (cf_process_refresh_ms c)),
      (lit ''offline_grace_ms'', show_word (cf_offline_grace_ms c)),
      (lit ''auto_discovery'', show_bool (cf_auto_discovery c))]"

lemma config_lines_pairs: "config_lines js c = map (\<lambda>(k, v). k @ 61 # v) (config_pairs js c)"
  by (auto simp: config_lines_def config_pairs_def Let_def lit_def split: option.split)

definition saveable :: "AppConfig \<Rightarrow> bool" where
  "saveable c \<longleftrightarrow> (\<forall>s. cf_server c = Some s \<longrightarrow> 10 \<notin> set s) \<and>
     10 \<notin> set (GpuSelector_as_string (GpuSelector_sanitized (cf_gpu_selector c))) \<and>
     GpuSelector_parse (GpuSelector_as_string (GpuSelector_sanitized (cf_gpu_selector c))) = GpuSelector_sanitized (cf_gpu_selector c)"

lemma selector_string_trimmed: "trimmed (GpuSelector_as_string (GpuSelector_sanitized sel))"
proof -
  have "trimmed []" by (simp add: trimmed_def)
  then show ?thesis
    by (cases sel) (simp_all add: GpuSelector_as_string_def GpuSelector_sanitized_def Let_def trimmed_normalize)
qed

lemma config_pairs_ok:
  assumes "json_strings_laws js" "saveable c" "c' = AppConfig_sanitized api c"
  shows "\<forall>(k, v) \<in> set (config_pairs js c'). trimmed k \<and> trimmed v \<and> v \<noteq> [] \<and> 61 \<notin> set k \<and> 10 \<notin> set (k @ 61 # v)"
proof -
  have k: "trimmed k \<and> 61 \<notin> set k \<and> 10 \<notin> set k"
    if "k \<in> {lit ''server'', lit ''servers'', lit ''gpu'', lit ''refresh_ms'', lit ''process_refresh_ms'',
      lit ''offline_grace_ms'', lit ''auto_discovery''}" for k
    using that by (auto simp: lit_def trimmed_def is_ws_def)
  have sv: "trimmed s \<and> s \<noteq> [] \<and> 10 \<notin> set s" if "cf_server c' = Some s" for s
    using that assms(2,3) set_trim
    by (auto simp: AppConfig_sanitized_def nonempty_trim_def saveable_def split: option.splits if_splits)
  have js: "trimmed (js_render js ss) \<and> js_render js ss \<noteq> [] \<and> 10 \<notin> set (js_render js ss)" for ss
  proof -
    have "starts_with (lit ''['') (js_render js ss)" using assms(1) by (simp add: json_strings_laws_def)
    then have "js_render js ss \<noteq> []" by (auto simp: starts_with_iff)
    then show ?thesis using assms(1) by (simp add: json_strings_laws_def)
  qed
  have gp: "trimmed (GpuSelector_as_string (cf_gpu_selector c')) \<and> 10 \<notin> set (GpuSelector_as_string (cf_gpu_selector c'))"
    using assms(2,3) selector_string_trimmed by (simp add: AppConfig_sanitized_def saveable_def)
  have sw: "show_word w \<noteq> []" for w :: u64 by (rule show_word_not_Nil)
  show ?thesis unfolding config_pairs_def
    using k sv js gp sw by (auto split: option.split)
qed

lemma foldl_config_pairs:
  assumes "\<forall>(k, v) \<in> set ps. trimmed k \<and> trimmed v \<and> v \<noteq> [] \<and> 61 \<notin> set k"
  shows "foldl (config_line js) st (map strip_cr (map (\<lambda>(k, v). k @ 61 # v) ps)) = foldl (\<lambda>st (k, v). config_entry js k v st) st ps"
  using assms
proof (induction ps arbitrary: st)
  case (Cons p ps)
  obtain k v where p: "p = (k, v)" by (cases p)
  have "strip_cr (k @ 61 # v) = k @ 61 # v" using strip_cr_trimmed [of v "k @ [61]"] Cons.prems by (simp add: p)
  then show ?case using Cons by (simp add: p config_line_entry)
qed simp


lemma nonempty_string_Auto:
  "saveable c \<Longrightarrow> GpuSelector_as_string (GpuSelector_sanitized (cf_gpu_selector c)) = [] \<Longrightarrow>
     GpuSelector_sanitized (cf_gpu_selector c) = Auto"
  by (simp add: saveable_def GpuSelector_parse_def)

lemma parse_pairs:
  assumes "json_strings_laws js" "c' = AppConfig_sanitized api c" "saveable c"
  shows "\<exists>st. foldl (\<lambda>st (k, v). config_entry js k v st) cp_init (config_pairs js c') = st \<and>
    cp_config st = c' \<and> cp_saw_auto st \<and> cp_legacy_gpu_index st = None"
proof -
  have js: "servers_value js (js_render js ss) = ss" for ss
    using assms(1) by (simp add: json_strings_laws_def servers_value_def)
  have sv: "cf_server c' = Some s \<Longrightarrow> s \<noteq> []" for s
    using assms(2) by (auto simp: AppConfig_sanitized_def nonempty_trim_def split: option.splits if_splits)
  have gp: "GpuSelector_as_string (cf_gpu_selector c') = [] \<Longrightarrow> cf_gpu_selector c' = Auto"
    "GpuSelector_parse (GpuSelector_as_string (cf_gpu_selector c')) = cf_gpu_selector c'"
    using assms(2,3) nonempty_string_Auto by (simp_all add: AppConfig_sanitized_def saveable_def)
  show ?thesis
    by (cases c'; cases "cf_server c'"; cases "cf_servers c' = []"; cases "GpuSelector_as_string (cf_gpu_selector c') = []")
      (use sv gp in \<open>simp_all add: config_pairs_def config_entry_def set_config_def cp_init_def AppConfig_default_def js\<close>)
qed

lemma parse_render:
  assumes "json_strings_laws js" "saveable c"
  shows "parse_config api js (render_config api js c) = AppConfig_sanitized api c"
proof -
  let ?c = "AppConfig_sanitized api c"
  let ?ps = "config_pairs js ?c"
  note ok = config_pairs_ok [OF assms refl, of api]
  have l: "lines (render_config api js c) = map strip_cr (map (\<lambda>(k, v). k @ 61 # v) ?ps)"
    unfolding render_config_def config_lines_pairs
    by (rule lines_terminated) (use ok in \<open>auto simp: config_pairs_def\<close>)
  have "foldl (config_line js) cp_init (lines (render_config api js c)) = foldl (\<lambda>st (k, v). config_entry js k v st) cp_init ?ps"
    unfolding l by (rule foldl_config_pairs) (use ok in auto)
  then show ?thesis
    using parse_pairs [OF assms(1) refl assms(2), of api]
    by (auto simp: parse_config_def config_finish_def Let_def sanitized_idem split: option.split)
qed

text \<open>
  a configuration survives being saved and loaded: reading the text a configuration is
  saved as gives the sanitised configuration, for every server address and list of servers, if
  the address holds no line break and the selector is one the file can name.
\<close>

theorem config_save_load:
  assumes "json_strings_laws js" "saveable c"
  shows "parse_config api js (render_config api js c) = AppConfig_sanitized api c"
  using assms by (rule parse_render)

text \<open>A printer and parser of lists of strings, characters in unary, at which the laws hold.\<close>

definition sample_encode :: "rstr \<Rightarrow> rstr" where
  "sample_encode s = concat (map (\<lambda>c. replicate c 49 @ [50]) s) @ [51]"

fun sample_decode :: "nat \<Rightarrow> rstr \<Rightarrow> rstr list \<Rightarrow> rstr \<Rightarrow> rstr list option" where
  "sample_decode n s acc [] = None"
| "sample_decode n s acc (c # t) = (if c = 49 then sample_decode (n + 1) s acc t
     else if c = 50 then sample_decode 0 (s @ [n]) acc t
     else if c = 51 then sample_decode 0 [] (acc @ [s]) t
     else if c = 93 \<and> t = [] then Some acc else None)"

definition sample_json_strings :: json_strings where
  "sample_json_strings = \<lparr>js_render = (\<lambda>ss. 91 # concat (map sample_encode ss) @ [93]),
     js_parse = (\<lambda>t. case t of [] \<Rightarrow> None | _ # t \<Rightarrow> sample_decode 0 [] [] t)\<rparr>"

lemma sample_decode_steps:
  "sample_decode n s acc (replicate k 49 @ t) = sample_decode (n + k) s acc t"
  "sample_decode 0 s acc (concat (map (\<lambda>c. replicate c 49 @ [50]) u) @ t) = sample_decode 0 (s @ u) acc t"
  "sample_decode 0 [] acc (concat (map sample_encode ss) @ t) = sample_decode 0 [] (acc @ ss) t"
proof -
  show a: "sample_decode n s acc (replicate k 49 @ t) = sample_decode (n + k) s acc t" for n s acc k t
    by (induction k arbitrary: n) simp_all
  show b: "sample_decode 0 s acc (concat (map (\<lambda>c. replicate c 49 @ [50]) u) @ t) = sample_decode 0 (s @ u) acc t" for s acc u t
    by (induction u arbitrary: s) (simp_all add: a)
  show "sample_decode 0 [] acc (concat (map sample_encode ss) @ t) = sample_decode 0 [] (acc @ ss) t"
    by (induction ss arbitrary: acc) (simp_all add: sample_encode_def b)
qed

lemma sample_json_strings_laws: "json_strings_laws sample_json_strings"
  by (auto simp: json_strings_laws_def sample_json_strings_def sample_decode_steps(3) starts_with_iff lit_def
      trimmed_def is_ws_def sample_encode_def)

theorem config_save_load_witness:
  "parse_config sample_urls sample_json_strings (render_config sample_urls sample_json_strings
     (AppConfig_default\<lparr>cf_server := Some (lit '' http://h ''), cf_servers := [lit ''x'']\<rparr>))
   = AppConfig_sanitized sample_urls (AppConfig_default\<lparr>cf_server := Some (lit '' http://h ''), cf_servers := [lit ''x'']\<rparr>)"
proof (rule config_save_load [OF sample_json_strings_laws])
  show "saveable (AppConfig_default\<lparr>cf_server := Some (lit '' http://h ''), cf_servers := [lit ''x'']\<rparr>)"
    by (simp add: saveable_def AppConfig_default_def GpuSelector_sanitized_def GpuSelector_as_string_def
        GpuSelector_parse_def lit_def)
qed

text \<open>A selector that was parsed from one line of text is saveable, the two exceptions apart.\<close>

lemma no_break_lower: "10 \<notin> set s \<Longrightarrow> 10 \<notin> set (lower s)"
  by (auto simp: lower_char_def split: if_splits)

lemma no_break_trim: "10 \<notin> set s \<Longrightarrow> 10 \<notin> set (trim s)"
  using set_trim by blast

lemma no_break_normalize:
  assumes "10 \<notin> set s"
  shows "10 \<notin> set (normalize_pci_bdf s)"
proof (cases s rule: normalize_cases)
  case short
  have "10 \<notin> set (drop 4 s)" using assms in_set_dropD by fastforce
  then show ?thesis unfolding short(5) by (rule no_break_lower)
next
  case lower
  then show ?thesis using no_break_lower [OF assms] by simp
qed

lemma saveable_parsed:
  assumes "cf_gpu_selector c = GpuSelector_parse raw" "10 \<notin> set raw"
    and "\<forall>s. cf_server c = Some s \<longrightarrow> 10 \<notin> set s"
    and "GpuSelector_sanitized (GpuSelector_parse raw) \<noteq> Uuid (lit ''MIG-'')"
    and "\<And>b. GpuSelector_sanitized (GpuSelector_parse raw) = PciBusId b \<Longrightarrow>
      \<not> starts_with (lit ''gpu-'') b \<and> \<not> starts_with (lit ''mig-'') b"
  shows "saveable c"
proof -
  have "10 \<notin> set (GpuSelector_as_string (GpuSelector_parse raw))"
  proof (cases "GpuSelector_parse raw")
    case (Uuid u)
    then show ?thesis using no_break_trim [OF assms(2)]
      by (auto simp: GpuSelector_as_string_def GpuSelector_parse_def Let_def strip_prefix_def lit_def
          dest: in_set_dropD split: if_splits option.splits)
  next
    case (PciBusId b)
    then show ?thesis using no_break_trim [OF assms(2)]
      by (auto simp: GpuSelector_as_string_def GpuSelector_parse_def Let_def split: if_splits option.splits)
  qed (simp_all add: GpuSelector_as_string_def)
  then have "10 \<notin> set (GpuSelector_as_string (GpuSelector_sanitized (GpuSelector_parse raw)))"
    by (cases "GpuSelector_parse raw") (simp_all add: GpuSelector_as_string_def GpuSelector_sanitized_def Let_def
        no_break_trim no_break_normalize)
  then show ?thesis using selector_reparse [OF refl assms(4,5)] assms(1,3) by (simp add: saveable_def)
qed

end
