(* ===== verification/Cpu.thy ===== *)
theory Cpu
  imports Sys Config
begin

text \<open>
  The CPU topology, from \<^verbatim>\<open>src/cpu.rs\<close>: the identity of the processor, the CPU lists of the kernel, the
  grouping of logical CPUs into physical cores, and the three ways to tell performance from efficiency cores.
  The vectors indexed by CPU id are lists; a write outside of one is dropped, as \<^verbatim>\<open>get_mut\<close> does.
\<close>

datatype CpuVendor = VendorIntel | VendorAmd | VendorOther | VendorUnknown

datatype CpuCoreKind = KindPerformance | KindEfficiency | KindLowPower | KindUnknown

record CpuPhysicalCore =
  pc_kind :: CpuCoreKind
  pc_logical_cpus :: "nat list"

record CpuTopology =
  ct_vendor :: CpuVendor
  ct_model :: rstr
  ct_logical_cpus :: nat
  ct_physical_cores :: "nat option"
  ct_performance_cores :: "nat option"
  ct_efficiency_cores :: "nat option"
  ct_low_power_cores :: "nat option"
  ct_core_kinds :: "CpuCoreKind list"
  ct_physical_core_groups :: "CpuPhysicalCore list"
  ct_online :: "bool list"

definition is_hybrid :: "CpuTopology \<Rightarrow> bool" where
  "is_hybrid t \<longleftrightarrow> list_ex (\<lambda>k. k = KindPerformance) (ct_core_kinds t) \<and> list_ex (\<lambda>k. k = KindEfficiency) (ct_core_kinds t)"

definition count_kind :: "CpuCoreKind list \<Rightarrow> CpuCoreKind \<Rightarrow> nat" where
  "count_kind kinds target = length (filter (\<lambda>k. k = target) kinds)"

section \<open>CPU lists\<close>

text \<open>\<^verbatim>\<open>str::split\<close> at the characters of a predicate.\<close>

fun split_by :: "(rchar \<Rightarrow> bool) \<Rightarrow> rstr \<Rightarrow> rstr list" where
  "split_by P [] = [[]]"
| "split_by P (c # s) = (if P c then [] # split_by P s
     else (case split_by P s of w # ws \<Rightarrow> (c # w) # ws | [] \<Rightarrow> [[c]]))"

definition is_list_separator :: "rchar \<Rightarrow> bool" where
  "is_list_separator c \<longleftrightarrow> c = 44 \<or> is_ws c"

definition parse_usize :: "rstr \<Rightarrow> nat option" where
  "parse_usize s = parse_nat 64 s"

definition cpu_range :: "rstr \<Rightarrow> nat list option" where
  "cpu_range part = (case split_once 45 part of
       Some (first, final) \<Rightarrow> Option.bind (parse_usize (trim first)) (\<lambda>start. Option.bind (parse_usize (trim final)) (\<lambda>end_cpu.
         if end_cpu < start then None else Some [start..<Suc end_cpu]))
     | None \<Rightarrow> map_option (\<lambda>cpu. [cpu]) (parse_usize (trim part)))"

definition parse_cpu_list :: "rstr \<Rightarrow> nat list option" where
  "parse_cpu_list s = (case those (map cpu_range (filter (\<lambda>part. part \<noteq> []) (split_by is_list_separator s))) of
       None \<Rightarrow> None | Some parts \<Rightarrow> if concat parts = [] then None else Some (concat parts))"

definition read_cpu_list_file :: "Sys \<Rightarrow> rstr \<Rightarrow> nat list option" where
  "read_cpu_list_file sys path = Option.bind (read_to_string sys path) parse_cpu_list"

definition cpu_read_u64 :: "Sys \<Rightarrow> rstr \<Rightarrow> u64 option" where
  "cpu_read_u64 sys path = Option.bind (read_to_string sys path) (\<lambda>s. parse_word (trim s))"

definition online_cpu_indices :: "nat \<Rightarrow> Sys \<Rightarrow> nat list" where
  "online_cpu_indices logical_cpus sys =
     unwrap_or [0..<logical_cpus] (opt_filter (\<lambda>cpus. cpus \<noteq> []) (read_cpu_list_file sys (lit ''/sys/devices/system/cpu/online'')))"

section \<open>The name of the processor\<close>

text \<open>\<^verbatim>\<open>str::replace\<close> of a non-empty pattern by nothing; \<open>k\<close> characters of a match remain to be dropped.\<close>

fun remove_from :: "nat \<Rightarrow> rstr \<Rightarrow> rstr \<Rightarrow> rstr" where
  "remove_from k p [] = []"
| "remove_from k p (c # s) = (if 0 < k then remove_from (k - 1) p s
     else if starts_with p (c # s) then remove_from (length p - 1) p s else c # remove_from 0 p s)"

definition remove_sub :: "rstr \<Rightarrow> rstr \<Rightarrow> rstr" where
  "remove_sub p s = remove_from 0 p s"

definition clean_model_name :: "rstr \<Rightarrow> rstr" where
  "clean_model_name value = join (lit '' '') (split_ws (remove_sub (lit '' Processor'') (remove_sub (lit '' CPU'')
     (remove_sub (lit ''(TM)'') (remove_sub (lit ''(R)'') value)))))"

definition identity_line :: "rstr \<Rightarrow> rstr \<Rightarrow> CpuVendor \<times> rstr \<Rightarrow> CpuVendor \<times> rstr" where
  "identity_line k value st = (case st of (vendor, model) \<Rightarrow>
     (if k = lit ''vendor_id'' \<and> vendor = VendorUnknown
        then (if value = lit ''GenuineIntel'' then VendorIntel else if value = lit ''AuthenticAMD'' then VendorAmd
              else if value \<noteq> [] then VendorOther else VendorUnknown) else vendor,
      if model = [] \<and> (k = lit ''model name'' \<or> k = lit ''Processor'' \<or> k = lit ''Hardware'') then clean_model_name value else model))"

fun identity_lines :: "rstr list \<Rightarrow> CpuVendor \<times> rstr \<Rightarrow> CpuVendor \<times> rstr" where
  "identity_lines [] st = st"
| "identity_lines (line # rest) st = (case split_once 58 line of None \<Rightarrow> identity_lines rest st
     | Some (k, value) \<Rightarrow> (let st' = identity_line (trim k) (trim value) st
         in if fst st' \<noteq> VendorUnknown \<and> snd st' \<noteq> [] then st' else identity_lines rest st'))"

definition parse_cpu_identity :: "rstr \<Rightarrow> CpuVendor \<times> rstr" where
  "parse_cpu_identity cpuinfo = identity_lines (lines cpuinfo) (VendorUnknown, [])"

section \<open>Classes of cores\<close>

definition apply_kind :: "CpuCoreKind list \<Rightarrow> nat list \<Rightarrow> CpuCoreKind \<Rightarrow> CpuCoreKind list" where
  "apply_kind kinds cpus k = foldl (\<lambda>ks cpu. ks[cpu := k]) kinds cpus"

definition detect_kernel_core_groups :: "nat \<Rightarrow> Sys \<Rightarrow> CpuCoreKind list" where
  "detect_kernel_core_groups logical_cpus sys = (let
       kinds = replicate logical_cpus KindUnknown;
       masked = (\<lambda>path k kinds. case read_cpu_list_file sys path of Some cpus \<Rightarrow> apply_kind kinds cpus k | None \<Rightarrow> kinds);
       kinds = masked (lit ''/sys/devices/cpu_core/cpus'') KindPerformance kinds;
       kinds = masked (lit ''/sys/devices/cpu_atom/cpus'') KindEfficiency kinds
     in masked (lit ''/sys/devices/cpu_lowpower/cpus'') KindLowPower kinds)"

definition has_multiple_core_kinds :: "CpuCoreKind list \<Rightarrow> bool" where
  "has_multiple_core_kinds kinds \<longleftrightarrow>
     2 \<le> length (filter (\<lambda>k. k \<in> set kinds) [KindPerformance, KindEfficiency, KindLowPower, KindUnknown])"

definition has_both_core_kinds :: "CpuCoreKind list \<Rightarrow> bool" where
  "has_both_core_kinds kinds \<longleftrightarrow> list_ex (\<lambda>k. k = KindPerformance) kinds \<and> list_ex (\<lambda>k. k = KindEfficiency) kinds"

text \<open>\<^verbatim>\<open>saturating_mul\<close> and \<^verbatim>\<open>div_ceil(2)\<close>.\<close>

definition sat_mul :: "u64 \<Rightarrow> u64 \<Rightarrow> u64" where
  "sat_mul a b = (if unat a * unat b < 2 ^ 64 then a * b else - 1)"

definition half_up :: "u64 \<Rightarrow> u64" where
  "half_up x = x div 2 + x mod 2"

definition capacity_kind :: "u64 \<Rightarrow> u64 option \<Rightarrow> CpuCoreKind" where
  "capacity_kind split value = (case value of None \<Rightarrow> KindUnknown
     | Some v \<Rightarrow> if split \<le> v then KindPerformance else KindEfficiency)"

definition classify_capacity_values :: "u64 option list \<Rightarrow> CpuCoreKind list option" where
  "classify_capacity_values capacities = (case List.map_filter (\<lambda>v. v) capacities of [] \<Rightarrow> None
     | v # vs \<Rightarrow> (let least = foldl min v vs; most = foldl max v vs in
         if most = 0 \<or> sat_mul most 95 < sat_mul least 100 then None
         else let kinds = map (capacity_kind (half_up (sat_add least most))) capacities
           in if has_both_core_kinds kinds then Some kinds else None))"

definition per_cpu :: "nat list \<Rightarrow> nat \<Rightarrow> (nat \<Rightarrow> 'a option) \<Rightarrow> 'a option list" where
  "per_cpu indices cpu_span probe = foldl (\<lambda>slots cpu. slots[cpu := probe cpu]) (replicate cpu_span None) indices"

definition cpu_path :: "nat \<Rightarrow> rstr \<Rightarrow> rstr" where
  "cpu_path cpu file = lit ''/sys/devices/system/cpu/cpu'' @ show_nat cpu @ lit ''/'' @ file"

definition detect_capacity_classes :: "nat list \<Rightarrow> nat \<Rightarrow> Sys \<Rightarrow> CpuCoreKind list option" where
  "detect_capacity_classes indices cpu_span sys =
     classify_capacity_values (per_cpu indices cpu_span (\<lambda>cpu. cpu_read_u64 sys (cpu_path cpu (lit ''cpu_capacity''))))"

definition sibling_kind :: "nat \<Rightarrow> nat \<Rightarrow> nat option \<Rightarrow> CpuCoreKind" where
  "sibling_kind least most value = (case value of None \<Rightarrow> KindUnknown
     | Some v \<Rightarrow> if v = most then KindPerformance else if v = least then KindEfficiency else KindUnknown)"

definition classify_sibling_counts :: "nat option list \<Rightarrow> CpuCoreKind list option" where
  "classify_sibling_counts counts = (case List.map_filter (\<lambda>v. v) counts of [] \<Rightarrow> None
     | v # vs \<Rightarrow> (let least = foldl min v vs; most = foldl max v vs in
         if least = 0 \<or> least = most then None
         else let in_between = list_ex (\<lambda>c. case c of Some n \<Rightarrow> n \<noteq> most \<and> n \<noteq> least | None \<Rightarrow> False) counts;
             kinds = map (sibling_kind least most) counts
           in if \<not> in_between \<and> has_both_core_kinds kinds then Some kinds else None))"

definition detect_smt_classes :: "nat list \<Rightarrow> nat \<Rightarrow> Sys \<Rightarrow> CpuCoreKind list option" where
  "detect_smt_classes indices cpu_span sys = classify_sibling_counts
     (per_cpu indices cpu_span (\<lambda>cpu. map_option length (read_cpu_list_file sys (cpu_path cpu (lit ''topology/core_cpus_list'')))))"

section \<open>Physical cores\<close>

definition read_core_group :: "nat \<Rightarrow> Sys \<Rightarrow> rstr option" where
  "read_core_group cpu sys = (case read_cpu_list_file sys (cpu_path cpu (lit ''topology/core_cpus_list'')) of
       Some cpus \<Rightarrow> Some (join (lit '','') (map show_nat cpus))
     | None \<Rightarrow> Option.bind (read_to_string sys (cpu_path cpu (lit ''topology/physical_package_id''))) (\<lambda>package.
         map_option (\<lambda>core. trim package @ lit '':'' @ trim core) (read_to_string sys (cpu_path cpu (lit ''topology/core_id'')))))"

definition read_core_groups :: "nat list \<Rightarrow> nat \<Rightarrow> Sys \<Rightarrow> rstr option list" where
  "read_core_groups indices cpu_span sys = per_cpu indices cpu_span (\<lambda>cpu. read_core_group cpu sys)"

text \<open>The cores found so far, in the order of their first CPU; a CPU joins its core or opens one.\<close>

fun add_to_core :: "rstr \<Rightarrow> CpuCoreKind \<Rightarrow> nat \<Rightarrow> (rstr \<times> CpuPhysicalCore) list \<Rightarrow> (rstr \<times> CpuPhysicalCore) list" where
  "add_to_core k kind cpu [] = [(k, \<lparr>pc_kind = kind, pc_logical_cpus = [cpu]\<rparr>)]"
| "add_to_core k kind cpu ((existing, core) # keyed) = (if existing = k
     then (existing, core\<lparr>pc_kind := if pc_kind core \<noteq> kind then KindUnknown else pc_kind core,
       pc_logical_cpus := pc_logical_cpus core @ [cpu]\<rparr>) # keyed
     else (existing, core) # add_to_core k kind cpu keyed)"

definition group_step ::
  "(rstr \<times> CpuPhysicalCore) list \<Rightarrow> nat \<times> rstr option \<times> CpuCoreKind \<Rightarrow> (rstr \<times> CpuPhysicalCore) list" where
  "group_step keyed x = (case x of (cpu, grp, kind) \<Rightarrow> (case grp of None \<Rightarrow> keyed | Some k \<Rightarrow> add_to_core k kind cpu keyed))"

definition build_physical_core_groups :: "rstr option list \<Rightarrow> CpuCoreKind list \<Rightarrow> CpuPhysicalCore list" where
  "build_physical_core_groups groups kinds = (if length groups \<noteq> length kinds \<or> groups = [] then []
     else map (\<lambda>(_, core). core\<lparr>pc_logical_cpus := sort (pc_logical_cpus core)\<rparr>)
       (foldl group_step [] (zip [0..<length groups] (zip groups kinds))))"

definition count_unique_groups :: "rstr option list \<Rightarrow> nat option" where
  "count_unique_groups groups = (let present = List.map_filter (\<lambda>g. g) groups in
     if present = [] then None else Some (length (remdups present)))"

fun kind_groups :: "CpuCoreKind \<Rightarrow> (rstr option \<times> CpuCoreKind) list \<Rightarrow> rstr list option" where
  "kind_groups target [] = Some []"
| "kind_groups target ((grp, kind) # rest) = (if kind \<noteq> target then kind_groups target rest
     else (case grp of None \<Rightarrow> None | Some k \<Rightarrow> map_option (\<lambda>ks. k # ks) (kind_groups target rest)))"

definition count_kind_groups :: "rstr option list \<Rightarrow> CpuCoreKind list \<Rightarrow> CpuCoreKind \<Rightarrow> nat option" where
  "count_kind_groups groups kinds target = (if \<not> has_multiple_core_kinds kinds \<or> length groups \<noteq> length kinds then None
     else map_option (\<lambda>ks. length (remdups ks)) (kind_groups target (zip groups kinds)))"

section \<open>The topology\<close>

definition detect_core_kinds :: "CpuVendor \<Rightarrow> nat list \<Rightarrow> nat \<Rightarrow> Sys \<Rightarrow> CpuCoreKind list" where
  "detect_core_kinds vendor indices cpu_span sys = (let
       kinds = detect_kernel_core_groups cpu_span sys;
       kinds = (if \<not> has_multiple_core_kinds kinds then unwrap_or kinds (detect_capacity_classes indices cpu_span sys) else kinds);
       kinds = (if \<not> has_multiple_core_kinds kinds \<and> vendor = VendorIntel then unwrap_or kinds (detect_smt_classes indices cpu_span sys) else kinds)
     in if \<not> has_multiple_core_kinds kinds then replicate (length kinds) KindUnknown else kinds)"

definition detect_topology :: "nat \<Rightarrow> Sys \<Rightarrow> CpuTopology" where
  "detect_topology logical_cpus sys = (let
       (vendor, model) = parse_cpu_identity (unwrap_or [] (read_to_string sys (lit ''/proc/cpuinfo'')));
       indices = online_cpu_indices logical_cpus sys;
       cpu_span = (if indices = [] then 0 else foldl max 0 indices + 1);
       online = foldl (\<lambda>slots cpu. slots[cpu := True]) (replicate cpu_span False) indices;
       groups = read_core_groups indices cpu_span sys;
       kinds = detect_core_kinds vendor indices cpu_span sys
     in \<lparr>ct_vendor = vendor, ct_model = model, ct_logical_cpus = length indices, ct_physical_cores = count_unique_groups groups,
       ct_performance_cores = count_kind_groups groups kinds KindPerformance,
       ct_efficiency_cores = count_kind_groups groups kinds KindEfficiency,
       ct_low_power_cores = count_kind_groups groups kinds KindLowPower, ct_core_kinds = kinds,
       ct_physical_core_groups = build_physical_core_groups groups kinds, ct_online = online\<rparr>)"

section \<open>The physical cores are those of a reference\<close>

text \<open>The core of a key: the CPUs that have it, and their class when it is the same for all.\<close>

definition core_upto :: "nat \<Rightarrow> rstr option list \<Rightarrow> CpuCoreKind list \<Rightarrow> rstr \<Rightarrow> CpuPhysicalCore" where
  "core_upto n groups kinds k = (let cpus = filter (\<lambda>i. groups ! i = Some k) [0..<n] in
     \<lparr>pc_kind = (if list_all (\<lambda>i. kinds ! i = kinds ! hd cpus) cpus then kinds ! hd cpus else KindUnknown), pc_logical_cpus = cpus\<rparr>)"

definition cores_upto :: "nat \<Rightarrow> rstr option list \<Rightarrow> CpuCoreKind list \<Rightarrow> (rstr \<times> CpuPhysicalCore) list" where
  "cores_upto n groups kinds = map (\<lambda>k. (k, core_upto n groups kinds k)) (first_of_key id {} (List.map_filter (\<lambda>g. g) (take n groups)))"

lemma add_to_core_map:
  "distinct ks \<Longrightarrow> add_to_core k kind cpu (map (\<lambda>g. (g, f g)) ks) =
    (if k \<in> set ks then map (\<lambda>g. (g, if g = k then (f g)\<lparr>pc_kind := if pc_kind (f g) \<noteq> kind then KindUnknown else pc_kind (f g),
       pc_logical_cpus := pc_logical_cpus (f g) @ [cpu]\<rparr> else f g)) ks
     else map (\<lambda>g. (g, f g)) ks @ [(k, \<lparr>pc_kind = kind, pc_logical_cpus = [cpu]\<rparr>)])"
  by (induction ks) auto

lemma in_map_filter: "k \<in> set (List.map_filter (\<lambda>g. g) xs) \<longleftrightarrow> Some k \<in> set xs"
  by (induction xs) (auto simp: List.map_filter_simps split: option.splits)

lemma in_map_filter_take: "n \<le> length xs \<Longrightarrow> k \<in> set (List.map_filter (\<lambda>g. g) (take n xs)) \<longleftrightarrow> (\<exists>i < n. xs ! i = Some k)"
  unfolding in_map_filter by (auto simp: in_set_conv_nth)

lemma core_upto_other: "groups ! n \<noteq> Some k \<Longrightarrow> core_upto (Suc n) groups kinds k = core_upto n groups kinds k"
  by (simp add: core_upto_def)

lemma core_upto_same:
  assumes "groups ! n = Some k" "i < n" "groups ! i = Some k"
  shows "core_upto (Suc n) groups kinds k = (let core = core_upto n groups kinds k in
    core\<lparr>pc_kind := if pc_kind core \<noteq> kinds ! n then KindUnknown else pc_kind core, pc_logical_cpus := pc_logical_cpus core @ [n]\<rparr>)"
proof -
  have "filter (\<lambda>i. groups ! i = Some k) [0..<n] \<noteq> []" using assms by (auto simp: filter_empty_conv)
  then show ?thesis using assms(1) by (auto simp: core_upto_def Let_def)
qed

lemma core_upto_first:
  assumes "groups ! n = Some k" "\<forall>i < n. groups ! i \<noteq> Some k"
  shows "core_upto (Suc n) groups kinds k = \<lparr>pc_kind = kinds ! n, pc_logical_cpus = [n]\<rparr>"
proof -
  have "filter (\<lambda>i. groups ! i = Some k) [0..<n] = []" using assms by (auto simp: filter_empty_conv)
  then show ?thesis using assms(1) by (simp add: core_upto_def Let_def)
qed

lemma cores_upto_Suc:
  assumes "n < length groups"
  shows "cores_upto (Suc n) groups kinds = group_step (cores_upto n groups kinds) (n, groups ! n, kinds ! n)"
proof (cases "groups ! n")
  case None
  then show ?thesis using assms
    by (simp add: cores_upto_def group_step_def take_Suc_conv_app_nth List.map_filter_def core_upto_other)
next
  case (Some k)
  let ?ks = "first_of_key id {} (List.map_filter (\<lambda>g. g) (take n groups))"
  have mem: "j \<in> set ?ks \<longleftrightarrow> (\<exists>i < n. groups ! i = Some j)" for j
    using assms by (simp add: set_first_of_key_id in_map_filter_take)
  have ks: "first_of_key id {} (List.map_filter (\<lambda>g. g) (take (Suc n) groups)) = ?ks @ (if k \<in> set ?ks then [] else [k])"
    using assms Some by (simp add: take_Suc_conv_app_nth List.map_filter_def first_of_key_snoc set_first_of_key_id)
  show ?thesis
  proof (cases "k \<in> set ?ks")
    case True
    then obtain i where i: "i < n" "groups ! i = Some k" using mem by blast
    have "core_upto (Suc n) groups kinds j = (if j = k then (core_upto n groups kinds j)\<lparr>
        pc_kind := if pc_kind (core_upto n groups kinds j) \<noteq> kinds ! n then KindUnknown else pc_kind (core_upto n groups kinds j),
        pc_logical_cpus := pc_logical_cpus (core_upto n groups kinds j) @ [n]\<rparr> else core_upto n groups kinds j)" for j
      using core_upto_same [OF Some i] core_upto_other [of groups n j] Some by (simp add: Let_def)
    then show ?thesis using True
      by (simp add: cores_upto_def group_step_def Some ks add_to_core_map [OF distinct_first_of_key_id])
  next
    case False
    then have "core_upto (Suc n) groups kinds k = \<lparr>pc_kind = kinds ! n, pc_logical_cpus = [n]\<rparr>"
      using mem by (intro core_upto_first [where n = n] Some) blast
    moreover have "core_upto (Suc n) groups kinds j = core_upto n groups kinds j" if "j \<in> set ?ks" for j
      using that False Some by (intro core_upto_other) auto
    ultimately show ?thesis using False
      by (simp add: cores_upto_def group_step_def Some ks add_to_core_map [OF distinct_first_of_key_id])
  qed
qed

lemma group_fold:
  assumes "length groups = length kinds" "n \<le> length groups"
  shows "foldl group_step [] (zip [0..<n] (zip (take n groups) (take n kinds))) = cores_upto n groups kinds"
  using assms(2)
proof (induction n)
  case 0
  then show ?case by (simp add: cores_upto_def List.map_filter_def)
next
  case (Suc n)
  then show ?case using assms(1) cores_upto_Suc [of n groups kinds] by (simp add: take_Suc_conv_app_nth)
qed

text \<open>
  C25: The physical cores are the distinct keys in the order of their first CPU, each with exactly the CPUs that
  report it in ascending order, and with their common class, unknown when they disagree.
\<close>

theorem physical_cores_reference:
  assumes "length groups = length kinds"
  shows "build_physical_core_groups groups kinds =
    map (core_upto (length groups) groups kinds) (first_of_key id {} (List.map_filter (\<lambda>g. g) groups))"
proof (cases "groups = []")
  case True
  then show ?thesis by (simp add: build_physical_core_groups_def List.map_filter_def)
next
  case False
  have "foldl group_step [] (zip [0..<length groups] (zip groups kinds)) = cores_upto (length groups) groups kinds"
    using group_fold [OF assms, of "length groups"] assms by simp
  moreover have "sort (pc_logical_cpus (core_upto n groups kinds k)) = pc_logical_cpus (core_upto n groups kinds k)" for n k
    by (simp add: core_upto_def Let_def sorted_sort_id sorted_wrt_filter)
  then have "(core_upto n groups kinds k)\<lparr>pc_logical_cpus := sort (pc_logical_cpus (core_upto n groups kinds k))\<rparr> = core_upto n groups kinds k" for n k
    by simp
  ultimately show ?thesis using assms False by (simp add: build_physical_core_groups_def cores_upto_def)
qed

section \<open>Classes from capacities\<close>

lemma foldl_min_Min: "foldl min v vs = Min (insert v (set vs))" for v :: "'a::linorder"
proof (induction vs arbitrary: v)
  case (Cons a vs)
  then show ?case by (cases "vs = []") (simp_all add: min.assoc)
qed simp

lemma foldl_max_Max: "foldl max v vs = Max (insert v (set vs))" for v :: "'a::linorder"
proof (induction vs arbitrary: v)
  case (Cons a vs)
  then show ?case by (cases "vs = []") (simp_all add: max.assoc)
qed simp

lemma unat_Min: "finite A \<Longrightarrow> A \<noteq> {} \<Longrightarrow> unat (Min A) = Min (unat ` A)" for A :: "'a::len word set"
  by (rule mono_Min_commute) (simp_all add: mono_def word_le_nat_alt)

lemma unat_Max: "finite A \<Longrightarrow> A \<noteq> {} \<Longrightarrow> unat (Max A) = Max (unat ` A)" for A :: "'a::len word set"
  by (rule mono_Max_commute) (simp_all add: mono_def word_le_nat_alt)

lemma unat_sat_mul: "unat (sat_mul a b) = min (unat a * unat b) (2 ^ 64 - 1)"
proof (cases "unat a * unat b < 2 ^ 64")
  case True
  then show ?thesis by (simp add: sat_mul_def unat_word_ariths)
next
  case False
  then show ?thesis using unat_max_word [where 'a = 64] by (simp add: sat_mul_def)
qed

lemma unat_half_up: "unat (half_up x) = (unat x + 1) div 2"
proof -
  have "unat x div 2 + unat x mod 2 < 2 ^ 64" using unsigned_less [of x, where ?'a = nat] by simp
  then have "unat (half_up x) = unat x div 2 + unat x mod 2" by (simp add: half_up_def unat_word_ariths unat_div unat_mod)
  then show ?thesis by presburger
qed

text \<open>The capacities the kernel reports.\<close>

definition reported_capacities :: "u64 option list \<Rightarrow> nat set" where
  "reported_capacities caps = unat ` {v. Some v \<in> set caps}"

definition capacity_class :: "nat \<Rightarrow> nat \<Rightarrow> u64 option \<Rightarrow> CpuCoreKind" where
  "capacity_class least most c = (case c of None \<Rightarrow> KindUnknown
     | Some v \<Rightarrow> if least + most \<le> 2 * unat v then KindPerformance else KindEfficiency)"

text \<open>
  Capacities yield classes exactly when they differ by more than five percent; the upper half of their range
  is performance, the lower half efficiency, and both occur.
\<close>

theorem capacity_classes:
  assumes "\<forall>v. Some v \<in> set caps \<longrightarrow> unat v * 100 < 2 ^ 64"
  shows "let V = reported_capacities caps in classify_capacity_values caps =
    (if V = {} \<or> Max V = 0 \<or> 95 * Max V < 100 * Min V then None else Some (map (capacity_class (Min V) (Max V)) caps))"
proof (cases "List.map_filter (\<lambda>v. v) caps")
  case Nil
  then have "reported_capacities caps = {}" using in_map_filter [of _ caps] by (auto simp: reported_capacities_def)
  then show ?thesis by (simp add: classify_capacity_values_def Nil)
next
  case (Cons v vs)
  define V where "V = reported_capacities caps"
  define least where "least = foldl min v vs"
  define most where "most = foldl max v vs"
  have W: "insert v (set vs) = {v. Some v \<in> set caps}" using in_map_filter [of _ caps] by (simp add: Cons set_eq_iff)
  have V: "V = unat ` insert v (set vs)" unfolding V_def reported_capacities_def W ..
  have "finite V" "V \<noteq> {}" by (simp_all add: V)
  have m: "unat least = Min V" "unat most = Max V"
    unfolding V least_def most_def foldl_min_Min foldl_max_Max by (simp_all add: unat_Min unat_Max)
  have lt: "Min V * 100 < 2 ^ 64" "Max V * 100 < 2 ^ 64"
    using Min_in [OF \<open>finite V\<close> \<open>V \<noteq> {}\<close>] Max_in [OF \<open>finite V\<close> \<open>V \<noteq> {}\<close>] assms by (auto simp: V_def reported_capacities_def)
  have guard: "most = 0 \<or> sat_mul most 95 < sat_mul least 100 \<longleftrightarrow> Max V = 0 \<or> 95 * Max V < 100 * Min V"
    using lt by (simp add: word_less_nat_alt unat_sat_mul m unat_eq_zero [symmetric])
  have split: "unat (half_up (sat_add least most)) = (Min V + Max V + 1) div 2"
    using lt by (simp add: unat_half_up unat_sat_add m)
  have kinds: "map (capacity_kind (half_up (sat_add least most))) caps = map (capacity_class (Min V) (Max V)) caps"
    by (auto simp: capacity_kind_def capacity_class_def word_le_nat_alt split split: option.split)
  have both: "has_both_core_kinds (map (capacity_class (Min V) (Max V)) caps)" if "\<not> (Max V = 0 \<or> 95 * Max V < 100 * Min V)"
  proof -
    have less: "Min V < Max V" using that by linarith
    obtain a b where "Some a \<in> set caps" "unat a = Min V" "Some b \<in> set caps" "unat b = Max V"
      using Min_in [OF \<open>finite V\<close> \<open>V \<noteq> {}\<close>] Max_in [OF \<open>finite V\<close> \<open>V \<noteq> {}\<close>] by (auto simp: V_def reported_capacities_def)
    moreover from this have "capacity_class (Min V) (Max V) (Some b) = KindPerformance" "capacity_class (Min V) (Max V) (Some a) = KindEfficiency"
      using less by (simp_all add: capacity_class_def)
    ultimately show ?thesis unfolding has_both_core_kinds_def list_ex_iff list.set_map by (metis image_eqI)
  qed
  show ?thesis unfolding Let_def V_def [symmetric] using \<open>V \<noteq> {}\<close> both
    by (simp add: classify_capacity_values_def Cons Let_def guard kinds flip: least_def most_def)
qed

section \<open>The topology is consistent\<close>

lemma length_foldl_update [simp]: "length (foldl (\<lambda>slots cpu. slots[cpu := f cpu]) xs cpus) = length xs"
  by (induction cpus arbitrary: xs) simp_all

lemma nth_foldl_update:
  "i < length xs \<Longrightarrow> foldl (\<lambda>slots cpu. slots[cpu := f cpu]) xs cpus ! i = (if i \<in> set cpus then f i else xs ! i)"
  by (induction cpus arbitrary: xs) (auto simp: nth_list_update)

lemma length_per_cpu [simp]: "length (per_cpu indices n probe) = n"
  by (simp add: per_cpu_def nth_foldl_update)

lemma per_cpu_nth [simp]: "i < n \<Longrightarrow> per_cpu indices n probe ! i = (if i \<in> set indices then probe i else None)"
  by (simp add: per_cpu_def nth_foldl_update)

lemma length_apply_kind [simp]: "length (apply_kind kinds cpus k) = length kinds"
  by (simp add: apply_kind_def)

lemma length_kernel_groups [simp]: "length (detect_kernel_core_groups n sys) = n"
  by (simp add: detect_kernel_core_groups_def Let_def split: option.split)

lemma length_capacity_kinds: "classify_capacity_values caps = Some kinds \<Longrightarrow> length kinds = length caps"
  by (auto simp: classify_capacity_values_def Let_def split: list.splits if_splits)

lemma length_sibling_kinds: "classify_sibling_counts counts = Some kinds \<Longrightarrow> length kinds = length counts"
  by (auto simp: classify_sibling_counts_def Let_def split: list.splits if_splits)

lemma length_detect_capacity: "detect_capacity_classes indices n sys = Some kinds \<Longrightarrow> length kinds = n"
  by (auto simp: detect_capacity_classes_def dest: length_capacity_kinds)

lemma length_detect_smt: "detect_smt_classes indices n sys = Some kinds \<Longrightarrow> length kinds = n"
  by (auto simp: detect_smt_classes_def dest: length_sibling_kinds)

lemma length_core_kinds [simp]: "length (detect_core_kinds vendor indices n sys) = n"
proof -
  have cap: "length (unwrap_or ks (detect_capacity_classes indices n sys)) = n" if "length ks = n" for ks
    using that by (auto simp: unwrap_or_def dest: length_detect_capacity split: option.split)
  have smt: "length (unwrap_or ks (detect_smt_classes indices n sys)) = n" if "length ks = n" for ks
    using that by (auto simp: unwrap_or_def dest: length_detect_smt split: option.split)
  show ?thesis by (simp add: detect_core_kinds_def Let_def cap smt)
qed

lemma core_kinds_resolved:
  "has_multiple_core_kinds (detect_core_kinds vendor indices n sys) \<or> detect_core_kinds vendor indices n sys = replicate n KindUnknown"
proof -
  have "detect_core_kinds vendor indices n sys = (let kinds = detect_core_kinds vendor indices n sys in
      if \<not> has_multiple_core_kinds kinds then replicate (length kinds) KindUnknown else kinds)"
    by (simp add: detect_core_kinds_def Let_def)
  then show ?thesis by (metis length_core_kinds)
qed

lemma count_unique_cores:
  assumes "length groups = length kinds"
  shows "count_unique_groups groups = (let cores = build_physical_core_groups groups kinds in if cores = [] then None else Some (length cores))"
proof -
  have "length (first_of_key id {} xs) = length (remdups xs)" for xs :: "rstr list"
    using distinct_card [OF distinct_first_of_key_id [of "{}" xs]] by (simp add: set_first_of_key_id length_remdups_card_conv)
  moreover have "first_of_key id {} xs = [] \<longleftrightarrow> xs = []" for xs :: "rstr list"
    using set_first_of_key_id [of "{}" xs] by (metis Diff_empty set_empty)
  ultimately show ?thesis by (simp add: count_unique_groups_def physical_cores_reference [OF assms] Let_def)
qed

lemma core_cpus: "set (pc_logical_cpus (core_upto n groups kinds k)) = {i. i < n \<and> groups ! i = Some k}"
  by (auto simp: core_upto_def Let_def)

lemma distinct_cores:
  assumes "length groups = length kinds"
  shows "distinct (concat (map pc_logical_cpus (build_physical_core_groups groups kinds)))"
proof -
  have "distinct (concat (map (\<lambda>k. pc_logical_cpus (core_upto n groups kinds k)) ks))" if "distinct ks" for n ks
    using that
  proof (induction ks)
    case (Cons k ks)
    have "distinct (pc_logical_cpus (core_upto n groups kinds k))" by (simp add: core_upto_def Let_def)
    then show ?case using Cons by (auto simp: core_cpus)
  qed simp
  from this [OF distinct_first_of_key_id] show ?thesis by (simp add: physical_cores_reference [OF assms] comp_def)
qed

lemma index_below: "i \<in> set indices \<Longrightarrow> i < (if indices = [] then 0 else foldl max 0 indices + 1)" for i :: nat
  by (auto simp: foldl_max_Max less_Suc_eq_le)

text \<open>
  The detected topology is consistent: exactly the inspected CPUs are marked online, every vector has one entry
  per CPU id, each physical core is a non-empty set of online CPUs that no other core shares, the number
  of cores is theirs, and the classes are either resolved or all unknown.
\<close>

theorem topology_consistent:
  "let t = detect_topology n sys; indices = online_cpu_indices n sys in
    length (ct_online t) = length (ct_core_kinds t) \<and>
    {i. i < length (ct_online t) \<and> ct_online t ! i} = set indices \<and>
    (\<forall>core \<in> set (ct_physical_core_groups t). pc_logical_cpus core \<noteq> [] \<and> set (pc_logical_cpus core) \<subseteq> set indices) \<and>
    distinct (concat (map pc_logical_cpus (ct_physical_core_groups t))) \<and>
    ct_physical_cores t = (if ct_physical_core_groups t = [] then None else Some (length (ct_physical_core_groups t))) \<and>
    (has_multiple_core_kinds (ct_core_kinds t) \<or> set (ct_core_kinds t) \<subseteq> {KindUnknown})"
proof -
  define indices where "indices = online_cpu_indices n sys"
  define m where "m = (if indices = [] then 0 else foldl max 0 indices + 1)"
  define groups where "groups = read_core_groups indices m sys"
  define kinds where "kinds = detect_core_kinds (fst (parse_cpu_identity (unwrap_or [] (read_to_string sys (lit ''/proc/cpuinfo''))))) indices m sys"
  define t where "t = detect_topology n sys"
  have t: "ct_online t = foldl (\<lambda>slots cpu. slots[cpu := True]) (replicate m False) indices" "ct_core_kinds t = kinds"
    "ct_physical_core_groups t = build_physical_core_groups groups kinds" "ct_physical_cores t = count_unique_groups groups"
    by (simp_all add: t_def detect_topology_def Let_def case_prod_beta groups_def kinds_def m_def indices_def)
  have len: "length groups = m" "length kinds = m" by (simp_all add: groups_def read_core_groups_def kinds_def)
  then have same: "length groups = length kinds" by simp
  have online: "ct_online t ! i \<longleftrightarrow> i \<in> set indices" if "i < m" for i using that by (simp add: t nth_foldl_update)
  have below: "i < m" if "i \<in> set indices" for i using that index_below by (simp add: m_def)
  have lens: "length (ct_online t) = m" by (simp add: t nth_foldl_update)
  have grp: "i \<in> set indices" if "i < m" "groups ! i = Some k" for i k
    using that by (auto simp: groups_def read_core_groups_def split: if_splits)
  have cores: "pc_logical_cpus core \<noteq> [] \<and> set (pc_logical_cpus core) \<subseteq> set indices" if core: "core \<in> set (build_physical_core_groups groups kinds)" for core
  proof -
    have "core \<in> core_upto m groups kinds ` set (List.map_filter (\<lambda>g. g) groups)"
      using core by (simp only: physical_cores_reference [OF same] len(1) list.set_map set_first_of_key_id Diff_empty)
    then obtain k where "k \<in> set (List.map_filter (\<lambda>g. g) groups)" "core = core_upto m groups kinds k" by (elim imageE)
    then have k: "core = core_upto m groups kinds k" "Some k \<in> set groups" by (simp_all only: in_map_filter)
    then have "set (pc_logical_cpus core) \<noteq> {}" by (auto simp: core_cpus in_set_conv_nth len)
    then have "pc_logical_cpus core \<noteq> []" by (metis set_empty)
    moreover have "set (pc_logical_cpus core) \<subseteq> set indices" using grp by (auto simp: k(1) core_cpus)
    ultimately show ?thesis ..
  qed
  have "set kinds \<subseteq> {KindUnknown} \<or> has_multiple_core_kinds kinds"
    using core_kinds_resolved unfolding kinds_def by (metis set_replicate_conv_if subset_refl empty_subsetI)
  then show ?thesis unfolding Let_def t_def [symmetric] indices_def [symmetric]
    using online below cores distinct_cores [OF same] count_unique_cores [OF same]
    by (auto simp: lens t len Let_def)
qed

section \<open>CPU lists are read back\<close>

definition show_range :: "nat \<times> nat \<Rightarrow> rstr" where
  "show_range r = (case r of (a, b) \<Rightarrow> if a = b then show_nat a else show_nat a @ lit ''-'' @ show_nat b)"

lemma split_by_piece: "\<forall>c \<in> set w. \<not> P c \<Longrightarrow> P d \<Longrightarrow> split_by P (w @ d # s) = w # split_by P s"
  by (induction w) auto

lemma split_by_join:
  "\<forall>w \<in> set ws. w \<noteq> [] \<and> (\<forall>c \<in> set w. \<not> P c) \<Longrightarrow> P d \<Longrightarrow> P e \<Longrightarrow>
    filter (\<lambda>part. part \<noteq> []) (split_by P (join [d] ws @ [e])) = ws"
proof (induction ws rule: induct_list012)
  case (3 w w' ws)
  then show ?case by (simp add: split_by_piece)
qed (simp_all add: split_by_piece [where s = "[]"])

lemma show_range_plain: "c \<in> set (show_range r) \<Longrightarrow> is_digit c \<or> c = 45"
  by (auto simp: show_range_def lit_def dest: show_nat_digits split: prod.splits if_splits)

lemma trim_show_nat: "trim (show_nat n) = show_nat n"
  by (rule trim_id) (metis trimmed_def digit_not_ws show_nat_digits hd_in_set last_in_set)

lemma cpu_range_show: "a \<le> b \<Longrightarrow> b < 2 ^ 64 \<Longrightarrow> cpu_range (show_range (a, b)) = Some [a..<Suc b]"
proof -
  assume ab: "a \<le> b" "b < 2 ^ 64"
  have plain: "45 \<notin> set (show_nat n)" for n using show_nat_digits [of 45 n] by (auto simp: is_digit_def)
  then have none: "split_once 45 (show_nat n) = None" for n by (simp add: split_once_None)
  have some: "split_once 45 (show_nat a @ lit ''-'' @ show_nat b) = Some (show_nat a, show_nat b)"
    by (simp add: split_once_Some plain lit_def)
  have a: "a < 2 ^ 64" using ab by (rule le_less_trans)
  show ?thesis
  proof (cases "a = b")
    case True
    then show ?thesis using ab by (simp add: cpu_range_def show_range_def none parse_usize_def trim_show_nat parse_show_nat)
  next
    case False
    then show ?thesis using ab a
      by (simp add: cpu_range_def show_range_def some parse_usize_def trim_show_nat parse_show_nat del: upt_Suc)
  qed
qed

text \<open>A kernel list of CPUs and ranges is read back as the CPUs it stands for, in its order.\<close>

theorem cpu_list_roundtrip:
  assumes "ranges \<noteq> []" "\<forall>r \<in> set ranges. fst r \<le> snd r \<and> snd r < 2 ^ 64"
  shows "parse_cpu_list (join [44] (map show_range ranges) @ [10]) = Some (concat (map (\<lambda>r. [fst r..<Suc (snd r)]) ranges))"
proof -
  have "filter (\<lambda>part. part \<noteq> []) (split_by is_list_separator (join [44] (map show_range ranges) @ [10])) = map show_range ranges"
    by (rule split_by_join)
      (auto simp: is_list_separator_def is_ws_def is_digit_def show_range_def lit_def dest!: show_nat_digits split: prod.splits if_splits)
  moreover have "those (map cpu_range (map show_range ranges)) = Some (map (\<lambda>r. [fst r..<Suc (snd r)]) ranges)"
    using assms(2) by (induction ranges) (auto simp: cpu_range_show simp del: upt_Suc)
  moreover have "concat (map (\<lambda>r. [fst r..<Suc (snd r)]) ranges) \<noteq> []" using assms by (cases ranges) (auto simp del: upt_Suc)
  ultimately show ?thesis unfolding parse_cpu_list_def by (simp del: upt_Suc)
qed

theorem cpu_list_roundtrip_witness: "parse_cpu_list (lit ''0-3,8'' @ [10]) = Some [0, 1, 2, 3, 8]"
proof -
  have "join [44] (map show_range [(0, 3), (8, 8)]) = lit ''0-3,8''" by code_simp
  moreover have "[0..<Suc 3] = [0, 1, 2, 3]" "[8..<Suc 8] = [8::nat]" by code_simp+
  ultimately show ?thesis using cpu_list_roundtrip [of "[(0, 3), (8, 8)]"] by (simp del: upt_Suc)
qed

definition sample_groups :: "rstr option list" where
  "sample_groups = [Some (lit ''0,2''), Some (lit ''1''), Some (lit ''0,2''), None]"

definition sample_kinds :: "CpuCoreKind list" where
  "sample_kinds = [KindPerformance, KindEfficiency, KindPerformance, KindUnknown]"

theorem physical_cores_reference_witness:
  "build_physical_core_groups sample_groups sample_kinds =
    [\<lparr>pc_kind = KindPerformance, pc_logical_cpus = [0, 2]\<rparr>, \<lparr>pc_kind = KindEfficiency, pc_logical_cpus = [1]\<rparr>]"
proof -
  have "length sample_groups = length sample_kinds" by (simp add: sample_groups_def sample_kinds_def)
  moreover have "map (core_upto (length sample_groups) sample_groups sample_kinds)
      (first_of_key id {} (List.map_filter (\<lambda>g. g) sample_groups))
    = [\<lparr>pc_kind = KindPerformance, pc_logical_cpus = [0, 2]\<rparr>, \<lparr>pc_kind = KindEfficiency, pc_logical_cpus = [1]\<rparr>]" by code_simp
  ultimately show ?thesis by (simp only: physical_cores_reference)
qed

theorem capacity_classes_witness:
  "classify_capacity_values [Some 1024, None, Some 446] = Some [KindPerformance, KindUnknown, KindEfficiency] \<and>
   classify_capacity_values [Some 1024, Some 1000] = None"
proof -
  have "{v :: u64. Some v \<in> set [Some 1024, None, Some 446]} = {1024, 446}" "{v :: u64. Some v \<in> set [Some 1024, Some 1000]} = {1024, 1000}"
    by (auto simp del: list.set_intros)
  then have V: "reported_capacities [Some 1024, None, Some 446] = {1024, 446}" "reported_capacities [Some 1024, Some 1000] = {1024, 1000}"
    unfolding reported_capacities_def by (simp_all only: image_insert image_empty) simp_all
  show ?thesis
    using capacity_classes [of "[Some 1024, None, Some 446]"] capacity_classes [of "[Some 1024, Some 1000]"]
    by (simp add: V capacity_class_def)
qed

text \<open>A machine of two cores, one of them with two threads.\<close>

definition sample_cpus :: Sys where
  "sample_cpus = \<lparr>read_to_string = (\<lambda>p. if p = lit ''/sys/devices/system/cpu/online'' then Some (lit ''0-2'')
       else if p = cpu_path 0 (lit ''topology/core_cpus_list'') \<or> p = cpu_path 1 (lit ''topology/core_cpus_list'') then Some (lit ''0-1'')
       else if p = cpu_path 2 (lit ''topology/core_cpus_list'') then Some (lit ''2'')
       else if p = lit ''/proc/cpuinfo'' then Some (lit ''vendor_id : GenuineIntel'') else None),
     read_to_string_lossy = (\<lambda>_. None), read_dir = (\<lambda>_. None), symlink_target = (\<lambda>_. None),
     char_device_id = (\<lambda>_. None), read_dir_names = (\<lambda>_. None)\<rparr>"

theorem topology_consistent_witness:
  "distinct (concat (map pc_logical_cpus (ct_physical_core_groups (detect_topology 3 sample_cpus)))) \<and>
   ct_core_kinds (detect_topology 3 sample_cpus) = [KindPerformance, KindPerformance, KindEfficiency]"
proof
  show "distinct (concat (map pc_logical_cpus (ct_physical_core_groups (detect_topology 3 sample_cpus))))"
    using topology_consistent [of 3 sample_cpus] by (simp add: Let_def)
  show "ct_core_kinds (detect_topology 3 sample_cpus) = [KindPerformance, KindPerformance, KindEfficiency]" by code_simp
qed

end
