(* ===== verification/CpuSensors.thy ===== *)
theory CpuSensors
  imports Cpu Utf8
begin

text \<open>
  The CPU sensors, from \<^verbatim>\<open>src/cpu_sensors.rs\<close>: their discovery in /sys, and the frequency, temperature and
  power read from them.  A power sample reads every zone twice, at two moments; the time between is a parameter.
\<close>

definition RAPL_SAMPLE_US :: u64 where
  "RAPL_SAMPLE_US = 50000"

record FreqPolicy =
  fp_dir :: rstr
  fp_cpus :: "nat list"

record TempSensor =
  ts_path :: rstr
  ts_preferred :: bool

record PowerZone =
  pz_dir :: rstr
  pz_window_us :: u64

record SensorLayout =
  sl_freq_policies :: "FreqPolicy list"
  sl_temp_sensors :: "TempSensor list"
  sl_power_zones :: "PowerZone list"

section \<open>Discovery\<close>

definition is_dir_entry :: "SysEntry \<Rightarrow> bool" where
  "is_dir_entry e \<longleftrightarrow> se_is_dir e \<or> se_is_symlink e"

definition hwmon_path :: "rstr \<Rightarrow> rstr \<Rightarrow> rstr" where
  "hwmon_path hwmon file = (if file = [] then lit ''/sys/class/hwmon/'' @ hwmon
     else lit ''/sys/class/hwmon/'' @ hwmon @ lit ''/'' @ file)"

definition read_trimmed :: "Sys \<Rightarrow> rstr \<Rightarrow> rstr" where
  "read_trimmed sys path = trim (unwrap_or [] (read_to_string sys path))"

definition is_cpu_thermal_driver :: "rstr \<Rightarrow> bool" where
  "is_cpu_thermal_driver name \<longleftrightarrow> contains_sub (lit ''coretemp'') name \<or> contains_sub (lit ''k10temp'') name \<or>
     contains_sub (lit ''zenpower'') name \<or> contains_sub (lit ''x86_pkg'') name \<or> name = lit ''cpu'' \<or>
     (contains_sub (lit ''cpu'') name \<and> \<not> contains_sub (lit ''gpu'') name)"

definition is_package_label :: "rstr \<Rightarrow> bool" where
  "is_package_label label \<longleftrightarrow> (let label = lower label in
     contains_sub (lit ''package'') label \<or> contains_sub (lit ''tctl'') label \<or> contains_sub (lit ''cpu'') label)"

definition freq_policy :: "Sys \<Rightarrow> SysEntry \<Rightarrow> FreqPolicy option" where
  "freq_policy sys e = (if is_dir_entry e \<and> starts_with (lit ''policy'') (se_name e)
     then let dir = lit ''/sys/devices/system/cpu/cpufreq/'' @ se_name e
       in Some \<lparr>fp_dir = dir, fp_cpus = unwrap_or [0] (Option.bind (read_to_string sys (path_join dir (lit ''affected_cpus''))) parse_cpu_list)\<rparr>
     else None)"

definition discover_freq_policies :: "Sys \<Rightarrow> FreqPolicy list" where
  "discover_freq_policies sys = (case read_dir sys (lit ''/sys/devices/system/cpu/cpufreq'') of None \<Rightarrow> []
     | Some entries \<Rightarrow> List.map_filter (freq_policy sys) entries)"

text \<open>\<^verbatim>\<open>trim_end_matches("_input")\<close> strips every trailing copy.\<close>

definition temp_sensor :: "Sys \<Rightarrow> rstr \<Rightarrow> SysEntry \<Rightarrow> TempSensor option" where
  "temp_sensor sys hwmon e = (if starts_with (lit ''temp'') (se_name e) \<and> strip_suffix (lit ''_input'') (se_name e) \<noteq> None
     then let stem = trim_end_str (lit ''_input'') (se_name e)
       in Some \<lparr>ts_path = hwmon_path hwmon (se_name e), ts_preferred = is_package_label (read_trimmed sys (hwmon_path hwmon (stem @ lit ''_label'')))\<rparr>
     else None)"

definition hwmon_sensors :: "Sys \<Rightarrow> SysEntry \<Rightarrow> TempSensor list" where
  "hwmon_sensors sys hwmon = (if \<not> is_dir_entry hwmon \<or> \<not> starts_with (lit ''hwmon'') (se_name hwmon) \<or> se_name hwmon = lit ''hwmon'' then []
     else if \<not> is_cpu_thermal_driver (lower (read_trimmed sys (hwmon_path (se_name hwmon) (lit ''name'')))) then []
     else (case read_dir sys (hwmon_path (se_name hwmon) []) of None \<Rightarrow> []
       | Some entries \<Rightarrow> List.map_filter (temp_sensor sys (se_name hwmon)) entries))"

definition discover_temp_sensors :: "Sys \<Rightarrow> TempSensor list" where
  "discover_temp_sensors sys = (case read_dir sys (lit ''/sys/class/hwmon'') of None \<Rightarrow> []
     | Some hwmons \<Rightarrow> concat (map (hwmon_sensors sys) hwmons))"

definition power_zone :: "Sys \<Rightarrow> SysEntry \<Rightarrow> PowerZone option" where
  "power_zone sys zone = (if \<not> is_dir_entry zone \<or> \<not> starts_with (lit ''intel-rapl'') (se_name zone) then None
     else if starts_with (lit ''intel-rapl-mmio'') (se_name zone) then None
     else let dir = lit ''/sys/class/powercap/'' @ se_name zone in
       if \<not> starts_with (lit ''package'') (read_trimmed sys (path_join dir (lit ''name''))) then None
       else let udelay = cpu_read_u64 sys (path_join dir (lit ''udelay''));
           max_range = cpu_read_u64 sys (path_join dir (lit ''max_energy_range_uj''))
         in if udelay = None \<and> max_range = None then None
            else Some \<lparr>pz_dir = dir,
              pz_window_us = min (case udelay of Some u \<Rightarrow> sat_sub u 1 div 2 | None \<Rightarrow> RAPL_SAMPLE_US) RAPL_SAMPLE_US\<rparr>)"

definition discover_power_zones :: "Sys \<Rightarrow> PowerZone list" where
  "discover_power_zones sys = (case read_dir sys (lit ''/sys/class/powercap'') of None \<Rightarrow> []
     | Some zones \<Rightarrow> List.map_filter (power_zone sys) zones)"

definition discover :: "Sys \<Rightarrow> SensorLayout" where
  "discover sys = \<lparr>sl_freq_policies = discover_freq_policies sys, sl_temp_sensors = discover_temp_sensors sys,
     sl_power_zones = discover_power_zones sys\<rparr>"

section \<open>Samples\<close>

definition freq_step :: "Sys \<Rightarrow> f64 \<times> nat \<Rightarrow> FreqPolicy \<Rightarrow> f64 \<times> nat" where
  "freq_step sys acc policy = (case acc of (weighted_sum, weight) \<Rightarrow>
     (case cpu_read_u64 sys (path_join (fp_dir policy) (lit ''scaling_cur_freq'')) of None \<Rightarrow> acc
      | Some khz \<Rightarrow> if khz = 0 then acc else let mhz = fdiv (f64_of_u64 khz) (Fin 1000) in
          if \<not> is_finite mhz \<or> mhz \<le> Fin 0 then acc
          else let w = max (length (fp_cpus policy)) 1 in (fadd weighted_sum (fmul mhz (f64_of_nat w)), weight + w)))"

definition sample_frequency_mhz :: "SensorLayout \<Rightarrow> Sys \<Rightarrow> f64 option" where
  "sample_frequency_mhz layout sys = (case foldl (freq_step sys) (Fin 0, 0) (sl_freq_policies layout) of
     (weighted_sum, weight) \<Rightarrow> if 0 < weight then Some (fdiv weighted_sum (f64_of_nat weight)) else None)"

definition celsius_of :: "Sys \<Rightarrow> TempSensor \<Rightarrow> f64 option" where
  "celsius_of sys sensor = (case cpu_read_u64 sys (ts_path sensor) of None \<Rightarrow> None
     | Some raw \<Rightarrow> let celsius = fdiv (f64_of_u64 raw) (Fin 1000) in
         if Fin (- 20) \<le> celsius \<and> celsius \<le> Fin 150 then Some celsius else None)"

definition reduce_max :: "f64 list \<Rightarrow> f64 option" where
  "reduce_max xs = (case xs of [] \<Rightarrow> None | y # ys \<Rightarrow> Some (foldl fmax y ys))"

definition sample_temperature_c :: "SensorLayout \<Rightarrow> Sys \<Rightarrow> f64 option" where
  "sample_temperature_c layout sys = (let
       preferred = List.map_filter (celsius_of sys) (filter ts_preferred (sl_temp_sensors layout));
       fallback = List.map_filter (celsius_of sys) (filter (\<lambda>s. \<not> ts_preferred s) (sl_temp_sensors layout))
     in opt_or (reduce_max preferred) (reduce_max fallback))"

definition rapl_watts :: "u64 \<Rightarrow> u64 \<Rightarrow> u64 \<Rightarrow> f64 option" where
  "rapl_watts previous_uj energy_uj window_us = (if window_us = 0 \<or> energy_uj < previous_uj then None
     else Some (fdiv (f64_of_u64 (energy_uj - previous_uj)) (f64_of_u64 window_us)))"

definition sum_step :: "f64 \<times> bool \<Rightarrow> u64 \<times> u64 \<times> u64 \<Rightarrow> f64 \<times> bool" where
  "sum_step acc smp = (case smp of (previous_uj, energy_uj, window_us) \<Rightarrow>
     (case rapl_watts previous_uj energy_uj window_us of Some watts \<Rightarrow> (fadd (fst acc) watts, True) | None \<Rightarrow> acc))"

definition sum_rapl_watts :: "(u64 \<times> u64 \<times> u64) list \<Rightarrow> f64 option" where
  "sum_rapl_watts samples = (case foldl sum_step (Fin 0, False) samples of (watts, measured) \<Rightarrow> if measured then Some watts else None)"

definition zone_energy :: "Sys \<Rightarrow> PowerZone \<Rightarrow> u64 option" where
  "zone_energy sys zone = cpu_read_u64 sys (path_join (pz_dir zone) (lit ''energy_uj''))"

definition min_window :: "PowerZone list \<Rightarrow> u64" where
  "min_window zones = (case map pz_window_us zones of [] \<Rightarrow> 0 | w # ws \<Rightarrow> foldl min w ws)"

text \<open>The reads of \<open>sys\<close> come before the wait, those of \<open>sys'\<close> after it.\<close>

definition sample_power_w :: "SensorLayout \<Rightarrow> Sys \<Rightarrow> Sys \<Rightarrow> duration \<Rightarrow> f64 option" where
  "sample_power_w layout sys sys' elapsed = (let zones = sl_power_zones layout in
     if zones = [] then None
     else let baselines = map (zone_energy sys) zones in
       if min_window zones = 0 then None
       else let elapsed_us = of_nat (max (elapsed div 1000) 1) in
         sum_rapl_watts (List.map_filter (\<lambda>(zone, baseline). case baseline of None \<Rightarrow> None
           | Some previous_uj \<Rightarrow> map_option (\<lambda>energy_uj. (previous_uj, energy_uj, elapsed_us)) (zone_energy sys' zone)) (zip zones baselines)))"

section \<open>Temperature\<close>

lemma celsius_finite: "celsius_of sys s = Some t \<Longrightarrow> \<exists>q. t = Fin q \<and> - 20 \<le> q \<and> q \<le> 150"
  by (cases t) (auto simp: celsius_of_def Let_def split: option.splits if_splits)

lemma foldl_fmax_Fin: "foldl fmax (Fin a) (map Fin qs) = Fin (foldl max a qs)"
proof (induction qs arbitrary: a)
  case (Cons q qs)
  have "fmax (Fin a) (Fin q) = Fin (max a q)" by (simp add: fmax_def max_def)
  then show ?case using Cons by simp
qed simp

lemma reduce_max_Some:
  assumes "\<forall>x \<in> set xs. \<exists>q. x = Fin q"
  shows "reduce_max xs = Some t \<longleftrightarrow> t \<in> set xs \<and> (\<forall>x \<in> set xs. x \<le> t)"
proof (cases xs)
  case Nil
  then show ?thesis by (simp add: reduce_max_def)
next
  case (Cons y ys)
  obtain a where a: "y = Fin a" using assms by (auto simp: Cons)
  have "\<exists>qs. ys = map Fin qs" using assms by (auto simp: Cons ex_map_conv)
  then obtain qs where qs: "ys = map Fin qs" ..
  define A where "A = insert a (set qs)"
  have "finite A" "A \<noteq> {}" by (simp_all add: A_def)
  then have M: "Max A \<in> A" "\<forall>q \<in> A. q \<le> Max A" by simp_all
  have "set xs = Fin ` A" by (simp add: Cons a qs A_def)
  then have "t \<in> set xs \<and> (\<forall>x \<in> set xs. x \<le> t) \<longleftrightarrow> t = Fin (Max A)" using M by (auto intro: order_antisym)
  moreover have "reduce_max xs = Some (Fin (Max A))" by (simp add: reduce_max_def Cons a qs foldl_fmax_Fin foldl_max_Max A_def)
  ultimately show ?thesis by auto
qed

lemma reduce_max_None: "reduce_max xs = None \<longleftrightarrow> xs = []"
  by (simp add: reduce_max_def split: list.split)

lemma reduce_celsius:
  "reduce_max (List.map_filter (celsius_of sys) ss) = Some t \<longleftrightarrow>
    (\<exists>s \<in> set ss. celsius_of sys s = Some t) \<and> (\<forall>s \<in> set ss. \<forall>t'. celsius_of sys s = Some t' \<longrightarrow> t' \<le> t)"
proof -
  have mem: "x \<in> set (List.map_filter (celsius_of sys) ss) \<longleftrightarrow> (\<exists>s \<in> set ss. celsius_of sys s = Some x)" for x
    by (induction ss) (auto simp: List.map_filter_simps split: option.splits)
  have "\<exists>q. x = Fin q" if "celsius_of sys s = Some x" for s x using celsius_finite [OF that] by blast
  then have "\<forall>x \<in> set (List.map_filter (celsius_of sys) ss). \<exists>q. x = Fin q" unfolding Ball_def mem by blast
  from reduce_max_Some [OF this] show ?thesis unfolding Ball_def Bex_def mem by blast
qed

lemma reduce_celsius_None: "reduce_max (List.map_filter (celsius_of sys) ss) = None \<longleftrightarrow> (\<forall>s \<in> set ss. celsius_of sys s = None)"
  unfolding reduce_max_None by (induction ss) (auto simp: List.map_filter_simps split: option.splits)

text \<open>
  The temperature shown is the highest plausible reading of the package sensors, or of the others when no
  package sensor has one; it is between -20 and 150 degrees, and there is none exactly when no sensor has one.
\<close>

theorem temperature_spec:
  "(sample_temperature_c layout sys = Some t \<longleftrightarrow>
     (\<exists>s \<in> set (sl_temp_sensors layout). celsius_of sys s = Some t \<and>
        (\<forall>s' \<in> set (sl_temp_sensors layout). \<forall>t'. celsius_of sys s' = Some t' \<longrightarrow>
           ts_preferred s' = ts_preferred s \<and> t' \<le> t \<or> ts_preferred s \<and> \<not> ts_preferred s'))) \<and>
   (sample_temperature_c layout sys = Some t \<longrightarrow> Fin (- 20) \<le> t \<and> t \<le> Fin 150) \<and>
   (sample_temperature_c layout sys = None \<longleftrightarrow> (\<forall>s \<in> set (sl_temp_sensors layout). celsius_of sys s = None))"
proof -
  define P where "P = filter ts_preferred (sl_temp_sensors layout)"
  define F where "F = filter (\<lambda>s. \<not> ts_preferred s) (sl_temp_sensors layout)"
  have eq: "sample_temperature_c layout sys = opt_or (reduce_max (List.map_filter (celsius_of sys) P)) (reduce_max (List.map_filter (celsius_of sys) F))"
    by (simp add: sample_temperature_c_def P_def F_def)
  have some: "sample_temperature_c layout sys = Some u \<longleftrightarrow>
      reduce_max (List.map_filter (celsius_of sys) P) = Some u \<or>
      reduce_max (List.map_filter (celsius_of sys) P) = None \<and> reduce_max (List.map_filter (celsius_of sys) F) = Some u" for u
    unfolding eq by (auto simp: opt_or_def split: option.splits)
  have mem: "s \<in> set P \<longleftrightarrow> s \<in> set (sl_temp_sensors layout) \<and> ts_preferred s"
    "s \<in> set F \<longleftrightarrow> s \<in> set (sl_temp_sensors layout) \<and> \<not> ts_preferred s" for s by (auto simp: P_def F_def)
  have iff: "sample_temperature_c layout sys = Some u \<longleftrightarrow>
     (\<exists>s \<in> set (sl_temp_sensors layout). celsius_of sys s = Some u \<and>
        (\<forall>s' \<in> set (sl_temp_sensors layout). \<forall>t'. celsius_of sys s' = Some t' \<longrightarrow>
           ts_preferred s' = ts_preferred s \<and> t' \<le> u \<or> ts_preferred s \<and> \<not> ts_preferred s'))" for u
    unfolding some reduce_celsius reduce_celsius_None Ball_def Bex_def mem by fastforce
  have "sample_temperature_c layout sys = None \<longleftrightarrow> (\<forall>s \<in> set (sl_temp_sensors layout). celsius_of sys s = None)"
    unfolding eq using reduce_celsius_None [of sys P] reduce_celsius_None [of sys F] mem
    by (auto simp: opt_or_def split: option.splits)
  moreover have "Fin (- 20) \<le> t \<and> t \<le> Fin 150" if "sample_temperature_c layout sys = Some t"
    using that celsius_finite unfolding iff by fastforce
  ultimately show ?thesis using iff by blast
qed

section \<open>Power\<close>

text \<open>The watts of a zone whose counter did not go back between the two reads.\<close>

definition zone_watts :: "Sys \<Rightarrow> Sys \<Rightarrow> u64 \<Rightarrow> PowerZone \<Rightarrow> f64 option" where
  "zone_watts sys sys' us zone = (case (zone_energy sys zone, zone_energy sys' zone) of
       (Some a, Some b) \<Rightarrow> if a \<le> b then Some (fdiv (f64_of_u64 (b - a)) (f64_of_u64 us)) else None
     | _ \<Rightarrow> None)"

lemma sum_steps:
  assumes "us \<noteq> 0"
  shows "foldl sum_step (w, measured) (List.map_filter (\<lambda>(zone, baseline). case baseline of None \<Rightarrow> None
      | Some previous_uj \<Rightarrow> map_option (\<lambda>energy_uj. (previous_uj, energy_uj, us)) (zone_energy sys' zone)) (zip zones (map (zone_energy sys) zones)))
    = (foldl fadd w (List.map_filter (zone_watts sys sys' us) zones), measured \<or> List.map_filter (zone_watts sys sys' us) zones \<noteq> [])"
  using assms
  by (induction zones arbitrary: w measured)
    (auto simp: List.map_filter_simps zone_watts_def sum_step_def rapl_watts_def not_less split: option.splits)

lemma min_window_0: "min_window zones = 0 \<longleftrightarrow> zones = [] \<or> (\<exists>z \<in> set zones. pz_window_us z = 0)"
proof (cases zones)
  case (Cons z zs)
  have "Min (pz_window_us ` set zones) = 0 \<longleftrightarrow> (0 :: u64) \<in> pz_window_us ` set zones"
    using Min_in [of "pz_window_us ` set zones"] Min_le [of "pz_window_us ` set zones" 0] by (auto simp: Cons)
  then show ?thesis by (auto simp: min_window_def Cons foldl_min_Min)
qed (simp add: min_window_def)

text \<open>
  The power is the sum over the zones whose counter was read twice and did not go back; there is none when
  no zone was, and none when a single zone has an empty window, however many others could be measured.
\<close>

theorem power_spec:
  assumes "elapsed div 1000 < 2 ^ 64"
  shows "let zones = sl_power_zones layout; watts = List.map_filter (zone_watts sys sys' (of_nat (max (elapsed div 1000) 1))) zones in
    sample_power_w layout sys sys' elapsed =
      (if (\<exists>z \<in> set zones. pz_window_us z = 0) \<or> watts = [] then None else Some (foldl fadd (Fin 0) watts))"
proof -
  define us :: u64 where "us = of_nat (max (elapsed div 1000) 1)"
  have "unat us = max (elapsed div 1000) 1" using assms by (simp add: us_def unat_of_nat take_bit_nat_eq_self)
  then have "us \<noteq> 0" by auto
  then show ?thesis unfolding sample_power_w_def Let_def us_def [symmetric] sum_rapl_watts_def sum_steps [OF \<open>us \<noteq> 0\<close>]
    by (auto simp: min_window_0 List.map_filter_simps)
qed

text \<open>
  A discovered zone is read over at most fifty milliseconds and, when the kernel tells after which time its
  counter may wrap, over less than half of that time.
\<close>

theorem power_window_bounds:
  assumes "z \<in> set (discover_power_zones sys)"
  shows "pz_window_us z \<le> 50000 \<and>
    (\<forall>u. cpu_read_u64 sys (path_join (pz_dir z) (lit ''udelay'')) = Some u \<and> u \<noteq> 0 \<longrightarrow> 2 * unat (pz_window_us z) < unat u)"
proof -
  have "\<exists>e. power_zone sys e = Some z"
  proof -
    have "z \<in> set (List.map_filter (power_zone sys) es) \<Longrightarrow> \<exists>e. power_zone sys e = Some z" for es
      by (induction es) (auto simp: List.map_filter_simps split: option.splits)
    then show ?thesis using assms by (auto simp: discover_power_zones_def List.map_filter_simps split: option.splits)
  qed
  then obtain e where e: "power_zone sys e = Some z" ..
  have half: "2 * unat (min (sat_sub u 1 div 2) RAPL_SAMPLE_US) < unat u" if "u \<noteq> 0" for u
  proof -
    have "unat (min (sat_sub u 1 div 2) RAPL_SAMPLE_US) \<le> unat (sat_sub u 1 div 2)" by (simp add: min_def word_le_nat_alt)
    also have "\<dots> = (unat u - 1) div 2" by (simp add: unat_div unat_sat_sub)
    finally show ?thesis using that by (simp add: unat_eq_zero [symmetric])
  qed
  have "pz_window_us z \<le> RAPL_SAMPLE_US" using e by (auto simp: power_zone_def Let_def split: if_splits option.splits)
  moreover have "2 * unat (pz_window_us z) < unat u" if "cpu_read_u64 sys (path_join (pz_dir z) (lit ''udelay'')) = Some u" "u \<noteq> 0" for u
    using e that half [OF that(2)] by (auto simp: power_zone_def Let_def split: if_splits option.splits)
  ultimately show ?thesis by (simp add: RAPL_SAMPLE_US_def)
qed

section \<open>A machine\<close>

text \<open>Two temperature sensors and two power zones, one of which has an empty window; \<open>uj\<close> is the energy read.\<close>

definition sensor_files :: "rstr \<Rightarrow> rstr \<Rightarrow> rstr option" where
  "sensor_files uj p = (if p = lit ''/t/package'' then Some (lit ''45000'') else if p = lit ''/t/core'' then Some (lit ''60000'')
     else if p = lit ''/p0/energy_uj'' \<or> p = lit ''/p1/energy_uj'' then Some uj
     else if p = lit ''/sys/class/powercap/intel-rapl:0/name'' then Some (lit ''package-0'')
     else if p = lit ''/sys/class/powercap/intel-rapl:0/udelay'' then Some (lit ''976'') else None)"

definition sensor_sys :: "rstr \<Rightarrow> Sys" where
  "sensor_sys uj = \<lparr>read_to_string = sensor_files uj, read_to_string_lossy = (\<lambda>_. None),
     read_dir = (\<lambda>_. Some [\<lparr>se_name = lit ''intel-rapl:0'', se_is_symlink = True, se_is_dir = False\<rparr>]),
     symlink_target = (\<lambda>_. None), char_device_id = (\<lambda>_. None), read_dir_names = (\<lambda>_. None)\<rparr>"

definition sensor_layout :: "u64 \<Rightarrow> SensorLayout" where
  "sensor_layout window = \<lparr>sl_freq_policies = [],
     sl_temp_sensors = [\<lparr>ts_path = lit ''/t/core'', ts_preferred = False\<rparr>, \<lparr>ts_path = lit ''/t/package'', ts_preferred = True\<rparr>],
     sl_power_zones = [\<lparr>pz_dir = lit ''/p0'', pz_window_us = 50000\<rparr>, \<lparr>pz_dir = lit ''/p1'', pz_window_us = window\<rparr>]\<rparr>"

theorem temperature_spec_witness:
  "sample_temperature_c (sensor_layout 0) (sensor_sys []) = Some (Fin 45) \<and> Fin 45 \<le> Fin 150"
proof -
  have "cpu_read_u64 (sensor_sys []) (lit ''/t/package'') = Some 45000" "cpu_read_u64 (sensor_sys []) (lit ''/t/core'') = Some 60000" by code_simp+
  then have "sample_temperature_c (sensor_layout 0) (sensor_sys []) = Some (Fin 45)"
    by (simp add: sample_temperature_c_def sensor_layout_def List.map_filter_simps celsius_of_def Let_def f64_of_u64_def f64_of_nat_def
      rnd_numeral reduce_max_def opt_or_def)
  then show ?thesis using temperature_spec [of "sensor_layout 0" "sensor_sys []" "Fin 45"] by blast
qed

theorem power_spec_witness:
  "sample_power_w (sensor_layout 0) (sensor_sys (lit ''0'')) (sensor_sys (lit ''1000000'')) 50000000 = None \<and>
   sample_power_w (sensor_layout 50000) (sensor_sys (lit ''0'')) (sensor_sys (lit ''1000000'')) 50000000 = Some (Fin 40)"
proof
  show "sample_power_w (sensor_layout 0) (sensor_sys (lit ''0'')) (sensor_sys (lit ''1000000'')) 50000000 = None"
    using power_spec [of 50000000 "sensor_layout 0"] by (simp add: sensor_layout_def)
  have w: "List.map_filter (zone_watts (sensor_sys (lit ''0'')) (sensor_sys (lit ''1000000'')) (of_nat (max (50000000 div 1000) 1)))
      (sl_power_zones (sensor_layout 50000)) = [Fin 20, Fin 20]"
  proof -
    have "zone_energy (sensor_sys (lit ''0'')) z = Some 0 \<and> zone_energy (sensor_sys (lit ''1000000'')) z = Some 1000000"
      if "z \<in> set (sl_power_zones (sensor_layout 50000))" for z
    proof -
      have "list_all (\<lambda>z. zone_energy (sensor_sys (lit ''0'')) z = Some 0 \<and> zone_energy (sensor_sys (lit ''1000000'')) z = Some 1000000)
        (sl_power_zones (sensor_layout 50000))" by code_simp
      then show ?thesis using that by (simp add: list_all_iff)
    qed
    then show ?thesis
      by (simp add: sensor_layout_def List.map_filter_simps zone_watts_def f64_of_u64_def f64_of_nat_def rnd_numeral)
  qed
  have "\<not> (\<exists>z \<in> set (sl_power_zones (sensor_layout 50000)). pz_window_us z = 0)" by (simp add: sensor_layout_def)
  moreover have "foldl fadd (Fin 0) [Fin 20, Fin 20] = Fin 40" by (simp add: rnd_numeral)
  ultimately show "sample_power_w (sensor_layout 50000) (sensor_sys (lit ''0'')) (sensor_sys (lit ''1000000'')) 50000000 = Some (Fin 40)"
    using power_spec [of 50000000 "sensor_layout 50000" "sensor_sys (lit ''0'')" "sensor_sys (lit ''1000000'')"] unfolding Let_def w by simp
qed

theorem power_window_bounds_witness:
  "pz_window_us (hd (discover_power_zones (sensor_sys []))) \<le> 50000 \<and>
   2 * unat (pz_window_us (hd (discover_power_zones (sensor_sys [])))) < unat (976 :: u64)"
proof -
  have zones: "discover_power_zones (sensor_sys []) = [\<lparr>pz_dir = lit ''/sys/class/powercap/intel-rapl:0'', pz_window_us = 487\<rparr>]" by code_simp
  have u: "cpu_read_u64 (sensor_sys []) (path_join (lit ''/sys/class/powercap/intel-rapl:0'') (lit ''udelay'')) = Some 976" by code_simp
  show ?thesis using power_window_bounds [of "hd (discover_power_zones (sensor_sys []))" "sensor_sys []"] u by (simp add: zones)
qed

end
