(* ===== verification/GpuMap.thy ===== *)
theory GpuMap
  imports Sys
begin

text \<open>
  Which GPUs a server process uses, from \<^verbatim>\<open>src/gpu_map.rs\<close> and the identity gate of
  \<^verbatim>\<open>src/app/server.rs\<close>: the render nodes the process holds open, the NVML placements, and
  their union.  The filesystem answers are a \<^verbatim>\<open>Sys\<close>; NVML's answers are arguments.
\<close>

record DiscoveredGpu =
  dg_card :: rstr
  dg_device_id :: DeviceId
  dg_vendor :: GpuVendor
  dg_pci_vendor_id :: u16
  dg_pci_device_id :: u16
  dg_pci_class_code :: u32
  dg_driver :: rstr
  dg_render_nodes :: "rstr list"
  dg_outputs :: "rstr list"

section \<open>Evidence\<close>

definition render_devices :: "Sys \<Rightarrow> DiscoveredGpu list \<Rightarrow> (u64 \<times> DeviceId) list" where
  "render_devices sys gpus = concat (map (\<lambda>gpu. List.map_filter (\<lambda>node.
     map_option (\<lambda>dev. (dev, dg_device_id gpu)) (char_device_id sys (path_join (lit ''/dev/dri'') node)))
     (dg_render_nodes gpu)) gpus)"

definition fd_step :: "Sys \<Rightarrow> rstr \<Rightarrow> (u64 \<times> DeviceId) list \<Rightarrow> DeviceId list \<Rightarrow> rstr \<Rightarrow> DeviceId list" where
  "fd_step sys fd_dir devices result name = (case char_device_id sys (path_join fd_dir name) of
       None \<Rightarrow> result
     | Some dev \<Rightarrow> (case find (\<lambda>(render_id, _). render_id = dev) devices of
         None \<Rightarrow> result
       | Some (_, device) \<Rightarrow>
           if list_ex (\<lambda>d. DeviceId_key d = DeviceId_key device) result then result else result @ [device]))"

definition proc_fd_dir :: "u32 \<Rightarrow> rstr" where
  "proc_fd_dir pid = path_join (path_join (lit ''/proc'') (show_word pid)) (lit ''fd'')"

definition process_render_gpus :: "Sys \<Rightarrow> u32 \<Rightarrow> DiscoveredGpu list \<Rightarrow> DeviceId list" where
  "process_render_gpus sys pid gpus = (let devices = render_devices sys gpus in
     if devices = [] then [] else case read_dir_names sys (proc_fd_dir pid) of
         None \<Rightarrow> []
       | Some fd_names \<Rightarrow> foldl (fd_step sys (proc_fd_dir pid) devices) [] fd_names)"

definition attribute_process_keys ::
  "DeviceId \<Rightarrow> (rstr \<times> (u32 \<times> u32) option) list \<Rightarrow> (u32 option \<times> u32 option) list \<Rightarrow> DeviceId list" where
  "attribute_process_keys parent children entries = map (\<lambda>entry. case entry of
       (Some gi, Some ci) \<Rightarrow> (case find (\<lambda>(_, inst). inst = Some (gi, ci)) children of
           Some (key, _) \<Rightarrow> DeviceId_new None (Some key) | None \<Rightarrow> parent)
     | _ \<Rightarrow> parent) entries"

text \<open>
  What NVML reports of one device: its bus id and UUID and, when the query succeeds, its running
  compute processes with their instance ids.  \<open>None\<close> is a device handle that cannot be had.
\<close>

record NvmlDevice =
  nd_bus_id :: "rstr option"
  nd_uuid :: "rstr option"
  nd_compute :: "(u32 \<times> u32 option \<times> u32 option) list option"

record MigChild =
  mc_parent_index :: u32
  mc_slot :: u32
  mc_key :: rstr

definition MigChild_instance :: "MigChild \<Rightarrow> (u32 \<times> u32) option" where
  "MigChild_instance c = mig_instance (DeviceId_new None (Some (mc_key c)))"

definition nvml_device_keys :: "u32 \<Rightarrow> MigChild list \<Rightarrow> u32 \<Rightarrow> NvmlDevice option \<Rightarrow> DeviceId list" where
  "nvml_device_keys pid mig_children index device = (case device of None \<Rightarrow> [] | Some device \<Rightarrow>
     (case nd_compute device of None \<Rightarrow> [] | Some procs \<Rightarrow> (let
       entries = map snd (filter (\<lambda>p. fst p = pid) procs);
       parent = DeviceId_new (opt_nonempty (map_option normalize_pci_bdf (nd_bus_id device))) (opt_nonempty (nd_uuid device));
       children = (if list_ex (\<lambda>(gi, ci). gi \<noteq> None \<or> ci \<noteq> None) entries
         then map (\<lambda>c. (mc_key c, MigChild_instance c)) (filter (\<lambda>c. mc_parent_index c = index) mig_children) else [])
     in if entries = [] then [] else if DeviceId_key parent = [] then []
        else attribute_process_keys parent children entries)))"

definition nvml_compute_gpus :: "NvmlDevice option list option \<Rightarrow> u32 \<Rightarrow> MigChild list \<Rightarrow> DeviceId list" where
  "nvml_compute_gpus nvml pid mig_children = (case nvml of None \<Rightarrow> [] | Some devices \<Rightarrow>
     concat (map (\<lambda>(i, d). nvml_device_keys pid mig_children (of_nat i) d) (zip [0..<length devices] devices)))"

section \<open>The union of the evidence\<close>

definition mapped_gpu :: "DiscoveredGpu list \<Rightarrow> rstr \<Rightarrow> DeviceId \<Rightarrow> GpuEvidence \<Rightarrow> MappedGpu" where
  "mapped_gpu gpus key device evidence = (let discovered = find (\<lambda>g. DeviceId_key (dg_device_id g) = key) gpus in
     \<lparr>mg_device = device, mg_name = (case discovered of Some g \<Rightarrow> dg_card g | None \<Rightarrow> []),
      mg_vendor = (case discovered of Some g \<Rightarrow> dg_vendor g | None \<Rightarrow> UnknownVendor), mg_evidence = evidence\<rparr>)"

fun merge_insert :: "DiscoveredGpu list \<Rightarrow> rstr \<Rightarrow> DeviceId \<Rightarrow> GpuEvidence \<Rightarrow> (rstr \<times> MappedGpu) list \<Rightarrow> (rstr \<times> MappedGpu) list" where
  "merge_insert gpus key device evidence [] = [(key, mapped_gpu gpus key device evidence)]"
| "merge_insert gpus key device evidence ((k, m) # merged) =
     (if k = key then (k, if evidence = RenderNodeFd then m\<lparr>mg_evidence := RenderNodeFd\<rparr> else m) # merged
      else (k, m) # merge_insert gpus key device evidence merged)"

definition render_key :: "nat \<Rightarrow> DeviceId \<Rightarrow> rstr" where
  "render_key i device = (if DeviceId_key device = [] then 0 # lit ''render:'' @ show_nat i else DeviceId_key device)"

definition insert_render ::
  "DiscoveredGpu list \<Rightarrow> (rstr \<times> MappedGpu) list \<Rightarrow> nat \<times> DeviceId \<Rightarrow> (rstr \<times> MappedGpu) list" where
  "insert_render gpus merged = (\<lambda>(i, device). merge_insert gpus (render_key i device) device RenderNodeFd merged)"

definition insert_nvml ::
  "DiscoveredGpu list \<Rightarrow> (rstr \<times> MappedGpu) list \<Rightarrow> DeviceId \<Rightarrow> (rstr \<times> MappedGpu) list" where
  "insert_nvml gpus merged device = (if DeviceId_key device = [] then merged
     else merge_insert gpus (DeviceId_key device) device NvmlCompute merged)"

definition merged_gpus :: "DeviceId list \<Rightarrow> DeviceId list \<Rightarrow> DiscoveredGpu list \<Rightarrow> (rstr \<times> MappedGpu) list" where
  "merged_gpus render nvml gpus = sort_key fst
     (foldl (insert_nvml gpus) (foldl (insert_render gpus) [] (zip [0..<length render] render)) nvml)"

definition combine_gpus :: "DeviceId list \<Rightarrow> DeviceId list \<Rightarrow> DiscoveredGpu list \<Rightarrow> GpuMapping" where
  "combine_gpus render nvml gpus = (case map snd (merged_gpus render nvml gpus) of
       [] \<Rightarrow> MapNone | [device] \<Rightarrow> Single device | devices \<Rightarrow> Multi devices)"

definition map_server_gpus :: "bool \<Rightarrow> DeviceId list \<Rightarrow> DeviceId list \<Rightarrow> DiscoveredGpu list \<Rightarrow> GpuMapping" where
  "map_server_gpus server_running render nvml gpus = (if \<not> server_running then MapUnknown
     else case combine_gpus render nvml gpus of MapNone \<Rightarrow> MapUnknown | other \<Rightarrow> other)"

definition map_server_identity ::
  "LocalServerIdentity \<Rightarrow> u64 option \<Rightarrow> DeviceId list \<Rightarrow> DeviceId list \<Rightarrow> DiscoveredGpu list \<Rightarrow> GpuMapping" where
  "map_server_identity expected current_start_time render nvml gpus =
     (if current_start_time \<noteq> Some (ls_start_time expected) then MapUnknown
      else map_server_gpus True render nvml gpus)"


section \<open>What a mapping rests on\<close>

definition mapping_devices :: "GpuMapping \<Rightarrow> MappedGpu list" where
  "mapping_devices m = (case m of Single g \<Rightarrow> [g] | Multi gs \<Rightarrow> gs | _ \<Rightarrow> [])"

text \<open>An entry of the union: from an open render node, or else from NVML alone.\<close>

definition entry_ok :: "(nat \<times> DeviceId) set \<Rightarrow> DeviceId set \<Rightarrow> rstr \<times> MappedGpu \<Rightarrow> bool" where
  "entry_ok R N e \<longleftrightarrow> (case mg_evidence (snd e) of
       RenderNodeFd \<Rightarrow> \<exists>i. (i, mg_device (snd e)) \<in> R \<and> fst e = render_key i (mg_device (snd e))
     | NvmlCompute \<Rightarrow> mg_device (snd e) \<in> N \<and> fst e = DeviceId_key (mg_device (snd e)) \<and> fst e \<noteq> [] \<and>
         fst e \<notin> (\<lambda>(i, d). render_key i d) ` R)"

definition nvml_keys :: "DeviceId set \<Rightarrow> rstr set" where
  "nvml_keys N = DeviceId_key ` N - {[]}"

definition merged_ok :: "(nat \<times> DeviceId) set \<Rightarrow> DeviceId set \<Rightarrow> (rstr \<times> MappedGpu) list \<Rightarrow> bool" where
  "merged_ok R N M \<longleftrightarrow> distinct (map fst M) \<and> (\<forall>e \<in> set M. entry_ok R N e) \<and>
     fst ` set M = (\<lambda>(i, d). render_key i d) ` R \<union> nvml_keys N"

lemma fst_merge_insert: "fst ` set (merge_insert gpus key device ev M) = insert key (fst ` set M)"
  by (induction gpus key device ev M rule: merge_insert.induct) auto

lemma distinct_merge_insert:
  "distinct (map fst M) \<Longrightarrow> distinct (map fst (merge_insert gpus key device ev M))"
  by (induction gpus key device ev M rule: merge_insert.induct) (auto simp: fst_merge_insert image_iff)

lemma set_merge_insert:
  "e \<in> set (merge_insert gpus key device ev M) \<Longrightarrow>
     e \<in> set M \<or> (key \<notin> fst ` set M \<and> e = (key, mapped_gpu gpus key device ev)) \<or>
     (ev = RenderNodeFd \<and> (\<exists>m. (key, m) \<in> set M \<and> e = (key, m\<lparr>mg_evidence := RenderNodeFd\<rparr>)))"
  by (induction gpus key device ev M rule: merge_insert.induct) (auto split: if_splits)

lemma mapped_gpu_fields [simp]:
  "mg_device (mapped_gpu gpus key device ev) = device" "mg_evidence (mapped_gpu gpus key device ev) = ev"
  by (simp_all add: mapped_gpu_def Let_def)

lemma entry_ok_render:
  "entry_ok R {} e \<longleftrightarrow> mg_evidence (snd e) = RenderNodeFd \<and>
     (\<exists>i. (i, mg_device (snd e)) \<in> R \<and> fst e = render_key i (mg_device (snd e)))"
  by (cases "mg_evidence (snd e)") (auto simp: entry_ok_def)

lemma merged_ok_render:
  assumes "merged_ok R {} M"
  shows "merged_ok (insert x R) {} (insert_render gpus M x)"
proof -
  obtain i d where x: "x = (i, d)" by (cases x)
  have "entry_ok (insert x R) {} e" if e: "e \<in> set (insert_render gpus M x)" for e
  proof -
    have "e \<in> set (merge_insert gpus (render_key i d) d RenderNodeFd M)" using e by (simp add: insert_render_def x)
    then consider "e \<in> set M" | "e = (render_key i d, mapped_gpu gpus (render_key i d) d RenderNodeFd)"
      | m where "(render_key i d, m) \<in> set M" "e = (render_key i d, m\<lparr>mg_evidence := RenderNodeFd\<rparr>)"
      using set_merge_insert [of e gpus "render_key i d" d RenderNodeFd M] by blast
    then show ?thesis
    proof cases
      case 3
      then have "entry_ok R {} (render_key i d, m)" using assms by (simp add: merged_ok_def)
      then show ?thesis using 3 by (auto simp: entry_ok_render)
    qed (use assms in \<open>auto simp: merged_ok_def entry_ok_render x\<close>)
  qed
  then show ?thesis using assms
    by (auto simp: merged_ok_def insert_render_def x distinct_merge_insert fst_merge_insert nvml_keys_def)
qed

lemma merged_ok_nvml:
  assumes "merged_ok R N M"
  shows "merged_ok R (insert d N) (insert_nvml gpus M d)"
proof (cases "DeviceId_key d = []")
  case False
  have "entry_ok R (insert d N) e" if "e \<in> set (insert_nvml gpus M d)" for e
    using set_merge_insert [of e gpus "DeviceId_key d" d NvmlCompute M] that assms False
    by (fastforce simp: insert_nvml_def merged_ok_def entry_ok_def split: GpuEvidence.splits)
  then show ?thesis using assms False
    by (auto simp: merged_ok_def insert_nvml_def distinct_merge_insert fst_merge_insert nvml_keys_def)
next
  case True
  then show ?thesis using assms
    by (fastforce simp: merged_ok_def insert_nvml_def nvml_keys_def entry_ok_def split: GpuEvidence.splits)
qed

lemma merged_ok_all:
  "merged_ok (set (zip [0..<length render] render)) (set nvml) (merged_gpus render nvml gpus)"
proof -
  have r: "merged_ok (R \<union> set xs) {} (foldl (insert_render gpus) M xs)" if "merged_ok R {} M" for R M xs
    using that by (induction xs arbitrary: R M) (simp, metis Un_insert_left Un_insert_right foldl_Cons list.simps(15) merged_ok_render)
  have n: "merged_ok R (N \<union> set ds) (foldl (insert_nvml gpus) M ds)" if "merged_ok R N M" for R N M ds
    using that by (induction ds arbitrary: N M) (simp, metis Un_insert_left Un_insert_right foldl_Cons list.simps(15) merged_ok_nvml)
  have "merged_ok {} {} []" by (simp add: merged_ok_def nvml_keys_def)
  from n [OF r [OF this]] show ?thesis
    by (simp add: merged_gpus_def merged_ok_def distinct_map inj_on_def)
qed


lemma mapping_devices_combine [simp]:
  "mapping_devices (combine_gpus render nvml gpus) = map snd (merged_gpus render nvml gpus)"
  by (auto simp: combine_gpus_def mapping_devices_def split: list.splits)

lemma mapping_devices_server:
  "mapping_devices (map_server_identity expected start render nvml gpus) =
     (if start = Some (ls_start_time expected) then map snd (merged_gpus render nvml gpus) else [])"
  using mapping_devices_combine [of render nvml gpus]
  by (cases "combine_gpus render nvml gpus") (auto simp: map_server_identity_def map_server_gpus_def mapping_devices_def)

lemma render_key_plain: "DeviceId_key d \<noteq> [] \<Longrightarrow> render_key i d = DeviceId_key d"
  by (simp add: render_key_def)

lemma zip_upt_snd: "(i, d) \<in> set (zip [0..<length xs] xs) \<Longrightarrow> d \<in> set xs"
  by (auto simp: set_zip)

lemma zip_upt_ex: "d \<in> set xs \<Longrightarrow> \<exists>i. (i, d) \<in> set (zip [0..<length xs] xs)"
  by (force simp: set_zip in_set_conv_nth)

text \<open>
  C13: no device is attributed to a server without evidence: every device of the mapping is one
  whose render node the process holds open, or one NVML names and no render node does, and there
  is none unless the process still has the start time it was discovered with.
\<close>

theorem gpu_map_evidence:
  assumes "g \<in> set (mapping_devices (map_server_identity expected start render nvml gpus))"
  shows "start = Some (ls_start_time expected) \<and>
    (if mg_evidence g = RenderNodeFd then mg_device g \<in> set render
     else mg_device g \<in> set nvml \<and> DeviceId_key (mg_device g) \<noteq> [] \<and> DeviceId_key (mg_device g) \<notin> DeviceId_key ` set render)"
proof -
  let ?R = "set (zip [0..<length render] render)"
  have s: "start = Some (ls_start_time expected)" using assms by (auto simp: mapping_devices_server split: if_splits)
  then obtain k where "(k, g) \<in> set (merged_gpus render nvml gpus)" using assms by (auto simp: mapping_devices_server)
  then have e: "entry_ok ?R (set nvml) (k, g)" using merged_ok_all by (auto simp: merged_ok_def)
  show ?thesis
  proof (cases "mg_evidence g")
    case NvmlCompute
    then have k: "mg_device g \<in> set nvml" "k = DeviceId_key (mg_device g)" "k \<noteq> []" "k \<notin> (\<lambda>(i, d). render_key i d) ` ?R"
      using e by (auto simp: entry_ok_def)
    have "DeviceId_key d \<noteq> k" if d: "d \<in> set render" for d
    proof
      assume "DeviceId_key d = k"
      moreover obtain i where "(i, d) \<in> ?R" using zip_upt_ex [OF d] by blast
      ultimately show False using k(3,4) render_key_plain [of d i] by force
    qed
    then have "k \<notin> DeviceId_key ` set render" by blast
    then show ?thesis using s k NvmlCompute by simp
  qed (use s e in \<open>auto simp: entry_ok_def dest: zip_upt_snd\<close>)
qed

theorem gpu_map_evidence_witness:
  "DeviceId_new None (Some (lit ''GPU-1'')) \<in>
     set [DeviceId_new None (Some (lit ''GPU-1''))] \<and>
   mapping_devices (map_server_identity \<lparr>ls_pid = 7, ls_start_time = 5\<rparr> (Some 5) [] [DeviceId_new None (Some (lit ''GPU-1''))] []) \<noteq> []"
proof -
  let ?m = "map_server_identity \<lparr>ls_pid = 7, ls_start_time = 5\<rparr> (Some 5) [] [DeviceId_new None (Some (lit ''GPU-1''))] []"
  let ?g = "mapped_gpu [] (lit ''GPU-1'') (DeviceId_new None (Some (lit ''GPU-1''))) NvmlCompute"
  have m: "mapping_devices ?m = [?g]"
    by (simp add: mapping_devices_server merged_gpus_def insert_nvml_def DeviceId_key_def DeviceId_new_def)
  then have "?g \<in> set (mapping_devices ?m)" by simp
  from gpu_map_evidence [OF this] show ?thesis by (simp add: m)
qed

definition plain_keys :: "DeviceId list \<Rightarrow> bool" where
  "plain_keys ds \<longleftrightarrow> list_all (\<lambda>d. DeviceId_key d = [] \<or> hd (DeviceId_key d) \<noteq> 0) ds"

lemma entry_key:
  assumes "plain_keys render" "plain_keys nvml" "e \<in> set (merged_gpus render nvml gpus)"
  shows "DeviceId_key (mg_device (snd e)) = (if hd (fst e) = 0 then [] else fst e)" "fst e \<noteq> []"
proof -
  have "entry_ok (set (zip [0..<length render] render)) (set nvml) e"
    using merged_ok_all assms(3) by (auto simp: merged_ok_def)
  then show "DeviceId_key (mg_device (snd e)) = (if hd (fst e) = 0 then [] else fst e)" "fst e \<noteq> []"
    using assms(1,2) by (auto simp: entry_ok_def plain_keys_def list_all_iff render_key_def split: GpuEvidence.splits if_splits
        dest!: zip_upt_snd)
qed

text \<open>
  nothing that has evidence is lost, and each device is listed once: the keys of the mapping
  are those of the open render nodes and of the NVML placements, in ascending order and, the
  unkeyed apart, without repetition.
\<close>

theorem gpu_map_complete:
  assumes "plain_keys render" "plain_keys nvml"
  shows "let keys = map (\<lambda>g. DeviceId_key (mg_device g)) (mapping_devices (combine_gpus render nvml gpus)) in
    set keys = DeviceId_key ` set render \<union> (DeviceId_key ` set nvml - {[]}) \<and> sorted keys \<and> distinct (filter (\<lambda>k. k \<noteq> []) keys)"
proof -
  define M where "M = merged_gpus render nvml gpus"
  define f where "f k = (if hd k = 0 then [] else k)" for k :: rstr
  have ok: "merged_ok (set (zip [0..<length render] render)) (set nvml) M" unfolding M_def by (rule merged_ok_all)
  have e: "map (\<lambda>g. DeviceId_key (mg_device g)) (map snd M) = map f (map fst M)"
    using entry_key [OF assms, of _ gpus] by (auto simp: M_def f_def)
  have ne: "k \<noteq> []" if "k \<in> fst ` set M" for k using that entry_key(2) [OF assms] by (auto simp: M_def)
  have rk: "f (render_key i d) = DeviceId_key d" if "d \<in> set render" for i d
    using assms(1) that by (auto simp: f_def render_key_def plain_keys_def list_all_iff)
  have fr: "f ` (\<lambda>(i, d). render_key i d) ` set (zip [0..<length render] render) = DeviceId_key ` set render"
  proof -
    have "f ` (\<lambda>(i, d). render_key i d) ` set (zip [0..<length render] render)
        = (\<lambda>p. DeviceId_key (snd p)) ` set (zip [0..<length render] render)"
      unfolding image_image using rk by (intro image_cong refl) (auto dest: zip_upt_snd)
    also have "\<dots> = DeviceId_key ` set (map snd (zip [0..<length render] render))"
      by (simp only: set_map image_image)
    also have "map snd (zip [0..<length render] render) = render" by (rule map_snd_zip) simp
    finally show ?thesis .
  qed
  have fn: "f ` nvml_keys (set nvml) = nvml_keys (set nvml)"
    using assms(2) by (force simp: f_def nvml_keys_def plain_keys_def list_all_iff)
  have srt: "sorted (map fst M)" by (simp add: M_def merged_gpus_def)
  have mono: "f a \<le> f b" if "a \<le> b" "a \<noteq> []" "b \<noteq> []" for a b
    using that by (cases a; cases b) (auto simp: f_def)
  have "sorted (map f (map fst M))"
    unfolding sorted_map [of f] by (rule sorted_wrt_mono_rel [OF _ srt]) (use ne mono in auto)
  moreover have "distinct (filter (\<lambda>k. k \<noteq> []) (map f (map fst M)))"
  proof -
    have fil: "filter (\<lambda>k. k \<noteq> []) (map f xs) = filter (\<lambda>k. hd k \<noteq> 0) xs" if "\<forall>k \<in> set xs. k \<noteq> []" for xs
      using that by (induction xs) (auto simp: f_def)
    have "filter (\<lambda>k. k \<noteq> []) (map f (map fst M)) = filter (\<lambda>k. hd k \<noteq> 0) (map fst M)"
      by (rule fil) (use ne in auto)
    moreover have "distinct (map fst M)" using ok by (simp add: merged_ok_def)
    ultimately show ?thesis by (simp only: distinct_filter)
  qed
  moreover have "f ` fst ` set M = DeviceId_key ` set render \<union> (DeviceId_key ` set nvml - {[]})"
    using ok fr fn by (simp add: merged_ok_def image_Un nvml_keys_def)
  ultimately show ?thesis
    unfolding Let_def mapping_devices_combine M_def [symmetric] e by (simp add: image_image)
qed

theorem gpu_map_complete_witness:
  "sorted (map (\<lambda>g. DeviceId_key (mg_device g)) (mapping_devices (combine_gpus
     [DeviceId_new None (Some (lit ''b''))] [DeviceId_new None (Some (lit ''a''))] [])))"
  using gpu_map_complete [of "[DeviceId_new None (Some (lit ''b''))]" "[DeviceId_new None (Some (lit ''a''))]" "[]"]
  by (simp add: plain_keys_def DeviceId_key_def DeviceId_new_def lit_def Let_def)

end
