(* ===== verification/Discovery.thy ===== *)
theory Discovery
  imports Sys Config "HOL-Library.Product_Lexorder" "HOL-Library.Multiset"
begin

text \<open>
  The servers to monitor, from \<^verbatim>\<open>src/discovery_llm.rs\<close> and the server-list functions of
  \<^verbatim>\<open>src/main.rs\<close>: which processes of \<^verbatim>\<open>/proc\<close> are inference servers and at
  which endpoint, which endpoint is the primary one, and the de-duplicated, capped list that the
  workers poll.  A scan reads the filesystem at successive moments, so it takes one view of it
  per moment.
\<close>

section \<open>Command lines\<close>

definition parse_start_time :: "rstr \<Rightarrow> u64 option" where
  "parse_start_time stat = Option.bind (rsplit_once 41 stat) (\<lambda>(_, rest).
     let ws = split_ws rest in if 19 < length ws then parse_word (ws ! 19) else None)"

definition read_process_start_time :: "Sys \<Rightarrow> u32 \<Rightarrow> u64 option" where
  "read_process_start_time sys pid = Option.bind
     (read_to_string_lossy sys (path_join (path_join (lit ''/proc'') (show_word pid)) (lit ''stat''))) parse_start_time"

definition parse_cmdline :: "rstr \<Rightarrow> rstr list" where
  "parse_cmdline raw = filter (\<lambda>arg. arg \<noteq> []) (split_on 0 raw)"

text \<open>\<^verbatim>\<open>Path::file_name\<close>: the last component, unless that is the parent directory.\<close>

definition path_file_name :: "rstr \<Rightarrow> rstr option" where
  "path_file_name s = (let cs = filter (\<lambda>p. p \<noteq> [] \<and> p \<noteq> lit ''.'') (split_on 47 s) in
     if cs = [] \<or> last cs = lit ''..'' then None else Some (last cs))"

definition is_llama_server_process :: "rstr list \<Rightarrow> bool" where
  "is_llama_server_process args = (case args of [] \<Rightarrow> False | exe # rest \<Rightarrow>
     let name = (case path_file_name exe of Some n \<Rightarrow> n | None \<Rightarrow> exe) in
     contains_sub (lit ''llama-server'') name \<or>
     (name = lit ''llama'' \<and> (case rest of arg # _ \<Rightarrow> arg = lit ''serve'' | [] \<Rightarrow> False)))"

fun cli_value :: "rstr list \<Rightarrow> rstr \<Rightarrow> rstr option" where
  "cli_value [] flag = None"
| "cli_value (arg # args) flag =
     (if arg = flag then (case args of [] \<Rightarrow> None | v # _ \<Rightarrow> Some v)
      else case strip_prefix (flag @ lit ''='') arg of Some v \<Rightarrow> Some v | None \<Rightarrow> cli_value args flag)"

definition connect_host :: "rstr \<Rightarrow> rstr" where
  "connect_host host0 = (let host = trim host0 in
     if host \<in> {[], lit ''0.0.0.0'', lit ''::'', lit ''[::]''} then lit ''127.0.0.1''
     else if host \<in> {lit ''::1'', lit ''[::1]''} then lit ''[::1]''
     else if 58 \<in> set host \<and> \<not> starts_with (lit ''['') host then lit ''['' @ host @ lit '']''
     else host)"

definition endpoint_from_args :: "rstr list \<Rightarrow> rstr option" where
  "endpoint_from_args args = (let
       host = (case cli_value args (lit ''--host'') of Some h \<Rightarrow> h | None \<Rightarrow> lit ''127.0.0.1'');
       port = (case cli_value args (lit ''--port'') of Some v \<Rightarrow> (parse_word v :: u16 option) | None \<Rightarrow> Some 8080)
     in map_option (\<lambda>port. lit ''http://'' @ connect_host host @ lit '':'' @ show_word port) port)"

definition parse_port :: "rstr \<Rightarrow> u16" where
  "parse_port endpoint = (case rsplit_once 58 endpoint of
       Some (_, port) \<Rightarrow> (case parse_word port of Some p \<Rightarrow> p | None \<Rightarrow> 0) | None \<Rightarrow> 0)"

section \<open>Scanning the processes\<close>

datatype ServerSource = Process u32 | Configured

record LlamaServerCandidate =
  lc_endpoint :: rstr
  lc_source :: ServerSource
  lc_command :: "rstr option"
  lc_start_time :: "u64 option"

text \<open>One entry of \<^verbatim>\<open>/proc\<close>, its three reads at three moments.\<close>

definition probe_entry :: "Sys \<Rightarrow> Sys \<Rightarrow> Sys \<Rightarrow> SysEntry \<Rightarrow> LlamaServerCandidate option" where
  "probe_entry s1 s2 s3 entry = (case parse_word (se_name entry) of None \<Rightarrow> None | Some pid \<Rightarrow>
     (let start_before = read_process_start_time s1 pid in
      case read_to_string_lossy s2 (path_join (path_join (lit ''/proc'') (se_name entry)) (lit ''cmdline'')) of
        None \<Rightarrow> None
      | Some cmdline \<Rightarrow> (let args = parse_cmdline cmdline in
          if \<not> is_llama_server_process args then None
          else case endpoint_from_args args of None \<Rightarrow> None | Some endpoint \<Rightarrow>
            (let start_after = read_process_start_time s3 pid in
             if start_before \<noteq> start_after then None
             else Some \<lparr>lc_endpoint = endpoint, lc_source = Process pid, lc_command = Some (join (lit '' '') args),
               lc_start_time = start_after\<rparr>))))"

definition scan_order :: "LlamaServerCandidate \<Rightarrow> u16 \<times> rstr" where
  "scan_order c = (parse_port (lc_endpoint c), lc_endpoint c)"

fun dedup_endpoints :: "rstr option \<Rightarrow> LlamaServerCandidate list \<Rightarrow> LlamaServerCandidate list" where
  "dedup_endpoints previous [] = []"
| "dedup_endpoints previous (c # cs) = (if previous \<noteq> Some (lc_endpoint c)
     then c # dedup_endpoints (Some (lc_endpoint c)) cs else dedup_endpoints previous cs)"

definition discover_processes :: "(nat \<Rightarrow> Sys) \<Rightarrow> LlamaServerCandidate list" where
  "discover_processes sys = (case read_dir (sys 0) (lit ''/proc'') of None \<Rightarrow> [] | Some entries \<Rightarrow>
     dedup_endpoints None (sort_key scan_order (List.map_filter
       (\<lambda>(i, entry). probe_entry (sys (3 * i + 1)) (sys (3 * i + 2)) (sys (3 * i + 3)) entry)
       (zip [0..<length entries] entries))))"

definition collect_candidates :: "(nat \<Rightarrow> Sys) \<Rightarrow> bool \<Rightarrow> rstr option \<Rightarrow> LlamaServerCandidate list" where
  "collect_candidates sys auto_discovery configured = (let
       candidates = (if auto_discovery then discover_processes sys else [])
     in case configured of None \<Rightarrow> candidates | Some endpoint0 \<Rightarrow>
       (let endpoint = trim endpoint0 in
        if endpoint \<noteq> [] \<and> \<not> list_ex (\<lambda>c. lc_endpoint c = endpoint) candidates
        then candidates @ [\<lparr>lc_endpoint = endpoint, lc_source = Configured, lc_command = None, lc_start_time = None\<rparr>]
        else candidates))"

definition is_process :: "ServerSource \<Rightarrow> bool" where
  "is_process s = (case s of Process _ \<Rightarrow> True | Configured \<Rightarrow> False)"

definition select_endpoint :: "LlamaServerCandidate list \<Rightarrow> rstr \<Rightarrow> rstr" where
  "select_endpoint candidates def = (let
       fallback = (case find (\<lambda>c. lc_source c = Configured) candidates of Some c \<Rightarrow> lc_endpoint c | None \<Rightarrow> def)
     in case candidates of first # _ \<Rightarrow> if is_process (lc_source first) then lc_endpoint first else fallback
      | [] \<Rightarrow> fallback)"

definition candidate_identity :: "LlamaServerCandidate \<Rightarrow> LocalServerIdentity option" where
  "candidate_identity c = (case lc_source c of
       Process pid \<Rightarrow> map_option (\<lambda>t. \<lparr>ls_pid = pid, ls_start_time = t\<rparr>) (lc_start_time c)
     | Configured \<Rightarrow> None)"

definition selected_endpoint_server :: "LlamaServerCandidate list \<Rightarrow> rstr \<Rightarrow> LocalServerIdentity option" where
  "selected_endpoint_server candidates selected_endpoint =
     Option.bind (find (\<lambda>c. lc_endpoint c = selected_endpoint) candidates) candidate_identity"

section \<open>The monitored set\<close>

definition DEFAULT_SERVER :: rstr where
  "DEFAULT_SERVER = lit ''http://127.0.0.1:8080''"

record ResolvedServer =
  rs_endpoint :: rstr
  rs_identity :: "LocalServerIdentity option"
  rs_auto :: bool

definition resolve_monitor_target_with :: "(nat \<Rightarrow> Sys) \<Rightarrow> AppConfig \<Rightarrow> ResolvedServer" where
  "resolve_monitor_target_with sys settings = (let
       candidates = collect_candidates sys (cf_auto_discovery settings) (cf_server settings);
       endpoint = select_endpoint candidates DEFAULT_SERVER
     in \<lparr>rs_endpoint = endpoint, rs_identity = selected_endpoint_server candidates endpoint,
         rs_auto = (cf_auto_discovery settings \<and> list_ex (\<lambda>c. is_process (lc_source c)) candidates)\<rparr>)"

record ServerList =
  sl_monitored :: "ServerSpec list"
  sl_overflow :: "ServerSpec list"

fun adopt_identity :: "rstr \<Rightarrow> LocalServerIdentity option \<Rightarrow> ServerSpec list \<Rightarrow> ServerSpec list" where
  "adopt_identity key identity [] = []"
| "adopt_identity key identity (spec # out) = (if sv_key spec = key
     then (if sv_identity spec = None \<and> identity \<noteq> None then spec\<lparr>sv_identity := identity\<rparr> else spec) # out
     else spec # adopt_identity key identity out)"

definition push_server ::
  "('u, 'z) url_api_scheme \<Rightarrow> rstr \<times> LocalServerIdentity option \<Rightarrow> ServerSpec list \<Rightarrow> ServerSpec list" where
  "push_server api entry out = (case entry of (endpoint, identity) \<Rightarrow> (let trimmed = trim endpoint in
     if trimmed = [] then out else let key = server_key api trimmed in
       if list_ex (\<lambda>spec. sv_key spec = key) out then adopt_identity key identity out
       else out @ [\<lparr>sv_key = key, sv_endpoint = trimmed, sv_identity = identity\<rparr>]))"

definition server_entries :: "(nat \<Rightarrow> Sys) \<Rightarrow> AppConfig \<Rightarrow> (rstr \<times> LocalServerIdentity option) list" where
  "server_entries sys settings =
     (case cf_server settings of Some server \<Rightarrow> [(server, None)] | None \<Rightarrow> []) @
     map (\<lambda>server. (server, None)) (cf_servers settings) @
     (if cf_auto_discovery settings then map (\<lambda>c. (lc_endpoint c, candidate_identity c))
        (collect_candidates sys True (cf_server settings)) else [])"

definition collect_server_list_with ::
  "('u, 'z) url_api_scheme \<Rightarrow> (nat \<Rightarrow> Sys) \<Rightarrow> AppConfig \<Rightarrow> ServerList" where
  "collect_server_list_with api sys settings = (let
       out = fold (push_server api) (server_entries sys settings) [];
       out = (if out = [] then push_server api (DEFAULT_SERVER, None) out else out)
     in \<lparr>sl_monitored = take MAX_MONITORED_SERVERS out, sl_overflow = drop MAX_MONITORED_SERVERS out\<rparr>)"


section \<open>The list as a function of its entries\<close>

text \<open>
  The reference: the keys in the order they first occur, each with the address of its first entry
  and the first process identity any of its entries carries.
\<close>

fun first_some :: "'a option list \<Rightarrow> 'a option" where
  "first_some [] = None"
| "first_some (Some x # xs) = Some x"
| "first_some (None # xs) = first_some xs"

type_synonym entry = "rstr \<times> rstr \<times> LocalServerIdentity option"

definition keyed_entries :: "('u, 'z) url_api_scheme \<Rightarrow> (rstr \<times> LocalServerIdentity option) list \<Rightarrow> entry list" where
  "keyed_entries api es = map (\<lambda>(e, i). (server_key api (trim e), trim e, i)) (filter (\<lambda>(e, i). trim e \<noteq> []) es)"

definition spec_at :: "entry list \<Rightarrow> rstr \<Rightarrow> ServerSpec" where
  "spec_at es k = (let mine = filter (\<lambda>e. fst e = k) es in
     \<lparr>sv_key = k, sv_endpoint = fst (snd (hd mine)), sv_identity = first_some (map (\<lambda>e. snd (snd e)) mine)\<rparr>)"

definition specs_of :: "entry list \<Rightarrow> ServerSpec list" where
  "specs_of es = map (spec_at es) (first_of_key id {} (map fst es))"

lemma first_some_append: "first_some (xs @ ys) = (case first_some xs of Some x \<Rightarrow> Some x | None \<Rightarrow> first_some ys)"
  by (induction xs rule: first_some.induct) auto

lemma sv_key_spec_at [simp]: "sv_key (spec_at es k) = k"
  by (simp add: spec_at_def Let_def)

lemma spec_at_snoc_other: "k' \<noteq> k \<Longrightarrow> spec_at (es @ [(k', en, i)]) k = spec_at es k"
  by (simp add: spec_at_def)

lemma spec_at_snoc_same:
  assumes "k \<in> fst ` set es"
  shows "spec_at (es @ [(k, en, i)]) k = (if sv_identity (spec_at es k) = None \<and> i \<noteq> None
      then (spec_at es k)\<lparr>sv_identity := i\<rparr> else spec_at es k)"
proof -
  have "filter (\<lambda>e. fst e = k) es \<noteq> []" using assms by (auto simp: filter_empty_conv)
  then show ?thesis
    by (cases i) (auto simp: spec_at_def Let_def first_some_append split: option.split)
qed

lemma adopt_specs:
  assumes "distinct ks" "set ks \<subseteq> fst ` set es" "k \<in> set ks"
  shows "adopt_identity k i (map (spec_at es) ks) = map (spec_at (es @ [(k, en, i)])) ks"
  using assms
proof (induction ks)
  case (Cons k' ks)
  show ?case
  proof (cases "k' = k")
    case True
    then have "map (spec_at (es @ [(k, en, i)])) ks = map (spec_at es) ks"
      using Cons.prems by (auto intro!: spec_at_snoc_other)
    then show ?thesis using True Cons.prems spec_at_snoc_same [of k es en i] by simp
  qed (use Cons in \<open>auto simp: spec_at_snoc_other\<close>)
qed simp

lemma push_server_specs:
  "fold (push_server api) es [] = specs_of (keyed_entries api es)"
proof (induction es rule: rev_induct)
  case (snoc x es)
  obtain e i where x: "x = (e, i)" by (cases x)
  let ?k = "server_key api (trim e)"
  let ?es = "keyed_entries api es"
  show ?case
  proof (cases "trim e = []")
    case False
    have ke: "keyed_entries api (es @ [(e, i)]) = ?es @ [(?k, trim e, i)]" using False by (simp add: keyed_entries_def)
    have mem: "list_ex (\<lambda>spec. sv_key spec = ?k) (specs_of ?es) \<longleftrightarrow> ?k \<in> fst ` set ?es"
      by (auto simp: specs_of_def list_ex_iff set_first_of_key_id)
    show ?thesis
    proof (cases "?k \<in> fst ` set ?es")
      case True
      have "adopt_identity ?k i (specs_of ?es) = map (spec_at (?es @ [(?k, trim e, i)])) (first_of_key id {} (map fst ?es))"
        using adopt_specs [of "first_of_key id {} (map fst ?es)" ?es ?k i "trim e"] True
        by (simp add: specs_of_def distinct_first_of_key_id set_first_of_key_id)
      then show ?thesis using snoc True False mem
        by (simp add: ke push_server_def x Let_def) (simp add: specs_of_def first_of_key_snoc)
    next
      case new: False
      have "filter (\<lambda>e. fst e = ?k) ?es = []" using new by (force simp: filter_empty_conv image_iff)
      then have "spec_at (?es @ [(?k, trim e, i)]) ?k = \<lparr>sv_key = ?k, sv_endpoint = trim e, sv_identity = i\<rparr>"
        by (cases i) (simp_all add: spec_at_def)
      moreover have "map (spec_at (?es @ [(?k, trim e, i)])) (first_of_key id {} (map fst ?es)) = specs_of ?es"
        unfolding specs_of_def using new by (intro map_cong refl spec_at_snoc_other) (auto simp: set_first_of_key_id)
      ultimately show ?thesis using snoc new False mem
        by (simp add: ke push_server_def x Let_def) (simp add: specs_of_def first_of_key_snoc)
    qed
  qed (use snoc in \<open>simp add: push_server_def x keyed_entries_def\<close>)
qed (simp add: specs_of_def keyed_entries_def)


lemma specs_of_eq_Nil [simp]: "specs_of es = [] \<longleftrightarrow> es = []"
proof -
  have "first_of_key id {} ks = [] \<longleftrightarrow> ks = []" for ks :: "rstr list" by (cases ks) auto
  then show ?thesis by (simp add: specs_of_def)
qed

lemma specs_of_Nil [simp]: "specs_of [] = []"
  by (simp add: specs_of_def)

definition monitored_entries :: "('u, 'z) url_api_scheme \<Rightarrow> (nat \<Rightarrow> Sys) \<Rightarrow> AppConfig \<Rightarrow> entry list" where
  "monitored_entries api sys settings = (let es = keyed_entries api (server_entries sys settings) in
     if es = [] then keyed_entries api [(DEFAULT_SERVER, None)] else es)"

lemma collect_specs:
  "collect_server_list_with api sys settings = (let out = specs_of (monitored_entries api sys settings) in
     \<lparr>sl_monitored = take MAX_MONITORED_SERVERS out, sl_overflow = drop MAX_MONITORED_SERVERS out\<rparr>)"
proof -
  have "push_server api (DEFAULT_SERVER, None) [] = specs_of (keyed_entries api [(DEFAULT_SERVER, None)])"
    using push_server_specs [of api "[(DEFAULT_SERVER, None)]"] by simp
  then show ?thesis
    by (simp add: collect_server_list_with_def push_server_specs monitored_entries_def Let_def)
qed

text \<open>
  C14: the list of servers is the reference list of its entries, the configured ones first: one
  server per key in the order of first mention, at the address first mentioned, with the first
  process identity any mention of it carries.  The first sixteen are monitored and no other is
  lost.
\<close>

theorem server_list_reference:
  "sl_monitored (collect_server_list_with api sys settings) @ sl_overflow (collect_server_list_with api sys settings)
     = specs_of (monitored_entries api sys settings)
   \<and> sl_monitored (collect_server_list_with api sys settings) = take 16 (specs_of (monitored_entries api sys settings))"
  by (simp add: collect_specs MAX_MONITORED_SERVERS_def Let_def)

lemma default_nonblank: "trim DEFAULT_SERVER \<noteq> []"
  by code_simp

lemma spec_at_in:
  assumes "k \<in> fst ` set es"
  shows "\<exists>e \<in> set es. fst e = k \<and> sv_endpoint (spec_at es k) = fst (snd e)"
proof -
  let ?m = "filter (\<lambda>e. fst e = k) es"
  have "?m \<noteq> []" using assms by (auto simp: filter_empty_conv)
  then have "hd ?m \<in> set ?m" by (rule hd_in_set)
  then show ?thesis by (auto simp: spec_at_def Let_def)
qed

lemma keyed_entries_ok: "(k, e, i) \<in> set (keyed_entries api es) \<Longrightarrow> k = server_key api e \<and> e \<noteq> [] \<and> trimmed e"
  by (auto simp: keyed_entries_def)

lemma collect_wf:
  "let sl = collect_server_list_with api sys settings; all = sl_monitored sl @ sl_overflow sl in
   sl_monitored sl \<noteq> [] \<and> length (sl_monitored sl) \<le> 16 \<and> distinct (map sv_key all) \<and>
   (\<forall>spec \<in> set all. sv_endpoint spec \<noteq> [] \<and> trimmed (sv_endpoint spec) \<and> sv_key spec = server_key api (sv_endpoint spec))"
proof -
  let ?es = "monitored_entries api sys settings"
  have ne: "?es \<noteq> []" using default_nonblank by (auto simp: monitored_entries_def Let_def keyed_entries_def)
  have ok: "k = server_key api e \<and> e \<noteq> [] \<and> trimmed e" if "(k, e, i) \<in> set ?es" for k e i
    using that keyed_entries_ok by (fastforce simp: monitored_entries_def Let_def split: if_splits)
  have "map sv_key (specs_of ?es) = first_of_key id {} (map fst ?es)" by (simp add: specs_of_def comp_def)
  then have d: "distinct (map sv_key (specs_of ?es))" by (simp add: distinct_first_of_key_id)
  have "sv_endpoint sp \<noteq> [] \<and> trimmed (sv_endpoint sp) \<and> sv_key sp = server_key api (sv_endpoint sp)" if sp: "sp \<in> set (specs_of ?es)" for sp
  proof -
    obtain k where k: "sp = spec_at ?es k" "k \<in> fst ` set ?es" using sp unfolding specs_of_def set_map set_first_of_key_id by auto
    from spec_at_in [OF k(2)] obtain e i where "(k, e, i) \<in> set ?es" "sv_endpoint sp = e" by (auto simp: k(1))
    then show ?thesis using ok by (auto simp: k(1))
  qed
  moreover let ?sl = "collect_server_list_with api sys settings"
  have "sl_monitored ?sl @ sl_overflow ?sl = specs_of ?es" "sl_monitored ?sl = take 16 (specs_of ?es)"
    by (simp_all add: collect_specs Let_def MAX_MONITORED_SERVERS_def)
  ultimately show ?thesis using ne d unfolding Let_def by auto
qed

text \<open>The serialization of a URL starts with its scheme and is not empty.\<close>

definition url_named :: "('u, 'z) url_api_scheme \<Rightarrow> bool" where
  "url_named api \<longleftrightarrow> (\<forall>u. url_to_string api u \<noteq> [])"

lemma server_key_named: "url_named api \<Longrightarrow> e \<noteq> [] \<Longrightarrow> trimmed e \<Longrightarrow> server_key api e \<noteq> []"
  by (auto simp: server_key_def url_named_def trim_id Let_def split: option.split)

lemma collect_keys_named:
  assumes "url_named api"
  shows "[] \<notin> set (map sv_key (sl_monitored (collect_server_list_with api sys settings) @ sl_overflow (collect_server_list_with api sys settings)))"
    (is "[] \<notin> set (map sv_key ?all)")
proof
  note wf = collect_wf [of api sys settings, unfolded Let_def, THEN conjunct2, THEN conjunct2, THEN conjunct2, rule_format]
  assume "[] \<in> set (map sv_key ?all)"
  then have "[] \<in> sv_key ` set ?all" unfolding set_map .
  then obtain spec where key: "[] = sv_key spec" and mem: "spec \<in> set ?all" by (rule imageE)
  have "sv_endpoint spec \<noteq> []" "trimmed (sv_endpoint spec)" "sv_key spec = server_key api (sv_endpoint spec)"
    using wf [OF mem] by blast+
  then show False using server_key_named [OF assms] key by metis
qed

text \<open>
  C15: whatever is configured and running, there is a server to monitor and at most sixteen, no
  two servers of the list have the same key, and each has an address, whose key it carries and
  which is not empty.
\<close>

theorem server_list_wf:
  assumes "url_named api"
  shows "let sl = collect_server_list_with api sys settings; all = sl_monitored sl @ sl_overflow sl in
   sl_monitored sl \<noteq> [] \<and> length (sl_monitored sl) \<le> 16 \<and> distinct (map sv_key all) \<and> [] \<notin> set (map sv_key all) \<and>
   (\<forall>spec \<in> set all. sv_endpoint spec \<noteq> [] \<and> sv_key spec = server_key api (sv_endpoint spec))"
  unfolding Let_def
proof (intro conjI ballI)
  note wf = collect_wf [of api sys settings, unfolded Let_def]
  let ?sl = "collect_server_list_with api sys settings"
  show "sl_monitored ?sl \<noteq> []" by (rule wf [THEN conjunct1])
  show "length (sl_monitored ?sl) \<le> 16" by (rule wf [THEN conjunct2, THEN conjunct1])
  show "distinct (map sv_key (sl_monitored ?sl @ sl_overflow ?sl))" by (rule wf [THEN conjunct2, THEN conjunct2, THEN conjunct1])
  show "[] \<notin> set (map sv_key (sl_monitored ?sl @ sl_overflow ?sl))" by (rule collect_keys_named [OF assms])
  fix spec assume "spec \<in> set (sl_monitored ?sl @ sl_overflow ?sl)"
  from wf [THEN conjunct2, THEN conjunct2, THEN conjunct2, rule_format, OF this]
  show "sv_endpoint spec \<noteq> []" "sv_key spec = server_key api (sv_endpoint spec)" by simp_all
qed


section \<open>Identities\<close>

lemma set_dedup_endpoints: "set (dedup_endpoints p cs) \<subseteq> set cs"
  by (induction p cs rule: dedup_endpoints.induct) auto

lemma first_some_in: "first_some xs = Some x \<Longrightarrow> Some x \<in> set xs"
  by (induction xs rule: first_some.induct) auto

text \<open>A process of the scan: listed, the same at the first and the last of its three reads.\<close>

definition scanned_server :: "(nat \<Rightarrow> Sys) \<Rightarrow> rstr \<Rightarrow> LocalServerIdentity \<Rightarrow> bool" where
  "scanned_server sys endpoint i \<longleftrightarrow> (\<exists>entries j cmdline. read_dir (sys 0) (lit ''/proc'') = Some entries \<and> j < length entries \<and>
     parse_word (se_name (entries ! j)) = Some (ls_pid i) \<and>
     read_process_start_time (sys (3 * j + 1)) (ls_pid i) = Some (ls_start_time i) \<and>
     read_to_string_lossy (sys (3 * j + 2)) (path_join (path_join (lit ''/proc'') (se_name (entries ! j))) (lit ''cmdline'')) = Some cmdline \<and>
     is_llama_server_process (parse_cmdline cmdline) \<and> endpoint_from_args (parse_cmdline cmdline) = Some endpoint \<and>
     read_process_start_time (sys (3 * j + 3)) (ls_pid i) = Some (ls_start_time i))"

lemma probe_entry_Some:
  "probe_entry s1 s2 s3 entry = Some c \<Longrightarrow> candidate_identity c = Some i \<Longrightarrow>
     parse_word (se_name entry) = Some (ls_pid i) \<and>
     read_process_start_time s1 (ls_pid i) = Some (ls_start_time i) \<and>
     (\<exists>cmdline. read_to_string_lossy s2 (path_join (path_join (lit ''/proc'') (se_name entry)) (lit ''cmdline'')) = Some cmdline \<and>
       is_llama_server_process (parse_cmdline cmdline) \<and> endpoint_from_args (parse_cmdline cmdline) = Some (lc_endpoint c)) \<and>
     read_process_start_time s3 (ls_pid i) = Some (ls_start_time i)"
  by (auto simp: probe_entry_def candidate_identity_def Let_def split: option.splits if_splits)

lemma discover_processes_scanned:
  assumes "c \<in> set (discover_processes sys)" "candidate_identity c = Some i"
  shows "scanned_server sys (lc_endpoint c) i"
proof -
  obtain entries where e: "read_dir (sys 0) (lit ''/proc'') = Some entries"
    using assms(1) by (cases "read_dir (sys 0) (lit ''/proc'')") (auto simp: discover_processes_def)
  have "c \<in> set (List.map_filter (\<lambda>(i, entry). probe_entry (sys (3 * i + 1)) (sys (3 * i + 2)) (sys (3 * i + 3)) entry)
      (zip [0..<length entries] entries))"
    using assms(1) e by (auto simp: discover_processes_def dest!: subsetD [OF set_dedup_endpoints])
  then obtain j where j: "j < length entries"
    "probe_entry (sys (3 * j + 1)) (sys (3 * j + 2)) (sys (3 * j + 3)) (entries ! j) = Some c"
    by (auto simp: set_zip List.map_filter_def)
  from probe_entry_Some [OF j(2) assms(2)] show ?thesis
    unfolding scanned_server_def using e j(1) by blast
qed

lemma collect_candidates_identity:
  "c \<in> set (collect_candidates sys auto_discovery configured) \<Longrightarrow> candidate_identity c = Some i \<Longrightarrow>
     auto_discovery \<and> c \<in> set (discover_processes sys)"
  by (auto simp: collect_candidates_def candidate_identity_def Let_def split: option.splits if_splits)

text \<open>
  no server of the list is given a process by guessing.  An identity it carries is that of a
  process found by the scan of an auto-discovering configuration, whose command line names an
  endpoint with this server's key, and whose start time was the same before and after that command
  line was read.
\<close>

theorem server_identity_scanned:
  assumes "spec \<in> set (sl_monitored (collect_server_list_with api sys settings) @ sl_overflow (collect_server_list_with api sys settings))"
    and "sv_identity spec = Some i"
  shows "cf_auto_discovery settings \<and>
    (\<exists>endpoint. scanned_server sys endpoint i \<and> server_key api (trim endpoint) = sv_key spec)"
proof -
  let ?es = "monitored_entries api sys settings"
  have "spec \<in> set (specs_of ?es)" using assms(1) by (simp add: collect_specs Let_def flip: set_append)
  then obtain k where k: "spec = spec_at ?es k" unfolding specs_of_def by auto
  then obtain e where "(k, e, Some i) \<in> set ?es"
    using assms(2) by (force simp: spec_at_def Let_def dest: first_some_in)
  then obtain e0 where e0: "(e0, Some i) \<in> set (server_entries sys settings)" "k = server_key api (trim e0)"
    by (auto simp: monitored_entries_def keyed_entries_def Let_def split: if_splits)
  then obtain c where c: "c \<in> set (collect_candidates sys True (cf_server settings))" "cf_auto_discovery settings"
    "e0 = lc_endpoint c" "candidate_identity c = Some i"
    by (auto simp: server_entries_def split: option.splits if_splits)
  then show ?thesis using discover_processes_scanned [of c sys i] collect_candidates_identity [of c sys True] k e0(2) by auto
qed


text \<open>A filesystem with one server process.\<close>

definition sample_proc :: Sys where
  "sample_proc = \<lparr>read_to_string = (\<lambda>_. None),
     read_to_string_lossy = (\<lambda>p.
       if p = lit ''/proc/42/stat'' then Some (lit ''42 (llama-server) S 1 1 1 0 0 0 0 0 0 0 5 5 5 0 20 0 1 0 777 1'')
       else if p = lit ''/proc/42/cmdline'' then Some (lit ''/bin/llama-server'' @ 0 # lit ''--port=9090'') else None),
     read_dir = (\<lambda>p. if p = lit ''/proc'' then Some [\<lparr>se_name = lit ''self'', se_is_symlink = True, se_is_dir = False\<rparr>,
       \<lparr>se_name = lit ''42'', se_is_symlink = False, se_is_dir = True\<rparr>] else None),
     symlink_target = (\<lambda>_. None), char_device_id = (\<lambda>_. None), read_dir_names = (\<lambda>_. None)\<rparr>"

lemma sample_collect:
  "collect_server_list_with sample_urls (\<lambda>_. sample_proc) AppConfig_default =
      \<lparr>sl_monitored = [\<lparr>sv_key = lit ''http://127.0.0.1:9090'', sv_endpoint = lit ''http://127.0.0.1:9090'',
         sv_identity = Some \<lparr>ls_pid = 42, ls_start_time = 777\<rparr>\<rparr>], sl_overflow = []\<rparr>"
  by code_simp

lemma sample_urls_named: "url_named sample_urls"
  by (simp add: url_named_def sample_urls_def sample_url_string_def lit_def split: prod.split)

theorem server_list_wf_witness:
  "url_named sample_urls \<and> server_key sample_urls (lit ''http://127.0.0.1:9090'') = lit ''http://127.0.0.1:9090''"
  using server_list_wf [OF sample_urls_named, of "\<lambda>_. sample_proc" AppConfig_default] sample_urls_named
  by (simp add: sample_collect)

theorem server_identity_scanned_witness:
  "\<exists>endpoint. scanned_server (\<lambda>_. sample_proc) endpoint \<lparr>ls_pid = 42, ls_start_time = 777\<rparr> \<and>
     server_key sample_urls (trim endpoint) = lit ''http://127.0.0.1:9090''"
proof -
  show ?thesis
    using server_identity_scanned [of "\<lparr>sv_key = lit ''http://127.0.0.1:9090'', sv_endpoint = lit ''http://127.0.0.1:9090'',
         sv_identity = Some \<lparr>ls_pid = 42, ls_start_time = 777\<rparr>\<rparr>" sample_urls "\<lambda>_. sample_proc" AppConfig_default]
    by (simp add: sample_collect)
qed

section \<open>Order\<close>

lemma map_dedup_endpoints:
  "map lc_endpoint (dedup_endpoints p cs) = (case p of None \<Rightarrow> remdups_adj (map lc_endpoint cs)
     | Some e \<Rightarrow> tl (remdups_adj (e # map lc_endpoint cs)))"
proof (induction p cs rule: dedup_endpoints.induct)
  case (2 p c cs)
  then show ?case by (cases p) (auto simp: remdups_adj_Cons split: list.splits)
qed (simp split: option.split)

definition endpoint_order :: "rstr \<Rightarrow> u16 \<times> rstr" where
  "endpoint_order e = (parse_port e, e)"

lemma distinct_remdups_adj: "sorted xs \<Longrightarrow> distinct (remdups_adj xs)"
  by (induction xs rule: remdups_adj.induct) auto

text \<open>The endpoints of a scan: those the processes name, each once, by port and then by text.\<close>

lemma dedup_sorted:
  fixes cs :: "LlamaServerCandidate list"
  defines "es \<equiv> map lc_endpoint (dedup_endpoints None (sort_key scan_order cs))"
  shows "distinct es" "sorted (map endpoint_order es)" "set es = lc_endpoint ` set cs"
proof -
  have es: "es = remdups_adj (map lc_endpoint (sort_key scan_order cs))" by (simp add: es_def map_dedup_endpoints)
  have inj: "inj endpoint_order" by (auto simp: endpoint_order_def inj_on_def)
  have m: "map endpoint_order es = remdups_adj (map scan_order (sort_key scan_order cs))"
    unfolding es by (simp add: remdups_adj_map_injective [OF inj, symmetric] endpoint_order_def scan_order_def [abs_def] comp_def)
  then show srt: "sorted (map endpoint_order es)" by (simp add: sorted_remdups_adj)
  have "distinct (map endpoint_order es)" unfolding m by (intro distinct_remdups_adj) simp
  then show "distinct es" by (simp add: distinct_map)
  show "set es = lc_endpoint ` set cs" by (simp add: es)
qed


text \<open>A scan of a filesystem that does not change meanwhile.\<close>

lemma discover_still:
  assumes "read_dir s (lit ''/proc'') = Some es"
  shows "discover_processes (\<lambda>_. s) = dedup_endpoints None (sort_key scan_order (List.map_filter (probe_entry s s s) es))"
proof -
  have "List.map_filter (\<lambda>(i, e). f e) xs = List.map_filter f (map snd xs)"
    for f :: "SysEntry \<Rightarrow> LlamaServerCandidate option" and xs :: "(nat \<times> SysEntry) list"
    by (induction xs) (auto simp: List.map_filter_def)
  from this [of "probe_entry s s s" "zip [0..<length es] es"] show ?thesis
    using assms by (simp add: discover_processes_def)
qed

text \<open>
  which endpoints a scan finds, and which it prefers, does not depend on the order in which
  the kernel lists the processes, nor on their process ids.
\<close>

theorem discovery_order_independent:
  assumes "read_dir sys (lit ''/proc'') = Some entries" "mset entries' = mset entries"
  shows "map lc_endpoint (discover_processes (\<lambda>_. sys\<lparr>read_dir := (\<lambda>_. Some entries')\<rparr>))
    = map lc_endpoint (discover_processes (\<lambda>_. sys))"
proof -
  define probe where "probe = probe_entry sys sys sys"
  define sys' where "sys' = sys\<lparr>read_dir := (\<lambda>_. Some entries')\<rparr>"
  have "read_process_start_time sys' = read_process_start_time sys" "read_to_string_lossy sys' = read_to_string_lossy sys"
    by (simp_all add: sys'_def read_process_start_time_def fun_eq_iff)
  then have p: "probe_entry sys' sys' sys' = probe" by (intro ext) (simp only: probe_def probe_entry_def)
  define scan where "scan es = map lc_endpoint (dedup_endpoints None (sort_key scan_order (List.map_filter probe es)))" for es
  have d: "map lc_endpoint (discover_processes (\<lambda>_. sys')) = scan entries'"
    "map lc_endpoint (discover_processes (\<lambda>_. sys)) = scan entries"
    using discover_still [of sys' entries'] discover_still [OF assms(1)]
    by (simp_all add: scan_def p sys'_def [symmetric] probe_def) (simp add: sys'_def)
  have same: "set (scan es) = lc_endpoint ` {c. \<exists>e \<in> set es. probe e = Some c}" for es
    unfolding scan_def dedup_sorted(3) by (auto simp: List.map_filter_def image_iff) force+
  have "set entries' = set entries" using assms(2) by (metis set_mset_mset)
  then have "endpoint_order ` set (scan entries') = endpoint_order ` set (scan entries)" by (simp only: same)
  moreover have "distinct (map endpoint_order (scan es))" for es
    using dedup_sorted(1) by (auto simp: scan_def distinct_map endpoint_order_def inj_on_def)
  moreover have "sorted (map endpoint_order (scan es))" for es unfolding scan_def by (rule dedup_sorted(2))
  ultimately have "map endpoint_order (scan entries') = map endpoint_order (scan entries)"
    by (intro sorted_distinct_set_unique) simp_all
  then have "scan entries' = scan entries" by (rule map_injective) (auto simp: endpoint_order_def inj_on_def)
  then show ?thesis by (simp add: d flip: sys'_def)
qed

theorem discovery_order_independent_witness:
  "let entries' = [\<lparr>se_name = lit ''42'', se_is_symlink = False, se_is_dir = True\<rparr>,
       \<lparr>se_name = lit ''self'', se_is_symlink = True, se_is_dir = False\<rparr>]
   in map lc_endpoint (discover_processes (\<lambda>_. sample_proc\<lparr>read_dir := (\<lambda>_. Some entries')\<rparr>))
    = map lc_endpoint (discover_processes (\<lambda>_. sample_proc))"
  unfolding Let_def
  by (rule discovery_order_independent [where entries = "[\<lparr>se_name = lit ''self'', se_is_symlink = True, se_is_dir = False\<rparr>,
       \<lparr>se_name = lit ''42'', se_is_symlink = False, se_is_dir = True\<rparr>]"]) (simp_all add: sample_proc_def)

end
