(* ===== verification/Gpus.thy ===== *)
theory Gpus
  imports GpuMap Discovery
begin

text \<open>
  The discovery of graphics cards, from \<^verbatim>\<open>src/discovery.rs\<close>: the entries of
  /sys/class/drm, the PCI device a card's link leads to, its vendor, driver, render nodes and outputs; and
  the search for a device's hwmon, from \<^verbatim>\<open>src/providers/mod.rs\<close>.
\<close>

section \<open>Paths\<close>

datatype path_component = RootDir | CurDir | ParentDir | Named rstr

text \<open>
  \<^verbatim>\<open>Path::components\<close>: empty segments and dots are dropped, a leading dot of a
  relative path apart.
\<close>

definition segment :: "rstr \<Rightarrow> path_component option" where
  "segment s = (if s = [] \<or> s = lit ''.'' then None else if s = lit ''..'' then Some ParentDir else Some (Named s))"

definition components :: "rstr \<Rightarrow> path_component list" where
  "components p = (case p of [] \<Rightarrow> []
     | c # r \<Rightarrow> if c = 47 then RootDir # List.map_filter segment (split_on 47 r)
         else (if hd (split_on 47 p) = lit ''.'' then [CurDir] else []) @ List.map_filter segment (split_on 47 p))"

definition component_str :: "path_component \<Rightarrow> rstr" where
  "component_str c = (case c of RootDir \<Rightarrow> lit ''/'' | CurDir \<Rightarrow> lit ''.'' | ParentDir \<Rightarrow> lit ''..'' | Named s \<Rightarrow> s)"

text \<open>Collecting components into a \<^verbatim>\<open>PathBuf\<close>, and \<^verbatim>\<open>Path::parent\<close>.\<close>

definition path_of :: "rstr list \<Rightarrow> rstr" where
  "path_of parts = foldl path_join [] parts"

definition parent :: "rstr \<Rightarrow> rstr option" where
  "parent p = (let cs = components p in
     if cs = [] \<or> last cs = RootDir then None else Some (path_of (map component_str (butlast cs))))"

definition path_starts_with :: "rstr \<Rightarrow> rstr \<Rightarrow> bool" where
  "path_starts_with p base \<longleftrightarrow> take (length (components base)) (components p) = components base"

definition link_step :: "rstr list \<Rightarrow> path_component \<Rightarrow> rstr list" where
  "link_step parts c = (case c of
       ParentDir \<Rightarrow> if parts \<noteq> [] \<and> last parts \<noteq> lit ''/'' then butlast parts else parts
     | CurDir \<Rightarrow> parts
     | other \<Rightarrow> parts @ [component_str other])"

definition resolve_link :: "rstr \<Rightarrow> rstr \<Rightarrow> rstr" where
  "resolve_link base target = path_of (foldl link_step
     (if starts_with (lit ''/'') target then [] else map component_str (components base)) (components target))"

definition bdf_from_path :: "rstr \<Rightarrow> rstr option" where
  "bdf_from_path path = first_some (map (\<lambda>c. parse_pci_bdf (component_str c)) (rev (components path)))"

section \<open>PCI attributes\<close>

definition is_display_class :: "u32 \<Rightarrow> bool" where
  "is_display_class class_code \<longleftrightarrow> unat class_code div 65536 mod 256 = 3"

definition vendor_from_pci_id :: "u16 \<Rightarrow> GpuVendor" where
  "vendor_from_pci_id i = (if i = 0x10de then Nvidia else if i = 0x1002 then Amd else if i = 0x8086 then Intel
     else if i \<noteq> 0 then Other else UnknownVendor)"

text \<open>\<^verbatim>\<open>from_str_radix(_, 16)\<close>: an optional plus sign, at least one digit, no overflow.\<close>

definition parse_radix16 :: "rstr \<Rightarrow> 'a::len word option" where
  "parse_radix16 s = (let ds = (case s of c # r \<Rightarrow> if c = 43 then r else s | [] \<Rightarrow> s) in
     if ds \<noteq> [] \<and> list_all is_hex ds \<and> hex_val ds < 2 ^ LENGTH('a) then Some (of_nat (hex_val ds)) else None)"

definition parse_hex :: "rstr \<Rightarrow> 'a::len word option" where
  "parse_hex text = (let value = trim text in parse_radix16 (trim (unwrap_or value (strip_prefix (lit ''0x'') value))))"

definition read_hex :: "Sys \<Rightarrow> rstr \<Rightarrow> 'a::len word option" where
  "read_hex sys path = Option.bind (read_to_string sys path) parse_hex"

section \<open>Cards\<close>

record DrmScan =
  ds_cards :: "rstr list"
  ds_outputs :: "rstr \<Rightarrow> rstr list"
  ds_render :: "(rstr \<times> rstr) list"

definition DRM_ROOT :: rstr where
  "DRM_ROOT = lit ''/sys/class/drm''"

definition scan_entry :: "Sys \<Rightarrow> DrmScan \<Rightarrow> SysEntry \<Rightarrow> DrmScan" where
  "scan_entry sys s e = (if \<not> se_is_symlink e then s
     else (case symlink_target sys (path_join DRM_ROOT (se_name e)) of None \<Rightarrow> s
       | Some target \<Rightarrow>
           if starts_with (lit ''card'') (se_name e) \<and> 45 \<in> set (se_name e)
           then let node = hd (split_on 45 (se_name e)) in
             s\<lparr>ds_outputs := (ds_outputs s)(node := ds_outputs s node @ [se_name e])\<rparr>
           else if starts_with (lit ''renderD'') (se_name e) then s\<lparr>ds_render := ds_render s @ [(se_name e, target)]\<rparr>
           else if starts_with (lit ''card'') (se_name e) then s\<lparr>ds_cards := ds_cards s @ [se_name e]\<rparr>
           else s))"

definition driver_name :: "Sys \<Rightarrow> rstr \<Rightarrow> rstr" where
  "driver_name sys pci_dir = unwrap_or [] (Option.bind (symlink_target sys (path_join pci_dir (lit ''driver'')))
     (\<lambda>path. if components path = [] then None else opt_nonempty (Some (component_str (last (components path))))))"

definition card_vendor :: "rstr \<Rightarrow> u16 option \<Rightarrow> GpuVendor" where
  "card_vendor driver pci_vendor = (if driver = lit ''nvidia'' then Nvidia else if driver = lit ''amdgpu'' then Amd
     else if driver = lit ''i915'' \<or> driver = lit ''xe'' then Intel
     else unwrap_or UnknownVendor (Option.bind pci_vendor (\<lambda>i. if i \<noteq> 0 then Some (vendor_from_pci_id i) else None)))"

definition card_pci_dir :: "Sys \<Rightarrow> rstr \<Rightarrow> rstr option" where
  "card_pci_dir sys node = (case symlink_target sys (path_join DRM_ROOT node) of None \<Rightarrow> None
     | Some target \<Rightarrow> Option.bind (parent (resolve_link DRM_ROOT target)) parent)"

definition card_gpu :: "Sys \<Rightarrow> DrmScan \<Rightarrow> rstr \<Rightarrow> DiscoveredGpu option" where
  "card_gpu sys s node = (case card_pci_dir sys node of None \<Rightarrow> None
     | Some pci_dir \<Rightarrow> (case bdf_from_path pci_dir of None \<Rightarrow> None
     | Some bdf \<Rightarrow> let
         pci_vendor = read_hex sys (path_join pci_dir (lit ''vendor''));
         pci_device = read_hex sys (path_join pci_dir (lit ''device''));
         class_code = read_hex sys (path_join pci_dir (lit ''class''));
         driver = driver_name sys pci_dir in
       if is_some_and (\<lambda>v. \<not> is_display_class v) class_code then None
       else Some \<lparr>dg_card = node, dg_device_id = DeviceId_new (Some bdf) None, dg_vendor = card_vendor driver pci_vendor,
         dg_pci_vendor_id = unwrap_or 0 pci_vendor, dg_pci_device_id = unwrap_or 0 pci_device,
         dg_pci_class_code = unwrap_or 0 class_code, dg_driver = driver,
         dg_render_nodes = map fst (filter (\<lambda>(_, target). path_starts_with (resolve_link DRM_ROOT target) pci_dir) (ds_render s)),
         dg_outputs = ds_outputs s node\<rparr>))"

text \<open>The outputs of a card are taken out of the collection when the card is listed.\<close>

fun card_gpus :: "Sys \<Rightarrow> DrmScan \<Rightarrow> rstr list \<Rightarrow> DiscoveredGpu list" where
  "card_gpus sys s [] = []"
| "card_gpus sys s (node # cards) = (case card_gpu sys s node of None \<Rightarrow> card_gpus sys s cards
     | Some gpu \<Rightarrow> gpu # card_gpus sys (s\<lparr>ds_outputs := (ds_outputs s)(node := [])\<rparr>) cards)"

definition empty_scan :: DrmScan where
  "empty_scan = \<lparr>ds_cards = [], ds_outputs = (\<lambda>_. []), ds_render = []\<rparr>"

definition discover_gpus :: "Sys \<Rightarrow> DiscoveredGpu list" where
  "discover_gpus sys = (case read_dir sys DRM_ROOT of None \<Rightarrow> []
     | Some entries \<Rightarrow> let s = foldl (scan_entry sys) empty_scan entries in
         sort_key (\<lambda>g. DeviceId_key (dg_device_id g)) (card_gpus sys s (ds_cards s)))"

section \<open>The hwmon of a device\<close>

definition HWMON_ROOT :: rstr where
  "HWMON_ROOT = lit ''/sys/class/hwmon''"

definition pci_device_dir :: "rstr \<Rightarrow> rstr" where
  "pci_device_dir bdf = path_join (lit ''/sys/bus/pci/devices'') bdf"

definition path_component_is_bdf :: "rstr \<Rightarrow> rstr \<Rightarrow> bool" where
  "path_component_is_bdf target bdf \<longleftrightarrow> list_ex (\<lambda>c. component_str c = bdf) (rev (components target))"

definition hwmon_of_device :: "Sys \<Rightarrow> rstr \<Rightarrow> rstr \<Rightarrow> bool" where
  "hwmon_of_device sys bdf name \<longleftrightarrow> starts_with (lit ''hwmon'') name \<and>
     is_some_and (\<lambda>target. path_component_is_bdf target bdf) (symlink_target sys (path_join (path_join HWMON_ROOT name) (lit ''device'')))"

definition hwmon_score :: "Sys \<Rightarrow> rstr list \<Rightarrow> rstr \<Rightarrow> nat" where
  "hwmon_score sys driver_names name = (let dir = path_join HWMON_ROOT name in
     (if is_some_and (\<lambda>n. n \<in> set driver_names) (opt_nonempty (map_option trim (read_to_string sys (path_join dir (lit ''name''))))) then 2 else 0) +
     (if is_some_and (\<lambda>s. trim s \<noteq> []) (read_to_string sys (path_join dir (lit ''temp1_input''))) then 1 else 0))"

definition hwmon_step :: "Sys \<Rightarrow> rstr \<Rightarrow> rstr list \<Rightarrow> (nat \<times> rstr) option \<Rightarrow> SysEntry \<Rightarrow> (nat \<times> rstr) option" where
  "hwmon_step sys bdf driver_names best e = (if \<not> hwmon_of_device sys bdf (se_name e) then best
     else let score = hwmon_score sys driver_names (se_name e) in
       if (case best of None \<Rightarrow> True
           | Some (best_score, best_name) \<Rightarrow> score > best_score \<or> (score = best_score \<and> se_name e < best_name))
       then Some (score, se_name e) else best)"

definition find_hwmon_for_bdf :: "Sys \<Rightarrow> rstr \<Rightarrow> rstr list \<Rightarrow> rstr option" where
  "find_hwmon_for_bdf sys bdf driver_names = (case read_dir sys HWMON_ROOT of None \<Rightarrow> None
     | Some entries \<Rightarrow> map_option snd (foldl (hwmon_step sys bdf driver_names) None entries))"


section \<open>Lemmas on paths\<close>

definition plain_name :: "rstr \<Rightarrow> bool" where
  "plain_name s \<longleftrightarrow> s \<noteq> [] \<and> s \<noteq> lit ''.'' \<and> s \<noteq> lit ''..'' \<and> 47 \<notin> set s"

definition rooted :: "rstr list \<Rightarrow> rstr" where
  "rooted ss = path_of (lit ''/'' # ss)"

lemma slash [simp]: "lit ''/'' = [47]"
  by (simp add: lit_def)

lemma segment_plain [simp]: "plain_name s \<Longrightarrow> segment s = Some (Named s)"
  by (simp add: segment_def plain_name_def)

lemma starts_with_slash: "starts_with [47] p \<longleftrightarrow> p \<noteq> [] \<and> hd p = 47"
  by (cases p) (auto simp: starts_with_iff)

lemma rooted_join: "list_all plain_name ss \<Longrightarrow> rooted ss = 47 # join [47] ss"
proof (induction ss rule: rev_induct)
  case (snoc s ss)
  have s: "s \<noteq> []" "hd s \<noteq> 47" using snoc.prems by (cases s; auto simp: plain_name_def)+
  have "rooted (ss @ [s]) = path_join (rooted ss) s" by (simp add: rooted_def path_of_def)
  also have "\<dots> = 47 # join [47] (ss @ [s])"
  proof (cases ss rule: rev_cases)
    case Nil
    then show ?thesis using s by (simp add: rooted_def path_of_def path_join_def starts_with_slash)
  next
    case (snoc us u)
    have l: "join [47] (us @ [u]) \<noteq> [] \<and> last (join [47] (us @ [u])) = last u" if "u \<noteq> []" for us u
      using that by (induction "[47] :: rstr" us rule: join.induct) auto
    have u: "u \<noteq> []" "last u \<noteq> 47" using snoc.prems snoc by (cases u rule: rev_cases; auto simp: plain_name_def)+
    have j: "join [47] (ws @ [s]) = join [47] ws @ 47 # s" if "ws \<noteq> []" for ws
      using that by (induction "[47] :: rstr" ws rule: join.induct) auto
    show ?thesis using snoc.IH snoc.prems snoc s u l [of u us] j [of ss]
      by (simp add: path_join_def starts_with_slash)
  qed
  finally show ?case .
qed (simp add: rooted_def path_of_def path_join_def starts_with_slash)

lemma segments_plain: "list_all plain_name ss \<Longrightarrow> List.map_filter segment ss = map Named ss"
  by (induction ss) (simp_all add: map_filter_simps)

lemma components_rooted:
  assumes "list_all plain_name ss"
  shows "components (rooted ss) = RootDir # map Named ss"
proof (cases "ss = []")
  case True
  then show ?thesis by (simp add: rooted_join components_def map_filter_simps segment_def)
next
  case False
  have "split_on 47 (join [47] ss) = ss"
    using False assms by (intro split_on_join) (auto simp: list_all_iff plain_name_def)
  then show ?thesis using assms by (simp add: rooted_join components_def segments_plain)
qed


text \<open>Links resolve from one rooted directory to another.\<close>

definition name_step :: "rstr list \<Rightarrow> path_component \<Rightarrow> rstr list" where
  "name_step ss c = (case c of ParentDir \<Rightarrow> butlast ss | Named s \<Rightarrow> ss @ [s] | _ \<Rightarrow> ss)"

lemma link_step_rooted:
  "list_all plain_name ss \<Longrightarrow> c \<noteq> RootDir \<Longrightarrow> link_step ([47] # ss) c = [47] # name_step ss c"
  by (cases c; cases ss rule: rev_cases) (auto simp: link_step_def name_step_def component_str_def plain_name_def)

lemma plain_name_step: "list_all plain_name ss \<Longrightarrow> (\<And>s. c = Named s \<Longrightarrow> plain_name s) \<Longrightarrow> list_all plain_name (name_step ss c)"
  by (cases c) (auto simp: name_step_def list_all_iff dest: in_set_butlastD)

lemma link_steps_rooted:
  "list_all plain_name ss \<Longrightarrow> RootDir \<notin> set cs \<Longrightarrow> \<forall>s. Named s \<in> set cs \<longrightarrow> plain_name s \<Longrightarrow>
     foldl link_step ([47] # ss) cs = [47] # foldl name_step ss cs \<and> list_all plain_name (foldl name_step ss cs)"
proof (induction cs arbitrary: ss)
  case (Cons c cs)
  have "link_step ([47] # ss) c = [47] # name_step ss c" using Cons.prems by (intro link_step_rooted) auto
  moreover have "list_all plain_name (name_step ss c)" using Cons.prems by (intro plain_name_step) auto
  ultimately show ?case using Cons by simp
qed simp

lemma segments_named: "Named s \<in> set (List.map_filter segment (split_on 47 p)) \<Longrightarrow> plain_name s"
  using split_on_no_sep [of _ 47 p]
  by (auto simp: List.map_filter_def segment_def plain_name_def split: if_splits)

lemma segments_no_root: "RootDir \<notin> set (List.map_filter segment xs)"
  by (auto simp: List.map_filter_def segment_def split: if_splits)

definition relative_components :: "rstr \<Rightarrow> path_component list" where
  "relative_components p = List.map_filter segment (split_on 47 p)"

lemma steps_components:
  assumes "\<not> starts_with [47] p"
  shows "foldl name_step ss (components p) = foldl name_step ss (relative_components p)"
  using assms by (cases p) (auto simp: components_def relative_components_def starts_with_slash name_step_def map_filter_simps segment_def)

text \<open>The names a link leads to from the directory of the names \<open>ss\<close>.\<close>

definition link_names :: "rstr list \<Rightarrow> rstr \<Rightarrow> rstr list" where
  "link_names ss target = (if starts_with [47] target then foldl name_step [] (relative_components (tl target))
     else foldl name_step ss (relative_components target))"

lemma resolve_link_rooted:
  assumes "list_all plain_name ss"
  shows "resolve_link (rooted ss) target = rooted (link_names ss target) \<and> list_all plain_name (link_names ss target)"
proof (cases "starts_with [47] target")
  case True
  then have c: "components target = RootDir # relative_components (tl target)"
    by (cases target) (auto simp: components_def relative_components_def starts_with_slash)
  have "link_step [] RootDir = [47]  # []" by (simp add: link_step_def component_str_def)
  then show ?thesis using True link_steps_rooted [of "[]" "relative_components (tl target)"]
    by (simp add: resolve_link_def c link_names_def rooted_def relative_components_def segments_no_root segments_named)
next
  case False
  have nr: "RootDir \<notin> set (components target)" "\<forall>s. Named s \<in> set (components target) \<longrightarrow> plain_name s"
    using False segments_no_root segments_named
    by (auto simp: components_def starts_with_slash split: list.splits if_splits)
  have "map component_str (components (rooted ss)) = [47] # ss"
    using assms by (simp add: components_rooted component_str_def comp_def)
  then show ?thesis using False assms link_steps_rooted [OF assms nr]
    by (simp add: resolve_link_def link_names_def rooted_def steps_components)
qed

text \<open>
  a link leads from a directory of /sys to a directory of plain names, and leaves nothing to resolve: no dot or
  dot-dot, never above the root; and a path is resolved in one go as well as link by link.
\<close>

theorem resolve_link_normal:
  assumes "list_all plain_name ss"
  shows "\<exists>ts. list_all plain_name ts \<and> resolve_link (rooted ss) target = 47 # join [47] ts \<and>
    (\<not> starts_with [47] rest \<and> target \<noteq> [] \<longrightarrow>
     resolve_link (rooted ss) (target @ [47] @ rest) = resolve_link (rooted ts) rest)"
proof -
  have "split_on 47 (a @ 47 # b) = split_on 47 a @ split_on 47 b" for a b
    by (induction a) (auto split: list.splits)
  then have sp: "relative_components (a @ 47 # b) = relative_components a @ relative_components b" for a b
    by (simp add: relative_components_def List.map_filter_def)
  have st: "starts_with [47] (target @ 47 # rest) = starts_with [47] target" if "target \<noteq> []"
    using that by (simp add: starts_with_slash)
  have "link_names ss (target @ [47] @ rest) = link_names (link_names ss target) rest"
    if "\<not> starts_with [47] rest" "target \<noteq> []"
    using that sp by (simp add: link_names_def st)
  then show ?thesis using assms resolve_link_rooted by (metis rooted_join)
qed


theorem resolve_link_normal_witness:
  "\<exists>ts. list_all plain_name ts \<and> resolve_link (rooted [lit ''sys'', lit ''class'', lit ''drm'']) (lit ''../../devices/d'') = 47 # join [47] ts \<and>
    resolve_link (rooted [lit ''sys'', lit ''class'', lit ''drm'']) (lit ''../../devices/d'' @ [47] @ lit ''../e'') =
      resolve_link (rooted ts) (lit ''../e'')"
proof -
  have "list_all plain_name [lit ''sys'', lit ''class'', lit ''drm'']" by code_simp
  from resolve_link_normal [OF this, of "lit ''../../devices/d''" "lit ''../e''"] show ?thesis
    by (simp add: starts_with_slash lit_def)
qed

section \<open>The discovered cards\<close>

definition gpu_key :: "DiscoveredGpu \<Rightarrow> rstr" where
  "gpu_key g = DeviceId_key (dg_device_id g)"

lemma parse_normalize: "parse_pci_bdf s = Some t \<Longrightarrow> normalize_pci_bdf t = t"
  using parse_pci_bdf_canonical [of s t] parse_pci_bdf_spelling [of s t]
  by (auto simp: bdf_spelling_def parse_pci_bdf_def split: if_splits)

lemma bdf_from_path_canonical: "bdf_from_path p = Some b \<Longrightarrow> parse_pci_bdf b = Some b \<and> normalize_pci_bdf b = b"
  unfolding bdf_from_path_def
  by (drule first_some_in) (auto dest!: sym [of "Some b"] dest: parse_pci_bdf_canonical parse_normalize)

text \<open>What is known of a card apart from its nodes and outputs; it does not depend on the scan.\<close>

definition bare :: "DiscoveredGpu \<Rightarrow> DiscoveredGpu" where
  "bare g = g\<lparr>dg_render_nodes := [], dg_outputs := []\<rparr>"

definition bare_card :: "Sys \<Rightarrow> rstr \<Rightarrow> DiscoveredGpu option" where
  "bare_card sys node = card_gpu sys empty_scan node"

lemma bare_card: "map_option bare (card_gpu sys s node) = bare_card sys node"
  by (simp add: card_gpu_def bare_card_def empty_scan_def bare_def Let_def split: option.splits)

lemma bare_cards: "map bare (card_gpus sys s nodes) = List.map_filter (bare_card sys) nodes"
proof (induction nodes arbitrary: s)
  case (Cons n nodes)
  show ?case using bare_card [of sys s n, symmetric] Cons
    by (cases "card_gpu sys s n") (auto simp: map_filter_simps)
qed (simp add: map_filter_simps)

lemma gpu_key_bare [simp]: "gpu_key (bare g) = gpu_key g"
  by (simp add: gpu_key_def bare_def)

definition is_card :: "Sys \<Rightarrow> SysEntry \<Rightarrow> bool" where
  "is_card sys e \<longleftrightarrow> se_is_symlink e \<and> symlink_target sys (path_join DRM_ROOT (se_name e)) \<noteq> None \<and>
     starts_with (lit ''card'') (se_name e) \<and> 45 \<notin> set (se_name e)"

lemma card_not_render: "starts_with (lit ''card'') s \<Longrightarrow> \<not> starts_with (lit ''renderD'') s"
  by (auto simp: starts_with_iff lit_def)

lemma scan_cards: "ds_cards (foldl (scan_entry sys) s es) = ds_cards s @ map se_name (filter (is_card sys) es)"
proof (induction es arbitrary: s)
  case (Cons e es)
  have "ds_cards (scan_entry sys s e) = ds_cards s @ (if is_card sys e then [se_name e] else [])"
    using card_not_render by (auto simp: scan_entry_def is_card_def Let_def split: option.splits)
  then show ?case using Cons by simp
qed simp

lemma sort_key_bare: "map bare (sort_key gpu_key xs) = sort_key gpu_key (map bare xs)"
proof -
  have "map bare (insort_key gpu_key x xs) = insort_key gpu_key (bare x) (map bare xs)" for x xs
    by (induction xs) simp_all
  then show ?thesis by (induction xs) (simp_all add: sort_key_def)
qed

lemma discover_bare:
  "map bare (discover_gpus sys) = (case read_dir sys DRM_ROOT of None \<Rightarrow> []
     | Some es \<Rightarrow> sort_key gpu_key (List.map_filter (bare_card sys) (map se_name (filter (is_card sys) es))))"
proof (cases "read_dir sys DRM_ROOT")
  case (Some es)
  have "discover_gpus sys = (let s = foldl (scan_entry sys) empty_scan es in sort_key gpu_key (card_gpus sys s (ds_cards s)))"
    unfolding discover_gpus_def Some gpu_key_def by simp
  then show ?thesis using Some by (simp add: Let_def sort_key_bare bare_cards scan_cards empty_scan_def)
qed (simp add: discover_gpus_def)


lemma listing_irrelevant [simp]:
  "read_hex (sys\<lparr>read_dir := f\<rparr>) p = read_hex sys p" "driver_name (sys\<lparr>read_dir := f\<rparr>) p = driver_name sys p"
  "card_pci_dir (sys\<lparr>read_dir := f\<rparr>) n = card_pci_dir sys n"
  by (simp_all add: read_hex_def driver_name_def card_pci_dir_def)

text \<open>
  the order in which the kernel lists /sys/class/drm does not matter: the same cards come in the same order with
  the same identity, vendor and driver.
\<close>

theorem discovery_stable:
  assumes "read_dir sys DRM_ROOT = Some es" "mset es' = mset es" "distinct (map gpu_key (discover_gpus sys))"
  shows "map bare (discover_gpus (sys\<lparr>read_dir := (read_dir sys)(DRM_ROOT := Some es')\<rparr>)) = map bare (discover_gpus sys)"
proof -
  let ?sys = "sys\<lparr>read_dir := (read_dir sys)(DRM_ROOT := Some es')\<rparr>"
  let ?f = "\<lambda>es. List.map_filter (bare_card sys) (map se_name (filter (is_card sys) es))"
  have b: "bare_card ?sys = bare_card sys" and c: "is_card ?sys = is_card sys"
    by (simp_all add: fun_eq_iff bare_card_def card_gpu_def is_card_def Let_def cong: option.case_cong)
  have m: "mset (?f es') = mset (?f es)" using assms(2) by (simp add: List.map_filter_def mset_filter)
  have "distinct (map gpu_key (map bare (discover_gpus sys)))" using assms(3) by (simp add: comp_def)
  then have d: "distinct (map gpu_key (?f es))"
    by (simp add: discover_bare assms(1) distinct_map)
  then have "inj_on gpu_key (set (?f es'))" using m by (metis distinct_map mset_eq_setD)
  then have "sort_key gpu_key (?f es') = sort_key gpu_key (?f es)"
    using m by (intro sort_key_inj_key_eq) simp_all
  then show ?thesis unfolding discover_bare by (simp add: assms(1) b c)
qed

text \<open>Cards come with the key of their device, and only with what the scan found.\<close>

lemma card_gpu_Some:
  assumes "card_gpu sys s node = Some g"
  shows "dg_card g = node" "parse_pci_bdf (gpu_key g) = Some (gpu_key g)" "dg_device_id g = DeviceId_new (Some (gpu_key g)) None"
    "dg_pci_class_code g = 0 \<or> is_display_class (dg_pci_class_code g)"
    "set (dg_render_nodes g) \<subseteq> fst ` set (ds_render s)" "dg_outputs g = ds_outputs s node"
  using assms bdf_from_path_canonical
  by (auto simp: card_gpu_def Let_def gpu_key_def DeviceId_key_def DeviceId_new_def is_some_and_def
      split: option.splits if_splits)

lemma scan_nodes:
  assumes "\<forall>p \<in> set (ds_render s). starts_with (lit ''renderD'') (fst p)"
    "\<forall>n. \<forall>out \<in> set (ds_outputs s n). hd (split_on 45 out) = n"
  shows "(\<forall>p \<in> set (ds_render (foldl (scan_entry sys) s es)). starts_with (lit ''renderD'') (fst p)) \<and>
    (\<forall>n. \<forall>out \<in> set (ds_outputs (foldl (scan_entry sys) s es) n). hd (split_on 45 out) = n)"
  using assms
proof (induction es arbitrary: s)
  case (Cons e es)
  have "\<forall>p \<in> set (ds_render (scan_entry sys s e)). starts_with (lit ''renderD'') (fst p)"
    "\<forall>n. \<forall>out \<in> set (ds_outputs (scan_entry sys s e) n). hd (split_on 45 out) = n"
    using Cons.prems by (auto simp: scan_entry_def Let_def split: option.splits)
  then show ?case unfolding foldl_Cons by (rule Cons.IH)
qed simp

lemma card_gpus_elem:
  assumes "g \<in> set (card_gpus sys s nodes)"
  shows "\<exists>t node. node \<in> set nodes \<and> card_gpu sys t node = Some g \<and> ds_render t = ds_render s \<and>
    (\<forall>n. set (ds_outputs t n) \<subseteq> set (ds_outputs s n))"
  using assms
proof (induction nodes arbitrary: s)
  case (Cons n nodes)
  show ?case
  proof (cases "card_gpu sys s n")
    case None
    then have "g \<in> set (card_gpus sys s nodes)" using Cons.prems by simp
    from Cons.IH [OF this] show ?thesis by (meson list.set_intros(2))
  next
    case (Some h)
    show ?thesis
    proof (cases "g = h")
      case True
      then show ?thesis using Some by (intro exI [of _ s] exI [of _ n]) simp
    next
      case False
      let ?s = "s\<lparr>ds_outputs := (ds_outputs s)(n := [])\<rparr>"
      have "g \<in> set (card_gpus sys ?s nodes)" using Cons.prems Some False by simp
      then obtain t node where t: "node \<in> set nodes" "card_gpu sys t node = Some g" "ds_render t = ds_render ?s"
        "\<forall>n. set (ds_outputs t n) \<subseteq> set (ds_outputs ?s n)" using Cons.IH by blast
      have "set (ds_outputs t m) \<subseteq> set (ds_outputs s m)" for m using t(4) [rule_format, of m] by (auto split: if_splits)
      then show ?thesis using t by (intro exI [of _ t] exI [of _ node]) simp
    qed
  qed
qed simp

text \<open>
  every discovered card has the canonical address of a PCI device as its key and is not known to be anything but a
  display controller; its outputs are its own, and the cards are sorted by key.
\<close>

theorem discovery_sound:
  "sorted (map gpu_key (discover_gpus sys)) \<and> list_all (\<lambda>g.
     parse_pci_bdf (gpu_key g) = Some (gpu_key g) \<and> (dg_pci_class_code g = 0 \<or> is_display_class (dg_pci_class_code g)) \<and>
     list_all (starts_with (lit ''renderD'')) (dg_render_nodes g) \<and>
     list_all (\<lambda>out. hd (split_on 45 out) = dg_card g) (dg_outputs g)) (discover_gpus sys)"
proof (cases "read_dir sys DRM_ROOT")
  case (Some es)
  define s where "s = foldl (scan_entry sys) empty_scan es"
  have d: "discover_gpus sys = sort_key gpu_key (card_gpus sys s (ds_cards s))"
    unfolding discover_gpus_def Some gpu_key_def s_def by (simp add: Let_def)
  have nodes: "\<forall>p \<in> set (ds_render s). starts_with (lit ''renderD'') (fst p)"
    "\<forall>n. \<forall>out \<in> set (ds_outputs s n). hd (split_on 45 out) = n"
    unfolding s_def using scan_nodes [of empty_scan sys es] by (simp_all add: empty_scan_def)
  have "parse_pci_bdf (gpu_key g) = Some (gpu_key g) \<and> (dg_pci_class_code g = 0 \<or> is_display_class (dg_pci_class_code g)) \<and>
     (\<forall>n \<in> set (dg_render_nodes g). starts_with (lit ''renderD'') n) \<and>
     (\<forall>out \<in> set (dg_outputs g). hd (split_on 45 out) = dg_card g)" if g: "g \<in> set (discover_gpus sys)" for g
  proof -
    obtain t node where t: "card_gpu sys t node = Some g" "ds_render t = ds_render s"
      "\<forall>n. set (ds_outputs t n) \<subseteq> set (ds_outputs s n)"
      using card_gpus_elem [of g sys s "ds_cards s"] g by (auto simp: d)
    show ?thesis using card_gpu_Some [OF t(1)] t(2,3) nodes by (simp; blast)
  qed
  moreover have "sorted (map gpu_key (discover_gpus sys))" by (simp add: d)
  ultimately show ?thesis by (simp add: list_all_iff)
qed (simp add: discover_gpus_def)

section \<open>The best hwmon\<close>

definition hwmon_beats :: "nat \<times> rstr \<Rightarrow> nat \<times> rstr \<Rightarrow> bool" where
  "hwmon_beats a b \<longleftrightarrow> fst b < fst a \<or> (fst a = fst b \<and> snd a \<le> snd b)"

definition rated :: "Sys \<Rightarrow> rstr list \<Rightarrow> rstr \<Rightarrow> nat \<times> rstr" where
  "rated sys driver_names name = (hwmon_score sys driver_names name, name)"

definition hwmons :: "Sys \<Rightarrow> rstr \<Rightarrow> rstr list" where
  "hwmons sys bdf = (case read_dir sys HWMON_ROOT of None \<Rightarrow> []
     | Some es \<Rightarrow> filter (hwmon_of_device sys bdf) (map se_name es))"

lemma hwmon_beats_order:
  "hwmon_beats a b \<or> hwmon_beats b a" "hwmon_beats a b \<Longrightarrow> hwmon_beats b c \<Longrightarrow> hwmon_beats a c"
  "hwmon_beats a b \<Longrightarrow> hwmon_beats b a \<Longrightarrow> a = b"
  by (cases a; cases b; cases c; auto simp: hwmon_beats_def)+

lemma hwmon_step_best:
  "hwmon_step sys bdf dn best e = (if \<not> hwmon_of_device sys bdf (se_name e) then best
     else if is_some_and (\<lambda>b. hwmon_beats b (rated sys dn (se_name e))) best then best else Some (rated sys dn (se_name e)))"
  by (auto simp: hwmon_step_def Let_def rated_def hwmon_beats_def is_some_and_def split: option.splits)

definition is_best :: "(nat \<times> rstr) list \<Rightarrow> (nat \<times> rstr) option \<Rightarrow> bool" where
  "is_best xs r \<longleftrightarrow> (case r of None \<Rightarrow> xs = [] | Some b \<Rightarrow> b \<in> set xs \<and> (\<forall>x \<in> set xs. hwmon_beats b x))"

lemma is_best_snoc:
  assumes "is_best xs r"
  shows "is_best (xs @ [y]) (if is_some_and (\<lambda>b. hwmon_beats b y) r then r else Some y)"
proof (cases r)
  case (Some b)
  have "hwmon_beats y y" using hwmon_beats_order(1) by blast
  moreover have "hwmon_beats y x" if "\<not> hwmon_beats b y" "x \<in> set xs" for x
    using that assms Some hwmon_beats_order(1) [of b y] hwmon_beats_order(2) [of y b x] by (auto simp: is_best_def)
  ultimately show ?thesis using assms Some by (auto simp: is_best_def is_some_and_def)
qed (use assms hwmon_beats_order(1) [of y y] in \<open>auto simp: is_best_def is_some_and_def\<close>)

lemma is_best_unique: "is_best xs r \<Longrightarrow> r = Some b \<longleftrightarrow> b \<in> set xs \<and> (\<forall>x \<in> set xs. hwmon_beats b x)"
  by (auto simp: is_best_def split: option.splits intro: hwmon_beats_order(3))

text \<open>The fold keeps the best of what it has seen.\<close>

lemma hwmon_fold:
  "is_best seen best \<Longrightarrow> is_best (seen @ map (rated sys dn) (filter (hwmon_of_device sys bdf) (map se_name es)))
     (foldl (hwmon_step sys bdf dn) best es)"
proof (induction es arbitrary: best seen)
  case (Cons e es)
  show ?case
  proof (cases "hwmon_of_device sys bdf (se_name e)")
    case True
    then show ?thesis
      using Cons.IH [OF is_best_snoc [OF Cons.prems, of "rated sys dn (se_name e)"]] by (simp add: hwmon_step_best)
  next
    case False
    then show ?thesis using Cons.IH [OF Cons.prems] by (simp add: hwmon_step_best)
  qed
qed simp

text \<open>
  the hwmon chosen for a device is the best of those whose link leads to it: one that has the driver's name before one that
  has not, then one with a temperature sensor, then the smallest name; the order of the directory does not matter.
\<close>

theorem hwmon_best:
  "find_hwmon_for_bdf sys bdf driver_names = Some name \<longleftrightarrow> name \<in> set (hwmons sys bdf) \<and>
     (\<forall>other \<in> set (hwmons sys bdf). hwmon_score sys driver_names other < hwmon_score sys driver_names name \<or>
        (hwmon_score sys driver_names other = hwmon_score sys driver_names name \<and> name \<le> other))"
proof (cases "read_dir sys HWMON_ROOT")
  case (Some es)
  have "is_best (map (rated sys driver_names) (hwmons sys bdf)) (foldl (hwmon_step sys bdf driver_names) None es)"
    using hwmon_fold [of "[]" None] by (simp add: is_best_def hwmons_def Some)
  moreover have "find_hwmon_for_bdf sys bdf driver_names = Some name \<longleftrightarrow>
      (\<exists>k. foldl (hwmon_step sys bdf driver_names) None es = Some (k, name))"
    by (auto simp: find_hwmon_for_bdf_def Some)
  moreover have "(k, name) \<in> rated sys driver_names ` S \<longleftrightarrow> k = hwmon_score sys driver_names name \<and> name \<in> S" for k S
    by (auto simp: rated_def)
  ultimately show ?thesis by (auto simp: is_best_unique hwmon_beats_def rated_def)
qed (simp add: find_hwmon_for_bdf_def hwmons_def)

definition sample_hwmons :: Sys where
  "sample_hwmons = \<lparr>read_to_string = (\<lambda>p. if p = lit ''/sys/class/hwmon/hwmon7/name'' then Some (lit ''amdgpu'' @ [10]) else None),
     read_to_string_lossy = (\<lambda>_. None),
     read_dir = (\<lambda>p. if p = HWMON_ROOT then Some (map (\<lambda>n. \<lparr>se_name = n, se_is_symlink = True, se_is_dir = False\<rparr>)
       [lit ''hwmon3'', lit ''hwmon7'', lit ''hwmon5'']) else None),
     symlink_target = (\<lambda>p. if p = lit ''/sys/class/hwmon/hwmon5/device'' then None else Some (lit ''../../devices/0000:01:00.0'')),
     char_device_id = (\<lambda>_. None), read_dir_names = (\<lambda>_. None)\<rparr>"

theorem hwmon_best_witness: "find_hwmon_for_bdf sample_hwmons (lit ''0000:01:00.0'') [lit ''amdgpu''] = Some (lit ''hwmon7'')"
proof -
  have "hwmons sample_hwmons (lit ''0000:01:00.0'') = [lit ''hwmon3'', lit ''hwmon7'']"
    "hwmon_score sample_hwmons [lit ''amdgpu''] (lit ''hwmon3'') = 0" "hwmon_score sample_hwmons [lit ''amdgpu''] (lit ''hwmon7'') = 2"
    by code_simp+
  then show ?thesis using hwmon_best by simp
qed

definition sample_drm_dir :: Sys where
  "sample_drm_dir = \<lparr>read_to_string = (\<lambda>p. if p = lit ''/sys/devices/0000:02:00.0/vendor'' then Some (lit ''0x10de'' @ [10]) else None),
     read_to_string_lossy = (\<lambda>_. None),
     read_dir = (\<lambda>p. if p = DRM_ROOT then Some (map (\<lambda>n. \<lparr>se_name = n, se_is_symlink = True, se_is_dir = False\<rparr>)
       [lit ''card1'', lit ''card1-DP-1'', lit ''renderD128'', lit ''card0'']) else None),
     symlink_target = (\<lambda>p. if p = lit ''/sys/class/drm/card0'' then Some (lit ''../../devices/0000:01:00.0/drm/card0'')
       else if p = lit ''/sys/class/drm/card1'' then Some (lit ''../../devices/0000:02:00.0/drm/card1'')
       else if p = lit ''/sys/class/drm/card1-DP-1'' then Some (lit ''../../devices/0000:02:00.0/drm/card1/card1-DP-1'')
       else if p = lit ''/sys/class/drm/renderD128'' then Some (lit ''../../devices/0000:01:00.0/drm/renderD128'') else None),
     char_device_id = (\<lambda>_. None), read_dir_names = (\<lambda>_. None)\<rparr>"

theorem discovery_stable_witness:
  "map bare (discover_gpus (sample_drm_dir\<lparr>read_dir := (read_dir sample_drm_dir)(DRM_ROOT := Some (rev (the (read_dir sample_drm_dir DRM_ROOT))))\<rparr>)) =
     map bare (discover_gpus sample_drm_dir) \<and> map gpu_key (discover_gpus sample_drm_dir) = [lit ''0000:01:00.0'', lit ''0000:02:00.0'']"
proof -
  have k: "map gpu_key (discover_gpus sample_drm_dir) = [lit ''0000:01:00.0'', lit ''0000:02:00.0'']" by code_simp
  have r: "read_dir sample_drm_dir DRM_ROOT = Some (the (read_dir sample_drm_dir DRM_ROOT))"
    by (simp add: sample_drm_dir_def)
  show ?thesis using k by (intro conjI discovery_stable [OF r]) simp_all
qed

end
