(* ===== verification/Providers.thy ===== *)
theory Providers
  imports Gpus
begin

text \<open>
  The samplers of the vendors and the choice between them, from \<^verbatim>\<open>src/gpu.rs\<close> and
  \<^verbatim>\<open>src/providers/\<close>.  What sysfs and NVML answer at the moment of a sample are arguments: a
  \<^verbatim>\<open>Sys\<close>, and a record of what each call to NVML returned, an error being \<open>None\<close> or \<open>Inl\<close> its text.
\<close>

record GpuStats =
  gs_available :: bool
  gs_index :: u32
  gs_device :: DeviceId
  gs_name :: rstr
  gs_utilization :: "f64 option"
  gs_memory_utilization :: "f64 option"
  gs_memory_used_mib :: "f64 option"
  gs_memory_total_mib :: "f64 option"
  gs_temperature_c :: "f64 option"
  gs_power_w :: "f64 option"
  gs_power_limit_w :: "f64 option"
  gs_pstate :: rstr
  gs_limit_reason :: rstr
  gs_graphics_clock_mhz :: "f64 option"
  gs_memory_clock_mhz :: "f64 option"
  gs_encoder_utilization :: "f64 option"
  gs_decoder_utilization :: "f64 option"
  gs_fan_percent :: "f64 option"
  gs_pcie_rx_mb_s :: "f64 option"
  gs_pcie_tx_mb_s :: "f64 option"
  gs_pcie_link_speed_gts :: "f64 option"
  gs_pcie_link_width :: "u32 option"
  gs_error :: rstr

definition no_device :: DeviceId where
  "no_device = \<lparr>pci_bdf = None, uuid = None\<rparr>"

definition GpuStats_default :: GpuStats where
  "GpuStats_default = \<lparr>gs_available = False, gs_index = 0, gs_device = no_device, gs_name = [], gs_utilization = None,
     gs_memory_utilization = None, gs_memory_used_mib = None, gs_memory_total_mib = None, gs_temperature_c = None,
     gs_power_w = None, gs_power_limit_w = None, gs_pstate = [], gs_limit_reason = [], gs_graphics_clock_mhz = None,
     gs_memory_clock_mhz = None, gs_encoder_utilization = None, gs_decoder_utilization = None, gs_fan_percent = None,
     gs_pcie_rx_mb_s = None, gs_pcie_tx_mb_s = None, gs_pcie_link_speed_gts = None, gs_pcie_link_width = None, gs_error = []\<rparr>"

definition stats_error :: "rstr \<Rightarrow> GpuStats" where
  "stats_error e = GpuStats_default\<lparr>gs_error := e\<rparr>"

definition EM_DASH :: rstr where
  "EM_DASH = [8212]"

section \<open>Readings\<close>

definition read_text :: "Sys \<Rightarrow> rstr \<Rightarrow> rstr option" where
  "read_text sys path = opt_nonempty (map_option trim (read_to_string sys path))"

definition gpu_read_u64 :: "Sys \<Rightarrow> rstr \<Rightarrow> u64 option" where
  "gpu_read_u64 sys path = Option.bind (read_text sys path) parse_word"

text \<open>\<^verbatim>\<open>parse::<i64>\<close>.\<close>

definition parse_i64 :: "rstr \<Rightarrow> int option" where
  "parse_i64 s = (case s of [] \<Rightarrow> None
     | c # r \<Rightarrow> if c = 45 then (if r \<noteq> [] \<and> list_all is_digit r \<and> dec_val r \<le> 2 ^ 63 then Some (- int (dec_val r)) else None)
         else map_option int (parse_nat 63 s))"

definition read_i64 :: "Sys \<Rightarrow> rstr \<Rightarrow> int option" where
  "read_i64 sys path = Option.bind (read_text sys path) parse_i64"

definition bytes_to_mib :: "u64 \<Rightarrow> f64" where
  "bytes_to_mib bytes = fdiv (fdiv (f64_of_u64 bytes) (Fin 1024)) (Fin 1024)"

definition finite_reading :: "f64 option \<Rightarrow> f64 option" where
  "finite_reading v = opt_filter is_finite v"

definition nonnegative :: "f64 option \<Rightarrow> f64 option" where
  "nonnegative v = map_option (\<lambda>x. fmax x (Fin 0)) (opt_filter is_finite v)"

definition clamp_percent :: "f64 \<Rightarrow> f64" where
  "clamp_percent x = (if is_finite x then fclamp (Fin 0) (Fin 100) x else Fin 0)"

definition scaled_i64 :: "rat \<Rightarrow> int option \<Rightarrow> f64 option" where
  "scaled_i64 d v = map_option (\<lambda>x. fdiv (f64_of_int x) (Fin d)) v"

section \<open>AMD\<close>

record AmdGpuProvider =
  ap_gpu :: DiscoveredGpu
  ap_hwmon :: "rstr option"
  ap_index :: u32

definition AmdGpuProvider_new :: "Sys \<Rightarrow> DiscoveredGpu \<Rightarrow> u32 \<Rightarrow> AmdGpuProvider" where
  "AmdGpuProvider_new sys gpu index = \<lparr>ap_gpu = gpu,
     ap_hwmon = find_hwmon_for_bdf sys (DeviceId_key (dg_device_id gpu)) [lit ''amdgpu''], ap_index = index\<rparr>"

definition amd_known :: "(u16 \<times> rstr) list" where
  "amd_known = [(0x13c0, lit ''AMD Radeon (Granite Ridge APU iGPU)''), (0x1586, lit ''AMD Radeon (Strix Halo APU iGPU)''),
     (0x1681, lit ''AMD Radeon 680M (Rembrandt APU iGPU)''), (0x7481, lit ''AMD Radeon (Navi 33 APU iGPU)''),
     (0x7487, lit ''AMD Radeon (Navi 33 APU iGPU)''), (0x748b, lit ''AMD Radeon (Navi 33 APU iGPU)''),
     (0x73ff, lit ''AMD Radeon RX 6600 series (Navi 23)''), (0x73bf, lit ''AMD Radeon RX 6800/6900 series (Navi 21)''),
     (0x744c, lit ''AMD Radeon RX 7900 series (Navi 31)''), (0x747e, lit ''AMD Radeon RX 7700/7800 series (Navi 32)'')]"

definition amd_display_name :: "DiscoveredGpu \<Rightarrow> rstr option" where
  "amd_display_name gpu = map_option snd (find (\<lambda>p. fst p = dg_pci_device_id gpu) amd_known)"

definition amd_fill_hwmon :: "AmdGpuProvider \<Rightarrow> Sys \<Rightarrow> GpuStats \<Rightarrow> GpuStats" where
  "amd_fill_hwmon p sys s = (case ap_hwmon p of None \<Rightarrow> s
     | Some hwmon \<Rightarrow> let dir = path_join (lit ''/sys/class/hwmon'') hwmon; rd = (\<lambda>f. read_i64 sys (path_join dir f)) in
         s\<lparr>gs_temperature_c := scaled_i64 1000 (rd (lit ''temp1_input'')),
           gs_power_w := scaled_i64 1000000 (rd (lit ''power1_input'')),
           gs_graphics_clock_mhz := scaled_i64 1000000 (rd (lit ''freq1_input'')),
           gs_memory_clock_mhz := scaled_i64 1000000 (rd (lit ''freq2_input'')),
           gs_fan_percent := (case (rd (lit ''fan1_input''), rd (lit ''fan1_max'')) of
               (Some rpm, Some fan_max) \<Rightarrow> if fan_max > 0 then Some (fmul (fdiv (f64_of_int rpm) (f64_of_int fan_max)) (Fin 100)) else None
             | _ \<Rightarrow> None)\<rparr>)"

definition amd_sanitize :: "GpuStats \<Rightarrow> GpuStats" where
  "amd_sanitize s = s\<lparr>gs_utilization := map_option clamp_percent (gs_utilization s),
     gs_memory_utilization := map_option clamp_percent (gs_memory_utilization s),
     gs_fan_percent := nonnegative (gs_fan_percent s), gs_temperature_c := finite_reading (gs_temperature_c s),
     gs_power_w := nonnegative (gs_power_w s), gs_graphics_clock_mhz := nonnegative (gs_graphics_clock_mhz s),
     gs_memory_clock_mhz := nonnegative (gs_memory_clock_mhz s)\<rparr>"

definition amd_sample :: "AmdGpuProvider \<Rightarrow> Sys \<Rightarrow> GpuStats" where
  "amd_sample p sys = (let bdf = DeviceId_key (dg_device_id (ap_gpu p)); pci = pci_device_dir bdf in
     if read_dir sys pci = None
     then GpuStats_default\<lparr>gs_index := ap_index p, gs_device := dg_device_id (ap_gpu p), gs_name := dg_card (ap_gpu p),
       gs_error := lit ''AMD GPU PCI device '' @ bdf @ lit '' not readable''\<rparr>
     else amd_sanitize (amd_fill_hwmon p sys (GpuStats_default\<lparr>gs_available := True, gs_index := ap_index p,
       gs_device := dg_device_id (ap_gpu p),
       gs_name := unwrap_or (dg_card (ap_gpu p)) (opt_or (read_text sys (path_join pci (lit ''product_name''))) (amd_display_name (ap_gpu p))),
       gs_utilization := map_option f64_of_u64 (gpu_read_u64 sys (path_join pci (lit ''gpu_busy_percent''))),
       gs_memory_utilization := map_option f64_of_u64 (gpu_read_u64 sys (path_join pci (lit ''mem_busy_percent''))),
       gs_memory_used_mib := map_option bytes_to_mib (gpu_read_u64 sys (path_join pci (lit ''mem_info_vram_used''))),
       gs_memory_total_mib := map_option bytes_to_mib (gpu_read_u64 sys (path_join pci (lit ''mem_info_vram_total'')))\<rparr>)))"

section \<open>Intel\<close>

record IntelGpuProvider =
  ip_gpu :: DiscoveredGpu
  ip_hwmon :: "rstr option"
  ip_index :: u32

definition IntelGpuProvider_new :: "Sys \<Rightarrow> DiscoveredGpu \<Rightarrow> u32 \<Rightarrow> IntelGpuProvider" where
  "IntelGpuProvider_new sys gpu index = \<lparr>ip_gpu = gpu,
     ip_hwmon = find_hwmon_for_bdf sys (DeviceId_key (dg_device_id gpu)) [lit ''i915'', lit ''xe''], ip_index = index\<rparr>"

definition intel_known :: "(u16 \<times> rstr) list" where
  "intel_known = [(0x64a0, lit ''Intel Arc (Core Ultra 200V iGPU)''), (0x7d45, lit ''Intel Arc (Meteor Lake-P iGPU)''),
     (0x7d55, lit ''Intel Arc (Meteor Lake-P iGPU)''), (0x9a49, lit ''Intel Iris Xe (Tiger Lake iGPU)''),
     (0x46a6, lit ''Intel Iris Xe (Alder Lake iGPU)''), (0x46a8, lit ''Intel Iris Xe (Alder Lake iGPU)''),
     (0x46aa, lit ''Intel Iris Xe (Alder Lake iGPU)''), (0x56a0, lit ''Intel Arc A770''), (0x56a1, lit ''Intel Arc A750''),
     (0xe20b, lit ''Intel Arc B580''), (0xe20c, lit ''Intel Arc B570'')]"

definition intel_display_name :: "DiscoveredGpu \<Rightarrow> rstr" where
  "intel_display_name gpu = unwrap_or (dg_card gpu) (map_option snd (find (\<lambda>p. fst p = dg_pci_device_id gpu) intel_known))"

definition gt_sysfs_dir :: "DiscoveredGpu \<Rightarrow> rstr" where
  "gt_sysfs_dir gpu = (if dg_driver gpu = lit ''xe'' then path_join (pci_device_dir (DeviceId_key (dg_device_id gpu))) (lit ''tile0/gt0/freq0'')
     else path_join (lit ''/sys/class/drm'') (dg_card gpu))"

definition sample_xe :: "DiscoveredGpu \<Rightarrow> Sys \<Rightarrow> GpuStats \<Rightarrow> GpuStats" where
  "sample_xe gpu sys s = (let dir = gt_sysfs_dir gpu in
     s\<lparr>gs_graphics_clock_mhz := map_option f64_of_u64 (gpu_read_u64 sys (path_join dir (lit ''cur_freq''))),
       gs_limit_reason := unwrap_or EM_DASH (read_text sys (path_join dir (lit ''throttle/reasons'')))\<rparr>)"

definition throttle_attrs :: "(rstr \<times> rstr) list" where
  "throttle_attrs = [(lit ''throttle_reason_pl1'', lit ''power''), (lit ''throttle_reason_pl2'', lit ''power''),
     (lit ''throttle_reason_pl4'', lit ''power''), (lit ''throttle_reason_thermal'', lit ''thermal''),
     (lit ''throttle_reason_prochot'', lit ''prochot''), (lit ''throttle_reason_ratl'', lit ''ratl''),
     (lit ''throttle_reason_vr_thermalert'', lit ''vr-thermalert''), (lit ''throttle_reason_vr_tdc'', lit ''vr-tdc'')]"

definition throttle_step :: "Sys \<Rightarrow> rstr \<Rightarrow> rstr list \<times> bool \<Rightarrow> rstr \<times> rstr \<Rightarrow> rstr list \<times> bool" where
  "throttle_step sys dir acc a = (case gpu_read_u64 sys (path_join dir (fst a)) of
       None \<Rightarrow> acc
     | Some v \<Rightarrow> if v = 1 then (fst acc @ [snd a], snd acc) else (fst acc, True))"

definition throttle_text :: "rstr list \<times> bool \<Rightarrow> rstr" where
  "throttle_text acc = (if fst acc \<noteq> [] then join (lit ''+'') (fst acc) else if snd acc then lit ''none'' else EM_DASH)"

text \<open>The first of the two files that reads gives the clock and the directory of the reasons.\<close>

fun first_clock :: "Sys \<Rightarrow> rstr \<Rightarrow> rstr list \<Rightarrow> (f64 option \<times> rstr)" where
  "first_clock sys dir [] = (None, dir)"
| "first_clock sys dir (path # paths) = (case gpu_read_u64 sys path of
       Some v \<Rightarrow> (Some (f64_of_u64 v), unwrap_or dir (parent path))
     | None \<Rightarrow> first_clock sys dir paths)"

definition sample_i915 :: "DiscoveredGpu \<Rightarrow> Sys \<Rightarrow> GpuStats \<Rightarrow> GpuStats" where
  "sample_i915 gpu sys s = (let dir = path_join (lit ''/sys/class/drm'') (dg_card gpu) in
     case first_clock sys dir [path_join dir (lit ''rps_cur_freq_mhz''), path_join dir (lit ''gt/gt0/rps_cur_freq_mhz'')] of
       (clock, base) \<Rightarrow> s\<lparr>gs_graphics_clock_mhz := opt_or clock (gs_graphics_clock_mhz s),
         gs_limit_reason := throttle_text (foldl (throttle_step sys base) ([], False) throttle_attrs)\<rparr>)"

definition intel_fill_hwmon :: "IntelGpuProvider \<Rightarrow> Sys \<Rightarrow> GpuStats \<Rightarrow> GpuStats" where
  "intel_fill_hwmon p sys s = (case ip_hwmon p of None \<Rightarrow> s
     | Some hwmon \<Rightarrow> let dir = path_join (lit ''/sys/class/hwmon'') hwmon in
         s\<lparr>gs_temperature_c := scaled_i64 1000 (read_i64 sys (path_join dir (lit ''temp1_input''))),
           gs_power_limit_w := scaled_i64 1000000 (opt_filter (\<lambda>v. v > 0) (read_i64 sys (path_join dir (lit ''power1_max''))))\<rparr>)"

definition intel_sanitize :: "GpuStats \<Rightarrow> GpuStats" where
  "intel_sanitize s = s\<lparr>gs_temperature_c := finite_reading (gs_temperature_c s),
     gs_power_limit_w := nonnegative (gs_power_limit_w s), gs_graphics_clock_mhz := nonnegative (gs_graphics_clock_mhz s)\<rparr>"

definition intel_sample :: "IntelGpuProvider \<Rightarrow> Sys \<Rightarrow> GpuStats" where
  "intel_sample p sys = (let gpu = ip_gpu p; bdf = DeviceId_key (dg_device_id gpu);
       s = GpuStats_default\<lparr>gs_index := ip_index p, gs_device := dg_device_id gpu, gs_name := intel_display_name gpu\<rparr> in
     if read_dir sys (gt_sysfs_dir gpu) = None
     then s\<lparr>gs_error := lit ''Intel GPU PCI device '' @ bdf @ lit '' not readable''\<rparr>
     else intel_sanitize (intel_fill_hwmon p sys
       (if dg_driver gpu = lit ''xe'' then sample_xe gpu sys (s\<lparr>gs_available := True\<rparr>) else sample_i915 gpu sys (s\<lparr>gs_available := True\<rparr>))))"

section \<open>NVIDIA\<close>

text \<open>The throttle reasons NVML can report; those the code does not name are \<open>UnnamedReason\<close>.\<close>

datatype ThrottleReason = SwPowerCap | SwThermalSlowdown | HwThermalSlowdown | HwPowerBrakeSlowdown | HwSlowdown | SyncBoost
  | ApplicationsClocksSetting | DisplayClockSetting | GpuIdle | UnnamedReason nat

text \<open>What the calls on one device handle answer during a sample.\<close>

record NvmlReading =
  nr_name :: "rstr option"
  nr_utilization :: "(u32 \<times> u32) option"
  nr_memory :: "(u64 \<times> u64) option"
  nr_encoder :: "u32 option"
  nr_decoder :: "u32 option"
  nr_temperature :: "u32 option"
  nr_power_mw :: "u32 option"
  nr_pstate :: "rstr option"
  nr_throttle :: "ThrottleReason list option"
  nr_graphics_clock :: "u32 option"
  nr_memory_clock :: "u32 option"
  nr_fan :: "u32 option"
  nr_rx_kb :: "u32 option"
  nr_tx_kb :: "u32 option"
  nr_limit_mw :: "u32 option"
  nr_link_speed :: "u32 option"
  nr_link_width :: "u32 option"

record MigHandle =
  mh_uuid :: "rstr option"
  mh_reading :: NvmlReading

record NvmlHandle =
  nh_uuid :: "rstr option"
  nh_bus_id :: "rstr option"
  nh_mig_current :: "u32 option"
  nh_mig_count :: "u32 option"
  nh_mig :: "u32 \<Rightarrow> rstr + MigHandle"
  nh_reading :: NvmlReading

record Nvml =
  nv_count :: "u32 option"
  nv_device :: "u32 \<Rightarrow> rstr + NvmlHandle"

definition indices :: "u32 \<Rightarrow> u32 list" where
  "indices n = map of_nat [0..<unat n]"

definition mig_child_key :: "rstr option \<Rightarrow> DeviceId \<Rightarrow> u32 \<Rightarrow> rstr" where
  "mig_child_key mig_uuid par slot = (let fallback = unwrap_or (lit ''nvidia'') (opt_or (uuid par) (pci_bdf par)) @ lit ''#mig-'' @ show_word slot in
     case mig_uuid of Some u \<Rightarrow> if u \<noteq> [] \<and> is_mig_uuid u then u else fallback | None \<Rightarrow> fallback)"

definition mig_children_of :: "u32 \<Rightarrow> NvmlHandle \<Rightarrow> DeviceId \<Rightarrow> MigChild list" where
  "mig_children_of parent_index device par = (if nh_mig_current device \<noteq> Some 1 then []
     else case nh_mig_count device of None \<Rightarrow> []
       | Some n_devices \<Rightarrow> List.map_filter (\<lambda>slot. case nh_mig device slot of Inl _ \<Rightarrow> None
           | Inr child \<Rightarrow> Some \<lparr>mc_parent_index = parent_index, mc_slot = slot, mc_key = mig_child_key (mh_uuid child) par slot\<rparr>) (indices n_devices))"

definition handle_uuid :: "NvmlHandle \<Rightarrow> rstr option" where
  "handle_uuid h = opt_nonempty (nh_uuid h)"

definition handle_bus_id :: "NvmlHandle \<Rightarrow> rstr option" where
  "handle_bus_id h = opt_nonempty (map_option normalize_pci_bdf (nh_bus_id h))"

definition discover_mig_children :: "Nvml \<Rightarrow> MigChild list" where
  "discover_mig_children nvml = (case nv_count nvml of None \<Rightarrow> []
     | Some n_devices \<Rightarrow> concat (map (\<lambda>index. case nv_device nvml index of Inl _ \<Rightarrow> []
         | Inr device \<Rightarrow> let par = DeviceId_new (handle_bus_id device) (handle_uuid device) in
             if DeviceId_key par = [] then [] else mig_children_of index device par) (indices n_devices)))"

record SlowProperties =
  sp_power_limit_w :: "f64 option"
  sp_pcie_link_speed_gts :: "f64 option"
  sp_pcie_link_width :: "u32 option"
  sp_fetched_at :: "instant option"

definition SlowProperties_default :: SlowProperties where
  "SlowProperties_default = \<lparr>sp_power_limit_w = None, sp_pcie_link_speed_gts = None, sp_pcie_link_width = None, sp_fetched_at = None\<rparr>"

definition REFRESH_INTERVAL :: duration where
  "REFRESH_INTERVAL = ms 1000"

definition due_to_refresh :: "instant option \<Rightarrow> instant \<Rightarrow> bool" where
  "due_to_refresh fetched_at now = (case fetched_at of None \<Rightarrow> True | Some fetched \<Rightarrow> REFRESH_INTERVAL \<le> now - fetched)"

definition slow_apply :: "f64 option \<Rightarrow> f64 option \<Rightarrow> u32 option \<Rightarrow> instant \<Rightarrow> SlowProperties \<Rightarrow> SlowProperties" where
  "slow_apply power_limit_w link_speed_gts link_width now p =
     \<lparr>sp_power_limit_w = opt_or power_limit_w (sp_power_limit_w p),
      sp_pcie_link_speed_gts = opt_or link_speed_gts (sp_pcie_link_speed_gts p),
      sp_pcie_link_width = opt_or link_width (sp_pcie_link_width p), sp_fetched_at = Some now\<rparr>"

definition milli :: "u32 \<Rightarrow> f64" where
  "milli v = fdiv (f64_of_nat (unat v)) (Fin 1000)"

text \<open>The clock is read before the calls and again after them.\<close>

definition slow_refresh :: "NvmlReading \<Rightarrow> instant \<Rightarrow> instant \<Rightarrow> SlowProperties \<Rightarrow> SlowProperties" where
  "slow_refresh rd now after p = (if \<not> due_to_refresh (sp_fetched_at p) now then p
     else if nr_limit_mw rd = None \<and> nr_link_speed rd = None \<and> nr_link_width rd = None then p
     else slow_apply (map_option milli (nr_limit_mw rd)) (map_option milli (nr_link_speed rd)) (nr_link_width rd) after p)"

definition f64_of_u32 :: "u32 \<Rightarrow> f64" where
  "f64_of_u32 v = f64_of_nat (unat v)"

definition pstate_names :: "rstr list" where
  "pstate_names = [lit ''Zero'', lit ''One'', lit ''Two'', lit ''Three'', lit ''Four'', lit ''Five'', lit ''Six'', lit ''Seven'',
     lit ''Eight'', lit ''Nine'', lit ''Ten'', lit ''Eleven'', lit ''Twelve'', lit ''Thirteen'', lit ''Fourteen'', lit ''Fifteen'']"

definition normalize_pstate :: "rstr \<Rightarrow> rstr" where
  "normalize_pstate raw = (case find (\<lambda>(i, w). w = raw) (zip [0..<16] pstate_names) of
       Some (n, _) \<Rightarrow> lit ''P'' @ show_nat n | None \<Rightarrow> raw)"

definition format_throttle_reasons :: "ThrottleReason list \<Rightarrow> rstr" where
  "format_throttle_reasons reasons = (if reasons = [] then lit ''none''
     else let labels = map snd (filter (\<lambda>(present, _). present)
       [(SwPowerCap \<in> set reasons, lit ''power''),
        (SwThermalSlowdown \<in> set reasons \<or> HwThermalSlowdown \<in> set reasons, lit ''thermal''),
        (HwPowerBrakeSlowdown \<in> set reasons, lit ''power-brake''), (HwSlowdown \<in> set reasons, lit ''hw''),
        (SyncBoost \<in> set reasons, lit ''sync''), (ApplicationsClocksSetting \<in> set reasons, lit ''app-clock''),
        (DisplayClockSetting \<in> set reasons, lit ''display''), (GpuIdle \<in> set reasons, lit ''idle'')]) in
       if labels = [] then lit ''other'' else join (lit ''+'') labels)"

record NvidiaGpuProvider =
  np_nvml :: bool
  np_init_error :: rstr
  np_selector :: GpuSelector
  np_devices :: "gpu_device list"
  np_mig_children :: "MigChild list"
  np_name :: "rstr option"
  np_slow :: SlowProperties

definition nvml_enumerate :: "Nvml \<Rightarrow> (gpu_device \<times> MigChild list) list" where
  "nvml_enumerate nvml = List.map_filter (\<lambda>index. case nv_device nvml index of Inl _ \<Rightarrow> None
     | Inr device \<Rightarrow> Some ((index, handle_uuid device, handle_bus_id device),
         mig_children_of index device (DeviceId_new (handle_bus_id device) (handle_uuid device)))) (indices (unwrap_or 0 (nv_count nvml)))"

definition NvidiaGpuProvider_new :: "rstr + Nvml \<Rightarrow> GpuSelector \<Rightarrow> NvidiaGpuProvider" where
  "NvidiaGpuProvider_new init selector = (case init of
       Inr nvml \<Rightarrow> \<lparr>np_nvml = True, np_init_error = [], np_selector = selector, np_devices = map fst (nvml_enumerate nvml),
         np_mig_children = concat (map snd (nvml_enumerate nvml)), np_name = None, np_slow = SlowProperties_default\<rparr>
     | Inl err \<Rightarrow> \<lparr>np_nvml = False, np_init_error = lit ''NVML unavailable: '' @ err, np_selector = selector, np_devices = [],
         np_mig_children = [], np_name = None, np_slow = SlowProperties_default\<rparr>)"

record ResolvedSample =
  rs_index :: u32
  rs_reading :: NvmlReading
  rs_device_id :: DeviceId
  rs_mig_slot :: "u32 option"

definition resolve_mig :: "MigChild \<Rightarrow> Nvml \<Rightarrow> rstr + ResolvedSample" where
  "resolve_mig child nvml = (case nv_device nvml (mc_parent_index child) of
       Inl err \<Rightarrow> Inl (lit ''cannot access NVIDIA GPU '' @ show_word (mc_parent_index child) @ lit '': '' @ err)
     | Inr par \<Rightarrow> (case nh_mig par (mc_slot child) of
         Inl err \<Rightarrow> Inl (lit ''cannot access MIG device '' @ show_word (mc_parent_index child) @ lit ''/'' @ show_word (mc_slot child) @ lit '': '' @ err)
       | Inr device \<Rightarrow> Inr \<lparr>rs_index = mc_parent_index child, rs_reading = mh_reading device,
           rs_device_id = DeviceId_new None (Some (mc_key child)), rs_mig_slot = Some (mc_slot child)\<rparr>))"

definition resolve_device :: "NvidiaGpuProvider \<Rightarrow> Nvml \<Rightarrow> (rstr + ResolvedSample) option" where
  "resolve_device p nvml = (case GpuSelector_resolve (np_selector p) (np_devices p) of None \<Rightarrow> None
     | Some index \<Rightarrow> (case nv_device nvml index of
         Inl err \<Rightarrow> Some (Inl (lit ''cannot access NVIDIA GPU '' @ show_word index @ lit '': '' @ err))
       | Inr device \<Rightarrow> Some (Inr \<lparr>rs_index = index, rs_reading = nh_reading device,
           rs_device_id = (case find (\<lambda>(i, _, _). i = index) (np_devices p) of
             Some (_, u, b) \<Rightarrow> DeviceId_new b u | None \<Rightarrow> no_device), rs_mig_slot = None\<rparr>)))"

definition resolve_sample :: "NvidiaGpuProvider \<Rightarrow> Nvml \<Rightarrow> (rstr + ResolvedSample) option" where
  "resolve_sample p nvml = (case np_selector p of
       Uuid u \<Rightarrow> (case find (\<lambda>c. mc_key c = u) (np_mig_children p) of
           Some child \<Rightarrow> Some (resolve_mig child nvml) | None \<Rightarrow> resolve_device p nvml)
     | _ \<Rightarrow> resolve_device p nvml)"

definition nvidia_sanitize :: "GpuStats \<Rightarrow> GpuStats" where
  "nvidia_sanitize s = s\<lparr>gs_utilization := map_option clamp_percent (gs_utilization s),
     gs_memory_utilization := map_option clamp_percent (gs_memory_utilization s),
     gs_encoder_utilization := map_option clamp_percent (gs_encoder_utilization s),
     gs_decoder_utilization := map_option clamp_percent (gs_decoder_utilization s),
     gs_fan_percent := nonnegative (gs_fan_percent s), gs_temperature_c := nonnegative (gs_temperature_c s),
     gs_power_w := nonnegative (gs_power_w s), gs_power_limit_w := nonnegative (gs_power_limit_w s),
     gs_graphics_clock_mhz := nonnegative (gs_graphics_clock_mhz s), gs_memory_clock_mhz := nonnegative (gs_memory_clock_mhz s),
     gs_pcie_rx_mb_s := nonnegative (gs_pcie_rx_mb_s s), gs_pcie_link_speed_gts := nonnegative (gs_pcie_link_speed_gts s),
     gs_pcie_link_width := opt_filter (\<lambda>w. w > 0) (gs_pcie_link_width s)\<rparr>"

definition nvidia_stats :: "ResolvedSample \<Rightarrow> rstr \<Rightarrow> SlowProperties \<Rightarrow> GpuStats" where
  "nvidia_stats r name slow = (let rd = rs_reading r in
     \<lparr>gs_available = True, gs_index = rs_index r, gs_device = rs_device_id r, gs_name = name,
      gs_utilization = map_option (\<lambda>u. f64_of_u32 (fst u)) (nr_utilization rd),
      gs_memory_utilization = map_option (\<lambda>u. f64_of_u32 (snd u)) (nr_utilization rd),
      gs_memory_used_mib = map_option (\<lambda>m. bytes_to_mib (fst m)) (nr_memory rd),
      gs_memory_total_mib = map_option (\<lambda>m. bytes_to_mib (snd m)) (nr_memory rd),
      gs_temperature_c = map_option f64_of_u32 (nr_temperature rd), gs_power_w = map_option milli (nr_power_mw rd),
      gs_power_limit_w = sp_power_limit_w slow, gs_pstate = unwrap_or EM_DASH (map_option normalize_pstate (nr_pstate rd)),
      gs_limit_reason = unwrap_or EM_DASH (map_option format_throttle_reasons (nr_throttle rd)),
      gs_graphics_clock_mhz = map_option f64_of_u32 (nr_graphics_clock rd), gs_memory_clock_mhz = map_option f64_of_u32 (nr_memory_clock rd),
      gs_encoder_utilization = map_option f64_of_u32 (nr_encoder rd), gs_decoder_utilization = map_option f64_of_u32 (nr_decoder rd),
      gs_fan_percent = map_option f64_of_u32 (nr_fan rd), gs_pcie_rx_mb_s = map_option milli (nr_rx_kb rd),
      gs_pcie_tx_mb_s = map_option milli (nr_tx_kb rd), gs_pcie_link_speed_gts = sp_pcie_link_speed_gts slow,
      gs_pcie_link_width = sp_pcie_link_width slow, gs_error = []\<rparr>)"

definition nvidia_name :: "NvidiaGpuProvider \<Rightarrow> NvmlReading \<Rightarrow> rstr \<times> rstr option" where
  "nvidia_name p rd = (case np_name p of Some cached \<Rightarrow> (cached, Some cached)
     | None \<Rightarrow> (case nr_name rd of Some n \<Rightarrow> (n, Some n) | None \<Rightarrow> (lit ''NVIDIA GPU'', None)))"

definition nvidia_sample :: "NvidiaGpuProvider \<Rightarrow> Nvml \<Rightarrow> instant \<Rightarrow> instant \<Rightarrow> GpuStats \<times> NvidiaGpuProvider" where
  "nvidia_sample p nvml now after = (if \<not> np_nvml p then (stats_error (np_init_error p), p)
     else case resolve_sample p nvml of
         None \<Rightarrow> (stats_error (lit ''no NVIDIA GPU matches the selection''), p)
       | Some (Inl err) \<Rightarrow> (stats_error err, p)
       | Some (Inr r) \<Rightarrow> let slow = slow_refresh (rs_reading r) now after (np_slow p); (name, cached) = nvidia_name p (rs_reading r) in
           (nvidia_sanitize (nvidia_stats r (case rs_mig_slot r of Some slot \<Rightarrow> name @ lit '' MIG '' @ show_word slot | None \<Rightarrow> name) slow),
            p\<lparr>np_slow := slow, np_name := cached\<rparr>))"

section \<open>The provider of a selection\<close>

definition enumerated :: "DiscoveredGpu list \<Rightarrow> (nat \<times> DiscoveredGpu) list" where
  "enumerated gpus = zip [0..<length gpus] gpus"

definition is_nvidia :: "nat \<times> DiscoveredGpu \<Rightarrow> bool" where
  "is_nvidia p \<longleftrightarrow> dg_vendor (snd p) = Nvidia"

definition nth_opt :: "nat \<Rightarrow> 'a list \<Rightarrow> 'a option" where
  "nth_opt n xs = (if n < length xs then Some (xs ! n) else None)"

definition resolve_position :: "GpuSelector \<Rightarrow> DiscoveredGpu list \<Rightarrow> (nat \<times> DiscoveredGpu) option" where
  "resolve_position sel gpus = (case sel of
       Auto \<Rightarrow> opt_or (find is_nvidia (enumerated gpus)) (nth_opt 0 (enumerated gpus))
     | Index index \<Rightarrow> if list_ex is_nvidia (enumerated gpus) then nth_opt (unat index) (filter is_nvidia (enumerated gpus))
         else nth_opt (unat index) (enumerated gpus)
     | PciBusId b \<Rightarrow> find (\<lambda>(_, g). DeviceId_key (dg_device_id g) = b) (enumerated gpus)
     | Uuid _ \<Rightarrow> None)"

definition resolve_discovered :: "GpuSelector \<Rightarrow> DiscoveredGpu list \<Rightarrow> (u32 \<times> DiscoveredGpu) option" where
  "resolve_discovered sel gpus = map_option (\<lambda>(i, g). (of_nat i, g)) (resolve_position sel gpus)"

datatype Provider = NvidiaProvider NvidiaGpuProvider | AmdProvider AmdGpuProvider | IntelProvider IntelGpuProvider
  | UnavailableProvider rstr

definition vendor_debug :: "GpuVendor \<Rightarrow> rstr" where
  "vendor_debug v = (case v of Nvidia \<Rightarrow> lit ''Nvidia'' | Amd \<Rightarrow> lit ''Amd'' | Intel \<Rightarrow> lit ''Intel'' | Other \<Rightarrow> lit ''Other''
     | UnknownVendor \<Rightarrow> lit ''Unknown'')"

text \<open>\<open>init\<close> is the answer of \<^verbatim>\<open>Nvml::init\<close>.\<close>

definition new_gpu_provider_with :: "rstr + Nvml \<Rightarrow> GpuSelector \<Rightarrow> DiscoveredGpu list \<Rightarrow> Sys \<Rightarrow> Provider" where
  "new_gpu_provider_with init selector gpus sys = (case selector of
       Uuid _ \<Rightarrow> NvidiaProvider (NvidiaGpuProvider_new init selector)
     | _ \<Rightarrow> (case resolve_discovered selector gpus of
         None \<Rightarrow> UnavailableProvider (lit ''no GPU matches the selection'')
       | Some (index, gpu) \<Rightarrow> (case dg_vendor gpu of
           Nvidia \<Rightarrow> NvidiaProvider (NvidiaGpuProvider_new init selector)
         | Amd \<Rightarrow> AmdProvider (AmdGpuProvider_new sys gpu index)
         | Intel \<Rightarrow> IntelProvider (IntelGpuProvider_new sys gpu index)
         | v \<Rightarrow> UnavailableProvider (lit ''no telemetry backend yet for GPU '' @ DeviceId_key (dg_device_id gpu) @ lit '' ('' @ vendor_debug v @ lit '')''))))"

definition provider_sample :: "Provider \<Rightarrow> Nvml \<Rightarrow> Sys \<Rightarrow> instant \<Rightarrow> instant \<Rightarrow> GpuStats \<times> Provider" where
  "provider_sample p nvml sys now after = (case p of
       NvidiaProvider q \<Rightarrow> (case nvidia_sample q nvml now after of (s, q') \<Rightarrow> (s, NvidiaProvider q'))
     | AmdProvider q \<Rightarrow> (amd_sample q sys, p)
     | IntelProvider q \<Rightarrow> (intel_sample q sys, p)
     | UnavailableProvider e \<Rightarrow> (stats_error e, p))"

section \<open>PCIe links\<close>

definition fabs :: "f64 \<Rightarrow> f64" where
  "fabs x = (if x < Fin 0 then fneg x else x)"

definition generations :: "(f64 \<times> f64) list" where
  "generations = [(rnd (25 / 10), Fin 250), (Fin 5, Fin 500), (Fin 8, rnd (9846 / 10)), (Fin 16, rnd (19692 / 10)), (Fin 32, rnd (39385 / 10))]"

definition pcie_mbps_per_lane :: "f64 \<Rightarrow> f64 option" where
  "pcie_mbps_per_lane gts = (if \<not> is_finite gts then None
     else map_option snd (find (\<lambda>(speed, _). fabs (fsub speed gts) \<le> rnd (1 / 100)) generations))"

definition pcie_utilization_pct :: "f64 option \<Rightarrow> f64 option \<Rightarrow> f64 option \<Rightarrow> u32 option \<Rightarrow> f64 option" where
  "pcie_utilization_pct rx_mb_s tx_mb_s link_speed_gts link_width = (case (rx_mb_s, tx_mb_s, link_speed_gts, link_width) of
       (Some rx, Some tx, Some gts, Some width) \<Rightarrow> (case pcie_mbps_per_lane gts of None \<Rightarrow> None
         | Some mbps \<Rightarrow> let capacity_mbps = fmul (fmul (Fin 2) mbps) (f64_of_u32 width) in
             if capacity_mbps \<le> Fin 0 \<or> \<not> is_finite rx \<or> \<not> is_finite tx then None
             else map_option (fclamp (Fin 0) (Fin 100)) (opt_filter is_finite (Some (fmul (fdiv (fadd rx tx) capacity_mbps) (Fin 100)))))
     | _ \<Rightarrow> None)"

section \<open>What a sample may say\<close>

definition percent_ok :: "f64 option \<Rightarrow> bool" where
  "percent_ok v \<longleftrightarrow> is_none_or (\<lambda>x. Fin 0 \<le> x \<and> x \<le> Fin 100) v"

definition amount_ok :: "f64 option \<Rightarrow> bool" where
  "amount_ok v \<longleftrightarrow> is_none_or (\<lambda>x. is_finite x \<and> Fin 0 \<le> x) v"

definition metrics_ok :: "GpuStats \<Rightarrow> bool" where
  "metrics_ok s \<longleftrightarrow> list_all percent_ok [gs_utilization s, gs_memory_utilization s, gs_encoder_utilization s, gs_decoder_utilization s] \<and>
     list_all amount_ok [gs_memory_used_mib s, gs_memory_total_mib s, gs_power_w s, gs_power_limit_w s, gs_graphics_clock_mhz s,
       gs_memory_clock_mhz s, gs_fan_percent s, gs_pcie_rx_mb_s s, gs_pcie_tx_mb_s s, gs_pcie_link_speed_gts s] \<and>
     is_none_or is_finite (gs_temperature_c s) \<and> gs_pcie_link_width s \<noteq> Some 0"

text \<open>A sample is of a device, or says why there is none and measures nothing.\<close>

definition no_metrics :: "GpuStats \<Rightarrow> bool" where
  "no_metrics s \<longleftrightarrow> s = GpuStats_default\<lparr>gs_index := gs_index s, gs_device := gs_device s, gs_name := gs_name s, gs_error := gs_error s\<rparr>"

definition stats_ok :: "GpuStats \<Rightarrow> bool" where
  "stats_ok s \<longleftrightarrow> metrics_ok s \<and> (gs_available s \<longleftrightarrow> gs_error s = []) \<and> (gs_available s \<or> no_metrics s)"

lemma amount_nonnegative [simp]: "amount_ok (nonnegative v)"
  by (cases v; cases "the v") (auto simp: amount_ok_def nonnegative_def is_none_or_def opt_filter_def fmax_def)

lemma finite_nonnegative [simp]: "is_none_or is_finite (nonnegative v)"
  by (cases v; cases "the v") (auto simp: nonnegative_def is_none_or_def opt_filter_def fmax_def)

lemma finite_reading_ok [simp]: "is_none_or is_finite (finite_reading v)"
  by (auto simp: finite_reading_def is_none_or_def opt_filter_def split: option.splits)

lemma percent_clamped [simp]: "percent_ok (map_option clamp_percent v)"
  using fclamp_in_range [of "Fin 0" "Fin 100"]
  by (cases v; cases "the v") (auto simp: percent_ok_def is_none_or_def clamp_percent_def fclamp_def)

lemma ok_None [simp]: "percent_ok None" "amount_ok None" "is_none_or P None"
  by (simp_all add: percent_ok_def amount_ok_def is_none_or_def)

lemma scaled_down:
  assumes "is_finite x" "Fin 0 \<le> x" "x \<le> Fin (2 powi 64)" "1 \<le> d"
  shows "is_finite (fdiv x (Fin d)) \<and> Fin 0 \<le> fdiv x (Fin d) \<and> fdiv x (Fin d) \<le> Fin (2 powi 64)"
proof -
  obtain q where x: "x = Fin q" "0 \<le> q" "q \<le> 2 powi 64" using assms(1-3) by (auto simp: is_finite_iff)
  have "q / d \<le> q" using x(2) assms(4) by (simp add: divide_le_eq mult_le_cancel_left1)
  then have "is_finite (rnd (q / d)) \<and> rnd (q / d) \<le> Fin (2 powi 64)"
    using x assms(4) by (intro rnd_le_pow) simp_all
  moreover have "Fin 0 \<le> rnd (q / d)" using x assms(4) by (intro rnd_nonneg) simp
  ultimately show ?thesis using x assms(4) by simp
qed

lemma amount_mib [simp]: "amount_ok (map_option (\<lambda>m. bytes_to_mib (f m)) v)"
proof -
  have "is_finite (bytes_to_mib b) \<and> Fin 0 \<le> bytes_to_mib b" for b
    unfolding bytes_to_mib_def
    using scaled_down [of "f64_of_u64 b" 1024] scaled_down [of "fdiv (f64_of_u64 b) (Fin 1024)" 1024]
      f64_of_nat_u64_finite [of "unat b"] unsigned_less [of b, where ?'a = nat] by (simp add: f64_of_u64_def)
  then show ?thesis by (cases v) (simp_all add: amount_ok_def is_none_or_def)
qed

lemma amount_milli [simp]: "amount_ok (map_option milli v)"
proof -
  have "is_finite (milli b) \<and> Fin 0 \<le> milli b" for b
    unfolding milli_def using scaled_down [of "f64_of_nat (unat b)" 1000] f64_of_nat_u64_finite [of "unat b"]
      unsigned_less [of b, where ?'a = nat] by simp
  then show ?thesis by (cases v) (simp_all add: amount_ok_def is_none_or_def)
qed

lemmas stats_defs = stats_ok_def metrics_ok_def no_metrics_def GpuStats_default_def

lemma error_ok: "e \<noteq> [] \<Longrightarrow> stats_ok (GpuStats_default\<lparr>gs_index := i, gs_device := d, gs_name := n, gs_error := e\<rparr>)"
  by (simp add: stats_defs)

lemma stats_error_ok: "e \<noteq> [] \<Longrightarrow> stats_ok (stats_error e)"
  by (simp add: stats_error_def stats_defs)

lemma amd_ok: "stats_ok (amd_sample p sys)"
proof (cases "read_dir sys (pci_device_dir (DeviceId_key (dg_device_id (ap_gpu p)))) = None")
  case True
  then show ?thesis by (simp add: amd_sample_def Let_def error_ok lit_def)
next
  case False
  then show ?thesis
    by (cases "ap_hwmon p") (auto simp: amd_sample_def Let_def amd_sanitize_def amd_fill_hwmon_def stats_ok_def metrics_ok_def GpuStats_default_def
        simp del: option.map_comp)
qed

text \<open>What the steps of an Intel sample leave alone.\<close>

definition plain_stats :: "GpuStats \<Rightarrow> bool" where
  "plain_stats s \<longleftrightarrow> gs_available s \<and> gs_error s = [] \<and> gs_pcie_link_width s = None \<and>
     list_all (\<lambda>v. v = None) [gs_utilization s, gs_memory_utilization s, gs_encoder_utilization s, gs_decoder_utilization s,
       gs_memory_used_mib s, gs_memory_total_mib s, gs_power_w s, gs_memory_clock_mhz s, gs_fan_percent s, gs_pcie_rx_mb_s s,
       gs_pcie_tx_mb_s s, gs_pcie_link_speed_gts s]"

lemma plain_steps:
  "plain_stats s \<Longrightarrow> plain_stats (sample_xe gpu sys s)" "plain_stats s \<Longrightarrow> plain_stats (sample_i915 gpu sys s)"
  "plain_stats s \<Longrightarrow> plain_stats (intel_fill_hwmon p sys s)" "plain_stats s \<Longrightarrow> stats_ok (intel_sanitize s)"
  by (auto simp: plain_stats_def sample_xe_def sample_i915_def intel_fill_hwmon_def intel_sanitize_def Let_def stats_ok_def metrics_ok_def
      split: option.splits prod.splits)

lemma intel_ok: "stats_ok (intel_sample p sys)"
proof (cases "read_dir sys (gt_sysfs_dir (ip_gpu p)) = None")
  case True
  then show ?thesis by (simp add: intel_sample_def Let_def error_ok lit_def)
next
  case False
  have "plain_stats (GpuStats_default\<lparr>gs_index := i, gs_device := d, gs_name := n, gs_available := True\<rparr>)" for i d n
    by (simp add: plain_stats_def GpuStats_default_def)
  then show ?thesis using False by (auto simp: intel_sample_def Let_def intro!: plain_steps)
qed

lemma nvidia_stats_ok: "stats_ok (nvidia_sanitize (nvidia_stats r name slow))"
  by (cases "sp_pcie_link_width slow") (auto simp: nvidia_sanitize_def nvidia_stats_def Let_def stats_ok_def metrics_ok_def opt_filter_def
      simp del: option.map_comp)

text \<open>A provider that has no NVML, or no device, keeps the reason.\<close>

definition provider_ok :: "Provider \<Rightarrow> bool" where
  "provider_ok p \<longleftrightarrow> (case p of NvidiaProvider q \<Rightarrow> np_nvml q \<or> np_init_error q \<noteq> [] | UnavailableProvider e \<Rightarrow> e \<noteq> [] | _ \<Rightarrow> True)"

lemma resolve_error: "resolve_sample p nvml = Some (Inl e) \<Longrightarrow> e \<noteq> []"
  by (auto simp: resolve_sample_def resolve_device_def resolve_mig_def lit_def split: GpuSelector.splits option.splits sum.splits)

lemma sample_ok:
  assumes "provider_ok p"
  shows "stats_ok (fst (provider_sample p nvml sys now after)) \<and> provider_ok (snd (provider_sample p nvml sys now after))"
proof (cases p)
  case (NvidiaProvider q)
  then show ?thesis using assms resolve_error [of q nvml]
    by (auto simp: provider_sample_def nvidia_sample_def provider_ok_def Let_def nvidia_stats_ok stats_error_ok
        split: option.splits sum.splits prod.splits)
qed (use assms in \<open>simp_all add: provider_sample_def amd_ok intel_ok stats_error_ok provider_ok_def\<close>)

lemma new_provider_ok: "provider_ok (new_gpu_provider_with init sel gpus sys)"
  by (auto simp: new_gpu_provider_with_def provider_ok_def NvidiaGpuProvider_new_def
      split: GpuSelector.splits option.splits sum.splits GpuVendor.splits)

text \<open>The samples of a provider, one for each time its worker asks, with what the system answers then.\<close>

fun provider_run :: "Provider \<Rightarrow> (Nvml \<times> Sys \<times> instant \<times> instant) list \<Rightarrow> GpuStats list" where
  "provider_run p [] = []"
| "provider_run p ((nvml, sys, now, after) # rest) =
     fst (provider_sample p nvml sys now after) # provider_run (snd (provider_sample p nvml sys now after)) rest"


section \<open>The selected GPU\<close>

definition is_target :: "GpuSelector \<Rightarrow> u32 \<Rightarrow> DeviceId \<Rightarrow> bool" where
  "is_target sel i d \<longleftrightarrow> (case sel of Auto \<Rightarrow> True | Index j \<Rightarrow> i = j | PciBusId b \<Rightarrow> DeviceId_key d = b | Uuid u \<Rightarrow> uuid d = Some u)"

definition devices_ok :: "gpu_device list \<Rightarrow> bool" where
  "devices_ok ds \<longleftrightarrow> distinct (map fst ds) \<and> list_all (\<lambda>(_, _, b). is_none_or (\<lambda>t. normalize_pci_bdf t = t) b) ds"

lemma distinct_indices: "distinct (indices n)"
proof -
  have "inj_on (of_nat :: nat \<Rightarrow> u32) (set [0..<unat n])"
  proof (rule inj_onI)
    fix x y assume "x \<in> set [0..<unat n]" "y \<in> set [0..<unat n]" "(of_nat x :: u32) = of_nat y"
    moreover have "unat n < 2 ^ 32" using unsigned_less [of n, where ?'a = nat] by simp
    moreover have "unat (of_nat z :: u32) = z" if "z < 2 ^ 32" for z using that by (simp add: unsigned_of_nat take_bit_eq_mod)
    ultimately show "x = y" by (metis atLeastLessThan_iff atLeastLessThan_upt order.strict_trans)
  qed
  then show ?thesis by (simp add: indices_def distinct_map)
qed

lemma enumerate_ok: "devices_ok (map fst (nvml_enumerate nvml))"
proof -
  have f: "map fst (List.map_filter f xs) = List.map_filter (\<lambda>x. map_option fst (f x)) xs" for f :: "u32 \<Rightarrow> (gpu_device \<times> MigChild list) option" and xs
    by (induction xs) (auto simp: map_filter_simps split: option.splits)
  have d: "distinct (map fst (List.map_filter g xs))"
    if "distinct xs" "\<And>x y. g x = Some y \<Longrightarrow> fst y = x" for g :: "u32 \<Rightarrow> gpu_device option" and xs
  proof -
    have "fst ` set (List.map_filter g ys) \<subseteq> set ys" for ys
      using that(2) by (induction ys) (auto simp: map_filter_simps split: option.splits)
    then show ?thesis using that by (induction xs) (auto simp: map_filter_simps split: option.splits)
  qed
  show ?thesis unfolding devices_ok_def nvml_enumerate_def f
    by (intro conjI d distinct_indices)
      (auto simp: list_all_iff List.map_filter_def handle_bus_id_def opt_nonempty_def is_none_or_def split: sum.splits option.splits if_splits)
qed

lemma find_hit: "find P xs = Some x \<Longrightarrow> x \<in> set xs \<and> P x"
  by (induction xs) (auto split: if_splits)

lemma find_device: "distinct (map fst ds) \<Longrightarrow> (i, u, b) \<in> set ds \<Longrightarrow> find (\<lambda>(j, _, _). j = i) ds = Some (i, u, b)"
  by (induction ds) force+

lemma DeviceId_new_fields [simp]: "uuid (DeviceId_new b u) = u" "pci_bdf (DeviceId_new b u) = map_option normalize_pci_bdf b"
  by (simp_all add: DeviceId_new_def)

lemma resolve_selector_in:
  "GpuSelector_resolve sel ds = Some i \<Longrightarrow> \<exists>u b. (i, u, b) \<in> set ds \<and>
     (case sel of Index j \<Rightarrow> i = j | Uuid v \<Rightarrow> u = Some v | PciBusId a \<Rightarrow> b = Some a | Auto \<Rightarrow> True)"
  by (cases sel) (auto simp: GpuSelector_resolve_def split: list.splits dest!: find_hit)

lemma resolve_sample_target:
  assumes "devices_ok (np_devices p)" "resolve_sample p nvml = Some (Inr r)"
  shows "is_target (np_selector p) (rs_index r) (rs_device_id r)"
proof (cases "\<exists>u child. np_selector p = Uuid u \<and> find (\<lambda>c. mc_key c = u) (np_mig_children p) = Some child")
  case True
  then obtain u child where c: "np_selector p = Uuid u" "find (\<lambda>c. mc_key c = u) (np_mig_children p) = Some child" by blast
  then have "resolve_mig child nvml = Inr r" using assms(2) by (simp add: resolve_sample_def)
  then show ?thesis using c(1) find_hit [OF c(2)] by (auto simp: resolve_mig_def is_target_def split: sum.splits)
next
  case False
  then have "resolve_device p nvml = Some (Inr r)" using assms(2)
    by (auto simp: resolve_sample_def split: GpuSelector.splits option.splits)
  then obtain i h where i: "GpuSelector_resolve (np_selector p) (np_devices p) = Some i" "rs_index r = i"
    "rs_device_id r = (case find (\<lambda>(j, _, _). j = i) (np_devices p) of Some (_, u, b) \<Rightarrow> DeviceId_new b u | None \<Rightarrow> no_device)"
    by (auto simp: resolve_device_def split: option.splits sum.splits)
  obtain u b where m: "(i, u, b) \<in> set (np_devices p)"
    "case np_selector p of Index j \<Rightarrow> i = j | Uuid v \<Rightarrow> u = Some v | PciBusId a \<Rightarrow> b = Some a | Auto \<Rightarrow> True"
    using resolve_selector_in [OF i(1)] by blast
  have "is_none_or (\<lambda>t. normalize_pci_bdf t = t) b" using assms(1) m(1) by (auto simp: devices_ok_def list_all_iff)
  then show ?thesis using i m find_device [OF _ m(1)] assms(1)
    by (cases "np_selector p") (auto simp: is_target_def devices_ok_def DeviceId_key_def is_none_or_def)
qed

definition aims_at :: "GpuSelector \<Rightarrow> Provider \<Rightarrow> bool" where
  "aims_at sel p \<longleftrightarrow> (case p of NvidiaProvider q \<Rightarrow> np_selector q = sel \<and> devices_ok (np_devices q)
     | AmdProvider q \<Rightarrow> is_target sel (ap_index q) (dg_device_id (ap_gpu q))
     | IntelProvider q \<Rightarrow> is_target sel (ip_index q) (dg_device_id (ip_gpu q))
     | UnavailableProvider e \<Rightarrow> True)"

lemma amd_target: "gs_index (amd_sample p sys) = ap_index p" "gs_device (amd_sample p sys) = dg_device_id (ap_gpu p)"
  by (simp_all add: amd_sample_def Let_def amd_sanitize_def amd_fill_hwmon_def split: option.splits)

lemma amd_available: "gs_available (amd_sample p sys) \<longleftrightarrow> read_dir sys (pci_device_dir (DeviceId_key (dg_device_id (ap_gpu p)))) \<noteq> None"
  by (auto simp: amd_sample_def Let_def amd_sanitize_def amd_fill_hwmon_def GpuStats_default_def split: option.splits)

lemma intel_target: "gs_index (intel_sample p sys) = ip_index p" "gs_device (intel_sample p sys) = dg_device_id (ip_gpu p)"
  by (simp_all add: intel_sample_def Let_def intel_sanitize_def intel_fill_hwmon_def sample_xe_def sample_i915_def split: option.splits prod.splits)

lemma sample_aims:
  assumes "aims_at sel p" "provider_sample p nvml sys now after = (s, p')"
  shows "aims_at sel p' \<and> (gs_available s \<longrightarrow> is_target sel (gs_index s) (gs_device s))"
proof (cases p)
  case (NvidiaProvider q)
  have f: "gs_index (nvidia_sanitize (nvidia_stats r n sl)) = rs_index r" "gs_device (nvidia_sanitize (nvidia_stats r n sl)) = rs_device_id r" for r n sl
    by (simp_all add: nvidia_sanitize_def nvidia_stats_def Let_def)
  show ?thesis using NvidiaProvider assms resolve_sample_target [of q nvml]
    by (auto simp: provider_sample_def nvidia_sample_def aims_at_def Let_def f stats_error_def GpuStats_default_def
        split: option.splits sum.splits prod.splits if_splits)
qed (use assms in \<open>auto simp: provider_sample_def aims_at_def amd_target intel_target stats_error_def GpuStats_default_def\<close>)

lemma resolved_target:
  assumes "resolve_discovered sel gpus = Some (i, g)" "dg_vendor g \<noteq> Nvidia"
  shows "is_target sel i (dg_device_id g)"
proof (cases sel)
  case (PciBusId b)
  then show ?thesis using assms(1) by (auto simp: resolve_discovered_def resolve_position_def is_target_def dest!: find_hit)
next
  case (Index j)
  have "\<not> list_ex is_nvidia (enumerated gpus)"
  proof
    assume n: "list_ex is_nvidia (enumerated gpus)"
    then obtain k where "k < length (filter is_nvidia (enumerated gpus))" "filter is_nvidia (enumerated gpus) ! k = (unat i, g) \<or> snd (filter is_nvidia (enumerated gpus) ! k) = g"
      using assms(1) Index by (auto simp: resolve_discovered_def resolve_position_def nth_opt_def split: if_splits)
    then have "\<exists>p \<in> set (filter is_nvidia (enumerated gpus)). snd p = g" by (metis nth_mem snd_conv)
    then show False using assms(2) by (auto simp: is_nvidia_def)
  qed
  then show ?thesis using assms(1) Index
    by (auto simp: resolve_discovered_def resolve_position_def is_target_def nth_opt_def enumerated_def split: if_splits)
qed (use assms in \<open>auto simp: is_target_def resolve_discovered_def resolve_position_def\<close>)

lemma new_provider_aims: "aims_at sel (new_gpu_provider_with init sel gpus sys)"
proof -
  have n: "aims_at sel (NvidiaProvider (NvidiaGpuProvider_new init sel))"
    using enumerate_ok by (auto simp: aims_at_def NvidiaGpuProvider_new_def devices_ok_def split: sum.splits)
  show ?thesis
  proof (cases "resolve_discovered sel gpus")
    case None
    then show ?thesis using n by (cases sel) (simp_all add: new_gpu_provider_with_def aims_at_def)
  next
    case (Some p)
    then obtain i g where "resolve_discovered sel gpus = Some (i, g)" by (cases p) simp
    then show ?thesis using n resolved_target [of sel gpus i g]
      by (cases sel; cases "dg_vendor g")
        (simp_all add: new_gpu_provider_with_def aims_at_def AmdGpuProvider_new_def IntelGpuProvider_new_def)
  qed
qed


section \<open>Which card a selector picks\<close>

definition vendor_nvidia :: "DiscoveredGpu \<Rightarrow> bool" where
  "vendor_nvidia g \<longleftrightarrow> dg_vendor g = Nvidia"

lemma enumerated_snoc: "enumerated (gpus @ [x]) = enumerated gpus @ [(length gpus, x)]"
  by (simp add: enumerated_def)

lemma is_nvidia_snd: "is_nvidia p = vendor_nvidia (snd p)"
  by (simp add: is_nvidia_def vendor_nvidia_def)

lemma find_enumerated:
  "find P (enumerated gpus) = Some (n, g) \<longleftrightarrow> n < length gpus \<and> gpus ! n = g \<and> P (n, g) \<and> (\<forall>m < n. \<not> P (m, gpus ! m))"
  by (auto simp: find_Some_iff enumerated_def)

lemma nvidia_enumerated: "list_ex is_nvidia (enumerated gpus) = list_ex vendor_nvidia gpus"
  by (induction gpus rule: rev_induct) (simp_all add: enumerated_snoc is_nvidia_snd, simp add: enumerated_def)

lemma filter_enumerated_length: "length (filter is_nvidia (enumerated gpus)) = length (filter vendor_nvidia gpus)"
  by (induction gpus rule: rev_induct) (simp_all add: enumerated_snoc is_nvidia_snd, simp add: enumerated_def)

lemma nth_nvidia:
  "nth_opt k (filter is_nvidia (enumerated gpus)) = Some (n, g) \<longleftrightarrow> n < length gpus \<and> gpus ! n = g \<and> vendor_nvidia g \<and>
     length (filter vendor_nvidia (take n gpus)) = k"
proof (induction gpus rule: rev_induct)
  case Nil
  then show ?case by (simp add: enumerated_def nth_opt_def)
next
  case (snoc x gpus)
  have le: "length (filter vendor_nvidia (take n gpus)) < length (filter vendor_nvidia gpus)"
    if "n < length gpus" "vendor_nvidia (gpus ! n)" for n
  proof -
    have "filter vendor_nvidia gpus = filter vendor_nvidia (take n gpus) @ gpus ! n # filter vendor_nvidia (drop (Suc n) gpus)"
      using that by (metis filter.simps(2) filter_append id_take_nth_drop)
    then show ?thesis by simp
  qed
  show ?case
  proof (cases "vendor_nvidia x")
    case False
    then have "nth_opt k (filter is_nvidia (enumerated (gpus @ [x]))) = nth_opt k (filter is_nvidia (enumerated gpus))"
      by (simp add: enumerated_snoc is_nvidia_snd)
    then show ?thesis using snoc False by (auto simp: nth_append less_Suc_eq)
  next
    case True
    let ?m = "length (filter vendor_nvidia gpus)"
    have e: "nth_opt k (filter is_nvidia (enumerated (gpus @ [x]))) =
        (if k < ?m then nth_opt k (filter is_nvidia (enumerated gpus)) else if k = ?m then Some (length gpus, x) else None)"
      using True by (auto simp: enumerated_snoc is_nvidia_snd nth_opt_def nth_append filter_enumerated_length)
    show ?thesis unfolding e using snoc True le
      by (auto simp: nth_append less_Suc_eq filter_enumerated_length nth_opt_def split: if_splits)
  qed
qed

lemma nth_enumerated: "nth_opt k (enumerated gpus) = Some (n, g) \<longleftrightarrow> n < length gpus \<and> gpus ! n = g \<and> n = k"
  by (auto simp: nth_opt_def enumerated_def)

lemma before_index:
  assumes "n < length gpus"
  shows "list_ex vendor_nvidia (take n gpus) \<longleftrightarrow> (\<exists>m < n. vendor_nvidia (gpus ! m))"
    and "b \<in> gpu_key ` set (take n gpus) \<longleftrightarrow> (\<exists>m < n. gpu_key (gpus ! m) = b)"
  using nth_image [of n gpus, symmetric] assms by (auto simp: list_ex_iff)

lemma resolve_position_spec:
  "resolve_position sel gpus = Some (n, g) \<longleftrightarrow> n < length gpus \<and> gpus ! n = g \<and>
    (let before = take n gpus in case sel of
       Auto \<Rightarrow> if list_ex vendor_nvidia gpus then vendor_nvidia g \<and> \<not> list_ex vendor_nvidia before else n = 0
     | Index j \<Rightarrow> if list_ex vendor_nvidia gpus then vendor_nvidia g \<and> length (filter vendor_nvidia before) = unat j else n = unat j
     | PciBusId b \<Rightarrow> gpu_key g = b \<and> b \<notin> gpu_key ` set before
     | Uuid _ \<Rightarrow> False)"
proof (cases sel)
  case Auto
  have "find is_nvidia (enumerated gpus) = None \<longleftrightarrow> \<not> list_ex vendor_nvidia gpus"
    using nvidia_enumerated [of gpus] by (auto simp: find_None_iff list_ex_iff)
  then have "resolve_position sel gpus = (if list_ex vendor_nvidia gpus then find is_nvidia (enumerated gpus) else nth_opt 0 (enumerated gpus))"
    using Auto by (auto simp: resolve_position_def opt_or_def split: option.splits)
  then show ?thesis using Auto before_index(1) [of n gpus]
    by (auto simp: nth_enumerated find_enumerated is_nvidia_snd)
next
  case (PciBusId b)
  then show ?thesis using before_index(2) [of n gpus b]
    by (auto simp: resolve_position_def find_enumerated gpu_key_def)
next
  case (Index j)
  then show ?thesis by (auto simp: resolve_position_def nvidia_enumerated nth_nvidia nth_enumerated)
qed (simp add: resolve_position_def)

text \<open>
  with NVIDIA cards present, an index counts those alone and no selection means the first of them; without any, they
  mean the n-th card and the first; an address means the first card that has it.
\<close>

theorem resolve_discovered_spec:
  assumes "length gpus < 2 ^ 32"
  shows "resolve_discovered sel gpus = Some (i, g) \<longleftrightarrow> unat i < length gpus \<and> gpus ! unat i = g \<and>
    (let before = take (unat i) gpus in case sel of
       Auto \<Rightarrow> if list_ex vendor_nvidia gpus then vendor_nvidia g \<and> \<not> list_ex vendor_nvidia before else i = 0
     | Index j \<Rightarrow> if list_ex vendor_nvidia gpus then vendor_nvidia g \<and> length (filter vendor_nvidia before) = unat j else i = j
     | PciBusId b \<Rightarrow> gpu_key g = b \<and> b \<notin> gpu_key ` set before
     | Uuid _ \<Rightarrow> False)"
proof -
  have c: "unat (of_nat n :: u32) = n" if "resolve_position sel gpus = Some (n, h)" for n h
    using that assms by (simp add: resolve_position_spec unat_of_nat take_bit_nat_eq_self)
  have "resolve_discovered sel gpus = Some (i, g) \<longleftrightarrow> resolve_position sel gpus = Some (unat i, g)"
    by (cases "resolve_position sel gpus") (auto simp: resolve_discovered_def dest: c)
  moreover have "unat i = 0 \<longleftrightarrow> i = 0" "\<And>j. unat i = unat j \<longleftrightarrow> i = j" by (simp_all add: unat_eq_0 word_unat_eq_iff [symmetric])
  ultimately show ?thesis unfolding resolve_position_spec by (cases sel) simp_all
qed

definition sample_card :: "GpuVendor \<Rightarrow> string \<Rightarrow> DiscoveredGpu" where
  "sample_card v bdf = \<lparr>dg_card = lit ''card0'', dg_device_id = DeviceId_new (Some (lit bdf)) None, dg_vendor = v, dg_pci_vendor_id = 0,
     dg_pci_device_id = 0, dg_pci_class_code = 0x30000, dg_driver = lit ''amdgpu'', dg_render_nodes = [], dg_outputs = []\<rparr>"

theorem resolve_discovered_spec_witness:
  "resolve_discovered (Index 0) [sample_card Intel ''0000:00:02.0'', sample_card Nvidia ''0000:01:00.0''] =
     Some (1, sample_card Nvidia ''0000:01:00.0'')"
  using resolve_discovered_spec [of "[sample_card Intel ''0000:00:02.0'', sample_card Nvidia ''0000:01:00.0'']" "Index 0" 1
      "sample_card Nvidia ''0000:01:00.0''"]
  by (simp add: Let_def vendor_nvidia_def sample_card_def)

text \<open>An AMD card whose directory can be read, and an NVML that cannot be loaded.\<close>

definition sample_amd :: Sys where
  "sample_amd = \<lparr>read_to_string = (\<lambda>p. if p = lit ''/sys/bus/pci/devices/0000:01:00.0/gpu_busy_percent'' then Some (lit ''37'' @ [10]) else None),
     read_to_string_lossy = (\<lambda>_. None), read_dir = (\<lambda>p. if p = lit ''/sys/bus/pci/devices/0000:01:00.0'' then Some [] else None),
     symlink_target = (\<lambda>_. None), char_device_id = (\<lambda>_. None), read_dir_names = (\<lambda>_. None)\<rparr>"

definition no_nvml :: Nvml where
  "no_nvml = \<lparr>nv_count = None, nv_device = (\<lambda>_. Inl [])\<rparr>"


section \<open>The reasons i915 gives\<close>

definition throttle_value :: "Sys \<Rightarrow> rstr \<Rightarrow> rstr \<times> rstr \<Rightarrow> u64 option" where
  "throttle_value sys dir a = gpu_read_u64 sys (path_join dir (fst a))"

lemma throttle_fold:
  "foldl (throttle_step sys dir) (labels, readable) attrs =
     (labels @ map snd (filter (\<lambda>a. throttle_value sys dir a = Some 1) attrs),
      readable \<or> list_ex (\<lambda>a. throttle_value sys dir a \<notin> {None, Some 1}) attrs)"
  by (induction attrs arbitrary: labels readable) (auto simp: throttle_step_def throttle_value_def split: option.splits)

text \<open>
  the reason shown for an i915 card names exactly the limits that are reported active; it is "none" only when some
  limit could be read and none is active, and a dash when none could be read.
\<close>

theorem i915_reason:
  "let active = filter (\<lambda>a. throttle_value sys dir a = Some 1) throttle_attrs;
      reason = throttle_text (foldl (throttle_step sys dir) ([], False) throttle_attrs) in
    reason = (if active \<noteq> [] then join (lit ''+'') (map snd active)
      else if list_all (\<lambda>a. throttle_value sys dir a = None) throttle_attrs then EM_DASH else lit ''none'')"
proof -
  have "list_all (\<lambda>a. throttle_value sys dir a = None) as" if "\<not> list_ex (\<lambda>a. throttle_value sys dir a \<notin> {None, Some 1}) as"
    "filter (\<lambda>a. throttle_value sys dir a = Some 1) as = []" for as
    using that by (induction as) (auto split: if_splits)
  moreover have "\<not> list_all (\<lambda>a. throttle_value sys dir a = None) as" if "list_ex (\<lambda>a. throttle_value sys dir a \<notin> {None, Some 1}) as" for as
    using that by (induction as) auto
  ultimately show ?thesis unfolding Let_def throttle_fold throttle_text_def by auto
qed

section \<open>The share of a link\<close>

lemma fdiv_NaN [simp]: "fdiv x NaN = NaN"
  by (cases x) simp_all

text \<open>
  the utilization of a PCIe link is a percentage; it is known only from two finite throughputs, a link speed of one
  of the five generations and at least one lane.
\<close>

theorem pcie_share_bounds:
  assumes "pcie_utilization_pct rx tx speed lanes = Some pct"
  shows "Fin 0 \<le> pct \<and> pct \<le> Fin 100 \<and> is_some_and is_finite rx \<and> is_some_and is_finite tx \<and>
    is_some_and (\<lambda>gts. pcie_mbps_per_lane gts \<noteq> None) speed \<and> is_some_and (\<lambda>n. 0 < n) lanes"
proof -
  obtain a b gts n where i: "rx = Some a" "tx = Some b" "speed = Some gts" "lanes = Some n"
    using assms by (auto simp: pcie_utilization_pct_def split: option.splits)
  then obtain mbps where m: "pcie_mbps_per_lane gts = Some mbps" using assms by (auto simp: pcie_utilization_pct_def split: option.splits)
  have n0: "n \<noteq> 0"
  proof
    assume "n = 0"
    then have "fmul (fmul (Fin 2) mbps) (f64_of_u32 n) \<in> {Fin 0, NaN}"
      by (cases "fmul (Fin 2) mbps") (auto simp: f64_of_u32_def f64_of_nat_def inf_of_sgn_def)
    then show False using assms i m by (auto simp: pcie_utilization_pct_def opt_filter_def Let_def split: if_splits)
  qed
  show ?thesis
    using assms i m n0 fclamp_in_range [of "Fin 0" "Fin 100"]
    by (auto simp: pcie_utilization_pct_def Let_def opt_filter_def is_some_and_def is_finite_iff word_gt_0 split: if_splits)
qed

end
