(* ===== verification/Settings.thy ===== *)
theory Settings
  imports Discovery Redact
begin

text \<open>
  The settings dialog, from \<^verbatim>\<open>src/ui/state_settings.rs\<close>, \<^verbatim>\<open>src/server_editor.rs\<close> and the
  endpoint helpers of \<^verbatim>\<open>src/ui/dialogs.rs\<close>: its fields, the key map, the editor of the list of
  additional servers, and the configuration it saves.  The URL library is the parameter
  \<open>url_edit_api\<close>, the earlier one with its setters of host and port.
\<close>

record 'u url_edit_api = "'u url_api" +
  url_has_host :: "'u \<Rightarrow> bool"
  url_port_or_known_default :: "'u \<Rightarrow> u16 option"
  url_set_host :: "rstr \<Rightarrow> 'u \<Rightarrow> 'u option"
  url_set_port :: "u16 option \<Rightarrow> 'u \<Rightarrow> 'u option"

section \<open>Endpoints\<close>

fun strip_all_prefix :: "nat \<Rightarrow> rstr \<Rightarrow> rstr \<Rightarrow> rstr" where
  "strip_all_prefix 0 p s = s"
| "strip_all_prefix (Suc n) p s = (case strip_prefix p s of Some r \<Rightarrow> strip_all_prefix n p r | None \<Rightarrow> s)"

text \<open>\<^verbatim>\<open>trim_start_matches\<close> of a non-empty pattern: no more matches than characters.\<close>

definition trim_start_matches :: "rstr \<Rightarrow> rstr \<Rightarrow> rstr" where
  "trim_start_matches p s = strip_all_prefix (length s) p s"

definition strip_scheme :: "rstr \<Rightarrow> rstr" where
  "strip_scheme s = trim_end_by (\<lambda>c. c = 47) (trim_start_matches (lit ''https://'') (trim_start_matches (lit ''http://'') (trim s)))"

definition strip_brackets :: "rstr \<Rightarrow> rstr" where
  "strip_brackets s = trim_end_by (\<lambda>c. c = 93) (trim_start_by (\<lambda>c. c = 91) s)"

definition parse_endpoint_base :: "('u, 'z) url_edit_api_scheme \<Rightarrow> rstr \<Rightarrow> 'u option" where
  "parse_endpoint_base api server = (let trimmed = trim server;
       fallback = opt_filter (url_has_host api) (url_parse api (lit ''http://'' @ trimmed))
     in case url_parse api trimmed of Some url \<Rightarrow> if url_has_host api url then Some url else fallback | None \<Rightarrow> fallback)"

text \<open>The last resort of \<^verbatim>\<open>endpoint_parts\<close>: no URL, so only a host and perhaps a port are kept.\<close>

definition raw_parts :: "rstr \<Rightarrow> rstr \<times> u16" where
  "raw_parts compact0 = (let
       compact1 = (case rsplit_once 64 compact0 of Some (_, host) \<Rightarrow> host | None \<Rightarrow> compact0);
       compact = takeWhile (\<lambda>c. c \<notin> {47, 63, 35}) compact1;
       plain = (case rsplit_once 58 compact of
           Some (host, port) \<Rightarrow> (case parse_word port of Some p \<Rightarrow> (host, p) | None \<Rightarrow> (compact, 8080))
         | None \<Rightarrow> (compact, 8080))
     in case strip_prefix (lit ''['') compact of
         Some rest \<Rightarrow> (case split_once 93 rest of
             Some (host, after) \<Rightarrow> (host, case Option.bind (strip_prefix (lit '':'') after) parse_word of Some p \<Rightarrow> p | None \<Rightarrow> 8080)
           | None \<Rightarrow> plain)
       | None \<Rightarrow> plain)"

definition endpoint_parts :: "('u, 'z) url_edit_api_scheme \<Rightarrow> rstr \<Rightarrow> rstr \<times> u16" where
  "endpoint_parts api server = (let
       compact = strip_scheme server;
       legacy = (case Option.bind (url_parse api (lit ''http://'' @ compact)) (\<lambda>url. map_option (Pair url) (url_host_str api url)) of
           Some (url, host) \<Rightarrow> (host, case url_port api url of Some p \<Rightarrow> p | None \<Rightarrow> 8080)
         | None \<Rightarrow> raw_parts compact)
     in case Option.bind (url_parse api (trim server)) (\<lambda>url. map_option (Pair url) (url_host_str api url)) of
         Some (url, host) \<Rightarrow> (host, case url_port_or_known_default api url of Some p \<Rightarrow> p | None \<Rightarrow> 8080)
       | None \<Rightarrow> legacy)"

definition parse_setting_u64 :: "rstr \<Rightarrow> rstr \<Rightarrow> u64 \<Rightarrow> u64 \<Rightarrow> rstr + u64" where
  "parse_setting_u64 v label lo hi = (case parse_word (trim v) of
       None \<Rightarrow> Inl (label @ lit '' must be a number'')
     | Some parsed \<Rightarrow> if lo \<le> parsed \<and> parsed \<le> hi then Inr parsed
         else Inl (label @ lit '' must be between '' @ show_word lo @ lit '' and '' @ show_word hi))"

definition default_port_for_scheme :: "rstr \<Rightarrow> u16 option" where
  "default_port_for_scheme scheme = (if scheme = lit ''http'' \<or> scheme = lit ''ws'' then Some 80
     else if scheme = lit ''https'' \<or> scheme = lit ''wss'' then Some 443 else if scheme = lit ''ftp'' then Some 21 else None)"

definition HOST_EMPTY :: rstr where "HOST_EMPTY = lit ''Host / IP must not be empty''"
definition HOST_INVALID :: rstr where "HOST_INVALID = lit ''Host / IP contains invalid characters''"
definition PORT_RANGE :: rstr where "PORT_RANGE = lit ''Port must be between 1 and 65535''"

definition parse_port_field :: "rstr \<Rightarrow> u16 option" where
  "parse_port_field port = opt_filter (\<lambda>p. 0 < p) (parse_word (trim port))"

definition build_endpoint :: "rstr \<Rightarrow> rstr \<Rightarrow> rstr + rstr" where
  "build_endpoint host0 port = (let host = strip_scheme host0 in
     if host = [] then Inl HOST_EMPTY else if 47 \<in> set host \<or> list_ex is_ws host then Inl HOST_INVALID
     else case parse_port_field port of None \<Rightarrow> Inl PORT_RANGE | Some p \<Rightarrow>
       Inr (lit ''http://'' @ (if 58 \<in> set host \<and> \<not> starts_with (lit ''['') host then lit ''['' @ host @ lit '']'' else host) @
         lit '':'' @ show_word p))"

section \<open>The list of additional servers\<close>

definition find_duplicate :: "('u, 'z) url_api_scheme \<Rightarrow> rstr list \<Rightarrow> rstr \<Rightarrow> rstr option" where
  "find_duplicate api list candidate = (let key = server_key api candidate in find (\<lambda>entry. server_key api entry = key) list)"

definition normalize_endpoint :: "('u, 'z) url_api_scheme \<Rightarrow> rstr \<Rightarrow> rstr + rstr" where
  "normalize_endpoint api raw = (let trimmed = trim raw in
     if trimmed = [] then Inl (lit ''Server URL must not be empty'')
     else case url_parse api trimmed of
         None \<Rightarrow> Inl (lit ''Not a valid server URL: '' @ safe_endpoint api trimmed)
       | Some parsed \<Rightarrow> if url_host_str api parsed = None then Inl (lit ''Server URL must include a host: '' @ safe_endpoint api trimmed)
           else Inr trimmed)"

definition split_monitored :: "rstr list \<Rightarrow> rstr list \<times> rstr list" where
  "split_monitored list = (take MAX_MONITORED_SERVERS list, drop MAX_MONITORED_SERVERS list)"

record Monitoring =
  mo_flags :: "bool list"
  mo_monitored :: nat
  mo_overflow :: nat

definition monitored_flags :: "('u, 'z) url_api_scheme \<Rightarrow> rstr option \<Rightarrow> rstr list \<Rightarrow> Monitoring" where
  "monitored_flags api primary extras = (let
       unique = first_of_key (server_key api) {} ((case primary of Some p \<Rightarrow> [p] | None \<Rightarrow> []) @ extras);
       (monitored, overflow) = split_monitored unique;
       monitored_keys = set (map (server_key api) monitored)
     in \<lparr>mo_flags = map (\<lambda>e. server_key api e \<in> monitored_keys) extras, mo_monitored = length monitored, mo_overflow = length overflow\<rparr>)"

section \<open>The masked draft\<close>

definition MASK :: rchar where "MASK = 8226"

record MaskState =
  mk_query :: bool
  mk_value :: bool
  mk_fragment :: bool

definition authority_start :: "rstr \<Rightarrow> nat" where
  "authority_start draft = (case find_sub (lit ''://'') draft of Some i \<Rightarrow> i + 3 | None \<Rightarrow> 0)"

definition authority_end :: "rstr \<Rightarrow> nat" where
  "authority_end draft = authority_start draft + length (takeWhile (\<lambda>c. c \<notin> {47, 63, 35}) (drop (authority_start draft) draft))"

text \<open>The position of the last \<open>@\<close> of the authority.\<close>

definition userinfo_end :: "rstr \<Rightarrow> nat option" where
  "userinfo_end draft = (let authority = takeWhile (\<lambda>c. c \<notin> {47, 63, 35}) (drop (authority_start draft) draft) in
     if 64 \<in> set authority then Some (authority_start draft + length (trim_end_by (\<lambda>c. c \<noteq> 64) authority) - 1) else None)"

definition mask_tail :: "rchar \<Rightarrow> MaskState \<Rightarrow> rchar \<times> MaskState" where
  "mask_tail c m = (if mk_fragment m then (MASK, m)
     else if c = 35 then (c, m\<lparr>mk_fragment := True\<rparr>)
     else if c = 63 \<and> \<not> mk_query m then (c, m\<lparr>mk_query := True\<rparr>)
     else if c = 38 \<and> mk_query m then (c, m\<lparr>mk_value := False\<rparr>)
     else if c = 61 \<and> mk_query m \<and> \<not> mk_value m then (c, m\<lparr>mk_value := True\<rparr>)
     else if mk_value m then (MASK, m) else (c, m))"

fun mask_chars :: "nat \<Rightarrow> nat option \<Rightarrow> nat \<Rightarrow> nat \<Rightarrow> MaskState \<Rightarrow> rstr \<Rightarrow> rstr" where
  "mask_chars start user stop i m [] = []"
| "mask_chars start user stop i m (c # cs) =
     (if (case user of Some e \<Rightarrow> start \<le> i \<and> i < e | None \<Rightarrow> False) then MASK # mask_chars start user stop (i + 1) m cs
      else if i < stop then c # mask_chars start user stop (i + 1) m cs
      else (case mask_tail c m of (d, m) \<Rightarrow> d # mask_chars start user stop (i + 1) m cs))"

definition mask_draft :: "rstr \<Rightarrow> rstr" where
  "mask_draft draft = mask_chars (authority_start draft) (userinfo_end draft) (authority_end draft) 0
     \<lparr>mk_query = False, mk_value = False, mk_fragment = False\<rparr> draft"

section \<open>The dialog\<close>

datatype SettingsField = FHost | FPort | FGpu | FRefresh | FProcessRefresh | FOfflineGrace | FAutoDiscovery | FServerList

datatype KeyCode = KEsc | KTab | KBackTab | KDown | KUp | KLeft | KRight | KEnter | KBackspace | KInsert | KDelete | KChar rchar | KOther

definition MAX_SERVER_DRAFT_CHARS :: nat where "MAX_SERVER_DRAFT_CHARS = 1024"

record 'u Settings =
  st_open :: bool
  st_help_open :: bool
  st_search_open :: bool
  st_field :: SettingsField
  st_host :: rstr
  st_port :: rstr
  st_original :: rstr
  st_base :: "'u option"
  st_gpu :: rstr
  st_refresh :: rstr
  st_process_refresh :: rstr
  st_offline_grace :: rstr
  st_auto :: bool
  st_servers :: "rstr list"
  st_index :: nat
  st_draft :: "rstr option"
  st_edit_index :: "nat option"
  st_server_error :: "rstr option"
  st_error :: "rstr option"

definition open_settings :: "('u, 'z) url_edit_api_scheme \<Rightarrow> rstr \<Rightarrow> AppConfig \<Rightarrow> 'u Settings" where
  "open_settings api active_server settings = (let
       editable = unwrap_or active_server (cf_server settings);
       (host, port) = endpoint_parts api editable
     in \<lparr>st_open = True, st_help_open = False, st_search_open = False, st_field = FHost,
         st_host = host, st_port = show_word port, st_original = editable, st_base = parse_endpoint_base api editable,
         st_gpu = GpuSelector_as_string (cf_gpu_selector settings),
         st_refresh = show_word (cf_refresh_ms settings), st_process_refresh = show_word (cf_process_refresh_ms settings),
         st_offline_grace = show_word (cf_offline_grace_ms settings), st_auto = cf_auto_discovery settings,
         st_servers = cf_servers settings, st_index = 0, st_draft = None, st_edit_index = None,
         st_server_error = None, st_error = None\<rparr>)"

definition close_settings :: "'u Settings \<Rightarrow> 'u Settings" where
  "close_settings s = s\<lparr>st_open := False, st_draft := None, st_edit_index := None, st_server_error := None, st_error := None\<rparr>"

fun next_field :: "SettingsField \<Rightarrow> SettingsField" where
  "next_field FHost = FPort"
| "next_field FPort = FGpu"
| "next_field FGpu = FRefresh"
| "next_field FRefresh = FProcessRefresh"
| "next_field FProcessRefresh = FOfflineGrace"
| "next_field FOfflineGrace = FAutoDiscovery"
| "next_field FAutoDiscovery = FServerList"
| "next_field FServerList = FHost"

fun previous_field :: "SettingsField \<Rightarrow> SettingsField" where
  "previous_field FHost = FServerList"
| "previous_field FPort = FHost"
| "previous_field FGpu = FPort"
| "previous_field FRefresh = FGpu"
| "previous_field FProcessRefresh = FRefresh"
| "previous_field FOfflineGrace = FProcessRefresh"
| "previous_field FAutoDiscovery = FOfflineGrace"
| "previous_field FServerList = FAutoDiscovery"

definition settings_next_field :: "'u Settings \<Rightarrow> 'u Settings" where
  "settings_next_field s = s\<lparr>st_field := next_field (st_field s), st_server_error := None, st_error := None\<rparr>"

definition settings_previous_field :: "'u Settings \<Rightarrow> 'u Settings" where
  "settings_previous_field s = s\<lparr>st_field := previous_field (st_field s), st_server_error := None, st_error := None\<rparr>"

text \<open>\<^verbatim>\<open>String::pop\<close>.\<close>

definition settings_backspace :: "'u Settings \<Rightarrow> 'u Settings" where
  "settings_backspace s = (case st_field s of
       FHost \<Rightarrow> s\<lparr>st_host := butlast (st_host s)\<rparr>
     | FPort \<Rightarrow> s\<lparr>st_port := butlast (st_port s)\<rparr>
     | FGpu \<Rightarrow> s\<lparr>st_gpu := butlast (st_gpu s)\<rparr>
     | FRefresh \<Rightarrow> s\<lparr>st_refresh := butlast (st_refresh s)\<rparr>
     | FProcessRefresh \<Rightarrow> s\<lparr>st_process_refresh := butlast (st_process_refresh s)\<rparr>
     | FOfflineGrace \<Rightarrow> s\<lparr>st_offline_grace := butlast (st_offline_grace s)\<rparr>
     | FAutoDiscovery \<Rightarrow> s
     | FServerList \<Rightarrow> s)\<lparr>st_error := None\<rparr>"

text \<open>The lengths of the number fields are in bytes, that of the host in characters.\<close>

definition typable :: "rchar \<Rightarrow> bool" where
  "typable c \<longleftrightarrow> \<not> is_ctl c \<and> \<not> is_ws c"

definition settings_insert_char :: "rchar \<Rightarrow> 'u Settings \<Rightarrow> 'u Settings" where
  "settings_insert_char c s = (case st_field s of
       FHost \<Rightarrow> if typable c \<and> length (st_host s) < 64 then s\<lparr>st_host := st_host s @ [c]\<rparr> else s
     | FPort \<Rightarrow> if is_digit c \<and> byte_len (st_port s) < 5 then s\<lparr>st_port := st_port s @ [c]\<rparr> else s
     | FGpu \<Rightarrow> if typable c \<and> byte_len (st_gpu s) < 40 then s\<lparr>st_gpu := st_gpu s @ [c]\<rparr> else s
     | FRefresh \<Rightarrow> if is_digit c \<and> byte_len (st_refresh s) < 6 then s\<lparr>st_refresh := st_refresh s @ [c]\<rparr> else s
     | FProcessRefresh \<Rightarrow> if is_digit c \<and> byte_len (st_process_refresh s) < 6
         then s\<lparr>st_process_refresh := st_process_refresh s @ [c]\<rparr> else s
     | FOfflineGrace \<Rightarrow> if is_digit c \<and> byte_len (st_offline_grace s) < 6
         then s\<lparr>st_offline_grace := st_offline_grace s @ [c]\<rparr> else s
     | FAutoDiscovery \<Rightarrow> s
     | FServerList \<Rightarrow> s)\<lparr>st_error := None\<rparr>"

definition settings_toggle_selected :: "'u Settings \<Rightarrow> 'u Settings" where
  "settings_toggle_selected s = (if st_field s = FAutoDiscovery then s\<lparr>st_auto := \<not> st_auto s, st_error := None\<rparr> else s)"

definition settings_server_step :: "bool \<Rightarrow> 'u Settings \<Rightarrow> 'u Settings" where
  "settings_server_step down s = (let len = length (st_servers s); index = min (st_index s) (len - 1) in
     if down \<and> index + 1 < len then s\<lparr>st_index := index + 1, st_server_error := None\<rparr>
     else if \<not> down \<and> 0 < len \<and> 0 < index then s\<lparr>st_index := index - 1, st_server_error := None\<rparr>
     else if down then settings_next_field s else settings_previous_field s)"

definition settings_server_begin_add :: "'u Settings \<Rightarrow> 'u Settings" where
  "settings_server_begin_add s = s\<lparr>st_draft := Some [], st_edit_index := None, st_server_error := None\<rparr>"

definition settings_server_begin_edit :: "'u Settings \<Rightarrow> 'u Settings" where
  "settings_server_begin_edit s = (if st_index s < length (st_servers s)
     then s\<lparr>st_draft := Some (st_servers s ! st_index s), st_edit_index := Some (st_index s), st_server_error := None\<rparr> else s)"

definition remove_at :: "nat \<Rightarrow> 'a list \<Rightarrow> 'a list" where
  "remove_at i xs = take i xs @ drop (i + 1) xs"

definition settings_server_delete :: "'u Settings \<Rightarrow> 'u Settings" where
  "settings_server_delete s = (if st_index s < length (st_servers s) then (let servers = remove_at (st_index s) (st_servers s) in
     s\<lparr>st_servers := servers, st_index := (if length servers \<le> st_index s then length servers - 1 else st_index s),
       st_server_error := None\<rparr>) else s)"

definition settings_server_draft_insert_char :: "rchar \<Rightarrow> 'u Settings \<Rightarrow> 'u Settings" where
  "settings_server_draft_insert_char c s = (case st_draft s of
       Some draft \<Rightarrow> if typable c \<and> length draft < MAX_SERVER_DRAFT_CHARS then s\<lparr>st_draft := Some (draft @ [c])\<rparr> else s
     | None \<Rightarrow> s)\<lparr>st_server_error := None\<rparr>"

definition settings_server_draft_backspace :: "'u Settings \<Rightarrow> 'u Settings" where
  "settings_server_draft_backspace s = s\<lparr>st_draft := map_option butlast (st_draft s), st_server_error := None\<rparr>"

definition settings_server_draft_cancel :: "'u Settings \<Rightarrow> 'u Settings" where
  "settings_server_draft_cancel s = s\<lparr>st_draft := None, st_edit_index := None, st_server_error := None\<rparr>"

text \<open>The endpoint the dialog saves.\<close>

definition settings_endpoint :: "('u, 'z) url_edit_api_scheme \<Rightarrow> 'u Settings \<Rightarrow> rstr + rstr" where
  "settings_endpoint api s = (let host = strip_brackets (trim (st_host s)) in
     if host = [] then Inl HOST_EMPTY else if list_ex is_ws host then Inl HOST_INVALID
     else case parse_port_field (st_port s) of None \<Rightarrow> Inl PORT_RANGE | Some port \<Rightarrow>
       (case st_base s of None \<Rightarrow> build_endpoint (st_host s) (st_port s) | Some base \<Rightarrow> (let
          (base_host, base_port) = endpoint_parts api (st_original s)
        in if lower host = lower (strip_brackets base_host) \<and> port = base_port then Inr (st_original s)
           else case url_set_host api (if 58 \<in> set host then lit ''['' @ host @ lit '']'' else host) base of
               None \<Rightarrow> Inl (lit ''Host / IP is not a valid URL host'')
             | Some url \<Rightarrow> (case url_set_port api (if default_port_for_scheme (url_scheme api url) = Some port then None else Some port) url of
                 None \<Rightarrow> Inl (lit ''Port is not valid for this endpoint'')
               | Some url \<Rightarrow> Inr (url_to_string api url)))))"

definition other_entries :: "'u Settings \<Rightarrow> rstr list" where
  "other_entries s = map snd (filter (\<lambda>(i, _). Some i \<noteq> st_edit_index s) (zip [0..<length (st_servers s)] (st_servers s)))"

definition commit_entry :: "rstr \<Rightarrow> 'u Settings \<Rightarrow> 'u Settings" where
  "commit_entry endpoint s = (let s = (case st_edit_index s of
       Some index \<Rightarrow> if index < length (st_servers s) then s\<lparr>st_servers := (st_servers s)[index := endpoint], st_index := index\<rparr>
         else s\<lparr>st_servers := st_servers s @ [endpoint], st_index := length (st_servers s)\<rparr>
     | None \<Rightarrow> s\<lparr>st_servers := st_servers s @ [endpoint], st_index := length (st_servers s)\<rparr>)
   in s\<lparr>st_draft := None, st_edit_index := None, st_server_error := None\<rparr>)"

definition settings_server_draft_commit :: "('u, 'z) url_edit_api_scheme \<Rightarrow> 'u Settings \<Rightarrow> 'u Settings" where
  "settings_server_draft_commit api s = (case st_draft s of None \<Rightarrow> s | Some draft \<Rightarrow>
     (case normalize_endpoint api draft of
       Inl message \<Rightarrow> s\<lparr>st_server_error := Some message\<rparr>
     | Inr endpoint \<Rightarrow> (case settings_endpoint api s of
           Inr primary \<Rightarrow> if server_key api primary = server_key api endpoint
             then s\<lparr>st_server_error := Some (lit ''Duplicates the primary endpoint: '' @ safe_endpoint api primary)\<rparr>
             else (case find_duplicate api (other_entries s) endpoint of
                 Some duplicate \<Rightarrow> s\<lparr>st_server_error := Some (lit ''Endpoint already configured: '' @ safe_endpoint api duplicate)\<rparr>
               | None \<Rightarrow> commit_entry endpoint s)
         | Inl _ \<Rightarrow> (case find_duplicate api (other_entries s) endpoint of
                 Some duplicate \<Rightarrow> s\<lparr>st_server_error := Some (lit ''Endpoint already configured: '' @ safe_endpoint api duplicate)\<rparr>
               | None \<Rightarrow> commit_entry endpoint s))))"

definition settings_server_monitoring :: "('u, 'z) url_edit_api_scheme \<Rightarrow> 'u Settings \<Rightarrow> Monitoring" where
  "settings_server_monitoring api s =
     monitored_flags api (case settings_endpoint api s of Inr p \<Rightarrow> Some p | Inl _ \<Rightarrow> None) (st_servers s)"

definition settings_config :: "('u, 'z) url_edit_api_scheme \<Rightarrow> 'u Settings \<Rightarrow> rstr + AppConfig" where
  "settings_config api s = (case settings_endpoint api s of Inl e \<Rightarrow> Inl e | Inr endpoint \<Rightarrow>
     (case parse_setting_u64 (st_refresh s) (lit ''Refresh'') MIN_REFRESH_MS MAX_REFRESH_MS of Inl e \<Rightarrow> Inl e | Inr refresh \<Rightarrow>
     (case parse_setting_u64 (st_process_refresh s) (lit ''Process refresh'') MIN_PROCESS_REFRESH_MS MAX_PROCESS_REFRESH_MS of
       Inl e \<Rightarrow> Inl e | Inr process_refresh \<Rightarrow>
     (case parse_setting_u64 (st_offline_grace s) (lit ''Offline grace'') 0 MAX_OFFLINE_GRACE_MS of Inl e \<Rightarrow> Inl e | Inr offline_grace \<Rightarrow>
       Inr \<lparr>cf_server = Some endpoint, cf_servers = st_servers s, cf_gpu_selector = GpuSelector_parse (st_gpu s),
         cf_refresh_ms = refresh, cf_process_refresh_ms = process_refresh, cf_offline_grace_ms = offline_grace,
         cf_auto_discovery = st_auto s\<rparr>))))"

text \<open>One key press; \<open>True\<close> asks the caller to save.\<close>

definition settings_handle_key :: "('u, 'z) url_edit_api_scheme \<Rightarrow> KeyCode \<Rightarrow> 'u Settings \<Rightarrow> bool \<times> 'u Settings" where
  "settings_handle_key api code s = (if st_draft s \<noteq> None then (False, case code of
       KEsc \<Rightarrow> settings_server_draft_cancel s
     | KBackspace \<Rightarrow> settings_server_draft_backspace s
     | KEnter \<Rightarrow> settings_server_draft_commit api s
     | KChar c \<Rightarrow> settings_server_draft_insert_char c s
     | _ \<Rightarrow> s)
   else let on_list = (st_field s = FServerList) in case code of
       KEsc \<Rightarrow> (False, close_settings s)
     | KTab \<Rightarrow> (False, settings_next_field s)
     | KBackTab \<Rightarrow> (False, settings_previous_field s)
     | KDown \<Rightarrow> (False, if on_list then settings_server_step True s else settings_next_field s)
     | KUp \<Rightarrow> (False, if on_list then settings_server_step False s else settings_previous_field s)
     | KLeft \<Rightarrow> (False, settings_toggle_selected s)
     | KRight \<Rightarrow> (False, settings_toggle_selected s)
     | KBackspace \<Rightarrow> (False, settings_backspace s)
     | KEnter \<Rightarrow> (True, s\<lparr>st_server_error := None\<rparr>)
     | KInsert \<Rightarrow> (False, if on_list then settings_server_begin_add s else s)
     | KDelete \<Rightarrow> (False, if on_list then settings_server_delete s else s)
     | KChar c \<Rightarrow> (False, if c = 32 then settings_toggle_selected s
         else if c = 97 \<and> on_list then settings_server_begin_add s
         else if c = 101 \<and> on_list then settings_server_begin_edit s
         else if c = 100 \<and> on_list then settings_server_delete s
         else settings_insert_char c s)
     | KOther \<Rightarrow> (False, s))"

fun press_keys :: "('u, 'z) url_edit_api_scheme \<Rightarrow> KeyCode list \<Rightarrow> 'u Settings \<Rightarrow> 'u Settings" where
  "press_keys api [] s = s"
| "press_keys api (k # ks) s = press_keys api ks (snd (settings_handle_key api k s))"

section \<open>The editor keeps a set of servers\<close>

definition entry_ok :: "rstr \<Rightarrow> bool" where
  "entry_ok e \<longleftrightarrow> e \<noteq> [] \<and> trimmed e"

definition parses_with_host :: "('u, 'z) url_api_scheme \<Rightarrow> rstr \<Rightarrow> bool" where
  "parses_with_host api e \<longleftrightarrow> (\<exists>u. url_parse api e = Some u \<and> url_host_str api u \<noteq> None)"

text \<open>\<open>S\<close> are the entries the dialog was opened with.\<close>

definition editor_inv :: "('u, 'z) url_api_scheme \<Rightarrow> rstr set \<Rightarrow> 'v Settings \<Rightarrow> bool" where
  "editor_inv api S s \<longleftrightarrow> distinct (map (server_key api) (st_servers s)) \<and>
     (\<forall>e \<in> set (st_servers s). entry_ok e \<and> (e \<in> S \<or> parses_with_host api e)) \<and>
     st_index s < max 1 (length (st_servers s)) \<and>
     (case st_edit_index s of Some i \<Rightarrow> i < length (st_servers s) \<and> st_draft s \<noteq> None | None \<Rightarrow> True)"

lemma editor_inv_frame [inv_intros]:
  "editor_inv api S s \<Longrightarrow> st_servers s' = st_servers s \<Longrightarrow> st_index s' < max 1 (length (st_servers s)) \<Longrightarrow>
   st_edit_index s' = None \<or> st_edit_index s' = st_edit_index s \<and> (st_draft s = None \<longleftrightarrow> st_draft s' = None) \<Longrightarrow> editor_inv api S s'"
  by (auto simp: editor_inv_def split: option.splits)

lemma editor_inv_field_ops:
  assumes "editor_inv api S s"
  shows "editor_inv api S (close_settings s)" "editor_inv api S (settings_next_field s)" "editor_inv api S (settings_previous_field s)"
    "editor_inv api S (settings_backspace s)" "editor_inv api S (settings_insert_char c s)" "editor_inv api S (settings_toggle_selected s)"
    "editor_inv api S (settings_server_begin_add s)" "editor_inv api S (settings_server_draft_insert_char c s)"
    "editor_inv api S (settings_server_draft_backspace s)" "editor_inv api S (settings_server_draft_cancel s)"
    "editor_inv api S (s\<lparr>st_server_error := x\<rparr>)"
proof -
  have bound: "st_index s < max 1 (length (st_servers s))" "st_index s < max (Suc 0) (length (st_servers s))"
    using assms by (simp_all add: editor_inv_def)
  note frame = editor_inv_frame [OF assms]
  show "editor_inv api S (close_settings s)" by (rule frame) (simp_all add: close_settings_def bound)
  show "editor_inv api S (settings_next_field s)" by (rule frame) (simp_all add: settings_next_field_def bound)
  show "editor_inv api S (settings_previous_field s)" by (rule frame) (simp_all add: settings_previous_field_def bound)
  show "editor_inv api S (settings_backspace s)" by (rule frame) (simp_all add: settings_backspace_def bound split: SettingsField.split)
  show "editor_inv api S (settings_insert_char c s)" by (rule frame) (simp_all add: settings_insert_char_def bound split: SettingsField.split)
  show "editor_inv api S (settings_toggle_selected s)" by (rule frame) (simp_all add: settings_toggle_selected_def bound)
  show "editor_inv api S (settings_server_begin_add s)" by (rule frame) (simp_all add: settings_server_begin_add_def bound)
  show "editor_inv api S (settings_server_draft_insert_char c s)"
    by (rule frame) (simp_all add: settings_server_draft_insert_char_def bound split: option.split)
  show "editor_inv api S (settings_server_draft_backspace s)"
    by (rule frame) (simp_all add: settings_server_draft_backspace_def bound)
  show "editor_inv api S (settings_server_draft_cancel s)" by (rule frame) (simp_all add: settings_server_draft_cancel_def bound)
  show "editor_inv api S (s\<lparr>st_server_error := x\<rparr>)" by (rule frame) (simp_all add: bound)
qed

lemma editor_inv_step: "editor_inv api S s \<Longrightarrow> editor_inv api S (settings_server_step down s)"
  using editor_inv_field_ops(2,3) [of api S s]
  by (auto simp: settings_server_step_def Let_def intro!: editor_inv_frame [of api S s])

lemma editor_inv_begin_edit: "editor_inv api S s \<Longrightarrow> editor_inv api S (settings_server_begin_edit s)"
  by (auto simp: settings_server_begin_edit_def editor_inv_def)

lemma set_remove_at: "set (remove_at i xs) \<subseteq> set xs"
  by (auto simp: remove_at_def dest: in_set_takeD in_set_dropD)

lemma distinct_remove_at: "distinct (map f xs) \<Longrightarrow> distinct (map f (remove_at i xs))"
proof -
  assume "distinct (map f xs)"
  then have d: "distinct (map f (take (Suc i) xs @ drop (Suc i) xs))" by simp
  have "set (take i xs) \<subseteq> set (take (Suc i) xs)" by (rule set_take_subset_set_take) simp
  moreover have "distinct (map f (take i xs))" using \<open>distinct (map f xs)\<close> by (simp flip: take_map)
  ultimately show ?thesis using d unfolding remove_at_def map_append distinct_append by auto
qed

lemma length_remove_at: "i < length xs \<Longrightarrow> length (remove_at i xs) = length xs - 1"
  by (simp add: remove_at_def)

lemma editor_inv_delete:
  "editor_inv api S s \<Longrightarrow> st_draft s = None \<Longrightarrow> editor_inv api S (settings_server_delete s)"
  using set_remove_at [of "st_index s" "st_servers s"] distinct_remove_at [of "server_key api" "st_servers s" "st_index s"]
    length_remove_at [of "st_index s" "st_servers s"]
  by (auto simp: settings_server_delete_def editor_inv_def Let_def split: option.splits)

text \<open>The entries other than the one being replaced.\<close>

lemma other_entries_add: "st_edit_index s = None \<Longrightarrow> other_entries s = st_servers s"
  by (simp add: other_entries_def)

lemma other_entries_at:
  assumes "st_edit_index s = Some i" "j < length (st_servers s)" "j \<noteq> i"
  shows "st_servers s ! j \<in> set (other_entries s)"
proof -
  have "(j, st_servers s ! j) \<in> set (zip [0..<length (st_servers s)] (st_servers s))"
    using assms(2) by (force simp: set_zip)
  then show ?thesis using assms unfolding other_entries_def by force
qed

lemma distinct_update:
  assumes "distinct xs" "i < length xs" "\<And>j. j < length xs \<Longrightarrow> j \<noteq> i \<Longrightarrow> xs ! j \<noteq> x"
  shows "distinct (xs[i := x])"
  using assms by (auto simp: distinct_conv_nth nth_list_update)

lemma editor_inv_commit_entry:
  assumes "editor_inv api S s" "find_duplicate api (other_entries s) e = None" "entry_ok e" "parses_with_host api e"
  shows "editor_inv api S (commit_entry e s)"
proof -
  have fresh: "server_key api e' \<noteq> server_key api e" if "e' \<in> set (other_entries s)" for e'
    using assms(2) that by (auto simp: find_duplicate_def Let_def find_None_iff)
  show ?thesis
  proof (cases "st_edit_index s")
    case None
    then have "server_key api e \<notin> server_key api ` set (st_servers s)" using fresh other_entries_add [OF None] by force
    then show ?thesis using assms None by (auto simp: commit_entry_def editor_inv_def Let_def)
  next
    case (Some i)
    then have i: "i < length (st_servers s)" using assms(1) by (simp add: editor_inv_def)
    have "distinct ((map (server_key api) (st_servers s))[i := server_key api e])"
      by (rule distinct_update) (use assms(1) i Some fresh other_entries_at in \<open>auto simp: editor_inv_def\<close>)
    moreover have "set ((st_servers s)[i := e]) \<subseteq> insert e (set (st_servers s))" by (rule set_update_subset_insert)
    ultimately show ?thesis using assms Some i by (auto simp: commit_entry_def editor_inv_def Let_def map_update)
  qed
qed

lemma editor_inv_commit: "editor_inv api S s \<Longrightarrow> editor_inv api S (settings_server_draft_commit api s)"
proof -
  assume inv: "editor_inv api S s"
  have ok: "entry_ok e \<and> parses_with_host api e" if "normalize_endpoint api d = Inr e" for d e
    using that trimmed_trim by (auto simp: normalize_endpoint_def entry_ok_def parses_with_host_def Let_def split: if_splits option.splits)
  show ?thesis
    unfolding settings_server_draft_commit_def
    using inv editor_inv_commit_entry [OF inv] ok editor_inv_field_ops(11) [OF inv]
    by (auto split: option.split sum.split)
qed

lemma editor_inv_key:
  assumes "editor_inv api S s"
  shows "editor_inv api S (snd (settings_handle_key api k s))"
  unfolding settings_handle_key_def
  using editor_inv_field_ops [OF assms] editor_inv_step [OF assms] editor_inv_begin_edit [OF assms]
    editor_inv_delete [OF assms] editor_inv_commit [OF assms] assms
  by (auto split: KeyCode.split simp: Let_def)

lemma editor_inv_keys: "editor_inv api S s \<Longrightarrow> editor_inv api S (press_keys api ks s)"
  by (induction ks arbitrary: s) (auto intro: editor_inv_key)

text \<open>
  C18: whatever keys are pressed in the dialog, the list of additional servers stays a list of
  distinct servers: no two entries have the same identity, every entry is non-empty and trimmed,
  every entry that was not there when the dialog opened is a URL with a host; the highlight stays in
  the list and an edit replaces an entry that exists.
\<close>

theorem editor_keeps_servers:
  fixes api :: "('u, 'z) url_edit_api_scheme"
  assumes "distinct (map (server_key api) (cf_servers c))" "\<forall>e \<in> set (cf_servers c). e \<noteq> [] \<and> trimmed e"
  shows "let s = press_keys api ks (open_settings api active c) in
    distinct (map (server_key api) (st_servers s)) \<and>
    (\<forall>e \<in> set (st_servers s). e \<noteq> [] \<and> trimmed e \<and> (e \<in> set (cf_servers c) \<or> parses_with_host api e)) \<and>
    st_index s < max 1 (length (st_servers s)) \<and>
    (case st_edit_index s of Some i \<Rightarrow> i < length (st_servers s) \<and> st_draft s \<noteq> None | None \<Rightarrow> True)"
proof -
  have "editor_inv api (set (cf_servers c)) (open_settings api active c)"
    using assms by (simp add: editor_inv_def open_settings_def entry_ok_def Let_def split: prod.split)
  from editor_inv_keys [OF this, of ks] show ?thesis by (simp add: editor_inv_def entry_ok_def Let_def)
qed

lemma map_first_of_key: "map key (first_of_key key S xs) = first_of_key id S (map key xs)"
  by (induction key S xs rule: first_of_key.induct) auto

lemma first_of_key_append:
  "first_of_key id S (xs @ ys) = first_of_key id S xs @ first_of_key id (S \<union> set xs) ys"
  by (induction "id :: 'a \<Rightarrow> 'a" S xs rule: first_of_key.induct) (auto simp: insert_absorb)

lemma find_sub_scheme:
  assumes "c \<notin> set s"
  shows "find_sub (c # p) (s @ (c # p) @ t) = Some (length s)"
  using assms
proof (induction s)
  case Nil
  then show ?case by (simp add: find_sub.simps [of "c # p"] starts_with_iff)
next
  case (Cons d s)
  then show ?case by (subst find_sub.simps) (auto simp: starts_with_iff)
qed

section \<open>The masked draft\<close>

fun mask_rest :: "MaskState \<Rightarrow> rstr \<Rightarrow> rstr" where
  "mask_rest m [] = []"
| "mask_rest m (c # cs) = fst (mask_tail c m) # mask_rest (snd (mask_tail c m)) cs"

lemma mask_chars_authority:
  "\<forall>j < length xs. i + j < stop \<and> (\<forall>e. user = Some e \<longrightarrow> \<not> (start \<le> i + j \<and> i + j < e)) \<Longrightarrow>
   mask_chars start user stop i m (xs @ ys) = xs @ mask_chars start user stop (i + length xs) m ys"
proof (induction xs arbitrary: i)
  case (Cons x xs)
  have "\<forall>j < length xs. Suc i + j < stop \<and> (\<forall>e. user = Some e \<longrightarrow> \<not> (start \<le> Suc i + j \<and> Suc i + j < e))"
    using Cons.prems by (metis Suc_less_eq add_Suc add_Suc_right length_Cons)
  then show ?case using Cons.IH [of "Suc i"] Cons.prems [rule_format, of 0] by (auto split: option.split)
qed simp

lemma mask_chars_user:
  "start \<le> i \<Longrightarrow> i + length xs \<le> e \<Longrightarrow>
   mask_chars start (Some e) stop i m (xs @ ys) = replicate (length xs) MASK @ mask_chars start (Some e) stop (i + length xs) m ys"
  by (induction xs arbitrary: i) auto

lemma mask_chars_rest:
  "stop \<le> i \<Longrightarrow> (case user of Some e \<Rightarrow> e \<le> i | None \<Rightarrow> True) \<Longrightarrow> mask_chars start user stop i m xs = mask_rest m xs"
  by (induction xs arbitrary: i m) (auto split: option.split_asm prod.split)

abbreviation query_state :: "bool \<Rightarrow> MaskState" where
  "query_state v \<equiv> \<lparr>mk_query = True, mk_value = v, mk_fragment = False\<rparr>"

abbreviation plain_state :: MaskState where
  "plain_state \<equiv> \<lparr>mk_query = False, mk_value = False, mk_fragment = False\<rparr>"

lemma mask_rest_path: "\<forall>c \<in> set p. c \<notin> {63, 35} \<Longrightarrow> mask_rest plain_state (p @ t) = p @ mask_rest plain_state t"
  by (induction p) (auto simp: mask_tail_def)

lemma mask_rest_key: "\<forall>c \<in> set k. c \<notin> {61, 38, 35} \<Longrightarrow> mask_rest (query_state False) (k @ t) = k @ mask_rest (query_state False) t"
  by (induction k) (auto simp: mask_tail_def)

lemma mask_rest_value: "\<forall>c \<in> set v. c \<notin> {38, 35} \<Longrightarrow>
  mask_rest (query_state True) (v @ t) = replicate (length v) MASK @ mask_rest (query_state True) t"
  by (induction v) (auto simp: mask_tail_def)

lemma mask_rest_fragment: "mk_fragment m \<Longrightarrow> mask_rest m t = replicate (length t) MASK"
  by (induction t arbitrary: m) (auto simp: mask_tail_def)

definition query_pair :: "rstr \<times> rstr \<Rightarrow> rstr" where
  "query_pair kv = fst kv @ [61] @ snd kv"

definition hide :: "rstr \<Rightarrow> rstr" where
  "hide s = replicate (length s) MASK"

definition query_ok :: "rstr \<times> rstr \<Rightarrow> bool" where
  "query_ok kv \<longleftrightarrow> {61, 38, 35} \<inter> set (fst kv) = {} \<and> {38, 35} \<inter> set (snd kv) = {}"

lemma mask_rest_pair:
  "query_ok kv \<Longrightarrow> mask_rest (query_state False) (query_pair kv @ t) = query_pair (fst kv, hide (snd kv)) @ mask_rest (query_state True) t"
proof -
  assume "query_ok kv"
  then have "\<forall>c \<in> set (fst kv). c \<notin> {61, 38, 35}" "\<forall>c \<in> set (snd kv). c \<notin> {38, 35}" by (auto simp: query_ok_def)
  then show ?thesis
    by (simp add: query_pair_def hide_def mask_rest_key mask_rest_value mask_tail_def)
qed

lemma mask_rest_query:
  "ps \<noteq> [] \<Longrightarrow> list_all query_ok ps \<Longrightarrow>
   mask_rest (query_state False) (join [38] (map query_pair ps) @ 35 # t)
   = join [38] (map (\<lambda>(k, v). query_pair (k, hide v)) ps) @ 35 # hide t"
proof (induction ps)
  case (Cons kv ps)
  obtain k v where kv: "kv = (k, v)" by (cases kv)
  show ?case
  proof (cases ps)
    case Nil
    then show ?thesis using Cons.prems mask_rest_pair [of kv "35 # t"] by (simp add: kv mask_tail_def mask_rest_fragment hide_def)
  next
    case (Cons p qs)
    then show ?thesis
      using Cons.IH Cons.prems mask_rest_pair [of kv "38 # join [38] (map query_pair ps) @ 35 # t"]
      by (simp add: kv mask_tail_def)
  qed
qed simp



section \<open>What the dialog says is monitored\<close>

lemma keys_of_plain:
  "\<forall>e \<in> set es. trimmed e \<and> e \<noteq> [] \<Longrightarrow> map fst (keyed_entries api (map (\<lambda>e. (e, None)) es)) = map (server_key api) es"
  by (induction es) (auto simp: keyed_entries_def trim_id)

text \<open>
  what the dialog says will be monitored is what the runtime monitors: once the dialog's
  configuration is the running one, an entry of the list is flagged exactly when its server is among the
  polled ones, whatever is discovered; without discovery the two counts are those of the polled and
  of the kept servers.
\<close>

theorem dialog_flags_runtime:
  fixes api :: "('u, 'z) url_edit_api_scheme"
  assumes "settings_config api s = Inr c" "\<forall>e \<in> set (cf_servers c). trimmed e \<and> e \<noteq> []"
    and "cf_server c = Some p" "trimmed p" "p \<noteq> []"
  shows "let running = collect_server_list_with api sys c; shown = settings_server_monitoring api s in
    mo_flags shown = map (\<lambda>e. server_key api e \<in> sv_key ` set (sl_monitored running)) (st_servers s) \<and>
    (\<not> cf_auto_discovery c \<longrightarrow> mo_monitored shown = length (sl_monitored running) \<and> mo_overflow shown = length (sl_overflow running))"
proof -
  have c: "settings_endpoint api s = Inr p" "st_servers s = cf_servers c"
    using assms(1,3) by (auto simp: settings_config_def split: sum.splits)
  let ?ks = "map (server_key api) (p # cf_servers c)"
  let ?mine = "keyed_entries api (map (\<lambda>e. (e, None)) (p # cf_servers c))"
  define found where "found = (if cf_auto_discovery c then map fst (keyed_entries api (map (\<lambda>c. (lc_endpoint c, candidate_identity c))
        (collect_candidates sys True (cf_server c)))) else [])"
  have ok: "trimmed e \<and> e \<noteq> []" if "e \<in> set (p # cf_servers c)" for e using that assms by auto
  have mine: "map fst ?mine = ?ks"
    using ok by (intro keys_of_plain) auto
  have es: "map fst (keyed_entries api (server_entries sys c)) = ?ks @ found"
  proof -
    have "server_entries sys c = map (\<lambda>e. (e, None)) (p # cf_servers c) @ (if cf_auto_discovery c
        then map (\<lambda>c. (lc_endpoint c, candidate_identity c)) (collect_candidates sys True (cf_server c)) else [])"
      by (simp add: server_entries_def assms(3))
    then have "map fst (keyed_entries api (server_entries sys c)) = map fst ?mine @ found"
      by (simp only: found_def keyed_entries_def filter_append map_append) simp
    then show ?thesis by (simp only: mine)
  qed
  then have keys: "map fst (monitored_entries api sys c) = ?ks @ found" by (auto simp: monitored_entries_def Let_def)
  let ?all = "first_of_key id {} (?ks @ found)" and ?own = "first_of_key id {} ?ks"
  have all: "?all = ?own @ first_of_key id (set ?ks) found" by (simp add: first_of_key_append)
  have run: "map sv_key (sl_monitored (collect_server_list_with api sys c)) = take MAX_MONITORED_SERVERS ?all"
     "map sv_key (sl_overflow (collect_server_list_with api sys c)) = drop MAX_MONITORED_SERVERS ?all"
    by (simp_all add: collect_specs Let_def specs_of_def keys spec_at_def comp_def flip: take_map drop_map)
  have own: "map (server_key api) (first_of_key (server_key api) {} (p # cf_servers c)) = ?own" by (simp only: map_first_of_key)
  have same: "k \<in> set (take n ?own) \<longleftrightarrow> k \<in> set (take n ?all)" if "k \<in> set ?ks" for k n
  proof -
    have "set (take m (first_of_key id (set ?ks) found)) \<subseteq> set found - set ?ks" for m
      using set_take_subset set_first_of_key_id by metis
    then show ?thesis using that unfolding all take_append set_append by blast
  qed
  have member: "server_key api e \<in> sv_key ` set (sl_monitored (collect_server_list_with api sys c))
      \<longleftrightarrow> server_key api e \<in> set (take MAX_MONITORED_SERVERS ?own)" if "e \<in> set (cf_servers c)" for e
    using same [of "server_key api e" MAX_MONITORED_SERVERS] that run(1) by (metis image_eqI list.set_intros(2) list.set_map)
  have shown: "settings_server_monitoring api s =
     \<lparr>mo_flags = map (\<lambda>e. server_key api e \<in> set (take MAX_MONITORED_SERVERS ?own)) (cf_servers c),
      mo_monitored = length (take MAX_MONITORED_SERVERS ?own), mo_overflow = length (drop MAX_MONITORED_SERVERS ?own)\<rparr>"
  proof -
    define U where "U = first_of_key (server_key api) {} (p # cf_servers c)"
    have "settings_server_monitoring api s = \<lparr>mo_flags = map (\<lambda>e. server_key api e \<in> set (map (server_key api) (take MAX_MONITORED_SERVERS U)))
        (cf_servers c), mo_monitored = length (take MAX_MONITORED_SERVERS U), mo_overflow = length (drop MAX_MONITORED_SERVERS U)\<rparr>"
      unfolding settings_server_monitoring_def c monitored_flags_def split_monitored_def U_def by (simp add: Let_def del: first_of_key.simps)
    moreover have "map (server_key api) (take MAX_MONITORED_SERVERS U) = take MAX_MONITORED_SERVERS ?own"
      unfolding U_def own [symmetric] by (rule take_map [symmetric])
    moreover have "length U = length ?own" unfolding U_def own [symmetric] by (rule length_map [symmetric])
    ultimately show ?thesis by (simp only: length_take length_drop)
  qed
  have counts: "length (sl_monitored (collect_server_list_with api sys c)) = length (take MAX_MONITORED_SERVERS ?own)"
     "length (sl_overflow (collect_server_list_with api sys c)) = length (drop MAX_MONITORED_SERVERS ?own)" if "\<not> cf_auto_discovery c"
    using run [THEN arg_cong [where f = length]] that by (simp_all only: length_map found_def if_False append_Nil2)
  show ?thesis unfolding shown Let_def using member counts c(2) by auto
qed


section \<open>Opening and saving\<close>

definition setting_in_range :: "AppConfig \<Rightarrow> bool" where
  "setting_in_range c \<longleftrightarrow> MIN_REFRESH_MS \<le> cf_refresh_ms c \<and> cf_refresh_ms c \<le> MAX_REFRESH_MS \<and>
     MIN_PROCESS_REFRESH_MS \<le> cf_process_refresh_ms c \<and> cf_process_refresh_ms c \<le> MAX_PROCESS_REFRESH_MS \<and>
     cf_offline_grace_ms c \<le> MAX_OFFLINE_GRACE_MS"

lemma trim_no_ws: "\<not> list_ex is_ws s \<Longrightarrow> trim s = s"
  by (rule trim_id) (auto simp: trimmed_def list_ex_iff)

lemma trim_show_word [simp]: "trim (show_word w) = show_word w"
  by (rule trim_id) simp

lemma parse_setting_u64_show:
  "lo \<le> w \<Longrightarrow> w \<le> hi \<Longrightarrow> parse_setting_u64 (show_word w) label lo hi = Inr w"
  by (simp add: parse_setting_u64_def)

lemma parse_setting_u64_range:
  "parse_setting_u64 v label lo hi = Inr w \<Longrightarrow> lo \<le> w \<and> w \<le> hi"
  by (auto simp: parse_setting_u64_def split: option.splits if_splits)

text \<open>
  opening the dialog and saving at once changes nothing: the configuration saved is the one
  the dialog was opened on, with the address that was being monitored as its server, byte for byte,
  whatever user information, path or query it carries.
\<close>

theorem settings_open_save:
  fixes api :: "('u, 'z) url_edit_api_scheme"
  assumes "parse_endpoint_base api (unwrap_or active (cf_server c)) = Some base"
    and "endpoint_parts api (unwrap_or active (cf_server c)) = (host, port)"
    and "strip_brackets host \<noteq> []" "\<not> list_ex is_ws host" "0 < port"
    and "setting_in_range c" "GpuSelector_parse (GpuSelector_as_string (cf_gpu_selector c)) = cf_gpu_selector c"
  shows "settings_config api (open_settings api active c) = Inr (c\<lparr>cf_server := Some (unwrap_or active (cf_server c))\<rparr>)"
proof -
  have "set (strip_brackets host) \<subseteq> set host"
    using set_trim_end_by set_trim_start_by unfolding strip_brackets_def by blast
  then have ws: "\<not> list_ex is_ws (strip_brackets host)" using assms(4) by (auto simp: list_ex_iff)
  have port: "parse_port_field (show_word port) = Some port"
    using assms(5) by (simp add: parse_port_field_def opt_filter_def)
  have "settings_endpoint api (open_settings api active c) = Inr (unwrap_or active (cf_server c))"
    using assms(1-4) ws port by (simp add: settings_endpoint_def open_settings_def trim_no_ws Let_def)
  then show ?thesis
    using assms(2,6,7) by (simp add: settings_config_def open_settings_def parse_setting_u64_show setting_in_range_def Let_def)
qed

text \<open>
  the dialog saves only what is in bounds: a configuration it saves has its numbers in
  the limits the loader enforces, so that sanitizing it leaves them alone, and it names a server.
\<close>

theorem settings_config_bounds:
  fixes api :: "('u, 'z) url_edit_api_scheme"
  assumes "settings_config api s = Inr c"
  shows "setting_in_range c \<and> cf_server c \<noteq> None \<and> cf_servers c = st_servers s \<and>
    cf_refresh_ms (AppConfig_sanitized api c) = cf_refresh_ms c \<and>
    cf_process_refresh_ms (AppConfig_sanitized api c) = cf_process_refresh_ms c \<and>
    cf_offline_grace_ms (AppConfig_sanitized api c) = cf_offline_grace_ms c"
  using assms parse_setting_u64_range
  by (fastforce simp: settings_config_def setting_in_range_def AppConfig_sanitized_def clampw_def MIN_REFRESH_MS_def MAX_REFRESH_MS_def
      split: sum.splits)

section \<open>Witnesses\<close>

definition sample_edit_urls :: "(bool \<times> bool) url_edit_api" where
  "sample_edit_urls = url_api.extend sample_urls
     (url_edit_api.fields (\<lambda>_. True) (\<lambda>_. Some 80) (\<lambda>_ u. Some u) (\<lambda>_ u. Some u))"

abbreviation sample_settings :: AppConfig where
  "sample_settings \<equiv> AppConfig_default\<lparr>cf_server := Some (lit ''http://u:p@h/v1''), cf_servers := [lit ''http://b'', lit ''http://c'']\<rparr>"

lemma sample_saved: "settings_config sample_edit_urls (open_settings sample_edit_urls [] sample_settings) = Inr sample_settings"
  by code_simp

theorem settings_open_save_witness:
  "settings_config sample_edit_urls (open_settings sample_edit_urls [] sample_settings)
     = Inr (sample_settings\<lparr>cf_server := Some (lit ''http://u:p@h/v1'')\<rparr>)"
proof -
  have "parse_endpoint_base sample_edit_urls (unwrap_or [] (cf_server sample_settings)) = Some (True, False)" by code_simp
  moreover have "endpoint_parts sample_edit_urls (unwrap_or [] (cf_server sample_settings)) = (lit ''h'', 80)" by code_simp
  moreover have "strip_brackets (lit ''h'') \<noteq> []" "\<not> list_ex is_ws (lit ''h'')" by code_simp+
  moreover have "setting_in_range sample_settings" by code_simp
  moreover have "GpuSelector_parse (GpuSelector_as_string (cf_gpu_selector sample_settings)) = cf_gpu_selector sample_settings" by code_simp
  ultimately show ?thesis using settings_open_save [of sample_edit_urls "[]" sample_settings "(True, False)" "lit ''h''" 80] by simp
qed

theorem settings_config_bounds_witness: "setting_in_range sample_settings"
  using settings_config_bounds [OF sample_saved] by blast

theorem editor_keeps_servers_witness:
  "distinct (map (server_key sample_edit_urls) (st_servers (press_keys sample_edit_urls
     [KBackTab, KInsert, KChar 120, KEnter, KEsc] (open_settings sample_edit_urls [] sample_settings))))"
proof -
  have "distinct (map (server_key sample_edit_urls) (cf_servers sample_settings))" by code_simp
  moreover have "\<forall>e \<in> set (cf_servers sample_settings). e \<noteq> [] \<and> trimmed e" by code_simp
  ultimately show ?thesis using editor_keeps_servers by (metis (no_types, lifting))
qed

theorem dialog_flags_runtime_witness:
  "mo_flags (settings_server_monitoring sample_edit_urls (open_settings sample_edit_urls [] sample_settings)) =
     map (\<lambda>e. server_key sample_edit_urls e \<in> sv_key ` set (sl_monitored (collect_server_list_with sample_edit_urls (\<lambda>_. sample_proc) sample_settings)))
       [lit ''http://b'', lit ''http://c'']"
proof -
  have "\<forall>e \<in> set (cf_servers sample_settings). trimmed e \<and> e \<noteq> []" by code_simp
  note main = dialog_flags_runtime [OF sample_saved this, of "lit ''http://u:p@h/v1''" "\<lambda>_. sample_proc"]
  have servers: "st_servers (open_settings sample_edit_urls [] sample_settings) = [lit ''http://b'', lit ''http://c'']"
    by (simp add: open_settings_def Let_def split: prod.split)
  show ?thesis
    by (rule main [unfolded Let_def servers, THEN conjunct1]) (code_simp+)
qed

end
