(* ===== verification/Store.thy ===== *)
theory Store
  imports Config Sys
begin

text \<open>
  Saving and loading the configuration, from \<^verbatim>\<open>src/config.rs\<close>: the resolution of the file to
  replace, the private temporary file and the rename.  The filesystem is a map from paths to nodes;
  each call of the operating system may fail, as an argument \<open>fault\<close> decides, and a failed
  write may have written a part.  Every state between two calls is logged, so that a theorem can
  speak of a crash or a reader at any moment.
\<close>

section \<open>The filesystem\<close>

datatype IoError = NotFound | AlreadyExists | OtherIo rstr

datatype Node = Regular rstr nat | Symlink rstr | Directory

type_synonym nodes = "rstr \<rightharpoonup> Node"

datatype SysOp = OpMetadata | OpReadLink | OpMkdir | OpCreate | OpWrite | OpChmod | OpSync | OpRename | OpRemove | OpRead

record Fs =
  fs_nodes :: nodes
  fs_calls :: nat
  fs_log :: "nodes list"

type_synonym faults = "SysOp \<Rightarrow> nat \<Rightarrow> (IoError \<times> nat) option"
type_synonym 'a io = "Fs \<Rightarrow> (IoError + 'a) \<times> Fs"

text \<open>A call: its index decides a fault, which leaves \<open>partial n\<close> of the call's effect.\<close>

definition sys_call :: "faults \<Rightarrow> SysOp \<Rightarrow> (nat \<Rightarrow> nodes \<Rightarrow> nodes) \<Rightarrow> (nodes \<Rightarrow> (IoError + 'a) \<times> nodes) \<Rightarrow> 'a io" where
  "sys_call fault oper partial act s = (let
       (r, m) = (case fault oper (fs_calls s) of Some (e, n) \<Rightarrow> (Inl e, partial n (fs_nodes s)) | None \<Rightarrow> act (fs_nodes s))
     in (r, \<lparr>fs_nodes = m, fs_calls = fs_calls s + 1, fs_log = fs_log s @ [m]\<rparr>))"

definition io_return :: "'a \<Rightarrow> 'a io" where
  "io_return v s = (Inr v, s)"

definition io_fail :: "IoError \<Rightarrow> 'a io" where
  "io_fail e s = (Inl e, s)"

definition io_bind :: "'a io \<Rightarrow> ('a \<Rightarrow> 'b io) \<Rightarrow> 'b io" where
  "io_bind m f s = (case m s of (Inr v, s') \<Rightarrow> f v s' | (Inl e, s') \<Rightarrow> (Inl e, s'))"

text \<open>Running on an error, as \<^verbatim>\<open>match\<close> and \<^verbatim>\<open>if result.is_err()\<close> do.\<close>

definition io_catch :: "'a io \<Rightarrow> (IoError \<Rightarrow> 'a io) \<Rightarrow> 'a io" where
  "io_catch m f s = (case m s of (Inr v, s') \<Rightarrow> (Inr v, s') | (Inl e, s') \<Rightarrow> f e s')"

definition io_ignore :: "'a io \<Rightarrow> unit io" where
  "io_ignore m s = (case m s of (_, s') \<Rightarrow> (Inr (), s'))"

definition symlink_metadata :: "faults \<Rightarrow> rstr \<Rightarrow> Node io" where
  "symlink_metadata fault p = sys_call fault OpMetadata (\<lambda>_ m. m)
     (\<lambda>m. (case m p of Some node \<Rightarrow> Inr node | None \<Rightarrow> Inl NotFound, m))"

definition read_link :: "faults \<Rightarrow> rstr \<Rightarrow> rstr io" where
  "read_link fault p = sys_call fault OpReadLink (\<lambda>_ m. m)
     (\<lambda>m. (case m p of Some (Symlink t) \<Rightarrow> Inr t | Some _ \<Rightarrow> Inl (OtherIo (lit ''invalid argument'')) | None \<Rightarrow> Inl NotFound, m))"

definition create_new :: "faults \<Rightarrow> rstr \<Rightarrow> nat \<Rightarrow> unit io" where
  "create_new fault p mode = sys_call fault OpCreate (\<lambda>_ m. m)
     (\<lambda>m. if m p = None then (Inr (), m(p \<mapsto> Regular [] mode)) else (Inl AlreadyExists, m))"

text \<open>Writing goes to the open file; a fault leaves a prefix of what was to be written.\<close>

definition with_regular :: "rstr \<Rightarrow> (rstr \<Rightarrow> nat \<Rightarrow> Node) \<Rightarrow> nodes \<Rightarrow> nodes" where
  "with_regular p f m = (case m p of Some (Regular text mode) \<Rightarrow> m(p \<mapsto> f text mode) | _ \<Rightarrow> m)"

definition write_all :: "faults \<Rightarrow> rstr \<Rightarrow> rstr \<Rightarrow> unit io" where
  "write_all fault p contents = sys_call fault OpWrite (\<lambda>n. with_regular p (\<lambda>text mode. Regular (text @ take n contents) mode))
     (\<lambda>m. (Inr (), with_regular p (\<lambda>text mode. Regular (text @ contents) mode) m))"

definition set_permissions :: "faults \<Rightarrow> rstr \<Rightarrow> nat \<Rightarrow> unit io" where
  "set_permissions fault p mode = sys_call fault OpChmod (\<lambda>_ m. m)
     (\<lambda>m. if m p = None then (Inl NotFound, m) else (Inr (), with_regular p (\<lambda>text _. Regular text mode) m))"

definition sync_all :: "faults \<Rightarrow> unit io" where
  "sync_all fault = sys_call fault OpSync (\<lambda>_ m. m) (\<lambda>m. (Inr (), m))"

definition rename :: "faults \<Rightarrow> rstr \<Rightarrow> rstr \<Rightarrow> unit io" where
  "rename fault p q = sys_call fault OpRename (\<lambda>_ m. m)
     (\<lambda>m. case m p of None \<Rightarrow> (Inl NotFound, m) | Some node \<Rightarrow>
        if m q = Some Directory then (Inl (OtherIo (lit ''is a directory'')), m) else (Inr (), m(p := None, q \<mapsto> node)))"

definition remove_file :: "faults \<Rightarrow> rstr \<Rightarrow> unit io" where
  "remove_file fault p = sys_call fault OpRemove (\<lambda>_ m. m)
     (\<lambda>m. if m p = None then (Inl NotFound, m) else (Inr (), m(p := None)))"

section \<open>Paths\<close>

text \<open>
  A path without its trailing slashes, split after its last slash; \<^verbatim>\<open>with_file_name\<close> and
  \<^verbatim>\<open>parent\<close> are read off it.
\<close>

definition path_dir :: "rstr \<Rightarrow> rstr" where
  "path_dir p = trim_end_by (\<lambda>c. c \<noteq> 47) (trim_end_by (\<lambda>c. c = 47) p)"

definition path_parent :: "rstr \<Rightarrow> rstr option" where
  "path_parent p = (if trim_end_by (\<lambda>c. c = 47) p = [] then None
     else Some (let d = path_dir p; t = trim_end_by (\<lambda>c. c = 47) d in if t = [] then d else t))"

definition path_name :: "rstr \<Rightarrow> rstr option" where
  "path_name p = (let q = trim_end_by (\<lambda>c. c = 47) p; n = drop (length (path_dir p)) q in
     if n = [] \<or> n = lit ''..'' then None else Some n)"

text \<open>The directory and those above it, the topmost first.\<close>

fun ancestors :: "nat \<Rightarrow> rstr \<Rightarrow> rstr list" where
  "ancestors 0 p = [p]"
| "ancestors (Suc n) p = (case path_parent p of None \<Rightarrow> [p] | Some q \<Rightarrow> if q = [] \<or> q = p then [p] else ancestors n q @ [p])"

definition create_dir_all :: "faults \<Rightarrow> rstr \<Rightarrow> unit io" where
  "create_dir_all fault p = sys_call fault OpMkdir (\<lambda>_ m. m) (\<lambda>m.
     if list_ex (\<lambda>q. case m q of Some (Regular _ _) \<Rightarrow> True | _ \<Rightarrow> False) (ancestors (length p) p)
     then (Inl (OtherIo (lit ''not a directory'')), m)
     else (Inr (), fold (\<lambda>q m. if m q = None then m(q \<mapsto> Directory) else m) (ancestors (length p) p) m))"

section \<open>Saving\<close>

text \<open>\<open>canon\<close> is \<^verbatim>\<open>fs::canonicalize\<close>, which follows the links or fails.\<close>

definition follow_link :: "rstr \<Rightarrow> rstr \<Rightarrow> rstr" where
  "follow_link current target = path_join (case path_parent current of Some d \<Rightarrow> d | None \<Rightarrow> lit ''.'') target"

fun resolve_hops :: "faults \<Rightarrow> (nodes \<Rightarrow> rstr \<Rightarrow> IoError + rstr) \<Rightarrow> nat \<Rightarrow> rstr \<Rightarrow> rstr io" where
  "resolve_hops fault canon 0 current = (\<lambda>s. (canon (fs_nodes s) current, s))"
| "resolve_hops fault canon (Suc n) current = (\<lambda>s. case symlink_metadata fault current s of
     (Inl NotFound, s) \<Rightarrow> (Inr current, s)
   | (Inl e, s) \<Rightarrow> (Inl e, s)
   | (Inr (Symlink _), s) \<Rightarrow> io_bind (read_link fault current) (\<lambda>target. resolve_hops fault canon n (follow_link current target)) s
   | (Inr _, s) \<Rightarrow> (Inr current, s))"

definition resolve_save_target :: "faults \<Rightarrow> (nodes \<Rightarrow> rstr \<Rightarrow> IoError + rstr) \<Rightarrow> rstr \<Rightarrow> rstr io" where
  "resolve_save_target fault canon p = resolve_hops fault canon 16 p"

definition atomic_temp_path :: "u32 \<Rightarrow> u64 \<Rightarrow> rstr \<Rightarrow> rstr" where
  "atomic_temp_path pid counter p = path_dir p @ lit ''.'' @ (case path_name p of Some n \<Rightarrow> n | None \<Rightarrow> lit ''config'') @ lit ''.tmp.'' @ show_word pid @
     lit ''.'' @ show_word counter"

definition PRIVATE_MODE :: nat where "PRIVATE_MODE = 384"

definition apply_target_permissions :: "faults \<Rightarrow> rstr \<Rightarrow> unit io" where
  "apply_target_permissions fault tmp = set_permissions fault tmp PRIVATE_MODE"

definition create_private_temp :: "faults \<Rightarrow> rstr \<Rightarrow> unit io" where
  "create_private_temp fault tmp = create_new fault tmp PRIVATE_MODE"

definition write_and_rename :: "faults \<Rightarrow> rstr \<Rightarrow> rstr \<Rightarrow> rstr \<Rightarrow> unit io" where
  "write_and_rename fault p tmp contents =
     io_bind (write_all fault tmp contents) (\<lambda>_.
     io_bind (apply_target_permissions fault tmp) (\<lambda>_.
     io_bind (sync_all fault) (\<lambda>_.
     io_bind (rename fault tmp p) (\<lambda>_.
     io_ignore (sync_all fault)))))"

definition replace_file_atomically :: "faults \<Rightarrow> rstr \<Rightarrow> rstr \<Rightarrow> rstr \<Rightarrow> unit io" where
  "replace_file_atomically fault p tmp contents =
     io_bind (create_private_temp fault tmp) (\<lambda>_.
     io_catch (write_and_rename fault p tmp contents) (\<lambda>e.
       io_bind (io_ignore (remove_file fault tmp)) (\<lambda>_. io_fail e)))"

text \<open>The process id, the counter of temporary names, and the attempts left.\<close>

fun save_attempts :: "faults \<Rightarrow> u32 \<Rightarrow> u64 \<Rightarrow> nat \<Rightarrow> rstr \<Rightarrow> rstr \<Rightarrow> unit io" where
  "save_attempts fault pid counter 0 target contents = io_fail AlreadyExists"
| "save_attempts fault pid counter (Suc n) target contents =
     io_catch (replace_file_atomically fault target (atomic_temp_path pid counter target) contents) (\<lambda>e.
       if e = AlreadyExists then save_attempts fault pid (counter + 1) n target contents else io_fail e)"

definition save_to_path ::
  "('u, 'z) url_api_scheme \<Rightarrow> json_strings \<Rightarrow> faults \<Rightarrow> (nodes \<Rightarrow> rstr \<Rightarrow> IoError + rstr) \<Rightarrow> u32 \<Rightarrow> u64 \<Rightarrow> rstr \<Rightarrow> AppConfig \<Rightarrow> unit io" where
  "save_to_path api js fault canon pid counter p config =
     io_bind (resolve_save_target fault canon p) (\<lambda>target.
     io_bind (case path_parent target of Some parent \<Rightarrow> if parent = [] then io_return () else create_dir_all fault parent
       | None \<Rightarrow> io_return ()) (\<lambda>_.
     save_attempts fault pid counter 8 target (render_config api js config)))"

section \<open>Loading\<close>

datatype ConfigLoadError = Missing | Unreadable rstr

text \<open>Reading follows the links, as the kernel does, at most forty of them.\<close>

fun kernel_follow :: "nodes \<Rightarrow> nat \<Rightarrow> rstr \<Rightarrow> rstr option" where
  "kernel_follow m n p = (case m p of Some (Symlink t) \<Rightarrow> (case n of 0 \<Rightarrow> None | Suc k \<Rightarrow> kernel_follow m k (follow_link p t)) | _ \<Rightarrow> Some p)"

definition read_text :: "faults \<Rightarrow> rstr \<Rightarrow> rstr io" where
  "read_text fault p = sys_call fault OpRead (\<lambda>_ m. m) (\<lambda>m. (case kernel_follow m 40 p of
       None \<Rightarrow> Inl (OtherIo (lit ''too many levels of symbolic links''))
     | Some q \<Rightarrow> (case m q of Some (Regular text _) \<Rightarrow> Inr text | None \<Rightarrow> Inl NotFound
         | Some _ \<Rightarrow> Inl (OtherIo (lit ''is a directory''))), m))"

definition io_error_text :: "IoError \<Rightarrow> rstr" where
  "io_error_text e = (case e of NotFound \<Rightarrow> lit ''not found'' | AlreadyExists \<Rightarrow> lit ''already exists'' | OtherIo t \<Rightarrow> t)"

definition load_from_path ::
  "('u, 'z) url_api_scheme \<Rightarrow> json_strings \<Rightarrow> faults \<Rightarrow> rstr \<Rightarrow> Fs \<Rightarrow> (ConfigLoadError + AppConfig) \<times> Fs" where
  "load_from_path api js fault p s = (case read_text fault p s of
       (Inr text, s) \<Rightarrow> (Inr (parse_config api js text), s)
     | (Inl NotFound, s) \<Rightarrow> (Inl Missing, s)
     | (Inl e, s) \<Rightarrow> (Inl (Unreadable (lit ''could not read saved config at '' @ p @ lit '': '' @ io_error_text e)), s))"

definition load_or_default ::
  "('u, 'z) url_api_scheme \<Rightarrow> json_strings \<Rightarrow> faults \<Rightarrow> rstr \<Rightarrow> Fs \<Rightarrow> (AppConfig \<times> rstr option) \<times> Fs" where
  "load_or_default api js fault p s = (case load_from_path api js fault p s of
       (Inr config, s) \<Rightarrow> ((config, None), s)
     | (Inl Missing, s) \<Rightarrow> ((AppConfig_sanitized api AppConfig_default, None), s)
     | (Inl (Unreadable message), s) \<Rightarrow> ((AppConfig_sanitized api AppConfig_default, Some message), s))"

text \<open>\<open>XDG_CONFIG_HOME\<close>, then \<open>HOME\<close>; an empty variable counts as unset.\<close>

definition config_dir :: "(rstr \<Rightarrow> rstr option) \<Rightarrow> rstr option" where
  "config_dir env = (case opt_nonempty (env (lit ''XDG_CONFIG_HOME'')) of
       Some dir \<Rightarrow> Some (path_join dir (lit ''orsiktop''))
     | None \<Rightarrow> map_option (\<lambda>home. path_join home (lit ''.config/orsiktop'')) (opt_nonempty (env (lit ''HOME''))))"

definition config_path :: "(rstr \<Rightarrow> rstr option) \<Rightarrow> rstr option" where
  "config_path env = map_option (\<lambda>dir. path_join dir (lit ''config'')) (config_dir env)"

definition save ::
  "('u, 'z) url_api_scheme \<Rightarrow> json_strings \<Rightarrow> faults \<Rightarrow> (nodes \<Rightarrow> rstr \<Rightarrow> IoError + rstr) \<Rightarrow> u32 \<Rightarrow> u64 \<Rightarrow> (rstr \<Rightarrow> rstr option) \<Rightarrow>
     AppConfig \<Rightarrow> unit io" where
  "save api js fault canon pid counter env config = (case config_path env of
       None \<Rightarrow> io_fail (OtherIo (lit ''HOME/XDG_CONFIG_HOME is unavailable''))
     | Some p \<Rightarrow> save_to_path api js fault canon pid counter p config)"

section \<open>Weakest preconditions\<close>

text \<open>
  \<open>wp m Q E s\<close>: run at \<open>s\<close>, \<open>m\<close> ends in \<open>Q\<close> when it succeeds and in \<open>E\<close> when it fails.
\<close>

definition wp :: "'a io \<Rightarrow> ('a \<Rightarrow> Fs \<Rightarrow> bool) \<Rightarrow> (IoError \<Rightarrow> Fs \<Rightarrow> bool) \<Rightarrow> Fs \<Rightarrow> bool" where
  "wp m Q E s = (case m s of (Inr v, s') \<Rightarrow> Q v s' | (Inl e, s') \<Rightarrow> E e s')"

lemma wp_return [simp]: "wp (io_return v) Q E = Q v"
  by (rule ext) (simp add: wp_def io_return_def)

lemma wp_fail [simp]: "wp (io_fail e) Q E = E e"
  by (rule ext) (simp add: wp_def io_fail_def)

lemma wp_bind [simp]: "wp (io_bind m f) Q E = wp m (\<lambda>v. wp (f v) Q E) E"
  by (rule ext) (auto simp: wp_def io_bind_def split: prod.split sum.split)

lemma wp_catch [simp]: "wp (io_catch m f) Q E = wp m Q (\<lambda>e. wp (f e) Q E)"
  by (rule ext) (auto simp: wp_def io_catch_def split: prod.split sum.split)

lemma wp_ignore [simp]: "wp (io_ignore m) Q E = wp m (\<lambda>_. Q ()) (\<lambda>_. Q ())"
  by (rule ext) (auto simp: wp_def io_ignore_def split: prod.split sum.split)

lemma wp_mono:
  "wp m Q E s \<Longrightarrow> (\<And>v s'. Q v s' \<Longrightarrow> Q' v s') \<Longrightarrow> (\<And>e s'. E e s' \<Longrightarrow> E' e s') \<Longrightarrow> wp m Q' E' s"
  by (auto simp: wp_def split: prod.splits sum.splits)

text \<open>
  The invariant of a save that replaces \<open>target\<close> with \<open>text\<close> in a filesystem that was \<open>m0\<close>: at
  every logged moment the target holds its old node or the complete new file, and no other node
  that was there has changed.
\<close>

definition moment_ok :: "nodes \<Rightarrow> rstr \<Rightarrow> rstr \<Rightarrow> nodes \<Rightarrow> bool" where
  "moment_ok m0 target text m \<longleftrightarrow> (m target = m0 target \<or> m target = Some (Regular text PRIVATE_MODE)) \<and>
     (\<forall>q. q \<noteq> target \<and> m0 q \<noteq> None \<longrightarrow> m q = m0 q)"

definition saving :: "nodes \<Rightarrow> rstr \<Rightarrow> rstr \<Rightarrow> Fs \<Rightarrow> bool" where
  "saving m0 target text s \<longleftrightarrow> list_all (moment_ok m0 target text) (fs_log s) \<and> moment_ok m0 target text (fs_nodes s)"

lemma wp_call:
  assumes "\<And>e n. fault oper (fs_calls s) = Some (e, n) \<Longrightarrow>
      E e \<lparr>fs_nodes = partial n (fs_nodes s), fs_calls = fs_calls s + 1, fs_log = fs_log s @ [partial n (fs_nodes s)]\<rparr>"
    and "\<And>e m. fault oper (fs_calls s) = None \<Longrightarrow> act (fs_nodes s) = (Inl e, m) \<Longrightarrow>
      E e \<lparr>fs_nodes = m, fs_calls = fs_calls s + 1, fs_log = fs_log s @ [m]\<rparr>"
    and "\<And>v m. fault oper (fs_calls s) = None \<Longrightarrow> act (fs_nodes s) = (Inr v, m) \<Longrightarrow>
      Q v \<lparr>fs_nodes = m, fs_calls = fs_calls s + 1, fs_log = fs_log s @ [m]\<rparr>"
  shows "wp (sys_call fault oper partial act) Q E s"
  using assms by (auto simp: wp_def sys_call_def Let_def split: prod.splits option.splits sum.splits)

section \<open>Atomicity\<close>

definition logged :: "nodes \<Rightarrow> rstr \<Rightarrow> rstr \<Rightarrow> Fs \<Rightarrow> bool" where
  "logged m0 target text s \<longleftrightarrow> list_all (moment_ok m0 target text) (fs_log s)"

text \<open>The new paths other than the target are directories.\<close>

definition tidy :: "nodes \<Rightarrow> rstr \<Rightarrow> nodes \<Rightarrow> bool" where
  "tidy m0 target m \<longleftrightarrow> (\<forall>q. q \<noteq> target \<and> m0 q = None \<and> m q \<noteq> None \<longrightarrow> m q = Some Directory)"

lemma wp_write_and_rename:
  assumes s: "fs_nodes s = m(tmp \<mapsto> Regular [] PRIVATE_MODE)" "m tmp = None" "tmp \<noteq> target" "logged m0 target text s"
    and ok: "\<And>t. moment_ok m0 target text (m(tmp \<mapsto> Regular t PRIVATE_MODE))"
      "moment_ok m0 target text (m(target \<mapsto> Regular text PRIVATE_MODE))"
  shows "wp (write_and_rename fault target tmp text)
    (\<lambda>_ s'. fs_nodes s' = m(target \<mapsto> Regular text PRIVATE_MODE) \<and> logged m0 target text s')
    (\<lambda>_ s'. (\<exists>t. fs_nodes s' = m(tmp \<mapsto> Regular t PRIVATE_MODE)) \<and> logged m0 target text s') s"
proof -
  have upd: "m(tmp := None, target \<mapsto> x) = m(target \<mapsto> x)" for x
    using s(2) by (simp add: fun_upd_idem)
  show ?thesis
    unfolding write_and_rename_def write_all_def apply_target_permissions_def set_permissions_def sync_all_def rename_def
    using s ok upd
    by (auto intro!: wp_call simp: with_regular_def logged_def split: if_splits) (rule exI, rule refl)+
qed

text \<open>Before and after the replacement; \<open>rm_ok\<close> is whether removals succeed.\<close>

definition unsaved :: "nodes \<Rightarrow> rstr \<Rightarrow> rstr \<Rightarrow> bool \<Rightarrow> Fs \<Rightarrow> bool" where
  "unsaved m0 target text rm_ok s \<longleftrightarrow> fs_nodes s target = m0 target \<and> moment_ok m0 target text (fs_nodes s) \<and>
     logged m0 target text s \<and> (rm_ok \<longrightarrow> tidy m0 target (fs_nodes s))"

definition saved :: "nodes \<Rightarrow> rstr \<Rightarrow> rstr \<Rightarrow> bool \<Rightarrow> Fs \<Rightarrow> bool" where
  "saved m0 target text rm_ok s \<longleftrightarrow> fs_nodes s target = Some (Regular text PRIVATE_MODE) \<and> moment_ok m0 target text (fs_nodes s) \<and>
     logged m0 target text s \<and> (rm_ok \<longrightarrow> tidy m0 target (fs_nodes s))"

lemma wp_replace:
  assumes unsaved: "unsaved m0 target text rm_ok s" and tmp: "tmp \<noteq> target"
    and rm: "rm_ok \<longrightarrow> (\<forall>n. fault OpRemove n = None)"
  shows "wp (replace_file_atomically fault target tmp text) (\<lambda>_. saved m0 target text rm_ok) (\<lambda>_. unsaved m0 target text rm_ok) s"
  (is "wp _ ?Q ?E s")
proof -
  let ?m = "fs_nodes s"
  note s = unsaved [unfolded unsaved_def]
  have fresh: "m0 tmp = None" if "?m tmp = None"
    using s that tmp by (auto simp: moment_ok_def)
  have okt: "moment_ok m0 target text (?m(tmp \<mapsto> x))" if "?m tmp = None" for x
    using s fresh [OF that] tmp by (auto simp: moment_ok_def)
  have okn: "moment_ok m0 target text (?m(target \<mapsto> Regular text PRIVATE_MODE))"
    using s by (auto simp: moment_ok_def)
  have body: "wp (io_catch (write_and_rename fault target tmp text) (\<lambda>e. io_bind (io_ignore (remove_file fault tmp)) (\<lambda>_. io_fail e))) ?Q ?E s1"
    if s1: "?m tmp = None" "fs_nodes s1 = ?m(tmp \<mapsto> Regular [] PRIVATE_MODE)" "logged m0 target text s1" for s1
  proof -
    have rest: "wp (remove_file fault tmp) (\<lambda>_. ?E e) (\<lambda>_. ?E e) s2"
      if s2: "fs_nodes s2 = ?m(tmp \<mapsto> Regular t PRIVATE_MODE)" "logged m0 target text s2" for s2 t e
      unfolding remove_file_def
    proof (rule wp_call, goal_cases)
      case (1 e n)
      then show ?case using s2 s tmp rm okt [OF s1(1)] by (auto simp: logged_def unsaved_def)
    next
      case (3 v m)
      then have "m = ?m" using s2 s1(1) by (auto simp: fun_upd_idem)
      then show ?case using s2 s by (simp add: logged_def unsaved_def)
    qed (use s2 in auto)
    have "wp (write_and_rename fault target tmp text) ?Q (\<lambda>e. wp (remove_file fault tmp) (\<lambda>_. ?E e) (\<lambda>_. ?E e)) s1"
      using wp_write_and_rename [OF s1(2,1) tmp s1(3) okt [OF s1(1)] okn]
    proof (rule wp_mono, goal_cases)
      case (1 v s')
      then show ?case using s okn by (auto simp: tidy_def saved_def)
    next
      case (2 e s')
      then show ?case using rest by blast
    qed
    then show ?thesis by simp
  qed
  show ?thesis
    unfolding replace_file_atomically_def create_private_temp_def create_new_def wp_bind
  proof (rule wp_call, goal_cases)
    case (3 v m)
    then show ?case using body [of "\<lparr>fs_nodes = m, fs_calls = fs_calls s + 1, fs_log = fs_log s @ [m]\<rparr>"] okt s
      by (auto simp: logged_def split: if_splits)
  qed (use s in \<open>auto simp: logged_def unsaved_def split: if_splits\<close>)
qed

text \<open>A temporary name ends in a digit and, if the target does, is longer than it.\<close>

lemma show_nat_last: "last (show_nat n) \<noteq> 47 \<and> show_nat n \<noteq> []"
proof -
  have "show_nat n \<noteq> []" by (subst show_nat.simps) simp
  then have "is_digit (last (show_nat n))" using show_nat_digits last_in_set by blast
  then show ?thesis using \<open>show_nat n \<noteq> []\<close> by (auto simp: is_digit_def)
qed

lemma path_split: "trim_end_by (\<lambda>c. c = 47) p = path_dir p @ drop (length (path_dir p)) (trim_end_by (\<lambda>c. c = 47) p)"
proof -
  obtain u where "trim_end_by (\<lambda>c. c = 47) p = path_dir p @ u"
    using trim_end_by_prefix [of "trim_end_by (\<lambda>c. c = 47) p" "\<lambda>c. c \<noteq> 47"] by (auto simp: path_dir_def)
  then show ?thesis by simp
qed

lemma temp_path_other: "atomic_temp_path pid counter p \<noteq> p"
proof
  assume eq: "atomic_temp_path pid counter p = p"
  let ?q = "trim_end_by (\<lambda>c. c = 47) p"
  have "last p \<noteq> 47 \<and> p \<noteq> []"
    using show_nat_last [of "unat counter"] by (subst (1 2) eq [symmetric]) (simp add: atomic_temp_path_def show_word_def)
  then have q: "?q = p" by (simp add: trim_end_by_id)
  define n where "n = drop (length (path_dir p)) p"
  have p: "p = path_dir p @ n" using path_split [of p] by (simp add: q n_def)
  have "length (atomic_temp_path pid counter p) > length p"
  proof (cases "path_name p")
    case None
    then have "n = [] \<or> n = lit ''..''" by (simp add: path_name_def q n_def Let_def split: if_splits)
    then have "length p \<le> length (path_dir p) + 2" by (subst p) (auto simp: lit_def)
    then show ?thesis by (simp add: atomic_temp_path_def None lit_def)
  next
    case (Some m)
    then have "m = n" by (simp add: path_name_def q n_def Let_def split: if_splits)
    then show ?thesis by (simp add: atomic_temp_path_def Some lit_def) (subst p, simp)
  qed
  then show False using eq by simp
qed

lemma wp_attempts:
  "unsaved m0 target text rm_ok s \<Longrightarrow> rm_ok \<longrightarrow> (\<forall>n. fault OpRemove n = None) \<Longrightarrow>
   wp (save_attempts fault pid counter n target text) (\<lambda>_. saved m0 target text rm_ok) (\<lambda>_. unsaved m0 target text rm_ok) s"
proof (induction n arbitrary: counter s)
  case (Suc n)
  show ?case
    unfolding save_attempts.simps wp_catch
    by (rule wp_mono [OF wp_replace [where fault = fault, OF Suc.prems(1) temp_path_other Suc.prems(2)]]) (use Suc.IH Suc.prems(2) in auto)
qed simp

text \<open>The resolution reads, and the directories made are above the target.\<close>

definition unread :: "nodes \<Rightarrow> Fs \<Rightarrow> bool" where
  "unread m0 s \<longleftrightarrow> fs_nodes s = m0 \<and> list_all (\<lambda>m. m = m0) (fs_log s)"

lemma unread_metadata: "unread m0 s \<Longrightarrow> symlink_metadata fault p s = (r, s') \<Longrightarrow> unread m0 s'"
  by (auto simp: symlink_metadata_def sys_call_def unread_def Let_def split: option.splits)

lemma wp_always: "wp m (\<lambda>_. P) (\<lambda>_. P) s \<longleftrightarrow> P (snd (m s))"
  by (auto simp: wp_def split: prod.split sum.split)

lemma wp_resolve: "unread m0 s \<Longrightarrow> wp (resolve_hops fault canon n p) (\<lambda>_. unread m0) (\<lambda>_. unread m0) s"
proof (induction n arbitrary: p s)
  case 0
  then show ?case by (auto simp: wp_def split: sum.split)
next
  case (Suc n)
  obtain r s1 where md: "symlink_metadata fault p s = (r, s1)" by fastforce
  then have s1: "unread m0 s1" using unread_metadata Suc.prems by blast
  have link: "wp (read_link fault p) (\<lambda>t. wp (resolve_hops fault canon n (follow_link p t)) (\<lambda>_. unread m0) (\<lambda>_. unread m0)) (\<lambda>_. unread m0) s1"
    unfolding read_link_def
  proof (rule wp_call, goal_cases)
    case (3 t m)
    then have "unread m0 \<lparr>fs_nodes = m, fs_calls = fs_calls s1 + 1, fs_log = fs_log s1 @ [m]\<rparr>"
      using s1 by (auto simp: unread_def)
    then show ?case by (rule Suc.IH)
  qed (use s1 in \<open>auto simp: unread_def\<close>)
  have "wp (io_bind (read_link fault p) (\<lambda>t. resolve_hops fault canon n (follow_link p t))) (\<lambda>_. unread m0) (\<lambda>_. unread m0) s1"
    using link by simp
  then have "unread m0 (snd (io_bind (read_link fault p) (\<lambda>t. resolve_hops fault canon n (follow_link p t)) s1))"
    unfolding wp_always .
  then show ?case using s1
    by (auto simp: wp_always md split: sum.splits Node.splits IoError.splits)
qed

lemma path_parent_shorter: "path_parent p = Some d \<Longrightarrow> length d < length p"
proof -
  assume d: "path_parent p = Some d"
  let ?q = "trim_end_by (\<lambda>c. c = 47) p"
  have q: "?q \<noteq> []" using d by (auto simp: path_parent_def split: if_splits)
  have lq: "length ?q \<le> length p" using trim_end_by_prefix [of p] by (metis le_add1 length_append)
  have "path_dir p \<noteq> ?q"
    using trim_end_by_last [of "\<lambda>c. c \<noteq> 47" ?q] trim_end_by_last [of "\<lambda>c. c = 47" p] q by (auto simp: path_dir_def)
  then have "length (path_dir p) < length ?q"
    using path_split [of p] by (metis append_Nil2 length_append length_greater_0_conv less_add_same_cancel1)
  moreover have "length (trim_end_by (\<lambda>c. c = 47) (path_dir p)) \<le> length (path_dir p)"
    using trim_end_by_prefix [of "path_dir p"] by (metis le_add1 length_append)
  then have "length d \<le> length (path_dir p)" using d by (auto simp: path_parent_def Let_def split: if_splits)
  ultimately show ?thesis using lq by simp
qed

lemma ancestors_shorter: "q \<in> set (ancestors n p) \<Longrightarrow> length q \<le> length p"
  by (induction n arbitrary: p) (auto split: option.splits if_splits dest!: path_parent_shorter, fastforce)

lemma fold_mkdir: "fold (\<lambda>q m. if m q = None then m(q \<mapsto> Directory) else m) qs m =
   (\<lambda>q. if q \<in> set qs \<and> m q = None then Some Directory else m q)"
  by (induction qs arbitrary: m) (auto simp: fun_eq_iff)

lemma wp_mkdir:
  assumes "unread m0 s" "path_parent target = Some parent"
  shows "wp (create_dir_all fault parent) (\<lambda>_. unsaved m0 target text True) (\<lambda>_. unsaved m0 target text True) s"
proof -
  have "target \<notin> set (ancestors n parent)" for n
    using ancestors_shorter [of target n parent] path_parent_shorter [OF assms(2)] by auto
  then show ?thesis using assms(1)
    unfolding create_dir_all_def fold_mkdir
    by (auto intro!: wp_call simp: unsaved_def unread_def moment_ok_def logged_def tidy_def list_all_iff split: if_splits)
qed

lemma unread_unsaved: "unread m0 s \<Longrightarrow> unsaved m0 target text True s"
  by (auto simp: unread_def unsaved_def moment_ok_def logged_def tidy_def list_all_iff)

abbreviation fs_start :: "nodes \<Rightarrow> Fs" where
  "fs_start m \<equiv> \<lparr>fs_nodes = m, fs_calls = 0, fs_log = []\<rparr>"

lemma wp_save:
  assumes "resolve_save_target fault canon p (fs_start m0) = (Inr target, s1)"
    and rm: "rm_ok \<longrightarrow> (\<forall>n. fault OpRemove n = None)"
  shows "wp (save_to_path api js fault canon pid counter p config)
    (\<lambda>_. saved m0 target (render_config api js config) rm_ok) (\<lambda>_. unsaved m0 target (render_config api js config) rm_ok) (fs_start m0)"
proof -
  let ?text = "render_config api js config"
  have "unread m0 (fs_start m0)" by (simp add: unread_def)
  from wp_resolve [OF this, of fault canon 16 p] have s1: "unread m0 s1"
    using assms(1) by (simp add: wp_def resolve_save_target_def)
  have weaken: "unsaved m0 target ?text True s \<Longrightarrow> unsaved m0 target ?text rm_ok s" for s by (simp add: unsaved_def)
  have dir: "wp (case path_parent target of Some parent \<Rightarrow> if parent = [] then io_return () else create_dir_all fault parent | None \<Rightarrow> io_return ())
      (\<lambda>_. unsaved m0 target ?text rm_ok) (\<lambda>_. unsaved m0 target ?text rm_ok) s1"
    using s1 wp_mono [OF wp_mkdir [OF s1] weaken weaken] unread_unsaved [OF s1, THEN weaken]
    by (auto split: option.split)
  have "wp (io_bind (case path_parent target of Some parent \<Rightarrow> if parent = [] then io_return () else create_dir_all fault parent | None \<Rightarrow> io_return ())
      (\<lambda>_. save_attempts fault pid counter 8 target ?text))
      (\<lambda>_. saved m0 target ?text rm_ok) (\<lambda>_. unsaved m0 target ?text rm_ok) s1"
    unfolding wp_bind by (rule wp_mono [OF dir]) (use wp_attempts [where fault = fault, OF _ rm] in auto)
  then show ?thesis using assms(1) by (simp add: wp_def save_to_path_def io_bind_def)
qed

text \<open>
  C16: a save is atomic.  At every moment between two calls of the operating system, so also after
  a crash or for another reader, the file holds either what it held or the complete new
  configuration in a private file, and nothing else that existed has changed, whatever calls fail
  and however much of a failed write went through; success means the new file is in place, failure
  that the old one still is; and unless a removal fails no temporary file is left behind.
\<close>

theorem save_atomic:
  assumes "save_to_path api js fault canon pid counter p config (fs_start m0) = (r, s')"
    and "resolve_save_target fault canon p (fs_start m0) = (Inr target, s1)"
  shows "let new = Some (Regular (render_config api js config) PRIVATE_MODE) in
    (\<forall>m \<in> set (fs_log s'). (m target = m0 target \<or> m target = new) \<and> (\<forall>q. q \<noteq> target \<and> m0 q \<noteq> None \<longrightarrow> m q = m0 q)) \<and>
    fs_nodes s' target = (case r of Inr _ \<Rightarrow> new | Inl _ \<Rightarrow> m0 target) \<and>
    ((\<forall>n. fault OpRemove n = None) \<longrightarrow> (\<forall>q. q \<noteq> target \<and> m0 q = None \<longrightarrow> fs_nodes s' q \<in> {None, Some Directory}))"
proof -
  have "wp (save_to_path api js fault canon pid counter p config)
      (\<lambda>_. saved m0 target (render_config api js config) (\<forall>n. fault OpRemove n = None))
      (\<lambda>_. unsaved m0 target (render_config api js config) (\<forall>n. fault OpRemove n = None)) (fs_start m0)"
    by (rule wp_save [OF assms(2)]) simp
  then show ?thesis using assms(1)
    by (auto simp: wp_def saved_def unsaved_def logged_def moment_ok_def tidy_def list_all_iff Let_def split: sum.splits)
qed

text \<open>Within its hops the resolution finds the file the kernel would open.\<close>

lemma metadata_ok: "symlink_metadata fault p s = (r, s') \<Longrightarrow>
   fs_nodes s' = fs_nodes s \<and> ((\<exists>e n. fault OpMetadata (fs_calls s) = Some (e, n) \<and> r = Inl e) \<or>
     (case fs_nodes s p of Some node \<Rightarrow> r = Inr node | None \<Rightarrow> r = Inl NotFound))"
  by (auto simp: symlink_metadata_def sys_call_def Let_def split: option.splits)

lemma read_link_ok: "read_link fault p s = (r, s') \<Longrightarrow> fs_nodes s p = Some (Symlink t) \<Longrightarrow>
   fs_nodes s' = fs_nodes s \<and> (r = Inr t \<or> (\<exists>e. r = Inl e))"
  by (auto simp: read_link_def sys_call_def Let_def split: option.splits)

lemma resolve_kernel:
  "kernel_follow (fs_nodes s) n p = Some target \<Longrightarrow> \<forall>k e i. fault OpMetadata k = Some (e, i) \<longrightarrow> e \<noteq> NotFound \<Longrightarrow>
   (case resolve_hops fault canon (Suc n) p s of (Inr t, _) \<Rightarrow> t = target | (Inl _, _) \<Rightarrow> True)"
proof (induction n arbitrary: p s)
  case 0
  obtain r s1 where md: "symlink_metadata fault p s = (r, s1)" by fastforce
  show ?case using metadata_ok [OF md] 0 
    by (auto simp: md split: option.splits Node.splits sum.splits IoError.splits)
next
  case (Suc n)
  obtain r s1 where md: "symlink_metadata fault p s = (r, s1)" by fastforce
  note m = metadata_ok [OF md]
  show ?case
  proof (cases "\<exists>t. fs_nodes s p = Some (Symlink t)")
    case True
    then obtain t where t: "fs_nodes s p = Some (Symlink t)" by blast
    then have f: "kernel_follow (fs_nodes s) n (follow_link p t) = Some target" using Suc.prems(1) by simp
    obtain r2 s2 where rl: "read_link fault p s1 = (r2, s2)" by fastforce
    have s2: "fs_nodes s2 = fs_nodes s \<and> (r2 = Inr t \<or> (\<exists>e. r2 = Inl e))" using read_link_ok [OF rl] m t by simp
    then show ?thesis using m t Suc.prems(2) Suc.IH [of s2 "follow_link p t"] f
      by (auto simp: md rl io_bind_def simp del: kernel_follow.simps resolve_hops.simps(2)
          simp: resolve_hops.simps(2) [of _ _ "Suc n"] split: sum.splits IoError.splits)
  next
    case False
    then show ?thesis using m Suc.prems
      by (auto simp: md simp del: resolve_hops.simps(2) simp: resolve_hops.simps(2) [of _ _ "Suc n"]
          split: option.splits Node.splits sum.splits IoError.splits)
  qed
qed

lemma kernel_follow_end: "kernel_follow m n p = Some t \<Longrightarrow> \<forall>u. m t \<noteq> Some (Symlink u)"
  by (induction m n p rule: kernel_follow.induct) (auto split: option.splits Node.splits nat.splits)

lemma kernel_follow_same:
  assumes "kernel_follow m0 n p = Some t" "\<forall>q. q \<noteq> t \<and> m0 q \<noteq> None \<longrightarrow> m q = m0 q" "m t = Some (Regular text mode)" "n \<le> k"
  shows "kernel_follow m k p = Some t"
  using assms
proof (induction m0 n p arbitrary: k rule: kernel_follow.induct)
  case (1 m0 n p)
  show ?case
  proof (cases "\<exists>u. m0 p = Some (Symlink u)")
    case True
    then obtain u where u: "m0 p = Some (Symlink u)" by blast
    then obtain n' where n: "n = Suc n'" using 1(2) by (cases n) auto
    have "p \<noteq> t" using kernel_follow_end [OF 1(2)] u by blast
    then have "m p = Some (Symlink u)" using 1(3) u by simp
    moreover obtain k' where "k = Suc k'" "n' \<le> k'" using n 1(5) by (cases k) auto
    ultimately show ?thesis using 1(1) [OF u refl n] 1(2-4) u n by simp
  next
    case False
    then have "p = t" using 1(2) by (auto split: option.splits Node.splits)
    then show ?thesis using 1(4) by simp
  qed
qed


text \<open>A save whose write fails half way, and one that succeeds.\<close>

definition failing_write :: faults where
  "failing_write oper n = (if oper = OpWrite then Some (OtherIo (lit ''no space''), 3) else None)"

theorem save_atomic_witness:
  "let (r, s') = save_to_path sample_urls sample_json_strings failing_write (\<lambda>_. Inr) 7 0 (lit ''/c'') AppConfig_default
       (fs_start [lit ''/c'' \<mapsto> Regular (lit ''old'') 420])
   in (\<exists>e. r = Inl e) \<and> fs_nodes s' (lit ''/c'') = Some (Regular (lit ''old'') 420)"
proof -
  obtain r s' where run: "save_to_path sample_urls sample_json_strings failing_write (\<lambda>_. Inr) 7 0 (lit ''/c'') AppConfig_default
       (fs_start [lit ''/c'' \<mapsto> Regular (lit ''old'') 420]) = (r, s')" by fastforce
  have "fst (save_to_path sample_urls sample_json_strings failing_write (\<lambda>_. Inr) 7 0 (lit ''/c'') AppConfig_default
       (fs_start [lit ''/c'' \<mapsto> Regular (lit ''old'') 420])) = Inl (OtherIo (lit ''no space''))" by code_simp
  then have r: "r = Inl (OtherIo (lit ''no space''))" by (simp add: run)
  have "fst (resolve_save_target failing_write (\<lambda>_. Inr) (lit ''/c'') (fs_start [lit ''/c'' \<mapsto> Regular (lit ''old'') 420])) = Inr (lit ''/c'')"
    by code_simp
  then obtain s1 where t: "resolve_save_target failing_write (\<lambda>_. Inr) (lit ''/c'')
      (fs_start [lit ''/c'' \<mapsto> Regular (lit ''old'') 420]) = (Inr (lit ''/c''), s1)" by (metis prod.collapse)
  show ?thesis using save_atomic [OF run t] r by (simp add: run Let_def)
qed


end
