(* ===== verification/History.thy ===== *)
theory History
  imports Monitor
begin

text \<open>
  The bounded sixty-second histories behind the graphs and the per-server LLM history of the
  interface, from \<^verbatim>\<open>src/ui/history.rs\<close>, \<^verbatim>\<open>src/ui/state_llm.rs\<close> and
  \<^verbatim>\<open>src/ui/widgets.rs\<close>.  A deque is a list with its front first; the reading of the
  clock an operation makes is its argument \<open>now\<close>.
\<close>

section \<open>Percentages\<close>

definition clamp_percent :: "f64 \<Rightarrow> f64" where
  "clamp_percent v = (if is_finite v then fclamp (Fin 0) (Fin 100) v else Fin 0)"

definition percent :: "f64 \<Rightarrow> f64 \<Rightarrow> f64" where
  "percent part whole = (if is_finite part \<and> is_finite whole \<and> Fin 0 < whole
     then clamp_percent (fmul (fdiv part whole) (Fin 100)) else Fin 0)"

lemma clamp_percent_bounds:
  "Fin 0 \<le> clamp_percent v \<and> clamp_percent v \<le> Fin 100"
  using fclamp_in_range [of "Fin 0" "Fin 100" v] by (cases v) (auto simp: clamp_percent_def)

section \<open>Bounded histories\<close>

definition HISTORY_WINDOW :: duration where "HISTORY_WINDOW = secs 60"
definition HISTORY_MAX_SAMPLES :: nat where "HISTORY_MAX_SAMPLES = 720"

record TimedSample =
  ts_at :: instant
  ts_value :: f64

text \<open>\<^verbatim>\<open>now.saturating_duration_since(at) > HISTORY_WINDOW\<close>, and the two eviction loops.\<close>

definition expired :: "instant \<Rightarrow> TimedSample \<Rightarrow> bool" where
  "expired now s \<longleftrightarrow> HISTORY_WINDOW < now - ts_at s"

definition evict :: "instant \<Rightarrow> TimedSample list \<Rightarrow> TimedSample list" where
  "evict now h = (let h = dropWhile (expired now) h in drop (length h - HISTORY_MAX_SAMPLES) h)"

definition push_history_at :: "TimedSample list \<Rightarrow> f64 \<Rightarrow> instant \<Rightarrow> TimedSample list" where
  "push_history_at h value now = (if \<not> is_finite value then h
     else evict now (h @ [\<lparr>ts_at = now, ts_value = clamp_percent value\<rparr>]))"

definition push_metric_history_at :: "TimedSample list \<Rightarrow> f64 \<Rightarrow> instant \<Rightarrow> TimedSample list" where
  "push_metric_history_at h value now = (if \<not> is_finite value then h
     else evict now (h @ [\<lparr>ts_at = now, ts_value = fmax value (Fin 0)\<rparr>]))"

definition latest_history_value :: "TimedSample list \<Rightarrow> instant option \<Rightarrow> instant \<Rightarrow> f64 option" where
  "latest_history_value h observed_at now = (if h = [] then None else let latest = last h in
     if is_finite (ts_value latest) \<and> \<not> expired now latest \<and> is_none_or (\<lambda>a. a \<le> ts_at latest) observed_at
     then Some (ts_value latest) else None)"

definition llm_rate_history_has_activity :: "TimedSample list \<Rightarrow> instant \<Rightarrow> bool" where
  "llm_rate_history_has_activity h now \<longleftrightarrow>
     list_ex (\<lambda>s. \<not> expired now s \<and> is_finite (ts_value s) \<and> ACTIVE_RATE < ts_value s) h"

definition history_max :: "TimedSample list \<Rightarrow> instant \<Rightarrow> f64" where
  "history_max h now = foldl fmax (Fin 0) (filter is_finite (map ts_value (filter (\<lambda>s. \<not> expired now s) h)))"

section \<open>The contract of a bounded history\<close>

text \<open>
  What the graphs rely on, whichever of the two push functions fed the history: a value that is
  not finite is not recorded, and a finite one is appended, normalised, before the expired
  prefix and the excess are dropped.
\<close>

locale bounded_history =
  fixes push :: "TimedSample list \<Rightarrow> f64 \<Rightarrow> instant \<Rightarrow> TimedSample list"
    and keep :: "f64 \<Rightarrow> f64"
    and good :: "f64 \<Rightarrow> bool"
  assumes push_skip: "\<not> is_finite v \<Longrightarrow> push h v now = h"
    and push_finite: "is_finite v \<Longrightarrow> push h v now = evict now (h @ [\<lparr>ts_at = now, ts_value = keep v\<rparr>])"
    and keep_good: "is_finite v \<Longrightarrow> good (keep v)"

text \<open>The history a series of readings leaves, and the readings that enter one.\<close>

definition run_pushes ::
  "(TimedSample list \<Rightarrow> f64 \<Rightarrow> instant \<Rightarrow> TimedSample list) \<Rightarrow> (instant \<times> f64) list \<Rightarrow> TimedSample list" where
  "run_pushes push xs = foldl (\<lambda>h (now, v). push h v now) [] xs"

definition recorded :: "(f64 \<Rightarrow> f64) \<Rightarrow> (instant \<times> f64) list \<Rightarrow> TimedSample list" where
  "recorded keep xs = map (\<lambda>(now, v). \<lparr>ts_at = now, ts_value = keep v\<rparr>) (filter (\<lambda>x. is_finite (snd x)) xs)"

definition last_n :: "nat \<Rightarrow> 'a list \<Rightarrow> 'a list" where
  "last_n n xs = drop (length xs - n) xs"

text \<open>The window of a series: its last readings, none older than sixty seconds at the last one.\<close>

definition window_of :: "TimedSample list \<Rightarrow> TimedSample list" where
  "window_of r = (if r = [] then []
     else last_n HISTORY_MAX_SAMPLES (filter (\<lambda>s. \<not> expired (ts_at (last r)) s) r))"

lemma length_last_n [simp]: "length (last_n n xs) = min n (length xs)"
  by (simp add: last_n_def)

lemma set_last_n: "set (last_n n xs) \<subseteq> set xs"
  by (simp add: last_n_def set_drop_subset)

lemma last_n_suffix: "length ys = n \<Longrightarrow> last_n n (xs @ ys @ [x]) = last_n n (ys @ [x])"
  by (cases "n = 0") (simp_all add: last_n_def)

lemma expired_mono: "expired now s \<Longrightarrow> ts_at t \<le> ts_at s \<Longrightarrow> expired now t"
  by (auto simp: expired_def)

lemma dropWhile_expired:
  "sorted (map ts_at h) \<Longrightarrow> dropWhile (expired now) h = filter (\<lambda>s. \<not> expired now s) h"
proof (induction h)
  case (Cons s h)
  show ?case
  proof (cases "expired now s")
    case False
    then have "\<forall>t \<in> set (s # h). \<not> expired now t" using Cons.prems expired_mono by auto
    then have "filter (\<lambda>t. \<not> expired now t) (s # h) = s # h" by (rule filter_True)
    then show ?thesis using False by simp
  qed (use Cons in auto)
qed simp

lemma filter_last_n:
  assumes "sorted (map ts_at h)"
  shows "last_n n (filter (\<lambda>s. \<not> expired now s) (last_n n h) @ [x]) = last_n n (filter (\<lambda>s. \<not> expired now s) h @ [x])"
proof -
  let ?P = "\<lambda>s. \<not> expired now s"
  define j where "j = length h - n"
  have split: "filter ?P h = filter ?P (take j h) @ filter ?P (last_n n h)"
    by (simp add: last_n_def j_def flip: filter_append)
  show ?thesis
  proof (cases "filter ?P (take j h) = []")
    case False
    then obtain s where s: "s \<in> set (take j h)" "?P s" by (auto simp: filter_empty_conv)
    then have "0 < j" by (cases j) auto
    then have "length (last_n n h) = n" by (simp add: j_def)
    have "sorted (map ts_at (take j h @ drop j h))" using assms by simp
    then have "\<forall>t \<in> set (drop j h). ts_at s \<le> ts_at t"
      using s(1) unfolding map_append sorted_append by auto
    then have "filter ?P (last_n n h) = last_n n h"
      using s(2) expired_mono unfolding last_n_def j_def [symmetric] by (intro filter_True) blast
    then show ?thesis using split \<open>length (last_n n h) = n\<close> by (simp add: last_n_suffix)
  qed (simp add: split)
qed

lemma evict_sorted:
  "sorted (map ts_at h) \<Longrightarrow> evict now h = last_n HISTORY_MAX_SAMPLES (filter (\<lambda>s. \<not> expired now s) h)"
  by (simp add: evict_def last_n_def dropWhile_expired Let_def)

lemma sorted_recorded: "sorted (map fst xs) \<Longrightarrow> sorted (map ts_at (recorded keep xs))"
  by (induction xs) (auto simp: recorded_def)

lemma recorded_snoc:
  "recorded keep (xs @ [(now, v)]) =
     recorded keep xs @ (if is_finite v then [\<lparr>ts_at = now, ts_value = keep v\<rparr>] else [])"
  by (simp add: recorded_def)

lemma sorted_window_of: "sorted (map ts_at r) \<Longrightarrow> sorted (map ts_at (window_of r))"
  by (auto simp: window_of_def last_n_def drop_map intro!: sorted_filter simp flip: drop_map intro: sorted_wrt_drop)

context bounded_history
begin

theorem pushes_window:
  assumes "sorted (map fst xs)"
  shows "run_pushes push xs = window_of (recorded keep xs)"
  using assms
proof (induction xs rule: rev_induct)
  case (snoc x xs)
  obtain now v where x: "x = (now, v)" by (cases x)
  have IH: "run_pushes push xs = window_of (recorded keep xs)" using snoc by (simp add: sorted_append)
  let ?r = "recorded keep xs"
  let ?f = "\<lambda>now. filter (\<lambda>s. \<not> expired now s)"
  let ?x = "\<lparr>ts_at = now, ts_value = keep v\<rparr>"
  have srt: "sorted (map ts_at ?r)" using snoc.prems by (simp add: sorted_append sorted_recorded)
  have le: "\<forall>s \<in> set ?r. ts_at s \<le> now" using snoc.prems by (auto simp: recorded_def x sorted_append)
  show ?case
  proof (cases "is_finite v")
    case True
    have run: "run_pushes push (xs @ [x]) = evict now (window_of ?r @ [?x])"
      using True IH by (simp add: run_pushes_def x push_finite)
    have sub: "set (window_of ?r) \<subseteq> set ?r" by (auto simp: window_of_def dest: subsetD [OF set_last_n])
    have nx: "\<not> expired now ?x" by (simp add: expired_def)
    have "sorted (map ts_at (window_of ?r @ [?x]))"
      using sorted_window_of [OF srt] sub le by (auto simp: sorted_append)
    then have "evict now (window_of ?r @ [?x]) = last_n HISTORY_MAX_SAMPLES (?f now (window_of ?r) @ [?x])"
      using nx by (simp add: evict_sorted)
    also have "\<dots> = last_n HISTORY_MAX_SAMPLES (?f now ?r @ [?x])"
    proof (cases "?r = []")
      case False
      let ?h = "?f (ts_at (last ?r)) ?r"
      have "last_n HISTORY_MAX_SAMPLES (?f now (last_n HISTORY_MAX_SAMPLES ?h) @ [?x])
          = last_n HISTORY_MAX_SAMPLES (?f now ?h @ [?x])"
        by (rule filter_last_n) (rule sorted_filter [OF srt])
      also have "?f now ?h = ?f now ?r" using le last_in_set [OF False] by (auto simp: expired_def intro!: filter_cong)
      finally show ?thesis using False by (simp add: window_of_def)
    qed (simp add: window_of_def)
    also have "\<dots> = window_of (?r @ [?x])" using nx by (simp add: window_of_def)
    finally show ?thesis using True run by (simp add: x recorded_snoc)
  qed (use IH in \<open>simp add: run_pushes_def x push_skip recorded_snoc\<close>)
qed (simp add: run_pushes_def recorded_def window_of_def)

theorem pushes_bounded:
  "length (run_pushes push xs) \<le> HISTORY_MAX_SAMPLES \<and> (\<forall>s \<in> set (run_pushes push xs). good (ts_value s))"
proof (induction xs rule: rev_induct)
  case (snoc x xs)
  obtain now v where x: "x = (now, v)" by (cases x)
  have "set (evict now h) \<subseteq> set h" for h
    by (auto simp: evict_def Let_def dest: in_set_dropD set_dropWhileD)
  then show ?case using snoc keep_good [of v]
    by (cases "is_finite v") (fastforce simp: run_pushes_def x push_skip push_finite evict_def Let_def)+
qed (simp add: run_pushes_def)

end


interpretation ph: bounded_history push_history_at clamp_percent "\<lambda>v. Fin 0 \<le> v \<and> v \<le> Fin 100"
  by unfold_locales (auto simp: push_history_at_def clamp_percent_bounds)

interpretation pm: bounded_history push_metric_history_at "\<lambda>v. fmax v (Fin 0)" "\<lambda>v. Fin 0 \<le> v \<and> is_finite v"
  by unfold_locales (auto simp: push_metric_history_at_def fmax_ge, auto simp: fmax_def is_finite_iff)

section \<open>The history of one server\<close>

definition EMA_ALPHA :: f64 where
  "EMA_ALPHA = rnd (1 / 5)"

definition smooth_llm_sample_interval :: "f64 option \<Rightarrow> f64 \<Rightarrow> f64 option" where
  "smooth_llm_sample_interval previous_ms current_ms =
     (if \<not> is_finite current_ms \<or> current_ms \<le> Fin 0 then previous_ms
      else let current_ms = fclamp (Fin 1) (Fin 60000) current_ms in
        Some (case opt_filter (\<lambda>v. is_finite v \<and> Fin 0 < v) previous_ms of
            Some previous \<Rightarrow> fadd (fmul previous (fsub (Fin 1) EMA_ALPHA)) (fmul current_ms EMA_ALPHA)
          | None \<Rightarrow> current_ms))"

record LlmHistory =
  prefill :: "TimedSample list"
  decode :: "TimedSample list"
  last_fresh_at :: "instant option"
  last_observed_at :: "instant option"
  sample_interval_ema_ms :: "f64 option"
  connected_since :: "instant option"
  connected_flash_until :: "instant option"
  was_connected :: bool

definition LlmHistory_default :: LlmHistory where
  "LlmHistory_default = \<lparr>prefill = [], decode = [], last_fresh_at = None, last_observed_at = None,
     sample_interval_ema_ms = None, connected_since = None, connected_flash_until = None, was_connected = False\<rparr>"

definition push_rate :: "f64 option \<Rightarrow> instant \<Rightarrow> TimedSample list \<Rightarrow> TimedSample list" where
  "push_rate rate now h = (case rate of Some v \<Rightarrow> push_metric_history_at h v now | None \<Rightarrow> h)"

definition observe_llm_into :: "LlmHistory \<Rightarrow> LlmStats \<Rightarrow> instant \<Rightarrow> LlmHistory" where
  "observe_llm_into history llm now = (let history = history\<lparr>last_observed_at := Some now\<rparr> in
     if connected llm \<and> \<not> reconnecting llm then
       let history =
             (if \<not> was_connected history then history\<lparr>connected_since := Some now,
                connected_flash_until := Some (now + secs 2), sample_interval_ema_ms := None\<rparr>
              else case last_fresh_at history of
                Some previous \<Rightarrow> history\<lparr>sample_interval_ema_ms :=
                  smooth_llm_sample_interval (sample_interval_ema_ms history)
                    (fmul (as_secs_f64 (now - previous)) (Fin 1000))\<rparr>
              | None \<Rightarrow> history);
           history = history\<lparr>was_connected := True, last_fresh_at := Some now\<rparr>
       in if metrics_available llm then
            history\<lparr>prefill := push_rate (prompt_tps llm) now (prefill history),
              decode := push_rate (generation_tps llm) now (decode history)\<rparr>
          else history
     else if \<not> connected llm then
       history\<lparr>was_connected := False, connected_since := None, connected_flash_until := None\<rparr>
     else history)"

section \<open>What the histories hold\<close>

text \<open>
  readings taken in the order of the clock leave exactly the window: of the finite readings,
  normalised, those no older than sixty seconds when the last of them was taken, and of these the
  last 720.
\<close>

theorem history_is_window:
  assumes "sorted (map fst xs)"
  shows "run_pushes push_metric_history_at xs = window_of (recorded (\<lambda>v. fmax v (Fin 0)) xs) \<and>
    run_pushes push_history_at xs = window_of (recorded clamp_percent xs)"
  using pm.pushes_window [OF assms] ph.pushes_window [OF assms] by simp

theorem history_is_window_witness:
  "run_pushes push_metric_history_at [(0, Fin 4), (5, NaN), (secs 61, Fin (- 1))] =
     window_of (recorded (\<lambda>v. fmax v (Fin 0)) [(0, Fin 4), (5, NaN), (secs 61, Fin (- 1))])"
  by (rule history_is_window [THEN conjunct1]) simp

lemma evict_snoc: "evict now (h @ [\<lparr>ts_at = now, ts_value = v\<rparr>]) \<noteq> [] \<and>
    last (evict now (h @ [\<lparr>ts_at = now, ts_value = v\<rparr>])) = \<lparr>ts_at = now, ts_value = v\<rparr>"
proof -
  let ?x = "\<lparr>ts_at = now, ts_value = v\<rparr>"
  have "\<not> expired now ?x" by (simp add: expired_def)
  then have "\<exists>h'. dropWhile (expired now) (h @ [?x]) = h' @ [?x]" by (induction h) auto
  then obtain h' where "dropWhile (expired now) (h @ [?x]) = h' @ [?x]" by blast
  then show ?thesis by (simp add: evict_def Let_def HISTORY_MAX_SAMPLES_def)
qed

text \<open>
  the number that labels a rate graph is the rate the server's last observation carried, and
  there is none when that observation carried no finite rate, whatever older points the graph
  still shows.
\<close>

theorem latest_rate_is_current:
  assumes "\<forall>s \<in> set (decode h). ts_at s < t" "t \<le> now" "now - t \<le> HISTORY_WINDOW"
  shows "latest_history_value (decode (observe_llm_into h llm t)) (last_observed_at (observe_llm_into h llm t)) now =
    (if connected llm \<and> \<not> reconnecting llm \<and> metrics_available llm
     then map_option (\<lambda>v. fmax v (Fin 0)) (opt_filter is_finite (generation_tps llm)) else None)"
proof -
  have obs: "last_observed_at (observe_llm_into h llm t) = Some t"
    by (auto simp: observe_llm_into_def Let_def split: option.split)
  have dec: "decode (observe_llm_into h llm t) = (if connected llm \<and> \<not> reconnecting llm \<and> metrics_available llm
      then push_rate (generation_tps llm) t (decode h) else decode h)"
    by (auto simp: observe_llm_into_def Let_def split: option.split)
  have old: "latest_history_value (decode h) (Some t) now = None"
    using assms(1) by (cases "decode h" rule: rev_cases) (auto simp: latest_history_value_def is_none_or_def Let_def)
  let ?live = "connected llm \<and> \<not> reconnecting llm \<and> metrics_available llm"
  show ?thesis
  proof (cases "?live \<and> (\<exists>v. generation_tps llm = Some v \<and> is_finite v)")
    case True
    then obtain v where v: "generation_tps llm = Some v" "is_finite v" by blast
    have "decode (observe_llm_into h llm t) = evict t (decode h @ [\<lparr>ts_at = t, ts_value = fmax v (Fin 0)\<rparr>])"
      using True v by (simp add: dec push_rate_def push_metric_history_at_def)
    then show ?thesis
      using True v assms(2,3) pm.keep_good [of v] evict_snoc [of t "decode h" "fmax v (Fin 0)"]
      by (simp add: obs latest_history_value_def is_none_or_def expired_def opt_filter_def)
  next
    case False
    then have "decode (observe_llm_into h llm t) = decode h"
      by (auto simp: dec push_rate_def push_metric_history_at_def split: option.split)
    moreover have "\<not> ?live \<or> opt_filter is_finite (generation_tps llm) = None"
      using False by (auto simp: opt_filter_def split: option.split)
    ultimately show ?thesis using old by (auto simp: obs)
  qed
qed

theorem latest_rate_is_current_witness:
  "let h = LlmHistory_default\<lparr>decode := [\<lparr>ts_at = 3, ts_value = Fin 9\<rparr>]\<rparr>
    in latest_history_value (decode (observe_llm_into h LlmStats_default 8)) (last_observed_at (observe_llm_into h LlmStats_default 8)) 9 = None"
  using latest_rate_is_current [of "LlmHistory_default\<lparr>decode := [\<lparr>ts_at = 3, ts_value = Fin 9\<rparr>]\<rparr>" 8 9 LlmStats_default]
  by (simp add: HISTORY_WINDOW_def LlmStats_default_def Let_def)

section \<open>The histories of the interface\<close>

record UiLlm =
  llm_history :: LlmHistory
  llm_histories :: "rstr \<rightharpoonup> LlmHistory"
  llm_history_key :: rstr

definition UiLlm_default :: UiLlm where
  "UiLlm_default = \<lparr>llm_history = LlmHistory_default, llm_histories = Map.empty, llm_history_key = []\<rparr>"

definition history_or_default :: "(rstr \<rightharpoonup> LlmHistory) \<Rightarrow> rstr \<Rightarrow> LlmHistory" where
  "history_or_default m key = (case m key of Some h \<Rightarrow> h | None \<Rightarrow> LlmHistory_default)"

definition record_llm_sample :: "rstr \<Rightarrow> rstr \<Rightarrow> LlmStats \<Rightarrow> instant \<Rightarrow> UiLlm \<Rightarrow> UiLlm" where
  "record_llm_sample key selected llm now ui =
     (if key = selected then
        let ui = (if llm_history_key ui \<noteq> key then ui\<lparr>llm_history := LlmHistory_default, llm_history_key := key\<rparr> else ui);
            history = observe_llm_into (llm_history ui) llm now
        in ui\<lparr>llm_history := history, llm_histories := (llm_histories ui)(key \<mapsto> history)\<rparr>
      else ui\<lparr>llm_histories := (llm_histories ui)(key \<mapsto>
        observe_llm_into (history_or_default (llm_histories ui) key) llm now)\<rparr>)"

definition server_sample_age_ms :: "UiLlm \<Rightarrow> rstr \<Rightarrow> instant \<Rightarrow> nat option" where
  "server_sample_age_ms ui key now = Option.bind (llm_histories ui key)
     (\<lambda>h. map_option (\<lambda>t. (now - t) div 1000000 mod 2 ^ 64) (last_fresh_at h))"

definition server_sample_interval_ms :: "UiLlm \<Rightarrow> rstr \<Rightarrow> f64 option" where
  "server_sample_interval_ms ui key = Option.bind (llm_histories ui key) sample_interval_ema_ms"

definition select_llm_history :: "rstr \<Rightarrow> UiLlm \<Rightarrow> UiLlm" where
  "select_llm_history key ui = (if llm_history_key ui = key then ui
     else ui\<lparr>llm_history := history_or_default (llm_histories ui) key, llm_history_key := key\<rparr>)"

definition reset_llm_history :: "rstr \<Rightarrow> UiLlm \<Rightarrow> UiLlm" where
  "reset_llm_history key ui = (let ui = ui\<lparr>llm_histories := (llm_histories ui)(key := None)\<rparr> in
     if llm_history_key ui = key then ui\<lparr>llm_history := LlmHistory_default\<rparr> else ui)"

definition retain_llm_histories :: "rstr set \<Rightarrow> UiLlm \<Rightarrow> UiLlm" where
  "retain_llm_histories keys ui = (let ui = ui\<lparr>llm_histories := llm_histories ui |` keys\<rparr> in
     if llm_history_key ui \<noteq> [] \<and> llm_history_key ui \<notin> keys
     then ui\<lparr>llm_history := LlmHistory_default, llm_history_key := []\<rparr> else ui)"

text \<open>The server selector.\<close>

record ServerSelector =
  server_selector_open :: bool
  server_selector_index :: nat

definition move_server_selection :: "int \<Rightarrow> nat \<Rightarrow> ServerSelector \<Rightarrow> ServerSelector" where
  "move_server_selection delta len sel = (if len = 0 then sel\<lparr>server_selector_index := 0\<rparr>
     else sel\<lparr>server_selector_index :=
       nat ((int (min (server_selector_index sel) (len - 1)) + delta) mod int len)\<rparr>)"

definition server_selector_choice :: "nat \<Rightarrow> ServerSelector \<Rightarrow> nat option" where
  "server_selector_choice len sel = (if 0 < len then Some (min (server_selector_index sel) (len - 1)) else None)"


section \<open>Bounds\<close>

lemma EMA_ALPHA_val: "EMA_ALPHA = Fin (3602879701896397 / 18014398509481984)"
  unfolding EMA_ALPHA_def by (subst rnd_frac [where s = 55]) (simp_all add: round_half_even_def floor_num Let_def)

lemma EMA_BETA_val: "fsub (Fin 1) EMA_ALPHA = Fin (3602879701896397 / 4503599627370496)"
  unfolding EMA_ALPHA_val fsub_Fin by (subst rnd_frac [where s = 53]) (simp_all add: round_half_even_def floor_num Let_def)

lemma ema_ends:
  "rnd (1 * (3602879701896397 / 18014398509481984)) = Fin (3602879701896397 / 18014398509481984)"
  "rnd (60000 * (3602879701896397 / 18014398509481984)) = Fin 12000"
  "rnd (1 * (3602879701896397 / 4503599627370496)) = Fin (3602879701896397 / 4503599627370496)"
  "rnd (60000 * (3602879701896397 / 4503599627370496)) = Fin 48000"
  "rnd (3602879701896397 / 4503599627370496 + 3602879701896397 / 18014398509481984) = Fin 1"
proof -
  note r = round_half_even_def floor_num Let_def
  show "rnd (1 * (3602879701896397 / 18014398509481984)) = Fin (3602879701896397 / 18014398509481984)"
    by (subst rnd_frac [where s = 55]) (simp_all add: r)
  show "rnd (60000 * (3602879701896397 / 18014398509481984)) = Fin 12000"
    by (subst rnd_frac [where s = 39]) (simp_all add: r)
  show "rnd (1 * (3602879701896397 / 4503599627370496)) = Fin (3602879701896397 / 4503599627370496)"
    by (subst rnd_frac [where s = 53]) (simp_all add: r)
  show "rnd (60000 * (3602879701896397 / 4503599627370496)) = Fin 48000"
    by (subst rnd_frac [where s = 37]) (simp_all add: r)
  show "rnd (3602879701896397 / 4503599627370496 + 3602879701896397 / 18014398509481984) = Fin 1"
    by (subst rnd_frac [where s = 52]) (simp_all add: r)
qed

definition in_interval :: "f64 option \<Rightarrow> bool" where
  "in_interval x \<longleftrightarrow> (case x of Some v \<Rightarrow> Fin 1 \<le> v \<and> v \<le> Fin 60000 | None \<Rightarrow> True)"

lemma in_interval_None [simp]: "in_interval None"
  by (simp add: in_interval_def)

lemma rnd_between: "rnd l = Fin a \<Longrightarrow> rnd u = Fin b \<Longrightarrow> l \<le> x \<Longrightarrow> x \<le> u \<Longrightarrow> \<exists>z. rnd x = Fin z \<and> a \<le> z \<and> z \<le> b"
  using rnd_mono [of l x] rnd_mono [of x u] by (cases "rnd x") auto

lemma ema_between:
  assumes "Fin 1 \<le> p" "p \<le> Fin 60000" "Fin 1 \<le> c" "c \<le> Fin 60000"
  shows "in_interval (Some (fadd (fmul p (fsub (Fin 1) EMA_ALPHA)) (fmul c EMA_ALPHA)))"
proof -
  obtain x y where xy: "p = Fin x" "c = Fin y" using assms by (cases p; cases c) auto
  let ?a = "3602879701896397 / 18014398509481984 :: rat"
  let ?b = "3602879701896397 / 4503599627370496 :: rat"
  obtain u where u: "rnd (x * ?b) = Fin u" "?b \<le> u" "u \<le> 48000"
    using rnd_between [OF ema_ends(3,4), of "x * ?b"] assms by (auto simp: xy)
  obtain v where v: "rnd (y * ?a) = Fin v" "?a \<le> v" "v \<le> 12000"
    using rnd_between [OF ema_ends(1,2), of "y * ?a"] assms by (auto simp: xy)
  have "\<exists>z. rnd (u + v) = Fin z \<and> 1 \<le> z \<and> z \<le> 60000"
    by (rule rnd_between [OF ema_ends(5), of 60000]) (use u v in simp_all)
  moreover have "fadd (fmul p (fsub (Fin 1) EMA_ALPHA)) (fmul c EMA_ALPHA) = rnd (u + v)"
    unfolding EMA_BETA_val xy using u(1) v(1) by (simp add: EMA_ALPHA_val)
  ultimately show ?thesis by (auto simp: in_interval_def)
qed

lemma smooth_in_interval:
  "in_interval p \<Longrightarrow> in_interval (smooth_llm_sample_interval p c)"
proof -
  assume p: "in_interval p"
  have c: "is_finite c \<Longrightarrow> Fin 1 \<le> fclamp (Fin 1) (Fin 60000) c \<and> fclamp (Fin 1) (Fin 60000) c \<le> Fin 60000"
    by (intro fclamp_in_range) auto
  show ?thesis
  proof (cases p)
    case None
    then show ?thesis using c by (auto simp: smooth_llm_sample_interval_def in_interval_def opt_filter_def Let_def)
  next
    case (Some v)
    then obtain x where "v = Fin x" "1 \<le> x" "x \<le> 60000" using p by (cases v) (auto simp: in_interval_def)
    then show ?thesis using p c ema_between [of v "fclamp (Fin 1) (Fin 60000) c"] Some
      by (auto simp: smooth_llm_sample_interval_def opt_filter_def Let_def)
  qed
qed

definition rate_history_ok :: "TimedSample list \<Rightarrow> bool" where
  "rate_history_ok h \<longleftrightarrow> length h \<le> HISTORY_MAX_SAMPLES \<and> (\<forall>s \<in> set h. Fin 0 \<le> ts_value s \<and> is_finite (ts_value s))"

definition history_ok :: "LlmHistory \<Rightarrow> bool" where
  "history_ok h \<longleftrightarrow> rate_history_ok (prefill h) \<and> rate_history_ok (decode h) \<and> in_interval (sample_interval_ema_ms h) \<and>
     (was_connected h \<longleftrightarrow> connected_since h \<noteq> None)"

lemma history_ok_default [simp]: "history_ok LlmHistory_default"
  by (simp add: history_ok_def LlmHistory_default_def rate_history_ok_def in_interval_def)

lemma rate_history_ok_push: "rate_history_ok h \<Longrightarrow> rate_history_ok (push_rate r now h)"
proof (cases r)
  case (Some v)
  assume h: "rate_history_ok h"
  have "set (evict now h') \<subseteq> set h'" for h'
    by (auto simp: evict_def Let_def dest: in_set_dropD set_dropWhileD)
  then show ?thesis using h pm.keep_good [of v] Some
    by (fastforce simp: rate_history_ok_def push_rate_def push_metric_history_at_def evict_def Let_def)
qed (simp add: push_rate_def)

lemma history_ok_observe: "history_ok h \<Longrightarrow> history_ok (observe_llm_into h llm now)"
  by (auto simp: history_ok_def observe_llm_into_def Let_def rate_history_ok_push smooth_in_interval split: option.split)


section \<open>One history per server\<close>

text \<open>
  What the interface promises about its histories, with the server whose history is shown: a
  total map from server keys to histories, in which a sample is folded into its own server's
  entry, a reset and a disappearance clear one entry, and a selection changes none.
\<close>

definition shown_history :: "UiLlm \<Rightarrow> rstr \<Rightarrow> LlmHistory" where
  "shown_history ui = history_or_default (llm_histories ui)"

definition ui_inv :: "rstr \<Rightarrow> UiLlm \<Rightarrow> bool" where
  "ui_inv selected ui \<longleftrightarrow> llm_histories ui [] = None \<and>
     llm_history ui = history_or_default (llm_histories ui) (llm_history_key ui) \<and>
     (llm_history_key ui = selected \<or> llm_history_key ui = [] \<and> llm_histories ui selected = None) \<and>
     (\<forall>k. history_ok (history_or_default (llm_histories ui) k))"

lemma ui_inv_default: "ui_inv selected UiLlm_default"
  by (simp add: ui_inv_def UiLlm_default_def history_or_default_def)

lemma history_or_default_upd [simp]:
  "history_or_default (m(key \<mapsto> h)) k = (if k = key then h else history_or_default m k)"
  "history_or_default (m(key := None)) k = (if k = key then LlmHistory_default else history_or_default m k)"
  "history_or_default (m |` keys) k = (if k \<in> keys then history_or_default m k else LlmHistory_default)"
  by (simp_all add: history_or_default_def restrict_map_def)

lemma history_or_default_None: "m k = None \<Longrightarrow> history_or_default m k = LlmHistory_default"
  by (simp add: history_or_default_def)

lemma record_step:
  assumes "ui_inv selected ui" "key \<noteq> []"
  shows "shown_history (record_llm_sample key selected llm now ui) =
      (shown_history ui)(key := observe_llm_into (shown_history ui key) llm now)"
    and "ui_inv selected (record_llm_sample key selected llm now ui)"
proof -
  note d = ui_inv_def shown_history_def record_llm_sample_def Let_def
  show "shown_history (record_llm_sample key selected llm now ui) =
      (shown_history ui)(key := observe_llm_into (shown_history ui key) llm now)"
    using assms by (auto simp: d history_or_default_None fun_eq_iff)
  show "ui_inv selected (record_llm_sample key selected llm now ui)"
    using assms by (auto simp: d history_or_default_None intro!: history_ok_observe)
qed

lemma select_step:
  assumes "ui_inv selected ui"
  shows "shown_history (select_llm_history key ui) = shown_history ui" "ui_inv key (select_llm_history key ui)"
  using assms by (auto simp: ui_inv_def shown_history_def select_llm_history_def history_or_default_None)

lemma reset_step:
  assumes "ui_inv selected ui"
  shows "shown_history (reset_llm_history key ui) = (shown_history ui)(key := LlmHistory_default)"
    and "ui_inv selected (reset_llm_history key ui)"
  using assms by (auto simp: ui_inv_def shown_history_def reset_llm_history_def Let_def fun_eq_iff)

lemma restrict_eq_None: "(m |` A) k = None \<longleftrightarrow> k \<in> A \<longrightarrow> m k = None"
  by (simp add: restrict_map_def)

lemma retain_step:
  assumes "ui_inv selected ui"
  shows "shown_history (retain_llm_histories keys ui) = (\<lambda>k. if k \<in> keys then shown_history ui k else LlmHistory_default)"
    and "ui_inv selected (retain_llm_histories keys ui)"
  using assms by (auto simp: ui_inv_def shown_history_def retain_llm_histories_def Let_def fun_eq_iff restrict_eq_None
      history_or_default_None split: if_splits simp del: not_None_eq)


text \<open>The interface's operations on histories, as the application loop issues them.\<close>

datatype UiOp =
    USample rstr LlmStats instant
  | USelect rstr
  | UReset rstr
  | URetain "rstr list"

fun ui_op :: "UiOp \<Rightarrow> rstr \<times> UiLlm \<Rightarrow> rstr \<times> UiLlm" where
  "ui_op (USample key llm now) (selected, ui) = (selected, record_llm_sample key selected llm now ui)"
| "ui_op (USelect key) (selected, ui) = (key, select_llm_history key ui)"
| "ui_op (UReset key) (selected, ui) = (selected, reset_llm_history key ui)"
| "ui_op (URetain keys) (selected, ui) = (selected, retain_llm_histories (set keys) ui)"

fun spec_op :: "UiOp \<Rightarrow> rstr \<times> (rstr \<Rightarrow> LlmHistory) \<Rightarrow> rstr \<times> (rstr \<Rightarrow> LlmHistory)" where
  "spec_op (USample key llm now) (selected, h) = (selected, h(key := observe_llm_into (h key) llm now))"
| "spec_op (USelect key) (selected, h) = (key, h)"
| "spec_op (UReset key) (selected, h) = (selected, h(key := LlmHistory_default))"
| "spec_op (URetain keys) (selected, h) = (selected, \<lambda>k. if k \<in> set keys then h k else LlmHistory_default)"

fun sample_key :: "UiOp \<Rightarrow> rstr option" where
  "sample_key (USample key _ _) = Some key"
| "sample_key _ = None"

lemma ui_op_refines:
  assumes "ui_inv (fst s) (snd s)" "sample_key oper \<noteq> Some []"
  shows "ui_inv (fst (ui_op oper s)) (snd (ui_op oper s)) \<and>
    (fst (ui_op oper s), shown_history (snd (ui_op oper s))) = spec_op oper (fst s, shown_history (snd s))"
  using assms record_step select_step reset_step retain_step by (cases oper; cases s) auto

lemma ui_inv_shown: "ui_inv selected ui \<Longrightarrow> llm_history ui = shown_history ui selected \<and> history_ok (shown_history ui k)"
  by (auto simp: ui_inv_def shown_history_def history_or_default_None)

text \<open>
  C9: whatever operations the application loop issues, the interface's histories are those of a
  table with one independent history per server: a sample changes only its own server's, a
  selection changes none, and the history on screen is the selected server's.  Every history
  stays within 720 finite non-negative points with a sample interval of 1 to 60000 ms.
\<close>

theorem ui_histories_refine:
  assumes "\<forall>oper \<in> set ops. sample_key oper \<noteq> Some []"
    and "fold ui_op ops ([], UiLlm_default) = (selected, ui)"
  shows "fold spec_op ops ([], \<lambda>k. LlmHistory_default) = (selected, shown_history ui) \<and>
    llm_history ui = shown_history ui selected \<and> history_ok (shown_history ui k)"
proof -
  have "ui_inv (fst (fold ui_op ops s)) (snd (fold ui_op ops s)) \<and>
      (fst (fold ui_op ops s), shown_history (snd (fold ui_op ops s))) = fold spec_op ops (fst s, shown_history (snd s))"
    if "ui_inv (fst s) (snd s)" for s
    using that assms(1)
  proof (induction ops arbitrary: s)
    case (Cons x ops)
    then show ?case using ui_op_refines [of s x] by simp
  qed simp
  from this [of "([], UiLlm_default)"] have "ui_inv selected ui \<and>
      (selected, shown_history ui) = fold spec_op ops ([], shown_history UiLlm_default)"
    using assms(2) ui_inv_default by simp
  moreover have "shown_history UiLlm_default = (\<lambda>k. LlmHistory_default)"
    by (simp add: shown_history_def UiLlm_default_def history_or_default_def fun_eq_iff)
  ultimately show ?thesis using ui_inv_shown by auto
qed

theorem ui_histories_refine_witness:
  "let ops = [USelect (lit ''a''), USample (lit ''b'') LlmStats_default 5,
        USample (lit ''a'') (LlmStats_default\<lparr>connected := True\<rparr>) 7, USelect (lit ''b'')]
    in llm_history (snd (fold ui_op ops ([], UiLlm_default))) =
         shown_history (snd (fold ui_op ops ([], UiLlm_default))) (lit ''b'')"
proof -
  let ?ops = "[USelect (lit ''a''), USample (lit ''b'') LlmStats_default 5,
      USample (lit ''a'') (LlmStats_default\<lparr>connected := True\<rparr>) 7, USelect (lit ''b'')]"
  have k: "\<forall>oper \<in> set ?ops. sample_key oper \<noteq> Some []" by (simp add: lit_def)
  have "fold ui_op ?ops ([], UiLlm_default) = (lit ''b'', snd (fold ui_op ?ops ([], UiLlm_default)))"
    by (simp add: prod_eq_iff)
  from ui_histories_refine [OF k this] show ?thesis by (simp add: Let_def)
qed

section \<open>Resampling for the graphs\<close>

fun consume :: "f64 \<Rightarrow> (f64 \<times> f64) list \<Rightarrow> f64 option \<Rightarrow> (f64 \<times> f64) list \<times> f64 option" where
  "consume target [] current = ([], current)"
| "consume target ((offset, v) # points) current =
     (if target < offset then ((offset, v) # points, current) else consume target points (Some v))"

definition history_points :: "TimedSample list \<Rightarrow> instant \<Rightarrow> (f64 \<times> f64) list" where
  "history_points h now = map (\<lambda>s. (fsub (as_secs_f64 HISTORY_WINDOW) (as_secs_f64 (now - ts_at s)), fmax (ts_value s) (Fin 0)))
     (filter (\<lambda>s. \<not> expired now s \<and> is_finite (ts_value s)) h)"

definition column_target :: "nat \<Rightarrow> nat \<Rightarrow> f64" where
  "column_target columns x = (if columns = 1 then as_secs_f64 HISTORY_WINDOW
     else fmul (fdiv (f64_of_nat x) (f64_of_nat (columns - 1))) (as_secs_f64 HISTORY_WINDOW))"

definition resample_step ::
  "(nat \<Rightarrow> f64) \<Rightarrow> ((f64 \<times> f64) list \<times> f64 option) \<times> f64 option list \<Rightarrow> nat \<Rightarrow> ((f64 \<times> f64) list \<times> f64 option) \<times> f64 option list" where
  "resample_step t st x = (case st of ((points, current), out) \<Rightarrow>
     let s = consume (t x) points current in (s, out @ [snd s]))"

definition resample_history :: "TimedSample list \<Rightarrow> nat \<Rightarrow> instant \<Rightarrow> f64 option list" where
  "resample_history h columns now = (let columns = max columns 1 in
     snd (foldl (resample_step (column_target columns)) ((history_points h now, None), []) [0..<columns]))"


text \<open>What a column shows: the last point no later than the column's place in the window.\<close>

definition last_point :: "(f64 \<times> f64) list \<Rightarrow> f64 option" where
  "last_point points = (if points = [] then None else Some (snd (last points)))"

definition reached :: "f64 \<Rightarrow> f64 \<times> f64 \<Rightarrow> bool" where
  "reached target p \<longleftrightarrow> \<not> target < fst p"

lemma consume_eq:
  "consume target points current = (dropWhile (reached target) points,
     (let t = takeWhile (reached target) points in if t = [] then current else last_point t))"
  by (induction target points current rule: consume.induct) (auto simp: reached_def last_point_def Let_def)

lemma takeWhile_split:
  "(\<And>x. P x \<Longrightarrow> Q x) \<Longrightarrow> takeWhile Q xs = takeWhile P xs @ takeWhile Q (dropWhile P xs)"
  "(\<And>x. P x \<Longrightarrow> Q x) \<Longrightarrow> dropWhile Q (dropWhile P xs) = dropWhile Q xs"
  by (induction xs) auto

lemma resample_step_eq:
  "resample_step t ((points, current), out) x = ((dropWhile (reached (t x)) points,
     let p = takeWhile (reached (t x)) points in if p = [] then current else last_point p),
     out @ [let p = takeWhile (reached (t x)) points in if p = [] then current else last_point p])"
  by (simp add: resample_step_def consume_eq)

lemma consume_fold:
  assumes "\<And>x y. x \<le> y \<Longrightarrow> y < n \<Longrightarrow> t x \<le> t y" "\<And>x. x < n \<Longrightarrow> t x \<noteq> NaN"
  shows "foldl (resample_step t) ((pts, None), []) [0..<n]
    = ((if n = 0 then (pts, None) else (dropWhile (reached (t (n - 1))) pts, last_point (takeWhile (reached (t (n - 1))) pts))),
       map (\<lambda>x. last_point (takeWhile (reached (t x)) pts)) [0..<n])"
  using assms
proof (induction n)
  case (Suc n)
  show ?case
  proof (cases n)
    case 0
    then show ?thesis by (simp add: resample_step_eq last_point_def Let_def)
  next
    case (Suc m)
    have "t m \<le> t n" "t n \<noteq> NaN" using Suc.prems Suc by auto
    then have imp: "reached (t m) p \<Longrightarrow> reached (t n) p" for p
      unfolding reached_def by (cases "fst p"; cases "t n"; cases "t m") auto
    note sp = takeWhile_split [of "reached (t m)" "reached (t n)" pts, OF imp]
    have "foldl (resample_step t) ((pts, None), []) [0..<n]
      = ((dropWhile (reached (t m)) pts, last_point (takeWhile (reached (t m)) pts)),
         map (\<lambda>x. last_point (takeWhile (reached (t x)) pts)) [0..<n])"
      using Suc.IH Suc.prems Suc by simp
    moreover have "(let p = takeWhile (reached (t n)) (dropWhile (reached (t m)) pts) in
        if p = [] then last_point (takeWhile (reached (t m)) pts) else last_point p) = last_point (takeWhile (reached (t n)) pts)"
      by (simp add: last_point_def Let_def sp(1))
    ultimately show ?thesis by (simp add: resample_step_eq sp(2))
  qed
qed simp

lemma HISTORY_WINDOW_secs: "as_secs_f64 HISTORY_WINDOW = Fin 60"
  by (simp add: as_secs_f64_parts HISTORY_WINDOW_def f64_of_nat_exact)

lemma as_secs_f64_mono:
  assumes "d \<le> e" "e < secs (2 ^ 53)"
  shows "as_secs_f64 d \<le> as_secs_f64 e"
proof -
  define f where "f d = rnd (of_nat (d mod 1000000000) / 1000000000)" for d :: nat
  have r: "\<exists>r. f d = Fin r \<and> 0 \<le> r \<and> r \<le> 1" for d
  proof -
    have "d mod 1000000000 < 1000000000" by simp
    then show ?thesis unfolding f_def by (intro rnd_between [of 0 0 1 1]) (simp_all add: divide_le_eq)
  qed
  obtain a b where ab: "f d = Fin a" "0 \<le> a" "a \<le> 1" "f e = Fin b" "0 \<le> b" "b \<le> 1"
    using r [of d] r [of e] by auto
  have n: "d div 1000000000 \<le> e div 1000000000" using assms(1) by (rule div_le_mono)
  moreover have "e div 1000000000 < 2 ^ 53" using assms(2) by (simp add: less_mult_imp_div_less)
  ultimately have s: "as_secs_f64 d = rnd (of_nat (d div 1000000000) + a)" "as_secs_f64 e = rnd (of_nat (e div 1000000000) + b)"
    using ab by (simp_all add: as_secs_f64_parts f64_of_nat_exact flip: f_def)
  show ?thesis
  proof (cases "d div 1000000000 = e div 1000000000")
    case True
    then have "d mod 1000000000 \<le> e mod 1000000000"
      using assms(1) div_mult_mod_eq [of d 1000000000] div_mult_mod_eq [of e 1000000000] by linarith
    then have "f d \<le> f e" unfolding f_def by (intro rnd_mono divide_right_mono) simp_all
    then show ?thesis unfolding s using True ab by (intro rnd_mono) simp
  next
    case False
    then have "Suc (d div 1000000000) \<le> e div 1000000000" using n by simp
    then have "(of_nat (d div 1000000000) + 1 :: rat) \<le> of_nat (e div 1000000000)"
      by (metis of_nat_Suc of_nat_le_iff add.commute)
    then show ?thesis unfolding s using ab by (intro rnd_mono) linarith
  qed
qed

lemma column_target_props:
  assumes "columns < 2 ^ 53" "x \<le> y" "y < columns"
  shows "column_target columns x \<le> column_target columns y" "is_finite (column_target columns y)"
    and "column_target columns (columns - 1) = Fin 60"
proof -
  define c :: rat where "c = of_nat (columns - 1)"
  have c: "f64_of_nat (columns - 1) = Fin c" "x < 2 ^ 53" "y < 2 ^ 53"
    using assms by (simp_all add: c_def f64_of_nat_exact)
  have q: "\<exists>q. rnd (of_nat z / c) = Fin q \<and> 0 \<le> q \<and> q \<le> 1" if "z \<le> columns - 1" for z
  proof -
    have "of_nat z \<le> c" unfolding c_def of_nat_le_iff by (rule that)
    moreover have "0 \<le> c" by (simp add: c_def)
    ultimately show ?thesis by (intro rnd_between [of 0 0 1 1]) (cases "c = 0"; simp add: divide_le_eq_1)+
  qed
  have xle: "x \<le> columns - 1" "y \<le> columns - 1" using assms(2,3) by simp_all
  have m: "\<exists>m. rnd (q * 60) = Fin m" if "0 \<le> q" "q \<le> 1" for q
    using rnd_between [of 0 0 60 60 "q * 60"] that by auto
  show "column_target columns x \<le> column_target columns y" "is_finite (column_target columns y)"
    "column_target columns (columns - 1) = Fin 60"
  proof -
    have xy: "rnd (of_nat x / c) \<le> rnd (of_nat y / c)"
      using assms(2) by (intro rnd_mono divide_right_mono) (simp_all add: c_def)
    obtain qx qy where qs: "rnd (of_nat x / c) = Fin qx" "0 \<le> qx" "qx \<le> 1" "rnd (of_nat y / c) = Fin qy" "0 \<le> qy" "qy \<le> 1"
      using q [of x] q [of y] xle by auto
    have "columns \<noteq> 1 \<Longrightarrow> 0 < c" using assms by (simp add: c_def)
    then show "column_target columns x \<le> column_target columns y" "is_finite (column_target columns y)"
      "column_target columns (columns - 1) = Fin 60"
      using qs xy m [of qy] c assms by (auto simp: column_target_def HISTORY_WINDOW_secs f64_of_nat_exact intro!: rnd_mono)
  qed
qed

lemma history_points_sorted:
  assumes "sorted (map ts_at h)"
  shows "sorted_wrt (\<lambda>p q. fst p \<le> fst q) (history_points h now)" "\<forall>p \<in> set (history_points h now). fst p \<le> Fin 60"
proof -
  have fin: "\<exists>r. as_secs_f64 d = Fin r \<and> 0 \<le> r" if "\<not> HISTORY_WINDOW < d" for d
  proof -
    have "as_secs_f64 0 \<le> as_secs_f64 d" "as_secs_f64 d \<le> as_secs_f64 HISTORY_WINDOW"
      using that by (intro as_secs_f64_mono; simp add: HISTORY_WINDOW_def)+
    then show ?thesis by (cases "as_secs_f64 d") (auto simp: HISTORY_WINDOW_secs)
  qed
  show "\<forall>p \<in> set (history_points h now). fst p \<le> Fin 60"
    using fin rnd_mono [of _ 60] by (fastforce simp: history_points_def HISTORY_WINDOW_secs expired_def)
  show "sorted_wrt (\<lambda>p q. fst p \<le> fst q) (history_points h now)"
    using assms
  proof (induction h)
    case (Cons s h)
    have "fsub (Fin 60) (as_secs_f64 (now - ts_at s)) \<le> fsub (Fin 60) (as_secs_f64 (now - ts_at t))"
      if "t \<in> set h" "\<not> expired now s" "\<not> expired now t" for t
    proof -
      have "now - ts_at t \<le> now - ts_at s" using that(1) Cons.prems by (auto simp: diff_le_mono2)
      then have "as_secs_f64 (now - ts_at t) \<le> as_secs_f64 (now - ts_at s)"
        using that(2) by (intro as_secs_f64_mono) (auto simp: expired_def HISTORY_WINDOW_def)
      then show ?thesis using that fin [of "now - ts_at t"] fin [of "now - ts_at s"] by (auto simp: expired_def intro!: rnd_mono)
    qed
    then show ?case using Cons by (auto simp: history_points_def HISTORY_WINDOW_secs)
  qed (simp add: history_points_def)
qed


lemma takeWhile_filter:
  "sorted_wrt (\<lambda>p q. fst p \<le> fst q) ps \<Longrightarrow> takeWhile (\<lambda>p. fst p \<le> t) ps = filter (\<lambda>p. fst p \<le> t) ps"
  for ps :: "(f64 \<times> f64) list"
proof (induction ps)
  case (Cons p ps)
  then have "\<not> fst p \<le> t \<Longrightarrow> \<forall>q \<in> set ps. \<not> fst q \<le> t" using f64_le_trans by auto
  then have "\<not> fst p \<le> t \<Longrightarrow> filter (\<lambda>q. fst q \<le> t) ps = []" by (simp add: filter_empty_conv)
  then show ?case using Cons by auto
qed simp

text \<open>
  a graph column shows the latest point at or before its place in the sixty-second window,
  whatever the sampling times were, and the last column shows the newest point of the window: no
  later reading is drawn early and none is lost to the resampling.
\<close>

theorem resample_history_spec:
  assumes "sorted (map ts_at h)" "0 < columns" "columns < 2 ^ 53"
  shows "resample_history h columns now = map (\<lambda>x.
        last_point (filter (\<lambda>p. fst p \<le> column_target columns x) (history_points h now))) [0..<columns] \<and>
    last (resample_history h columns now) = last_point (history_points h now)"
proof -
  let ?t = "column_target columns"
  note t = column_target_props [OF assms(3)]
  note p = history_points_sorted [OF assms(1), of now]
  have fin: "p \<in> set (history_points h now) \<Longrightarrow> fst p \<noteq> NaN" for p using p(2) by fastforce
  have r: "takeWhile (reached (?t x)) (history_points h now) = filter (\<lambda>p. fst p \<le> ?t x) (history_points h now)"
    if "x < columns" for x
  proof -
    have "takeWhile (reached (?t x)) (history_points h now) = takeWhile (\<lambda>p. fst p \<le> ?t x) (history_points h now)"
    proof (rule takeWhile_cong)
      fix q assume "q \<in> set (history_points h now)"
      then show "reached (?t x) q = (fst q \<le> ?t x)"
        using fin [of q] t(2) [OF order_refl that] unfolding reached_def by (cases "fst q"; cases "?t x") auto
    qed simp
    then show ?thesis using takeWhile_filter [OF p(1)] by simp
  qed
  have "?t x \<noteq> NaN" if "x < columns" for x using t(2) [OF order_refl that] by auto
  then have e: "resample_history h columns now = map (\<lambda>x.
      last_point (filter (\<lambda>p. fst p \<le> ?t x) (history_points h now))) [0..<columns]"
    using consume_fold [of columns ?t "history_points h now"] t(1) assms(2) r
    by (simp add: resample_history_def max_absorb1)
  have "filter (\<lambda>p. fst p \<le> ?t (columns - 1)) (history_points h now) = history_points h now"
    using p(2) t(3) [of 0 0] assms(2) by (intro filter_True) simp
  then show ?thesis using e assms(2) by (simp add: last_map)
qed

theorem resample_history_spec_witness:
  "last (resample_history [\<lparr>ts_at = 5, ts_value = Fin 7\<rparr>, \<lparr>ts_at = 9, ts_value = Fin 3\<rparr>] 4 9) =
     last_point (history_points [\<lparr>ts_at = 5, ts_value = Fin 7\<rparr>, \<lparr>ts_at = 9, ts_value = Fin 3\<rparr>] 9)"
  by (rule resample_history_spec [THEN conjunct2]) simp_all

end
