(* ===== verification/Channel.thy ===== *)
theory Channel
  imports Prelude
begin

text \<open>
  The bounded channels between the workers and the application loop, from
  \<^verbatim>\<open>src/app/channels.rs\<close>: a send that never blocks and counts what it drops, and a
  receive that drains what is queued.  A channel is its queue, oldest first; whether the other
  end is alive is an argument.
\<close>

definition try_send_snapshot :: "nat \<Rightarrow> bool \<Rightarrow> 'a \<Rightarrow> 'a list \<times> u64 \<Rightarrow> bool \<times> 'a list \<times> u64" where
  "try_send_snapshot cap receiver v st = (case st of (queue, drops) \<Rightarrow>
     if \<not> receiver then (False, queue, drops)
     else if length queue < cap then (True, queue @ [v], drops)
     else (True, queue, drops + 1))"

text \<open>\<^verbatim>\<open>Ok(())\<close> is an empty queue whose sender is alive, \<^verbatim>\<open>Err(())\<close> a gone sender.\<close>

fun drain_try_recv :: "bool \<Rightarrow> ('a \<Rightarrow> 's \<Rightarrow> 's) \<Rightarrow> 'a list \<Rightarrow> 's \<Rightarrow> (unit + unit) \<times> 's" where
  "drain_try_recv sender apply_fn [] s = (if sender then Inr () else Inl (), s)"
| "drain_try_recv sender apply_fn (v # queue) s = drain_try_recv sender apply_fn queue (apply_fn v s)"

lemma drain_try_recv_fold:
  "drain_try_recv sender apply_fn queue s = (if sender then Inr () else Inl (), fold apply_fn queue s)"
  by (induction queue arbitrary: s) auto

datatype 'a chan_op = Send 'a | Drain

record 'a chan_run =
  cr_queue :: "'a list"
  cr_drops :: u64
  cr_received :: "'a list"

fun chan_step :: "nat \<Rightarrow> 'a chan_op \<Rightarrow> 'a chan_run \<Rightarrow> 'a chan_run" where
  "chan_step cap (Send v) s = (case try_send_snapshot cap True v (cr_queue s, cr_drops s) of
     (_, queue, drops) \<Rightarrow> s\<lparr>cr_queue := queue, cr_drops := drops\<rparr>)"
| "chan_step cap Drain s = (case drain_try_recv True (\<lambda>v r. r @ [v]) (cr_queue s) (cr_received s) of
     (_, r) \<Rightarrow> s\<lparr>cr_queue := [], cr_received := r\<rparr>)"

definition chan_init :: "'a chan_run" where
  "chan_init = \<lparr>cr_queue = [], cr_drops = 0, cr_received = []\<rparr>"

fun sent :: "'a chan_op list \<Rightarrow> 'a list" where
  "sent [] = []"
| "sent (Send v # ops) = v # sent ops"
| "sent (Drain # ops) = sent ops"

text \<open>What a bounded queue keeps of a run, at the level of the values: the reference.\<close>

fun kept :: "nat \<Rightarrow> nat \<Rightarrow> 'a chan_op list \<Rightarrow> 'a list" where
  "kept cap n [] = []"
| "kept cap n (Drain # ops) = kept cap 0 ops"
| "kept cap n (Send v # ops) = (if n < cap then v # kept cap (n + 1) ops else kept cap n ops)"

lemma fold_append: "fold (\<lambda>v r. r @ [v]) xs r = r @ xs"
  by (induction xs arbitrary: r) auto

lemma chan_run_kept:
  "let s' = fold (chan_step cap) ops s in
     cr_received s' @ cr_queue s' = cr_received s @ cr_queue s @ kept cap (length (cr_queue s)) ops \<and>
     (length (cr_queue s) \<le> cap \<longrightarrow> length (cr_queue s') \<le> cap) \<and>
     cr_drops s' = cr_drops s + of_nat (length (sent ops) - length (kept cap (length (cr_queue s)) ops)) \<and>
     length (kept cap (length (cr_queue s)) ops) \<le> length (sent ops)"
proof (induction ops arbitrary: s)
  case (Cons oper ops)
  show ?case
  proof (cases oper)
    case (Send v)
    then show ?thesis using Cons.IH [of "chan_step cap oper s"]
      by (auto simp: try_send_snapshot_def Let_def Suc_diff_le algebra_simps)
  next
    case Drain
    then show ?thesis using Cons.IH [of "chan_step cap oper s"]
      by (simp add: drain_try_recv_fold fold_append Let_def)
  qed
qed (simp add: Let_def)

text \<open>
  C0: a full channel drops the newest value and no other: over any run of sends and drains, what
  the application has received and will receive is, in the order of sending, exactly the values
  sent while fewer than \<open>cap\<close> were waiting; the queue never exceeds \<open>cap\<close>, and the counter
  modulo \<open>2^64\<close> is the number of the others.
\<close>

theorem channel_accounting:
  "let s = fold (chan_step cap) ops chan_init in
     cr_received s @ cr_queue s = kept cap 0 ops \<and> length (cr_queue s) \<le> cap \<and>
     unat (cr_drops s) = (length (sent ops) - length (kept cap 0 ops)) mod 2 ^ 64"
  using chan_run_kept [of cap ops chan_init]
  by (simp add: chan_init_def Let_def unat_of_nat del: of_nat_diff)

end
