(* ===== verification/AppServer.thy ===== *)
theory AppServer
  imports History GpuMap Discovery Channel
begin

text \<open>
  The application loop's registry of servers, from \<^verbatim>\<open>src/app/server.rs\<close>,
  \<^verbatim>\<open>src/app/loop_events.rs\<close> and \<^verbatim>\<open>src/app.rs\<close>: the reconciliation of the
  server set, the selection, the acceptance of samples and of GPU mappings by their generations,
  the offline-grace hold of a poll, and the pacing of repaints.  A channel to a worker is the list
  of the messages not yet taken; the result of a resolution or a scan is the argument \<open>next\<close>.
\<close>

section \<open>Messages and state\<close>

datatype LlmCommand = SetServers u64 "ServerSpec list"

record LlmSample =
  smp_server :: rstr
  smp_generation :: u64
  smp_stats :: LlmStats

record FastSnapshot =
  fs_gpu_map :: GpuMapping
  fs_mapping_generation :: u64

text \<open>
  The local variables of \<^verbatim>\<open>run\<close> that the server set and the selection use, with the
  snapshot's LLM statistics and GPU mapping.
\<close>

record App =
  ap_resolved :: ResolvedServer
  ap_server_list :: "ServerSpec list"
  ap_overflow :: "ServerSpec list"
  ap_order :: "rstr list"
  ap_endpoints :: "rstr \<rightharpoonup> rstr"
  ap_registry :: "rstr \<rightharpoonup> LlmStats"
  ap_selected :: rstr
  ap_llm_generation :: u64
  ap_mapping_generation :: u64
  ap_llm :: LlmStats
  ap_gpu_map :: GpuMapping
  ap_ui :: UiLlm
  ap_commands :: "LlmCommand list"
  ap_identities :: "(u64 \<times> LocalServerIdentity option) list"

section \<open>Reconciliation\<close>

record ServerChange =
  sc_endpoint_changed :: bool
  sc_pid_changed :: bool
  sc_auto_changed :: bool

definition reconcile_server :: "ResolvedServer \<Rightarrow> ResolvedServer \<Rightarrow> ServerChange" where
  "reconcile_server previous next = \<lparr>sc_endpoint_changed = (rs_endpoint previous \<noteq> rs_endpoint next),
     sc_pid_changed = (rs_identity previous \<noteq> rs_identity next), sc_auto_changed = (rs_auto previous \<noteq> rs_auto next)\<rparr>"

definition update_resolved_server :: "ResolvedServer \<Rightarrow> App \<Rightarrow> App" where
  "update_resolved_server next app = (let change = reconcile_server (ap_resolved app) next in
     if sc_endpoint_changed change \<or> sc_pid_changed change \<or> sc_auto_changed change
     then app\<lparr>ap_resolved := next\<rparr> else app)"

text \<open>Collecting pairs into a map: a later pair of a key replaces an earlier one.\<close>

definition collect_map :: "('k \<times> 'v) list \<Rightarrow> 'k \<rightharpoonup> 'v" where
  "collect_map xs = foldl (\<lambda>m (k, v). m(k \<mapsto> v)) Map.empty xs"

definition changed_identity_keys :: "ServerSpec list \<Rightarrow> ServerSpec list \<Rightarrow> rstr list" where
  "changed_identity_keys old new = (let previous = collect_map (map (\<lambda>spec. (sv_key spec, sv_identity spec)) old) in
     map sv_key (filter (\<lambda>spec. case previous (sv_key spec) of Some prev \<Rightarrow> prev \<noteq> sv_identity spec | None \<Rightarrow> False) new))"

definition selected_identity_of :: "ServerSpec list \<Rightarrow> rstr \<Rightarrow> LocalServerIdentity option" where
  "selected_identity_of server_list selected = Option.bind (find (\<lambda>spec. sv_key spec = selected) server_list) sv_identity"

definition publish_selected_mapping :: "LocalServerIdentity option \<Rightarrow> App \<Rightarrow> App" where
  "publish_selected_mapping identity app = app\<lparr>ap_mapping_generation := ap_mapping_generation app + 1,
     ap_identities := ap_identities app @ [(ap_mapping_generation app + 1, identity)]\<rparr>"

definition registry_or_default :: "(rstr \<rightharpoonup> LlmStats) \<Rightarrow> rstr \<Rightarrow> LlmStats" where
  "registry_or_default m key = (case m key of Some s \<Rightarrow> s | None \<Rightarrow> LlmStats_default)"

definition endpoint_map :: "ServerSpec list \<Rightarrow> rstr \<rightharpoonup> rstr" where
  "endpoint_map specs = collect_map (map (\<lambda>spec. (sv_key spec, sv_endpoint spec)) specs)"

definition first_or_empty :: "rstr list \<Rightarrow> rstr" where
  "first_or_empty order = (case order of k # _ \<Rightarrow> k | [] \<Rightarrow> [])"

definition replace_servers :: "ServerSpec list \<Rightarrow> App \<Rightarrow> App" where
  "replace_servers next_list app0 = (let
       app = app0\<lparr>ap_ui := foldl (\<lambda>ui key. reset_llm_history key ui) (ap_ui app0)
         (changed_identity_keys (ap_server_list app0) next_list)\<rparr>;
       app = app\<lparr>ap_llm_generation := ap_llm_generation app + 1\<rparr>;
       app = app\<lparr>ap_commands := ap_commands app @ [SetServers (ap_llm_generation app) next_list]\<rparr>;
       app = app\<lparr>ap_server_list := next_list, ap_order := map sv_key next_list, ap_endpoints := endpoint_map next_list\<rparr>;
       app = app\<lparr>ap_registry := ap_registry app |` dom (ap_endpoints app)\<rparr>;
       app = app\<lparr>ap_ui := retain_llm_histories (set (map sv_key next_list)) (ap_ui app)\<rparr>;
       app = (if ap_endpoints app (ap_selected app) = None then
                let selected = first_or_empty (ap_order app) in
                app\<lparr>ap_selected := selected, ap_llm := registry_or_default (ap_registry app) selected,
                  ap_ui := select_llm_history selected (ap_ui app)\<rparr>
              else app);
       app = publish_selected_mapping (selected_identity_of (ap_server_list app) (ap_selected app)) app
     in app\<lparr>ap_gpu_map := MapNone\<rparr>)"

definition sync_server_set :: "ServerList \<Rightarrow> App \<Rightarrow> App" where
  "sync_server_set next app = (let
       monitored_changed = (sl_monitored next \<noteq> ap_server_list app);
       overflow_changed = (sl_overflow next \<noteq> ap_overflow app)
     in if \<not> monitored_changed \<and> \<not> overflow_changed then app
        else let app = app\<lparr>ap_overflow := sl_overflow next\<rparr> in
          if monitored_changed then replace_servers (sl_monitored next) app else app)"

text \<open>The start of \<^verbatim>\<open>run\<close>.\<close>

definition app_start :: "ResolvedServer \<Rightarrow> ServerList \<Rightarrow> rstr \<Rightarrow> App" where
  "app_start resolved servers default_selected = (let
       order = map sv_key (sl_monitored servers); endpoints = endpoint_map (sl_monitored servers);
       selected = (if endpoints default_selected \<noteq> None then default_selected else first_or_empty order)
     in publish_selected_mapping (selected_identity_of (sl_monitored servers) selected)
       \<lparr>ap_resolved = resolved, ap_server_list = sl_monitored servers, ap_overflow = sl_overflow servers,
        ap_order = order, ap_endpoints = endpoints, ap_registry = Map.empty, ap_selected = selected,
        ap_llm_generation = 0, ap_mapping_generation = 0, ap_llm = LlmStats_default, ap_gpu_map = MapNone,
        ap_ui = UiLlm_default, ap_commands = [], ap_identities = []\<rparr>)"

section \<open>Input\<close>

text \<open>\<^verbatim>\<open>Enter\<close> in the server selector.\<close>

definition select_server :: "ServerSelector \<Rightarrow> App \<Rightarrow> App" where
  "select_server sel app = (case server_selector_choice (length (ap_order app)) sel of None \<Rightarrow> app | Some index \<Rightarrow>
     if index < length (ap_order app) then
       let key = ap_order app ! index;
           app = app\<lparr>ap_selected := key, ap_llm := registry_or_default (ap_registry app) key,
             ap_ui := select_llm_history key (ap_ui app)\<rparr>;
           app = publish_selected_mapping (selected_identity_of (ap_server_list app) (ap_selected app)) app
       in app\<lparr>ap_gpu_map := MapNone\<rparr>
     else app)"

text \<open>Opening the selector puts the highlight on the selected server.\<close>

definition selector_position :: "App \<Rightarrow> nat" where
  "selector_position app = (let p = length (takeWhile (\<lambda>key. key \<noteq> ap_selected app) (ap_order app)) in
     if p < length (ap_order app) then p else 0)"

section \<open>Samples\<close>

definition accepts_llm_sample :: "u64 \<Rightarrow> LlmSample \<Rightarrow> bool" where
  "accepts_llm_sample current_generation smp \<longleftrightarrow> smp_generation smp = current_generation"

text \<open>One sample of the drain in \<^verbatim>\<open>pump_snapshots\<close>, the flag telling whether it was applied.\<close>

definition apply_llm_sample :: "instant \<Rightarrow> LlmSample \<Rightarrow> App \<Rightarrow> App \<times> bool" where
  "apply_llm_sample now smp app = (if \<not> accepts_llm_sample (ap_llm_generation app) smp then (app, False)
     else if ap_endpoints app (smp_server smp) = None then (app, False)
     else (app\<lparr>ap_ui := record_llm_sample (smp_server smp) (ap_selected app) (smp_stats smp) now (ap_ui app),
        ap_registry := (ap_registry app)(smp_server smp \<mapsto> smp_stats smp),
        ap_llm := (if smp_server smp = ap_selected app then smp_stats smp else ap_llm app)\<rparr>, True))"

definition apply_fast_snapshot :: "FastSnapshot \<Rightarrow> App \<Rightarrow> App" where
  "apply_fast_snapshot next app = (if fs_mapping_generation next = ap_mapping_generation app
     then app\<lparr>ap_gpu_map := fs_gpu_map next\<rparr> else app)"

text \<open>
  A poll that fails within the grace period shows the last good sample, marked as reconnecting;
  a failure that the server itself explains is shown at once.
\<close>

definition hard_failure :: "rstr \<Rightarrow> bool" where
  "hard_failure msg = (let error = lower msg in
     contains_sub (lit ''metrics disabled'') error \<or> contains_sub (lit ''--metrics'') error \<or>
     contains_sub (lit ''http 501'') error \<or> contains_sub (lit ''failed to initialize http client'') error)"

definition stabilize_llm_sample ::
  "LlmStats \<Rightarrow> (LlmStats \<times> instant) option \<Rightarrow> instant \<Rightarrow> duration \<Rightarrow> LlmStats \<times> (LlmStats \<times> instant) option" where
  "stabilize_llm_sample stats last_good now offline_grace =
     (if connected stats then let stats = stats\<lparr>reconnecting := False\<rparr> in (stats, Some (stats, now))
      else if \<not> hard_failure (error_text stats) then (case last_good of
          Some (previous, at_time) \<Rightarrow>
            if now - at_time \<le> offline_grace
            then (previous\<lparr>error_text := [], reconnecting := True\<rparr>, last_good) else (stats, last_good)
        | None \<Rightarrow> (stats, last_good))
      else (stats, last_good))"

section \<open>The overview\<close>

record ServerSummary =
  ss_key :: rstr
  ss_endpoint :: rstr
  ss_label :: rstr
  ss_connected :: bool
  ss_reconnecting :: bool
  ss_phase :: "ActivityPhase option"
  ss_age_ms :: "nat option"
  ss_sample_interval_ms :: "f64 option"
  ss_backend :: ServerBackend
  ss_slots_available :: bool
  ss_slot_count :: u64
  ss_busy_slots :: u64
  ss_props_slot_count :: u64
  ss_context_used :: "u64 option"
  ss_context_size :: u64
  ss_generation_tps :: "f64 option"

definition server_summary ::
  "('u, 'z) url_api_scheme \<Rightarrow> (rstr \<rightharpoonup> rstr) \<Rightarrow> (rstr \<rightharpoonup> LlmStats) \<Rightarrow> UiLlm \<Rightarrow> instant \<Rightarrow> rstr \<Rightarrow> ServerSummary" where
  "server_summary api endpoints registry ui now key = (let
       endpoint = unwrap_or [] (endpoints key); stats = registry key
     in \<lparr>ss_key = key, ss_endpoint = endpoint,
         ss_label = unwrap_or (safe_endpoint api endpoint) (opt_filter (\<lambda>m. m \<noteq> []) (map_option model stats)),
         ss_connected = is_some_and (\<lambda>s. connected s \<and> \<not> reconnecting s) stats,
         ss_reconnecting = is_some_and reconnecting stats,
         ss_phase = Option.bind stats activity_phase,
         ss_age_ms = server_sample_age_ms ui key now,
         ss_sample_interval_ms = server_sample_interval_ms ui key,
         ss_backend = (case stats of Some s \<Rightarrow> backend s | None \<Rightarrow> UnknownBackend),
         ss_slots_available = is_some_and slots_available stats,
         ss_slot_count = (case stats of Some s \<Rightarrow> slot_count s | None \<Rightarrow> 0),
         ss_busy_slots = (case stats of Some s \<Rightarrow> busy_slots s | None \<Rightarrow> 0),
         ss_props_slot_count = (case stats of Some s \<Rightarrow> props_slot_count s | None \<Rightarrow> 0),
         ss_context_used = Option.bind stats context_used,
         ss_context_size = (case stats of Some s \<Rightarrow> context_size s | None \<Rightarrow> 0),
         ss_generation_tps = Option.bind stats generation_tps\<rparr>)"

definition build_server_summaries ::
  "('u, 'z) url_api_scheme \<Rightarrow> rstr list \<Rightarrow> (rstr \<rightharpoonup> rstr) \<Rightarrow> (rstr \<rightharpoonup> LlmStats) \<Rightarrow> UiLlm \<Rightarrow> instant \<Rightarrow> ServerSummary list" where
  "build_server_summaries api order endpoints registry ui now = map (server_summary api endpoints registry ui now) order"

text \<open>The drain of the LLM channel, and what the pump publishes after it.\<close>

definition pump_llm :: "(LlmSample \<times> instant) list \<Rightarrow> App \<Rightarrow> App" where
  "pump_llm queue app = foldl (\<lambda>app (smp, now). fst (apply_llm_sample now smp app)) app queue"

definition pump_fast :: "FastSnapshot list \<Rightarrow> App \<Rightarrow> App" where
  "pump_fast queue app = foldl (\<lambda>app next. apply_fast_snapshot next app) app queue"

definition pump_snapshots ::
  "('u, 'z) url_api_scheme \<Rightarrow> bool \<Rightarrow> bool \<Rightarrow> FastSnapshot list \<Rightarrow> (LlmSample \<times> instant) list \<Rightarrow> instant \<Rightarrow> App \<Rightarrow>
     rstr + App \<times> ServerSummary list" where
  "pump_snapshots api fast_alive llm_alive fast_queue llm_queue now app = (let app = pump_fast fast_queue app in
     if \<not> fast_alive then Inl (lit ''fast monitoring worker stopped unexpectedly'')
     else let app = pump_llm llm_queue app in
       if \<not> llm_alive then Inl (lit ''LLM monitoring worker stopped unexpectedly'')
       else Inr (app, build_server_summaries api (ap_order app) (ap_endpoints app) (ap_registry app) (ap_ui app) now))"

section \<open>Pacing\<close>

definition IDLE_REDRAW_INTERVAL :: duration where "IDLE_REDRAW_INTERVAL = ms 250"
definition MAX_POLL_INTERVAL :: duration where "MAX_POLL_INTERVAL = ms 50"

record RedrawScheduler =
  rd_dirty :: bool
  rd_next_tick :: instant
  rd_interval :: duration

definition RedrawScheduler_new :: "instant \<Rightarrow> duration \<Rightarrow> RedrawScheduler" where
  "RedrawScheduler_new now interval = \<lparr>rd_dirty = True, rd_next_tick = now, rd_interval = interval\<rparr>"

definition mark_dirty :: "RedrawScheduler \<Rightarrow> RedrawScheduler" where
  "mark_dirty r = r\<lparr>rd_dirty := True\<rparr>"

definition should_paint :: "instant \<Rightarrow> RedrawScheduler \<Rightarrow> bool \<times> RedrawScheduler" where
  "should_paint now r = (if rd_dirty r \<or> rd_next_tick r \<le> now
     then (True, r\<lparr>rd_dirty := False, rd_next_tick := now + rd_interval r\<rparr>) else (False, r))"

definition poll_timeout :: "instant \<Rightarrow> RedrawScheduler \<Rightarrow> duration" where
  "poll_timeout now r = (if rd_dirty r then 0 else min (rd_next_tick r - now) MAX_POLL_INTERVAL)"

definition change_refresh :: "bool \<Rightarrow> u64 \<Rightarrow> u64" where
  "change_refresh increase refresh_ms = (if increase then min (sat_add refresh_ms REFRESH_STEP_MS) MAX_REFRESH_MS
     else max (sat_sub refresh_ms REFRESH_STEP_MS) MIN_REFRESH_MS)"

definition next_cycle_target :: "u64 \<Rightarrow> u64 \<Rightarrow> duration" where
  "next_cycle_target refresh_ms min_ms = ms (unat (clampw min_ms MAX_REFRESH_MS refresh_ms))"


section \<open>The invariant of the application's state\<close>

definition specs_ok :: "ServerSpec list \<Rightarrow> bool" where
  "specs_ok specs \<longleftrightarrow> specs \<noteq> [] \<and> distinct (map sv_key specs) \<and> [] \<notin> set (map sv_key specs)"

definition app_inv :: "App \<Rightarrow> bool" where
  "app_inv app \<longleftrightarrow> specs_ok (ap_server_list app) \<and>
     ap_order app = map sv_key (ap_server_list app) \<and>
     ap_endpoints app = endpoint_map (ap_server_list app) \<and>
     ap_selected app \<in> sv_key ` set (ap_server_list app) \<and>
     dom (ap_registry app) \<subseteq> sv_key ` set (ap_server_list app) \<and>
     ap_llm app = registry_or_default (ap_registry app) (ap_selected app) \<and>
     ui_inv (ap_selected app) (ap_ui app)"

lemma app_invD:
  assumes "app_inv app"
  shows "specs_ok (ap_server_list app)" "ap_order app = map sv_key (ap_server_list app)"
    "ap_endpoints app = endpoint_map (ap_server_list app)" "ap_selected app \<in> sv_key ` set (ap_server_list app)"
    "dom (ap_registry app) \<subseteq> sv_key ` set (ap_server_list app)"
    "ap_llm app = registry_or_default (ap_registry app) (ap_selected app)" "ui_inv (ap_selected app) (ap_ui app)"
  using assms unfolding app_inv_def by simp_all

lemma collect_map_snoc: "collect_map (xs @ [(k, v)]) = (collect_map xs)(k \<mapsto> v)"
  by (simp add: collect_map_def)

lemma collect_map_None: "collect_map xs k = None \<longleftrightarrow> k \<notin> fst ` set xs"
proof (induction xs rule: rev_induct)
  case (snoc x xs)
  then show ?case by (cases x) (auto simp: collect_map_snoc)
qed (simp add: collect_map_def)

lemma collect_map_distinct: "distinct (map fst xs) \<Longrightarrow> (k, v) \<in> set xs \<Longrightarrow> collect_map xs k = Some v"
proof (induction xs rule: rev_induct)
  case (snoc x xs)
  then show ?case by (cases x) (auto simp: collect_map_snoc rev_image_eqI)
qed simp

lemma endpoint_map_None [simp]: "endpoint_map specs k = None \<longleftrightarrow> k \<notin> sv_key ` set specs"
  by (simp add: endpoint_map_def collect_map_None image_image)

lemma endpoint_map_Some: "endpoint_map specs k = Some e \<Longrightarrow> k \<in> sv_key ` set specs"
  using endpoint_map_None [of specs k] by (metis option.distinct(1))

lemma dom_endpoint_map [simp]: "dom (endpoint_map specs) = sv_key ` set specs"
proof (rule set_eqI)
  show "k \<in> dom (endpoint_map specs) \<longleftrightarrow> k \<in> sv_key ` set specs" for k
    unfolding domIff endpoint_map_None not_not ..
qed

lemma endpoint_map_key:
  "specs_ok specs \<Longrightarrow> spec \<in> set specs \<Longrightarrow> endpoint_map specs (sv_key spec) = Some (sv_endpoint spec)"
  unfolding endpoint_map_def specs_ok_def by (rule collect_map_distinct) (auto simp: comp_def)

lemma registry_or_default_upd [simp]:
  "registry_or_default (m(k \<mapsto> v)) k' = (if k' = k then v else registry_or_default m k')"
  "registry_or_default (m |` A) k' = (if k' \<in> A then registry_or_default m k' else LlmStats_default)"
  by (simp_all add: registry_or_default_def restrict_map_def)

lemma publish_fields [simp]:
  "ap_server_list (publish_selected_mapping i app) = ap_server_list app"
  "ap_overflow (publish_selected_mapping i app) = ap_overflow app"
  "ap_order (publish_selected_mapping i app) = ap_order app"
  "ap_endpoints (publish_selected_mapping i app) = ap_endpoints app"
  "ap_registry (publish_selected_mapping i app) = ap_registry app"
  "ap_selected (publish_selected_mapping i app) = ap_selected app"
  "ap_llm_generation (publish_selected_mapping i app) = ap_llm_generation app"
  "ap_llm (publish_selected_mapping i app) = ap_llm app"
  "ap_gpu_map (publish_selected_mapping i app) = ap_gpu_map app"
  "ap_ui (publish_selected_mapping i app) = ap_ui app"
  "ap_commands (publish_selected_mapping i app) = ap_commands app"
  "ap_mapping_generation (publish_selected_mapping i app) = ap_mapping_generation app + 1"
  "ap_identities (publish_selected_mapping i app) = ap_identities app @ [(ap_mapping_generation app + 1, i)]"
  by (simp_all add: publish_selected_mapping_def)

lemma ui_inv_resets: "ui_inv selected ui \<Longrightarrow> ui_inv selected (foldl (\<lambda>ui key. reset_llm_history key ui) ui keys)"
  by (induction keys arbitrary: ui) (auto simp: reset_step)

lemma first_or_empty_in: "order \<noteq> [] \<Longrightarrow> first_or_empty order \<in> set order"
  by (cases order) (auto simp: first_or_empty_def)

text \<open>What the replacement leaves, field by field.\<close>

lemma replace_servers_fields:
  "ap_server_list (replace_servers l app) = l"
  "ap_order (replace_servers l app) = map sv_key l"
  "ap_endpoints (replace_servers l app) = endpoint_map l"
  "ap_registry (replace_servers l app) = ap_registry app |` (sv_key ` set l)"
  "ap_selected (replace_servers l app) = (if ap_selected app \<in> sv_key ` set l then ap_selected app else first_or_empty (map sv_key l))"
  "ap_llm (replace_servers l app) = (if ap_selected app \<in> sv_key ` set l then ap_llm app
     else registry_or_default (ap_registry app |` (sv_key ` set l)) (first_or_empty (map sv_key l)))"
  "ap_llm_generation (replace_servers l app) = ap_llm_generation app + 1"
  "ap_mapping_generation (replace_servers l app) = ap_mapping_generation app + 1"
  "ap_gpu_map (replace_servers l app) = MapNone"
  "ap_commands (replace_servers l app) = ap_commands app @ [SetServers (ap_llm_generation app + 1) l]"
  "ap_identities (replace_servers l app) = ap_identities app @ [(ap_mapping_generation app + 1,
     selected_identity_of l (ap_selected (replace_servers l app)))]"
  "ap_ui (replace_servers l app) = (let ui = retain_llm_histories (sv_key ` set l)
       (foldl (\<lambda>ui key. reset_llm_history key ui) (ap_ui app) (changed_identity_keys (ap_server_list app) l))
     in if ap_selected app \<in> sv_key ` set l then ui else select_llm_history (first_or_empty (map sv_key l)) ui)"
  unfolding replace_servers_def by (auto simp: Let_def)

lemma app_inv_replace:
  assumes "app_inv app" "specs_ok l"
  shows "app_inv (replace_servers l app)"
proof -
  note inv = app_invD [OF assms(1)]
  have ne: "first_or_empty (map sv_key l) \<in> sv_key ` set l"
    using first_or_empty_in [of "map sv_key l"] assms(2) by (simp add: specs_ok_def)
  have ui: "ui_inv (ap_selected app) (retain_llm_histories (sv_key ` set l)
       (foldl (\<lambda>ui key. reset_llm_history key ui) (ap_ui app) (changed_identity_keys (ap_server_list app) l)))"
    by (intro retain_step ui_inv_resets inv(7))
  show ?thesis using ne ui assms(2) inv(6)
    by (auto simp: app_inv_def replace_servers_fields Let_def select_step)
qed

lemma app_inv_sync:
  assumes "app_inv app" "specs_ok (sl_monitored next)"
  shows "app_inv (sync_server_set next app)"
proof -
  have "app_inv (app\<lparr>ap_overflow := x\<rparr>)" for x using assms(1) by (simp add: app_inv_def)
  then show ?thesis using app_inv_replace assms by (auto simp: sync_server_set_def Let_def)
qed

lemma app_inv_select: "app_inv app \<Longrightarrow> app_inv (select_server sel app)"
  by (auto simp: select_server_def app_inv_def Let_def select_step split: option.split)

lemma app_inv_start:
  assumes "specs_ok (sl_monitored servers)"
  shows "app_inv (app_start resolved servers default_selected)"
proof -
  have "first_or_empty (map sv_key (sl_monitored servers)) \<in> sv_key ` set (sl_monitored servers)"
    using first_or_empty_in [of "map sv_key (sl_monitored servers)"] assms by (simp add: specs_ok_def)
  moreover have "endpoint_map (sl_monitored servers) default_selected = Some y \<Longrightarrow> default_selected \<in> sv_key ` set (sl_monitored servers)" for y
    by (rule endpoint_map_Some)
  ultimately show ?thesis using assms
    by (auto simp: app_start_def app_inv_def Let_def ui_inv_default registry_or_default_def)
qed

lemma app_inv_llm_sample:
  assumes "app_inv app"
  shows "app_inv (fst (apply_llm_sample now smp app))"
proof (cases "smp_server smp \<in> sv_key ` set (ap_server_list app)")
  case True
  note inv = app_invD [OF assms]
  have "smp_server smp \<noteq> []" using True inv(1) by (auto simp: specs_ok_def)
  from record_step(2) [OF inv(7) this] show ?thesis
    using assms True by (auto simp: apply_llm_sample_def app_inv_def)
qed (use assms in \<open>simp add: apply_llm_sample_def app_inv_def\<close>)

lemma app_inv_fast: "app_inv app \<Longrightarrow> app_inv (apply_fast_snapshot next app)"
  by (auto simp: apply_fast_snapshot_def app_inv_def)

section \<open>The offline grace over a session\<close>

fun poll_run :: "duration \<Rightarrow> (LlmStats \<times> instant) option \<Rightarrow> (LlmStats \<times> instant) list \<Rightarrow> LlmStats list" where
  "poll_run grace held [] = []"
| "poll_run grace held ((raw, now) # polls) = (case stabilize_llm_sample raw held now grace of
     (shown, held) \<Rightarrow> shown # poll_run grace held polls)"

text \<open>The last connected poll before the \<open>i\<close>-th, and what the \<open>i\<close>-th shows: the reference.\<close>

definition last_connected :: "(LlmStats \<times> instant) list \<Rightarrow> (LlmStats \<times> instant) option" where
  "last_connected polls = find (\<lambda>(raw, _). connected raw) (rev polls)"

definition shown_at :: "duration \<Rightarrow> (LlmStats \<times> instant) list \<Rightarrow> nat \<Rightarrow> LlmStats" where
  "shown_at grace polls i = (case polls ! i of (raw, now) \<Rightarrow>
     if connected raw then raw\<lparr>reconnecting := False\<rparr>
     else if hard_failure (error_text raw) then raw
     else case last_connected (take i polls) of
         Some (previous, at_time) \<Rightarrow> if now - at_time \<le> grace then previous\<lparr>error_text := [], reconnecting := True\<rparr> else raw
       | None \<Rightarrow> raw)"

definition held_after :: "(LlmStats \<times> instant) list \<Rightarrow> (LlmStats \<times> instant) option" where
  "held_after polls = map_option (\<lambda>(raw, t). (raw\<lparr>reconnecting := False\<rparr>, t)) (last_connected polls)"

lemma stabilize_held:
  "stabilize_llm_sample raw (held_after before) now grace =
     (shown_at grace (before @ (raw, now) # polls) (length before), held_after (before @ [(raw, now)]))"
  by (auto simp: stabilize_llm_sample_def held_after_def shown_at_def last_connected_def Let_def split: option.split)

lemma poll_run_held:
  "poll_run grace (held_after before) polls = map (shown_at grace (before @ polls)) [length before..<length before + length polls]"
proof (induction polls arbitrary: before)
  case (Cons p polls)
  obtain raw now where p: "p = (raw, now)" by fastforce
  show ?case using Cons.IH [of "before @ [p]"] stabilize_held [of raw before now grace polls]
    by (simp add: p upt_conv_Cons del: upt_Suc)
qed simp

text \<open>
  C7: over any sequence of polls of a server, what each poll shows is determined by the last
  connected poll before it: a connected poll is shown as it is; a failure that the server explains
  is shown at once; any other failure shows the last connected poll, without its error and marked
  as reconnecting, while that poll is no older than the grace period, and the failure after it.
\<close>

theorem offline_grace_run:
  "poll_run grace None polls = map (shown_at grace polls) [0..<length polls]"
  using poll_run_held [of grace "[]" polls] by (simp add: held_after_def last_connected_def)

section \<open>Pacing of repaints\<close>

text \<open>
  The loop of \<^verbatim>\<open>run\<close> as the scheduler sees it: each turn happens at an instant, marks the
  scheduler dirty when something arrived, and asks whether to paint.
\<close>

fun paint_turns :: "(instant \<times> bool) list \<Rightarrow> RedrawScheduler \<Rightarrow> bool list \<times> RedrawScheduler" where
  "paint_turns [] r = ([], r)"
| "paint_turns ((now, event) # turns) r = (let
       r = (if event then mark_dirty r else r);
       (painted, r) = should_paint now r;
       (rest, r) = paint_turns turns r
     in (painted # rest, r))"

text \<open>The instants of the paints of a run, as a reference: an event, or the interval elapsed.\<close>

fun paint_times :: "duration \<Rightarrow> instant option \<Rightarrow> (instant \<times> bool) list \<Rightarrow> bool list" where
  "paint_times interval last_paint [] = []"
| "paint_times interval last_paint ((now, event) # turns) = (let
       painted = (event \<or> (case last_paint of None \<Rightarrow> True | Some t \<Rightarrow> t + interval \<le> now))
     in painted # paint_times interval (if painted then Some now else last_paint) turns)"

lemma paint_turns_painted:
  "rd_interval r = interval \<Longrightarrow> \<not> rd_dirty r \<Longrightarrow> rd_next_tick r = t + interval \<Longrightarrow>
   fst (paint_turns turns r) = paint_times interval (Some t) turns"
proof (induction turns arbitrary: r t)
  case (Cons turn turns)
  obtain now event where t: "turn = (now, event)" by fastforce
  show ?case using Cons.prems Cons.IH [of r t] Cons.IH [of "r\<lparr>rd_dirty := False, rd_next_tick := now + interval\<rparr>" now]
    by (auto simp: t should_paint_def mark_dirty_def Let_def split: prod.split)
qed simp

text \<open>
  C0: the first turn paints; after it a turn paints exactly when something arrived for it or the
  redraw interval has passed since the last paint; and while nothing is pending the loop waits no
  longer than to the next due paint and than \<open>MAX_POLL_INTERVAL\<close>.
\<close>

theorem redraw_pacing:
  "fst (paint_turns turns (RedrawScheduler_new start interval)) =
     (case turns of [] \<Rightarrow> [] | (now, _) # rest \<Rightarrow> True # paint_times interval (Some now) rest) \<and>
   (let (painted, r) = should_paint now (snd (paint_turns turns (RedrawScheduler_new start interval)))
    in poll_timeout now r \<le> MAX_POLL_INTERVAL \<and> now + poll_timeout now r \<le> max now (rd_next_tick r) \<and>
       (painted \<longrightarrow> rd_next_tick r = now + interval))"
proof -
  have "fst (paint_turns turns (RedrawScheduler_new start interval)) =
     (case turns of [] \<Rightarrow> [] | (now, _) # rest \<Rightarrow> True # paint_times interval (Some now) rest)"
  proof (cases turns)
    case (Cons turn rest)
    then show ?thesis
      using paint_turns_painted [of "\<lparr>rd_dirty = False, rd_next_tick = fst turn + interval, rd_interval = interval\<rparr>" interval "fst turn" rest]
      by (cases turn) (simp add: RedrawScheduler_new_def should_paint_def mark_dirty_def Let_def case_prod_unfold)
  qed simp
  moreover have "rd_interval (snd (paint_turns turns r)) = rd_interval r" for r
    by (induction turns r rule: paint_turns.induct)
       (auto simp: should_paint_def mark_dirty_def Let_def split: prod.split)
  ultimately show ?thesis
    by (auto simp: should_paint_def poll_timeout_def RedrawScheduler_new_def Let_def)
qed

theorem redraw_pacing_witness:
  "fst (paint_turns [(3, False), (5, False), (7, True), (260, False)] (RedrawScheduler_new 0 250)) = [True, False, True, True]"
  using redraw_pacing [of "[(3, False), (5, False), (7, True), (260, False)]" 0 250] by simp

end
