(* ===== verification/Workers.thy ===== *)
theory Workers
  imports AppServer "HOL-Library.Sublist"
begin

text \<open>
  The two workers and the application loop as one asynchronous system, from
  \<^verbatim>\<open>src/app/workers.rs\<close> and \<^verbatim>\<open>src/app/server.rs\<close>: the poll slots, the poll
  threads that run beside the loop, the channels in between, and every interleaving of their
  steps.  A monitor that slots and threads share is an address in a store; its mutex makes the end
  of a poll one step.  The components named \<open>gh_\<close> are auxiliary: no step reads them.
\<close>

section \<open>The slots of the LLM worker\<close>

record ServerMonitor =
  sm_key :: rstr
  sm_monitor :: "LlamaMonitor option"
  sm_init_error :: rstr
  sm_last_good :: "(LlmStats \<times> instant) option"

text \<open>\<open>client_ok\<close> tells whether the HTTP client of an endpoint can be built.\<close>

definition new_server_monitor :: "(rstr \<Rightarrow> bool) \<Rightarrow> ServerSpec \<Rightarrow> ServerMonitor" where
  "new_server_monitor client_ok spec = (let
       monitor = (if client_ok (sv_endpoint spec) then Some (LlamaMonitor_new (sv_endpoint spec)) else None)
     in \<lparr>sm_key = sv_key spec, sm_monitor = monitor,
         sm_init_error = (if monitor = None then lit ''failed to initialize HTTP client'' else []), sm_last_good = None\<rparr>)"

record PollSlot =
  sl_spec :: ServerSpec
  sl_addr :: nat

text \<open>
  The worker's heap: the monitors and in-flight flags by address, and the next free address.
\<close>

record Heap =
  hp_monitor :: "nat \<rightharpoonup> ServerMonitor"
  hp_in_flight :: "nat \<Rightarrow> bool"
  hp_next :: nat
  gh_origin :: "nat \<Rightarrow> ServerSpec"

definition new_slot :: "(rstr \<Rightarrow> bool) \<Rightarrow> ServerSpec \<Rightarrow> Heap \<Rightarrow> PollSlot \<times> Heap" where
  "new_slot client_ok spec h = (\<lparr>sl_spec = spec, sl_addr = hp_next h\<rparr>,
     h\<lparr>hp_monitor := (hp_monitor h)(hp_next h \<mapsto> new_server_monitor client_ok spec),
       hp_in_flight := (hp_in_flight h)(hp_next h := False), hp_next := hp_next h + 1,
       gh_origin := (gh_origin h)(hp_next h := spec)\<rparr>)"

definition pick_slot :: "(rstr \<Rightarrow> bool) \<Rightarrow> PollSlot option \<Rightarrow> ServerSpec \<Rightarrow> Heap \<Rightarrow> PollSlot \<times> Heap" where
  "pick_slot client_ok old spec h = (case old of
     Some existing \<Rightarrow> if sl_spec existing = spec then (existing, h) else new_slot client_ok spec h
   | None \<Rightarrow> new_slot client_ok spec h)"

fun rebuild_from :: "(rstr \<Rightarrow> bool) \<Rightarrow> (rstr \<rightharpoonup> PollSlot) \<Rightarrow> ServerSpec list \<Rightarrow> Heap \<Rightarrow> PollSlot list \<times> Heap" where
  "rebuild_from client_ok old [] h = ([], h)"
| "rebuild_from client_ok old (spec # specs) h = (let
       (slot, h) = pick_slot client_ok (old (sv_key spec)) spec h;
       (slots, h) = rebuild_from client_ok (old(sv_key spec := None)) specs h
     in (slot # slots, h))"

definition rebuild_poll_slots :: "(rstr \<Rightarrow> bool) \<Rightarrow> PollSlot list \<Rightarrow> ServerSpec list \<Rightarrow> Heap \<Rightarrow> PollSlot list \<times> Heap" where
  "rebuild_poll_slots client_ok existing specs h =
     rebuild_from client_ok (collect_map (map (\<lambda>slot. (sv_key (sl_spec slot), slot)) existing)) specs h"

text \<open>What one poll thread does with the monitor it has locked.\<close>

definition poll_server ::
  "(rstr \<Rightarrow> json option) \<Rightarrow> ('u, 'z) url_api_scheme \<Rightarrow> Poll \<Rightarrow> instant \<Rightarrow> duration \<Rightarrow> ServerMonitor \<Rightarrow> ServerMonitor \<times> LlmStats" where
  "poll_server from_str api p now offline_grace server = (let
       (monitor, raw_stats) = (case sm_monitor server of
           Some m \<Rightarrow> (case sample from_str api m p of (m', stats) \<Rightarrow> (Some m', stats))
         | None \<Rightarrow> (None, LlmStats_default\<lparr>error_text := sm_init_error server\<rparr>));
       (stats, last_good) = stabilize_llm_sample raw_stats (sm_last_good server) now offline_grace
     in (server\<lparr>sm_monitor := monitor, sm_last_good := last_good\<rparr>, stats))"

section \<open>The fast worker's view of the selected process\<close>

record FastWorker =
  fw_identity :: "LocalServerIdentity option"
  fw_generation :: u64
  fw_gpu_map :: GpuMapping

definition take_identity :: "u64 \<times> LocalServerIdentity option \<Rightarrow> FastWorker \<Rightarrow> FastWorker" where
  "take_identity msg w = (case msg of (generation, identity) \<Rightarrow>
     w\<lparr>fw_generation := generation, fw_identity := identity, fw_gpu_map := MapNone\<rparr>)"

definition refresh_mapping ::
  "(u32 \<Rightarrow> u64 option) \<Rightarrow> (u32 \<Rightarrow> DeviceId list) \<Rightarrow> (u32 \<Rightarrow> DeviceId list) \<Rightarrow> DiscoveredGpu list \<Rightarrow> FastWorker \<Rightarrow> FastWorker" where
  "refresh_mapping current_start render nvml gpus w = w\<lparr>fw_gpu_map := (case fw_identity w of
       Some expected \<Rightarrow> map_server_identity expected (current_start (ls_pid expected)) (render (ls_pid expected))
         (nvml (ls_pid expected)) gpus
     | None \<Rightarrow> MapNone)\<rparr>"

definition fast_snapshot :: "FastWorker \<Rightarrow> FastSnapshot" where
  "fast_snapshot w = \<lparr>fs_gpu_map = fw_gpu_map w, fs_mapping_generation = fw_generation w\<rparr>"

section \<open>The system\<close>

text \<open>
  The poll threads are the addresses they hold, each with the generation it was started under.
  A result is a sample with, as an auxiliary, the address of the monitor that made it; likewise a
  fast snapshot with the identity it was made for.  \<open>gh_sets\<close> and \<open>gh_targets\<close> are the
  server sets and the mapping targets the application has published, the first at the start.
\<close>

record System =
  sy_app :: App
  wk_generation :: u64
  wk_slots :: "PollSlot list"
  wk_heap :: Heap
  wk_polls :: "(nat \<times> u64) list"
  wk_results :: "(LlmSample \<times> nat) list"
  ch_llm :: "(LlmSample \<times> nat) list"
  ch_llm_drops :: u64
  wk_fast :: FastWorker
  ch_fast :: "(FastSnapshot \<times> LocalServerIdentity option) list"
  ch_fast_drops :: u64
  gh_sets :: "ServerSpec list list"
  gh_targets :: "LocalServerIdentity option list"

definition initial_heap :: Heap where
  "initial_heap = \<lparr>hp_monitor = Map.empty, hp_in_flight = (\<lambda>_. False), hp_next = 0,
     gh_origin = (\<lambda>_. \<lparr>sv_key = [], sv_endpoint = [], sv_identity = None\<rparr>)\<rparr>"

definition system_start :: "(rstr \<Rightarrow> bool) \<Rightarrow> ResolvedServer \<Rightarrow> ServerList \<Rightarrow> rstr \<Rightarrow> System" where
  "system_start client_ok resolved servers default_selected = (let
       app = app_start resolved servers default_selected;
       (slots, h) = rebuild_from client_ok Map.empty (sl_monitored servers) initial_heap
     in \<lparr>sy_app = app, wk_generation = 0, wk_slots = slots, wk_heap = h, wk_polls = [], wk_results = [],
         ch_llm = [], ch_llm_drops = 0,
         wk_fast = \<lparr>fw_identity = None, fw_generation = 0, fw_gpu_map = MapNone\<rparr>, ch_fast = [], ch_fast_drops = 0,
         gh_sets = [sl_monitored servers],
         gh_targets = [None, selected_identity_of (ap_server_list app) (ap_selected app)]\<rparr>)"

text \<open>What the operations of the loop publish, as the auxiliary components record it.\<close>

definition published_sets :: "App \<Rightarrow> App \<Rightarrow> ServerSpec list list" where
  "published_sets app app' = (if ap_commands app' = ap_commands app then [] else [ap_server_list app'])"

definition published_targets :: "App \<Rightarrow> App \<Rightarrow> LocalServerIdentity option list" where
  "published_targets app app' = (if ap_identities app' = ap_identities app then []
     else [selected_identity_of (ap_server_list app') (ap_selected app')])"

definition with_app :: "App \<Rightarrow> System \<Rightarrow> System" where
  "with_app app' s = s\<lparr>sy_app := app', gh_sets := gh_sets s @ published_sets (sy_app s) app',
     gh_targets := gh_targets s @ published_targets (sy_app s) app'\<rparr>"

text \<open>
  The steps: a resynchronisation under any settings and any two scans of the processes, a selection, the worker taking a command, a poll started and
  ended, a result sent on, a sample taken by the loop; and, of the mapping, an identity taken, a
  mapping recomputed, a snapshot sent, and one taken by the loop.  Fewer than \<open>2^64\<close> sets and
  targets are ever published, so that no generation is used twice.
\<close>

inductive step ::
  "(rstr \<Rightarrow> json option) \<Rightarrow> ('u, 'z) url_api_scheme \<Rightarrow> (rstr \<Rightarrow> bool) \<Rightarrow> System \<Rightarrow> System \<Rightarrow> bool"
  for from_str api client_ok where
  resync: "length (gh_sets s) < 2 ^ 64 \<Longrightarrow> length (gh_targets s) < 2 ^ 64 \<Longrightarrow>
    step from_str api client_ok s (with_app (sync_server_set (collect_server_list_with api sys' settings)
      (update_resolved_server (resolve_monitor_target_with sys settings) (sy_app s))) s)"
| select: "length (gh_targets s) < 2 ^ 64 \<Longrightarrow>
    step from_str api client_ok s (with_app (select_server sel (sy_app s)) s)"
| take_command: "ap_commands (sy_app s) = SetServers generation specs # commands \<Longrightarrow>
    rebuild_poll_slots client_ok (wk_slots s) specs (wk_heap s) = (slots, h) \<Longrightarrow>
    step from_str api client_ok s (s\<lparr>sy_app := (sy_app s)\<lparr>ap_commands := commands\<rparr>, wk_generation := generation,
      wk_slots := slots, wk_heap := h\<rparr>)"
| start_poll: "slot \<in> set (wk_slots s) \<Longrightarrow> \<not> hp_in_flight (wk_heap s) (sl_addr slot) \<Longrightarrow>
    step from_str api client_ok s (s\<lparr>wk_heap := (wk_heap s)\<lparr>hp_in_flight := (hp_in_flight (wk_heap s))(sl_addr slot := True)\<rparr>,
      wk_polls := wk_polls s @ [(sl_addr slot, wk_generation s)]\<rparr>)"
| end_poll: "wk_polls s = before @ (addr, generation) # after \<Longrightarrow> hp_monitor (wk_heap s) addr = Some server \<Longrightarrow>
    poll_server from_str api p now offline_grace server = (server', stats) \<Longrightarrow>
    step from_str api client_ok s (s\<lparr>wk_polls := before @ after,
      wk_heap := (wk_heap s)\<lparr>hp_monitor := (hp_monitor (wk_heap s))(addr \<mapsto> server'),
        hp_in_flight := (hp_in_flight (wk_heap s))(addr := False)\<rparr>,
      wk_results := wk_results s @ [(\<lparr>smp_server = sm_key server, smp_generation = generation, smp_stats = stats\<rparr>, addr)]\<rparr>)"
| forward: "wk_results s = r # results \<Longrightarrow>
    try_send_snapshot MAX_MONITORED_SERVERS True r (ch_llm s, ch_llm_drops s) = (ok, queue, drops) \<Longrightarrow>
    step from_str api client_ok s (s\<lparr>wk_results := results, ch_llm := queue, ch_llm_drops := drops\<rparr>)"
| deliver: "ch_llm s = (smp, addr) # queue \<Longrightarrow>
    step from_str api client_ok s (s\<lparr>ch_llm := queue, sy_app := fst (apply_llm_sample now smp (sy_app s))\<rparr>)"
| take_target: "ap_identities (sy_app s) = msg # msgs \<Longrightarrow>
    step from_str api client_ok s (s\<lparr>sy_app := (sy_app s)\<lparr>ap_identities := msgs\<rparr>, wk_fast := take_identity msg (wk_fast s)\<rparr>)"
| refresh: "step from_str api client_ok s (s\<lparr>wk_fast := refresh_mapping current_start render nvml gpus (wk_fast s)\<rparr>)"
| send_fast: "try_send_snapshot 2 True (fast_snapshot (wk_fast s), fw_identity (wk_fast s)) (ch_fast s, ch_fast_drops s) = (ok, queue, drops) \<Longrightarrow>
    step from_str api client_ok s (s\<lparr>ch_fast := queue, ch_fast_drops := drops\<rparr>)"
| deliver_fast: "ch_fast s = (next, identity) # queue \<Longrightarrow>
    step from_str api client_ok s (s\<lparr>ch_fast := queue, sy_app := apply_fast_snapshot next (sy_app s)\<rparr>)"

inductive reachable ::
  "(rstr \<Rightarrow> json option) \<Rightarrow> ('u, 'z) url_api_scheme \<Rightarrow> (rstr \<Rightarrow> bool) \<Rightarrow> System \<Rightarrow> bool"
  for from_str api client_ok where
  start: "reachable from_str api client_ok (system_start client_ok (resolve_monitor_target_with sys settings)
    (collect_server_list_with api sys' settings) default_selected)"
| more: "reachable from_str api client_ok s \<Longrightarrow> step from_str api client_ok s s' \<Longrightarrow> reachable from_str api client_ok s'"

inductive_cases stepE: "step from_str api client_ok s s'"

section \<open>Generations\<close>

text \<open>What a publisher has published, with the generation of each publication.\<close>

definition numbered :: "'c list \<Rightarrow> (u64 \<times> 'c) list" where
  "numbered cs = zip (map of_nat [0..<length cs]) cs"

lemma numbered_snoc: "numbered (cs @ [c]) = numbered cs @ [(of_nat (length cs), c)]"
  by (simp add: numbered_def)

lemma numbered_mono: "x \<in> set (numbered cs) \<Longrightarrow> x \<in> set (numbered (cs @ ds))"
proof (induction ds rule: rev_induct)
  case (snoc d ds)
  then show ?case using numbered_snoc [of "cs @ ds" d] by simp
qed simp

lemma numbered_Nil [simp]: "numbered cs = [] \<longleftrightarrow> cs = []"
  by (simp add: numbered_def)

lemma snd_numbered: "x \<in> set (numbered cs) \<Longrightarrow> snd x \<in> set cs"
  unfolding numbered_def by (metis prod.collapse set_zip_rightD)

lemma last_numbered: "cs \<noteq> [] \<Longrightarrow> last (numbered cs) = (of_nat (length cs - 1), last cs)"
  by (cases cs rule: rev_cases) (auto simp: numbered_snoc)

text \<open>With fewer than \<open>2^64\<close> publications a generation names one of them.\<close>

lemma numbered_unique:
  assumes "length cs \<le> 2 ^ 64" "(g, c) \<in> set (numbered cs)" "(g, c') \<in> set (numbered cs)"
  shows "c = c'"
proof -
  obtain i j where i: "i < length cs" "g = of_nat i" "c = cs ! i"
    and j: "j < length cs" "g = of_nat j" "c' = cs ! j"
    using assms(2,3) by (auto simp: numbered_def in_set_zip)
  have "(of_nat i :: u64) = of_nat j" using i j by simp
  then have "unat (of_nat i :: u64) = unat (of_nat j :: u64)" by (rule arg_cong)
  then have "i = j" using assms(1) i j by (simp add: unat_of_nat)
  then show ?thesis using i j by simp
qed

text \<open>
  The contract of a receiver that keeps only the messages of the current generation: a message it
  keeps is about the last publication, when the sender tags each message with the publication it
  is about.
\<close>

locale generation_gate =
  fixes accepts :: "u64 \<Rightarrow> 'm \<Rightarrow> bool"
    and tag :: "'m \<Rightarrow> u64"
  assumes accepts_iff: "accepts g m \<longleftrightarrow> tag m = g"
begin

lemma accepted_current:
  assumes "length cs \<le> 2 ^ 64" "cs \<noteq> []" "(tag m, c) \<in> set (numbered cs)"
    and "last (numbered cs) = (current, c')" "accepts current m"
  shows "c = c'"
proof (rule numbered_unique [OF assms(1)])
  show "(current, c) \<in> set (numbered cs)" using assms(3,5) by (simp add: accepts_iff)
  show "(current, c') \<in> set (numbered cs)"
    using assms(2,4) last_in_set [of "numbered cs"] by simp
qed

lemma rejected_stale:
  assumes "length cs \<le> 2 ^ 64" "cs \<noteq> []" "(tag m, c) \<in> set (numbered cs)"
    and "last (numbered cs) = (current, c')" "c \<noteq> c'"
  shows "\<not> accepts current m"
  using accepted_current [OF assms(1-4)] assms(5) by blast

end

interpretation lg: generation_gate accepts_llm_sample smp_generation
  by unfold_locales (simp add: accepts_llm_sample_def)

interpretation fg: generation_gate "\<lambda>current next. fs_mapping_generation next = current" fs_mapping_generation
  by unfold_locales simp

section \<open>What the application publishes\<close>

definition app_identity :: "App \<Rightarrow> LocalServerIdentity option" where
  "app_identity app = selected_identity_of (ap_server_list app) (ap_selected app)"

definition publishes :: "App \<Rightarrow> App \<Rightarrow> bool" where
  "publishes app app' \<longleftrightarrow>
     (ap_commands app' = ap_commands app \<and> ap_llm_generation app' = ap_llm_generation app \<and> ap_server_list app' = ap_server_list app \<or>
      ap_commands app' = ap_commands app @ [SetServers (ap_llm_generation app + 1) (ap_server_list app')] \<and>
      ap_llm_generation app' = ap_llm_generation app + 1) \<and>
     (ap_identities app' = ap_identities app \<and> ap_mapping_generation app' = ap_mapping_generation app \<and>
      app_identity app' = app_identity app \<and> ap_gpu_map app' = ap_gpu_map app \<or>
      ap_identities app' = ap_identities app @ [(ap_mapping_generation app + 1, app_identity app')] \<and>
      ap_mapping_generation app' = ap_mapping_generation app + 1 \<and> ap_gpu_map app' = MapNone)"

lemma publishes_replace: "publishes app (replace_servers l app)"
  by (simp add: publishes_def app_identity_def replace_servers_fields(1,6-) del: replace_servers_fields(5))

lemma update_resolved_fields [simp]:
  "ap_server_list (update_resolved_server t app) = ap_server_list app"
  "ap_selected (update_resolved_server t app) = ap_selected app"
  "ap_commands (update_resolved_server t app) = ap_commands app"
  "ap_identities (update_resolved_server t app) = ap_identities app"
  "ap_llm_generation (update_resolved_server t app) = ap_llm_generation app"
  "ap_mapping_generation (update_resolved_server t app) = ap_mapping_generation app"
  "ap_gpu_map (update_resolved_server t app) = ap_gpu_map app"
  by (simp_all add: update_resolved_server_def Let_def)

lemma app_inv_resolved: "app_inv app \<Longrightarrow> app_inv (update_resolved_server t app)"
  by (simp add: update_resolved_server_def Let_def app_inv_def)

lemma publishes_cong:
  "ap_commands app = ap_commands app0 \<Longrightarrow> ap_llm_generation app = ap_llm_generation app0 \<Longrightarrow> ap_server_list app = ap_server_list app0 \<Longrightarrow>
   ap_identities app = ap_identities app0 \<Longrightarrow> ap_mapping_generation app = ap_mapping_generation app0 \<Longrightarrow>
   ap_selected app = ap_selected app0 \<Longrightarrow> ap_gpu_map app = ap_gpu_map app0 \<Longrightarrow> publishes app app' \<Longrightarrow> publishes app0 app'"
  by (simp add: publishes_def app_identity_def)

lemma publishes_refl: "publishes app app"
  by (simp add: publishes_def)

lemma publishes_sync: "publishes app (sync_server_set next (update_resolved_server t app))"
proof (rule publishes_cong [of "(update_resolved_server t app)\<lparr>ap_overflow := sl_overflow next\<rparr>"])
  show "publishes ((update_resolved_server t app)\<lparr>ap_overflow := sl_overflow next\<rparr>)
      (sync_server_set next (update_resolved_server t app))"
    unfolding sync_server_set_def Let_def
    by (auto simp: publishes_replace) (auto simp: publishes_def app_identity_def)
qed simp_all

lemma publishes_select: "publishes app (select_server sel app)"
  by (auto simp: select_server_def Let_def publishes_def app_identity_def split: option.split)

lemma published_sets_cases:
  assumes "publishes app app'"
  shows "published_sets app app' = [] \<and> ap_commands app' = ap_commands app \<and> ap_llm_generation app' = ap_llm_generation app \<and>
       ap_server_list app' = ap_server_list app \<or>
     published_sets app app' = [ap_server_list app'] \<and> ap_llm_generation app' = ap_llm_generation app + 1 \<and>
       ap_commands app' = ap_commands app @ [SetServers (ap_llm_generation app + 1) (ap_server_list app')]"
  using assms by (auto simp: publishes_def published_sets_def)

lemma published_targets_cases:
  assumes "publishes app app'"
  shows "published_targets app app' = [] \<and> ap_identities app' = ap_identities app \<and> ap_mapping_generation app' = ap_mapping_generation app \<and>
       app_identity app' = app_identity app \<and> ap_gpu_map app' = ap_gpu_map app \<or>
     published_targets app app' = [app_identity app'] \<and> ap_mapping_generation app' = ap_mapping_generation app + 1 \<and>
       ap_identities app' = ap_identities app @ [(ap_mapping_generation app + 1, app_identity app')] \<and> ap_gpu_map app' = MapNone"
  using assms by (auto simp: publishes_def published_targets_def app_identity_def)

section \<open>The publications in flight\<close>

text \<open>
  What a worker holds, followed by what waits for it, is the end of what has been published: no
  publication is lost, reordered or taken twice.
\<close>

definition command_pair :: "LlmCommand \<Rightarrow> u64 \<times> ServerSpec list" where
  "command_pair c = (case c of SetServers g specs \<Rightarrow> (g, specs))"

definition llm_chain :: "System \<Rightarrow> (u64 \<times> ServerSpec list) list" where
  "llm_chain s = (wk_generation s, map sl_spec (wk_slots s)) # map command_pair (ap_commands (sy_app s))"

definition fast_chain :: "System \<Rightarrow> (u64 \<times> LocalServerIdentity option) list" where
  "fast_chain s = (fw_generation (wk_fast s), fw_identity (wk_fast s)) # ap_identities (sy_app s)"

definition publisher_inv :: "'c list \<Rightarrow> (u64 \<times> 'c) list \<Rightarrow> u64 \<times> 'c \<Rightarrow> bool" where
  "publisher_inv cs chain current \<longleftrightarrow> cs \<noteq> [] \<and> length cs \<le> 2 ^ 64 \<and> suffix chain (numbered cs) \<and> last (numbered cs) = current"

lemma publisher_snoc:
  assumes "publisher_inv cs chain (g, c0)" "length cs < 2 ^ 64"
  shows "publisher_inv (cs @ [c]) (chain @ [(g + 1, c)]) (g + 1, c)"
proof -
  have "g = of_nat (length cs - 1)" "cs \<noteq> []"
    using assms(1) last_numbered [of cs] by (auto simp: publisher_inv_def)
  then have "g + 1 = of_nat (length cs)" by (cases cs) simp_all
  then show ?thesis using assms by (simp add: publisher_inv_def numbered_snoc)
qed

lemma publisher_take: "publisher_inv cs (a # chain) current \<Longrightarrow> publisher_inv cs chain current"
  by (auto simp: publisher_inv_def dest: suffix_ConsD)

lemma publisher_head: "publisher_inv cs (a # chain) current \<Longrightarrow> a \<in> set (numbered cs)"
  by (auto simp: publisher_inv_def suffix_def)

lemma publisher_drained: "publisher_inv cs [a] current \<Longrightarrow> a = current"
  by (auto simp: publisher_inv_def suffix_def)

definition published_inv :: "System \<Rightarrow> bool" where
  "published_inv s \<longleftrightarrow>
     publisher_inv (gh_sets s) (llm_chain s) (ap_llm_generation (sy_app s), ap_server_list (sy_app s)) \<and>
     publisher_inv (gh_targets s) (fast_chain s) (ap_mapping_generation (sy_app s), app_identity (sy_app s))"

lemma pick_slot_spec: "sl_spec (fst (pick_slot client_ok old spec h)) = spec"
  by (auto simp: pick_slot_def new_slot_def split: option.split)

lemma rebuild_specs: "rebuild_from client_ok old specs h = (slots, h') \<Longrightarrow> map sl_spec slots = specs"
proof (induction specs arbitrary: old h slots h')
  case (Cons spec specs)
  then show ?case using pick_slot_spec [of client_ok "old (sv_key spec)" spec h]
    by (auto simp: Let_def split: prod.splits)
qed simp

lemma published_start:
  assumes "reachable_start = system_start client_ok resolved servers default_selected"
  shows "published_inv reachable_start"
proof -
  obtain slots h where r: "rebuild_from client_ok Map.empty (sl_monitored servers) initial_heap = (slots, h)"
    by fastforce
  have "map sl_spec slots = sl_monitored servers" by (rule rebuild_specs [OF r])
  then show ?thesis unfolding assms
    by (simp add: published_inv_def publisher_inv_def system_start_def r llm_chain_def fast_chain_def Let_def app_start_def
        numbered_def publish_selected_mapping_def app_identity_def upt_rec)
qed

lemma published_with_app:
  assumes inv: "published_inv s" and p: "publishes (sy_app s) app'"
    and "length (gh_sets s) < 2 ^ 64 \<or> ap_commands app' = ap_commands (sy_app s)" "length (gh_targets s) < 2 ^ 64"
  shows "published_inv (with_app app' s)"
proof -
  have "publisher_inv (gh_sets (with_app app' s)) (llm_chain (with_app app' s)) (ap_llm_generation app', ap_server_list app')"
    using published_sets_cases [OF p] inv assms(3) publisher_snoc [of "gh_sets s" "llm_chain s"]
    by (auto simp: with_app_def llm_chain_def published_inv_def command_pair_def)
  moreover have "publisher_inv (gh_targets (with_app app' s)) (fast_chain (with_app app' s)) (ap_mapping_generation app', app_identity app')"
    using published_targets_cases [OF p] inv assms(4) publisher_snoc [of "gh_targets s" "fast_chain s"]
    by (auto simp: with_app_def fast_chain_def published_inv_def)
  ultimately show ?thesis by (simp add: published_inv_def with_app_def)
qed

lemma published_frame:
  "llm_chain s' = llm_chain s \<Longrightarrow> fast_chain s' = fast_chain s \<Longrightarrow> gh_sets s' = gh_sets s \<Longrightarrow> gh_targets s' = gh_targets s \<Longrightarrow>
   ap_llm_generation (sy_app s') = ap_llm_generation (sy_app s) \<Longrightarrow> ap_server_list (sy_app s') = ap_server_list (sy_app s) \<Longrightarrow>
   ap_mapping_generation (sy_app s') = ap_mapping_generation (sy_app s) \<Longrightarrow> ap_selected (sy_app s') = ap_selected (sy_app s) \<Longrightarrow>
   published_inv s \<Longrightarrow> published_inv s'"
  by (simp add: published_inv_def app_identity_def)

lemma llm_sample_fields [simp]:
  "ap_server_list (fst (apply_llm_sample now smp app)) = ap_server_list app"
  "ap_selected (fst (apply_llm_sample now smp app)) = ap_selected app"
  "ap_commands (fst (apply_llm_sample now smp app)) = ap_commands app"
  "ap_identities (fst (apply_llm_sample now smp app)) = ap_identities app"
  "ap_llm_generation (fst (apply_llm_sample now smp app)) = ap_llm_generation app"
  "ap_mapping_generation (fst (apply_llm_sample now smp app)) = ap_mapping_generation app"
  "ap_gpu_map (fst (apply_llm_sample now smp app)) = ap_gpu_map app"
  by (simp_all add: apply_llm_sample_def)

lemma fast_snapshot_fields [simp]:
  "ap_server_list (apply_fast_snapshot next app) = ap_server_list app"
  "ap_selected (apply_fast_snapshot next app) = ap_selected app"
  "ap_commands (apply_fast_snapshot next app) = ap_commands app"
  "ap_identities (apply_fast_snapshot next app) = ap_identities app"
  "ap_llm_generation (apply_fast_snapshot next app) = ap_llm_generation app"
  "ap_mapping_generation (apply_fast_snapshot next app) = ap_mapping_generation app"
  by (simp_all add: apply_fast_snapshot_def)

lemma published_step:
  assumes "step from_str api client_ok s s'" "published_inv s"
  shows "published_inv s'"
  using assms
proof cases
  case resync
  then show ?thesis using published_with_app [OF assms(2) publishes_sync] by simp
next
  case select
  have "ap_commands (select_server sel (sy_app s)) = ap_commands (sy_app s)" for sel
    by (auto simp: select_server_def Let_def split: option.split)
  with select show ?thesis using published_with_app [OF assms(2) publishes_select] by simp
next
  case (take_command generation specs commands slots h)
  have "map sl_spec slots = specs"
    using take_command(3) unfolding rebuild_poll_slots_def by (rule rebuild_specs)
  then show ?thesis using take_command assms(2)
    by (auto simp: published_inv_def llm_chain_def fast_chain_def app_identity_def command_pair_def dest: publisher_take)
next
  case (take_target msg msgs)
  then show ?thesis using assms(2)
    by (auto simp: published_inv_def llm_chain_def fast_chain_def app_identity_def take_identity_def
        split: prod.splits dest: publisher_take)
qed (use assms(2) in \<open>auto elim!: published_frame [rotated 8] simp: llm_chain_def fast_chain_def refresh_mapping_def\<close>)

section \<open>The heap\<close>

definition monitor_of :: "ServerSpec \<Rightarrow> ServerMonitor \<Rightarrow> bool" where
  "monitor_of spec m \<longleftrightarrow> sm_key m = sv_key spec \<and>
     (case sm_monitor m of Some lm \<Rightarrow> base lm = trim_end_by (\<lambda>c. c = 47) (sv_endpoint spec) | None \<Rightarrow> True)"

definition heap_ok :: "Heap \<Rightarrow> bool" where
  "heap_ok h \<longleftrightarrow> (\<forall>a < hp_next h. \<exists>m. hp_monitor h a = Some m \<and> monitor_of (gh_origin h a) m) \<and>
     (\<forall>a \<ge> hp_next h. \<not> hp_in_flight h a)"

definition slot_ok :: "Heap \<Rightarrow> PollSlot \<Rightarrow> bool" where
  "slot_ok h slot \<longleftrightarrow> sl_addr slot < hp_next h \<and> gh_origin h (sl_addr slot) = sl_spec slot"

definition heap_ext :: "Heap \<Rightarrow> Heap \<Rightarrow> bool" where
  "heap_ext h h' \<longleftrightarrow> hp_next h \<le> hp_next h' \<and> hp_in_flight h' = hp_in_flight h \<and>
     (\<forall>a < hp_next h. hp_monitor h' a = hp_monitor h a \<and> gh_origin h' a = gh_origin h a)"

lemma heap_ext_trans: "heap_ext h h1 \<Longrightarrow> heap_ext h1 h2 \<Longrightarrow> heap_ext h h2"
  by (auto simp: heap_ext_def)

lemma slot_ok_ext: "slot_ok h slot \<Longrightarrow> heap_ext h h' \<Longrightarrow> slot_ok h' slot"
  by (auto simp: slot_ok_def heap_ext_def)

lemma monitor_of_new: "monitor_of spec (new_server_monitor client_ok spec)"
  by (simp add: monitor_of_def new_server_monitor_def LlamaMonitor_new_def Let_def)

lemma pick_slot_ok:
  assumes pick: "pick_slot client_ok existing spec h = (slot, h')" and h: "heap_ok h"
    and old: "\<forall>e. existing = Some e \<longrightarrow> slot_ok h e"
  shows "heap_ok h'" "heap_ext h h'" "slot_ok h' slot" "sl_spec slot = spec"
    "existing = Some slot \<or> hp_next h \<le> sl_addr slot"
    "existing = Some e \<Longrightarrow> sl_spec e = spec \<Longrightarrow> slot = e"
proof -
  have new: "heap_ok (snd (new_slot client_ok spec h))" "heap_ext h (snd (new_slot client_ok spec h))"
    "slot_ok (snd (new_slot client_ok spec h)) (fst (new_slot client_ok spec h))"
    using h fun_upd_idem [of "hp_in_flight h" "hp_next h" False]
    by (auto simp: new_slot_def heap_ok_def heap_ext_def slot_ok_def monitor_of_new less_Suc_eq)
  have cases: "(slot, h') = new_slot client_ok spec h \<or> existing = Some slot \<and> h' = h \<and> sl_spec slot = spec"
    using pick by (auto simp: pick_slot_def split: option.splits if_splits)
  show "existing = Some e \<Longrightarrow> sl_spec e = spec \<Longrightarrow> slot = e"
    using pick by (auto simp: pick_slot_def)
  have "heap_ok h' \<and> heap_ext h h' \<and> slot_ok h' slot \<and> sl_spec slot = spec \<and> (existing = Some slot \<or> hp_next h \<le> sl_addr slot)"
    using cases
  proof
    assume eq: "(slot, h') = new_slot client_ok spec h"
    have "sl_spec slot = spec" "hp_next h \<le> sl_addr slot" using eq by (simp_all add: new_slot_def)
    moreover have "fst (new_slot client_ok spec h) = slot" "snd (new_slot client_ok spec h) = h'"
      by (simp_all flip: eq)
    ultimately show ?thesis using new by simp
  next
    assume "existing = Some slot \<and> h' = h \<and> sl_spec slot = spec"
    then show ?thesis using h old by (simp add: heap_ext_def)
  qed
  then show "heap_ok h'" "heap_ext h h'" "slot_ok h' slot" "sl_spec slot = spec"
    "existing = Some slot \<or> hp_next h \<le> sl_addr slot" by blast+
qed

definition slots_inj :: "(rstr \<rightharpoonup> PollSlot) \<Rightarrow> bool" where
  "slots_inj old \<longleftrightarrow> (\<forall>k1 k2 s1 s2. old k1 = Some s1 \<longrightarrow> old k2 = Some s2 \<longrightarrow> sl_addr s1 = sl_addr s2 \<longrightarrow> k1 = k2)"

lemma rebuild_from_ok:
  assumes "rebuild_from client_ok old specs h = (slots, h')" "heap_ok h"
    and "\<forall>k e. old k = Some e \<longrightarrow> slot_ok h e" "slots_inj old"
  shows "heap_ok h' \<and> heap_ext h h' \<and> map sl_spec slots = specs \<and> list_all (slot_ok h') slots \<and>
    distinct (map sl_addr slots) \<and>
    (\<forall>slot \<in> set slots. (\<exists>k. old k = Some slot) \<or> hp_next h \<le> sl_addr slot)"
  using assms
proof (induction specs arbitrary: old h slots h')
  case Nil
  then show ?case by (simp add: heap_ext_def)
next
  case (Cons spec specs)
  obtain slot h1 where pick: "pick_slot client_ok (old (sv_key spec)) spec h = (slot, h1)" by fastforce
  obtain slots' h2 where rest: "rebuild_from client_ok (old(sv_key spec := None)) specs h1 = (slots', h2)" by fastforce
  have eq: "slots = slot # slots'" "h' = h2" using Cons.prems(1) pick rest by (auto simp: Let_def)
  have "\<forall>e. old (sv_key spec) = Some e \<longrightarrow> slot_ok h e" using Cons.prems(3) by blast
  note p = pick_slot_ok [OF pick Cons.prems(2) this]
  have "slots_inj (old(sv_key spec := None))" using Cons.prems(4) by (simp add: slots_inj_def)
  moreover have "\<forall>k e. (old(sv_key spec := None)) k = Some e \<longrightarrow> slot_ok h1 e"
    using Cons.prems(3) slot_ok_ext [OF _ p(2)] by simp
  ultimately have ih: "heap_ok h2" "heap_ext h1 h2" "map sl_spec slots' = specs" "list_all (slot_ok h2) slots'"
    "distinct (map sl_addr slots')"
    "\<And>e. e \<in> set slots' \<Longrightarrow> (\<exists>k. (old(sv_key spec := None)) k = Some e) \<or> hp_next h1 \<le> sl_addr e"
    using Cons.IH [OF rest p(1)] by blast+
  have "sl_addr e \<noteq> sl_addr slot" if "e \<in> set slots'" for e
    using ih(6) [OF that]
  proof
    assume "\<exists>k. (old(sv_key spec := None)) k = Some e"
    then obtain k where k: "old k = Some e" "k \<noteq> sv_key spec" by (auto split: if_splits)
    show ?thesis using p(5)
    proof
      assume "old (sv_key spec) = Some slot"
      then show ?thesis using k Cons.prems(4) unfolding slots_inj_def by metis
    qed (use Cons.prems(3) [rule_format, OF k(1)] in \<open>auto simp: slot_ok_def\<close>)
  qed (use p(3) in \<open>auto simp: slot_ok_def\<close>)
  then have "distinct (map sl_addr slots)" using ih(5) unfolding eq by (auto dest: sym)
  moreover have "(\<exists>k. old k = Some e) \<or> hp_next h \<le> sl_addr e" if "e \<in> set slots'" for e
    using ih(6) [OF that] p(2) by (auto simp: heap_ext_def split: if_splits)
  ultimately show ?case
    using ih(1-5) p heap_ext_trans [OF p(2) ih(2)] slot_ok_ext [OF p(3) ih(2)] by (auto simp: eq)
qed

lemma collect_slots:
  "collect_map (map (\<lambda>slot. (sv_key (sl_spec slot), slot)) slots) k = Some e \<Longrightarrow> e \<in> set slots \<and> k = sv_key (sl_spec e)"
  by (induction slots rule: rev_induct) (auto simp: collect_map_snoc collect_map_def split: if_splits)

lemma slots_inj_collect:
  assumes "distinct (map sl_addr slots)"
  shows "slots_inj (collect_map (map (\<lambda>slot. (sv_key (sl_spec slot), slot)) slots))"
  unfolding slots_inj_def
proof (intro allI impI)
  fix k1 k2 s1 s2
  let ?m = "collect_map (map (\<lambda>slot. (sv_key (sl_spec slot), slot)) slots)"
  assume "?m k1 = Some s1" "?m k2 = Some s2" and eq: "sl_addr s1 = sl_addr s2"
  then have m: "s1 \<in> set slots" "k1 = sv_key (sl_spec s1)" "s2 \<in> set slots" "k2 = sv_key (sl_spec s2)"
    using collect_slots by blast+
  have "inj_on sl_addr (set slots)" using assms by (simp add: distinct_map)
  then have "s1 = s2" using eq m(1,3) by (rule inj_onD)
  with m show "k1 = k2" by simp
qed

lemma rebuild_poll_slots_ok:
  assumes "rebuild_poll_slots client_ok existing specs h = (slots, h')" "heap_ok h"
    and "list_all (slot_ok h) existing" "distinct (map sl_addr existing)"
  shows "heap_ok h' \<and> heap_ext h h' \<and> map sl_spec slots = specs \<and> list_all (slot_ok h') slots \<and>
    distinct (map sl_addr slots) \<and> (\<forall>slot \<in> set slots. slot \<in> set existing \<or> hp_next h \<le> sl_addr slot)"
proof -
  let ?old = "collect_map (map (\<lambda>slot. (sv_key (sl_spec slot), slot)) existing)"
  have mem: "e \<in> set existing" if "?old k = Some e" for k e
    using collect_slots [OF that] by simp
  then have ok: "\<forall>k e. ?old k = Some e \<longrightarrow> slot_ok h e" using assms(3) by (auto simp: list_all_iff)
  have "heap_ok h' \<and> heap_ext h h' \<and> map sl_spec slots = specs \<and> list_all (slot_ok h') slots \<and>
    distinct (map sl_addr slots) \<and> (\<forall>slot \<in> set slots. (\<exists>k. ?old k = Some slot) \<or> hp_next h \<le> sl_addr slot)"
    using rebuild_from_ok [OF assms(1) [unfolded rebuild_poll_slots_def] assms(2) ok slots_inj_collect [OF assms(4)]] .
  with mem show ?thesis by fast
qed

text \<open>An unchanged server keeps its slot, and with it the monitor and its baselines.\<close>

lemma rebuild_keeps:
  assumes "distinct (map sv_key specs)" "rebuild_from client_ok old specs h = (slots, h')"
    and "spec \<in> set specs" "old (sv_key spec) = Some e" "sl_spec e = spec"
  shows "e \<in> set slots"
  using assms
proof (induction specs arbitrary: old h slots h')
  case (Cons spec0 specs)
  obtain slot h1 where pick: "pick_slot client_ok (old (sv_key spec0)) spec0 h = (slot, h1)" by fastforce
  obtain slots' h2 where rest: "rebuild_from client_ok (old(sv_key spec0 := None)) specs h1 = (slots', h2)" by fastforce
  have eq: "slots = slot # slots'" using Cons.prems(2) pick rest by (auto simp: Let_def)
  show ?case
  proof (cases "spec = spec0")
    case True
    then show ?thesis using pick Cons.prems(4,5) by (simp add: eq pick_slot_def)
  next
    case False
    then have mem: "spec \<in> set specs" using Cons.prems(3) by simp
    then have "sv_key spec \<noteq> sv_key spec0" using Cons.prems(1) by (auto simp: rev_image_eqI)
    then show ?thesis using Cons.IH [OF _ rest mem] Cons.prems by (simp add: eq)
  qed
qed simp

text \<open>A poll changes neither the server a monitor is for nor where it polls.\<close>

lemma sample_base: "base (fst (sample from_str api m p)) = base m"
proof -
  have [simp]: "base (apply_props_result m out now) = base m" for m out now
    by (simp add: apply_props_result_def split: JsonOutcome.split)
  have [simp]: "base (fst (local_spec_config api m p)) = base m" for m p
    by (simp add: local_spec_config_def Let_def)
  have [simp]: "base (fst (update_acceptance m st now)) = base m" for m st now
    by (simp add: update_acceptance_def split: option.split)
  have [simp]: "base (reset_baseline m q) = base m" for m q
    by (simp add: reset_baseline_def Let_def)
  have [simp]: "base (fst (metric_stage m st now)) = base m" for m st now
    by (simp add: metric_stage_def update_metric_counters_eq)
  have [simp]: "base (fst (slot_stage m ss live now)) = base m" for m ss live now
    by (simp add: slot_stage_def update_live_slot_throughput_eq Let_def split: option.split)
  show ?thesis by (simp add: sample_def prepare_def derive_def Let_def case_prod_unfold split: option.split)
qed

lemma monitor_of_poll:
  assumes "poll_server from_str api p now grace server = (server', stats)" "monitor_of spec server"
  shows "monitor_of spec server'" "sm_key server' = sv_key spec"
  using assms sample_base [of from_str api _ p]
  by (auto simp: poll_server_def monitor_of_def Let_def split: option.splits prod.splits)
     (metis fst_conv)+

section \<open>Polls and samples\<close>

text \<open>A message of generation \<open>g\<close> made by the monitor at address \<open>a\<close>.\<close>

definition made_for :: "ServerSpec list list \<Rightarrow> Heap \<Rightarrow> u64 \<Rightarrow> nat \<Rightarrow> bool" where
  "made_for sets h g a \<longleftrightarrow> a < hp_next h \<and> (\<exists>specs. (g, specs) \<in> set (numbered sets) \<and> gh_origin h a \<in> set specs)"

definition sample_ok :: "ServerSpec list list \<Rightarrow> Heap \<Rightarrow> LlmSample \<times> nat \<Rightarrow> bool" where
  "sample_ok sets h r \<longleftrightarrow> made_for sets h (smp_generation (fst r)) (snd r) \<and> smp_server (fst r) = sv_key (gh_origin h (snd r))"

definition poll_inv :: "System \<Rightarrow> bool" where
  "poll_inv s \<longleftrightarrow> heap_ok (wk_heap s) \<and>
     list_all (slot_ok (wk_heap s)) (wk_slots s) \<and> distinct (map sl_addr (wk_slots s)) \<and>
     distinct (map fst (wk_polls s)) \<and> (\<forall>a. hp_in_flight (wk_heap s) a \<longleftrightarrow> a \<in> fst ` set (wk_polls s)) \<and>
     list_all (\<lambda>(a, g). made_for (gh_sets s) (wk_heap s) g a) (wk_polls s) \<and>
     list_all (sample_ok (gh_sets s) (wk_heap s)) (wk_results s) \<and>
     list_all (sample_ok (gh_sets s) (wk_heap s)) (ch_llm s) \<and>
     length (ch_llm s) \<le> MAX_MONITORED_SERVERS"

lemma made_for_mono: "made_for sets h g a \<Longrightarrow> heap_ext h h' \<Longrightarrow> made_for (sets @ ds) h' g a"
  by (auto simp: made_for_def heap_ext_def dest: numbered_mono [where ds = ds])

lemma sample_ok_mono: "sample_ok sets h r \<Longrightarrow> heap_ext h h' \<Longrightarrow> sample_ok (sets @ ds) h' r"
  using made_for_mono [of sets h _ _ h'] by (auto simp: sample_ok_def made_for_def heap_ext_def)

lemma heap_ext_refl: "heap_ext h h"
  by (simp add: heap_ext_def)

text \<open>What only extends the heap and the publications keeps the invariant.\<close>

lemma poll_inv_grow:
  assumes "poll_inv s" "heap_ext (wk_heap s) (wk_heap s')" "gh_sets s' = gh_sets s @ ds" "heap_ok (wk_heap s')"
    and "list_all (slot_ok (wk_heap s')) (wk_slots s')" "distinct (map sl_addr (wk_slots s'))"
    and "wk_polls s' = wk_polls s" "wk_results s' = wk_results s" "ch_llm s' = ch_llm s"
  shows "poll_inv s'"
  using assms made_for_mono [OF _ assms(2), of "gh_sets s" _ _ ds] sample_ok_mono [OF _ assms(2), of "gh_sets s" _ ds]
  by (auto simp: poll_inv_def list_all_iff heap_ext_def)

lemma poll_inv_start:
  "poll_inv (system_start client_ok resolved servers default_selected)"
proof -
  obtain slots h where r: "rebuild_from client_ok Map.empty (sl_monitored servers) initial_heap = (slots, h)"
    by fastforce
  have "heap_ok initial_heap" by (simp add: initial_heap_def heap_ok_def)
  from rebuild_from_ok [OF r this] have "heap_ok h \<and> heap_ext initial_heap h \<and> list_all (slot_ok h) slots \<and> distinct (map sl_addr slots)"
    by (simp add: slots_inj_def)
  moreover from this have "hp_in_flight h = (\<lambda>_. False)"
    by (simp add: heap_ext_def initial_heap_def)
  ultimately show ?thesis
    by (simp add: poll_inv_def system_start_def r Let_def)
qed

lemma try_send_keeps:
  assumes "try_send_snapshot cap rx v (queue, drops) = (ok, queue', drops')" "length queue \<le> cap"
    and "list_all P queue" "P v"
  shows "list_all P queue' \<and> length queue' \<le> cap"
  using assms by (auto simp: try_send_snapshot_def split: if_splits)

lemma poll_step:
  assumes "step from_str api client_ok s s'" "poll_inv s" "published_inv s"
  shows "poll_inv s'"
  using assms(1)
proof cases
  case (take_command generation specs commands slots h)
  then show ?thesis
    using rebuild_poll_slots_ok [OF take_command(3)] assms(2)
    by (intro poll_inv_grow [OF assms(2), of s' "[]"]) (auto simp: poll_inv_def)
next
  case (start_poll slot)
  have "(wk_generation s, map sl_spec (wk_slots s)) \<in> set (numbered (gh_sets s))"
    using assms(3) publisher_head by (auto simp: published_inv_def llm_chain_def)
  moreover have "slot_ok (wk_heap s) slot" using start_poll(2) assms(2) by (auto simp: poll_inv_def list_all_iff)
  ultimately have m: "made_for (gh_sets s) (wk_heap s) (wk_generation s) (sl_addr slot)"
    using start_poll(2) by (auto simp: made_for_def slot_ok_def)
  show ?thesis using start_poll(2,3) assms(2) m
    by (auto simp: start_poll(1) poll_inv_def heap_ok_def slot_ok_def [abs_def] made_for_def sample_ok_def [abs_def])
next
  case (end_poll before addr generation after server p now offline_grace server' stats)
  have m: "made_for (gh_sets s) (wk_heap s) generation addr"
    using end_poll(2) assms(2) by (auto simp: poll_inv_def)
  have "monitor_of (gh_origin (wk_heap s) addr) server"
    using m end_poll(3) assms(2) by (force simp: poll_inv_def heap_ok_def made_for_def)
  note mon = this monitor_of_poll [OF end_poll(4) this]
  have "sm_key server = sv_key (gh_origin (wk_heap s) addr)" using mon(1) by (simp add: monitor_of_def)
  then show ?thesis using end_poll(2,3) assms(2) m mon(2)
    by (auto simp: end_poll(1) poll_inv_def heap_ok_def slot_ok_def [abs_def] made_for_def sample_ok_def [abs_def])
next
  case (forward r results ok queue drops)
  have "sample_ok (gh_sets s) (wk_heap s) r" using forward(2) assms(2) by (simp add: poll_inv_def)
  then show ?thesis using forward assms(2) try_send_keeps [OF forward(3)]
    by (auto simp: poll_inv_def)
next
  case (deliver smp addr queue now)
  then show ?thesis using assms(2) by (auto simp: poll_inv_def)
next
  case (resync servers target)
  then show ?thesis using assms(2)
    by (intro poll_inv_grow [OF assms(2)]) (auto simp: with_app_def heap_ext_refl poll_inv_def)
next
  case (select sel)
  then show ?thesis using assms(2)
    by (intro poll_inv_grow [OF assms(2)]) (auto simp: with_app_def heap_ext_refl poll_inv_def)
qed (use assms(2) in \<open>auto intro!: poll_inv_grow [OF assms(2), of _ "[]"] simp: heap_ext_refl poll_inv_def\<close>)

section \<open>The mapping\<close>

text \<open>A mapping of the process \<open>identity\<close>: nothing, or what the evidence gathered for it gave.\<close>

definition mapping_of :: "LocalServerIdentity option \<Rightarrow> GpuMapping \<Rightarrow> bool" where
  "mapping_of identity m \<longleftrightarrow> m = MapNone \<or>
     (\<exists>expected start render nvml gpus. identity = Some expected \<and> m = map_server_identity expected start render nvml gpus)"

lemma mapping_of_None [simp]: "mapping_of identity MapNone"
  by (simp add: mapping_of_def)

definition fast_inv :: "System \<Rightarrow> bool" where
  "fast_inv s \<longleftrightarrow> mapping_of (fw_identity (wk_fast s)) (fw_gpu_map (wk_fast s)) \<and>
     list_all (\<lambda>(next, i). (fs_mapping_generation next, i) \<in> set (numbered (gh_targets s)) \<and> mapping_of i (fs_gpu_map next)) (ch_fast s) \<and>
     mapping_of (app_identity (sy_app s)) (ap_gpu_map (sy_app s)) \<and> length (ch_fast s) \<le> 2"

lemma fast_inv_start: "fast_inv (system_start client_ok resolved servers default_selected)"
proof -
  obtain slots h where r: "rebuild_from client_ok Map.empty (sl_monitored servers) initial_heap = (slots, h)"
    by fastforce
  show ?thesis by (simp add: fast_inv_def system_start_def r Let_def app_start_def)
qed

lemma fast_inv_publish:
  assumes "fast_inv s" "publishes (sy_app s) app'"
  shows "fast_inv (with_app app' s)"
  using assms(1) published_targets_cases [OF assms(2)]
  by (auto simp: fast_inv_def with_app_def list_all_iff dest: numbered_mono [where ds = "published_targets (sy_app s) app'"])

lemma fast_inv_frame:
  "fast_inv s \<Longrightarrow> wk_fast s' = wk_fast s \<Longrightarrow> gh_targets s' = gh_targets s \<Longrightarrow> ch_fast s' = ch_fast s \<Longrightarrow>
   ap_server_list (sy_app s') = ap_server_list (sy_app s) \<Longrightarrow> ap_selected (sy_app s') = ap_selected (sy_app s) \<Longrightarrow>
   ap_gpu_map (sy_app s') = ap_gpu_map (sy_app s) \<Longrightarrow> fast_inv s'"
  by (simp add: fast_inv_def app_identity_def)

lemma fast_current:
  assumes "published_inv s" "(fs_mapping_generation next, i) \<in> set (numbered (gh_targets s))"
    and "fs_mapping_generation next = ap_mapping_generation (sy_app s)"
  shows "i = app_identity (sy_app s)"
  using assms fg.accepted_current [of "gh_targets s" "next" i "ap_mapping_generation (sy_app s)" "app_identity (sy_app s)"]
  by (simp add: published_inv_def publisher_inv_def)

lemma fast_step:
  assumes "step from_str api client_ok s s'" "fast_inv s" "published_inv s"
  shows "fast_inv s'"
  using assms(1)
proof cases
  case resync then show ?thesis using fast_inv_publish [OF assms(2) publishes_sync] by simp
next
  case select then show ?thesis using fast_inv_publish [OF assms(2) publishes_select] by simp
next
  case (send_fast ok queue drops)
  have "(fw_generation (wk_fast s), fw_identity (wk_fast s)) \<in> set (numbered (gh_targets s))"
    using assms(3) publisher_head by (auto simp: published_inv_def fast_chain_def)
  moreover have "length queue \<le> 2" using assms(2) try_send_keeps [OF send_fast(2), of "\<lambda>_. True"]
    by (simp add: fast_inv_def list_all_iff)
  ultimately show ?thesis using assms(2) try_send_keeps [OF send_fast(2)] send_fast(1)
    by (simp add: fast_inv_def fast_snapshot_def)
next
  case (deliver_fast "next" i queue)
  have "(fs_mapping_generation next, i) \<in> set (numbered (gh_targets s))" "mapping_of i (fs_gpu_map next)"
    using assms(2) deliver_fast(2) by (simp_all add: fast_inv_def)
  then show ?thesis using assms(2) deliver_fast fast_current [OF assms(3)]
    by (auto simp: fast_inv_def apply_fast_snapshot_def app_identity_def)
next
  case take_target
  then show ?thesis using assms(2)
    by (auto simp: fast_inv_def take_identity_def app_identity_def split: prod.split)
next
  case refresh
  have "mapping_of (fw_identity (wk_fast s)) (case fw_identity (wk_fast s) of Some expected \<Rightarrow>
     map_server_identity expected (start (ls_pid expected)) (render (ls_pid expected)) (nvml (ls_pid expected)) gpus | None \<Rightarrow> MapNone)"
    for start render nvml gpus by (auto simp: mapping_of_def split: option.split)
  then show ?thesis using assms(2) refresh by (simp add: fast_inv_def refresh_mapping_def)
qed (use fast_inv_frame [OF assms(2)] in simp_all)

section \<open>Every reachable state\<close>

lemma collect_specs_ok:
  "url_named api \<Longrightarrow> specs_ok (sl_monitored (collect_server_list_with api sys settings))"
  using collect_wf [of api sys settings] collect_keys_named [of api sys settings]
  by (auto simp: specs_ok_def Let_def)

lemma app_inv_step:
  assumes "step from_str api client_ok s s'" "app_inv (sy_app s)" "url_named api"
  shows "app_inv (sy_app s')"
  using assms(1)
proof cases
  case resync
  then show ?thesis using app_inv_sync [OF app_inv_resolved [OF assms(2)] collect_specs_ok [OF assms(3)]] by (simp add: with_app_def)
next
  case select then show ?thesis using app_inv_select [OF assms(2)] by (simp add: with_app_def)
next
  case take_command then show ?thesis using assms(2) by (simp add: app_inv_def)
next
  case deliver then show ?thesis using app_inv_llm_sample [OF assms(2)] by simp
next
  case take_target then show ?thesis using assms(2) by (simp add: app_inv_def)
next
  case deliver_fast then show ?thesis using app_inv_fast [OF assms(2)] by simp
qed (use assms(2) in simp_all)

lemma system_start_app: "sy_app (system_start client_ok resolved servers default_selected) = app_start resolved servers default_selected"
  by (simp add: system_start_def Let_def split: prod.split)

lemma reachable_inv:
  assumes "url_named api"
  shows "reachable from_str api client_ok s \<Longrightarrow> app_inv (sy_app s) \<and> published_inv s \<and> poll_inv s \<and> fast_inv s"
proof (induction rule: reachable.induct)
  case (start sys settings sys' default_selected)
  then show ?case
    using app_inv_start [OF collect_specs_ok [OF assms]] published_start poll_inv_start fast_inv_start
    by (auto simp: system_start_app)
next
  case (more s s')
  then show ?case using app_inv_step [OF _ _ assms] published_step poll_step fast_step by blast
qed

lemmas reachable_invs = reachable_inv [THEN conjunct1]
  reachable_inv [THEN conjunct2, THEN conjunct1]
  reachable_inv [THEN conjunct2, THEN conjunct2, THEN conjunct1]
  reachable_inv [THEN conjunct2, THEN conjunct2, THEN conjunct2]

text \<open>Every list published, and so every list the worker holds, is a set of servers by their keys.\<close>

lemma sets_ok:
  assumes "url_named api"
  shows "reachable from_str api client_ok s \<Longrightarrow> list_all specs_ok (gh_sets s)"
proof (induction rule: reachable.induct)
  case (start sys settings sys' default_selected)
  then show ?case using collect_specs_ok [OF assms] by (simp add: system_start_def Let_def split: prod.split)
next
  case (more s s')
  have "app_inv (sy_app s')" using reachable_invs(1) [OF assms reachable.more [OF more.hyps]] .
  then have "specs_ok (ap_server_list (sy_app s'))" by (simp add: app_inv_def)
  with more.hyps(2) more.IH show ?case
    by cases (auto simp: with_app_def published_sets_def)
qed

lemma reachable_slots: "url_named api \<Longrightarrow> reachable from_str api client_ok s \<Longrightarrow> specs_ok (map sl_spec (wk_slots s))"
  using sets_ok [of api from_str client_ok s] reachable_invs(2) [of api from_str client_ok s]
    publisher_head [of "gh_sets s" "(wk_generation s, map sl_spec (wk_slots s))"]
  by (fastforce simp: published_inv_def llm_chain_def list_all_iff dest: snd_numbered)

section \<open>A concrete run\<close>

abbreviation "demo_servers \<equiv> collect_server_list_with sample_urls (\<lambda>_. sample_proc) AppConfig_default"

abbreviation "demo_start \<equiv> system_start (\<lambda>_. False) (resolve_monitor_target_with (\<lambda>_. sample_proc) AppConfig_default) demo_servers []"

lemma demo_reachable: "reachable (\<lambda>_. None) sample_urls (\<lambda>_. False) demo_start"
  by (rule reachable.start)

lemma demo_sampled:
  obtains s smp where "reachable (\<lambda>_. None) sample_urls (\<lambda>_. False) s" "ch_llm s = [(smp, 0)]" "sy_app s = sy_app demo_start"
    "smp_generation smp = ap_llm_generation (sy_app s)"
proof -
  let ?slot = "\<lparr>sl_spec = hd (sl_monitored demo_servers), sl_addr = 0\<rparr>"
  let ?m = "\<lparr>sm_key = lit ''http://127.0.0.1:9090'', sm_monitor = None, sm_init_error = lit ''failed to initialize HTTP client'', sm_last_good = None\<rparr>"
  let ?st = "LlmStats_default\<lparr>error_text := lit ''failed to initialize HTTP client''\<rparr>"
  let ?smp = "\<lparr>smp_server = lit ''http://127.0.0.1:9090'', smp_generation = 0, smp_stats = ?st\<rparr>"
  have nf: "(\<lambda>_. False)(0 := False) = (\<lambda>_::nat. False)" by auto
  have st: "wk_slots demo_start = [?slot]" "hp_in_flight (wk_heap demo_start) = (\<lambda>_. False)"
    "hp_monitor (wk_heap demo_start) 0 = Some ?m" "wk_polls demo_start = []" "wk_results demo_start = []"
    "ch_llm demo_start = []" "wk_generation demo_start = 0" "ap_llm_generation (sy_app demo_start) = 0"
    "ch_llm_drops demo_start = 0"
    by (simp_all add: system_start_def sample_collect initial_heap_def pick_slot_def new_slot_def
        new_server_monitor_def Let_def app_start_def nf)
  let ?h1 = "(wk_heap demo_start)\<lparr>hp_in_flight := (hp_in_flight (wk_heap demo_start))(0 := True)\<rparr>"
  let ?s1 = "demo_start\<lparr>wk_heap := ?h1, wk_polls := [(0, 0)]\<rparr>"
  have r1: "reachable (\<lambda>_. None) sample_urls (\<lambda>_. False) ?s1"
    using reachable.more [OF demo_reachable step.start_poll [of ?slot demo_start]] st by simp
  have poll: "poll_server (\<lambda>_. None) sample_urls p 5 0 ?m = (?m, ?st)" for p
    by (simp add: poll_server_def stabilize_llm_sample_def LlmStats_default_def)
  let ?s2 = "?s1\<lparr>wk_polls := [], wk_heap := (wk_heap demo_start)\<lparr>hp_in_flight := \<lambda>_. False\<rparr>, wk_results := [(?smp, 0)]\<rparr>"
  have r2: "reachable (\<lambda>_. None) sample_urls (\<lambda>_. False) ?s2"
    using reachable.more [OF r1 step.end_poll [of ?s1 "[]" 0 0 "[]" ?m _ _ undefined 5 0 ?m ?st, OF _ _ poll]] st
    by (simp add: fun_upd_idem nf)
  let ?s3 = "?s2\<lparr>wk_results := [], ch_llm := [(?smp, 0)], ch_llm_drops := 0\<rparr>"
  have "reachable (\<lambda>_. None) sample_urls (\<lambda>_. False) ?s3"
    using reachable.more [OF r2 step.forward [of ?s2 "(?smp, 0)" "[]" True "[(?smp, 0)]" 0]] st
    by (simp add: try_send_snapshot_def MAX_MONITORED_SERVERS_def)
  then show ?thesis using st by (intro that [of ?s3 ?smp]) simp_all
qed

section \<open>Properties\<close>

text \<open>
  C1: in every interleaving, a sample the application takes is applied exactly when it carries the
  current generation, and then it comes from the monitor of a server of the current list: polled at
  that server's endpoint, filed under its key, and for the identity the list has now.  A sample of a
  replaced set changes nothing.
\<close>

theorem sample_current:
  assumes "url_named api" "reachable from_str api client_ok s" "(smp, addr) \<in> set (ch_llm s)"
    and "apply_llm_sample now smp (sy_app s) = (app', applied)"
  shows "(applied \<longleftrightarrow> smp_generation smp = ap_llm_generation (sy_app s)) \<and>
    (applied \<longrightarrow> (\<exists>spec m. spec \<in> set (ap_server_list (sy_app s)) \<and> sv_key spec = smp_server smp \<and>
       hp_monitor (wk_heap s) addr = Some m \<and> gh_origin (wk_heap s) addr = spec \<and> monitor_of spec m \<and>
       ap_registry app' = (ap_registry (sy_app s))(sv_key spec \<mapsto> smp_stats smp))) \<and>
    (\<not> applied \<longrightarrow> app' = sy_app s)"
proof -
  note inv = reachable_invs [OF assms(1,2)]
  have "sample_ok (gh_sets s) (wk_heap s) (smp, addr)" using inv(3) assms(3) by (auto simp: poll_inv_def list_all_iff)
  then obtain specs where g: "(smp_generation smp, specs) \<in> set (numbered (gh_sets s))"
    "gh_origin (wk_heap s) addr \<in> set specs" "addr < hp_next (wk_heap s)" "smp_server smp = sv_key (gh_origin (wk_heap s) addr)"
    by (auto simp: sample_ok_def made_for_def)
  have "gh_origin (wk_heap s) addr \<in> set (ap_server_list (sy_app s))" if "smp_generation smp = ap_llm_generation (sy_app s)"
    using inv(2) g(2) lg.accepted_current [OF _ _ g(1), of "ap_llm_generation (sy_app s)" "ap_server_list (sy_app s)"] that
    by (simp add: published_inv_def publisher_inv_def accepts_llm_sample_def)
  moreover obtain m where "hp_monitor (wk_heap s) addr = Some m" "monitor_of (gh_origin (wk_heap s) addr) m"
    using g(3) inv(3) by (auto simp: poll_inv_def heap_ok_def)
  moreover have "ap_endpoints (sy_app s) = endpoint_map (ap_server_list (sy_app s))" using inv(1) by (simp add: app_inv_def)
  ultimately show ?thesis using assms(4) g(4)
    by (cases "smp_generation smp = ap_llm_generation (sy_app s)") (auto simp: apply_llm_sample_def accepts_llm_sample_def split: if_splits)
qed

theorem sample_current_witness:
  "\<exists>s smp app'. reachable (\<lambda>_. None) sample_urls (\<lambda>_. False) s \<and> (smp, 0) \<in> set (ch_llm s) \<and>
     apply_llm_sample 0 smp (sy_app s) = (app', True) \<and> smp_generation smp = ap_llm_generation (sy_app s)"
proof -
  obtain s smp where s: "reachable (\<lambda>_. None) sample_urls (\<lambda>_. False) s" "ch_llm s = [(smp, 0)]"
    "smp_generation smp = ap_llm_generation (sy_app s)" by (rule demo_sampled)
  obtain app' applied where a: "apply_llm_sample 0 smp (sy_app s) = (app', applied)" by fastforce
  show ?thesis using sample_current [OF sample_urls_named s(1) _ a] s a by (intro exI [of _ s] exI [of _ smp] exI [of _ app']) auto
qed



text \<open>
  C4: the worker's slots refine the application's list: the commands still waiting end in the
  current generation and list, and when none waits the worker polls exactly the current servers, in
  order, under the current generation.
\<close>

theorem worker_follows_app:
  assumes "url_named api" "reachable from_str api client_ok s"
  shows "last ((wk_generation s, map sl_spec (wk_slots s)) # map command_pair (ap_commands (sy_app s))) =
      (ap_llm_generation (sy_app s), ap_server_list (sy_app s)) \<and>
    (ap_commands (sy_app s) = [] \<longrightarrow> wk_generation s = ap_llm_generation (sy_app s) \<and>
       map sl_spec (wk_slots s) = ap_server_list (sy_app s))"
  using reachable_invs(2) [OF assms] by (auto simp: published_inv_def publisher_inv_def llm_chain_def suffix_def)

theorem worker_follows_app_witness:
  "wk_generation demo_start = 0 \<and> map sl_spec (wk_slots demo_start) = sl_monitored demo_servers"
proof -
  have "ap_commands (sy_app demo_start) = []" "ap_llm_generation (sy_app demo_start) = 0"
    "ap_server_list (sy_app demo_start) = sl_monitored demo_servers"
    by (simp_all add: system_start_app app_start_def Let_def)
  then show ?thesis
    using worker_follows_app [OF sample_urls_named demo_reachable] by simp
qed

text \<open>
  in every interleaving a monitor is polled by one thread at a time, the in-flight flags are
  exactly the monitors being polled, no two slots share a monitor, and the two snapshot channels
  stay within their capacities.
\<close>

theorem polls_exclusive:
  assumes "url_named api" "reachable from_str api client_ok s"
  shows "distinct (map fst (wk_polls s)) \<and> (\<forall>a. hp_in_flight (wk_heap s) a \<longleftrightarrow> a \<in> fst ` set (wk_polls s)) \<and>
    distinct (map sl_addr (wk_slots s)) \<and> length (ch_llm s) \<le> MAX_MONITORED_SERVERS \<and> length (ch_fast s) \<le> 2"
  using reachable_invs(3,4) [OF assms] by (simp add: poll_inv_def fast_inv_def)

theorem polls_exclusive_witness: "distinct (map sl_addr (wk_slots demo_start))"
  using polls_exclusive [OF sample_urls_named demo_reachable] by simp

text \<open>
  C3: in every interleaving the panel is consistent: the order shown is that of the current list,
  without repeats; the selected server is one of it; the figures on the panel are the last the
  registry has of the selected server and of no other, or the empty ones; the registry and the
  endpoints speak of the current servers only.
\<close>

theorem panel_consistent:
  assumes "url_named api" "reachable from_str api client_ok s"
  shows "ap_order (sy_app s) = map sv_key (ap_server_list (sy_app s)) \<and> distinct (ap_order (sy_app s)) \<and>
    ap_selected (sy_app s) \<in> set (ap_order (sy_app s)) \<and>
    ap_llm (sy_app s) = registry_or_default (ap_registry (sy_app s)) (ap_selected (sy_app s)) \<and>
    dom (ap_registry (sy_app s)) \<subseteq> set (ap_order (sy_app s)) \<and>
    (\<forall>spec \<in> set (ap_server_list (sy_app s)). ap_endpoints (sy_app s) (sv_key spec) = Some (sv_endpoint spec)) \<and>
    dom (ap_endpoints (sy_app s)) = set (ap_order (sy_app s))"
  using reachable_invs(1) [OF assms] endpoint_map_key by (auto simp: app_inv_def specs_ok_def)

theorem panel_consistent_witness: "ap_selected (sy_app demo_start) \<in> set (ap_order (sy_app demo_start))"
  using panel_consistent [OF sample_urls_named demo_reachable] by blast

text \<open>
  taking a new server list keeps the slot and the monitor, baselines and held sample included,
  of every server whose entry is unchanged; every other server starts with a new monitor; no
  monitor already in the heap is altered and no poll in flight is forgotten.
\<close>

theorem rebuild_keeps_monitors:
  assumes "url_named api" "reachable from_str api client_ok s" "specs_ok specs"
    and "rebuild_poll_slots client_ok (wk_slots s) specs (wk_heap s) = (slots, h)"
  shows "map sl_spec slots = specs \<and>
    (\<forall>slot \<in> set slots. slot \<in> set (wk_slots s) \<or> hp_next (wk_heap s) \<le> sl_addr slot \<and> \<not> hp_in_flight h (sl_addr slot)) \<and>
    (\<forall>slot \<in> set (wk_slots s). sl_spec slot \<in> set specs \<longrightarrow> slot \<in> set slots) \<and>
    (\<forall>a < hp_next (wk_heap s). hp_monitor h a = hp_monitor (wk_heap s) a) \<and> hp_in_flight h = hp_in_flight (wk_heap s)"
proof -
  have inv: "heap_ok (wk_heap s)" "list_all (slot_ok (wk_heap s)) (wk_slots s)" "distinct (map sl_addr (wk_slots s))"
    using reachable_invs(3) [OF assms(1,2)] by (simp_all add: poll_inv_def)
  note ok = rebuild_poll_slots_ok [OF assms(4) inv]
  have d: "distinct (map (\<lambda>slot. sv_key (sl_spec slot)) (wk_slots s))"
    using reachable_slots [OF assms(1,2)] by (simp add: specs_ok_def comp_def)
  have "slot \<in> set slots" if slot: "slot \<in> set (wk_slots s)" "sl_spec slot \<in> set specs" for slot
  proof (rule rebuild_keeps [OF _ assms(4) [unfolded rebuild_poll_slots_def] slot(2)])
    show "distinct (map sv_key specs)" using assms(3) by (simp add: specs_ok_def)
    show "collect_map (map (\<lambda>slot. (sv_key (sl_spec slot), slot)) (wk_slots s)) (sv_key (sl_spec slot)) = Some slot"
      by (rule collect_map_distinct) (use d slot(1) in \<open>simp_all add: comp_def rev_image_eqI\<close>)
  qed simp
  moreover have "\<not> hp_in_flight h (sl_addr slot)" if "hp_next (wk_heap s) \<le> sl_addr slot" for slot
    using that ok inv(1) by (simp add: heap_ext_def heap_ok_def)
  ultimately show ?thesis using ok by (auto simp: heap_ext_def)
qed

theorem rebuild_keeps_monitors_witness:
  "snd (rebuild_poll_slots (\<lambda>_. False) (wk_slots demo_start) (sl_monitored demo_servers) (wk_heap demo_start)) \<noteq> initial_heap \<and>
   fst (rebuild_poll_slots (\<lambda>_. False) (wk_slots demo_start) (sl_monitored demo_servers) (wk_heap demo_start)) = wk_slots demo_start"
proof -
  obtain slots h where r: "rebuild_poll_slots (\<lambda>_. False) (wk_slots demo_start) (sl_monitored demo_servers) (wk_heap demo_start) = (slots, h)"
    by fastforce
  have st: "wk_slots demo_start = [\<lparr>sl_spec = hd (sl_monitored demo_servers), sl_addr = 0\<rparr>]" "hp_next (wk_heap demo_start) = 1"
    "hp_monitor (wk_heap demo_start) 0 \<noteq> None"
    by (simp_all add: system_start_def sample_collect initial_heap_def pick_slot_def new_slot_def Let_def)
  have "specs_ok (sl_monitored demo_servers)" by (simp add: specs_ok_def sample_collect lit_def)
  note rebuild_keeps_monitors [OF sample_urls_named demo_reachable this r]
  then show ?thesis using st r by (auto simp: sample_collect initial_heap_def)
qed

end
