(* ===== verification/Drm.thy ===== *)
theory Drm
  imports Config Sys "HOL-Library.List_Lexorder" "HOL-Library.Multiset"
begin

text \<open>
  GPU use of one process, from \<^verbatim>\<open>src/drm.rs\<close>: the parser of the kernel's
  \<^verbatim>\<open>fdinfo\<close> files, the sum over the file descriptors of a process, and the utilization
  derived from the counters of the sample before.  The tables the code keeps in hash maps are
  lists of pairs in the order of first mention, or finite maps.
\<close>

section \<open>Parsing\<close>

record ParsedEngine =
  pe_busy_ns :: "u64 option"
  pe_cycles_busy :: "u64 option"
  pe_cycles_total :: "u64 option"
  pe_capacity :: "u32 option"

definition no_engine :: ParsedEngine where
  "no_engine = \<lparr>pe_busy_ns = None, pe_cycles_busy = None, pe_cycles_total = None, pe_capacity = None\<rparr>"

record ParsedFd =
  pf_bdf :: rstr
  pf_driver :: rstr
  pf_client_id :: "u64 option"
  pf_engines :: "(rstr \<times> ParsedEngine) list"
  pf_resident :: u64
  pf_total :: u64

text \<open>\<^verbatim>\<open>entry(name).or_insert(d)\<close>, then an update.\<close>

fun update_entry :: "'b \<Rightarrow> ('b \<Rightarrow> 'b) \<Rightarrow> 'a \<Rightarrow> ('a \<times> 'b) list \<Rightarrow> ('a \<times> 'b) list" where
  "update_entry d f k [] = [(k, f d)]"
| "update_entry d f k ((k', v) # kvs) = (if k' = k then (k', f v) # kvs else (k', v) # update_entry d f k kvs)"

definition parse_u64 :: "rstr \<Rightarrow> u64 option" where
  "parse_u64 s = (case split_ws s of [] \<Rightarrow> None | w # _ \<Rightarrow> parse_word w)"

definition scaled_bytes :: "nat \<Rightarrow> rstr \<Rightarrow> u64 option" where
  "scaled_bytes unit_bytes n = (case (parse_word (trim n) :: 128 word option) of None \<Rightarrow> None | Some v \<Rightarrow>
     if unat v * unit_bytes < 2 ^ 64 then Some (of_nat (unat v * unit_bytes)) else None)"

definition value_to_bytes :: "rstr \<Rightarrow> u64 option" where
  "value_to_bytes s = (let s = trim s in case strip_suffix (lit ''KiB'') s of
       Some kib \<Rightarrow> scaled_bytes 1024 kib
     | None \<Rightarrow> (case strip_suffix (lit ''MiB'') s of Some mib \<Rightarrow> scaled_bytes (1024 * 1024) mib | None \<Rightarrow> parse_word s))"

record FdParse =
  fp_bdf :: "rstr option"
  fp_driver :: "rstr option"
  fp_client_id :: "u64 option"
  fp_engines :: "(rstr \<times> ParsedEngine) list"
  fp_resident :: u64
  fp_total :: u64

definition fd_start :: FdParse where
  "fd_start = \<lparr>fp_bdf = None, fp_driver = None, fp_client_id = None, fp_engines = [], fp_resident = 0, fp_total = 0\<rparr>"

definition set_engine :: "rstr \<Rightarrow> (ParsedEngine \<Rightarrow> ParsedEngine) \<Rightarrow> FdParse \<Rightarrow> FdParse" where
  "set_engine name f st = st\<lparr>fp_engines := update_entry no_engine f name (fp_engines st)\<rparr>"

definition on_number :: "'a option \<Rightarrow> ('a \<Rightarrow> 's \<Rightarrow> 's) \<Rightarrow> 's \<Rightarrow> 's" where
  "on_number v f st = (case v of Some n \<Rightarrow> f n st | None \<Rightarrow> st)"

definition fdinfo_entry :: "rstr \<Rightarrow> rstr \<Rightarrow> FdParse \<Rightarrow> FdParse" where
  "fdinfo_entry key v st =
     (if key = lit ''drm-pdev'' then st\<lparr>fp_bdf := Some (unwrap_or v (parse_pci_bdf v))\<rparr>
      else if key = lit ''drm-driver'' then st\<lparr>fp_driver := Some v\<rparr>
      else if key = lit ''drm-client-id'' then st\<lparr>fp_client_id := parse_u64 v\<rparr>
      else case strip_prefix (lit ''drm-engine-capacity-'') key of
        Some name \<Rightarrow> on_number (parse_u64 v) (\<lambda>n. if unat n < 2 ^ 32
          then set_engine name (\<lambda>e. e\<lparr>pe_capacity := Some (ucast n)\<rparr>) else id) st
      | None \<Rightarrow> (case strip_prefix (lit ''drm-total-cycles-'') key of
        Some name \<Rightarrow> on_number (parse_u64 v) (\<lambda>n. set_engine name (\<lambda>e. e\<lparr>pe_cycles_total := Some n\<rparr>)) st
      | None \<Rightarrow> (case strip_prefix (lit ''drm-cycles-'') key of
        Some name \<Rightarrow> on_number (parse_u64 v) (\<lambda>n. set_engine name (\<lambda>e. e\<lparr>pe_cycles_busy := Some n\<rparr>)) st
      | None \<Rightarrow> (case strip_prefix (lit ''drm-engine-'') key of
        Some name \<Rightarrow> on_number (parse_u64 v) (\<lambda>n. set_engine name (\<lambda>e. e\<lparr>pe_busy_ns := Some n\<rparr>)) st
      | None \<Rightarrow> if starts_with (lit ''drm-resident-'') key
          then on_number (value_to_bytes v) (\<lambda>n st. st\<lparr>fp_resident := sat_add (fp_resident st) n\<rparr>) st
        else if starts_with (lit ''drm-total-'') key
          then on_number (value_to_bytes v) (\<lambda>n st. st\<lparr>fp_total := sat_add (fp_total st) n\<rparr>) st
        else st))))"

definition fdinfo_line :: "FdParse \<Rightarrow> rstr \<Rightarrow> FdParse" where
  "fdinfo_line st line = (case split_once 58 line of None \<Rightarrow> st | Some (key, v) \<Rightarrow> fdinfo_entry (trim key) (trim v) st)"

definition parse_fdinfo :: "rstr \<Rightarrow> ParsedFd option" where
  "parse_fdinfo content = (let st = foldl fdinfo_line fd_start (lines content) in
     map_option (\<lambda>bdf. \<lparr>pf_bdf = bdf, pf_driver = unwrap_or [] (fp_driver st), pf_client_id = fp_client_id st,
       pf_engines = fp_engines st, pf_resident = fp_resident st, pf_total = fp_total st\<rparr>) (fp_bdf st))"

section \<open>The sum over the file descriptors\<close>

record AggEngine =
  ae_busy_ns_sum :: u64
  ae_has_busy_ns :: bool
  ae_cycles_busy_sum :: u64
  ae_has_cycles_busy :: bool
  ae_cycles_total_sum :: u64
  ae_has_cycles_total :: bool
  ae_capacity :: "u32 option"

definition agg_default :: AggEngine where
  "agg_default = \<lparr>ae_busy_ns_sum = 0, ae_has_busy_ns = False, ae_cycles_busy_sum = 0, ae_has_cycles_busy = False,
     ae_cycles_total_sum = 0, ae_has_cycles_total = False, ae_capacity = None\<rparr>"

definition busy_ns_value :: "AggEngine \<Rightarrow> u64 option" where
  "busy_ns_value e = (if ae_has_busy_ns e then Some (ae_busy_ns_sum e) else None)"

definition cycles_busy_value :: "AggEngine \<Rightarrow> u64 option" where
  "cycles_busy_value e = (if ae_has_cycles_busy e then Some (ae_cycles_busy_sum e) else None)"

definition cycles_total_value :: "AggEngine \<Rightarrow> u64 option" where
  "cycles_total_value e = (if ae_has_cycles_total e then Some (ae_cycles_total_sum e) else None)"

definition add_engine :: "ParsedEngine \<Rightarrow> AggEngine \<Rightarrow> AggEngine" where
  "add_engine e agg =
     on_number (pe_capacity e) (\<lambda>cap agg. agg\<lparr>ae_capacity := Some (case ae_capacity agg of None \<Rightarrow> cap | Some c \<Rightarrow> max c cap)\<rparr>)
     (on_number (pe_cycles_total e) (\<lambda>n agg. agg\<lparr>ae_cycles_total_sum := sat_add (ae_cycles_total_sum agg) n, ae_has_cycles_total := True\<rparr>)
     (on_number (pe_cycles_busy e) (\<lambda>n agg. agg\<lparr>ae_cycles_busy_sum := sat_add (ae_cycles_busy_sum agg) n, ae_has_cycles_busy := True\<rparr>)
     (on_number (pe_busy_ns e) (\<lambda>n agg. agg\<lparr>ae_busy_ns_sum := sat_add (ae_busy_ns_sum agg) n, ae_has_busy_ns := True\<rparr>) agg)))"

definition merge_engine :: "rstr \<times> ParsedEngine \<Rightarrow> (rstr \<times> AggEngine) list \<Rightarrow> (rstr \<times> AggEngine) list" where
  "merge_engine ne engines = update_entry agg_default (add_engine (snd ne)) (fst ne) engines"

record AggGpu =
  ag_driver :: rstr
  ag_client_count :: u32
  ag_resident :: u64
  ag_total :: u64
  ag_engines :: "(rstr \<times> AggEngine) list"

definition add_fd :: "ParsedFd \<Rightarrow> AggGpu \<Rightarrow> AggGpu" where
  "add_fd fd agg = agg\<lparr>ag_client_count := ag_client_count agg + 1, ag_resident := sat_add (ag_resident agg) (pf_resident fd),
     ag_total := sat_add (ag_total agg) (pf_total fd), ag_engines := fold merge_engine (pf_engines fd) (ag_engines agg)\<rparr>"

definition new_agg :: "ParsedFd \<Rightarrow> AggGpu" where
  "new_agg fd = \<lparr>ag_driver = pf_driver fd, ag_client_count = 0, ag_resident = 0, ag_total = 0, ag_engines = []\<rparr>"

type_synonym gpu_aggs = "(rstr \<times> AggGpu) list"

definition aggregate_fd :: "ParsedFd \<Rightarrow> (rstr \<times> u64) set \<times> gpu_aggs \<Rightarrow> (rstr \<times> u64) set \<times> gpu_aggs" where
  "aggregate_fd fd acc = (case acc of (seen, aggs) \<Rightarrow> (case pf_client_id fd of
       Some c \<Rightarrow> if (pf_bdf fd, c) \<in> seen then (seen, aggs)
         else (insert (pf_bdf fd, c) seen, update_entry (new_agg fd) (add_fd fd) (pf_bdf fd) aggs)
     | None \<Rightarrow> (seen, update_entry (new_agg fd) (add_fd fd) (pf_bdf fd) aggs)))"

definition aggregate :: "ParsedFd list \<Rightarrow> gpu_aggs" where
  "aggregate fds = snd (fold aggregate_fd fds ({}, []))"

section \<open>Utilization\<close>

record EngineCounter =
  ec_busy_ns :: "u64 option"
  ec_cycles_busy :: "u64 option"
  ec_cycles_total :: "u64 option"
  ec_sampled_at :: "instant option"

type_synonym EngineKey = "ProcessIdentity \<times> rstr \<times> rstr"
type_synonym DrmSamplerState = "EngineKey \<rightharpoonup> EngineCounter"

definition retain_counters :: "ProcessIdentity list \<Rightarrow> DrmSamplerState \<Rightarrow> DrmSamplerState" where
  "retain_counters live st = (\<lambda>k. if fst k \<in> set live then st k else None)"

definition utilization_ns :: "u64 \<Rightarrow> u64 \<Rightarrow> u64 \<Rightarrow> f64 option" where
  "utilization_ns busy_now busy_prev elapsed_ns = (if elapsed_ns = 0 \<or> busy_now < busy_prev then None
     else Some (fmul (fdiv (f64_of_u64 (busy_now - busy_prev)) (f64_of_u64 elapsed_ns)) (Fin 100)))"

definition utilization_cycles :: "u64 \<Rightarrow> u64 \<Rightarrow> u64 \<Rightarrow> u64 \<Rightarrow> f64 option" where
  "utilization_cycles busy_now busy_prev total_now total_prev =
     (if busy_now < busy_prev \<or> total_now < total_prev then None
      else if total_now - total_prev = 0 then None
      else Some (fmul (fdiv (f64_of_u64 (busy_now - busy_prev)) (f64_of_u64 (total_now - total_prev))) (Fin 100)))"

definition counter_of :: "instant \<Rightarrow> AggEngine \<Rightarrow> EngineCounter" where
  "counter_of now e = \<lparr>ec_busy_ns = busy_ns_value e, ec_cycles_busy = cycles_busy_value e, ec_cycles_total = cycles_total_value e,
     ec_sampled_at = Some now\<rparr>"

text \<open>\<^verbatim>\<open>as_nanos() as u64\<close> truncates.\<close>

definition engine_delta :: "EngineCounter option \<Rightarrow> instant \<Rightarrow> AggEngine \<Rightarrow> f64 option" where
  "engine_delta prev now e = (case prev of None \<Rightarrow> None | Some p \<Rightarrow>
     (case (busy_ns_value e, ec_busy_ns p, ec_sampled_at p) of
       (Some busy, Some busy_prev, Some since) \<Rightarrow> utilization_ns busy busy_prev (of_nat (now - since))
     | (Some _, _, _) \<Rightarrow> None
     | (None, _, _) \<Rightarrow> (case (cycles_busy_value e, cycles_total_value e, ec_cycles_busy p, ec_cycles_total p) of
         (Some busy, Some sum_now, Some busy_prev, Some sum_prev) \<Rightarrow> utilization_cycles busy busy_prev sum_now sum_prev
       | _ \<Rightarrow> None)))"

text \<open>A baseline without a time, which no sample stores, would end the function early.\<close>

definition engine_utilization ::
  "rstr \<Rightarrow> ProcessIdentity \<Rightarrow> rstr \<Rightarrow> instant \<Rightarrow> AggEngine \<Rightarrow> DrmSamplerState \<Rightarrow> f64 option \<times> DrmSamplerState" where
  "engine_utilization name identity bdf now e st =
     (let key = (identity, bdf, name) in
      if busy_ns_value e \<noteq> None \<and> is_some_and (\<lambda>p. ec_busy_ns p \<noteq> None \<and> ec_sampled_at p = None) (st key) then (None, st)
      else (engine_delta (st key) now e, st(key \<mapsto> counter_of now e)))"

record DrmEngine =
  de_name :: rstr
  de_busy_ns :: "u64 option"
  de_cycles_busy :: "u64 option"
  de_cycles_total :: "u64 option"
  de_capacity :: "u32 option"
  de_utilization_pct :: "f64 option"

record DrmProcessGpu =
  dg_bdf :: rstr
  dg_driver :: rstr
  dg_client_count :: u32
  dg_resident_bytes :: u64
  dg_total_bytes :: u64
  dg_engines :: "DrmEngine list"

section \<open>Sampling\<close>

definition drm_fd :: "Sys \<Rightarrow> rstr \<Rightarrow> rstr \<Rightarrow> ParsedFd option" where
  "drm_fd sys pid_dir name =
     (if is_some_and (starts_with (lit ''/dev/dri/'')) (symlink_target sys (path_join (path_join pid_dir (lit ''fd'')) name))
      then Option.bind (read_to_string sys (path_join (path_join pid_dir (lit ''fdinfo'')) name)) parse_fdinfo else None)"

definition process_fds :: "Sys \<Rightarrow> u32 \<Rightarrow> ParsedFd list" where
  "process_fds sys pid = (let pid_dir = path_join (lit ''/proc'') (show_word pid) in
     case read_dir_names sys (path_join pid_dir (lit ''fd'')) of None \<Rightarrow> [] | Some names \<Rightarrow> List.map_filter (drm_fd sys pid_dir) names)"

fun device_engines ::
  "ProcessIdentity \<Rightarrow> rstr \<Rightarrow> instant \<Rightarrow> (rstr \<times> AggEngine) list \<Rightarrow> DrmSamplerState \<Rightarrow> DrmEngine list \<times> DrmSamplerState" where
  "device_engines identity bdf now [] st = ([], st)"
| "device_engines identity bdf now ((name, e) # es) st = (let
       (u, st) = engine_utilization name identity bdf now e st;
       (ds, st) = device_engines identity bdf now es st
     in (\<lparr>de_name = name, de_busy_ns = busy_ns_value e, de_cycles_busy = cycles_busy_value e, de_cycles_total = cycles_total_value e,
          de_capacity = ae_capacity e, de_utilization_pct = u\<rparr> # ds, st))"

fun devices :: "ProcessIdentity \<Rightarrow> instant \<Rightarrow> gpu_aggs \<Rightarrow> DrmSamplerState \<Rightarrow> DrmProcessGpu list \<times> DrmSamplerState" where
  "devices identity now [] st = ([], st)"
| "devices identity now ((bdf, agg) # aggs) st = (let
       (engines, st) = device_engines identity bdf now (ag_engines agg) st;
       (ds, st) = devices identity now aggs st
     in (\<lparr>dg_bdf = bdf, dg_driver = ag_driver agg, dg_client_count = ag_client_count agg, dg_resident_bytes = ag_resident agg,
          dg_total_bytes = ag_total agg, dg_engines = sort_key de_name engines\<rparr> # ds, st))"

definition sample_process_gpus ::
  "Sys \<Rightarrow> instant \<Rightarrow> ProcessIdentity \<Rightarrow> DrmSamplerState \<Rightarrow> DrmProcessGpu list \<times> DrmSamplerState" where
  "sample_process_gpus sys now identity st = devices identity now (aggregate (process_fds sys (pi_pid identity))) st"

section \<open>Tables\<close>

lemma map_of_update_entry:
  "map_of (update_entry d f k kvs) k' = (if k' = k then Some (f (case map_of kvs k of Some v \<Rightarrow> v | None \<Rightarrow> d)) else map_of kvs k')"
  by (induction d f k kvs rule: update_entry.induct) auto

lemma keys_update_entry:
  "map fst (update_entry d f k kvs) = map fst kvs @ (if k \<in> fst ` set kvs then [] else [k])"
  by (induction d f k kvs rule: update_entry.induct) auto

lemma distinct_update_entry: "distinct (map fst kvs) \<Longrightarrow> distinct (map fst (update_entry d f k kvs))"
  by (auto simp: keys_update_entry)

text \<open>A table filled from a list: per key, the operations of its entries in order.\<close>

lemma map_of_fold_update:
  "map_of (fold (\<lambda>x. update_entry (d x) (f x) (key x)) xs kvs) k =
   (let mine = filter (\<lambda>x. key x = k) xs in
    case map_of kvs k of Some v \<Rightarrow> Some (fold f mine v)
    | None \<Rightarrow> if mine = [] then None else Some (fold f mine (d (hd mine))))"
  by (induction xs arbitrary: kvs) (auto simp: map_of_update_entry Let_def split: option.split)

lemma keys_fold_update:
  "map fst (fold (\<lambda>x. update_entry (d x) (f x) (key x)) xs kvs) = map fst kvs @ first_of_key id (fst ` set kvs) (map key xs)"
proof (induction xs arbitrary: kvs)
  case (Cons x xs)
  have "fst ` set (update_entry (d x) (f x) (key x) kvs) = insert (key x) (fst ` set kvs)"
    using arg_cong [where f = set, OF keys_update_entry [of "d x" "f x" "key x" kvs]] by auto
  then show ?case using Cons.IH [of "update_entry (d x) (f x) (key x) kvs"] by (auto simp: keys_update_entry insert_absorb)
qed simp

section \<open>Each client counts once\<close>

text \<open>The first file descriptor of each client of a device, and those that name no client.\<close>

fun unique_fds :: "(rstr \<times> u64) set \<Rightarrow> ParsedFd list \<Rightarrow> ParsedFd list" where
  "unique_fds seen [] = []"
| "unique_fds seen (fd # fds) = (case pf_client_id fd of
       None \<Rightarrow> fd # unique_fds seen fds
     | Some c \<Rightarrow> if (pf_bdf fd, c) \<in> seen then unique_fds seen fds else fd # unique_fds (insert (pf_bdf fd, c) seen) fds)"

lemma aggregate_unique:
  "aggregate fds = fold (\<lambda>fd. update_entry (new_agg fd) (add_fd fd) (pf_bdf fd)) (unique_fds {} fds) []"
proof -
  have "snd (fold aggregate_fd fds (seen, aggs)) = fold (\<lambda>fd. update_entry (new_agg fd) (add_fd fd) (pf_bdf fd)) (unique_fds seen fds) aggs"
    for seen aggs by (induction seen fds arbitrary: aggs rule: unique_fds.induct) (auto simp: aggregate_fd_def split: option.split)
  then show ?thesis by (simp add: aggregate_def)
qed

lemma aggregate_keys: "map fst (aggregate fds) = first_of_key id {} (map pf_bdf (unique_fds {} fds))"
  unfolding aggregate_unique keys_fold_update by simp

lemma aggregate_distinct: "distinct (map fst (aggregate fds))"
  unfolding aggregate_keys using first_of_key_distinct [of id] by simp

lemma aggregate_entry:
  assumes "(bdf, agg) \<in> set (aggregate fds)"
  shows "filter (\<lambda>fd. pf_bdf fd = bdf) (unique_fds {} fds) \<noteq> [] \<and>
    agg = fold add_fd (filter (\<lambda>fd. pf_bdf fd = bdf) (unique_fds {} fds)) (new_agg (hd (filter (\<lambda>fd. pf_bdf fd = bdf) (unique_fds {} fds))))"
proof -
  have "map_of (aggregate fds) bdf = Some agg" using assms aggregate_distinct by (rule map_of_is_SomeI [rotated])
  then show ?thesis unfolding aggregate_unique map_of_fold_update by (auto simp: Let_def split: if_splits)
qed

text \<open>A saturating sum is the sum, cut off at the largest value.\<close>

definition sat_total :: "u64 list \<Rightarrow> u64" where
  "sat_total ws = of_nat (min (sum_list (map unat ws)) (2 ^ 64 - 1))"

lemma unat_sat_total: "unat (sat_total ws) = min (sum_list (map unat ws)) (2 ^ 64 - 1)"
  by (simp add: sat_total_def unat_of_nat)

lemma unat_foldl_sat: "unat (foldl sat_add w ws) = min (unat w + sum_list (map unat ws)) (2 ^ 64 - 1)" for w :: u64
proof (induction ws arbitrary: w)
  case Nil
  then show ?case using unsigned_less [of w, where ?'a = nat] by simp
next
  case (Cons v ws)
  then show ?case by (simp add: unat_sat_add)
qed

lemma foldl_sat_total: "foldl sat_add 0 ws = sat_total ws"
  by (simp add: word_unat_eq_iff unat_foldl_sat unat_sat_total)

lemma add_fd_simps [simp]:
  "ag_driver (add_fd fd agg) = ag_driver agg"
  "ag_client_count (add_fd fd agg) = ag_client_count agg + 1"
  "ag_resident (add_fd fd agg) = sat_add (ag_resident agg) (pf_resident fd)"
  "ag_total (add_fd fd agg) = sat_add (ag_total agg) (pf_total fd)"
  "ag_engines (add_fd fd agg) = fold merge_engine (pf_engines fd) (ag_engines agg)"
  by (simp_all add: add_fd_def)

lemma fold_add_fd:
  "ag_driver (fold add_fd fds agg) = ag_driver agg"
  "ag_client_count (fold add_fd fds agg) = ag_client_count agg + of_nat (length fds)"
  "ag_resident (fold add_fd fds agg) = foldl sat_add (ag_resident agg) (map pf_resident fds)"
  "ag_total (fold add_fd fds agg) = foldl sat_add (ag_total agg) (map pf_total fds)"
  "ag_engines (fold add_fd fds agg) = fold merge_engine (concat (map pf_engines fds)) (ag_engines agg)"
  by (induction fds arbitrary: agg) simp_all

text \<open>The numbers the engines of one name report.\<close>

definition reported :: "(ParsedEngine \<Rightarrow> u64 option) \<Rightarrow> rstr \<Rightarrow> ParsedFd list \<Rightarrow> u64 list" where
  "reported get name fds = List.map_filter get (map snd (filter (\<lambda>ne. fst ne = name) (concat (map pf_engines fds))))"

definition opt_total :: "u64 list \<Rightarrow> u64 option" where
  "opt_total ws = (if ws = [] then None else Some (sat_total ws))"

lemma add_engine_simps [simp]:
  "ae_has_busy_ns (add_engine e agg) \<longleftrightarrow> ae_has_busy_ns agg \<or> pe_busy_ns e \<noteq> None"
  "ae_busy_ns_sum (add_engine e agg) = (case pe_busy_ns e of Some n \<Rightarrow> sat_add (ae_busy_ns_sum agg) n | None \<Rightarrow> ae_busy_ns_sum agg)"
  "ae_has_cycles_busy (add_engine e agg) \<longleftrightarrow> ae_has_cycles_busy agg \<or> pe_cycles_busy e \<noteq> None"
  "ae_cycles_busy_sum (add_engine e agg) = (case pe_cycles_busy e of Some n \<Rightarrow> sat_add (ae_cycles_busy_sum agg) n | None \<Rightarrow> ae_cycles_busy_sum agg)"
  "ae_has_cycles_total (add_engine e agg) \<longleftrightarrow> ae_has_cycles_total agg \<or> pe_cycles_total e \<noteq> None"
  "ae_cycles_total_sum (add_engine e agg) = (case pe_cycles_total e of Some n \<Rightarrow> sat_add (ae_cycles_total_sum agg) n | None \<Rightarrow> ae_cycles_total_sum agg)"
  by (simp_all add: add_engine_def on_number_def split: option.split)

lemma fold_has:
  assumes "\<And>e agg. has (add_engine e agg) \<longleftrightarrow> has agg \<or> get e \<noteq> None"
  shows "has (fold add_engine es agg) \<longleftrightarrow> has agg \<or> List.map_filter get es \<noteq> []"
  by (induction es arbitrary: agg) (auto simp: assms map_filter_simps split: option.split)

lemma fold_sum:
  assumes "\<And>e agg. field (add_engine e agg) = (case get e of Some n \<Rightarrow> sat_add (field agg) n | None \<Rightarrow> field agg)"
  shows "field (fold add_engine es agg) = foldl sat_add (field agg) (List.map_filter get es)"
  by (induction es arbitrary: agg) (auto simp: assms map_filter_simps split: option.split)

lemmas fold_add_engine =
  fold_has [of ae_has_busy_ns pe_busy_ns, OF add_engine_simps(1)] fold_sum [of ae_busy_ns_sum pe_busy_ns, OF add_engine_simps(2)]
  fold_has [of ae_has_cycles_busy pe_cycles_busy, OF add_engine_simps(3)]
  fold_sum [of ae_cycles_busy_sum pe_cycles_busy, OF add_engine_simps(4)]
  fold_has [of ae_has_cycles_total pe_cycles_total, OF add_engine_simps(5)]
  fold_sum [of ae_cycles_total_sum pe_cycles_total, OF add_engine_simps(6)]

lemma engine_totals:
  assumes "(name, e) \<in> set (fold merge_engine (concat (map pf_engines fds)) [])"
  shows "busy_ns_value e = opt_total (reported pe_busy_ns name fds)"
    "cycles_busy_value e = opt_total (reported pe_cycles_busy name fds)"
    "cycles_total_value e = opt_total (reported pe_cycles_total name fds)"
proof -
  let ?nes = "concat (map pf_engines fds)"
  have fold: "fold merge_engine ?nes [] = fold (\<lambda>ne. update_entry agg_default (add_engine (snd ne)) (fst ne)) ?nes []"
    by (rule fold_cong) (auto simp: merge_engine_def)
  have "distinct (map fst (fold merge_engine ?nes []))" unfolding fold keys_fold_update using first_of_key_distinct [of id] by simp
  then have "map_of (fold merge_engine ?nes []) name = Some e" using assms by (rule map_of_is_SomeI)
  then have "e = fold (\<lambda>ne. add_engine (snd ne)) (filter (\<lambda>ne. fst ne = name) ?nes) agg_default"
    unfolding fold map_of_fold_update by (auto simp: Let_def split: if_splits)
  then have e: "e = fold add_engine (map snd (filter (\<lambda>ne. fst ne = name) ?nes)) agg_default" by (simp add: fold_map comp_def)
  show "busy_ns_value e = opt_total (reported pe_busy_ns name fds)"
    "cycles_busy_value e = opt_total (reported pe_cycles_busy name fds)"
    "cycles_total_value e = opt_total (reported pe_cycles_total name fds)"
    unfolding e by (simp_all add: busy_ns_value_def cycles_busy_value_def cycles_total_value_def fold_add_engine opt_total_def reported_def
        agg_default_def foldl_sat_total)
qed


section \<open>Baselines\<close>

lemma engine_utilization_timed:
  "is_none_or (\<lambda>p. ec_sampled_at p \<noteq> None) (st (identity, bdf, name)) \<Longrightarrow>
   engine_utilization name identity bdf now e st = (engine_delta (st (identity, bdf, name)) now e, st((identity, bdf, name) \<mapsto> counter_of now e))"
  by (auto simp: engine_utilization_def Let_def is_none_or_def is_some_and_def split: option.splits)

text \<open>Every baseline has a time.\<close>

definition timed :: "DrmSamplerState \<Rightarrow> bool" where
  "timed st \<longleftrightarrow> (\<forall>k p. st k = Some p \<longrightarrow> ec_sampled_at p \<noteq> None)"

lemma timed_none_or: "timed st \<Longrightarrow> is_none_or (\<lambda>p. ec_sampled_at p \<noteq> None) (st k)"
  by (cases k) (auto simp: timed_def is_none_or_def split: option.split)

lemma timed_upd: "timed st \<Longrightarrow> timed (st(k \<mapsto> counter_of now e))"
  by (auto simp: timed_def counter_of_def)

definition engine_row :: "DrmSamplerState \<Rightarrow> ProcessIdentity \<Rightarrow> rstr \<Rightarrow> instant \<Rightarrow> rstr \<times> AggEngine \<Rightarrow> DrmEngine" where
  "engine_row st identity bdf now ne = (case ne of (name, e) \<Rightarrow>
     \<lparr>de_name = name, de_busy_ns = busy_ns_value e, de_cycles_busy = cycles_busy_value e, de_cycles_total = cycles_total_value e,
      de_capacity = ae_capacity e, de_utilization_pct = engine_delta (st (identity, bdf, name)) now e\<rparr>)"

definition engine_baseline :: "ProcessIdentity \<Rightarrow> rstr \<Rightarrow> instant \<Rightarrow> (rstr \<times> AggEngine) list \<Rightarrow> DrmSamplerState" where
  "engine_baseline identity bdf now es =
     (\<lambda>(i, b, name). if i = identity \<and> b = bdf then map_option (counter_of now) (map_of es name) else None)"

lemma engine_baseline_Cons:
  "name \<notin> fst ` set es \<Longrightarrow> st((identity, bdf, name) \<mapsto> counter_of now e) ++ engine_baseline identity bdf now es
     = st ++ engine_baseline identity bdf now ((name, e) # es)"
proof (rule ext)
  fix k :: EngineKey
  assume "name \<notin> fst ` set es"
  then have none: "map_of es name = None" by (simp add: map_of_eq_None_iff)
  obtain i b n where k: "k = (i, b, n)" by (cases k)
  show "(st((identity, bdf, name) \<mapsto> counter_of now e) ++ engine_baseline identity bdf now es) k
     = (st ++ engine_baseline identity bdf now ((name, e) # es)) k"
    unfolding k map_add_def engine_baseline_def
    by (cases "i = identity \<and> b = bdf"; cases "n = name") (auto simp: none split: option.split)
qed

lemma device_engines_rows:
  assumes "timed st" "distinct (map fst es)"
  shows "device_engines identity bdf now es st = (map (engine_row st identity bdf now) es, st ++ engine_baseline identity bdf now es)"
  using assms
proof (induction es arbitrary: st)
  case Nil
  have "engine_baseline identity bdf now [] = Map.empty" by (auto simp: engine_baseline_def fun_eq_iff)
  then show ?case by simp
next
  case (Cons ne es)
  obtain name e where ne: "ne = (name, e)" by (cases ne)
  let ?st = "st((identity, bdf, name) \<mapsto> counter_of now e)"
  have fresh: "name \<notin> fst ` set es" using Cons.prems(2) by (simp add: ne)
  then have rows: "map (engine_row ?st identity bdf now) es = map (engine_row st identity bdf now) es"
    by (force simp: engine_row_def)
  have "engine_utilization name identity bdf now e st = (engine_delta (st (identity, bdf, name)) now e, ?st)"
    by (rule engine_utilization_timed) (rule timed_none_or [OF Cons.prems(1)])
  moreover have "device_engines identity bdf now es ?st = (map (engine_row ?st identity bdf now) es, ?st ++ engine_baseline identity bdf now es)"
    using Cons.prems(2) by (intro Cons.IH timed_upd [OF Cons.prems(1)]) simp
  ultimately show ?case
    unfolding ne device_engines.simps by (simp only: Let_def prod.case rows engine_baseline_Cons [OF fresh] list.map) (simp add: engine_row_def)
qed

definition device_row :: "DrmSamplerState \<Rightarrow> ProcessIdentity \<Rightarrow> instant \<Rightarrow> rstr \<times> AggGpu \<Rightarrow> DrmProcessGpu" where
  "device_row st identity now ba = (case ba of (bdf, agg) \<Rightarrow>
     \<lparr>dg_bdf = bdf, dg_driver = ag_driver agg, dg_client_count = ag_client_count agg, dg_resident_bytes = ag_resident agg,
      dg_total_bytes = ag_total agg, dg_engines = sort_key de_name (map (engine_row st identity bdf now) (ag_engines agg))\<rparr>)"

definition new_baseline :: "ProcessIdentity \<Rightarrow> instant \<Rightarrow> gpu_aggs \<Rightarrow> DrmSamplerState" where
  "new_baseline identity now aggs = (\<lambda>(i, b, name). if i = identity
     then map_option (counter_of now) (Option.bind (map_of aggs b) (\<lambda>agg. map_of (ag_engines agg) name)) else None)"

lemma new_baseline_Cons:
  "bdf \<notin> fst ` set aggs \<Longrightarrow> (st ++ engine_baseline identity bdf now (ag_engines agg)) ++ new_baseline identity now aggs
     = st ++ new_baseline identity now ((bdf, agg) # aggs)"
proof (rule ext)
  fix k :: EngineKey
  assume "bdf \<notin> fst ` set aggs"
  then have none: "map_of aggs bdf = None" by (simp add: map_of_eq_None_iff)
  obtain i b name where k: "k = (i, b, name)" by (cases k)
  show "((st ++ engine_baseline identity bdf now (ag_engines agg)) ++ new_baseline identity now aggs) k
     = (st ++ new_baseline identity now ((bdf, agg) # aggs)) k"
    unfolding k map_add_def engine_baseline_def new_baseline_def
    by (cases "i = identity"; cases "b = bdf") (simp_all add: none split: option.split)
qed

lemma timed_baseline: "timed st \<Longrightarrow> timed (st ++ engine_baseline identity bdf now es)"
  by (auto simp: timed_def engine_baseline_def map_add_def counter_of_def split: option.splits if_splits)

lemma devices_rows:
  assumes "timed st" "distinct (map fst aggs)" "\<forall>ba \<in> set aggs. distinct (map fst (ag_engines (snd ba)))"
  shows "devices identity now aggs st = (map (device_row st identity now) aggs, st ++ new_baseline identity now aggs)"
  using assms
proof (induction aggs arbitrary: st)
  case Nil
  have "new_baseline identity now [] = Map.empty" by (auto simp: new_baseline_def fun_eq_iff)
  then show ?case by simp
next
  case (Cons ba aggs)
  obtain bdf agg where ba: "ba = (bdf, agg)" by (cases ba)
  let ?st = "st ++ engine_baseline identity bdf now (ag_engines agg)"
  have eng: "device_engines identity bdf now (ag_engines agg) st = (map (engine_row st identity bdf now) (ag_engines agg), ?st)"
    using Cons.prems by (intro device_engines_rows) (simp_all add: ba)
  have other: "?st (i, b, name) = st (i, b, name)" if "b \<noteq> bdf" for i b name
    using that by (simp add: engine_baseline_def map_add_def)
  have fresh: "bdf \<notin> fst ` set aggs" using Cons.prems(2) by (simp add: ba)
  have same: "engine_row ?st identity b now = engine_row st identity b now" if "b \<noteq> bdf" for b
    using other [OF that] by (simp add: engine_row_def fun_eq_iff)
  have rows: "map (device_row ?st identity now) aggs = map (device_row st identity now) aggs"
  proof (rule map_cong [OF refl])
    fix x assume "x \<in> set aggs"
    then have "fst x \<noteq> bdf" using fresh by force
    then show "device_row ?st identity now x = device_row st identity now x"
      using same [of "fst x"] by (simp add: device_row_def case_prod_beta)
  qed
  have "devices identity now aggs ?st = (map (device_row ?st identity now) aggs, ?st ++ new_baseline identity now aggs)"
    using Cons.prems(2,3) by (intro Cons.IH timed_baseline [OF Cons.prems(1)]) (simp_all add: ba)
  then show ?case
    unfolding ba devices.simps by (simp only: Let_def prod.case eng rows new_baseline_Cons [OF fresh] list.map) (simp add: device_row_def)
qed

lemma aggregate_engines_distinct: "ba \<in> set (aggregate fds) \<Longrightarrow> distinct (map fst (ag_engines (snd ba)))"
proof -
  assume ba: "ba \<in> set (aggregate fds)"
  obtain bdf agg where "ba = (bdf, agg)" by (cases ba)
  moreover have "distinct (map fst (fold merge_engine nes []))" for nes
  proof -
    have "fold merge_engine nes [] = fold (\<lambda>ne. update_entry agg_default (add_engine (snd ne)) (fst ne)) nes []"
      by (rule fold_cong) (auto simp: merge_engine_def)
    then show ?thesis using first_of_key_distinct [of id] by (simp add: keys_fold_update)
  qed
  ultimately show ?thesis using aggregate_entry [of bdf agg fds] ba by (simp add: fold_add_fd new_agg_def)
qed

lemma sample_rows:
  assumes "timed st"
  shows "sample_process_gpus sys now identity st = (map (device_row st identity now) (aggregate (process_fds sys (pi_pid identity))),
    st ++ new_baseline identity now (aggregate (process_fds sys (pi_pid identity))))"
  unfolding sample_process_gpus_def using assms aggregate_distinct aggregate_engines_distinct by (intro devices_rows) auto

text \<open>
  nothing is counted twice: a process is shown one row per device, in the order its
  file descriptors first name them, and the memory and the engine counters of a row are the saturating sums
  over the distinct clients of that device; a descriptor that shares its client with an earlier one adds nothing.
\<close>

theorem process_gpu_totals:
  assumes "timed st"
  shows "let us = unique_fds {} (process_fds sys (pi_pid identity)); gpus = fst (sample_process_gpus sys now identity st) in
    map dg_bdf gpus = first_of_key id {} (map pf_bdf us) \<and>
    (\<forall>g \<in> set gpus. let mine = filter (\<lambda>fd. pf_bdf fd = dg_bdf g) us in
       mine \<noteq> [] \<and> dg_driver g = pf_driver (hd mine) \<and> dg_client_count g = of_nat (length mine) \<and>
       dg_resident_bytes g = sat_total (map pf_resident mine) \<and> dg_total_bytes g = sat_total (map pf_total mine) \<and>
       sorted (map de_name (dg_engines g)) \<and> distinct (map de_name (dg_engines g)) \<and>
       (\<forall>e \<in> set (dg_engines g). de_busy_ns e = opt_total (reported pe_busy_ns (de_name e) mine) \<and>
          de_cycles_busy e = opt_total (reported pe_cycles_busy (de_name e) mine) \<and>
          de_cycles_total e = opt_total (reported pe_cycles_total (de_name e) mine)))"
proof -
  let ?fds = "process_fds sys (pi_pid identity)"
  have keys: "map dg_bdf (fst (sample_process_gpus sys now identity st)) = first_of_key id {} (map pf_bdf (unique_fds {} ?fds))"
    by (simp add: sample_rows [OF assms] device_row_def comp_def case_prod_beta aggregate_keys)
  show ?thesis
    unfolding Let_def keys
  proof (intro conjI refl ballI)
    fix g assume "g \<in> set (fst (sample_process_gpus sys now identity st))"
    then obtain bdf agg where ba: "(bdf, agg) \<in> set (aggregate ?fds)" and g: "g = device_row st identity now (bdf, agg)"
      by (auto simp: sample_rows [OF assms])
    let ?mine = "filter (\<lambda>fd. pf_bdf fd = bdf) (unique_fds {} ?fds)"
    have bdf: "dg_bdf g = bdf" by (simp add: g device_row_def)
    note agg = aggregate_entry [OF ba]
    then have engines: "ag_engines agg = fold merge_engine (concat (map pf_engines ?mine)) []"
      by (simp add: fold_add_fd new_agg_def)
    have names: "set (map de_name (dg_engines g)) = fst ` set (ag_engines agg)" "mset (map de_name (dg_engines g)) = mset (map fst (ag_engines agg))"
      by (simp_all add: g device_row_def engine_row_def case_prod_beta image_image image_mset.compositionality comp_def)
    show "filter (\<lambda>fd. pf_bdf fd = dg_bdf g) (unique_fds {} ?fds) \<noteq> []" using agg by (simp add: bdf)
    show "dg_driver g = pf_driver (hd (filter (\<lambda>fd. pf_bdf fd = dg_bdf g) (unique_fds {} ?fds)))"
      "dg_client_count g = of_nat (length (filter (\<lambda>fd. pf_bdf fd = dg_bdf g) (unique_fds {} ?fds)))"
      "dg_resident_bytes g = sat_total (map pf_resident (filter (\<lambda>fd. pf_bdf fd = dg_bdf g) (unique_fds {} ?fds)))"
      "dg_total_bytes g = sat_total (map pf_total (filter (\<lambda>fd. pf_bdf fd = dg_bdf g) (unique_fds {} ?fds)))"
      unfolding bdf using agg by (simp_all add: g device_row_def fold_add_fd new_agg_def foldl_sat_total)
    show "sorted (map de_name (dg_engines g))" by (simp add: g device_row_def)
    show "distinct (map de_name (dg_engines g))"
      using aggregate_engines_distinct [OF ba] names(2) by (metis mset_eq_imp_distinct_iff snd_conv)
    fix e assume "e \<in> set (dg_engines g)"
    then obtain name a where "(name, a) \<in> set (ag_engines agg)" "e = engine_row st identity bdf now (name, a)"
      by (auto simp: g device_row_def)
    then show "de_busy_ns e = opt_total (reported pe_busy_ns (de_name e) (filter (\<lambda>fd. pf_bdf fd = dg_bdf g) (unique_fds {} ?fds)))"
      "de_cycles_busy e = opt_total (reported pe_cycles_busy (de_name e) (filter (\<lambda>fd. pf_bdf fd = dg_bdf g) (unique_fds {} ?fds)))"
      "de_cycles_total e = opt_total (reported pe_cycles_total (de_name e) (filter (\<lambda>fd. pf_bdf fd = dg_bdf g) (unique_fds {} ?fds)))"
      using engine_totals [of name a ?mine] unfolding bdf by (simp_all add: engines engine_row_def)
  qed
qed

text \<open>Whether a counter of a sample can be compared with the baseline.\<close>

definition measurable :: "EngineCounter \<Rightarrow> instant \<Rightarrow> DrmEngine \<Rightarrow> bool" where
  "measurable p now e = (case (de_busy_ns e, ec_busy_ns p, ec_sampled_at p) of
       (Some busy, Some busy_prev, Some since) \<Rightarrow> busy_prev \<le> busy \<and> (of_nat (now - since) :: u64) \<noteq> 0
     | (Some _, _, _) \<Rightarrow> False
     | (None, _, _) \<Rightarrow> (case (de_cycles_busy e, de_cycles_total e, ec_cycles_busy p, ec_cycles_total p) of
         (Some busy, Some sum_now, Some busy_prev, Some sum_prev) \<Rightarrow> busy_prev \<le> busy \<and> sum_prev < sum_now
       | _ \<Rightarrow> False))"

lemma ratio_nonneg: "0 < d \<Longrightarrow> Fin 0 \<le> fmul (fdiv (f64_of_u64 n) (f64_of_u64 d)) (Fin 100)"
proof -
  assume "0 < d"
  then have "Fin 1 \<le> f64_of_u64 d" unfolding f64_of_u64_def by (intro f64_of_nat_pos) (simp add: unat_gt_0)
  moreover obtain b where b: "f64_of_u64 d = Fin b" using f64_of_u64_finite by (auto simp: is_finite_iff)
  ultimately have "0 < b" by simp
  then show ?thesis unfolding b by (intro fmul_nonneg fdiv_nonneg) simp_all
qed

lemma utilization_ns_props:
  "utilization_ns a b c \<noteq> None \<longleftrightarrow> b \<le> a \<and> c \<noteq> 0" "utilization_ns a b c = Some u \<Longrightarrow> Fin 0 \<le> u"
  using ratio_nonneg [of c "a - b"] by (auto simp: utilization_ns_def word_gt_0 split: if_splits)

lemma utilization_cycles_props:
  "utilization_cycles a b c d \<noteq> None \<longleftrightarrow> b \<le> a \<and> d < c" "utilization_cycles a b c d = Some u \<Longrightarrow> Fin 0 \<le> u"
proof -
  show "utilization_cycles a b c d \<noteq> None \<longleftrightarrow> b \<le> a \<and> d < c"
    by (auto simp: utilization_cycles_def)
  show "utilization_cycles a b c d = Some u \<Longrightarrow> Fin 0 \<le> u"
    using ratio_nonneg [of "c - d" "a - b"] by (auto simp: utilization_cycles_def word_gt_0 split: if_splits)
qed

lemma engine_delta_props:
  "engine_delta (Some p) now e \<noteq> None \<longleftrightarrow> measurable p now (engine_row st identity bdf now (name, e))"
  "engine_delta q now e = Some u \<Longrightarrow> Fin 0 \<le> u"
proof -
  show "engine_delta (Some p) now e \<noteq> None \<longleftrightarrow> measurable p now (engine_row st identity bdf now (name, e))"
    unfolding engine_delta_def measurable_def engine_row_def
    by (auto split: option.splits simp: utilization_ns_props(1) [unfolded not_None_eq] utilization_cycles_props(1) [unfolded not_None_eq])
  show "engine_delta q now e = Some u \<Longrightarrow> Fin 0 \<le> u"
    by (auto simp: engine_delta_def dest: utilization_ns_props(2) utilization_cycles_props(2) split: option.splits)
qed


text \<open>
  C20: a utilization is measured, never made up: it is shown exactly when the same process, by number
  and start time, was sampled before on that device and engine and its counters have not gone back; it is
  never negative.  The sample stores the baseline of every engine it shows and changes no other.
\<close>

theorem engine_baselines:
  assumes "timed st"
  shows "let (gpus, st') = sample_process_gpus sys now identity st in
    timed st' \<and>
    (\<forall>g \<in> set gpus. \<forall>e \<in> set (dg_engines g).
       (de_utilization_pct e \<noteq> None \<longleftrightarrow> is_some_and (\<lambda>p. measurable p now e) (st (identity, dg_bdf g, de_name e))) \<and>
       (\<forall>u. de_utilization_pct e = Some u \<longrightarrow> Fin 0 \<le> u) \<and>
       st' (identity, dg_bdf g, de_name e) = Some \<lparr>ec_busy_ns = de_busy_ns e, ec_cycles_busy = de_cycles_busy e,
         ec_cycles_total = de_cycles_total e, ec_sampled_at = Some now\<rparr>) \<and>
    (\<forall>i b name. i \<noteq> identity \<or> (\<forall>g \<in> set gpus. dg_bdf g = b \<longrightarrow> name \<notin> de_name ` set (dg_engines g)) \<longrightarrow> st' (i, b, name) = st (i, b, name))"
proof -
  let ?aggs = "aggregate (process_fds sys (pi_pid identity))"
  let ?st = "st ++ new_baseline identity now ?aggs"
  have timed: "timed ?st"
    using assms by (auto simp: timed_def new_baseline_def map_add_def counter_of_def split: option.splits if_splits)
  have lookup: "new_baseline identity now ?aggs (identity, bdf, name) = Some (counter_of now a)"
    if "(bdf, agg) \<in> set ?aggs" "(name, a) \<in> set (ag_engines agg)" for bdf agg name a
    using map_of_is_SomeI [OF aggregate_distinct that(1)] map_of_is_SomeI [OF aggregate_engines_distinct [OF that(1), simplified] that(2)]
    by (simp add: new_baseline_def)
  have rows: "(de_utilization_pct e \<noteq> None \<longleftrightarrow> is_some_and (\<lambda>p. measurable p now e) (st (identity, dg_bdf g, de_name e))) \<and>
       (\<forall>u. de_utilization_pct e = Some u \<longrightarrow> Fin 0 \<le> u) \<and>
       ?st (identity, dg_bdf g, de_name e) = Some \<lparr>ec_busy_ns = de_busy_ns e, ec_cycles_busy = de_cycles_busy e,
         ec_cycles_total = de_cycles_total e, ec_sampled_at = Some now\<rparr>"
    if ge: "g \<in> set (map (device_row st identity now) ?aggs)" "e \<in> set (dg_engines g)" for g e
  proof -
    obtain bdf agg where ba: "(bdf, agg) \<in> set ?aggs" and g: "g = device_row st identity now (bdf, agg)" using ge(1) by auto
    obtain name a where na: "(name, a) \<in> set (ag_engines agg)" and e: "e = engine_row st identity bdf now (name, a)"
      using ge(2) by (auto simp: g device_row_def)
    have key: "dg_bdf g = bdf" "de_name e = name" by (simp_all add: g device_row_def e engine_row_def)
    have u: "de_utilization_pct e = engine_delta (st (identity, bdf, name)) now a" by (simp add: e engine_row_def)
    have "?st (identity, bdf, name) = Some (counter_of now a)" using lookup [OF ba na] by (simp add: map_add_def)
    moreover have "engine_delta (st (identity, bdf, name)) now a \<noteq> None \<longleftrightarrow> is_some_and (\<lambda>p. measurable p now e) (st (identity, bdf, name))"
    proof (cases "st (identity, bdf, name)")
      case None
      then show ?thesis by (simp add: engine_delta_def is_some_and_def)
    next
      case (Some p)
      then show ?thesis using engine_delta_props(1) [of p now a st identity bdf name] by (simp add: is_some_and_def e)
    qed
    ultimately show ?thesis using engine_delta_props(2) unfolding key u by (auto simp: counter_of_def e engine_row_def)
  qed
  have other: "?st (i, b, name) = st (i, b, name)"
    if "i \<noteq> identity \<or> (\<forall>g \<in> set (map (device_row st identity now) ?aggs). dg_bdf g = b \<longrightarrow> name \<notin> de_name ` set (dg_engines g))" for i b name
  proof -
    have "new_baseline identity now ?aggs (i, b, name) = None"
    proof (rule ccontr)
      assume "new_baseline identity now ?aggs (i, b, name) \<noteq> None"
      then obtain agg a where i: "i = identity" and agg: "map_of ?aggs b = Some agg" and a: "map_of (ag_engines agg) name = Some a"
        by (auto simp: new_baseline_def split: if_splits bind_splits)
      let ?g = "device_row st identity now (b, agg)"
      have "?g \<in> set (map (device_row st identity now) ?aggs)" using map_of_SomeD [OF agg] by simp
      moreover have "dg_bdf ?g = b" by (simp add: device_row_def)
      moreover have "name \<in> de_name ` set (dg_engines ?g)"
        using map_of_SomeD [OF a] by (force simp: device_row_def engine_row_def)
      ultimately show False using that i by blast
    qed
    then show ?thesis by (simp add: map_add_def)
  qed
  show ?thesis
    unfolding sample_rows [OF assms] Let_def prod.case using timed rows other by (intro conjI ballI allI impI) blast+
qed


section \<open>Witnesses\<close>

text \<open>A process with two descriptors of one client.\<close>

definition sample_fdinfo :: rstr where
  "sample_fdinfo = join [10] [lit ''drm-pdev: 0000:02:00.0'', lit ''drm-client-id: 7'',
     lit ''drm-engine-render: 1500 ns'', lit ''drm-resident-local: 4096'']"

definition sample_drm :: Sys where
  "sample_drm = \<lparr>read_to_string = (\<lambda>p. if p = lit ''/proc/42/fdinfo/3'' \<or> p = lit ''/proc/42/fdinfo/4'' then Some sample_fdinfo else None),
     read_to_string_lossy = (\<lambda>_. None), read_dir = (\<lambda>_. None), symlink_target = (\<lambda>_. Some (lit ''/dev/dri/renderD128'')),
     char_device_id = (\<lambda>_. None), read_dir_names = (\<lambda>_. Some [lit ''3'', lit ''4''])\<rparr>"

abbreviation sample_identity :: ProcessIdentity where
  "sample_identity \<equiv> \<lparr>pi_pid = 42, pi_start_time = 7\<rparr>"

lemma sample_gpus: "fst (sample_process_gpus sample_drm 5 sample_identity Map.empty) =
  [\<lparr>dg_bdf = lit ''0000:02:00.0'', dg_driver = [], dg_client_count = 1, dg_resident_bytes = 4096, dg_total_bytes = 0,
    dg_engines = [\<lparr>de_name = lit ''render'', de_busy_ns = Some 1500, de_cycles_busy = None, de_cycles_total = None, de_capacity = None,
      de_utilization_pct = None\<rparr>]\<rparr>]"
  by code_simp

lemma timed_empty: "timed Map.empty"
  by (simp add: timed_def)

theorem process_gpu_totals_witness:
  "sat_total (map pf_resident (filter (\<lambda>fd. pf_bdf fd = lit ''0000:02:00.0'') (unique_fds {} (process_fds sample_drm 42)))) = 4096"
  using process_gpu_totals [OF timed_empty, of sample_drm sample_identity 5] by (simp add: sample_gpus Let_def)

theorem engine_baselines_witness:
  "snd (sample_process_gpus sample_drm 5 sample_identity Map.empty) (sample_identity, lit ''0000:02:00.0'', lit ''render'')
     = Some \<lparr>ec_busy_ns = Some 1500, ec_cycles_busy = None, ec_cycles_total = None, ec_sampled_at = Some 5\<rparr>"
  using engine_baselines [OF timed_empty, of sample_drm 5 sample_identity] unfolding Let_def case_prod_beta sample_gpus by simp

end
