(* ===== verification/Procs.thy ===== *)
theory Procs
  imports Drm
begin

text \<open>
  The process collector, from \<^verbatim>\<open>src/app/process.rs\<close>: the cache of process names, the
  rows of the process table, and the parsers of \<^verbatim>\<open>/proc/stat\<close>, \<^verbatim>\<open>/proc/loadavg\<close> and
  \<^verbatim>\<open>/proc/cpuinfo\<close>.  What the library \<^verbatim>\<open>sysinfo\<close> reports of the running processes is an
  argument, a list in any order.
\<close>

record ProcessStats =
  ps_pid :: u32
  ps_program :: rstr
  ps_command :: rstr
  ps_cpu_pct :: f64
  ps_memory_bytes :: u64
  ps_threads :: "u64 option"
  ps_start_time :: u64
  ps_gpu :: "DrmProcessGpu list"

definition identity_of :: "ProcessStats \<Rightarrow> ProcessIdentity" where
  "identity_of p = \<lparr>pi_pid = ps_pid p, pi_start_time = ps_start_time p\<rparr>"

definition gpu_bytes :: "ProcessStats \<Rightarrow> u64" where
  "gpu_bytes p = sum_list (map dg_resident_bytes (ps_gpu p))"

section \<open>The cache of names\<close>

record CachedProcess =
  ca_program :: rstr
  ca_command :: rstr

type_synonym ProcessCache = "ProcessIdentity \<rightharpoonup> CachedProcess"

definition cache_stable :: "ProcessCache \<Rightarrow> ProcessIdentity \<Rightarrow> rstr \<Rightarrow> rstr \<Rightarrow> (rstr \<times> rstr) \<times> ProcessCache" where
  "cache_stable cache identity program command = (let
       entry = (case cache identity of Some e \<Rightarrow> e | None \<Rightarrow> \<lparr>ca_program = program, ca_command = command\<rparr>);
       entry = (if program \<noteq> [] \<and> ca_program entry \<noteq> program then entry\<lparr>ca_program := program\<rparr> else entry);
       entry = (if command \<noteq> [] \<and> ca_command entry \<noteq> command then entry\<lparr>ca_command := command\<rparr> else entry)
     in ((ca_program entry, ca_command entry), cache(identity \<mapsto> entry)))"

definition cache_retain :: "ProcessIdentity list \<Rightarrow> ProcessCache \<Rightarrow> ProcessCache" where
  "cache_retain live cache = (\<lambda>i. if i \<in> set live then cache i else None)"

section \<open>Collecting\<close>

definition refresh_process_metadata ::
  "ProcessCache \<Rightarrow> ProcessIdentity \<Rightarrow> rstr \<Rightarrow> rstr \<Rightarrow> (u32 \<Rightarrow> u64 option) \<Rightarrow> (rstr \<times> rstr \<times> u64 option) \<times> ProcessCache" where
  "refresh_process_metadata cache identity program command read_threads =
     (case cache_stable cache identity program command of
        ((program, command), cache) \<Rightarrow> ((program, command, read_threads (pi_pid identity)), cache))"

fun find_threads :: "rstr list \<Rightarrow> u64 option" where
  "find_threads [] = None"
| "find_threads (line # rest) = (case Option.bind (strip_prefix (lit ''Threads:'') line) (\<lambda>v. parse_word (trim v)) of
     Some n \<Rightarrow> Some n | None \<Rightarrow> find_threads rest)"

definition read_process_thread_count :: "Sys \<Rightarrow> u32 \<Rightarrow> u64 option" where
  "read_process_thread_count sys pid =
     Option.bind (read_to_string sys (lit ''/proc/'' @ show_word pid @ lit ''/status'')) (\<lambda>status. find_threads (lines status))"

text \<open>A process of the library.\<close>

record SysProcess =
  sp_pid :: u32
  sp_start_time :: u64
  sp_name :: rstr
  sp_exe :: "rstr option"
  sp_cpu_usage :: f64
  sp_memory :: u64

definition process_id :: "SysProcess \<Rightarrow> ProcessIdentity" where
  "process_id p = \<lparr>pi_pid = sp_pid p, pi_start_time = sp_start_time p\<rparr>"

definition collect_process ::
  "Sys \<Rightarrow> instant \<Rightarrow> SysProcess \<Rightarrow> ProcessCache \<times> DrmSamplerState \<Rightarrow> ProcessStats \<times> ProcessCache \<times> DrmSamplerState" where
  "collect_process sys now p st = (let
       command = unwrap_or (sp_name p) (opt_nonempty (sp_exe p));
       ((program, command, threads), cache) =
         refresh_process_metadata (fst st) (process_id p) (sp_name p) command (read_process_thread_count sys);
       (gpu, drm) = sample_process_gpus sys now (process_id p) (snd st)
     in (\<lparr>ps_pid = sp_pid p, ps_program = program, ps_command = command, ps_cpu_pct = sp_cpu_usage p, ps_memory_bytes = sp_memory p,
          ps_threads = threads, ps_start_time = sp_start_time p, ps_gpu = gpu\<rparr>, cache, drm))"

fun collect_rows ::
  "Sys \<Rightarrow> instant \<Rightarrow> SysProcess list \<Rightarrow> ProcessCache \<times> DrmSamplerState \<Rightarrow> ProcessStats list \<times> ProcessCache \<times> DrmSamplerState" where
  "collect_rows sys now [] st = ([], st)"
| "collect_rows sys now (p # procs) st = (let
       (row, st) = collect_process sys now p st;
       (rows, st) = collect_rows sys now procs st
     in (row # rows, st))"

definition collect_process_stats ::
  "Sys \<Rightarrow> instant \<Rightarrow> SysProcess list \<Rightarrow> ProcessCache \<times> DrmSamplerState \<Rightarrow> ProcessStats list \<times> ProcessCache \<times> DrmSamplerState" where
  "collect_process_stats sys now procs st = (case collect_rows sys now procs st of
     (rows, cache, drm) \<Rightarrow> (rows, cache_retain (map process_id procs) cache, retain_counters (map process_id procs) drm))"

section \<open>The machine\<close>

text \<open>The online processors by their kernel number; the holes stay at zero.\<close>

definition per_cpu_usage_by_id :: "(rstr \<times> f64) list \<Rightarrow> f64 list" where
  "per_cpu_usage_by_id cpus = (case those (map (\<lambda>(name, _). Option.bind (strip_prefix (lit ''cpu'') name) (parse_nat 64)) cpus) of
       Some ids \<Rightarrow> fold (\<lambda>(i, v) usage. usage[i := v]) (zip ids (map snd cpus))
         (replicate (case ids of [] \<Rightarrow> 0 | _ \<Rightarrow> Max (set ids) + 1) (Fin 0))
     | None \<Rightarrow> map snd cpus)"

record CpuTimes =
  ct_total :: u64
  ct_io_wait :: u64

definition parse_cpu_times :: "rstr \<Rightarrow> CpuTimes option" where
  "parse_cpu_times s = Option.bind (find (starts_with (lit ''cpu '')) (lines s)) (\<lambda>line.
     Option.bind (those (map parse_word (take 8 (drop 1 (split_ws line))))) (\<lambda>values.
       if length values < 5 then None else Some \<lparr>ct_total = sum_list values, ct_io_wait = values ! 4\<rparr>))"

definition io_wait_percent :: "CpuTimes \<Rightarrow> CpuTimes \<Rightarrow> f64 option" where
  "io_wait_percent previous current = (let total_delta = sat_sub (ct_total current) (ct_total previous) in
     if total_delta = 0 then None else
       Some (fmul (fdiv (f64_of_u64 (sat_sub (ct_io_wait current) (ct_io_wait previous))) (f64_of_u64 total_delta)) (Fin 100)))"

definition parse_load_average :: "rstr \<Rightarrow> (f64 \<times> f64 \<times> f64) option" where
  "parse_load_average s = (case split_ws s of
       a # b # c # _ \<Rightarrow> (case (parse_f64 a, parse_f64 b, parse_f64 c) of (Some x, Some y, Some z) \<Rightarrow> Some (x, y, z) | _ \<Rightarrow> None)
     | _ \<Rightarrow> None)"

definition cpu_mhz :: "rstr \<Rightarrow> f64 option" where
  "cpu_mhz line = (case split_once 58 line of None \<Rightarrow> None | Some (key, v) \<Rightarrow>
     if trim key \<noteq> lit ''cpu MHz'' then None else opt_filter (\<lambda>mhz. is_finite mhz \<and> Fin 0 < mhz) (parse_f64 (trim v)))"

definition read_cpu_frequency_mhz :: "Sys \<Rightarrow> f64 option" where
  "read_cpu_frequency_mhz sys = Option.bind (read_to_string sys (lit ''/proc/cpuinfo'')) (\<lambda>s.
     let mhz = List.map_filter cpu_mhz (lines s) in
     if mhz = [] then None else Some (fdiv (foldl fadd (Fin 0) mhz) (f64_of_nat (length mhz))))"

section \<open>Each row is its own process's\<close>

lemma sample_local:
  assumes "timed st" "timed st'" "\<And>b name. st (identity, b, name) = st' (identity, b, name)"
  shows "fst (sample_process_gpus sys now identity st) = fst (sample_process_gpus sys now identity st')"
proof -
  have rows: "engine_row st identity bdf now = engine_row st' identity bdf now" for bdf
    using assms(3) by (intro ext) (simp add: engine_row_def split: prod.split)
  have "device_row st identity now = device_row st' identity now"
    by (intro ext) (simp add: device_row_def rows split: prod.split)
  then show ?thesis by (simp add: sample_rows [OF assms(1)] sample_rows [OF assms(2)])
qed

lemma sample_other:
  "timed st \<Longrightarrow> i \<noteq> identity \<Longrightarrow> snd (sample_process_gpus sys now identity st) (i, b, name) = st (i, b, name)"
  by (simp add: sample_rows new_baseline_def map_add_def)

lemma sample_timed: "timed st \<Longrightarrow> timed (snd (sample_process_gpus sys now identity st))"
  by (auto simp: sample_rows timed_def new_baseline_def map_add_def counter_of_def split: option.splits if_splits)

lemma stable_local:
  "cache identity = cache' identity \<Longrightarrow> fst (cache_stable cache identity p c) = fst (cache_stable cache' identity p c)"
  by (simp add: cache_stable_def Let_def)

lemma stable_other: "i \<noteq> identity \<Longrightarrow> snd (cache_stable cache identity p c) i = cache i"
  by (simp add: cache_stable_def Let_def)

lemma stable_dom: "dom (snd (cache_stable cache identity p c)) = insert identity (dom cache)"
  by (auto simp: cache_stable_def Let_def)

lemma collect_process_cases:
  "collect_process sys now p (cache, drm) = (let
     (names, cache') = cache_stable cache (process_id p) (sp_name p) (unwrap_or (sp_name p) (opt_nonempty (sp_exe p)));
     (gpu, drm') = sample_process_gpus sys now (process_id p) drm
   in (\<lparr>ps_pid = sp_pid p, ps_program = fst names, ps_command = snd names, ps_cpu_pct = sp_cpu_usage p, ps_memory_bytes = sp_memory p,
        ps_threads = read_process_thread_count sys (sp_pid p), ps_start_time = sp_start_time p, ps_gpu = gpu\<rparr>, cache', drm'))"
  by (simp add: collect_process_def refresh_process_metadata_def process_id_def split: prod.split)

text \<open>Two states agree on a process.\<close>

definition agree_on :: "ProcessIdentity \<Rightarrow> ProcessCache \<times> DrmSamplerState \<Rightarrow> ProcessCache \<times> DrmSamplerState \<Rightarrow> bool" where
  "agree_on i st st' \<longleftrightarrow> fst st i = fst st' i \<and> (\<forall>b name. snd st (i, b, name) = snd st' (i, b, name))"

lemma collect_process_local:
  assumes "timed (snd st)" "timed (snd st')" "agree_on (process_id p) st st'"
  shows "fst (collect_process sys now p st) = fst (collect_process sys now p st')"
  using sample_local [OF assms(1,2), of "process_id p" sys now] assms(3)
    stable_local [of "fst st" "process_id p" "fst st'" "sp_name p" "unwrap_or (sp_name p) (opt_nonempty (sp_exe p))"]
  by (cases st; cases st') (simp add: collect_process_cases agree_on_def Let_def case_prod_beta)

lemma collect_process_other:
  "timed (snd st) \<Longrightarrow> i \<noteq> process_id p \<Longrightarrow> agree_on i (snd (collect_process sys now p st)) st"
  by (cases st) (simp add: collect_process_cases agree_on_def Let_def case_prod_beta stable_other sample_other)

lemma collect_process_timed: "timed (snd st) \<Longrightarrow> timed (snd (snd (collect_process sys now p st)))"
  by (cases st) (simp add: collect_process_cases Let_def case_prod_beta sample_timed)

lemma collect_process_dom: "dom (fst (snd (collect_process sys now p st))) = insert (process_id p) (dom (fst st))"
  by (cases st) (simp add: collect_process_cases Let_def case_prod_beta stable_dom)

lemma agree_on_trans: "agree_on i a b \<Longrightarrow> agree_on i b c \<Longrightarrow> agree_on i a c"
  by (simp add: agree_on_def)

lemma collect_rows_each:
  assumes "timed (snd st)" "distinct (map process_id procs)"
  shows "fst (collect_rows sys now procs st) = map (\<lambda>p. fst (collect_process sys now p st)) procs"
  using assms
proof (induction procs arbitrary: st)
  case (Cons p procs)
  let ?st = "snd (collect_process sys now p st)"
  have t: "timed (snd ?st)" by (rule collect_process_timed [OF Cons.prems(1)])
  have "fst (collect_process sys now q ?st) = fst (collect_process sys now q st)" if "q \<in> set procs" for q
  proof -
    have "process_id q \<noteq> process_id p" using Cons.prems(2) that by (metis distinct.simps(2) image_eqI list.set_map list.simps(9))
    then show ?thesis using collect_process_local [OF t Cons.prems(1) collect_process_other [OF Cons.prems(1)]] by blast
  qed
  then have "map (\<lambda>p. fst (collect_process sys now p ?st)) procs = map (\<lambda>p. fst (collect_process sys now p st)) procs" by simp
  then show ?case using Cons.IH [OF t] Cons.prems(2) by (simp add: Let_def case_prod_beta)
qed simp

lemma collect_rows_dom: "dom (fst (snd (collect_rows sys now procs st))) = set (map process_id procs) \<union> dom (fst st)"
  by (induction procs arbitrary: st) (auto simp: Let_def case_prod_beta collect_process_dom)

lemma collect_rows_timed: "timed (snd st) \<Longrightarrow> timed (snd (snd (collect_rows sys now procs st)))"
  by (induction procs arbitrary: st) (simp_all add: Let_def case_prod_beta collect_process_timed)

lemma row_identity: "identity_of (fst (collect_process sys now p st)) = process_id p"
  by (cases st) (simp add: collect_process_cases Let_def case_prod_beta identity_of_def process_id_def)

text \<open>
  the rows of the process table do not depend on the order the processes are read in: the row
  of a process is what it would be if that process were read alone.  After a collection the cache of names is that
  of the live processes, and no counter of a process that is gone is kept, so a reused number starts without a baseline.
\<close>

theorem collector_rows:
  assumes "timed (snd st)" "distinct (map process_id procs)"
  shows "let (rows, cache, drm) = collect_process_stats sys now procs st in
    rows = map (\<lambda>p. fst (collect_process sys now p st)) procs \<and> map identity_of rows = map process_id procs \<and>
    dom cache = process_id ` set procs \<and> (\<forall>k \<in> dom drm. fst k \<in> process_id ` set procs) \<and> timed drm"
proof -
  have "dom (cache_retain (map process_id procs) (fst (snd (collect_rows sys now procs st)))) = process_id ` set procs"
    using collect_rows_dom [of sys now procs st] by (auto simp: cache_retain_def dom_def split: if_splits)
  moreover have "timed (retain_counters (map process_id procs) (snd (snd (collect_rows sys now procs st))))"
    using collect_rows_timed [OF assms(1), of sys now procs] by (auto simp: timed_def retain_counters_def split: if_splits)
  moreover have "map identity_of (fst (collect_rows sys now procs st)) = map process_id procs"
    by (simp add: collect_rows_each [OF assms] row_identity)
  ultimately show ?thesis
    by (auto simp: collect_process_stats_def collect_rows_each [OF assms] retain_counters_def case_prod_beta split: if_splits)
qed

theorem collector_rows_witness:
  "map identity_of (fst (collect_process_stats sample_drm 5
     [\<lparr>sp_pid = 42, sp_start_time = 7, sp_name = lit ''a'', sp_exe = None, sp_cpu_usage = Fin 0, sp_memory = 0\<rparr>,
      \<lparr>sp_pid = 43, sp_start_time = 7, sp_name = lit ''b'', sp_exe = None, sp_cpu_usage = Fin 0, sp_memory = 0\<rparr>] (Map.empty, Map.empty)))
   = [\<lparr>pi_pid = 42, pi_start_time = 7\<rparr>, \<lparr>pi_pid = 43, pi_start_time = 7\<rparr>]" (is "map _ (fst (collect_process_stats _ _ ?procs _)) = _")
proof -
  have start: "timed (snd (Map.empty, Map.empty))" by (simp add: timed_empty)
  have dist: "distinct (map process_id ?procs)" by (simp add: process_id_def)
  have "map identity_of (fst (collect_process_stats sample_drm 5 ?procs (Map.empty, Map.empty))) = map process_id ?procs"
    using collector_rows [OF start dist, of sample_drm 5] unfolding Let_def case_prod_beta by blast
  then show ?thesis by (simp only: process_id_def list.map) simp
qed

end
