(* ===== verification/ProcTable.thy ===== *)
theory ProcTable
  imports Procs "HOL-Library.Sorting_Algorithms" "HOL-Library.Product_Lexorder"
begin

text \<open>
  The process table of the interface, from \<^verbatim>\<open>src/ui/processes.rs\<close> and
  \<^verbatim>\<open>src/ui/state_process.rs\<close>: sorting, searching, grouping by program, the pinned rows, and the
  selection that follows a process through every refresh.  A hash map from programs to groups is the list
  of groups in the order of first mention; \<open>groups_any_order\<close> shows that the order makes no difference.
\<close>

section \<open>Orders\<close>

datatype ProcessSortKey = SortPid | SortProgram | SortCpu | SortMemory | SortThreads

text \<open>\<^verbatim>\<open>f64::total_cmp\<close> as a rank; \<^verbatim>\<open>then_with\<close> of two comparators.\<close>

definition f64_rank :: "f64 \<Rightarrow> nat \<times> rat" where
  "f64_rank x = (case x of NInf \<Rightarrow> (0, 0) | Fin q \<Rightarrow> (1, q) | PInf \<Rightarrow> (2, 0) | NaN \<Rightarrow> (3, 0))"

definition then_with :: "'a comparator \<Rightarrow> 'a comparator \<Rightarrow> 'a comparator" where
  "then_with c d = key (\<lambda>x. (x, x)) (prod_lex c d)"

definition directed :: "bool \<Rightarrow> 'a comparator \<Rightarrow> 'a comparator" where
  "directed descending c = (if descending then reversed c else c)"

definition process_order :: "ProcessSortKey \<Rightarrow> ProcessStats comparator" where
  "process_order k = (case k of SortPid \<Rightarrow> key ps_pid default | SortProgram \<Rightarrow> key ps_program default
     | SortCpu \<Rightarrow> key (\<lambda>p. f64_rank (ps_cpu_pct p)) default | SortMemory \<Rightarrow> key ps_memory_bytes default
     | SortThreads \<Rightarrow> key ps_threads default)"

definition sorted_processes :: "ProcessStats list \<Rightarrow> ProcessSortKey \<Rightarrow> bool \<Rightarrow> ProcessStats list" where
  "sorted_processes processes k descending =
     Sorting_Algorithms.sort (then_with (directed descending (process_order k)) (key ps_pid default)) processes"

fun take_first :: "('a \<Rightarrow> bool) \<Rightarrow> 'a list \<Rightarrow> 'a option \<times> 'a list" where
  "take_first P [] = (None, [])"
| "take_first P (x # xs) = (if P x then (Some x, xs) else (case take_first P xs of (y, ys) \<Rightarrow> (y, x # ys)))"

definition sorted_processes_with_pin ::
  "ProcessStats list \<Rightarrow> ProcessSortKey \<Rightarrow> bool \<Rightarrow> ProcessIdentity option \<Rightarrow> ProcessStats option \<times> ProcessStats list" where
  "sorted_processes_with_pin processes k descending pinned = (let sorted = sorted_processes processes k descending in
     case pinned of None \<Rightarrow> (None, sorted) | Some i \<Rightarrow> take_first (\<lambda>p. identity_of p = i) sorted)"

section \<open>Rows\<close>

definition process_matches_search :: "ProcessStats \<Rightarrow> rstr \<Rightarrow> bool" where
  "process_matches_search p query0 \<longleftrightarrow> (let query = lower (trim query0) in
     query = [] \<or> contains_sub query (lower (ps_program p)) \<or> contains_sub query (lower (ps_command p)) \<or>
     contains_sub query (show_word (ps_pid p)))"

record ProcessGroup =
  gr_program :: rstr
  gr_members :: "ProcessStats list"
  gr_cpu_pct :: f64
  gr_memory_bytes :: u64
  gr_gpu_bytes :: u64
  gr_threads :: "u64 option"
  gr_min_pid :: u32

datatype ProcessDisplayRow = RowProcess ProcessStats bool | RowGroup rstr nat f64 u64 u64 "u64 option" bool

datatype ProcessRowTarget = TargetProcess ProcessIdentity | TargetGroup rstr

definition process_row_target :: "ProcessDisplayRow \<Rightarrow> ProcessRowTarget" where
  "process_row_target row = (case row of RowProcess p _ \<Rightarrow> TargetProcess (identity_of p) | RowGroup program _ _ _ _ _ _ \<Rightarrow> TargetGroup program)"

definition new_group :: "rstr \<Rightarrow> ProcessStats list \<Rightarrow> ProcessGroup" where
  "new_group program members = \<lparr>gr_program = program, gr_members = members,
     gr_cpu_pct = foldl fadd (Fin 0) (map ps_cpu_pct members), gr_memory_bytes = sum_list (map ps_memory_bytes members),
     gr_gpu_bytes = sum_list (map gpu_bytes members), gr_threads = map_option sum_list (those (map ps_threads members)),
     gr_min_pid = (case members of [] \<Rightarrow> 0 | p # ps \<Rightarrow> foldl min (ps_pid p) (map ps_pid ps))\<rparr>"

definition groups_of :: "ProcessStats list \<Rightarrow> ProcessGroup list" where
  "groups_of processes = map (\<lambda>program. new_group program (filter (\<lambda>p. ps_program p = program) processes))
     (first_of_key id {} (map ps_program processes))"

definition group_order :: "ProcessSortKey \<Rightarrow> ProcessGroup comparator" where
  "group_order k = (case k of SortPid \<Rightarrow> key gr_min_pid default | SortProgram \<Rightarrow> key gr_program default
     | SortCpu \<Rightarrow> key (\<lambda>g. f64_rank (gr_cpu_pct g)) default | SortMemory \<Rightarrow> key gr_memory_bytes default
     | SortThreads \<Rightarrow> key gr_threads default)"

definition sort_groups :: "ProcessSortKey \<Rightarrow> bool \<Rightarrow> ProcessGroup list \<Rightarrow> ProcessGroup list" where
  "sort_groups k descending groups = Sorting_Algorithms.sort
     (then_with (then_with (directed descending (group_order k)) (key gr_program default)) (key gr_min_pid default)) groups"

definition group_rows :: "rstr set \<Rightarrow> ProcessGroup \<Rightarrow> ProcessDisplayRow list" where
  "group_rows expanded_groups g = (if length (gr_members g) = 1 then [RowProcess (hd (gr_members g)) False]
     else let expanded = (gr_program g \<in> expanded_groups) in
       RowGroup (gr_program g) (length (gr_members g)) (gr_cpu_pct g) (gr_memory_bytes g) (gr_gpu_bytes g) (gr_threads g) expanded
       # (if expanded then map (\<lambda>p. RowProcess p True) (gr_members g) else []))"

definition grouped_process_rows_filtered ::
  "ProcessStats list \<Rightarrow> ProcessSortKey \<Rightarrow> bool \<Rightarrow> ProcessIdentity option \<Rightarrow> rstr set \<Rightarrow> rstr option \<Rightarrow>
     ProcessStats option \<times> ProcessDisplayRow list" where
  "grouped_process_rows_filtered processes k descending pinned_pid expanded_groups search = (let
       (pinned, unpinned) = sorted_processes_with_pin processes k descending pinned_pid;
       (pinned, unpinned) = (case search of None \<Rightarrow> (pinned, unpinned)
         | Some query \<Rightarrow> (opt_filter (\<lambda>p. process_matches_search p query) pinned, filter (\<lambda>p. process_matches_search p query) unpinned))
     in (pinned, concat (map (group_rows expanded_groups) (sort_groups k descending (groups_of unpinned)))))"

definition is_group_row :: "rstr \<Rightarrow> ProcessDisplayRow \<Rightarrow> bool" where
  "is_group_row name row = (case row of RowGroup program _ _ _ _ _ _ \<Rightarrow> program = name | RowProcess _ _ \<Rightarrow> False)"

definition is_child_row :: "rstr \<Rightarrow> ProcessDisplayRow \<Rightarrow> bool" where
  "is_child_row name row = (case row of RowProcess p child \<Rightarrow> child \<and> ps_program p = name | RowGroup _ _ _ _ _ _ _ \<Rightarrow> False)"

text \<open>The pinned rows and the rows that remain.\<close>

fun take_pinned_from :: "rstr \<Rightarrow> ProcessDisplayRow list \<Rightarrow> ProcessDisplayRow list \<times> ProcessDisplayRow list" where
  "take_pinned_from name [] = ([], [])"
| "take_pinned_from name (row # rows) = (if is_group_row name row
     then (row # takeWhile (is_child_row name) rows, dropWhile (is_child_row name) rows)
     else (case take_pinned_from name rows of (pinned, rest) \<Rightarrow> (pinned, row # rest)))"

definition take_pinned_group_rows ::
  "rstr option \<Rightarrow> ProcessDisplayRow list \<Rightarrow> ProcessDisplayRow list \<times> ProcessDisplayRow list" where
  "take_pinned_group_rows pinned rows = (case pinned of None \<Rightarrow> ([], rows) | Some name \<Rightarrow> take_pinned_from name rows)"

section \<open>The state of the table\<close>

record Rect =
  rc_x :: u16
  rc_y :: u16
  rc_width :: u16
  rc_height :: u16

definition rect_contains :: "Rect \<Rightarrow> u16 \<Rightarrow> u16 \<Rightarrow> bool" where
  "rect_contains r x y \<longleftrightarrow> rc_x r \<le> x \<and> x < sat_add (rc_x r) (rc_width r) \<and> rc_y r \<le> y \<and> y < sat_add (rc_y r) (rc_height r)"

record ProcessHeaderHit =
  hh_rect :: Rect
  hh_key :: ProcessSortKey

record ProcessRowsHit =
  rh_rect :: Rect
  rh_targets :: "ProcessRowTarget list"

text \<open>The part of \<^verbatim>\<open>UiState\<close> the table uses.\<close>

record Table =
  tb_selected_pid :: "ProcessIdentity option"
  tb_pinned_pid :: "ProcessIdentity option"
  tb_last_click :: "(ProcessIdentity \<times> instant) option"
  tb_selected_group :: "rstr option"
  tb_pinned_group :: "rstr option"
  tb_last_group_click :: "(rstr \<times> instant) option"
  tb_expanded :: "rstr set"
  tb_scroll :: nat
  tb_display_total :: nat
  tb_scroll_visible :: nat
  tb_sort_key :: ProcessSortKey
  tb_sort_desc :: bool
  tb_header_hits :: "ProcessHeaderHit list"
  tb_pane :: "Rect option"
  tb_rows :: "ProcessRowsHit option"
  tb_search_open :: bool
  tb_search_query :: rstr
  tb_help_open :: bool
  tb_settings_open :: bool

definition table_start :: Table where
  "table_start = \<lparr>tb_selected_pid = None, tb_pinned_pid = None, tb_last_click = None, tb_selected_group = None, tb_pinned_group = None,
     tb_last_group_click = None, tb_expanded = {}, tb_scroll = 0, tb_display_total = 0, tb_scroll_visible = 0, tb_sort_key = SortCpu,
     tb_sort_desc = True, tb_header_hits = [], tb_pane = None, tb_rows = None, tb_search_open = False, tb_search_query = [],
     tb_help_open = False, tb_settings_open = False\<rparr>"

definition process_search_query :: "Table \<Rightarrow> rstr option" where
  "process_search_query t = (let query = trim (tb_search_query t) in if query = [] then None else Some query)"

definition current_process_target :: "Table \<Rightarrow> ProcessRowTarget option" where
  "current_process_target t = (case tb_selected_pid t of Some i \<Rightarrow> Some (TargetProcess i)
     | None \<Rightarrow> map_option TargetGroup (tb_selected_group t))"

definition select_process_target :: "ProcessRowTarget \<Rightarrow> Table \<Rightarrow> Table" where
  "select_process_target target t = (case target of
       TargetProcess i \<Rightarrow> t\<lparr>tb_selected_pid := Some i, tb_selected_group := None\<rparr>
     | TargetGroup program \<Rightarrow> t\<lparr>tb_selected_pid := None, tb_selected_group := Some program\<rparr>)"

definition deselect :: "Table \<Rightarrow> Table" where
  "deselect t = t\<lparr>tb_selected_pid := None, tb_selected_group := None\<rparr>"

text \<open>The pinned process, the rows of the pinned group, and the rows that scroll.\<close>

definition table_rows :: "ProcessStats list \<Rightarrow> Table \<Rightarrow> ProcessStats option \<times> ProcessDisplayRow list \<times> ProcessDisplayRow list" where
  "table_rows processes t = (case grouped_process_rows_filtered processes (tb_sort_key t) (tb_sort_desc t) (tb_pinned_pid t)
       (tb_expanded t) (process_search_query t) of
     (pinned, rows) \<Rightarrow> (pinned, take_pinned_group_rows (tb_pinned_group t) rows))"

definition process_navigation_targets :: "ProcessStats list \<Rightarrow> Table \<Rightarrow> ProcessRowTarget list" where
  "process_navigation_targets processes t = (case table_rows processes t of (pinned, pinned_rows, rows) \<Rightarrow>
     (case pinned of Some p \<Rightarrow> [TargetProcess (identity_of p)] | None \<Rightarrow> []) @ map process_row_target pinned_rows @
     map process_row_target rows)"

definition process_scroll_targets :: "ProcessStats list \<Rightarrow> Table \<Rightarrow> ProcessRowTarget list" where
  "process_scroll_targets processes t = (case table_rows processes t of (pinned, pinned_rows, rows) \<Rightarrow> map process_row_target rows)"

definition normalize_process_selection :: "ProcessStats list \<Rightarrow> Table \<Rightarrow> Table" where
  "normalize_process_selection processes t = (case current_process_target t of None \<Rightarrow> t | Some selected \<Rightarrow>
     (let targets = process_navigation_targets processes t in
      if selected \<in> set targets then t
      else let fallback = (case selected of
            TargetProcess i \<Rightarrow> map_option (\<lambda>p. TargetGroup (ps_program p)) (find (\<lambda>p. identity_of p = i) processes)
          | TargetGroup program \<Rightarrow> map_option (\<lambda>p. TargetProcess (identity_of p)) (find (\<lambda>p. ps_program p = program) processes))
        in case fallback of Some target \<Rightarrow> if target \<in> set targets then select_process_target target t else deselect t
           | None \<Rightarrow> deselect t))"

fun position :: "'a \<Rightarrow> 'a list \<Rightarrow> nat option" where
  "position x [] = None"
| "position x (y # ys) = (if y = x then Some 0 else map_option Suc (position x ys))"

definition ensure_selected_process_visible :: "ProcessStats list \<Rightarrow> Table \<Rightarrow> Table" where
  "ensure_selected_process_visible processes t = (case current_process_target t of None \<Rightarrow> t | Some selected \<Rightarrow>
     (let targets = process_scroll_targets processes t; n = length targets; t = t\<lparr>tb_display_total := n\<rparr> in
      if n = 0 then t\<lparr>tb_scroll := 0\<rparr>
      else case position selected targets of
          None \<Rightarrow> t\<lparr>tb_scroll := min (tb_scroll t) (n - 1)\<rparr>
        | Some index \<Rightarrow> let visible = tb_scroll_visible t in
            if visible = 0 then t\<lparr>tb_scroll := index\<rparr>
            else let max_start = n - visible; start = min (tb_scroll t) max_start;
                start = (if index < start then index else if start + visible \<le> index then index + 1 - visible else start)
              in t\<lparr>tb_scroll := min start max_start\<rparr>))"

definition move_process_selection :: "int \<Rightarrow> ProcessStats list \<Rightarrow> Table \<Rightarrow> Table" where
  "move_process_selection delta processes t = (let t = normalize_process_selection processes t;
       targets = process_navigation_targets processes t
     in if targets = [] then t\<lparr>tb_selected_pid := None, tb_selected_group := None, tb_scroll := 0\<rparr>
        else let index = (case Option.bind (current_process_target t) (\<lambda>selected. position selected targets) of
              Some current \<Rightarrow> if delta < 0 then current - nat (- delta) else min (current + nat delta) (length targets - 1)
            | None \<Rightarrow> min (tb_scroll t) (length targets - 1))
          in ensure_selected_process_visible processes (select_process_target (targets ! index) t))"

definition process_home :: "ProcessStats list \<Rightarrow> Table \<Rightarrow> Table" where
  "process_home processes t = (let targets = process_navigation_targets processes t;
       t = (case targets of target # _ \<Rightarrow> select_process_target target t | [] \<Rightarrow> deselect t)
     in ensure_selected_process_visible processes (t\<lparr>tb_scroll := 0\<rparr>))"

definition process_end :: "ProcessStats list \<Rightarrow> Table \<Rightarrow> Table" where
  "process_end processes t = (let targets = process_navigation_targets processes t;
       t = (if targets = [] then deselect t else select_process_target (last targets) t)
     in ensure_selected_process_visible processes (t\<lparr>tb_scroll := length targets - 1\<rparr>))"

definition clamp_process_selection :: "ProcessStats list \<Rightarrow> Table \<Rightarrow> Table" where
  "clamp_process_selection processes t = (let
       alive = (\<lambda>i. list_ex (\<lambda>p. identity_of p = i) processes);
       programs = ps_program ` set processes;
       t = t\<lparr>tb_selected_pid := opt_filter alive (tb_selected_pid t), tb_pinned_pid := opt_filter alive (tb_pinned_pid t),
         tb_selected_group := opt_filter (\<lambda>g. g \<in> programs) (tb_selected_group t),
         tb_pinned_group := opt_filter (\<lambda>g. g \<in> programs) (tb_pinned_group t), tb_expanded := tb_expanded t \<inter> programs\<rparr>;
       t = ensure_selected_process_visible processes (normalize_process_selection processes t)
     in t\<lparr>tb_scroll := min (tb_scroll t) (tb_display_total t - 1)\<rparr>)"

definition scroll_processes :: "int \<Rightarrow> Table \<Rightarrow> Table" where
  "scroll_processes delta t = (let n = tb_display_total t in if n = 0 then t\<lparr>tb_scroll := 0\<rparr>
     else t\<lparr>tb_scroll := if delta < 0 then tb_scroll t - nat (- delta) else min (tb_scroll t + nat delta) (n - 1)\<rparr>)"

definition clear_process_selection :: "Table \<Rightarrow> Table" where
  "clear_process_selection t = t\<lparr>tb_selected_pid := None, tb_pinned_pid := None, tb_last_click := None, tb_selected_group := None,
     tb_pinned_group := None, tb_last_group_click := None\<rparr>"

section \<open>Searching\<close>

definition open_process_search :: "Table \<Rightarrow> Table" where
  "open_process_search t = t\<lparr>tb_help_open := False, tb_settings_open := False, tb_search_open := True, tb_scroll := 0\<rparr>"

definition accept_process_search :: "Table \<Rightarrow> Table" where
  "accept_process_search t = t\<lparr>tb_search_open := False\<rparr>"

definition clear_process_search :: "Table \<Rightarrow> Table" where
  "clear_process_search t = t\<lparr>tb_search_open := False, tb_search_query := [], tb_scroll := 0\<rparr>"

definition process_search_backspace :: "Table \<Rightarrow> Table" where
  "process_search_backspace t = t\<lparr>tb_search_query := butlast (tb_search_query t), tb_scroll := 0\<rparr>"

definition process_search_insert_char :: "rchar \<Rightarrow> Table \<Rightarrow> Table" where
  "process_search_insert_char c t = (if \<not> is_ctl c \<and> length (tb_search_query t) < 48
     then t\<lparr>tb_search_query := tb_search_query t @ [c], tb_scroll := 0\<rparr> else t)"

section \<open>The mouse\<close>

definition PROCESS_DOUBLE_CLICK_WINDOW :: duration where
  "PROCESS_DOUBLE_CLICK_WINDOW = ms 400"

definition click_process_sort :: "u16 \<Rightarrow> u16 \<Rightarrow> Table \<Rightarrow> bool \<times> Table" where
  "click_process_sort x y t = (case find (\<lambda>h. rect_contains (hh_rect h) x y) (tb_header_hits t) of
       None \<Rightarrow> (False, t)
     | Some h \<Rightarrow> (let k = hh_key h;
           t = (if tb_sort_key t = k then t\<lparr>tb_sort_desc := \<not> tb_sort_desc t\<rparr>
             else t\<lparr>tb_sort_key := k, tb_sort_desc := (k \<in> {SortCpu, SortMemory, SortThreads})\<rparr>)
         in (True, if tb_selected_pid t = None then t\<lparr>tb_scroll := 0\<rparr> else t)))"

definition row_at :: "u16 \<Rightarrow> u16 \<Rightarrow> Table \<Rightarrow> ProcessRowTarget option" where
  "row_at x y t = (case tb_rows t of None \<Rightarrow> None | Some rows \<Rightarrow> if \<not> rect_contains (rh_rect rows) x y then None
     else let row = unat (sat_sub y (rc_y (rh_rect rows))) in
       if row < length (rh_targets rows) then Some (rh_targets rows ! row) else None)"

definition double_click :: "('a \<times> instant) option \<Rightarrow> 'a \<Rightarrow> instant \<Rightarrow> bool" where
  "double_click previous target now = is_some_and (\<lambda>(last, since). last = target \<and> now - since \<le> PROCESS_DOUBLE_CLICK_WINDOW) previous"

definition click_process_row :: "instant \<Rightarrow> u16 \<Rightarrow> u16 \<Rightarrow> Table \<Rightarrow> bool \<times> Table" where
  "click_process_row now x y t = (case row_at x y t of None \<Rightarrow> (False, t) | Some target \<Rightarrow> (True, case target of
       TargetProcess i \<Rightarrow> (let again = double_click (tb_last_click t) i now;
           t = t\<lparr>tb_selected_group := None, tb_pinned_group := None, tb_last_group_click := None, tb_selected_pid := Some i\<rparr>
         in if again then t\<lparr>tb_pinned_pid := Some i, tb_last_click := None\<rparr>
            else t\<lparr>tb_pinned_pid := opt_filter (\<lambda>j. j = i) (tb_pinned_pid t), tb_last_click := Some (i, now)\<rparr>)
     | TargetGroup program \<Rightarrow> (let again = double_click (tb_last_group_click t) program now;
           t = t\<lparr>tb_selected_pid := None, tb_pinned_pid := None, tb_last_click := None, tb_selected_group := Some program\<rparr>
         in if again then t\<lparr>tb_pinned_group := Some program, tb_last_group_click := None\<rparr>
            else t\<lparr>tb_pinned_group := opt_filter (\<lambda>g. g = program) (tb_pinned_group t), tb_last_group_click := Some (program, now)\<rparr>)))"

definition right_click_process_group :: "u16 \<Rightarrow> u16 \<Rightarrow> Table \<Rightarrow> bool \<times> Table" where
  "right_click_process_group x y t = (case row_at x y t of
       Some (TargetGroup program) \<Rightarrow> (True, t\<lparr>tb_expanded := if program \<in> tb_expanded t then tb_expanded t - {program}
         else insert program (tb_expanded t)\<rparr>)
     | _ \<Rightarrow> (False, t))"

definition process_pane_contains :: "u16 \<Rightarrow> u16 \<Rightarrow> Table \<Rightarrow> bool" where
  "process_pane_contains x y t = is_some_and (\<lambda>pane. rect_contains pane x y) (tb_pane t)"

definition clear_process_interaction :: "Table \<Rightarrow> Table" where
  "clear_process_interaction t = t\<lparr>tb_header_hits := [], tb_pane := None, tb_rows := None\<rparr>"

section \<open>Layout\<close>

definition header_hit :: "u16 \<Rightarrow> u16 \<Rightarrow> u16 \<Rightarrow> ProcessSortKey \<Rightarrow> ProcessHeaderHit" where
  "header_hit x y width k = \<lparr>hh_rect = \<lparr>rc_x = x, rc_y = y, rc_width = width, rc_height = 1\<rparr>, hh_key = k\<rparr>"

definition process_header_hits :: "Rect \<Rightarrow> u16 \<Rightarrow> bool \<Rightarrow> ProcessHeaderHit list" where
  "process_header_hits inner table_width wide = (let y = rc_y inner; width = unat table_width;
       x0 = rc_x inner; x1 = sat_add x0 7;
       program_width = (if wide then 16 else of_nat (max (width - (7 + 7 + 9 + 6)) 8));
       x2 = sat_add x1 program_width;
       x3 = (if wide then sat_add x2 (of_nat (max (width - (7 + 17 + 7 + 9 + 6 + 7)) 12)) else x2);
       x4 = sat_add x3 6; x5 = sat_add x4 9
     in [header_hit x0 y 7 SortPid, header_hit x1 y program_width SortProgram, header_hit x3 y 6 SortCpu, header_hit x4 y 9 SortMemory,
         header_hit x5 y 6 SortThreads])"

section \<open>What is shown\<close>

lemma mset_sorted_processes [simp]: "mset (sorted_processes ps k d) = mset ps"
  by (simp add: sorted_processes_def)

lemma set_sorted_processes [simp]: "set (sorted_processes ps k d) = set ps"
  by (metis mset_sorted_processes set_mset_mset)

definition is_matching :: "Table \<Rightarrow> ProcessStats \<Rightarrow> bool" where
  "is_matching t p \<longleftrightarrow> (case process_search_query t of None \<Rightarrow> True | Some q \<Rightarrow> process_matches_search p q)"

definition is_pinned :: "Table \<Rightarrow> ProcessStats \<Rightarrow> bool" where
  "is_pinned t p \<longleftrightarrow> tb_pinned_pid t = Some (identity_of p)"

lemma take_first_filter:
  "\<forall>x \<in> set xs. \<forall>y \<in> set xs. P x \<and> P y \<longrightarrow> x = y \<Longrightarrow> distinct xs \<Longrightarrow>
   take_first P xs = (find P xs, filter (\<lambda>x. \<not> P x) xs)"
proof (induction xs)
  case (Cons x xs)
  show ?case
  proof (cases "P x")
    case True
    then have "\<forall>y \<in> set xs. \<not> P y" using Cons.prems by auto
    then show ?thesis using True by (simp add: filter_id_conv)
  next
    case False
    then show ?thesis using Cons by simp
  qed
qed simp

text \<open>The processes that are not pinned and match the search, in the order of the table.\<close>

definition shown_processes :: "ProcessStats list \<Rightarrow> Table \<Rightarrow> ProcessStats list" where
  "shown_processes processes t = filter (is_matching t) (filter (\<lambda>p. \<not> is_pinned t p)
     (sorted_processes processes (tb_sort_key t) (tb_sort_desc t)))"

definition pinned_process :: "ProcessStats list \<Rightarrow> Table \<Rightarrow> ProcessStats option" where
  "pinned_process processes t = opt_filter (is_matching t) (find (is_pinned t) (sorted_processes processes (tb_sort_key t) (tb_sort_desc t)))"

lemma grouped_rows:
  assumes "distinct (map identity_of processes)"
  shows "grouped_process_rows_filtered processes (tb_sort_key t) (tb_sort_desc t) (tb_pinned_pid t) (tb_expanded t) (process_search_query t)
    = (pinned_process processes t,
       concat (map (group_rows (tb_expanded t)) (sort_groups (tb_sort_key t) (tb_sort_desc t) (groups_of (shown_processes processes t)))))"
proof -
  let ?ps = "sorted_processes processes (tb_sort_key t) (tb_sort_desc t)"
  have d: "distinct (map identity_of ?ps)" using assms by (metis mset_eq_imp_distinct_iff mset_map mset_sorted_processes)
  have inj: "\<forall>x \<in> set ?ps. \<forall>y \<in> set ?ps. identity_of x = i \<and> identity_of y = i \<longrightarrow> x = y" for i
    using d by (auto simp: distinct_map inj_on_def)
  have "take_first (\<lambda>p. identity_of p = i) ?ps = (find (\<lambda>p. identity_of p = i) ?ps, filter (\<lambda>p. identity_of p \<noteq> i) ?ps)" for i
    using d by (intro take_first_filter inj) (simp add: distinct_map)
  moreover have "is_pinned t = (\<lambda>p. identity_of p = i)" if "tb_pinned_pid t = Some i" for i
    using that by (auto simp: is_pinned_def)
  moreover have "is_pinned t = (\<lambda>_. False)" if "tb_pinned_pid t = None" using that by (simp add: is_pinned_def fun_eq_iff)
  moreover have "find (\<lambda>_. False) xs = None" for xs :: "ProcessStats list" by (induction xs) auto
  ultimately have pin: "sorted_processes_with_pin processes (tb_sort_key t) (tb_sort_desc t) (tb_pinned_pid t)
     = (find (is_pinned t) ?ps, filter (\<lambda>p. \<not> is_pinned t p) ?ps)"
    by (cases "tb_pinned_pid t") (simp_all add: sorted_processes_with_pin_def Let_def)
  have filt: "(case process_search_query t of None \<Rightarrow> (x, xs)
         | Some query \<Rightarrow> (opt_filter (\<lambda>p. process_matches_search p query) x, filter (\<lambda>p. process_matches_search p query) xs))
     = (opt_filter (is_matching t) x, filter (is_matching t) xs)" for x xs
    by (cases "process_search_query t") (auto simp: is_matching_def opt_filter_def fun_eq_iff cong: filter_cong split: option.split)
  show ?thesis
    unfolding grouped_process_rows_filtered_def Let_def pin prod.case filt pinned_process_def shown_processes_def ..
qed

lemma set_shown: "set (shown_processes processes t) = {p \<in> set processes. is_matching t p \<and> \<not> is_pinned t p}"
  by (auto simp: shown_processes_def)

lemma mset_shown: "mset (shown_processes processes t) = filter_mset (\<lambda>p. is_matching t p \<and> \<not> is_pinned t p) (mset processes)"
  by (simp add: shown_processes_def filter_filter_mset conj_commute)

lemma distinct_shown:
  "distinct (map identity_of processes) \<Longrightarrow> distinct (map identity_of (shown_processes processes t))"
proof -
  assume "distinct (map identity_of processes)"
  then have "distinct (map identity_of (sorted_processes processes (tb_sort_key t) (tb_sort_desc t)))"
    by (metis mset_eq_imp_distinct_iff mset_map mset_sorted_processes)
  then show ?thesis unfolding shown_processes_def by (intro distinct_map_filter)
qed

subsection \<open>Groups\<close>

lemma mset_sort_groups [simp]: "mset (sort_groups k d gs) = mset gs"
  by (simp add: sort_groups_def)

lemma set_sort_groups [simp]: "set (sort_groups k d gs) = set gs"
  by (metis mset_sort_groups set_mset_mset)

lemma group_programs: "map gr_program (groups_of ps) = first_of_key id {} (map ps_program ps)"
  by (simp add: groups_of_def new_group_def comp_def)

lemma group_in:
  "g \<in> set (groups_of ps) \<longleftrightarrow> (\<exists>program \<in> ps_program ` set ps. g = new_group program (filter (\<lambda>p. ps_program p = program) ps))"
  by (auto simp: groups_of_def set_first_of_key_id)

lemma distinct_groups: "distinct (map gr_program (groups_of ps))"
  unfolding group_programs using first_of_key_distinct [of id] by simp

lemma distinct_sorted_groups: "distinct (map gr_program (sort_groups k d (groups_of ps)))"
  using distinct_groups [of ps] by (metis mset_eq_imp_distinct_iff mset_map mset_sort_groups)

lemma new_group_simps [simp]: "gr_program (new_group program ps) = program" "gr_members (new_group program ps) = ps"
  by (simp_all add: new_group_def)

text \<open>The targets of the rows of one group.\<close>

definition group_targets :: "rstr set \<Rightarrow> ProcessGroup \<Rightarrow> ProcessRowTarget list" where
  "group_targets E g = map process_row_target (group_rows E g)"

lemma group_targets_cases:
  "group_targets E g = (if length (gr_members g) = 1 then [TargetProcess (identity_of (hd (gr_members g)))]
     else TargetGroup (gr_program g) # (if gr_program g \<in> E then map (\<lambda>p. TargetProcess (identity_of p)) (gr_members g) else []))"
  by (simp add: group_targets_def group_rows_def process_row_target_def Let_def)

lemma group_targets_members:
  "gr_members g \<noteq> [] \<Longrightarrow> x \<in> set (group_targets E g) \<Longrightarrow>
   x = TargetGroup (gr_program g) \<and> 2 \<le> length (gr_members g) \<or> (\<exists>p \<in> set (gr_members g). x = TargetProcess (identity_of p))"
  by (cases "gr_members g") (auto simp: group_targets_cases Suc_le_eq split: if_splits)

lemma distinct_group_targets: "distinct (map identity_of (gr_members g)) \<Longrightarrow> distinct (group_targets E g)"
  by (auto simp: group_targets_cases distinct_map inj_on_def)

text \<open>The rows of all groups.\<close>

lemma distinct_all_targets:
  assumes "distinct (map gr_program gs)" "\<forall>g \<in> set gs. gr_members g \<noteq> [] \<and> distinct (map identity_of (gr_members g))"
    and "\<forall>g \<in> set gs. \<forall>h \<in> set gs. g \<noteq> h \<longrightarrow> identity_of ` set (gr_members g) \<inter> identity_of ` set (gr_members h) = {}"
  shows "distinct (concat (map (group_targets E) gs))"
  using assms
proof (induction gs)
  case (Cons g gs)
  have "set (group_targets E g) \<inter> set (group_targets E h) = {}" if "h \<in> set gs" for h
  proof -
    have ne: "gr_program g \<noteq> gr_program h" "g \<noteq> h" using Cons.prems(1) that by force+
    then have "identity_of ` set (gr_members g) \<inter> identity_of ` set (gr_members h) = {}" using Cons.prems(3) that by simp
    then show ?thesis
      using group_targets_members [of g _ E] group_targets_members [of h _ E] Cons.prems(2) that ne by fastforce
  qed
  then show ?case using Cons by (auto simp: distinct_group_targets)
qed simp

lemma mset_takeWhile_dropWhile: "mset (takeWhile P xs) + mset (dropWhile P xs) = mset xs"
  by (metis mset_append takeWhile_dropWhile_id)

lemma take_pinned_perm: "take_pinned_group_rows g rows = (a, b) \<Longrightarrow> mset a + mset b = mset rows"
proof -
  have "mset (fst (take_pinned_from n rows)) + mset (snd (take_pinned_from n rows)) = mset rows" for n
    by (induction n rows rule: take_pinned_from.induct) (auto simp: case_prod_beta mset_takeWhile_dropWhile)
  then show "take_pinned_group_rows g rows = (a, b) \<Longrightarrow> mset a + mset b = mset rows"
    by (auto simp: take_pinned_group_rows_def split: option.splits) (metis fst_conv snd_conv)
qed


definition shown_groups :: "ProcessStats list \<Rightarrow> Table \<Rightarrow> ProcessGroup list" where
  "shown_groups processes t = sort_groups (tb_sort_key t) (tb_sort_desc t) (groups_of (shown_processes processes t))"

lemma table_rows_eq:
  assumes "distinct (map identity_of processes)"
  obtains a b where "table_rows processes t = (pinned_process processes t, a, b)"
    "mset a + mset b = mset (concat (map (group_rows (tb_expanded t)) (shown_groups processes t)))"
  using take_pinned_perm unfolding table_rows_def grouped_rows [OF assms] prod.case shown_groups_def by (metis prod.exhaust)

definition pinned_target :: "ProcessStats list \<Rightarrow> Table \<Rightarrow> ProcessRowTarget list" where
  "pinned_target processes t = (case pinned_process processes t of Some p \<Rightarrow> [TargetProcess (identity_of p)] | None \<Rightarrow> [])"

lemma mset_targets:
  assumes "distinct (map identity_of processes)"
  shows "mset (process_navigation_targets processes t) =
    mset (pinned_target processes t @ concat (map (group_targets (tb_expanded t)) (shown_groups processes t)))"
proof -
  obtain a b where ab: "table_rows processes t = (pinned_process processes t, a, b)"
    "mset a + mset b = mset (concat (map (group_rows (tb_expanded t)) (shown_groups processes t)))" by (rule table_rows_eq [OF assms])
  have "mset (map process_row_target a) + mset (map process_row_target b)
      = image_mset process_row_target (mset a + mset b)" by simp
  also have "\<dots> = mset (map process_row_target (concat (map (group_rows (tb_expanded t)) (shown_groups processes t))))"
    unfolding ab(2) by (rule mset_map [symmetric])
  also have "map process_row_target (concat (map (group_rows (tb_expanded t)) (shown_groups processes t)))
      = concat (map (group_targets (tb_expanded t)) (shown_groups processes t))"
    by (simp add: map_concat group_targets_def [abs_def] comp_def)
  finally show ?thesis by (simp add: process_navigation_targets_def ab(1) pinned_target_def)
qed

lemma find_pinned:
  "pinned_process processes t = Some p \<Longrightarrow> p \<in> set processes \<and> is_matching t p \<and> is_pinned t p"
  by (auto simp: pinned_process_def opt_filter_def find_Some_iff split: option.splits if_splits)
    (metis nth_mem set_sorted_processes)

lemma pinned_found:
  assumes "distinct (map identity_of processes)" "p \<in> set processes" "is_matching t p" "is_pinned t p"
  shows "pinned_process processes t = Some p"
proof -
  let ?ps = "sorted_processes processes (tb_sort_key t) (tb_sort_desc t)"
  obtain q where q: "find (is_pinned t) ?ps = Some q"
    using assms(2,4) by (cases "find (is_pinned t) ?ps") (auto simp: find_None_iff)
  then have "is_pinned t q" "q \<in> set processes" by (auto simp: find_Some_iff) (metis nth_mem set_sorted_processes)
  then have "q = p" using assms by (auto simp: is_pinned_def distinct_map inj_on_def)
  then show ?thesis using q assms(3) by (simp add: pinned_process_def opt_filter_def)
qed

lemma shown_group:
  assumes "g \<in> set (shown_groups processes t)"
  shows "gr_members g \<noteq> [] \<and> gr_members g = filter (\<lambda>p. ps_program p = gr_program g) (shown_processes processes t) \<and>
    g = new_group (gr_program g) (gr_members g)"
  using assms by (auto simp: shown_groups_def group_in filter_empty_conv)

lemma shown_group_of:
  assumes "p \<in> set (shown_processes processes t)"
  obtains g where "g \<in> set (shown_groups processes t)" "gr_program g = ps_program p" "p \<in> set (gr_members g)"
proof
  let ?g = "new_group (ps_program p) (filter (\<lambda>q. ps_program q = ps_program p) (shown_processes processes t))"
  show "?g \<in> set (shown_groups processes t)" using assms by (auto simp: shown_groups_def group_in)
  show "gr_program ?g = ps_program p" "p \<in> set (gr_members ?g)" using assms by simp_all
qed

lemma distinct_targets:
  assumes "distinct (map identity_of processes)"
  shows "distinct (process_navigation_targets processes t)"
proof -
  let ?gs = "shown_groups processes t"
  note d = distinct_shown [OF assms, of t]
  have "distinct (concat (map (group_targets (tb_expanded t)) ?gs))"
  proof (rule distinct_all_targets)
    show "distinct (map gr_program ?gs)" unfolding shown_groups_def by (rule distinct_sorted_groups)
    show "\<forall>g \<in> set ?gs. gr_members g \<noteq> [] \<and> distinct (map identity_of (gr_members g))"
      using shown_group d by (metis distinct_map_filter)
    show "\<forall>g \<in> set ?gs. \<forall>h \<in> set ?gs. g \<noteq> h \<longrightarrow> identity_of ` set (gr_members g) \<inter> identity_of ` set (gr_members h) = {}"
    proof (intro ballI impI)
      fix g h assume gh: "g \<in> set ?gs" "h \<in> set ?gs" "g \<noteq> h"
      have "gr_program g \<noteq> gr_program h" using gh shown_group by metis
      moreover have "p = q" if "p \<in> set (gr_members g)" "q \<in> set (gr_members h)" "identity_of p = identity_of q" for p q
        using that d shown_group [OF gh(1)] shown_group [OF gh(2)] by (metis distinct_map filter_is_subset inj_onD subsetD)
      moreover have "ps_program p = gr_program g" if "p \<in> set (gr_members g)" for p using that shown_group [OF gh(1)] by (metis (mono_tags, lifting) mem_Collect_eq set_filter)
      moreover have "ps_program p = gr_program h" if "p \<in> set (gr_members h)" for p using that shown_group [OF gh(2)] by (metis (mono_tags, lifting) mem_Collect_eq set_filter)
      ultimately show "identity_of ` set (gr_members g) \<inter> identity_of ` set (gr_members h) = {}" by fastforce
    qed
  qed
  moreover have "TargetProcess (identity_of p) \<notin> set (group_targets (tb_expanded t) g)"
    if pg: "pinned_process processes t = Some p" "g \<in> set ?gs" for p g
  proof
    assume "TargetProcess (identity_of p) \<in> set (group_targets (tb_expanded t) g)"
    then obtain q where q: "q \<in> set (gr_members g)" "identity_of q = identity_of p"
      using group_targets_members [of g "TargetProcess (identity_of p)" "tb_expanded t"] shown_group [OF pg(2)] by fastforce
    then have "\<not> is_pinned t q" using shown_group [OF pg(2)] set_shown [of processes t] by (metis (mono_tags, lifting) filter_is_subset mem_Collect_eq subsetD)
    then show False using find_pinned [OF pg(1)] q(2) by (simp add: is_pinned_def)
  qed
  ultimately have "distinct (pinned_target processes t @ concat (map (group_targets (tb_expanded t)) ?gs))"
    by (auto simp: pinned_target_def split: option.split)
  then show ?thesis using mset_targets [OF assms, of t] by (metis mset_eq_imp_distinct_iff)
qed

lemma set_targets:
  assumes "distinct (map identity_of processes)"
  shows "set (process_navigation_targets processes t) =
    set (pinned_target processes t) \<union> (\<Union>g \<in> set (shown_groups processes t). set (group_targets (tb_expanded t) g))"
  using arg_cong [OF mset_targets [OF assms, of t], of set_mset] by simp


lemma reach_target:
  assumes "distinct (map identity_of processes)" "p \<in> set processes" "is_matching t p"
  shows "TargetProcess (identity_of p) \<in> set (process_navigation_targets processes t) \<or>
    (TargetGroup (ps_program p) \<in> set (process_navigation_targets processes t) \<and> ps_program p \<notin> tb_expanded t)"
proof (cases "is_pinned t p")
  case True
  then show ?thesis using pinned_found [OF assms] by (simp add: set_targets [OF assms(1)] pinned_target_def)
next
  case False
  then have "p \<in> set (shown_processes processes t)" using assms(2,3) by (simp add: set_shown)
  then obtain g where g: "g \<in> set (shown_groups processes t)" "gr_program g = ps_program p" "p \<in> set (gr_members g)"
    by (rule shown_group_of)
  have "TargetProcess (identity_of p) \<in> set (group_targets (tb_expanded t) g) \<or>
      (TargetGroup (ps_program p) \<in> set (group_targets (tb_expanded t) g) \<and> ps_program p \<notin> tb_expanded t)"
    using g(2,3) by (cases "gr_members g") (auto simp: group_targets_cases)
  then show ?thesis using g(1) by (auto simp: set_targets [OF assms(1)])
qed

text \<open>
  C21: every process can be reached and no row is ambiguous: the rows the selection moves over are
  distinct; a process that matches the search has its own row, its pinned row, or the row of its program's group;
  and each row is that of a live process that matches, or of a program with at least two of them.
\<close>

theorem table_targets:
  assumes "distinct (map identity_of processes)"
  shows "let targets = process_navigation_targets processes t in
    distinct targets \<and>
    (\<forall>p \<in> set processes. is_matching t p \<longrightarrow>
       TargetProcess (identity_of p) \<in> set targets \<or> (TargetGroup (ps_program p) \<in> set targets \<and> ps_program p \<notin> tb_expanded t)) \<and>
    (\<forall>target \<in> set targets. case target of
        TargetProcess i \<Rightarrow> \<exists>p \<in> set processes. identity_of p = i \<and> is_matching t p
      | TargetGroup program \<Rightarrow> 2 \<le> length (filter (\<lambda>p. ps_program p = program \<and> is_matching t p \<and> \<not> is_pinned t p) processes))"
proof -
  let ?targets = "process_navigation_targets processes t"
  have live: "case target of
        TargetProcess i \<Rightarrow> \<exists>p \<in> set processes. identity_of p = i \<and> is_matching t p
      | TargetGroup program \<Rightarrow> 2 \<le> length (filter (\<lambda>p. ps_program p = program \<and> is_matching t p \<and> \<not> is_pinned t p) processes)"
    if hit: "target \<in> set ?targets" for target
  proof -
    consider "target \<in> set (pinned_target processes t)" | g where "g \<in> set (shown_groups processes t)" "target \<in> set (group_targets (tb_expanded t) g)"
      using hit unfolding set_targets [OF assms] by blast
    then show ?thesis
    proof cases
      case 1
      then obtain p where p: "pinned_process processes t = Some p" "target = TargetProcess (identity_of p)"
        by (cases "pinned_process processes t") (auto simp: pinned_target_def)
      then show ?thesis using find_pinned [OF p(1)] by auto
    next
      case 2
      note g = shown_group [OF 2(1)]
      have members: "p \<in> set processes \<and> is_matching t p" if "p \<in> set (gr_members g)" for p
        using that g set_shown [of processes t] by (metis (mono_tags, lifting) filter_is_subset mem_Collect_eq subsetD)
      have "mset (gr_members g) = filter_mset (\<lambda>p. ps_program p = gr_program g) (mset (shown_processes processes t))"
        using g by (metis mset_filter)
      then have "mset (gr_members g) = mset (filter (\<lambda>p. ps_program p = gr_program g \<and> is_matching t p \<and> \<not> is_pinned t p) processes)"
        by (simp add: mset_shown filter_filter_mset conj_ac)
      then have len: "length (gr_members g) = length (filter (\<lambda>p. ps_program p = gr_program g \<and> is_matching t p \<and> \<not> is_pinned t p) processes)"
        by (rule mset_eq_length)
      consider "target = TargetGroup (gr_program g)" "2 \<le> length (gr_members g)"
        | p where "p \<in> set (gr_members g)" "target = TargetProcess (identity_of p)"
        using group_targets_members [OF _ 2(2)] g by blast
      then show ?thesis
      proof cases
        case 1
        then show ?thesis using len by simp
      next
        case (2 p)
        then show ?thesis using members [of p] by auto
      qed
    qed
  qed
  show ?thesis unfolding Let_def using distinct_targets [OF assms] reach_target [OF assms] live by blast
qed

section \<open>The selection\<close>

lemma normalize_frame:
  "normalize_process_selection ps t = t \<or> normalize_process_selection ps t = deselect t \<or>
   (\<exists>x. normalize_process_selection ps t = select_process_target x t)"
  by (auto simp: normalize_process_selection_def Let_def split: option.split)

lemma table_rows_frame:
  "tb_sort_key t' = tb_sort_key t \<Longrightarrow> tb_sort_desc t' = tb_sort_desc t \<Longrightarrow> tb_pinned_pid t' = tb_pinned_pid t \<Longrightarrow>
   tb_expanded t' = tb_expanded t \<Longrightarrow> tb_search_query t' = tb_search_query t \<Longrightarrow> tb_pinned_group t' = tb_pinned_group t \<Longrightarrow>
   table_rows ps t' = table_rows ps t"
  by (simp add: table_rows_def process_search_query_def)

lemma nav_frame: "table_rows ps t' = table_rows ps t \<Longrightarrow> process_navigation_targets ps t' = process_navigation_targets ps t"
  by (simp add: process_navigation_targets_def)

lemma rows_select [simp]:
  "table_rows ps (select_process_target x t) = table_rows ps t" "table_rows ps (deselect t) = table_rows ps t"
  "table_rows ps (t\<lparr>tb_scroll := n\<rparr>) = table_rows ps t" "table_rows ps (t\<lparr>tb_display_total := n\<rparr>) = table_rows ps t"
  by (rule table_rows_frame; simp add: select_process_target_def deselect_def split: ProcessRowTarget.split)+

lemma rows_normalize [simp]: "table_rows ps (normalize_process_selection ps t) = table_rows ps t"
  using normalize_frame [of ps t] by auto

lemma current_select [simp]: "current_process_target (select_process_target x t) = Some x"
  "current_process_target (deselect t) = None" "current_process_target (t\<lparr>tb_scroll := n\<rparr>) = current_process_target t"
  "current_process_target (t\<lparr>tb_display_total := n\<rparr>) = current_process_target t"
  by (simp_all add: current_process_target_def select_process_target_def deselect_def split: ProcessRowTarget.split option.split)

lemma ensure_frame:
  "current_process_target (ensure_selected_process_visible ps t) = current_process_target t"
  "table_rows ps (ensure_selected_process_visible ps t) = table_rows ps t"
  by (simp_all add: ensure_selected_process_visible_def Let_def split: option.split)

lemma select_fields [simp]:
  "tb_pinned_pid (select_process_target x t) = tb_pinned_pid t" "tb_expanded (select_process_target x t) = tb_expanded t"
  "tb_scroll_visible (select_process_target x t) = tb_scroll_visible t"
  "tb_pinned_pid (deselect t) = tb_pinned_pid t" "tb_expanded (deselect t) = tb_expanded t"
  by (simp_all add: select_process_target_def deselect_def split: ProcessRowTarget.split)

lemma normalize_fields [simp]:
  "tb_pinned_pid (normalize_process_selection ps t) = tb_pinned_pid t" "tb_expanded (normalize_process_selection ps t) = tb_expanded t"
  using normalize_frame [of ps t] by auto

lemma ensure_fields [simp]:
  "tb_pinned_pid (ensure_selected_process_visible ps t) = tb_pinned_pid t"
  "tb_expanded (ensure_selected_process_visible ps t) = tb_expanded t"
  "tb_scroll_visible (ensure_selected_process_visible ps t) = tb_scroll_visible t"
  by (simp_all add: ensure_selected_process_visible_def Let_def split: option.split)

lemma normalize_selected:
  "current_process_target (normalize_process_selection ps t) = Some x \<Longrightarrow> x \<in> set (process_navigation_targets ps t)"
  by (auto simp: normalize_process_selection_def Let_def split: option.splits if_splits)


text \<open>
  C22: the selection follows a process, not a row: when a new list of processes is taken, or the
  search changes, the selection is one of the rows or nothing; a selected process that is still alive and matches stays
  selected, or its group does; pins name live processes only, and expanded groups programs that run.
\<close>

theorem selection_follows:
  assumes "distinct (map identity_of processes)"
  shows "let t' = clamp_process_selection processes t in
    (\<forall>x. current_process_target t' = Some x \<longrightarrow> x \<in> set (process_navigation_targets processes t')) \<and>
    (\<forall>p \<in> set processes. tb_selected_pid t = Some (identity_of p) \<and> is_matching t p \<longrightarrow>
       current_process_target t' \<in> {Some (TargetProcess (identity_of p)), Some (TargetGroup (ps_program p))}) \<and>
    (\<forall>i. tb_pinned_pid t' = Some i \<longrightarrow> i \<in> identity_of ` set processes) \<and>
    tb_expanded t' \<subseteq> ps_program ` set processes \<and> tb_scroll t' \<le> tb_display_total t' - 1"
proof -
  define alive where "alive = (\<lambda>i. list_ex (\<lambda>p. identity_of p = i) processes)"
  define t1 where "t1 = t\<lparr>tb_selected_pid := opt_filter alive (tb_selected_pid t), tb_pinned_pid := opt_filter alive (tb_pinned_pid t),
         tb_selected_group := opt_filter (\<lambda>g. g \<in> ps_program ` set processes) (tb_selected_group t),
         tb_pinned_group := opt_filter (\<lambda>g. g \<in> ps_program ` set processes) (tb_pinned_group t), tb_expanded := tb_expanded t \<inter> ps_program ` set processes\<rparr>"
  define t2 where "t2 = normalize_process_selection processes t1"
  define t3 where "t3 = ensure_selected_process_visible processes t2"
  have clamp: "clamp_process_selection processes t = t3\<lparr>tb_scroll := min (tb_scroll t3) (tb_display_total t3 - 1)\<rparr>"
    by (simp add: clamp_process_selection_def t3_def t2_def t1_def alive_def Let_def)
  have current: "current_process_target (clamp_process_selection processes t) = current_process_target t2"
    by (simp add: clamp t3_def ensure_frame)
  have rows: "table_rows processes (clamp_process_selection processes t) = table_rows processes t1"
    by (simp add: clamp t3_def ensure_frame t2_def)
  have selected: "x \<in> set (process_navigation_targets processes (clamp_process_selection processes t))"
    if "current_process_target (clamp_process_selection processes t) = Some x" for x
    using that normalize_selected [of processes t1 x] unfolding current t2_def nav_frame [OF rows] by simp
  have stays: "current_process_target (clamp_process_selection processes t) \<in> {Some (TargetProcess (identity_of p)), Some (TargetGroup (ps_program p))}"
    if p: "p \<in> set processes" "tb_selected_pid t = Some (identity_of p)" "is_matching t p" for p
  proof -
    have sel: "current_process_target t1 = Some (TargetProcess (identity_of p))"
      using p(1,2) by (auto simp: current_process_target_def t1_def opt_filter_def alive_def list_ex_iff)
    have "is_matching t1 p" using p(3) by (simp add: is_matching_def t1_def process_search_query_def)
    note reach = reach_target [OF assms p(1) this]
    have found: "find (\<lambda>q. identity_of q = identity_of p) processes = Some p"
    proof -
      obtain q where q: "find (\<lambda>q. identity_of q = identity_of p) processes = Some q"
        using p(1) by (cases "find (\<lambda>q. identity_of q = identity_of p) processes") (auto simp: find_None_iff)
      then have "q \<in> set processes" "identity_of q = identity_of p" by (auto simp: find_Some_iff)
      then show ?thesis using q p(1) assms by (auto simp: distinct_map inj_on_def)
    qed
    show ?thesis
      using reach unfolding current t2_def normalize_process_selection_def sel by (auto simp: sel found Let_def)
  qed
  have scroll: "tb_scroll (clamp_process_selection processes t) \<le> tb_display_total (clamp_process_selection processes t) - 1"
    by (simp add: clamp)
  have frame: "tb_pinned_pid (clamp_process_selection processes t) = tb_pinned_pid t1" "tb_expanded (clamp_process_selection processes t) = tb_expanded t1"
    by (simp_all add: clamp t3_def t2_def)
  have pins: "i \<in> identity_of ` set processes" if "tb_pinned_pid (clamp_process_selection processes t) = Some i" for i
    using that unfolding frame by (auto simp: t1_def opt_filter_def alive_def list_ex_iff split: option.splits if_splits)
  have "tb_expanded (clamp_process_selection processes t) \<subseteq> ps_program ` set processes" unfolding frame by (simp add: t1_def)
  then show ?thesis unfolding Let_def using selected stays pins scroll by blast
qed

lemma position_Some: "position x xs = Some i \<Longrightarrow> i < length xs \<and> xs ! i = x"
  by (induction xs arbitrary: i) (auto split: if_splits)

lemma position_nth: "distinct xs \<Longrightarrow> i < length xs \<Longrightarrow> position (xs ! i) xs = Some i"
  by (induction xs arbitrary: i) (auto simp: nth_Cons split: nat.split)

lemma ensure_visible:
  assumes "current_process_target t = Some x" "position x (process_scroll_targets processes t) = Some i" "0 < tb_scroll_visible t"
  shows "tb_scroll (ensure_selected_process_visible processes t) \<le> i \<and>
    i < tb_scroll (ensure_selected_process_visible processes t) + tb_scroll_visible t"
proof -
  have "i < length (process_scroll_targets processes t)" using position_Some [OF assms(2)] by simp
  then show ?thesis using assms by (auto simp: ensure_selected_process_visible_def Let_def)
qed

lemma scroll_targets_frame: "table_rows ps t' = table_rows ps t \<Longrightarrow> process_scroll_targets ps t' = process_scroll_targets ps t"
  by (simp add: process_scroll_targets_def)

text \<open>
  C0: moving the selection by \<open>d\<close> rows from a selected row selects the row \<open>d\<close> below or above it, the
  first or the last when there are not so many, whatever the pins and groups, and scrolls so that a row that
  scrolls is on screen.
\<close>

theorem selection_moves:
  assumes "distinct (map identity_of processes)" "c < length (process_navigation_targets processes t)"
    and "current_process_target t = Some (process_navigation_targets processes t ! c)" "0 < tb_scroll_visible t"
  shows "let targets = process_navigation_targets processes t; t' = move_process_selection d processes t;
      n = nat (max 0 (min (int c + d) (int (length targets) - 1))) in
    process_navigation_targets processes t' = targets \<and> current_process_target t' = Some (targets ! n) \<and>
    (\<forall>i. position (targets ! n) (process_scroll_targets processes t') = Some i \<longrightarrow> tb_scroll t' \<le> i \<and> i < tb_scroll t' + tb_scroll_visible t')"
proof -
  let ?ts = "process_navigation_targets processes t"
  have same: "normalize_process_selection processes t = t" using assms(2,3) by (simp add: normalize_process_selection_def Let_def)
  have ne: "?ts \<noteq> []" using assms(2) by auto
  have c: "position (?ts ! c) ?ts = Some c" by (rule position_nth [OF distinct_targets [OF assms(1)] assms(2)])
  define n where "n = nat (max 0 (min (int c + d) (int (length ?ts) - 1)))"
  have n: "(if d < 0 then c - nat (- d) else min (c + nat d) (length ?ts - 1)) = n"
    using assms(2) by (auto simp: n_def min_def max_def nat_add_distrib)
  let ?t = "select_process_target (?ts ! n) t"
  have moved: "move_process_selection d processes t = ensure_selected_process_visible processes ?t"
    by (simp add: move_process_selection_def same ne assms(3) c n)
  have vis: "tb_scroll_visible (ensure_selected_process_visible processes ?t) = tb_scroll_visible t"
    by simp
  have rows: "table_rows processes (move_process_selection d processes t) = table_rows processes t"
    by (simp add: moved ensure_frame)
  have "tb_scroll (move_process_selection d processes t) \<le> i \<and> i < tb_scroll (move_process_selection d processes t) + tb_scroll_visible t"
    if "position (?ts ! n) (process_scroll_targets processes t) = Some i" for i
    unfolding moved using ensure_visible [of ?t "?ts ! n" processes i] that assms(4) by (simp add: process_scroll_targets_def)
  then show ?thesis
    unfolding Let_def n_def [symmetric] nav_frame [OF rows] scroll_targets_frame [OF rows] by (auto simp: moved vis ensure_frame)
qed

section \<open>Order\<close>

lemma sort_unique:
  assumes "mset xs = mset ys" "\<And>x y. x \<in> set xs \<Longrightarrow> y \<in> set xs \<Longrightarrow> compare c x y = Equiv \<Longrightarrow> x = y"
  shows "Sorting_Algorithms.sort c xs = Sorting_Algorithms.sort c ys"
proof (rule Sorting_Algorithms.sort_eqI)
  show "mset xs = mset (Sorting_Algorithms.sort c ys)" using assms(1) by simp
  show "Sorting_Algorithms.sorted c (Sorting_Algorithms.sort c ys)" by simp
  fix l assume l: "l \<in> set xs"
  have set: "set xs = set ys" using assms(1) by (rule mset_eq_setD)
  have eq: "filter (\<lambda>y. compare c l y = Equiv) zs = filter (HOL.eq l) zs" if "set zs \<subseteq> set xs" for zs
    using that l assms(2) by (intro filter_cong) auto
  show "filter (\<lambda>y. compare c l y = Equiv) xs = filter (\<lambda>y. compare c l y = Equiv) (Sorting_Algorithms.sort c ys)"
    using assms(1) by (simp add: eq set flip: replicate_count_mset_eq_filter_eq)
qed

lemma compare_then_with:
  "compare (then_with c d) x y = (case compare c x y of Less \<Rightarrow> Less | Equiv \<Rightarrow> compare d x y | Greater \<Rightarrow> Greater)"
  by (simp add: then_with_def compare_prod_lex_apply split: comp.split)

lemma then_with_Equiv: "compare (then_with c d) x y = Equiv \<Longrightarrow> compare c x y = Equiv \<and> compare d x y = Equiv"
  by (auto simp: compare_then_with split: comp.splits)

text \<open>
  the table does not depend on the order in which processes are read or groups are hashed: two
  lists of the same processes give the same rows, and the groups are put in the same order whatever order they are in before.
\<close>

theorem table_order_independent:
  assumes "mset processes = mset processes'" "distinct (map ps_pid processes)"
  shows "table_rows processes t = table_rows processes' t \<and>
    (\<forall>groups. mset groups = mset (groups_of processes) \<longrightarrow> sort_groups k d groups = sort_groups k d (groups_of processes))"
proof -
  have "sorted_processes processes k d = sorted_processes processes' k d" for k d
    unfolding sorted_processes_def
  proof (rule sort_unique [OF assms(1)])
    fix x y assume "x \<in> set processes" "y \<in> set processes" "compare (then_with (directed d (process_order k)) (key ps_pid default)) x y = Equiv"
    then show "x = y" using assms(2) then_with_Equiv [of _ "key ps_pid default" x y] by (auto simp: distinct_map inj_on_def)
  qed
  then have "table_rows processes t = table_rows processes' t"
    by (simp add: table_rows_def grouped_process_rows_filtered_def sorted_processes_with_pin_def)
  moreover have "sort_groups k d groups = sort_groups k d (groups_of processes)" if "mset groups = mset (groups_of processes)" for groups
    unfolding sort_groups_def
  proof (rule sort_unique [OF that])
    fix g h assume gh: "g \<in> set groups" "h \<in> set groups"
      "compare (then_with (then_with (directed d (group_order k)) (key gr_program default)) (key gr_min_pid default)) g h = Equiv"
    have "gr_program g = gr_program h"
      using then_with_Equiv [OF then_with_Equiv [OF gh(3), THEN conjunct1]] by simp
    moreover have "g \<in> set (groups_of processes)" "h \<in> set (groups_of processes)" using gh(1,2) mset_eq_setD [OF that] by auto
    ultimately show "g = h" using distinct_groups [of processes] by (auto simp: distinct_map inj_on_def)
  qed
  ultimately show ?thesis by blast
qed

section \<open>Witnesses\<close>

definition sample_row :: "u32 \<Rightarrow> rstr \<Rightarrow> ProcessStats" where
  "sample_row pid program = \<lparr>ps_pid = pid, ps_program = program, ps_command = program, ps_cpu_pct = Fin 0, ps_memory_bytes = 1,
     ps_threads = None, ps_start_time = 7, ps_gpu = []\<rparr>"

definition sample_rows_list :: "ProcessStats list" where
  "sample_rows_list = [sample_row 3 (lit ''b''), sample_row 1 (lit ''a''), sample_row 2 (lit ''a'')]"

definition sample_table :: Table where
  "sample_table = table_start\<lparr>tb_sort_key := SortPid, tb_sort_desc := False, tb_selected_pid := Some (identity_of (sample_row 3 (lit ''b''))),
     tb_scroll_visible := 5\<rparr>"

lemma sample_targets:
  "process_navigation_targets sample_rows_list sample_table = [TargetGroup (lit ''a''), TargetProcess (identity_of (sample_row 3 (lit ''b'')))]"
  by code_simp

lemma sample_distinct: "distinct (map identity_of sample_rows_list)" "distinct (map ps_pid sample_rows_list)"
  by (simp_all add: sample_rows_list_def sample_row_def identity_of_def)

theorem table_targets_witness:
  "2 \<le> length (filter (\<lambda>p. ps_program p = lit ''a'' \<and> is_matching sample_table p \<and> \<not> is_pinned sample_table p) sample_rows_list)"
  using table_targets [OF sample_distinct(1), of sample_table] by (simp add: sample_targets Let_def)

theorem selection_follows_witness:
  "current_process_target (clamp_process_selection sample_rows_list sample_table)
     \<in> {Some (TargetProcess (identity_of (sample_row 3 (lit ''b'')))), Some (TargetGroup (ps_program (sample_row 3 (lit ''b''))))}"
proof -
  have "is_matching sample_table (sample_row 3 (lit ''b''))" by code_simp
  moreover have "sample_row 3 (lit ''b'') \<in> set sample_rows_list" by (simp add: sample_rows_list_def)
  moreover have "tb_selected_pid sample_table = Some (identity_of (sample_row 3 (lit ''b'')))" by (simp add: sample_table_def)
  ultimately show ?thesis using selection_follows [OF sample_distinct(1), of sample_table] unfolding Let_def by blast
qed

theorem selection_moves_witness:
  "current_process_target (move_process_selection (- 10) sample_rows_list sample_table) = Some (TargetGroup (lit ''a''))"
proof -
  have "1 < length (process_navigation_targets sample_rows_list sample_table)" by (simp add: sample_targets)
  moreover have "current_process_target sample_table = Some (process_navigation_targets sample_rows_list sample_table ! 1)"
    unfolding sample_targets by (simp add: current_process_target_def sample_table_def)
  moreover have "0 < tb_scroll_visible sample_table" by (simp add: sample_table_def)
  ultimately show ?thesis
    using selection_moves [OF sample_distinct(1), of 1 sample_table "- 10"] by (simp add: sample_targets Let_def)
qed

theorem table_order_independent_witness:
  "table_rows sample_rows_list sample_table = table_rows [sample_row 1 (lit ''a''), sample_row 2 (lit ''a''), sample_row 3 (lit ''b'')] sample_table"
  using table_order_independent [OF _ sample_distinct(2), of "[sample_row 1 (lit ''a''), sample_row 2 (lit ''a''), sample_row 3 (lit ''b'')]"]
  by (simp add: sample_rows_list_def add_mset_commute)

end
