(* ===== verification/Cells.thy ===== *)
theory Cells
  imports ProcTable Redact Cpu
begin

text \<open>
  The texts of cells, from \<^verbatim>\<open>src/ui/widgets.rs\<close>: numbers, durations and memory sizes as they are
  shown, cells cut and padded to a number of terminal columns, bars and their colours.  The width of a text in
  columns is a parameter \<open>dw\<close>: it is the measure of the terminal library.
\<close>

section \<open>Formatting\<close>

definition pad_right :: "nat \<Rightarrow> rstr \<Rightarrow> rstr" where
  "pad_right w s = s @ replicate (w - length s) 32"

definition pad_left :: "nat \<Rightarrow> rstr \<Rightarrow> rstr" where
  "pad_left w s = replicate (w - length s) 32 @ s"

definition zero_left :: "nat \<Rightarrow> rstr \<Rightarrow> rstr" where
  "zero_left w s = replicate (w - length s) 48 @ s"

text \<open>\<^verbatim>\<open>{:.d}\<close> of a float: the exact value, rounded half to even at the last digit.\<close>

definition fmt_fixed :: "nat \<Rightarrow> f64 \<Rightarrow> rstr" where
  "fmt_fixed d x = (case x of NaN \<Rightarrow> lit ''NaN'' | PInf \<Rightarrow> lit ''inf'' | NInf \<Rightarrow> lit ''-inf''
     | Fin q \<Rightarrow> let n = nat (round_half_even (\<bar>q\<bar> * 10 ^ d)) in (if q < 0 then lit ''-'' else []) @ show_nat (n div 10 ^ d) @
         (if d = 0 then [] else lit ''.'' @ zero_left d (show_nat (n mod 10 ^ d))))"

text \<open>\<^verbatim>\<open>f64::round\<close>: half away from zero.\<close>

definition fround :: "f64 \<Rightarrow> f64" where
  "fround x = (case x of Fin q \<Rightarrow> Fin (of_int (if q < 0 then - \<lfloor>1 / 2 - q\<rfloor> else \<lfloor>q + 1 / 2\<rfloor>)) | other \<Rightarrow> other)"

definition EMPTY_CELL :: rstr where
  "EMPTY_CELL = [8212]"

definition format_sample_age :: "duration \<Rightarrow> rstr" where
  "format_sample_age age = (let millis = age div 1000000 in
     if millis < 1000 then show_nat millis @ lit '' ms''
     else if as_secs_f64 age < Fin 60 then fmt_fixed 1 (as_secs_f64 age) @ lit '' s''
     else let whole = age div 1000000000 in show_nat (whole div 60) @ lit ''m '' @ zero_left 2 (show_nat (whole mod 60)) @ lit ''s'')"

definition format_uptime :: "duration \<Rightarrow> rstr" where
  "format_uptime uptime = (let whole = uptime div 1000000000; days = whole div 86400; hours = whole div 3600 mod 24;
       minutes = whole div 60 mod 60; seconds = whole mod 60;
       clock = zero_left 2 (show_nat hours) @ lit '':'' @ zero_left 2 (show_nat minutes) @ lit '':'' @ zero_left 2 (show_nat seconds)
     in if 0 < days then show_nat days @ lit ''d '' @ clock else clock)"

definition compact_rate :: "f64 \<Rightarrow> rstr" where
  "compact_rate v = (if \<not> is_finite v \<or> v \<le> Fin 0 then lit ''0''
     else if Fin 1000 \<le> v then fmt_fixed 1 (fdiv v (Fin 1000)) @ lit ''k''
     else if Fin 100 \<le> v then fmt_fixed 0 v else fmt_fixed 1 v)"

text \<open>A comma before every digit, the first apart, that a multiple of three digits follows to the end.\<close>

fun grouped_from :: "bool \<Rightarrow> rstr \<Rightarrow> rstr" where
  "grouped_from first [] = []"
| "grouped_from first (c # r) = (if \<not> first \<and> (length r + 1) mod 3 = 0 then [44, c] else [c]) @ grouped_from False r"

definition grouped_u64 :: "u64 \<Rightarrow> rstr" where
  "grouped_u64 v = grouped_from True (show_word v)"

definition grouped_f64 :: "f64 \<Rightarrow> rstr" where
  "grouped_f64 v = (if is_finite v \<and> Fin 0 \<le> v then grouped_u64 (u64_of_f64 (fround v)) else EMPTY_CELL)"

definition compact_tokens :: "u64 \<Rightarrow> rstr" where
  "compact_tokens v = (if v < 1000 then show_word v else fmt_fixed 1 (fdiv (f64_of_u64 v) (Fin 1000)) @ lit ''k'')"

definition compact_memory :: "u64 \<Rightarrow> rstr" where
  "compact_memory n = (let bytes = f64_of_u64 n in
     if Fin 1073741824 \<le> bytes then fmt_fixed 1 (fdiv bytes (Fin 1073741824)) @ lit ''G''
     else if Fin 1048576 \<le> bytes then fmt_fixed 0 (fdiv bytes (Fin 1048576)) @ lit ''M''
     else if Fin 1024 \<le> bytes then fmt_fixed 0 (fdiv bytes (Fin 1024)) @ lit ''K''
     else show_word (u64_of_f64 bytes) @ lit ''B'')"

definition gpu_cell :: "u64 \<Rightarrow> rstr" where
  "gpu_cell bytes = (if 0 < bytes then compact_memory bytes else EMPTY_CELL)"

definition thread_cell :: "u64 option \<Rightarrow> rstr" where
  "thread_cell threads = unwrap_or EMPTY_CELL (map_option show_word threads)"

definition optional_number :: "f64 option \<Rightarrow> nat \<Rightarrow> rstr \<Rightarrow> rstr" where
  "optional_number v decimals suffix = (case v of Some x \<Rightarrow> if is_finite x then fmt_fixed decimals x @ suffix else EMPTY_CELL | None \<Rightarrow> EMPTY_CELL)"

definition widget_bytes_to_gib :: "u64 \<Rightarrow> f64" where
  "widget_bytes_to_gib bytes = fdiv (fdiv (fdiv (f64_of_u64 bytes) (Fin 1024)) (Fin 1024)) (Fin 1024)"

definition first_words :: "nat \<Rightarrow> rstr \<Rightarrow> rstr" where
  "first_words n s = join (lit '' '') (take n (split_ws s))"

definition cpu_vendor_label :: "CpuVendor \<Rightarrow> rstr" where
  "cpu_vendor_label v = (case v of VendorIntel \<Rightarrow> lit ''Intel'' | VendorAmd \<Rightarrow> lit ''AMD'' | _ \<Rightarrow> lit ''CPU'')"

definition is_core_i :: "rstr \<Rightarrow> bool" where
  "is_core_i part \<longleftrightarrow> list_ex (\<lambda>prefix. starts_with prefix part) [lit ''i3-'', lit ''i5-'', lit ''i7-'', lit ''i9-'']"

definition compact_cpu_model :: "CpuTopology \<Rightarrow> rstr" where
  "compact_cpu_model topology = (let model = trim (ct_model topology); vendor = ct_vendor topology;
       core_i = (if vendor = VendorIntel then find is_core_i (split_ws model) else None);
       ultra = (if vendor = VendorIntel then find_sub (lit ''Core Ultra'') model else None);
       ryzen = (if vendor = VendorAmd then find_sub (lit ''Ryzen'') model else None);
       epyc = (if vendor = VendorAmd then find_sub (lit ''EPYC'') model else None)
     in if model = [] then cpu_vendor_label vendor
     else case core_i of Some part \<Rightarrow> part
     | None \<Rightarrow> (case ultra of Some pos \<Rightarrow> first_words 4 (drop pos model)
     | None \<Rightarrow> (case ryzen of Some pos \<Rightarrow> join (lit '' '') (take 4 (takeWhile (\<lambda>part. \<not> contains_sub (lit ''-Core'') part) (split_ws (drop pos model))))
     | None \<Rightarrow> (case epyc of Some pos \<Rightarrow> first_words 3 (drop pos model)
     | None \<Rightarrow> first_words 4 model))))"

section \<open>Cells of a fixed width\<close>

fun fit_loop :: "(rstr \<Rightarrow> nat) \<Rightarrow> nat \<Rightarrow> nat \<Rightarrow> rstr \<Rightarrow> rstr" where
  "fit_loop dw budget used [] = []"
| "fit_loop dw budget used (c # cs) = (if used + dw [c] > budget then [] else c # fit_loop dw budget (used + dw [c]) cs)"

definition ELLIPSIS :: rstr where
  "ELLIPSIS = [8230]"

definition fit_cell :: "(rstr \<Rightarrow> nat) \<Rightarrow> rstr \<Rightarrow> nat \<Rightarrow> rstr" where
  "fit_cell dw s width = (if width = 0 then [] else if dw s \<le> width then s else if width = 1 then ELLIPSIS
     else fit_loop dw (width - 1) 0 s @ ELLIPSIS)"

definition pad_cell :: "(rstr \<Rightarrow> nat) \<Rightarrow> rstr \<Rightarrow> nat \<Rightarrow> rstr" where
  "pad_cell dw s width = (let out = fit_cell dw s width in out @ replicate (width - dw out) 32)"

definition truncate_title :: "(rstr \<Rightarrow> nat) \<Rightarrow> rstr \<Rightarrow> nat \<Rightarrow> rstr" where
  "truncate_title dw title max_len = (if dw title \<le> max_len then title else fit_cell dw title max_len)"

section \<open>Spans\<close>

datatype Color = Black | Rgb nat nat nat

record Style =
  sy_fg :: "Color option"
  sy_bg :: "Color option"
  sy_bold :: bool
  sy_underlined :: bool

record Span =
  sn_content :: rstr
  sn_style :: Style

definition plain_style :: Style where
  "plain_style = \<lparr>sy_fg = None, sy_bg = None, sy_bold = False, sy_underlined = False\<rparr>"

definition fg :: "Color \<Rightarrow> Style" where
  "fg c = plain_style\<lparr>sy_fg := Some c\<rparr>"

definition styled :: "rstr \<Rightarrow> Style \<Rightarrow> Span" where
  "styled s st = \<lparr>sn_content = s, sn_style = st\<rparr>"

definition BAR_EMPTY :: Color where "BAR_EMPTY = Rgb 48 52 48"
definition ORK_GREEN :: Color where "ORK_GREEN = Rgb 105 210 70"
definition BRIGHT_GREEN :: Color where "BRIGHT_GREEN = Rgb 150 235 95"
definition INNER_GREEN :: Color where "INNER_GREEN = Rgb 42 83 48"
definition MUTED :: Color where "MUTED = Rgb 145 150 145"
definition YELLOW :: Color where "YELLOW = Rgb 220 205 75"
definition ORANGE :: Color where "ORANGE = Rgb 230 145 60"
definition RED :: Color where "RED = Rgb 235 75 75"
definition CYAN :: Color where "CYAN = Rgb 70 195 220"
definition WHITE :: Color where "WHITE = Rgb 225 225 225"
definition PROCESS_SELECTED_BG :: Color where "PROCESS_SELECTED_BG = Rgb 24 54 24"

definition llm_metric_cell :: "rstr \<Rightarrow> nat \<Rightarrow> Color \<Rightarrow> bool \<Rightarrow> Span" where
  "llm_metric_cell s width c bold = styled (pad_right width s) ((fg c)\<lparr>sy_bold := bold\<rparr>)"

definition llm_sep :: Span where
  "llm_sep = styled (lit ''  '' @ [9474] @ lit ''  '') (fg INNER_GREEN)"

definition button_span :: "rstr \<Rightarrow> Span" where
  "button_span s = styled s \<lparr>sy_fg = Some Black, sy_bg = Some ORK_GREEN, sy_bold = True, sy_underlined = False\<rparr>"

definition label_span :: "rstr \<Rightarrow> Span" where
  "label_span s = styled s (fg MUTED)"

definition value_span :: "rstr \<Rightarrow> Color \<Rightarrow> Span" where
  "value_span s c = styled s (fg c)"

definition fixed_data_pair :: "rstr \<Rightarrow> rstr \<Rightarrow> Color \<Rightarrow> nat \<Rightarrow> Span" where
  "fixed_data_pair label v c width = styled (pad_right width (lit ''  '' @ pad_right 7 label @ lit '' '' @ v)) (fg c)"

section \<open>Bars\<close>

definition widget_clamp_percent :: "f64 \<Rightarrow> f64" where
  "widget_clamp_percent v = (if is_finite v then fclamp (Fin 0) (Fin 100) v else Fin 0)"

definition percent_of :: "f64 \<Rightarrow> f64 \<Rightarrow> f64" where
  "percent_of v whole = (if is_finite v \<and> is_finite whole \<and> Fin 0 < whole then widget_clamp_percent (fmul (fdiv v whole) (Fin 100)) else Fin 0)"

definition bar_units :: "f64 \<Rightarrow> nat \<Rightarrow> nat" where
  "bar_units percent width = f64_to_nat 64 (fround (fmul (fdiv (widget_clamp_percent percent) (Fin 100)) (f64_of_nat (width * 2))))"

definition color_byte :: "f64 \<Rightarrow> nat" where
  "color_byte v = f64_to_nat 8 (fclamp (Fin 0) (Fin 255) (fround v))"

definition lerp :: "f64 \<Rightarrow> nat \<Rightarrow> nat \<Rightarrow> nat" where
  "lerp t x y = color_byte (fadd (f64_of_nat x) (fmul (fsub (f64_of_nat y) (f64_of_nat x)) t))"

definition mix_color :: "Color \<Rightarrow> Color \<Rightarrow> f64 \<Rightarrow> Color" where
  "mix_color a b t = (case (a, b) of
       (Rgb ar ag ab, Rgb br bg bb) \<Rightarrow> Rgb (lerp t ar br) (lerp t ag bg) (lerp t ab bb)
     | _ \<Rightarrow> if t < rnd (1 / 2) then a else b)"

definition EPSILON :: f64 where
  "EPSILON = rnd (2 powi - 52)"

fun interpolate_from :: "f64 \<Rightarrow> (f64 \<times> Color) list \<Rightarrow> Color" where
  "interpolate_from level [] = WHITE"
| "interpolate_from level [(_, c)] = c"
| "interpolate_from level ((start_at, start_color) # (end_at, end_color) # stops) = (if level \<le> end_at
     then mix_color start_color end_color (fclamp (Fin 0) (Fin 1) (fdiv (fsub level start_at) (fmax (fsub end_at start_at) EPSILON)))
     else interpolate_from level ((end_at, end_color) # stops))"

definition interpolate_stops :: "f64 \<Rightarrow> (f64 \<times> Color) list \<Rightarrow> Color" where
  "interpolate_stops level stops = interpolate_from (widget_clamp_percent level) stops"

definition DARK_GREEN :: Color where "DARK_GREEN = Rgb 35 90 38"
definition DARK_CYAN :: Color where "DARK_CYAN = Rgb 24 82 100"

definition gradient_stops :: "rstr \<Rightarrow> (f64 \<times> Color) list option" where
  "gradient_stops label = (
     if label = lit ''GPU'' \<or> label = lit ''CPU'' then Some [(Fin 0, DARK_GREEN), (Fin 100, ORK_GREEN)]
     else if label = lit ''VRAM'' then Some [(Fin 0, DARK_CYAN), (Fin 90, CYAN), (Fin 95, YELLOW), (Fin 98, ORANGE), (Fin 100, RED)]
     else if label = lit ''RAM'' then Some [(Fin 0, DARK_CYAN), (Fin 70, CYAN), (Fin 85, YELLOW), (Fin 95, ORANGE), (Fin 100, RED)]
     else if label = lit ''PWR'' then Some [(Fin 0, DARK_GREEN), (Fin 65, ORK_GREEN), (Fin 85, YELLOW), (Fin 95, ORANGE), (Fin 100, RED)]
     else if label = lit ''CTX'' then Some [(Fin 0, DARK_GREEN), (Fin 65, ORK_GREEN), (Fin 80, YELLOW), (Fin 90, ORANGE), (Fin 97, RED), (Fin 100, RED)]
     else None)"

definition bar_gradient_color :: "rstr \<Rightarrow> f64 \<Rightarrow> Color \<Rightarrow> Color" where
  "bar_gradient_color label level fallback = (case gradient_stops label of Some stops \<Rightarrow> interpolate_stops level stops | None \<Rightarrow> fallback)"

definition bar_cell :: "rstr \<Rightarrow> Color \<Rightarrow> nat \<Rightarrow> nat \<Rightarrow> nat \<Rightarrow> Span" where
  "bar_cell label fallback total_units units cell = (let start = cell * 2; filled_units = min (units - start) 2 in
     if filled_units = 0 then styled [10432] (fg BAR_EMPTY)
     else styled [if filled_units = 2 then 10495 else 10439] (fg (bar_gradient_color label
       (fclamp (Fin 0) (Fin 100) (fmul (fdiv (f64_of_nat (start + filled_units)) (f64_of_nat total_units)) (Fin 100))) fallback)))"

definition fine_bar_spans :: "rstr \<Rightarrow> f64 \<Rightarrow> nat \<Rightarrow> Color \<Rightarrow> Span list" where
  "fine_bar_spans label percent width fallback = map (bar_cell label fallback (width * 2) (bar_units percent width)) [0..<width]"

definition meter_line :: "rstr \<Rightarrow> f64 \<Rightarrow> nat \<Rightarrow> Color \<Rightarrow> rstr \<Rightarrow> Span list \<Rightarrow> Span list" where
  "meter_line label percent width c v suffix = styled (lit '' '' @ pad_right 5 label) (fg MUTED)
     # fine_bar_spans label (widget_clamp_percent percent) width c @ styled (lit '' '' @ pad_right 8 v) (fg WHITE) # suffix"

definition unavailable_meter_line :: "rstr \<Rightarrow> nat \<Rightarrow> Span list \<Rightarrow> Span list" where
  "unavailable_meter_line label width suffix = styled (lit '' '' @ pad_right 5 label) (fg MUTED)
     # styled (pad_right (width + 9) (lit '' '' @ EMPTY_CELL)) (fg MUTED) # suffix"

definition gpu_bar_width :: "u16 \<Rightarrow> nat" where
  "gpu_bar_width width = (if width \<le> 89 then 14 else if width \<le> 119 then 22 else 30)"

text \<open>The endpoint in the header of the screen; \<^verbatim>\<open>trim_start_matches\<close> strips every leading copy.\<close>

function trim_start_str :: "rstr \<Rightarrow> rstr \<Rightarrow> rstr" where
  "trim_start_str pre s = (case (if pre = [] then None else strip_prefix pre s) of
     Some r \<Rightarrow> trim_start_str pre r | None \<Rightarrow> s)"
  by pat_completeness auto
termination
  by (relation "measure (\<lambda>(_, s). length s)") (auto simp: strip_prefix_Some neq_Nil_conv split: if_splits)

declare trim_start_str.simps [simp del]

definition compact_endpoint :: "('u, 'z) url_api_scheme \<Rightarrow> rstr \<Rightarrow> rstr" where
  "compact_endpoint api server = (let safe = safe_endpoint api server in
     if safe = UNPARSEABLE_ENDPOINT
     then let trimmed = trim server in
       if trimmed \<noteq> [] \<and> list_all (\<lambda>c. c \<notin> set (lit ''@/?# '')) trimmed then trimmed else safe
     else trim_start_str (lit ''https://'') (trim_start_str (lit ''http://'') safe))"

section \<open>Widths\<close>

text \<open>
  What the fitting relies on: a prefix is no wider than its characters together, and the measure adds up
  over the ellipsis and over spaces.
\<close>

definition char_measured :: "(rstr \<Rightarrow> nat) \<Rightarrow> rstr \<Rightarrow> bool" where
  "char_measured dw s \<longleftrightarrow> dw [] = 0 \<and> dw ELLIPSIS = 1 \<and>
     list_all (\<lambda>n. dw (take n s @ ELLIPSIS) \<le> sum_list (map (\<lambda>c. dw [c]) (take n s)) + 1) [0..<length s + 1]"

lemma fit_loop_take:
  "\<exists>n \<le> length s. fit_loop dw budget used s = take n s \<and>
     (used \<le> budget \<longrightarrow> used + sum_list (map (\<lambda>c. dw [c]) (take n s)) \<le> budget)"
proof (induction s arbitrary: used)
  case (Cons c s)
  show ?case
  proof (cases "used + dw [c] > budget")
    case True
    then show ?thesis by (intro exI [of _ 0]) simp
  next
    case False
    obtain n where "n \<le> length s" "fit_loop dw budget (used + dw [c]) s = take n s"
      "used + dw [c] + sum_list (map (\<lambda>c. dw [c]) (take n s)) \<le> budget"
      using Cons [of "used + dw [c]"] False by auto
    then show ?thesis using False by (intro exI [of _ "Suc n"]) (simp add: add.assoc)
  qed
qed simp

lemma fit_cell_width:
  assumes "char_measured dw s"
  shows "dw (fit_cell dw s width) \<le> width"
proof -
  obtain n where n: "n \<le> length s" "fit_loop dw (width - 1) 0 s = take n s"
    "sum_list (map (\<lambda>c. dw [c]) (take n s)) \<le> width - 1"
    using fit_loop_take [of s dw "width - 1" 0] by auto
  then have "dw (take n s @ ELLIPSIS) \<le> sum_list (map (\<lambda>c. dw [c]) (take n s)) + 1"
    using assms by (cases "n = length s") (auto simp: char_measured_def list_all_iff)
  then show ?thesis using assms n by (auto simp: fit_cell_def char_measured_def)
qed

text \<open>
  a padded cell takes exactly its columns, whatever wide or combining characters the text has, when the measure of the
  text does not exceed that of its characters and spaces add up.
\<close>

theorem pad_cell_width:
  assumes "char_measured dw s" "\<And>n. dw (fit_cell dw s width @ replicate n 32) = dw (fit_cell dw s width) + n"
  shows "dw (pad_cell dw s width) = width"
  using fit_cell_width [OF assms(1), of width] by (simp add: pad_cell_def Let_def assms(2))

text \<open>A measure by characters: two columns for a wide one, none for a combining one.\<close>

definition columns :: "rstr \<Rightarrow> nat" where
  "columns s = sum_list (map (\<lambda>c. if 0x4e00 \<le> c \<and> c \<le> 0x9fff then 2 else if 0x300 \<le> c \<and> c \<le> 0x36f then 0 else 1) s)"

theorem pad_cell_width_witness: "columns (pad_cell columns [0x6f22, 0x5b57, 97, 0x301, 98] 4) = 4"
  by (rule pad_cell_width) (simp_all add: char_measured_def columns_def sum_list_replicate ELLIPSIS_def list_all_iff)

text \<open>
  The measure of the library is not of that kind for an emoji with a variation selector: the pair is two columns wide,
  its characters one and none.  Such a text is cut too late, and an ellipsis is put where nothing was cut.
\<close>

theorem fit_cell_emoji_overflow:
  assumes "dw [0x2764] = 1" "dw [0xfe0f] = 0" "dw (concat (replicate 3 [0x2764, 0xfe0f])) = 6"
    "dw (concat (replicate 3 [0x2764, 0xfe0f]) @ ELLIPSIS) = 7"
  shows "fit_cell dw (concat (replicate 3 [0x2764, 0xfe0f])) 4 = concat (replicate 3 [0x2764, 0xfe0f]) @ ELLIPSIS \<and>
    4 < dw (fit_cell dw (concat (replicate 3 [0x2764, 0xfe0f])) 4)"
proof -
  have "replicate 3 x = [x, x, x]" for x :: "nat list" by (simp add: numeral_3_eq_3)
  then show ?thesis using assms by (simp add: fit_cell_def)
qed

section \<open>Grouped digits\<close>

lemma grouped_split:
  "44 \<notin> set s \<Longrightarrow> \<exists>g gs. split_on 44 (grouped_from False s) = g # gs \<and> length g = length s mod 3 \<and>
     list_all (\<lambda>h. length h = 3) gs \<and> g @ concat gs = s"
proof (induction s)
  case (Cons c s)
  obtain g gs where g: "split_on 44 (grouped_from False s) = g # gs" "length g = length s mod 3"
    "list_all (\<lambda>h. length h = 3) gs" "g @ concat gs = s" using Cons by auto
  show ?case
  proof (cases "(length s + 1) mod 3 = 0")
    case True
    then have "length s mod 3 = 2" by presburger
    then show ?thesis using True g Cons.prems by (intro exI [of _ "[]"] exI [of _ "(c # g) # gs"]) simp
  next
    case False
    then have "Suc (length s mod 3) = Suc (length s) mod 3" by presburger
    then show ?thesis using False g Cons.prems by (intro exI [of _ "c # g"] exI [of _ gs]) simp
  qed
qed simp

text \<open>
  a grouped number is its digits, in groups of three separated by commas, the first of one to three.
\<close>

theorem grouped_u64_groups:
  "let groups = split_on 44 (grouped_u64 v) in concat groups = show_word v \<and> hd groups \<noteq> [] \<and> length (hd groups) \<le> 3 \<and>
     list_all (\<lambda>g. length g = 3) (tl groups)"
proof -
  obtain c r where d: "show_word v = c # r" by (cases "show_word v") (simp_all add: show_word_def)
  have "44 \<notin> set (show_word v)" using show_nat_digits [of 44 "unat v"] by (auto simp: show_word_def is_digit_def)
  then have cr: "c \<noteq> 44" "44 \<notin> set r" by (simp_all add: d)
  obtain g gs where g: "split_on 44 (grouped_from False r) = g # gs" "length g = length r mod 3"
    "list_all (\<lambda>h. length h = 3) gs" "g @ concat gs = r" using grouped_split [OF cr(2)] by blast
  have "length r mod 3 < 3" by simp
  then show ?thesis using g cr by (simp add: grouped_u64_def d)
qed

section \<open>Bars fill from the left\<close>

lemma bar_units_le:
  assumes "width < 2 ^ 51"
  shows "bar_units percent width \<le> width * 2"
proof -
  have w: "f64_of_nat (width * 2) = Fin (of_nat (width * 2))" using assms by (intro f64_of_nat_exact) simp
  have "Fin 0 \<le> widget_clamp_percent percent \<and> widget_clamp_percent percent \<le> Fin 100"
    by (cases percent) (auto simp: widget_clamp_percent_def fclamp_def)
  then obtain q where q: "widget_clamp_percent percent = Fin q" "0 \<le> q" "q \<le> 100"
    by (cases "widget_clamp_percent percent") auto
  have "rnd (q / 100) \<le> rnd 1" using q by (intro rnd_mono) simp
  moreover have "Fin 0 \<le> rnd (q / 100)" using q by (intro rnd_nonneg) simp
  ultimately obtain t where t: "rnd (q / 100) = Fin t" "0 \<le> t" "t \<le> 1" by (cases "rnd (q / 100)") auto
  have "rnd (t * of_nat (width * 2)) \<le> rnd (of_nat (width * 2))" using t by (intro rnd_mono) (simp add: mult_left_le_one_le)
  also have "rnd (of_nat (width * 2)) = Fin (of_nat (width * 2))" using w by (simp add: f64_of_nat_def)
  finally have "rnd (t * of_nat (width * 2)) \<le> Fin (of_nat (width * 2))" .
  moreover have "Fin 0 \<le> rnd (t * of_nat (width * 2))" using t by (intro rnd_nonneg) simp
  ultimately obtain u where u: "rnd (t * of_nat (width * 2)) = Fin u" "0 \<le> u" "u \<le> of_nat (width * 2)"
    by (cases "rnd (t * of_nat (width * 2))") auto
  have "\<lfloor>u + 1 / 2\<rfloor> \<le> int (width * 2)" using u(3) by linarith
  then show ?thesis using q t u by (simp add: bar_units_def w fround_def)
qed

text \<open>
  a bar is as wide as asked: full cells, at most one half cell, and empty cells, in this order.
\<close>

theorem bar_shape:
  assumes "width < 2 ^ 51"
  shows "let units = bar_units percent width in units \<le> width * 2 \<and>
    map sn_content (fine_bar_spans label percent width c) =
      replicate (units div 2) [10495] @ (if odd units then [[10439]] else []) @ replicate (width - (units + 1) div 2) [10432]"
proof -
  let ?u = "bar_units percent width"
  have u: "?u \<le> width * 2" by (rule bar_units_le [OF assms])
  have "map sn_content (fine_bar_spans label percent width c) =
      map (\<lambda>cell. [if ?u - cell * 2 = 0 then 10432 else if ?u - cell * 2 = 1 then 10439 else 10495]) [0..<width]"
    by (auto simp: fine_bar_spans_def bar_cell_def Let_def styled_def)
  also have "\<dots> = replicate (?u div 2) [10495] @ (if odd ?u then [[10439]] else []) @ replicate (width - (?u + 1) div 2) [10432]"
  proof (rule nth_equalityI)
    fix i assume "i < length (map (\<lambda>cell. [if ?u - cell * 2 = 0 then 10432 else if ?u - cell * 2 = 1 then 10439 else 10495 :: nat]) [0..<width])"
    then show "map (\<lambda>cell. [if ?u - cell * 2 = 0 then 10432 else if ?u - cell * 2 = 1 then 10439 else 10495]) [0..<width] ! i =
      (replicate (?u div 2) [10495] @ (if odd ?u then [[10439]] else []) @ replicate (width - (?u + 1) div 2) [10432]) ! i"
      using u by (auto simp: nth_append elim!: oddE evenE)
  qed (use u in \<open>auto elim!: oddE evenE\<close>)
  finally show ?thesis using u by (simp add: Let_def)
qed

theorem bar_shape_witness:
  "map sn_content (fine_bar_spans (lit ''GPU'') (Fin 50) 3 WHITE) = [[10495], [10439], [10432]]"
proof -
  have "rnd (1 / 2) = Fin (1 / 2)" by (rule rnd_dyadic [of _ 1 1]) simp_all
  then have "bar_units (Fin 50) 3 = 3"
    by (simp add: bar_units_def widget_clamp_percent_def fclamp_def f64_of_nat_def fround_def floor_num)
  then show ?thesis using bar_shape [of 3 "Fin 50" "lit ''GPU''" WHITE] by (simp add: Let_def)
qed

theorem fit_cell_emoji_overflow_witness:
  "\<exists>dw. fit_cell dw (concat (replicate 3 [0x2764, 0xfe0f])) 4 = concat (replicate 3 [0x2764, 0xfe0f]) @ ELLIPSIS"
proof -
  define dw :: "rstr \<Rightarrow> nat" where "dw s = (if s = [0x2764] then 1 else if s = [0xfe0f] then 0 else if s = concat (replicate 3 [0x2764, 0xfe0f]) then 6 else 7)" for s :: rstr
  have "concat (replicate 3 [0x2764, 0xfe0f :: nat]) = [0x2764, 0xfe0f, 0x2764, 0xfe0f, 0x2764, 0xfe0f]" by (simp add: numeral_3_eq_3)
  then show ?thesis using fit_cell_emoji_overflow [of dw] by (auto simp: dw_def ELLIPSIS_def)
qed

end
