(* ===== verification/TableText.thy ===== *)
theory TableText
  imports Cells
begin

text \<open>
  What the process table draws, from \<^verbatim>\<open>src/ui/processes.rs\<close>: the title, the header, the rows and
  the scroll bar as spans of text with their styles, and the areas that react to the mouse.  The area inside a border
  is a parameter \<open>inner_of\<close>, as is the width \<open>dw\<close> of a text in columns.
\<close>

section \<open>The header\<close>

definition process_sort_name :: "ProcessSortKey \<Rightarrow> rstr" where
  "process_sort_name k = (case k of SortPid \<Rightarrow> lit ''PID'' | SortProgram \<Rightarrow> lit ''PROGRAM'' | SortCpu \<Rightarrow> lit ''CPU''
     | SortMemory \<Rightarrow> lit ''MEM'' | SortThreads \<Rightarrow> lit ''THR'')"

definition sort_arrow :: "bool \<Rightarrow> rstr" where
  "sort_arrow descending = (if descending then [8595] else [8593])"

definition process_header_button :: "rstr \<Rightarrow> ProcessSortKey \<Rightarrow> ProcessSortKey \<Rightarrow> bool \<Rightarrow> nat \<Rightarrow> bool \<Rightarrow> Span" where
  "process_header_button label k active descending width right_align = (let
       is_active = (k = active);
       button = (if is_active then label @ sort_arrow descending else label);
       cell = (if right_align then pad_left width button else pad_right width button)
     in styled cell \<lparr>sy_fg = Some (if is_active then ORK_GREEN else MUTED), sy_bg = (if is_active then Some PROCESS_SELECTED_BG else None),
       sy_bold = True, sy_underlined = is_active\<rparr>)"

definition raw_span :: "rstr \<Rightarrow> Span" where
  "raw_span s = styled s plain_style"

definition number_buttons :: "ProcessSortKey \<Rightarrow> bool \<Rightarrow> Span list" where
  "number_buttons active descending =
     [process_header_button (lit ''CPU'') SortCpu active descending 6 True, raw_span (lit '' ''),
      process_header_button (lit ''MEM'') SortMemory active descending 8 True, raw_span (lit '' ''),
      process_header_button (lit ''THR'') SortThreads active descending 5 True]"

definition process_header_compact :: "nat \<Rightarrow> ProcessSortKey \<Rightarrow> bool \<Rightarrow> Span list" where
  "process_header_compact width active descending = (let program_width = max (width - (7 + 7 + 9 + 6)) 10 in
     [raw_span (lit '' ''), process_header_button (lit ''PID'') SortPid active descending 6 False,
      process_header_button (lit ''PROGRAM'') SortProgram active descending program_width False] @ number_buttons active descending)"

definition header_text :: "nat \<Rightarrow> rstr \<Rightarrow> Span" where
  "header_text width s = styled (pad_right width s) ((fg MUTED)\<lparr>sy_bold := True\<rparr>)"

definition process_header_wide :: "nat \<Rightarrow> ProcessSortKey \<Rightarrow> bool \<Rightarrow> Span list" where
  "process_header_wide width active descending = (let command_width = max (width - (7 + 17 + 7 + 9 + 6 + 7)) 12 in
     [raw_span (lit '' ''), process_header_button (lit ''PID'') SortPid active descending 6 False,
      process_header_button (lit ''PROGRAM'') SortProgram active descending 16 False, header_text command_width (lit ''COMMAND'')]
     @ number_buttons active descending @ [raw_span (lit '' ''), header_text 6 (lit ''GPU'')])"

section \<open>The rows\<close>

definition process_cell_style :: "Color \<Rightarrow> bool \<Rightarrow> bool \<Rightarrow> Style" where
  "process_cell_style c selected bold = (if selected then (fg c)\<lparr>sy_bg := Some PROCESS_SELECTED_BG, sy_bold := True\<rparr>
     else if bold then (fg c)\<lparr>sy_bold := True\<rparr> else fg c)"

definition process_cpu_color :: "f64 \<Rightarrow> Color" where
  "process_cpu_color cpu_pct = (if Fin 100 \<le> cpu_pct then ORANGE else if Fin 50 \<le> cpu_pct then YELLOW
     else if Fin 10 \<le> cpu_pct then BRIGHT_GREEN else ORK_GREEN)"

definition is_llm_process :: "rstr \<Rightarrow> rstr \<Rightarrow> bool" where
  "is_llm_process program command \<longleftrightarrow> contains_sub (lit ''llama'') (lower program) \<or> contains_sub (lit ''orsiktop'') (lower program) \<or>
     contains_sub (lit ''llama'') (lower command) \<or> contains_sub (lit ''orsiktop'') (lower command)"

definition cpu_span :: "f64 \<Rightarrow> bool \<Rightarrow> Span" where
  "cpu_span cpu_pct selected = styled (pad_left 6 (fmt_fixed 1 cpu_pct)) (process_cell_style (process_cpu_color cpu_pct) selected False)"

definition number_spans :: "f64 \<Rightarrow> u64 \<Rightarrow> u64 option \<Rightarrow> bool \<Rightarrow> Span list" where
  "number_spans cpu_pct memory_bytes threads selected = [cpu_span cpu_pct selected,
     styled (lit '' '' @ pad_left 8 (compact_memory memory_bytes)) (process_cell_style CYAN selected False),
     styled (lit '' '' @ pad_left 5 (thread_cell threads)) (process_cell_style MUTED selected False)]"

definition marker_span :: "rstr \<Rightarrow> rstr \<Rightarrow> bool \<Rightarrow> Span" where
  "marker_span marker s selected = styled (marker @ pad_right 6 s) (process_cell_style MUTED selected False)"

definition row_marker :: "bool \<Rightarrow> bool \<Rightarrow> rstr" where
  "row_marker selected child = (if selected then [8250] else if child then [8627] else lit '' '')"

definition group_arrow :: "bool \<Rightarrow> rstr" where
  "group_arrow expanded = (if expanded then [9662] else [9656])"

definition process_group_line_compact :: "(rstr \<Rightarrow> nat) \<Rightarrow> rstr \<Rightarrow> nat \<Rightarrow> f64 \<Rightarrow> u64 \<Rightarrow> u64 option \<Rightarrow> bool \<Rightarrow> bool \<Rightarrow> nat \<Rightarrow> Span list" where
  "process_group_line_compact dw program n cpu_pct memory_bytes threads expanded selected width = (let
       program_width = max (width - (7 + 7 + 9 + 6)) 8;
       program = fit_cell dw (group_arrow expanded @ lit '' '' @ [215] @ show_nat n @ lit '' '' @ program) program_width
     in [marker_span (row_marker selected False) EMPTY_CELL selected,
         styled (pad_cell dw program program_width) (process_cell_style ORK_GREEN selected True)] @ number_spans cpu_pct memory_bytes threads selected)"

definition process_line_compact :: "(rstr \<Rightarrow> nat) \<Rightarrow> ProcessStats \<Rightarrow> nat \<Rightarrow> bool \<Rightarrow> bool \<Rightarrow> Span list" where
  "process_line_compact dw p width selected child = (let
       program_width = max (width - (7 + 7 + 9 + 6)) 8;
       program = fit_cell dw (ps_program p) program_width;
       program_bold = is_llm_process (ps_program p) (ps_command p)
     in [marker_span (row_marker selected child) (show_word (ps_pid p)) selected,
         styled (pad_cell dw program program_width) (process_cell_style (if program_bold then ORK_GREEN else MUTED) selected program_bold)]
       @ number_spans (ps_cpu_pct p) (ps_memory_bytes p) (ps_threads p) selected)"

definition gpu_span :: "u64 \<Rightarrow> bool \<Rightarrow> Span" where
  "gpu_span bytes selected = styled (lit '' '' @ pad_left 6 (gpu_cell bytes)) (process_cell_style CYAN selected False)"

definition process_group_line_wide ::
  "(rstr \<Rightarrow> nat) \<Rightarrow> rstr \<Rightarrow> nat \<Rightarrow> f64 \<Rightarrow> u64 \<Rightarrow> u64 \<Rightarrow> u64 option \<Rightarrow> bool \<Rightarrow> bool \<Rightarrow> nat \<Rightarrow> Span list" where
  "process_group_line_wide dw program n cpu_pct memory_bytes gpu_mem threads expanded selected width = (let
       command_width = max (width - (7 + 17 + 7 + 9 + 6 + 7)) 12;
       program = fit_cell dw (group_arrow expanded @ lit '' '' @ program) 16;
       command = fit_cell dw ([215] @ show_nat n @ lit '' '' @ [183] @ lit '' '' @ show_nat n @ lit '' processes'') command_width
     in [marker_span (row_marker selected False) EMPTY_CELL selected,
         styled (pad_cell dw program 16) (process_cell_style ORK_GREEN selected True),
         styled (pad_cell dw command command_width) (process_cell_style MUTED selected False)]
       @ number_spans cpu_pct memory_bytes threads selected @ [gpu_span gpu_mem selected])"

definition process_line_wide :: "(rstr \<Rightarrow> nat) \<Rightarrow> ProcessStats \<Rightarrow> nat \<Rightarrow> bool \<Rightarrow> bool \<Rightarrow> Span list" where
  "process_line_wide dw p width selected child = (let
       command_width = max (width - (7 + 17 + 7 + 9 + 6 + 7)) 12;
       program = fit_cell dw (ps_program p) 16;
       command = fit_cell dw (ps_command p) command_width;
       program_bold = is_llm_process (ps_program p) (ps_command p)
     in [marker_span (row_marker selected child) (show_word (ps_pid p)) selected,
         styled (pad_cell dw program 16) (process_cell_style (if program_bold then ORK_GREEN else MUTED) selected program_bold),
         styled (pad_cell dw command command_width) (process_cell_style MUTED selected False)]
       @ number_spans (ps_cpu_pct p) (ps_memory_bytes p) (ps_threads p) selected @ [gpu_span (gpu_bytes p) selected])"

section \<open>The table\<close>

datatype Widget = BlockWidget rstr | ParagraphWidget "Span list list"

definition scrollbar_lines :: "nat \<Rightarrow> nat \<Rightarrow> nat \<Rightarrow> nat \<Rightarrow> Span list list" where
  "scrollbar_lines track start visible n = (let
       thumb_len = f64_to_nat 64 (fmin (fmax (fround (fmul (fdiv (f64_of_nat visible) (f64_of_nat n)) (f64_of_nat track))) (Fin 1)) (f64_of_nat track));
       max_start = max (n - visible) 1;
       thumb_start = f64_to_nat 64 (fround (fmul (fdiv (f64_of_nat start) (f64_of_nat max_start)) (f64_of_nat (track - thumb_len))))
     in map (\<lambda>row. let in_thumb = (thumb_start \<le> row \<and> row < thumb_start + thumb_len) in
         [styled (if in_thumb then [9608] else [9474]) (fg (if in_thumb then ORK_GREEN else INNER_GREEN))]) [0..<track])"

definition draw_process_scrollbar :: "Rect \<Rightarrow> nat \<Rightarrow> nat \<Rightarrow> nat \<Rightarrow> (Rect \<times> Widget) list" where
  "draw_process_scrollbar area start visible n = (if rc_height area = 0 \<or> visible = 0 \<or> n \<le> visible then []
     else [(area, ParagraphWidget (scrollbar_lines (unat (rc_height area)) start visible n))])"

definition row_line :: "(rstr \<Rightarrow> nat) \<Rightarrow> Table \<Rightarrow> nat \<Rightarrow> bool \<Rightarrow> ProcessDisplayRow \<Rightarrow> Span list" where
  "row_line dw t table_width wide row = (case row of
       RowProcess p child \<Rightarrow> let is_selected = (tb_selected_pid t = Some (identity_of p) \<or> tb_pinned_pid t = Some (identity_of p)) in
         if wide then process_line_wide dw p table_width is_selected child else process_line_compact dw p table_width is_selected child
     | RowGroup program n cpu_pct memory_bytes gpu_mem threads expanded \<Rightarrow>
         let is_selected = (tb_selected_group t = Some program \<or> tb_pinned_group t = Some program) in
         if wide then process_group_line_wide dw program n cpu_pct memory_bytes gpu_mem threads expanded is_selected table_width
         else process_group_line_compact dw program n cpu_pct memory_bytes threads expanded is_selected table_width)"

definition process_title :: "(rstr \<Rightarrow> nat) \<Rightarrow> ProcessStats list \<Rightarrow> ProcessStats option \<Rightarrow> Table \<Rightarrow> nat \<Rightarrow> nat \<Rightarrow> nat \<Rightarrow> rstr" where
  "process_title dw processes pinned t row_total start scroll_visible = (let
       search_query = process_search_query t; sep = lit '' '' @ [183] @ lit '' '';
       sort_text = lit ''SORT '' @ process_sort_name (tb_sort_key t) @ lit '' '' @ sort_arrow (tb_sort_desc t);
       process_total = length processes;
       matched = (case search_query of Some query \<Rightarrow> length (filter (\<lambda>p. process_matches_search p query) processes) | None \<Rightarrow> process_total);
       process_count = (if search_query \<noteq> None then show_nat matched @ lit ''/'' @ show_nat process_total else show_nat process_total) @ lit '' PROC'';
       search_title = (if tb_search_open t \<or> search_query \<noteq> None then sep @ lit ''/'' @ fit_cell dw (tb_search_query t) 18 else []);
       range = (if scroll_visible = 0 \<or> row_total = 0 then lit ''0''
         else show_nat (start + 1) @ [8211] @ show_nat (min (start + scroll_visible) row_total));
       ending = sort_text @ sep @ range @ lit ''/'' @ show_nat row_total @ sep @ process_count @ lit '' ''
     in lit '' PROCESSES'' @ search_title @ sep @
       (if process_total = 0 then sort_text @ sep @ lit ''0 ''
        else case pinned of Some p \<Rightarrow> lit ''PIN '' @ show_word (ps_pid p) @ sep @ ending
        | None \<Rightarrow> (case tb_pinned_group t of Some program \<Rightarrow> lit ''PIN GROUP '' @ program @ sep @ ending | None \<Rightarrow> ending)))"

text \<open>The part of the rows that is in view, and what it changes of the state.\<close>

definition pinned_count :: "ProcessStats option \<Rightarrow> ProcessDisplayRow list \<Rightarrow> nat \<Rightarrow> nat" where
  "pinned_count pinned pinned_rows visible = (if pinned \<noteq> None \<and> 0 < visible then 1 else 0) + length pinned_rows"

definition scroll_window :: "Rect \<Rightarrow> ProcessStats option \<Rightarrow> ProcessDisplayRow list \<Rightarrow> ProcessDisplayRow list \<Rightarrow> Table \<Rightarrow> Table" where
  "scroll_window area pinned pinned_rows rows t = (let
       visible = unat (sat_sub (rc_height area) 3);
       scroll_visible = visible - pinned_count pinned pinned_rows visible
     in t\<lparr>tb_pane := Some area, tb_display_total := length rows, tb_scroll_visible := scroll_visible,
       tb_scroll := min (tb_scroll t) (length rows - scroll_visible)\<rparr>)"

definition visible_rows :: "ProcessStats option \<Rightarrow> ProcessDisplayRow list \<Rightarrow> ProcessDisplayRow list \<Rightarrow> Table \<Rightarrow> ProcessDisplayRow list" where
  "visible_rows pinned pinned_rows rows t = (case pinned of Some p \<Rightarrow> [RowProcess p False] | None \<Rightarrow> []) @ pinned_rows @
     take (tb_scroll_visible t) (drop (tb_scroll t) rows)"

definition table_width_of :: "Rect \<Rightarrow> ProcessDisplayRow list \<Rightarrow> Table \<Rightarrow> u16" where
  "table_width_of inner rows t = sat_sub (rc_width inner) (if tb_scroll_visible t < length rows \<and> 0 < tb_scroll_visible t then 1 else 0)"

definition body_of :: "Rect \<Rightarrow> u16 \<Rightarrow> Rect" where
  "body_of inner table_width = \<lparr>rc_x = rc_x inner, rc_y = sat_add (rc_y inner) 1, rc_width = table_width, rc_height = sat_sub (rc_height inner) 1\<rparr>"

definition no_rows_line :: "Table \<Rightarrow> Span list" where
  "no_rows_line t = [styled (case process_search_query t of Some query \<Rightarrow> lit '' no processes match /'' @ query
     | None \<Rightarrow> lit '' waiting for process samples'' @ ELLIPSIS) (fg MUTED)]"

text \<open>The areas that react, and the lines of the rows.\<close>

definition with_hits :: "Rect \<Rightarrow> u16 \<Rightarrow> ProcessDisplayRow list \<Rightarrow> Table \<Rightarrow> Table" where
  "with_hits inner table_width shown t = t\<lparr>tb_header_hits := process_header_hits inner table_width (96 \<le> table_width),
     tb_rows := Some \<lparr>rh_rect = body_of inner table_width, rh_targets = map process_row_target shown\<rparr>\<rparr>"

definition body_lines :: "(rstr \<Rightarrow> nat) \<Rightarrow> Table \<Rightarrow> u16 \<Rightarrow> ProcessDisplayRow list \<Rightarrow> Span list list" where
  "body_lines dw t table_width shown = (if shown = [] then [no_rows_line t] else map (row_line dw t (unat table_width) (96 \<le> table_width)) shown)"

definition header_line :: "Table \<Rightarrow> u16 \<Rightarrow> Span list" where
  "header_line t table_width = (if 96 \<le> table_width then process_header_wide (unat table_width) (tb_sort_key t) (tb_sort_desc t)
     else process_header_compact (unat table_width) (tb_sort_key t) (tb_sort_desc t))"

definition table_scrollbar :: "Rect \<Rightarrow> Rect \<Rightarrow> nat \<Rightarrow> ProcessDisplayRow list \<Rightarrow> Table \<Rightarrow> (Rect \<times> Widget) list" where
  "table_scrollbar inner body pinned_rows_drawn rows t = (if tb_scroll_visible t < length rows \<and> 0 < tb_scroll_visible t
     then draw_process_scrollbar \<lparr>rc_x = sat_add (rc_x inner) (sat_sub (rc_width inner) 1), rc_y = sat_add (rc_y body) (of_nat pinned_rows_drawn),
       rc_width = 1, rc_height = sat_sub (rc_height body) (of_nat pinned_rows_drawn)\<rparr> (tb_scroll t) (tb_scroll_visible t) (length rows) else [])"

definition draw_processes :: "(rstr \<Rightarrow> nat) \<Rightarrow> (Rect \<Rightarrow> Rect) \<Rightarrow> Rect \<Rightarrow> ProcessStats list \<Rightarrow> Table \<Rightarrow> (Rect \<times> Widget) list \<times> Table" where
  "draw_processes dw inner_of area processes t = (case table_rows processes t of (pinned, pinned_rows, rows) \<Rightarrow> (let
       t = scroll_window area pinned pinned_rows rows t;
       block = (area, BlockWidget (process_title dw processes pinned t (length rows) (tb_scroll t) (tb_scroll_visible t)));
       inner = inner_of area
     in if rc_width inner < 30 \<or> rc_height inner < 2 then ([block], t)
        else let table_width = table_width_of inner rows t;
            shown = visible_rows pinned pinned_rows rows t;
            body = body_of inner table_width;
            t = with_hits inner table_width shown t;
            visible = unat (sat_sub (rc_height area) 3)
          in ([block, (\<lparr>rc_x = rc_x inner, rc_y = rc_y inner, rc_width = table_width, rc_height = 1\<rparr>, ParagraphWidget [header_line t table_width]),
               (body, ParagraphWidget (body_lines dw t table_width shown))]
              @ table_scrollbar inner body (pinned_count pinned pinned_rows visible) rows t, t)))"

section \<open>A click hits the row that is drawn there\<close>

lemma unat_sat_add_small: "unat a + unat b < 2 ^ LENGTH('a) \<Longrightarrow> unat (sat_add a b) = unat a + unat b" for a b :: "'a::len word"
  by (simp add: sat_simps)

lemma draw_processes_large:
  assumes "draw_processes dw inner_of area processes t = (widgets, t')" "1 < length widgets"
  shows "\<exists>w shown u. t' = with_hits (inner_of area) w shown u \<and>
    widgets ! 2 = (body_of (inner_of area) w, ParagraphWidget (body_lines dw t' w shown))"
  using assms by (auto simp: draw_processes_def Let_def split: prod.splits if_splits; blast)

text \<open>
  every line of the table is drawn where a click on it is recognised: the line of row \<open>i\<close> is painted \<open>i\<close> lines below the
  header, and a click there on any column of the table selects the process or group of that row.
\<close>

theorem click_hits_drawn_row:
  assumes "draw_processes dw inner_of area processes t = (widgets, t')" "1 < length widgets"
    and "widgets ! 2 = (body, ParagraphWidget drawn)" "tb_rows t' = Some hit" "i < length (rh_targets hit)"
    and "rect_contains body x y" "unat y = unat (rc_y body) + i"
  shows "\<exists>row. row_at x y t' = Some (process_row_target row) \<and> drawn ! i = row_line dw t' (unat (rc_width body)) (96 \<le> rc_width body) row"
proof -
  obtain w shown u where d: "t' = with_hits (inner_of area) w shown u" "body = body_of (inner_of area) w" "drawn = body_lines dw t' w shown"
    using draw_processes_large [OF assms(1,2)] assms(3) by auto
  have h: "rh_rect hit = body" "rh_targets hit = map process_row_target shown" "rc_width body = w"
    using assms(4) by (auto simp: d with_hits_def body_of_def)
  have "unat (sat_sub y (rc_y body)) = i" using assms(7) by (simp add: sat_simps)
  then have "row_at x y t' = Some (process_row_target (shown ! i))"
    using assms(4-6) h by (simp add: row_at_def)
  moreover have "drawn ! i = row_line dw t' (unat w) (96 \<le> w) (shown ! i)"
    using assms(5) h(2) by (auto simp: d(3) body_lines_def)
  ultimately show ?thesis using h(3) by blast
qed

section \<open>Columns\<close>

definition plain_char :: "rchar \<Rightarrow> bool" where
  "plain_char c \<longleftrightarrow> (32 \<le> c \<and> c < 127) \<or> c \<in> set [8212, 8250, 8627, 8593, 8595]"

text \<open>
  What the columns rely on: printable ASCII characters and the five signs of the table take one column each, a text is
  no wider than its characters, and spaces add up.
\<close>

definition table_measure :: "(rstr \<Rightarrow> nat) \<Rightarrow> rstr \<Rightarrow> bool" where
  "table_measure dw s \<longleftrightarrow> (\<forall>u. list_all plain_char u \<longrightarrow> dw u = length u) \<and> char_measured dw s \<and> (\<forall>u n. dw (u @ replicate n 32) = dw u + n)"

lemma plain_digits: "list_all plain_char (show_nat n)"
proof -
  have "plain_char c" if "is_digit c" for c using that by (auto simp: plain_char_def is_digit_def)
  then show ?thesis using show_nat_digits [of _ n] by (auto simp: list_all_iff)
qed

lemma plain_replicate [simp]: "list_all plain_char (replicate n 32)" "list_all plain_char (replicate n 48)"
  by (simp_all add: list_all_iff plain_char_def)

lemma plain_pads [simp]:
  "list_all plain_char (pad_left n s) = list_all plain_char s" "list_all plain_char (pad_right n s) = list_all plain_char s"
  "list_all plain_char (zero_left n s) = list_all plain_char s"
  by (simp_all add: pad_left_def pad_right_def zero_left_def)

lemma plain_lits: "list_all plain_char (lit ''.'')" "list_all plain_char (lit ''-'')" "list_all plain_char (lit ''NaN'')"
  "list_all plain_char (lit ''inf'')" "list_all plain_char (lit ''-inf'')" "list_all plain_char (lit ''G'')" "list_all plain_char (lit ''M'')"
  "list_all plain_char (lit ''K'')" "list_all plain_char (lit ''B'')" "list_all plain_char (lit '' '')" "list_all plain_char EMPTY_CELL"
  by (simp_all add: plain_char_def lit_def EMPTY_CELL_def)

lemma plain_cells: "list_all plain_char (fmt_fixed d x)" "list_all plain_char (compact_memory m)" "list_all plain_char (thread_cell n)"
  "list_all plain_char (show_word w)" "list_all plain_char (row_marker selected child)"
proof -
  show f: "list_all plain_char (fmt_fixed d x)" for d x
    by (cases x) (simp_all add: fmt_fixed_def Let_def plain_digits plain_lits)
  show "list_all plain_char (compact_memory m)" by (simp add: compact_memory_def Let_def f plain_lits show_word_def plain_digits)
  show "list_all plain_char (thread_cell n)" by (cases n) (simp_all add: thread_cell_def plain_lits show_word_def plain_digits)
  show "list_all plain_char (show_word w)" by (simp add: show_word_def plain_digits)
  show "list_all plain_char (row_marker selected child)" by (simp add: row_marker_def plain_lits) (simp add: plain_char_def)
qed

lemma pad_lengths: "length s \<le> n \<Longrightarrow> length (pad_left n s) = n" "length s \<le> n \<Longrightarrow> length (pad_right n s) = n"
  by (simp_all add: pad_left_def pad_right_def)

text \<open>The numbers of a row fit their columns.\<close>

definition numbers_fit :: "ProcessStats \<Rightarrow> bool" where
  "numbers_fit p \<longleftrightarrow> length (show_word (ps_pid p)) \<le> 6 \<and> length (fmt_fixed 1 (ps_cpu_pct p)) \<le> 6 \<and>
     length (compact_memory (ps_memory_bytes p)) \<le> 8 \<and> length (thread_cell (ps_threads p)) \<le> 5"

lemma table_measure_plain: "table_measure dw s \<Longrightarrow> list_all plain_char u \<Longrightarrow> dw u = length u"
  by (simp add: table_measure_def)

lemma number_columns:
  assumes "table_measure dw s" "numbers_fit p"
  shows "map (\<lambda>c. dw (sn_content c)) (number_spans (ps_cpu_pct p) (ps_memory_bytes p) (ps_threads p) selected) = [6, 9, 6]"
    and "dw (sn_content (marker_span (row_marker selected child) (show_word (ps_pid p)) selected)) = 7"
  using assms(2) by (auto simp: number_spans_def cpu_span_def marker_span_def styled_def numbers_fit_def pad_lengths row_marker_def
    table_measure_plain [OF assms(1)] plain_cells plain_lits plain_char_def lit_def)

lemma fitted_column:
  assumes "table_measure dw s" "0 < w"
  shows "dw (pad_cell dw (fit_cell dw s w) w) = w"
proof -
  have "dw (fit_cell dw s w) \<le> w" using assms by (intro fit_cell_width) (simp add: table_measure_def)
  then have "fit_cell dw (fit_cell dw s w) w = fit_cell dw s w" using assms(2) by (simp add: fit_cell_def [of _ "fit_cell dw s w"])
  then show ?thesis using \<open>dw (fit_cell dw s w) \<le> w\<close> assms(1) by (simp add: pad_cell_def Let_def table_measure_def)
qed

lemma header_hit_widths:
  "map (\<lambda>h. unat (rc_width (hh_rect h))) (process_header_hits inner w False) = [7, max (unat w - 29) 8, 6, 9, 6]"
proof -
  have "max (unat w - 29) 8 < 2 ^ 16" using unsigned_less [of w, where ?'a = nat] by simp
  then have "unat (of_nat (max (unat w - 29) 8) :: u16) = max (unat w - 29) 8" by (simp add: unat_of_nat take_bit_nat_eq_self)
  then show ?thesis by (simp add: process_header_hits_def Let_def header_hit_def)
qed

text \<open>
  in the narrow table the columns of a process row are as wide as the areas of the header that sort by them, whatever
  the name of the program, as long as the numbers fit.
\<close>

theorem row_columns:
  assumes "table_measure dw (ps_program p)" "numbers_fit p"
  shows "map (\<lambda>c. dw (sn_content c)) (process_line_compact dw p (unat w) selected child) =
    map (\<lambda>h. unat (rc_width (hh_rect h))) (process_header_hits inner w False)"
proof -
  have "dw (pad_cell dw (fit_cell dw (ps_program p) n) n) = n" if "n = max (unat w - 29) 8" for n
    using that by (intro fitted_column [OF assms(1)]) simp
  then show ?thesis using number_columns [OF assms]
    by (simp add: process_line_compact_def Let_def header_hit_widths styled_def)
qed

text \<open>
  the labels of the narrow header stand over these areas only from a table width of 39 on: below, the column of the
  program is given ten columns in the header and eight in the rows and the areas.
\<close>

theorem compact_header_shifted:
  assumes "table_measure dw s"
  shows "sum_list (map (\<lambda>c. dw (sn_content c)) (take 3 (process_header_compact (unat w) k d))) =
      sum_list (map (\<lambda>h. unat (rc_width (hh_rect h))) (take 2 (process_header_hits inner w False))) \<longleftrightarrow> 39 \<le> unat w"
proof -
  have b: "dw (sn_content (process_header_button label j k d n False)) = n"
    if "length label + 1 \<le> n" "list_all plain_char label" for label j n
    using that by (auto simp: process_header_button_def Let_def styled_def table_measure_plain [OF assms] sort_arrow_def plain_char_def pad_lengths)
  have "dw (sn_content (raw_span (lit '' ''))) = 1" by (simp add: raw_span_def styled_def table_measure_plain [OF assms] plain_lits) (simp add: lit_def)
  moreover have "dw (sn_content (process_header_button (lit ''PID'') SortPid k d 6 False)) = 6"
    "dw (sn_content (process_header_button (lit ''PROGRAM'') SortProgram k d (max (unat w - 29) 10) False)) = max (unat w - 29) 10"
    by (rule b; simp add: lit_def plain_char_def)+
  moreover have "sum_list (map (\<lambda>h. unat (rc_width (hh_rect h))) (take 2 (process_header_hits inner w False))) = 7 + max (unat w - 29) 8"
    using header_hit_widths [of inner w] by (simp add: take_map [symmetric])
  ultimately show ?thesis by (auto simp: process_header_compact_def Let_def)
qed

lemma columns_measure: "table_measure columns s"
proof -
  have "columns u = length u" if "list_all plain_char u" for u
    using that by (induction u) (auto simp: columns_def plain_char_def)
  moreover have "columns (u @ replicate n 32) = columns u + n" for u n by (simp add: columns_def sum_list_replicate)
  moreover have "char_measured columns s" by (simp add: char_measured_def columns_def ELLIPSIS_def list_all_iff)
  ultimately show ?thesis by (simp add: table_measure_def)
qed

definition sample_listed :: ProcessStats where
  "sample_listed = \<lparr>ps_pid = 4711, ps_program = [0x6f22, 0x5b57, 97], ps_command = lit ''a'', ps_cpu_pct = Fin 50,
     ps_memory_bytes = 2048, ps_threads = Some 3, ps_start_time = 1, ps_gpu = []\<rparr>"

theorem row_columns_witness:
  "map (\<lambda>c. columns (sn_content c)) (process_line_compact columns sample_listed 40 False True) = [7, 11, 6, 9, 6]"
proof -
  have "numbers_fit sample_listed"
    using round_half_even_int [of 500] round_half_even_int [of 2]
    by (simp add: numbers_fit_def sample_listed_def fmt_fixed_def compact_memory_def f64_of_u64_def f64_of_nat_def Let_def thread_cell_def
        show_word_def show_nat.simps zero_left_def lit_def)
  from row_columns [OF columns_measure this, of 40] show ?thesis by (simp add: header_hit_widths)
qed

theorem compact_header_shifted_witness:
  "\<not> sum_list (map (\<lambda>c. columns (sn_content c)) (take 3 (process_header_compact 38 SortCpu True))) =
      sum_list (map (\<lambda>h. unat (rc_width (hh_rect h))) (take 2 (process_header_hits \<lparr>rc_x = 0, rc_y = 0, rc_width = 38, rc_height = 5\<rparr> 38 False)))"
  using compact_header_shifted [OF columns_measure, of 38 SortCpu True "\<lparr>rc_x = 0, rc_y = 0, rc_width = 38, rc_height = 5\<rparr>"] by simp

lemma sort_one: "Sorting_Algorithms.sort c [x] = [x]"
proof -
  have "mset (Sorting_Algorithms.sort c [x]) = {#x#}" by simp
  then show ?thesis by (metis mset_single_iff_right)
qed

text \<open>A screen of 80 columns and 12 lines with one process in the table.\<close>

abbreviation (input) sample_area :: Rect where
  "sample_area \<equiv> \<lparr>rc_x = 0, rc_y = 0, rc_width = 80, rc_height = 12\<rparr>"

abbreviation (input) sample_inner :: Rect where
  "sample_inner \<equiv> \<lparr>rc_x = 1, rc_y = 1, rc_width = 78, rc_height = 10\<rparr>"

theorem click_hits_drawn_row_witness:
  "\<exists>row. row_at 5 2 (snd (draw_processes columns (\<lambda>_. sample_inner) sample_area [sample_listed] table_start)) = Some (process_row_target row)"
proof -
  have r: "table_rows [sample_listed] table_start = (None, [], [RowProcess sample_listed False])"
    by (simp add: table_rows_def grouped_process_rows_filtered_def sorted_processes_with_pin_def sorted_processes_def sort_one
        groups_of_def new_group_def sort_groups_def group_rows_def take_pinned_group_rows_def table_start_def process_search_query_def Let_def)
  let ?d = "draw_processes columns (\<lambda>_. sample_inner) sample_area [sample_listed] table_start"
  obtain widgets t' where d: "?d = (widgets, t')" by (cases ?d) simp
  let ?rows = "[RowProcess sample_listed False]"
  define u where "u = scroll_window sample_area None [] ?rows table_start"
  have "sat_sub 12 (3 :: u16) = 9" by (simp add: sat_sub_def)
  then have u: "tb_scroll_visible u = 9" "tb_scroll u = 0"
    by (simp_all add: u_def scroll_window_def pinned_count_def Let_def table_start_def)
  then have w: "table_width_of sample_inner ?rows u = 78" "visible_rows None [] ?rows u = ?rows"
    by (simp_all add: table_width_of_def visible_rows_def sat_sub_def)
  have e: "t' = with_hits sample_inner 78 ?rows u" "1 < length widgets"
    "widgets ! 2 = (body_of sample_inner 78, ParagraphWidget (body_lines columns t' 78 ?rows))"
    using d by (auto simp: draw_processes_def r Let_def u_def [symmetric] w)
  have b: "body_of sample_inner 78 = \<lparr>rc_x = 1, rc_y = 2, rc_width = 78, rc_height = 9\<rparr>"
    by (simp add: body_of_def sat_sub_def sat_add_def)
  have "\<exists>row. row_at 5 2 t' = Some (process_row_target row) \<and>
      body_lines columns t' 78 ?rows ! 0 = row_line columns t' (unat (rc_width (body_of sample_inner 78))) (96 \<le> rc_width (body_of sample_inner 78)) row"
    by (rule click_hits_drawn_row [OF d e(2,3), where i = 0 and hit = "\<lparr>rh_rect = body_of sample_inner 78, rh_targets = map process_row_target ?rows\<rparr>"]) (simp_all add: e(1) with_hits_def b rect_contains_def sat_add_def)
  then show ?thesis using d by auto
qed

end
