(* ===== verification/Paint.thy ===== *)
theory Paint
  imports TableText History
begin

text \<open>
  What the panels draw, shared by the theories of \<^verbatim>\<open>src/ui/\<close>: a frame is the list of the widgets in
  the order they are rendered, each with its area.  The area inside a border, the split of an area into parts and the
  width of a text are ratatui's, and fields of the parameter record \<open>Ratatui\<close>.
\<close>

datatype Border = AllBorders | Borders bool bool

datatype Constraint = Percentage nat | Fixed nat | AtLeast nat

datatype Direction = Horizontal | Vertical

record Ratatui =
  rt_inner :: "Border \<Rightarrow> Rect \<Rightarrow> Rect"
  rt_split :: "Direction \<Rightarrow> Constraint list \<Rightarrow> Rect \<Rightarrow> nat \<Rightarrow> Rect"
  rt_width :: "rstr \<Rightarrow> nat"

text \<open>
  \<^verbatim>\<open>Borders right bottom\<close> are single edges; a block has a title of spans and a border colour.  A text can start
  below its first line, or carry its own block.
\<close>

datatype Paint = PaintBlock "Span list" Border Color | PaintText "Span list list" Style | PaintScrolled "Span list list" nat
  | PaintFramed "Span list" Border Color "Span list list" Style | PaintFill Color | PaintClear

type_synonym frame = "(Rect \<times> Paint) list"

definition DIM_GREEN :: Color where "DIM_GREEN = Rgb 70 135 60"
definition BG_BLACK :: Color where "BG_BLACK = Rgb 0 0 0"

definition rect :: "u16 \<Rightarrow> u16 \<Rightarrow> u16 \<Rightarrow> u16 \<Rightarrow> Rect" where
  "rect x y w h = \<lparr>rc_x = x, rc_y = y, rc_width = w, rc_height = h\<rparr>"

definition bold :: "Color \<Rightarrow> Style" where
  "bold c = (fg c)\<lparr>sy_bold := True\<rparr>"

definition paint_lines :: "Span list list \<Rightarrow> Paint" where
  "paint_lines ls = PaintText ls plain_style"

definition boxed :: "Ratatui \<Rightarrow> Span list \<Rightarrow> Rect \<Rightarrow> Rect \<times> frame" where
  "boxed rt title area = (rt_inner rt AllBorders area, [(area, PaintBlock title AllBorders DIM_GREEN)])"

text \<open>The characters of a line of spans.\<close>

definition line_text :: "Span list \<Rightarrow> rstr" where
  "line_text ss = concat (map sn_content ss)"

definition line_length :: "Span list \<Rightarrow> nat" where
  "line_length ss = length (line_text ss)"

lemma line_length_simps [simp]:
  "line_length [] = 0" "line_length (s # ss) = length (sn_content s) + line_length ss" "line_length (ss @ ts) = line_length ss + line_length ts"
  by (simp_all add: line_length_def line_text_def)

lemma span_lengths [simp]: "length (sn_content (styled s st)) = length s" "length (sn_content (label_span s)) = length s"
  "length (sn_content (value_span s c)) = length s" "length (sn_content (raw_span s)) = length s"
  by (simp_all add: styled_def label_span_def value_span_def raw_span_def)

lemma pad_right_length: "length (pad_right w s) = max w (length s)"
  by (simp add: pad_right_def)

lemma pad_left_length: "length (pad_left w s) = max w (length s)"
  by (simp add: pad_left_def)

lemma join_Cons: "join sep (p # ps) = p @ concat (map ((@) sep) ps)"
  by (induction ps arbitrary: p) simp_all

lemma join_length: "length (join sep ps) = sum_list (map length ps) + length sep * (length ps - 1)"
  by (cases ps) (simp_all add: join_Cons length_concat comp_def sum_list_addf sum_list_triv mult.commute)

text \<open>For examples: borders that take one cell on each side, an area that is not split, one cell for each character.\<close>

definition example_ratatui :: Ratatui where
  "example_ratatui = \<lparr>rt_inner = (\<lambda>_ r. rect (rc_x r + 1) (rc_y r + 1) (rc_width r - 2) (rc_height r - 2)), rt_split = (\<lambda>_ _ r _. r), rt_width = length\<rparr>"

end
