(* ===== verification/HistoryText.thy ===== *)
theory HistoryText
  imports Paint
begin

text \<open>
  The graphs of \<^verbatim>\<open>src/ui/history.rs\<close>: a history resampled to two columns of dots for each cell, drawn
  with four rows of braille dots to a line, under a header with the latest reading.
\<close>

unbundle bit_operations_syntax

section \<open>Braille\<close>

definition braille_bit :: "nat \<Rightarrow> nat \<Rightarrow> 8 word" where
  "braille_bit x y = (if (x, y) = (0, 0) then 0x01 else if (x, y) = (0, 1) then 0x02 else if (x, y) = (0, 2) then 0x04
     else if (x, y) = (0, 3) then 0x40 else if (x, y) = (1, 0) then 0x08 else if (x, y) = (1, 1) then 0x10
     else if (x, y) = (1, 2) then 0x20 else if (x, y) = (1, 3) then 0x80 else 0)"

definition braille_char :: "8 word \<Rightarrow> rchar" where
  "braille_char dots = (if dots = 0 then 32 else 0x2800 + unat dots)"

definition filled_dots :: "f64 \<Rightarrow> nat \<Rightarrow> f64 \<Rightarrow> nat" where
  "filled_dots scale_max sub_height v = (let
       normalized = fclamp (Fin 0) (Fin 1) (fdiv v scale_max);
       filled = f64_to_nat 64 (fround (fmul normalized (f64_of_nat sub_height)));
       filled = (if Fin 0 < v \<and> filled = 0 then 1 else filled)
     in min filled sub_height)"

definition dot_step :: "f64 \<Rightarrow> nat \<Rightarrow> f64 option list \<Rightarrow> nat \<Rightarrow> nat \<Rightarrow> 8 word \<Rightarrow> nat \<Rightarrow> 8 word" where
  "dot_step scale_max sub_height cols cell_x cell_y dots dot_x = (case cols ! (cell_x * 2 + dot_x) of None \<Rightarrow> dots
     | Some v \<Rightarrow> let start = sub_height - filled_dots scale_max sub_height v in
         foldl (\<lambda>dots dot_y. if start \<le> cell_y * 4 + dot_y then dots OR braille_bit dot_x dot_y else dots) dots [0..<4])"

definition cell_mask :: "f64 \<Rightarrow> nat \<Rightarrow> f64 option list \<Rightarrow> nat \<Rightarrow> nat \<Rightarrow> 8 word" where
  "cell_mask scale_max sub_height cols cell_y cell_x = foldl (dot_step scale_max sub_height cols cell_x cell_y) 0 [0..<2]"

definition trend_lines_scaled :: "TimedSample list \<Rightarrow> nat \<Rightarrow> nat \<Rightarrow> Color \<Rightarrow> f64 \<Rightarrow> instant \<Rightarrow> Span list list" where
  "trend_lines_scaled h width height color scale_max now = (let
       width = max width 1; height = max height 1; scale_max = fmax scale_max EPSILON;
       cols = resample_history h (width * 2) now; sub_height = height * 4
     in map (\<lambda>cell_y. [styled (map (\<lambda>cell_x. braille_char (cell_mask scale_max sub_height cols cell_y cell_x)) [0..<width]) (fg color)])
       [0..<height])"

text \<open>
  Unicode numbers the dots of a braille cell down the left column, then down the right one, and the two of the added
  fourth row last.  \<open>dot_lit\<close> reads a drawn character back.
\<close>

definition braille_index :: "nat \<Rightarrow> nat \<Rightarrow> nat" where
  "braille_index x y = (if y = 3 then 6 + x else 3 * x + y)"

definition dot_lit :: "rchar \<Rightarrow> nat \<Rightarrow> nat \<Rightarrow> bool" where
  "dot_lit c x y \<longleftrightarrow> c \<noteq> 32 \<and> bit (of_nat (c - 0x2800) :: 8 word) (braille_index x y)"

lemma dot_lit_char [simp]: "dot_lit (braille_char w) x y = bit w (braille_index x y)"
  by (simp add: dot_lit_def braille_char_def)

lemma braille_bit_eq: "x < 2 \<Longrightarrow> y < 4 \<Longrightarrow> braille_bit x y = 2 ^ braille_index x y"
  by (auto simp: braille_bit_def braille_index_def less_Suc_eq numeral_eq_Suc)

lemma braille_index_place:
  assumes "x < 2" "y < 4"
  shows "(if braille_index x y < 6 then (braille_index x y div 3, braille_index x y mod 3) else (braille_index x y - 6, 3)) = (x, y)"
    "braille_index x y < 8"
  using assms by (auto simp: braille_index_def)

lemma braille_index_inj:
  assumes "x < 2" "y < 4" "x' < 2" "y' < 4"
  shows "braille_index x y = braille_index x' y' \<longleftrightarrow> x = x' \<and> y = y'"
  using braille_index_place(1) [OF assms(1,2)] braille_index_place(1) [OF assms(3,4)] by (metis prod.inject)

lemma braille_bit_index:
  assumes "x < 2" "y < 4" "x' < 2" "y' < 4"
  shows "bit (braille_bit x y) (braille_index x' y') \<longleftrightarrow> x = x' \<and> y = y'"
  using braille_index_inj [OF assms] braille_index_place(2) [OF assms(3,4)]
  by (auto simp: braille_bit_eq [OF assms(1,2)] bit_exp_iff)

lemma bit_fold_or:
  "bit (foldl (\<lambda>w d. if P d then w OR f d else w) w ds) n \<longleftrightarrow> bit w n \<or> (\<exists>d \<in> set ds. P d \<and> bit (f d) n)"
  by (induction ds arbitrary: w) (auto simp: bit_or_iff)

lemma bit_dot_step:
  assumes "dx < 2" "x < 2" "y < 4"
  shows "bit (dot_step scale n cols cx cy w dx) (braille_index x y) \<longleftrightarrow> bit w (braille_index x y) \<or>
    (dx = x \<and> (\<exists>v. cols ! (2 * cx + x) = Some v \<and> n - filled_dots scale n v \<le> 4 * cy + y))"
proof (cases "cols ! (cx * 2 + dx)")
  case None
  then show ?thesis by (simp add: dot_step_def mult.commute) (metis option.distinct(1))
next
  case (Some v)
  let ?P = "\<lambda>d. n - filled_dots scale n v \<le> cy * 4 + d"
  have "(\<exists>d \<in> set [0..<4]. ?P d \<and> bit (braille_bit dx d) (braille_index x y)) \<longleftrightarrow> dx = x \<and> ?P y"
    using assms by (auto simp: braille_bit_index)
  then have "bit (dot_step scale n cols cx cy w dx) (braille_index x y) \<longleftrightarrow> bit w (braille_index x y) \<or> (dx = x \<and> ?P y)"
    by (simp only: dot_step_def Some option.case Let_def bit_fold_or)
  then show ?thesis using Some by (auto simp: mult.commute)
qed

lemma bit_cell_mask:
  assumes "x < 2" "y < 4"
  shows "bit (cell_mask scale n cols cy cx) (braille_index x y) \<longleftrightarrow>
    (\<exists>v. cols ! (2 * cx + x) = Some v \<and> n - filled_dots scale n v \<le> 4 * cy + y)"
proof -
  have "[0..<2] = [0, 1::nat]" by (simp add: upt_rec)
  then show ?thesis using assms by (auto simp: cell_mask_def bit_dot_step)
qed

text \<open>How many dots a reading gets: none for zero, at least one for anything above it, all of them at the scale and beyond.\<close>

lemma filled_dots_le: "filled_dots scale n v \<le> n"
  by (simp add: filled_dots_def Let_def)

lemma filled_dots_pos: "0 < n \<Longrightarrow> Fin 0 < v \<Longrightarrow> 0 < filled_dots scale n v"
  by (simp add: filled_dots_def Let_def)

lemma filled_dots_zero: "0 < s \<Longrightarrow> filled_dots (Fin s) n (Fin 0) = 0"
  by (cases "f64_of_nat n") (auto simp: filled_dots_def fclamp_def fround_def f64_of_nat_def inf_of_sgn_def)

lemma filled_dots_full:
  assumes "0 < s" "s \<le> v" "n < 2 ^ 53"
  shows "filled_dots (Fin s) n (Fin v) = n"
proof -
  have "1 \<le> v / s" using assms by simp
  then have "Fin 1 \<le> rnd (v / s)" using rnd_mono [of 1 "v / s"] by simp
  then have "fclamp (Fin 0) (Fin 1) (fdiv (Fin v) (Fin s)) = Fin 1"
    using assms(1) by (cases "rnd (v / s)") (auto simp: fclamp_def)
  moreover have "fmul (Fin 1) (f64_of_nat n) = Fin (of_nat n)"
    using f64_of_nat_exact [OF assms(3)] rnd_of_int [of "int n"] assms(3) by simp
  moreover have "f64_to_nat 64 (fround (Fin (of_nat n))) = n"
  proof -
    have "\<lfloor>1 / 2 :: rat\<rfloor> = 0" by (simp add: floor_eq_iff)
    then show ?thesis using assms(3) by (simp add: fround_def)
  qed
  ultimately show ?thesis by (simp add: filled_dots_def)
qed

definition trend_lines :: "TimedSample list \<Rightarrow> nat \<Rightarrow> nat \<Rightarrow> Color \<Rightarrow> instant \<Rightarrow> Span list list" where
  "trend_lines h width height color now = trend_lines_scaled h width height color (Fin 100) now"

section \<open>The columns\<close>

definition history_borders :: "bool \<Rightarrow> bool \<Rightarrow> Border" where
  "history_borders right_border bottom_border = Borders right_border bottom_border"

definition header_rows :: "Ratatui \<Rightarrow> Rect \<Rightarrow> nat \<Rightarrow> Rect" where
  "header_rows rt inner = rt_split rt Vertical [Fixed 1, AtLeast 1] inner"

text \<open>Each reading of the clock is its own: \<open>clock i\<close> is the \<open>i\<close>-th one of a column.\<close>

definition draw_history_column ::
  "Ratatui \<Rightarrow> (nat \<Rightarrow> instant) \<Rightarrow> Rect \<Rightarrow> rstr \<Rightarrow> TimedSample list \<Rightarrow> instant option \<Rightarrow> Color \<Rightarrow> bool \<Rightarrow> bool \<Rightarrow> frame" where
  "draw_history_column rt clock area title h observed_at color right_border bottom_border = (let
       borders = history_borders right_border bottom_border; inner = rt_inner rt borders area;
       block = (area, PaintBlock [] borders INNER_GREEN)
     in if rc_width inner = 0 \<or> rc_height inner < 2 then [block]
        else let latest = latest_history_value h observed_at (clock 0); rows = header_rows rt inner in
          [block,
           (rows 0, paint_lines [[styled (lit '' '' @ pad_right 5 title) (bold MUTED),
              styled (case latest of None \<Rightarrow> lit ''  '' @ EMPTY_CELL | Some v \<Rightarrow> pad_left 3 (fmt_fixed 0 v) @ lit ''%'') (bold color)]]),
           (rows 1, paint_lines (trend_lines h (unat (rc_width (rows 1))) (unat (rc_height (rows 1))) color (clock 1)))])"

definition draw_history_rate_column ::
  "Ratatui \<Rightarrow> (nat \<Rightarrow> instant) \<Rightarrow> Rect \<Rightarrow> rstr \<Rightarrow> TimedSample list \<Rightarrow> instant option \<Rightarrow> Color \<Rightarrow> bool \<Rightarrow> bool \<Rightarrow> frame" where
  "draw_history_rate_column rt clock area title h observed_at color right_border bottom_border = (let
       borders = history_borders right_border bottom_border; inner = rt_inner rt borders area;
       block = (area, PaintBlock [] borders INNER_GREEN)
     in if rc_width inner = 0 \<or> rc_height inner < 2 then [block]
        else let latest = latest_history_value h observed_at (clock 0); rows = header_rows rt inner;
            scale = fmax (history_max h (clock 1)) (Fin 1);
            header = (case latest of None \<Rightarrow> lit '' '' @ title @ lit '' '' @ EMPTY_CELL | Some v \<Rightarrow> lit '' '' @ title @ lit '' '' @ compact_rate v @ lit '' tok/s'');
            top = (rows 0, PaintText [[raw_span (fit_cell (rt_width rt) header (unat (rc_width inner)))]] (bold color))
          in if \<not> llm_rate_history_has_activity h (clock 2) then [block, top]
             else [block, top, (rows 1, paint_lines (trend_lines_scaled h (unat (rc_width (rows 1))) (unat (rc_height (rows 1))) color scale (clock 3)))])"

definition draw_llm_rate_history_column ::
  "Ratatui \<Rightarrow> (nat \<Rightarrow> instant) \<Rightarrow> Rect \<Rightarrow> rstr \<Rightarrow> TimedSample list \<Rightarrow> instant option \<Rightarrow> Color \<Rightarrow> bool \<Rightarrow> frame" where
  "draw_llm_rate_history_column rt clock area title h observed_at color right_border = (let
       borders = Borders right_border False; inner = rt_inner rt borders area; block = (area, PaintBlock [] borders INNER_GREEN)
     in if rc_width inner < 8 \<or> rc_height inner < 2 then [block]
        else let latest = latest_history_value h observed_at (clock 0);
            scale = fmax (history_max h (clock 1)) (Fin 1);
            header = (case latest of None \<Rightarrow> lit '' '' @ title @ lit '' '' @ EMPTY_CELL
              | Some v \<Rightarrow> lit '' '' @ title @ lit '' '' @ compact_rate v @ lit '' tok/s '' @ [183] @ lit '' max '' @ compact_rate scale);
            top = (rect (rc_x inner) (rc_y inner) (rc_width inner) 1, PaintText [[raw_span (fit_cell (rt_width rt) header (unat (rc_width inner)))]] (bold color));
            graph = rect (rc_x inner) (sat_add (rc_y inner) 1) (rc_width inner) (sat_sub (rc_height inner) 1)
          in if \<not> llm_rate_history_has_activity h (clock 2) then [block, top]
             else [block, top, (graph, paint_lines (trend_lines_scaled h (unat (rc_width graph)) (unat (rc_height graph)) color scale (clock 3)))])"

definition draw_llm_rate_history :: "Ratatui \<Rightarrow> (nat \<Rightarrow> nat \<Rightarrow> instant) \<Rightarrow> Rect \<Rightarrow> LlmHistory \<Rightarrow> frame" where
  "draw_llm_rate_history rt clock area h = (let parts = rt_split rt Horizontal [Percentage 50, Percentage 50] area in
     draw_llm_rate_history_column rt (clock 0) (parts 0) (lit ''PREFILL'') (prefill h) (last_observed_at h) CYAN True @
     draw_llm_rate_history_column rt (clock 1) (parts 1) (lit ''DECODE'') (decode h) (last_observed_at h) ORK_GREEN False)"

section \<open>The history pane\<close>

record HostHistory =
  hh_gpu :: "TimedSample list"
  hh_vram :: "TimedSample list"
  hh_cpu :: "TimedSample list"
  hh_ram :: "TimedSample list"
  hh_last_sample_at :: "instant option"

definition host_column :: "Ratatui \<Rightarrow> (nat \<Rightarrow> instant) \<Rightarrow> HostHistory \<Rightarrow> Rect \<Rightarrow> string \<Rightarrow> TimedSample list \<Rightarrow> Color \<Rightarrow> bool \<Rightarrow> bool \<Rightarrow> frame" where
  "host_column rt clock hh area title h color right_border bottom_border =
     draw_history_column rt clock area (lit title) h (hh_last_sample_at hh) color right_border bottom_border"

definition rate_column :: "Ratatui \<Rightarrow> (nat \<Rightarrow> instant) \<Rightarrow> LlmHistory \<Rightarrow> Rect \<Rightarrow> string \<Rightarrow> TimedSample list \<Rightarrow> Color \<Rightarrow> bool \<Rightarrow> bool \<Rightarrow> frame" where
  "rate_column rt clock lh area title h color right_border bottom_border =
     draw_history_rate_column rt clock area (lit title) h (last_observed_at lh) color right_border bottom_border"

definition history_wide :: "Ratatui \<Rightarrow> (nat \<Rightarrow> nat \<Rightarrow> instant) \<Rightarrow> Rect \<Rightarrow> HostHistory \<Rightarrow> LlmHistory \<Rightarrow> frame" where
  "history_wide rt clock inner hh lh = (let
       rows = rt_split rt Vertical [Percentage 50, Percentage 50] inner; thirds = [Percentage 33, Percentage 33, Percentage 34];
       top = rt_split rt Horizontal thirds (rows 0); bottom = rt_split rt Horizontal thirds (rows 1)
     in host_column rt (clock 0) hh (top 0) ''GPU'' (hh_gpu hh) ORK_GREEN True True @
        host_column rt (clock 1) hh (top 1) ''VRAM'' (hh_vram hh) CYAN True True @
        rate_column rt (clock 2) lh (top 2) ''DECODE'' (decode lh) ORK_GREEN False True @
        host_column rt (clock 3) hh (bottom 0) ''CPU'' (hh_cpu hh) ORK_GREEN True False @
        host_column rt (clock 4) hh (bottom 1) ''RAM'' (hh_ram hh) CYAN True False @
        rate_column rt (clock 5) lh (bottom 2) ''PREFILL'' (prefill lh) WHITE False False)"

definition history_narrow :: "Ratatui \<Rightarrow> (nat \<Rightarrow> nat \<Rightarrow> instant) \<Rightarrow> Rect \<Rightarrow> HostHistory \<Rightarrow> frame" where
  "history_narrow rt clock inner hh = (let
       rows = rt_split rt Vertical [Percentage 50, Percentage 50] inner; halves = [Percentage 50, Percentage 50];
       top = rt_split rt Horizontal halves (rows 0); bottom = rt_split rt Horizontal halves (rows 1)
     in host_column rt (clock 0) hh (top 0) ''GPU'' (hh_gpu hh) ORK_GREEN True True @
        host_column rt (clock 1) hh (top 1) ''VRAM'' (hh_vram hh) CYAN False True @
        host_column rt (clock 2) hh (bottom 0) ''CPU'' (hh_cpu hh) ORK_GREEN True False @
        host_column rt (clock 3) hh (bottom 1) ''RAM'' (hh_ram hh) CYAN False False)"

definition draw_history :: "Ratatui \<Rightarrow> (nat \<Rightarrow> nat \<Rightarrow> instant) \<Rightarrow> Rect \<Rightarrow> HostHistory \<Rightarrow> LlmHistory \<Rightarrow> frame" where
  "draw_history rt clock area hh lh = (case boxed rt [raw_span (lit '' HISTORY '' @ [183] @ lit '' 60 s '')] area of (inner, block) \<Rightarrow>
     if rc_width inner < 32 \<or> rc_height inner < 5 then block
     else if 60 \<le> rc_width inner \<and> 10 \<le> rc_height inner then block @ history_wide rt clock inner hh lh
     else block @ history_narrow rt clock inner hh)"

text \<open>\<^verbatim>\<open>UiState::push_sample\<close>: one point per metric of a host sample.\<close>

definition push_sample :: "instant \<Rightarrow> f64 option \<Rightarrow> f64 option \<Rightarrow> f64 option \<Rightarrow> f64 \<Rightarrow> u64 \<Rightarrow> u64 \<Rightarrow> HostHistory \<Rightarrow> HostHistory" where
  "push_sample now utilization used_mib total_mib cpu_usage ram_used ram_total hh = (let
       vram = (case (used_mib, total_mib) of (Some used, Some whole) \<Rightarrow> if Fin 0 < whole then Some (percent used whole) else None | _ \<Rightarrow> None);
       ram = (if 0 < ram_total then Some (percent (f64_of_u64 ram_used) (f64_of_u64 ram_total)) else None);
       push = (\<lambda>v h. case v of Some x \<Rightarrow> push_history_at h x now | None \<Rightarrow> h)
     in \<lparr>hh_gpu = push utilization (hh_gpu hh), hh_vram = push vram (hh_vram hh), hh_cpu = push_history_at (hh_cpu hh) cpu_usage now,
         hh_ram = push ram (hh_ram hh), hh_last_sample_at = Some now\<rparr>)"

section \<open>Every dot of a graph\<close>

lemma resample_history_length: "0 < c \<Longrightarrow> length (resample_history h c now) = c"
proof -
  have "length (snd (foldl (resample_step t) st xs)) = length (snd st) + length xs" for t st xs
    by (induction xs arbitrary: st) (simp_all add: resample_step_def Let_def split: prod.split)
  then show "0 < c \<Longrightarrow> length (resample_history h c now) = c" by (simp add: resample_history_def)
qed

lemma trend_cell:
  assumes "cy < height" "cx < width"
  shows "line_text (trend_lines_scaled h width height color scale now ! cy) ! cx
    = braille_char (cell_mask (fmax scale EPSILON) (4 * height) (resample_history h (2 * width) now) cy cx)"
proof -
  have "max width 1 = width" "max height 1 = height" using assms by auto
  then show ?thesis using assms by (simp add: trend_lines_scaled_def line_text_def styled_def Let_def mult.commute)
qed

text \<open>
  The graph is the resampled history and nothing else: the dot at column \<open>x\<close> and row \<open>y\<close> is lit
  exactly if the column has a reading whose bar reaches it.  A column with no reading, or with a reading of zero, is
  blank; a reading above zero always shows; one at the scale or above fills its column.
\<close>
theorem trend_dots:
  assumes "x < 2 * width" "y < 4 * height" "4 * height < 2 ^ 53" "fmax scale EPSILON = Fin s" "0 < s"
  shows "(dot_lit (line_text (trend_lines_scaled h width height color scale now ! (y div 4)) ! (x div 2)) (x mod 2) (y mod 4) \<longleftrightarrow>
      (\<exists>v. resample_history h (2 * width) now ! x = Some v \<and> 4 * height \<le> y + filled_dots (Fin s) (4 * height) v)) \<and>
    (\<forall>v. Fin 0 < v \<longrightarrow> 0 < filled_dots (Fin s) (4 * height) v) \<and>
      filled_dots (Fin s) (4 * height) (Fin 0) = 0 \<and> (\<forall>v \<ge> s. filled_dots (Fin s) (4 * height) (Fin v) = 4 * height)"
proof -
  have d: "x div 2 < width" "y div 4 < height" "2 * (x div 2) + x mod 2 = x" "4 * (y div 4) + y mod 4 = y"
    using assms(1,2) by auto
  have "x mod 2 < 2" "y mod 4 < 4" by auto
  note m = bit_cell_mask [OF this]
  have "dot_lit (line_text (trend_lines_scaled h width height color scale now ! (y div 4)) ! (x div 2)) (x mod 2) (y mod 4) \<longleftrightarrow>
      (\<exists>v. resample_history h (2 * width) now ! x = Some v \<and> 4 * height \<le> y + filled_dots (Fin s) (4 * height) v)"
    unfolding trend_cell [OF d(2,1)] dot_lit_char m assms(4) d(3,4) by (simp add: le_diff_conv)
  then show ?thesis
    using filled_dots_pos [of "4 * height"] filled_dots_zero [OF assms(5)] filled_dots_full [OF assms(5) _ assms(3)] assms(2)
    by auto
qed

theorem trend_dots_witness:
  "dot_lit (line_text (trend_lines_scaled [\<lparr>ts_at = 0, ts_value = Fin 100\<rparr>] 1 1 CYAN (Fin 100) 0 ! 0) ! 0) 1 0"
proof -
  have eps: "EPSILON = Fin (2 powi - 52)" using rnd_dyadic [of "2 powi - 52" 52 1] by (simp add: EPSILON_def power_int_minus)
  have e: "fmax (Fin 100) EPSILON = Fin 100" unfolding eps by (simp add: fmax_def power_int_minus)
  have z: "as_secs_f64 0 = Fin 0" by (simp add: as_secs_f64_parts f64_of_nat_def)
  have "resample_history [\<lparr>ts_at = 0, ts_value = Fin 100\<rparr>] 2 0 ! 1 = Some (Fin 100)"
    by (simp add: resample_history_def resample_step_def history_points_def expired_def column_target_def
        HISTORY_WINDOW_secs z f64_of_nat_def fmax_def upt_rec)
  then show ?thesis
    using trend_dots [of 1 1 0 1 "Fin 100" 100 "[\<lparr>ts_at = 0, ts_value = Fin 100\<rparr>]" CYAN 0] e by simp
qed

end
