(* ===== verification/GpuPanel.thy ===== *)
theory GpuPanel
  imports Paint Providers
begin

text \<open>
  The GPU panel of \<^verbatim>\<open>src/ui/gpu_panel.rs\<close>: the attribution of a server to the shown device, the tints
  of the readings, and the rows with their bars and data pairs.
\<close>

section \<open>Attribution\<close>

definition enc_dec_idle :: "GpuStats \<Rightarrow> bool" where
  "enc_dec_idle gpu \<longleftrightarrow> (case gs_encoder_utilization gpu of None \<Rightarrow> True | Some v \<Rightarrow> v < Fin 1) \<and>
     (case gs_decoder_utilization gpu of None \<Rightarrow> True | Some v \<Rightarrow> v < Fin 1)"

text \<open>The closure of \<open>gpu_in_mapping\<close>: the same key, or parent and child of a MIG device.\<close>

definition gpu_matches :: "GpuStats \<Rightarrow> MappedGpu \<Rightarrow> bool" where
  "gpu_matches gpu mapped \<longleftrightarrow> MappedGpu_key mapped = DeviceId_key (gs_device gpu) \<or>
     (let gpu_parent = mig_parent_uuid (gs_device gpu); mapped_parent = mig_parent_uuid (mg_device mapped) in
       (gpu_parent \<noteq> None \<and> gpu_parent = uuid (mg_device mapped)) \<or> (mapped_parent \<noteq> None \<and> mapped_parent = uuid (gs_device gpu)))"

definition gpu_in_mapping :: "GpuStats \<Rightarrow> GpuMapping \<Rightarrow> bool" where
  "gpu_in_mapping gpu m \<longleftrightarrow> DeviceId_key (gs_device gpu) \<noteq> [] \<and> (case m of
     Single g \<Rightarrow> gpu_matches gpu g | Multi gs \<Rightarrow> list_ex (gpu_matches gpu) gs | MapNone \<Rightarrow> False | MapUnknown \<Rightarrow> False)"

definition gpu_attribution_label :: "(rstr \<Rightarrow> nat) \<Rightarrow> GpuMapping \<Rightarrow> rstr option" where
  "gpu_attribution_label dw m = (case m of
     Single g \<Rightarrow> Some (fit_cell dw (MappedGpu_key g) 16)
   | Multi gs \<Rightarrow> let leading = (case gs of [] \<Rightarrow> lit ''<unkeyed>'' | g # _ \<Rightarrow> MappedGpu_key g) in
       Some (fit_cell dw leading 13 @ lit '' +'' @ show_nat (length gs - 1))
   | MapNone \<Rightarrow> None | MapUnknown \<Rightarrow> None)"

section \<open>Tints\<close>

definition temperature_color :: "f64 \<Rightarrow> Color" where
  "temperature_color celsius = (if Fin 85 \<le> celsius then RED else if Fin 80 \<le> celsius then ORANGE
     else if Fin 70 \<le> celsius then YELLOW else ORK_GREEN)"

definition power_color :: "f64 \<Rightarrow> Color" where
  "power_color level = (if Fin 99 \<le> level then RED else if Fin 95 \<le> level then ORANGE
     else if Fin 85 \<le> level then YELLOW else ORK_GREEN)"

definition vram_color :: "f64 \<Rightarrow> Color" where
  "vram_color level = (if Fin 99 \<le> level then RED else if Fin 98 \<le> level then ORANGE
     else if Fin 95 \<le> level then YELLOW else CYAN)"

definition limit_reason_color :: "rstr \<Rightarrow> Color" where
  "limit_reason_color reason = (if reason = lit ''none'' \<or> reason = lit ''idle'' \<or> reason = EMPTY_CELL then MUTED
     else if contains_sub (lit ''thermal'') reason \<or> contains_sub (lit ''power-brake'') reason \<or> contains_sub (lit ''hw'') reason then RED
     else if contains_sub (lit ''power'') reason then ORANGE else YELLOW)"

section \<open>The panel\<close>

definition gpu_title :: "GpuStats \<Rightarrow> GpuMapping \<Rightarrow> Span list" where
  "gpu_title gpu m = (let base = (
       if gs_available gpu then lit '' GPU'' @ show_word (gs_index gpu) @ lit '' '' @ [183] @ lit '' '' @ gs_name gpu @ lit '' ''
       else if gs_error gpu = [] then lit '' GPU'' @ show_word (gs_index gpu) @ lit '' '' @ [183] @ lit '' unavailable ''
       else lit '' GPU '' @ [183] @ lit '' '' @ gs_error gpu @ lit '' '')
     in raw_span base # (if gpu_in_mapping gpu m then [styled (lit ''LLM'') (bold CYAN)] else []))"

definition share_of :: "f64 option \<Rightarrow> f64 option \<Rightarrow> f64 option" where
  "share_of v whole = (case (v, whole) of (Some x, Some w) \<Rightarrow> if Fin 0 < w then Some (percent_of x w) else None | _ \<Rightarrow> None)"

definition draw_text :: "GpuStats \<Rightarrow> rstr" where
  "draw_text gpu = (case (gs_power_w gpu, gs_power_limit_w gpu) of
     (Some watts, Some limit) \<Rightarrow> fmt_fixed 0 watts @ lit ''/'' @ fmt_fixed 0 limit @ lit '' W''
   | (Some watts, None) \<Rightarrow> fmt_fixed 0 watts @ lit '' W'' | _ \<Rightarrow> EMPTY_CELL)"

definition used_text :: "GpuStats \<Rightarrow> rstr" where
  "used_text gpu = (case (gs_memory_used_mib gpu, gs_memory_total_mib gpu) of
     (Some used, Some whole) \<Rightarrow> fmt_fixed 1 (fdiv used (Fin 1024)) @ lit ''/'' @ fmt_fixed 1 (fdiv whole (Fin 1024)) @ lit '' GiB''
   | _ \<Rightarrow> EMPTY_CELL)"

definition percent_text :: "f64 \<Rightarrow> rstr" where
  "percent_text v = pad_left 3 (fmt_fixed 0 v) @ lit ''%''"

definition limit_pair :: "GpuStats \<Rightarrow> Span" where
  "limit_pair gpu = fixed_data_pair (lit ''LIMIT'') (gs_limit_reason gpu) (limit_reason_color (gs_limit_reason gpu)) 20"

definition io_suffix :: "GpuStats \<Rightarrow> Span list" where
  "io_suffix gpu = [fixed_data_pair (lit ''MEMCTRL'') (optional_number (gs_memory_utilization gpu) 0 (lit ''%'')) CYAN 17,
     fixed_data_pair (lit ''PCIe RX'') (optional_number (gs_pcie_rx_mb_s gpu) 1 (lit '' MB/s'')) CYAN 22,
     fixed_data_pair (lit ''TX'') (optional_number (gs_pcie_tx_mb_s gpu) 1 (lit '' MB/s'')) CYAN 18] @
     (if enc_dec_idle gpu then [limit_pair gpu] else [])"

definition gpu_suffix :: "GpuStats \<Rightarrow> Span list" where
  "gpu_suffix gpu = [fixed_data_pair (lit ''CORE'') (optional_number (gs_graphics_clock_mhz gpu) 0 (lit '' MHz'')) ORK_GREEN 21,
     fixed_data_pair (lit ''PSTATE'') (gs_pstate gpu) WHITE 16]"

definition vram_suffix :: "GpuStats \<Rightarrow> Color \<Rightarrow> Span list" where
  "vram_suffix gpu vram_tint = [fixed_data_pair (lit ''USED'') (used_text gpu) vram_tint 25,
     fixed_data_pair (lit ''VCLK'') (optional_number (gs_memory_clock_mhz gpu) 0 (lit '' MHz'')) WHITE 20]"

definition power_suffix :: "GpuStats \<Rightarrow> Color \<Rightarrow> Span list" where
  "power_suffix gpu power_tint = [fixed_data_pair (lit ''DRAW'') (draw_text gpu) power_tint 21,
     fixed_data_pair (lit ''TEMP'') (optional_number (gs_temperature_c gpu) 0 [176, 67])
       (case gs_temperature_c gpu of Some v \<Rightarrow> temperature_color v | None \<Rightarrow> MUTED) 16,
     fixed_data_pair (lit ''FAN'') (optional_number (gs_fan_percent gpu) 0 (lit ''%'')) ORK_GREEN 13]"

text \<open>A row whose meter has a reading, or its placeholder.\<close>

definition metered :: "rstr \<Rightarrow> f64 option \<Rightarrow> nat \<Rightarrow> Color \<Rightarrow> Span list \<Rightarrow> Span list" where
  "metered label v bar_width c suffix = (case v of
     Some x \<Rightarrow> meter_line label x bar_width c (percent_text x) suffix | None \<Rightarrow> unavailable_meter_line label bar_width suffix)"

definition io_share :: "GpuStats \<Rightarrow> f64 option" where
  "io_share gpu = pcie_utilization_pct (gs_pcie_rx_mb_s gpu) (gs_pcie_tx_mb_s gpu) (gs_pcie_link_speed_gts gpu) (gs_pcie_link_width gpu)"

definition io_row :: "GpuStats \<Rightarrow> nat \<Rightarrow> Span list" where
  "io_row gpu bar_width = (case io_share gpu of
     Some pct \<Rightarrow> meter_line (lit ''I/O'') pct bar_width CYAN (percent_text pct) (io_suffix gpu)
   | None \<Rightarrow> label_span (lit '' I/O    '') # styled (pad_right (bar_width + 11) (lit '' '' @ EMPTY_CELL)) (fg MUTED) # io_suffix gpu)"

definition enc_dec_row :: "GpuStats \<Rightarrow> nat \<Rightarrow> Span list" where
  "enc_dec_row gpu bar_width = [label_span (lit ''        ''), raw_span (replicate (bar_width + 7) 32),
     fixed_data_pair (lit ''ENC'') (optional_number (gs_encoder_utilization gpu) 0 (lit ''%'')) WHITE 11,
     fixed_data_pair (lit ''DEC'') (optional_number (gs_decoder_utilization gpu) 0 (lit ''%'')) WHITE 11,
     limit_pair gpu]"

definition gpu_rows :: "GpuStats \<Rightarrow> nat \<Rightarrow> Span list list" where
  "gpu_rows gpu bar_width = (let
       vram_pct = share_of (gs_memory_used_mib gpu) (gs_memory_total_mib gpu);
       power_pct = share_of (gs_power_w gpu) (gs_power_limit_w gpu);
       vram_tint = (case vram_pct of Some v \<Rightarrow> vram_color v | None \<Rightarrow> MUTED);
       power_tint = (case power_pct of Some v \<Rightarrow> power_color v | None \<Rightarrow> MUTED)
     in [metered (lit ''GPU'') (gs_utilization gpu) bar_width ORK_GREEN (gpu_suffix gpu),
         metered (lit ''VRAM'') vram_pct bar_width vram_tint (vram_suffix gpu vram_tint),
         metered (lit ''PWR'') power_pct bar_width power_tint (power_suffix gpu power_tint),
         io_row gpu bar_width] @
        (if enc_dec_idle gpu then [] else [enc_dec_row gpu bar_width]))"

definition draw_gpu :: "Ratatui \<Rightarrow> Rect \<Rightarrow> GpuStats \<Rightarrow> GpuMapping \<Rightarrow> frame" where
  "draw_gpu rt area gpu m = (case boxed rt (gpu_title gpu m) area of (inner, block) \<Rightarrow>
     if rc_width inner < 28 \<or> rc_height inner = 0 then block
     else if \<not> gs_available gpu then block @ [(inner, PaintText [[raw_span (lit '' GPU telemetry unavailable'')]] (bold RED))]
     else block @ [(inner, paint_lines (take (unat (rc_height inner)) (gpu_rows gpu (gpu_bar_width (rc_width inner)))))])"

section \<open>Where the data pairs of the rows start\<close>

lemma length_show_nat_le: "n < 1000 \<Longrightarrow> length (show_nat n) \<le> 3"
  by (subst show_nat.simps, subst show_nat.simps, subst show_nat.simps) auto

lemma length_fmt_percent:
  assumes "Fin 0 \<le> v" "v \<le> Fin 100"
  shows "length (fmt_fixed 0 v) \<le> 3"
proof -
  obtain q where q: "v = Fin q" "0 \<le> q" "q \<le> 100" using assms by (cases v) auto
  then have "round_half_even q \<le> 100" using round_half_even_le_int [of q 100] by simp
  then have "nat (round_half_even q) < 1000" by simp
  then show ?thesis using q length_show_nat_le by (simp add: fmt_fixed_def Let_def)
qed

lemma percent_of_range: "Fin 0 \<le> percent_of v w \<and> percent_of v w \<le> Fin 100"
proof -
  have "Fin 0 \<le> widget_clamp_percent x \<and> widget_clamp_percent x \<le> Fin 100" for x
    using fclamp_in_range [of "Fin 0" "Fin 100" x] by (cases x) (auto simp: widget_clamp_percent_def)
  then show ?thesis by (simp add: percent_of_def)
qed

lemma share_of_range: "share_of v w = Some x \<Longrightarrow> Fin 0 \<le> x \<and> x \<le> Fin 100"
  using percent_of_range by (auto simp: share_of_def split: option.splits if_splits)

lemma io_share_range: "io_share gpu = Some x \<Longrightarrow> Fin 0 \<le> x \<and> x \<le> Fin 100"
proof -
  assume "io_share gpu = Some x"
  then obtain y where "is_finite y" "x = fclamp (Fin 0) (Fin 100) y"
    by (auto simp: io_share_def pcie_utilization_pct_def opt_filter_def Let_def split: option.splits if_splits)
  then show ?thesis using fclamp_in_range [of "Fin 0" "Fin 100" y] by (cases y) simp_all
qed

lemma fine_bar_length: "line_length (fine_bar_spans label v w c) = w"
proof -
  have "length (sn_content (bar_cell label c t u i)) = 1" for t u i by (simp add: bar_cell_def styled_def Let_def)
  then have "line_length (map (bar_cell label c t u) xs) = length xs" for t u xs by (induction xs) simp_all
  then show ?thesis by (simp add: fine_bar_spans_def)
qed

text \<open>The cells before the pairs of a row.\<close>

definition starts_at :: "nat \<Rightarrow> Span list \<Rightarrow> Span list \<Rightarrow> bool" where
  "starts_at column row pairs \<longleftrightarrow> (\<exists>prefix. row = prefix @ pairs \<and> line_length prefix = column)"

lemma meter_line_starts:
  "length label \<le> 5 \<Longrightarrow> length v \<le> 8 \<Longrightarrow> starts_at (w + 15) (meter_line label x w c v pairs) pairs"
  unfolding starts_at_def meter_line_def
  by (rule exI [where x = "styled (lit '' '' @ pad_right 5 label) (fg MUTED)
     # fine_bar_spans label (widget_clamp_percent x) w c @ [styled (lit '' '' @ pad_right 8 v) (fg WHITE)]"])
    (simp add: fine_bar_length pad_right_length lit_def)

lemma unavailable_meter_line_starts:
  "length label \<le> 5 \<Longrightarrow> starts_at (w + 15) (unavailable_meter_line label w pairs) pairs"
  unfolding starts_at_def unavailable_meter_line_def
  by (rule exI [where x = "[styled (lit '' '' @ pad_right 5 label) (fg MUTED), styled (pad_right (w + 9) (lit '' '' @ EMPTY_CELL)) (fg MUTED)]"])
    (simp add: pad_right_length lit_def EMPTY_CELL_def)

lemma percent_text_length: "Fin 0 \<le> v \<Longrightarrow> v \<le> Fin 100 \<Longrightarrow> length (percent_text v) = 4"
  using length_fmt_percent [of v] by (simp add: percent_text_def pad_left_length lit_def max_absorb1)

lemma metered_starts:
  assumes "length label \<le> 5" "\<And>x. v = Some x \<Longrightarrow> Fin 0 \<le> x \<and> x \<le> Fin 100"
  shows "starts_at (w + 15) (metered label v w c pairs) pairs"
  using assms by (auto simp: metered_def percent_text_length intro!: meter_line_starts unavailable_meter_line_starts split: option.split)

lemma io_row_starts: "starts_at (w + (if io_share gpu = None then 19 else 15)) (io_row gpu w) (io_suffix gpu)"
proof (cases "io_share gpu")
  case None
  then have "io_row gpu w = [label_span (lit '' I/O    ''), styled (pad_right (w + 11) (lit '' '' @ EMPTY_CELL)) (fg MUTED)] @ io_suffix gpu"
    by (simp add: io_row_def)
  then show ?thesis using None unfolding starts_at_def
    by (intro exI [where x = "[label_span (lit '' I/O    ''), styled (pad_right (w + 11) (lit '' '' @ EMPTY_CELL)) (fg MUTED)]"])
      (simp add: pad_right_length lit_def EMPTY_CELL_def)
next
  case (Some v)
  then show ?thesis using io_share_range [OF Some] by (simp add: io_row_def meter_line_starts percent_text_length lit_def)
qed

text \<open>
  The data pairs of the panel start in one column, fifteen cells and the bar from the left, whether a meter
  has a reading or its placeholder - all but those of the I/O row of a device that does not report its PCIe
  traffic, which stand four cells further right than the pairs above and below them.
\<close>
theorem io_row_shifted:
  assumes "case gs_utilization gpu of None \<Rightarrow> True | Some v \<Rightarrow> Fin 0 \<le> v \<and> v \<le> Fin 100"
  shows "\<exists>vram_tint power_tint. list_all2 (\<lambda>(column, pairs) row. starts_at column row pairs)
    ([(w + 15, gpu_suffix gpu), (w + 15, vram_suffix gpu vram_tint), (w + 15, power_suffix gpu power_tint),
      (w + (if io_share gpu = None then 19 else 15), io_suffix gpu)] @
     (if enc_dec_idle gpu then [] else [(w + 15, drop 2 (enc_dec_row gpu w))])) (gpu_rows gpu w)"
proof -
  have e: "starts_at (w + 15) (enc_dec_row gpu w) (drop 2 (enc_dec_row gpu w))"
    unfolding starts_at_def by (rule exI [where x = "take 2 (enc_dec_row gpu w)"]) (simp add: enc_dec_row_def lit_def)
  have "Fin 0 \<le> x \<and> x \<le> Fin 100" if "gs_utilization gpu = Some x" for x using assms that by simp
  then show ?thesis
    by (auto simp: gpu_rows_def Let_def lit_def e io_row_starts intro!: exI metered_starts dest: share_of_range)
qed

theorem io_row_shifted_witness:
  "starts_at 41 (gpu_rows (GpuStats_default\<lparr>gs_available := True, gs_utilization := Some (Fin 50)\<rparr>) 22 ! 3)
     (io_suffix (GpuStats_default\<lparr>gs_available := True, gs_utilization := Some (Fin 50)\<rparr>))"
proof -
  let ?gpu = "GpuStats_default\<lparr>gs_available := True, gs_utilization := Some (Fin 50)\<rparr>"
  have "io_share ?gpu = None" by (simp add: io_share_def pcie_utilization_pct_def GpuStats_default_def)
  moreover have "case gs_utilization ?gpu of None \<Rightarrow> True | Some v \<Rightarrow> Fin 0 \<le> v \<and> v \<le> Fin 100" by simp
  ultimately show ?thesis using io_row_shifted [of ?gpu 22] by (auto dest: list_all2_nthD2 [where p = 3] split: if_splits simp: list_all2_Cons1)
qed

end
