(* ===== verification/LlmPanel.thy ===== *)
theory LlmPanel
  imports HistoryText GpuPanel
begin

text \<open>
  The inference panel of \<^verbatim>\<open>src/ui/llm.rs\<close>: what of a sample is shown, in which words, and how much of it
  fits the width.  The clock is read anew by each text that needs it, and each of these readings is a parameter.
\<close>

section \<open>Texts\<close>

definition phase_label :: "ActivityPhase \<Rightarrow> rstr" where
  "phase_label p = (case p of PhIdle \<Rightarrow> lit ''IDLE'' | PhUnknown \<Rightarrow> lit ''UNKNOWN'' | PhPrefill \<Rightarrow> lit ''PREFILL''
     | PhGenerating \<Rightarrow> lit ''GENERATING'' | PhProcessing \<Rightarrow> lit ''PROCESSING'' | PhQueued \<Rightarrow> lit ''QUEUED''
     | PhReconnecting \<Rightarrow> lit ''RECONNECTING'')"

definition llm_phase :: "LlmStats \<Rightarrow> rstr \<times> Color" where
  "llm_phase llm = (case activity_phase llm of None \<Rightarrow> (lit ''OFFLINE'', RED) | Some p \<Rightarrow>
     (phase_label p, case p of PhIdle \<Rightarrow> MUTED | PhUnknown \<Rightarrow> MUTED | PhPrefill \<Rightarrow> WHITE | PhGenerating \<Rightarrow> ORK_GREEN
        | PhProcessing \<Rightarrow> YELLOW | PhQueued \<Rightarrow> YELLOW | PhReconnecting \<Rightarrow> YELLOW))"

definition valid_cache_counter :: "f64 option \<Rightarrow> f64 option" where
  "valid_cache_counter cached = opt_filter (\<lambda>v. is_finite v \<and> Fin 0 \<le> v) cached"

definition context_color :: "f64 \<Rightarrow> Color" where
  "context_color level = (if Fin 97 \<le> level then RED else if Fin 90 \<le> level then ORANGE
     else if Fin 80 \<le> level then YELLOW else ORK_GREEN)"

definition llm_metrics_disabled :: "rstr \<Rightarrow> bool" where
  "llm_metrics_disabled e \<longleftrightarrow> contains_sub (lit ''501'') (lower e) \<or> contains_sub (lit ''--metrics'') (lower e) \<or>
     contains_sub (lit ''metrics endpoint'') (lower e)"

definition METRICS_OFF_HINT :: rstr where
  "METRICS_OFF_HINT = lit ''LLAMA METRICS OFF '' @ [183] @ lit '' restart server with --metrics''"

definition metrics_unavailable_reason :: "rstr \<Rightarrow> rstr" where
  "metrics_unavailable_reason e = (if llm_metrics_disabled e then METRICS_OFF_HINT
     else if contains_sub (lit ''cannot reach'') (lower e) then lit ''LLAMA METRICS UNREACHABLE '' @ [183] @ lit '' /slots still live''
     else lit ''LLAMA METRICS '' @ [183] @ lit '' '' @ e)"

definition friendly_llm_error :: "rstr \<Rightarrow> rstr" where
  "friendly_llm_error e = (if llm_metrics_disabled e then METRICS_OFF_HINT
     else if contains_sub (lit ''cannot reach'') (lower e) \<or> contains_sub (lit ''connection'') (lower e) then lit ''LLAMA SERVER OFFLINE''
     else lit ''LLAMA '' @ [183] @ lit '' '' @ e)"

definition llm_link_status :: "LlmHistory \<Rightarrow> LlmStats \<Rightarrow> instant \<Rightarrow> rstr \<times> Color" where
  "llm_link_status lh llm now = (if reconnecting llm then (lit ''RECONNECTING'', YELLOW)
     else if \<not> connected llm then (lit ''OFFLINE'', RED)
     else if is_some_and (\<lambda>until. now \<le> until) (connected_flash_until lh) then (lit ''CONNECTED'', BRIGHT_GREEN)
     else (lit ''ONLINE'', ORK_GREEN))"

definition llm_last_sample_text :: "LlmHistory \<Rightarrow> LlmStats \<Rightarrow> instant \<Rightarrow> rstr" where
  "llm_last_sample_text lh llm now = (case (if connected llm \<and> \<not> reconnecting llm then sample_interval_ema_ms lh else None) of
     Some avg \<Rightarrow> lit ''~'' @ fmt_fixed 0 avg @ lit '' ms avg''
   | None \<Rightarrow> (case last_fresh_at lh of Some t \<Rightarrow> format_sample_age (now - t) @ lit '' ago'' | None \<Rightarrow> EMPTY_CELL))"

definition llm_uptime_text :: "LlmHistory \<Rightarrow> instant \<Rightarrow> rstr" where
  "llm_uptime_text lh now = (case connected_since lh of Some t \<Rightarrow> format_uptime (now - t) | None \<Rightarrow> EMPTY_CELL)"

definition slots_text :: "LlmStats \<Rightarrow> rstr" where
  "slots_text llm = (if slots_available llm then show_word (busy_slots llm) @ lit ''/'' @ show_word (slot_count llm)
     else if 0 < props_slot_count llm then EMPTY_CELL @ lit ''/'' @ show_word (props_slot_count llm) else EMPTY_CELL)"

definition tok_s :: "f64 option \<Rightarrow> rstr" where
  "tok_s v = (case v of None \<Rightarrow> EMPTY_CELL | Some x \<Rightarrow> fmt_fixed 1 x) @ lit '' tok/s''"

section \<open>The context row\<close>

definition CTX_LABEL_CELLS :: nat where "CTX_LABEL_CELLS = 6"
definition CTX_VALUE_CELLS :: nat where "CTX_VALUE_CELLS = 9"
definition CTX_BAR_FLOOR :: nat where "CTX_BAR_FLOOR = 4"

definition ctx_pair :: "string \<Rightarrow> string \<Rightarrow> u64 option \<Rightarrow> u64 \<Rightarrow> rstr" where
  "ctx_pair slash unit used capacity = (if 0 < capacity
     then lit '' '' @ (case used of Some u \<Rightarrow> grouped_u64 u | None \<Rightarrow> EMPTY_CELL) @ lit slash @ grouped_u64 capacity @ lit unit
     else lit '' waiting for context'')"

definition pair_full :: "u64 option \<Rightarrow> u64 \<Rightarrow> rstr" where "pair_full = ctx_pair '' / '' '' tok''"
definition pair_no_unit :: "u64 option \<Rightarrow> u64 \<Rightarrow> rstr" where "pair_no_unit = ctx_pair '' / '' ''''"
definition pair_compact :: "u64 option \<Rightarrow> u64 \<Rightarrow> rstr" where "pair_compact = ctx_pair ''/'' ''''"

definition ctx_suffix :: "rstr option \<times> rstr \<Rightarrow> Span list" where
  "ctx_suffix c = (case c of (tag, pair) \<Rightarrow> (case tag of Some t \<Rightarrow> [styled (lit '' '' @ t) (fg CYAN)] | None \<Rightarrow> []) @
     (if pair = [] then [] else [styled pair (fg MUTED)]))"

definition max_bar :: "nat \<Rightarrow> rstr option \<times> rstr \<Rightarrow> nat" where
  "max_bar avail c = (case c of (tag, pair) \<Rightarrow>
     avail - (CTX_LABEL_CELLS + CTX_VALUE_CELLS + (length pair + (case tag of Some t \<Rightarrow> 1 + length t | None \<Rightarrow> 0))))"

definition ctx_row_metrics :: "u16 \<Rightarrow> rstr option \<Rightarrow> u64 option \<Rightarrow> u64 \<Rightarrow> nat \<times> Span list" where
  "ctx_row_metrics inner_width tag used capacity = (let
       avail = unat inner_width; nominal = max (avail - 46) 8;
       candidates = [(tag, pair_full used capacity), (None, pair_full used capacity), (None, pair_no_unit used capacity),
         (None, pair_compact used capacity), (None, [])]
     in case find (\<lambda>c. CTX_BAR_FLOOR \<le> max_bar avail c) candidates of
          Some c \<Rightarrow> (min nominal (max_bar avail c), ctx_suffix c)
        | None \<Rightarrow> (min nominal (avail - (CTX_LABEL_CELLS + CTX_VALUE_CELLS)), []))"

definition context_pct :: "LlmStats \<Rightarrow> f64" where
  "context_pct llm = (case context_used llm of
     Some used \<Rightarrow> if 0 < context_size llm
       then fclamp (Fin 0) (Fin 100) (fmul (fdiv (f64_of_u64 used) (f64_of_u64 (context_size llm))) (Fin 100)) else Fin 0
   | None \<Rightarrow> Fin 0)"

definition context_slot_tag :: "u16 \<Rightarrow> LlmStats \<Rightarrow> rstr option" where
  "context_slot_tag width llm = map_option (\<lambda>i. lit ''S'' @ show_word i)
     (opt_filter (\<lambda>_. 54 \<le> width) (if 1 < slot_count llm then context_slot_id llm else None))"

definition context_line :: "u16 \<Rightarrow> LlmStats \<Rightarrow> Span list" where
  "context_line width llm = (case ctx_row_metrics width (context_slot_tag width llm) (context_used llm) (context_size llm) of (bar, suffix) \<Rightarrow>
     if context_used llm \<noteq> None \<and> 0 < context_size llm
     then meter_line (lit ''CTX'') (context_pct llm) bar (context_color (context_pct llm)) (pad_left 5 (fmt_fixed 1 (context_pct llm)) @ lit ''%'') suffix
     else unavailable_meter_line (lit ''CTX'') bar suffix)"

section \<open>The slot overview\<close>

definition unified_capacity :: "LlmSlotInfo list \<Rightarrow> bool" where
  "unified_capacity ss \<longleftrightarrow> list_all (\<lambda>s. si_context_size s \<noteq> None) ss \<and> list_all (\<lambda>s. si_context_size s = si_context_size (hd ss)) ss"

definition slot_entry :: "bool \<Rightarrow> u64 option \<Rightarrow> LlmSlotInfo \<Rightarrow> rstr \<times> Color" where
  "slot_entry unified selected slot = (lit ''S'' @ show_word (si_id slot) @
     (case si_context_used slot of None \<Rightarrow> lit '' '' @ EMPTY_CELL | Some u \<Rightarrow> lit '' '' @
        (if unified \<and> si_context_size slot \<noteq> None then compact_tokens u
         else trim_end_str (lit ''k'') (compact_tokens u) @ lit ''/'' @ (case si_context_size slot of Some c \<Rightarrow> compact_tokens c | None \<Rightarrow> EMPTY_CELL))) @
     (if selected = Some (si_id slot) then lit ''*'' else []), if si_busy slot then WHITE else MUTED)"

definition slot_overview_entries :: "LlmSlotInfo list \<Rightarrow> u64 option \<Rightarrow> (rstr \<times> Color) list" where
  "slot_overview_entries ss selected = map (slot_entry (unified_capacity ss) selected) ss"

definition LABEL_LEN :: nat where "LABEL_LEN = 12"
definition ENTRY_GAP :: nat where "ENTRY_GAP = 3"

definition suffix_len :: "nat \<Rightarrow> nat" where
  "suffix_len hidden = (if 0 < hidden then 3 + length (show_nat hidden) else 0)"

definition overview_fits :: "rstr list \<Rightarrow> u16 \<Rightarrow> nat \<Rightarrow> bool" where
  "overview_fits entries width kept \<longleftrightarrow>
     LABEL_LEN + sum_list (map length (take kept entries)) + ENTRY_GAP * (kept - 1) + suffix_len (length entries - kept) \<le> unat width"

fun overview_kept :: "(nat \<Rightarrow> bool) \<Rightarrow> nat \<Rightarrow> nat" where
  "overview_kept fits kept = (if 0 < kept \<and> \<not> fits kept then overview_kept fits (kept - 1) else kept)"

declare overview_kept.simps [simp del]

text \<open>The entries with the gap before each but the first.\<close>

definition overview_spans :: "(rstr \<times> Color) list \<Rightarrow> Span list" where
  "overview_spans es = concat (map (\<lambda>(index, s, c). (if 0 < index then [raw_span (lit ''   '')] else []) @ [value_span s c]) (enumerate 0 es))"

definition llm_slot_overview_line :: "LlmSlotInfo list \<Rightarrow> u64 option \<Rightarrow> u16 \<Rightarrow> Span list option" where
  "llm_slot_overview_line ss selected width = (let entries = slot_overview_entries ss selected in
     if entries = [] then None
     else let kept = overview_kept (overview_fits (map fst entries) width) (length entries); hidden = length entries - kept in
       if kept = 0 then None
       else Some ([label_span (lit '' SLOTS      '')] @ overview_spans (take kept entries) @
         (if 0 < hidden then [value_span (lit ''  +'' @ show_nat hidden) MUTED] else [])))"

definition overview_rows :: "LlmStats \<Rightarrow> u16 \<Rightarrow> Span list list" where
  "overview_rows llm width = (if slots_available llm \<and> 1 < slot_count llm
     then (case llm_slot_overview_line (slot_overview llm) (context_slot_id llm) width of Some l \<Rightarrow> [l] | None \<Rightarrow> []) else [])"

section \<open>The rows\<close>

definition mtp_cell :: "LlmStats \<Rightarrow> rstr \<times> Color" where
  "mtp_cell llm = (if spec_is_mtp llm
     then ((case opt_filter (\<lambda>n. 0 < n) (spec_n_max llm) of Some n \<Rightarrow> lit ''MTP'' @ show_word n | None \<Rightarrow> lit ''MTP''), WHITE)
     else if spec_enabled llm then (lit ''SPEC'', WHITE) else (lit ''MTP OFF'', MUTED))"

definition acc_cell :: "LlmStats \<Rightarrow> rstr \<times> Color" where
  "acc_cell llm = (case spec_acceptance_pct llm of Some v \<Rightarrow> (fmt_fixed 0 v @ lit ''%'', ORK_GREEN) | None \<Rightarrow> (EMPTY_CELL, MUTED))"

definition request_text :: "LlmStats \<Rightarrow> u64 option \<Rightarrow> rstr" where
  "request_text llm tokens = (case (0 < busy_slots llm, tokens) of (True, Some n) \<Rightarrow> grouped_u64 n | _ \<Rightarrow> EMPTY_CELL) @ lit '' tok''"

definition total_text :: "f64 option \<Rightarrow> rstr" where
  "total_text v = (case v of Some n \<Rightarrow> grouped_f64 n | None \<Rightarrow> EMPTY_CELL) @ lit '' tok''"

definition cache_cell :: "LlmStats \<Rightarrow> rstr \<times> Color" where
  "cache_cell llm = (case valid_cache_counter (prompt_cached_total llm) of Some v \<Rightarrow> (grouped_f64 v, CYAN) | None \<Rightarrow> (EMPTY_CELL, MUTED))"

definition spec_total_acceptance :: "LlmStats \<Rightarrow> f64 option" where
  "spec_total_acceptance llm = (case (spec_draft_tokens llm, spec_accepted_tokens llm) of
     (Some draft, Some accepted) \<Rightarrow> if Fin 0 < draft then Some (fclamp (Fin 0) (Fin 100) (fmul (fdiv accepted draft) (Fin 100))) else None
   | _ \<Rightarrow> None)"

definition req_cell :: "LlmStats \<Rightarrow> rstr \<times> Color" where
  "req_cell llm = (case (active_requests llm, deferred_requests llm) of
     (Some a, Some d) \<Rightarrow> (fmt_fixed 0 a @ lit ''/'' @ fmt_fixed 0 d, WHITE) | _ \<Rightarrow> (EMPTY_CELL, MUTED))"

definition rate_active :: "LlmStats \<Rightarrow> f64 option \<Rightarrow> bool" where
  "rate_active llm v \<longleftrightarrow> \<not> reconnecting llm \<and> is_some_and (\<lambda>x. ACTIVE_RATE < x) v"

definition metric_width :: "u16 \<Rightarrow> nat" where
  "metric_width width = min (max ((unat width - 12) div 2) 16) 30"

definition state_line :: "(rstr \<Rightarrow> nat) \<Rightarrow> u16 \<Rightarrow> LlmStats \<Rightarrow> GpuMapping \<Rightarrow> Span list" where
  "state_line dw width llm m = (let (mtp, mtp_color) = mtp_cell llm; (acc, acc_color) = acc_cell llm; (req, req_color) = req_cell llm;
       (cache, cache_color) = cache_cell llm;
       full = [label_span (lit '' SLOTS      ''), value_span (slots_text llm) WHITE, llm_sep, label_span (lit ''REQ ''), value_span req req_color,
         llm_sep, value_span mtp mtp_color, llm_sep, label_span (lit ''ACC ''), value_span acc acc_color] @
         (if 82 \<le> width then [llm_sep, label_span (lit ''CACHE ''), value_span cache cache_color] else []);
       line = (if width < 66 then [label_span (lit '' SLOTS      ''), value_span (slots_text llm) WHITE, raw_span (lit ''  ''), value_span mtp mtp_color] else full)
     in line @ (if 103 \<le> width then [llm_sep, label_span (lit ''GPU ''),
       case gpu_attribution_label dw m of Some l \<Rightarrow> value_span l WHITE | None \<Rightarrow> value_span EMPTY_CELL MUTED] else []))"

definition hero_line :: "u16 \<Rightarrow> LlmStats \<Rightarrow> Span list" where
  "hero_line width llm = (let tg_active = rate_active llm (generation_tps llm); pp_active = rate_active llm (prompt_tps llm) in
     [label_span (lit '' STATE      ''), value_span (fst (llm_phase llm)) (snd (llm_phase llm)), llm_sep, label_span (lit ''DECODE ''),
      styled (tok_s (generation_tps llm)) ((fg (if tg_active then BRIGHT_GREEN else MUTED))\<lparr>sy_bold := tg_active\<rparr>)] @
     (if 78 \<le> width then [llm_sep, label_span (lit ''PREFILL ''), value_span (tok_s (prompt_tps llm)) (if pp_active then WHITE else MUTED),
        llm_sep, label_span (lit ''CTX ''),
        if context_used llm \<noteq> None \<and> 0 < context_size llm
        then value_span (fmt_fixed 1 (context_pct llm) @ lit ''%'') (context_color (context_pct llm)) else value_span EMPTY_CELL MUTED] else []))"

definition model_line :: "LlmStats \<Rightarrow> Span list" where
  "model_line llm = [label_span (lit '' MODEL      ''), styled (model llm) (bold WHITE)]"

definition link_line :: "rstr \<times> Color \<Rightarrow> rstr \<Rightarrow> rstr \<Rightarrow> Span list" where
  "link_line link uptime recency = [label_span (lit '' LINK       ''), value_span (fst link) (snd link), llm_sep, label_span (lit ''UPTIME ''),
     value_span uptime MUTED, llm_sep, label_span (lit ''SAMPLE ''), value_span recency MUTED]"

definition metric_pair :: "string \<Rightarrow> nat \<Rightarrow> rstr \<times> Color \<Rightarrow> rstr \<times> Color \<Rightarrow> Span list" where
  "metric_pair label width a b = [label_span (lit label), llm_metric_cell (fst a) width (snd a) False, llm_metric_cell (fst b) width (snd b) False]"

definition llm_spec_row :: "LlmStats \<Rightarrow> nat \<Rightarrow> f64 option \<Rightarrow> Span list" where
  "llm_spec_row llm width rate_pct = (
     if \<not> spec_enabled llm then [label_span (lit '' SPEC       ''), value_span (lit ''OFF'') MUTED]
     else if spec_drafts_total llm = None \<and> spec_draft_tokens llm = None \<and> spec_accepted_tokens llm = None
     then metric_pair '' SPEC TOK   '' width (lit ''no counters'', MUTED) (EMPTY_CELL, MUTED)
     else let
         draft = (case spec_draft_tokens llm of None \<Rightarrow> EMPTY_CELL | Some v \<Rightarrow> grouped_f64 v) @ lit '' draft'';
         accepted = (case (rate_pct, spec_accepted_tokens llm) of
            (Some rate, Some a) \<Rightarrow> grouped_f64 a @ lit '' accepted '' @ [183] @ lit '' '' @ fmt_fixed 1 rate @ lit ''%''
          | (None, Some a) \<Rightarrow> grouped_f64 a @ lit '' accepted'' | (_, None) \<Rightarrow> EMPTY_CELL @ lit '' accepted'')
       in metric_pair '' SPEC TOK   '' width (draft, CYAN) (accepted, ORK_GREEN))"

definition seconds_text :: "f64 option \<Rightarrow> rstr" where
  "seconds_text v = (case v of None \<Rightarrow> EMPTY_CELL | Some x \<Rightarrow> fmt_fixed 1 x) @ lit '' s''"

definition detail_rows :: "u16 \<Rightarrow> nat \<Rightarrow> LlmStats \<Rightarrow> Span list list" where
  "detail_rows height width llm = (let (cache, cache_color) = cache_cell llm in
     (if 10 \<le> height then [metric_pair '' CACHE      '' width
        (case valid_cache_counter (prompt_cached_total llm) of Some v \<Rightarrow> grouped_f64 v @ lit '' tok'' | None \<Rightarrow> EMPTY_CELL, cache_color) (EMPTY_CELL, MUTED)] else []) @
     (if 11 \<le> height then [llm_spec_row llm width (spec_total_acceptance llm)] else []) @
     (if 12 \<le> height then [metric_pair '' TIME       '' width (seconds_text (prompt_seconds_total llm), MUTED) (seconds_text (generation_seconds_total llm), MUTED)] else []))"

text \<open>The status of the link is read twice, for its text and for its colour.\<close>

definition llm_rows :: "(rstr \<Rightarrow> nat) \<Rightarrow> (nat \<Rightarrow> instant) \<Rightarrow> Rect \<Rightarrow> LlmStats \<Rightarrow> LlmHistory \<Rightarrow> GpuMapping \<Rightarrow> Span list list" where
  "llm_rows dw clock inner llm lh m = (let width = rc_width inner; mw = metric_width width;
       request_color = (if \<not> reconnecting llm \<and> 0 < busy_slots llm then WHITE else MUTED)
     in [model_line llm,
         link_line (fst (llm_link_status lh llm (clock 0)), snd (llm_link_status lh llm (clock 1))) (llm_uptime_text lh (clock 2)) (llm_last_sample_text lh llm (clock 3)),
         hero_line width llm,
         state_line dw width llm m,
         metric_pair '' AVG (LIFE) '' mw (tok_s (prompt_avg_tps llm), MUTED) (tok_s (generation_avg_tps llm), MUTED),
         metric_pair '' REQUEST    '' mw (request_text llm (request_prompt_tokens llm), request_color) (request_text llm (request_generated_tokens llm), request_color),
         metric_pair '' TOTAL      '' mw (total_text (prompt_total llm), WHITE) (total_text (generated_total llm), WHITE),
         context_line width llm] @ overview_rows llm width @ detail_rows (rc_height inner) mw llm)"

section \<open>The panel\<close>

definition draw_llm_metrics_unavailable :: "(nat \<Rightarrow> instant) \<Rightarrow> Rect \<Rightarrow> LlmStats \<Rightarrow> LlmHistory \<Rightarrow> frame" where
  "draw_llm_metrics_unavailable clock inner llm lh = (let
       rows = [model_line llm,
         link_line (llm_link_status lh llm (clock 0)) (llm_uptime_text lh (clock 1)) (llm_last_sample_text lh llm (clock 2)),
         [label_span (lit '' METRICS    ''), value_span (lit ''UNAVAILABLE'') YELLOW, llm_sep, label_span (lit ''SLOTS ''), value_span (slots_text llm) CYAN],
         [label_span (lit '' LLAMA      ''), styled (metrics_unavailable_reason (error_text llm)) (fg MUTED)],
         context_line (rc_width inner) llm] @ overview_rows llm (rc_width inner);
       rows = take (unat (rc_height inner)) rows
     in if rows = [] then [] else [(inner, paint_lines rows)])"

definition offline_status :: "LlmStats \<Rightarrow> rstr \<times> Color" where
  "offline_status llm = (if llm_metrics_disabled (error_text llm) then (lit ''METRICS OFF'', YELLOW)
     else if reconnecting llm then (lit ''RECONNECTING'', YELLOW) else (lit ''SERVER OFFLINE'', RED))"

definition offline_reason :: "LlmStats \<Rightarrow> rstr" where
  "offline_reason llm = (if llm_metrics_disabled (error_text llm) then lit ''restart server with --metrics''
     else if reconnecting llm then lit ''connection lost '' @ [183] @ lit '' retrying (held sample)''
     else if trim (error_text llm) = [] then lit ''no response from the server '' @ EMPTY_CELL @ lit '' check host and port''
     else error_text llm)"

definition draw_llm_offline :: "(nat \<Rightarrow> instant) \<Rightarrow> Rect \<Rightarrow> LlmStats \<Rightarrow> LlmHistory \<Rightarrow> frame" where
  "draw_llm_offline clock inner llm lh = [(inner, paint_lines
     [[label_span (lit '' STATUS      ''), value_span (fst (offline_status llm)) (snd (offline_status llm))],
      [label_span (lit '' REASON      ''), styled (offline_reason llm) (fg MUTED)],
      [label_span (lit '' LAST SAMPLE ''), value_span (llm_last_sample_text lh llm (clock 0)) MUTED],
      [label_span (lit '' UPTIME      ''), value_span EMPTY_CELL MUTED]])]"

definition draw_llm :: "Ratatui \<Rightarrow> (nat \<Rightarrow> instant) \<Rightarrow> (nat \<Rightarrow> nat \<Rightarrow> instant) \<Rightarrow> Rect \<Rightarrow> LlmStats \<Rightarrow> LlmHistory \<Rightarrow> GpuMapping \<Rightarrow> frame" where
  "draw_llm rt clock graph_clock area llm lh m = (
     case boxed rt [raw_span (if reconnecting llm then lit '' LLM INFERENCE '' @ [183] @ lit '' STALE (held sample) '' else lit '' LLM INFERENCE '')] area of (inner, block) \<Rightarrow>
     if rc_height inner = 0 then block
     else if \<not> connected llm then block @ draw_llm_offline clock inner llm lh
     else if \<not> metrics_available llm then block @ draw_llm_metrics_unavailable clock inner llm lh
     else let rows = take (unat (rc_height inner)) (llm_rows (rt_width rt) clock inner llm lh m);
         text_height = of_nat (length rows) :: u16;
         graph_height = sat_sub (rc_height inner) text_height
       in block @ (if 0 < text_height then [(rect (rc_x inner) (rc_y inner) (rc_width inner) text_height, paint_lines rows)] else []) @
         (if 3 \<le> graph_height \<and> 40 \<le> rc_width inner
          then draw_llm_rate_history rt graph_clock (rect (rc_x inner) (sat_add (rc_y inner) text_height) (rc_width inner) graph_height) lh else []))"

section \<open>The context row fits\<close>

lemma starts_at_length: "starts_at n row pairs \<Longrightarrow> line_length row = n + line_length pairs"
  by (auto simp: starts_at_def)

lemma starts_at_text: "starts_at n row pairs \<Longrightarrow> \<exists>u. line_text row = u @ line_text pairs"
  by (auto simp: starts_at_def line_text_def)

lemma length_fmt_tenth:
  assumes "Fin 0 \<le> v" "v \<le> Fin 100"
  shows "length (fmt_fixed 1 v) \<le> 5"
proof -
  obtain q where q: "v = Fin q" "0 \<le> q" "q \<le> 100" using assms by (cases v) auto
  then have "round_half_even (q * 10) \<le> 1000" using round_half_even_le_int [of "q * 10" 1000] by simp
  then have "nat (round_half_even (q * 10)) div 10 < 1000" by simp
  then have "length (show_nat (nat (round_half_even (q * 10)) div 10)) \<le> 3" by (rule length_show_nat_le)
  moreover have "length (zero_left 1 (show_nat (n mod 10))) = 1" for n
    by (subst show_nat.simps) (simp add: zero_left_def)
  ultimately show ?thesis using q by (simp add: fmt_fixed_def Let_def lit_def)
qed

lemma context_pct_range: "Fin 0 \<le> context_pct llm \<and> context_pct llm \<le> Fin 100"
proof -
  have "Fin 0 \<le> fclamp (Fin 0) (Fin 100) (fmul (fdiv (f64_of_u64 u) (f64_of_u64 c)) (Fin 100)) \<and>
      fclamp (Fin 0) (Fin 100) (fmul (fdiv (f64_of_u64 u) (f64_of_u64 c)) (Fin 100)) \<le> Fin 100" if c: "0 < c" for u c :: u64
  proof (intro fclamp_in_range nonneg_not_NaN fmul_nonneg)
    have "0 < unat c" using c by (simp add: word_gt_0_no unat_gt_0 word_neq_0_conv)
    then obtain b where b: "f64_of_u64 c = Fin b" "1 \<le> b"
      using f64_of_nat_u64_finite [of "unat c"] f64_of_nat_pos [of "unat c"] unsigned_less [of c, where ?'a = nat]
      by (auto simp: f64_of_u64_def is_finite_iff)
    have "0 < b" using b(2) by simp
    then show "Fin 0 \<le> fdiv (f64_of_u64 u) (f64_of_u64 c)" unfolding b(1) by (simp add: fdiv_nonneg f64_of_u64_def)
  qed simp_all
  then show ?thesis by (auto simp: context_pct_def split: option.split)
qed

lemma ctx_suffix_length: "line_length (ctx_suffix c) = length (snd c) + (case fst c of Some t \<Rightarrow> 1 + length t | None \<Rightarrow> 0)"
  by (auto simp: ctx_suffix_def lit_def split: prod.split option.split)

lemma find_SomeD: "find P xs = Some x \<Longrightarrow> P x \<and> x \<in> set xs"
  by (induction xs) (auto split: if_splits)

lemma ctx_row_metrics_cases:
  assumes "ctx_row_metrics w tag used cap = (bar, suffix)"
  shows "(\<exists>c. bar \<le> max_bar (unat w) c \<and> 4 \<le> max_bar (unat w) c \<and> suffix = ctx_suffix c \<and>
      c \<in> {(tag, pair_full used cap), (None, pair_full used cap), (None, pair_no_unit used cap), (None, pair_compact used cap), (None, [])} \<and>
      (snd c = [] \<longrightarrow> max_bar (unat w) (None, pair_compact used cap) < 4)) \<or>
    bar \<le> unat w - 15 \<and> suffix = [] \<and> max_bar (unat w) (None, pair_compact used cap) < 4"
proof (cases "find (\<lambda>c. CTX_BAR_FLOOR \<le> max_bar (unat w) c) [(tag, pair_full used cap), (None, pair_full used cap), (None, pair_no_unit used cap),
    (None, pair_compact used cap), (None, [])]")
  case None
  then have "max_bar (unat w) (None, pair_compact used cap) < 4" by (auto simp: CTX_BAR_FLOOR_def split: if_splits)
  moreover have "bar \<le> unat w - 15" "suffix = []"
    using assms unfolding ctx_row_metrics_def Let_def None by (auto simp: CTX_LABEL_CELLS_def CTX_VALUE_CELLS_def)
  ultimately show ?thesis by simp
next
  case (Some c)
  have ne: "pair_full used cap \<noteq> []" "pair_no_unit used cap \<noteq> []" "pair_compact used cap \<noteq> []"
    by (simp_all add: pair_full_def pair_no_unit_def pair_compact_def ctx_pair_def lit_def)
  have "snd c = [] \<Longrightarrow> max_bar (unat w) (None, pair_compact used cap) < 4"
    using Some ne by (auto simp: CTX_BAR_FLOOR_def split: if_splits)
  moreover have "bar \<le> max_bar (unat w) c" "suffix = ctx_suffix c" using assms unfolding ctx_row_metrics_def Let_def Some by auto
  ultimately show ?thesis using find_SomeD [OF Some] unfolding CTX_BAR_FLOOR_def by (intro disjI1 exI [of _ c]) simp
qed

lemma ctx_row_metrics_fits:
  assumes "ctx_row_metrics w tag used cap = (bar, suffix)" "15 \<le> unat w"
  shows "15 + bar + line_length suffix \<le> unat w"
proof -
  have "15 + bar + line_length (ctx_suffix c) \<le> unat w" if "bar \<le> max_bar (unat w) c" "4 \<le> max_bar (unat w) c" for c
    using that by (cases c) (auto simp: ctx_suffix_length max_bar_def CTX_LABEL_CELLS_def CTX_VALUE_CELLS_def)
  then show ?thesis using ctx_row_metrics_cases [OF assms(1)] assms(2) by (elim disjE exE conjE) auto
qed

lemma context_line_starts:
  assumes "ctx_row_metrics w (context_slot_tag w llm) (context_used llm) (context_size llm) = (bar, suffix)"
  shows "starts_at (bar + 15) (context_line w llm) suffix"
proof -
  have "length (pad_left 5 (fmt_fixed 1 (context_pct llm)) @ lit ''%'') \<le> 8"
    using length_fmt_tenth [of "context_pct llm"] context_pct_range [of llm] by (simp add: pad_left_length lit_def)
  then show ?thesis using assms by (simp add: context_line_def meter_line_starts unavailable_meter_line_starts lit_def)
qed

text \<open>
  The context row never overflows the panel, and its pair of numbers is shown whole, at worst without its unit
  and its spaces, in every panel wide enough for that and the smallest bar.
\<close>
theorem context_row_fits:
  assumes "15 \<le> unat w"
  shows "line_length (context_line w llm) \<le> unat w \<and>
    (19 + length (pair_compact (context_used llm) (context_size llm)) \<le> unat w \<longrightarrow>
      (\<exists>u. \<exists>pair \<in> {pair_full, pair_no_unit, pair_compact}. line_text (context_line w llm) = u @ pair (context_used llm) (context_size llm)))"
proof -
  obtain bar suffix where r: "ctx_row_metrics w (context_slot_tag w llm) (context_used llm) (context_size llm) = (bar, suffix)" by fastforce
  note s = context_line_starts [OF r]
  have "\<exists>u. \<exists>pair \<in> {pair_full, pair_no_unit, pair_compact}. line_text suffix = u @ pair (context_used llm) (context_size llm)"
    if fit: "19 + length (pair_compact (context_used llm) (context_size llm)) \<le> unat w"
  proof -
    have "\<not> max_bar (unat w) (None, pair_compact (context_used llm) (context_size llm)) < 4"
      using fit by (simp add: max_bar_def CTX_LABEL_CELLS_def CTX_VALUE_CELLS_def)
    then obtain c where c: "suffix = ctx_suffix c" "snd c \<noteq> []"
        "snd c \<in> {pair_full (context_used llm) (context_size llm), pair_no_unit (context_used llm) (context_size llm), pair_compact (context_used llm) (context_size llm)}"
      using ctx_row_metrics_cases [OF r] by auto
    have "\<exists>u. line_text (ctx_suffix c) = u @ snd c" using c(2)
      by (cases c) (auto simp: ctx_suffix_def line_text_def styled_def split: option.split)
    then show ?thesis using c by auto
  qed
  then show ?thesis
    using starts_at_length [OF s] starts_at_text [OF s] ctx_row_metrics_fits [OF r assms] by (metis add.commute append.assoc)
qed

theorem context_row_fits_witness:
  "line_length (context_line 20 (LlmStats_default\<lparr>context_used := Some 1234567, context_size := 2345678\<rparr>)) \<le> 20"
  using context_row_fits [of 20 "LlmStats_default\<lparr>context_used := Some 1234567, context_size := 2345678\<rparr>"] by simp

section \<open>The slot overview fits\<close>

lemma overview_kept_props:
  "overview_kept P n \<le> n \<and> (overview_kept P n = 0 \<or> P (overview_kept P n)) \<and> (\<forall>j. overview_kept P n < j \<longrightarrow> j \<le> n \<longrightarrow> \<not> P j)"
proof (induction P n rule: overview_kept.induct)
  case (1 P n)
  show ?case
  proof (cases "0 < n \<and> \<not> P n")
    case True
    then have "overview_kept P n = overview_kept P (n - 1)" by (subst overview_kept.simps) simp
    moreover have "\<not> P j" if "overview_kept P (n - 1) < j" "j \<le> n" for j
      using 1 True that by (cases "j = n") auto
    ultimately show ?thesis using 1 True by auto
  next
    case False
    then have "overview_kept P n = n" by (subst overview_kept.simps) auto
    then show ?thesis using False by auto
  qed
qed

lemma overview_spans_tail:
  "0 < i \<Longrightarrow> line_text (concat (map (\<lambda>(index, s, c). (if 0 < index then [raw_span g] else []) @ [value_span s c]) (enumerate i es)))
    = concat (map (\<lambda>e. g @ fst e) es)"
  by (induction es arbitrary: i) (auto simp: line_text_def raw_span_def value_span_def styled_def)

lemma overview_spans_text: "line_text (overview_spans es) = join (lit ''   '') (map fst es)"
proof (cases es)
  case (Cons e rest)
  obtain s c where e: "e = (s, c)" by fastforce
  have "line_text (overview_spans es) = s @ concat (map (\<lambda>e. lit ''   '' @ fst e) rest)"
    using overview_spans_tail [of 1 "lit ''   ''" rest]
    by (simp add: overview_spans_def Cons e line_text_def value_span_def styled_def)
  then show ?thesis by (simp add: Cons e join_Cons comp_def)
qed (simp add: overview_spans_def line_text_def)

definition overview_text :: "rstr list \<Rightarrow> nat \<Rightarrow> rstr" where
  "overview_text entries kept = lit '' SLOTS      '' @ join (lit ''   '') (take kept entries) @
     (if kept < length entries then lit ''  +'' @ show_nat (length entries - kept) else [])"

lemma overview_fits_iff:
  "kept \<le> length entries \<Longrightarrow> overview_fits entries w kept \<longleftrightarrow> length (overview_text entries kept) \<le> unat w"
  by (auto simp: overview_fits_def overview_text_def join_length LABEL_LEN_def ENTRY_GAP_def suffix_len_def lit_def min_absorb2 algebra_simps)

text \<open>
  C38: The overview shows as many slots as fit, the first ones in order, and says exactly how many it leaves out;
  no longer line would fit, and the row is left out only when not even one slot fits.
\<close>
theorem slot_overview_fits:
  "\<exists>kept \<le> length ss. (case llm_slot_overview_line ss selected w of
      None \<Rightarrow> kept = 0
    | Some line \<Rightarrow> 0 < kept \<and> line_text line = overview_text (map fst (slot_overview_entries ss selected)) kept \<and> line_length line \<le> unat w) \<and>
    (\<forall>j. kept < j \<longrightarrow> j \<le> length ss \<longrightarrow> unat w < length (overview_text (map fst (slot_overview_entries ss selected)) j))"
proof -
  let ?es = "slot_overview_entries ss selected" let ?k = "overview_kept (overview_fits (map fst ?es) w) (length ?es)"
  have l: "length ?es = length ss" by (simp add: slot_overview_entries_def)
  note k = overview_kept_props [of "overview_fits (map fst ?es) w" "length ?es"]
  have "\<not> overview_fits (map fst ?es) w j" if "?k < j" "j \<le> length ss" for j using k that l by simp
  then have max: "\<forall>j. ?k < j \<longrightarrow> j \<le> length ss \<longrightarrow> unat w < length (overview_text (map fst ?es) j)"
    by (simp add: overview_fits_iff l not_le)
  have t: "line_text ([label_span (lit '' SLOTS      '')] @ overview_spans (take ?k ?es) @
      (if 0 < length ?es - ?k then [value_span (lit ''  +'' @ show_nat (length ?es - ?k)) MUTED] else [])) = overview_text (map fst ?es) ?k"
    using overview_spans_text [of "take ?k ?es"]
    by (simp add: overview_text_def line_text_def label_span_def value_span_def styled_def take_map)
  show ?thesis
  proof (intro exI [of _ ?k] conjI)
    show "case llm_slot_overview_line ss selected w of None \<Rightarrow> ?k = 0
      | Some line \<Rightarrow> 0 < ?k \<and> line_text line = overview_text (map fst ?es) ?k \<and> line_length line \<le> unat w"
    proof (cases "?es = [] \<or> ?k = 0")
      case True
      then show ?thesis using k by (auto simp: llm_slot_overview_line_def Let_def)
    next
      case False
      then have "llm_slot_overview_line ss selected w = Some ([label_span (lit '' SLOTS      '')] @ overview_spans (take ?k ?es) @
        (if 0 < length ?es - ?k then [value_span (lit ''  +'' @ show_nat (length ?es - ?k)) MUTED] else []))"
        by (simp add: llm_slot_overview_line_def Let_def)
      moreover have "length (overview_text (map fst ?es) ?k) \<le> unat w" using k False overview_fits_iff [of ?k "map fst ?es" w] by auto
      ultimately show ?thesis using t False by (simp add: line_length_def)
    qed
  qed (use k l max in auto)
qed

theorem slot_overview_fits_witness:
  "\<exists>kept \<le> 2. \<forall>j. kept < j \<longrightarrow> j \<le> 2 \<longrightarrow>
     20 < length (overview_text (map fst (slot_overview_entries [\<lparr>si_id = 0, si_busy = True, si_context_used = Some 58, si_context_size = Some 512\<rparr>,
       \<lparr>si_id = 1, si_busy = False, si_context_used = None, si_context_size = None\<rparr>] (Some 0))) j)"
  using slot_overview_fits [of "[\<lparr>si_id = 0, si_busy = True, si_context_used = Some 58, si_context_size = Some 512\<rparr>,
    \<lparr>si_id = 1, si_busy = False, si_context_used = None, si_context_size = None\<rparr>]" "Some 0" 20] by auto

text \<open>
  The one unit of a pair is the capacity's: an occupancy below a thousand tokens, which has none of its own, reads as
  thousands in front of a capacity that is counted in them.
\<close>
lemma overview_unit_lost:
  "fst (slot_entry False None \<lparr>si_id = 0, si_busy = False, si_context_used = Some 900, si_context_size = Some 115000\<rparr>) = lit ''S0 900/115.0k''"
  "fst (slot_entry False None \<lparr>si_id = 0, si_busy = False, si_context_used = Some 2000, si_context_size = Some 900\<rparr>) = lit ''S0 2.0/900''"
  using round_half_even_int [of 1150] round_half_even_int [of 20]
  by (simp_all add: slot_entry_def compact_tokens_def show_word_def show_nat.simps f64_of_u64_def f64_of_nat_def fmt_fixed_def zero_left_def
      trim_end_str.simps strip_suffix_def lit_def Let_def)

end
