(* ===== verification/DialogText.thy ===== *)
theory DialogText
  imports LlmPanel Settings AppServer
begin

text \<open>
  What the dialogs of \<^verbatim>\<open>src/ui/dialogs.rs\<close> draw: the help, the server selector with its two lines for a
  server and the pinned block of servers that are not monitored, and the settings with the rows that give way on a
  short screen.
\<close>

section \<open>Popups\<close>

definition centered :: "Rect \<Rightarrow> u16 \<Rightarrow> u16 \<Rightarrow> Rect" where
  "centered area width height = rect (rc_x area + sat_sub (rc_width area) width div 2) (rc_y area + sat_sub (rc_height area) height div 2) width height"

definition popup_frame :: "Ratatui \<Rightarrow> Rect \<Rightarrow> rstr \<Rightarrow> Rect \<times> frame" where
  "popup_frame rt popup title = (rt_inner rt AllBorders popup, [(popup, PaintClear), (popup, PaintBlock [raw_span title] AllBorders ORK_GREEN)])"

definition white_line :: "rstr \<Rightarrow> Span list" where
  "white_line s = [styled s (fg WHITE)]"

section \<open>The help\<close>

definition help_title :: rstr where
  "help_title = lit '' HELP '' @ [183] @ lit '' OrsikTop ''"

definition help_entry :: "rstr \<Rightarrow> rstr \<Rightarrow> Span list" where
  "help_entry k d = [styled (lit '' '' @ pad_right 9 k) (bold ORK_GREEN), styled d (fg WHITE)]"

definition help_heading :: "rstr \<Rightarrow> Span list" where
  "help_heading s = [styled s (bold CYAN)]"

definition help_lines :: "Span list list" where
  "help_lines = [help_heading (lit '' READING THE PANEL''),
     help_entry (lit ''CTX'') (lit ''current context occupancy of the shown slot''),
     help_entry (lit ''REQUEST'') (lit ''in-flight request tokens: prompt / generated''),
     help_entry (lit ''SLOTS'') (lit ''busy / total slots (S in the selector)''),
     help_entry (lit ''PP/TG'') (lit ''prefill / decode rate (LIVE '' @ [183] @ lit '' AVG '' @ [183] @ lit '' TOTAL)''),
     help_entry (lit ''CACHE'') (lit ''lifetime cached prompt tokens; no ratio shown''),
     help_entry (lit ''STATE'') (lit ''IDLE/PREFILL/GENERATING/'' @ ELLIPSIS @ lit '' only with evidence''),
     help_entry (lit ''SAMPLE'') (lit ''sample interval, or age / STALE when not fresh''),
     help_entry EMPTY_CELL (lit ''unknown or unavailable '' @ EMPTY_CELL @ lit '' never a zero''),
     help_heading (lit '' KEYBOARD''),
     white_line (lit '' Esc quit '' @ [183] @ lit '' h help '' @ [183] @ lit '' q settings '' @ [183] @ lit '' s servers '' @ [183] @ lit '' / search''),
     white_line (lit '' -/+ refresh '' @ [183, 32, 8593] @ lit ''/k '' @ [8595] @ lit ''/j select '' @ [183] @ lit '' PgUp/PgDn jump '' @ [183] @ lit '' Home/End first/last''),
     help_heading (lit '' MOUSE''),
     white_line (lit '' click select '' @ [183] @ lit '' double-click pin '' @ [183] @ lit '' right-click expand group''),
     white_line (lit '' header click sort '' @ [183] @ lit '' wheel scroll '' @ [183] @ lit '' [-]/[+] refresh interval'')]"

definition draw_help_compact :: "Ratatui \<Rightarrow> Rect \<Rightarrow> frame" where
  "draw_help_compact rt area = (if rc_width area < 24 \<or> rc_height area < 3 then []
     else let width = min (sat_sub (rc_width area) 4) 56; height = min (max (sat_sub (rc_height area) 2) 3) 8
     in case popup_frame rt (centered area width height) help_title of (inner, painted) \<Rightarrow> painted @ [(inner, paint_lines
       [white_line (lit '' CTX context '' @ [183] @ lit '' REQUEST in-flight request''), white_line (lit '' Esc / h  close help''),
        white_line (lit '' s  servers    q  settings''), white_line (lit '' - / +  refresh interval''),
        white_line (lit '' /  search    '' @ [8593] @ lit '' / '' @ [8595] @ lit ''  select'')])])"

definition draw_help_popup :: "Ratatui \<Rightarrow> Rect \<Rightarrow> frame" where
  "draw_help_popup rt area = (let width = min (sat_sub (rc_width area) 6) 72; height = min (sat_sub (rc_height area) 4) 22
     in if width < 48 \<or> height < 16 then draw_help_compact rt area
        else case popup_frame rt (centered area width height) help_title of (inner, painted) \<Rightarrow> painted @ [(inner, paint_lines help_lines)])"

section \<open>The server selector\<close>

definition overflow_line_count :: "'a list \<Rightarrow> nat" where
  "overflow_line_count overflow = (if overflow = [] then 0 else length overflow + 1)"

definition selector_scroll :: "nat \<Rightarrow> nat \<Rightarrow> nat \<Rightarrow> nat" where
  "selector_scroll highlight all visible = (if visible = 0 \<or> all \<le> visible then 0 else min (highlight - (visible - 1)) (all - visible))"

definition selector_phase_color :: "ActivityPhase option \<Rightarrow> Color" where
  "selector_phase_color p = (if p = Some PhGenerating then ORK_GREEN else if p = Some PhPrefill then CYAN
     else if p \<in> {Some PhProcessing, Some PhQueued, Some PhReconnecting} then YELLOW else MUTED)"

definition server_backend_label :: "ServerBackend \<Rightarrow> rstr" where
  "server_backend_label b = (case b of UnknownBackend \<Rightarrow> EMPTY_CELL | LlamaCpp \<Rightarrow> lit ''llama.cpp'' | Strata \<Rightarrow> lit ''Strata'')"

definition selector_state :: "ServerSummary \<Rightarrow> rstr \<times> Color" where
  "selector_state s = (if ss_connected s then (lit ''connected'', ORK_GREEN)
     else if ss_reconnecting s then (lit ''reconnecting'', YELLOW) else (lit ''offline'', MUTED))"

definition plain_ctx_text :: "u64 option \<Rightarrow> u64 \<Rightarrow> rstr" where
  "plain_ctx_text used capacity = (if 0 < capacity
     then (case used of Some u \<Rightarrow> show_word u | None \<Rightarrow> EMPTY_CELL) @ lit ''/'' @ show_word capacity else EMPTY_CELL)"

definition selector_slots :: "ServerSummary \<Rightarrow> rstr" where
  "selector_slots s = (if ss_slots_available s then show_word (ss_busy_slots s) @ lit ''/'' @ show_word (ss_slot_count s)
     else if 0 < ss_props_slot_count s then EMPTY_CELL @ lit ''/'' @ show_word (ss_props_slot_count s) else EMPTY_CELL @ lit ''/'' @ EMPTY_CELL)"

definition selector_sample :: "ServerSummary \<Rightarrow> rstr" where
  "selector_sample s = (let age = (\<lambda>millis. format_sample_age (millis * 1000000)) in
     if ss_connected s then (case (ss_sample_interval_ms s, ss_age_ms s) of
         (Some avg, _) \<Rightarrow> lit ''~'' @ fmt_fixed 0 avg @ lit '' ms avg''
       | (None, Some millis) \<Rightarrow> age millis @ lit '' ago'' | (None, None) \<Rightarrow> EMPTY_CELL)
     else (case ss_age_ms s of Some millis \<Rightarrow> (if ss_reconnecting s then lit ''stale '' @ age millis @ lit '' ago'' else age millis @ lit '' ago'')
       | None \<Rightarrow> EMPTY_CELL))"

definition selector_header :: "('u, 'z) url_api_scheme \<Rightarrow> (rstr \<Rightarrow> nat) \<Rightarrow> rstr \<Rightarrow> nat \<Rightarrow> nat \<Rightarrow> nat \<Rightarrow> ServerSummary \<Rightarrow> Span list" where
  "selector_header api dw selected_server highlight inner_width index s = (let
       used = 3 + 17 + 13 + 13; (state, state_color) = selector_state s;
       backend_fits = (used + 11 \<le> inner_width); used' = (if backend_fits then used + 11 else used)
     in [styled ((if index = highlight then lit ''>'' else lit '' '') @ (if ss_key s = selected_server then lit ''*'' else lit '' '') @ lit '' '')
           (fg (if index = highlight then CYAN else MUTED)),
         styled (pad_cell dw (fit_cell dw (ss_label s) 16) 16 @ lit '' '') (fg WHITE),
         styled (pad_right 12 state @ lit '' '') (fg state_color),
         styled (pad_right 12 (case ss_phase s of Some p \<Rightarrow> phase_label p | None \<Rightarrow> EMPTY_CELL) @ lit '' '') (fg (selector_phase_color (ss_phase s)))] @
        (if backend_fits then [styled (pad_right 10 (server_backend_label (ss_backend s)) @ lit '' '') (fg DIM_GREEN)] else []) @
        (if used' < inner_width then [styled (fit_cell dw (compact_endpoint api (ss_endpoint s)) (inner_width - used')) (fg DIM_GREEN)] else []))"

text \<open>The cells of the second line: each is kept if it fits behind those before it.\<close>

definition keep_cell :: "nat \<Rightarrow> nat \<Rightarrow> rstr \<Rightarrow> Span list \<times> nat \<Rightarrow> Span list \<times> nat" where
  "keep_cell inner_width width cell st = (case st of (detail, used) \<Rightarrow>
     if used + width \<le> inner_width then (detail @ [styled cell (fg MUTED)], used + width) else (detail, used))"

definition selector_detail :: "nat \<Rightarrow> ServerSummary \<Rightarrow> Span list" where
  "selector_detail inner_width s = (let
       st = keep_cell inner_width 7 (pad_right 6 (lit ''S '' @ selector_slots s) @ lit '' '') ([raw_span (lit ''   '')], 3);
       st = keep_cell inner_width 18 (lit ''CTX '' @ pad_right 13 (plain_ctx_text (ss_context_used s) (ss_context_size s)) @ lit '' '') st;
       st = keep_cell inner_width 13 (pad_right 12 (tok_s (ss_generation_tps s)) @ lit '' '') st
     in fst (keep_cell inner_width (1 + length (selector_sample s)) (lit '' '' @ selector_sample s) st))"

definition selector_lines :: "('u, 'z) url_api_scheme \<Rightarrow> (rstr \<Rightarrow> nat) \<Rightarrow> ServerSummary list \<Rightarrow> rstr \<Rightarrow> nat \<Rightarrow> nat \<Rightarrow> Span list list" where
  "selector_lines api dw servers selected_server highlight inner_width =
     concat (map (\<lambda>(index, s). [selector_header api dw selected_server highlight inner_width index s, selector_detail inner_width s]) (enumerate 0 servers)) @
     (if servers = [] then [[styled (lit ''no servers known'') (fg MUTED)]] else [])"

definition RULE :: rstr where "RULE = [9472, 9472]"

definition overflow_lines :: "('u, 'z) url_api_scheme \<Rightarrow> (rstr \<Rightarrow> nat) \<Rightarrow> ServerSpec list \<Rightarrow> Span list list" where
  "overflow_lines api dw overflow = (if overflow = [] then []
     else [styled (RULE @ lit '' NOT MONITORED '' @ [183] @ lit '' server limit reached ('' @ show_nat (length overflow) @ lit '') '' @ RULE) (fg YELLOW)] #
       map (\<lambda>spec. [styled (lit ''  '' @ [10007, 32]) (fg YELLOW), styled (fit_cell dw (compact_endpoint api (sv_endpoint spec)) 40) (fg MUTED),
          styled (lit ''  not monitored '' @ EMPTY_CELL @ lit '' limit reached'') (fg MUTED)]) overflow)"

definition overflow_shown :: "nat \<Rightarrow> bool \<Rightarrow> nat \<Rightarrow> nat" where
  "overflow_shown inner_h any_server whole = min whole (if \<not> any_server then inner_h else min (inner_h - 1) (max (inner_h div 2) 1))"

definition list_scroll :: "nat \<Rightarrow> nat \<Rightarrow> nat \<Rightarrow> nat" where
  "list_scroll highlight lines_count viewport = (let
       window = (if 2 \<le> viewport then viewport - viewport mod 2 else viewport);
       scroll = selector_scroll (highlight * 2 + 1) lines_count window
     in scroll - scroll mod 2)"

definition clipped_overflow :: "Span list list \<Rightarrow> nat \<Rightarrow> Span list list" where
  "clipped_overflow rows shown = (let hidden = length rows - shown; kept = take shown rows in
     if 0 < hidden \<and> 2 \<le> shown
     then butlast kept @ [[styled (lit ''  '' @ ELLIPSIS @ lit '' '' @ show_nat (hidden + 1) @ lit '' more not monitored'') (fg YELLOW)]]
     else kept)"

definition selector_height :: "nat \<Rightarrow> nat \<Rightarrow> u16 \<Rightarrow> u16" where
  "selector_height servers overflow_rows area_height = max (min (of_nat servers * 2 + of_nat overflow_rows + 4) (sat_sub area_height 4)) 5"

definition draw_server_selector ::
  "('u, 'z) url_api_scheme \<Rightarrow> Ratatui \<Rightarrow> Rect \<Rightarrow> ServerSummary list \<Rightarrow> rstr \<Rightarrow> nat \<Rightarrow> ServerSpec list \<Rightarrow> frame" where
  "draw_server_selector api rt area servers selected_server highlight overflow = (let
       width = min (sat_sub (rc_width area) 6) 78;
       height = selector_height (length servers) (overflow_line_count overflow) (rc_height area)
     in if width < 48 \<or> height < 5 then []
        else let highlight = (if servers = [] then 0 else min highlight (length servers - 1));
            position = (if servers = [] then lit ''0/0'' else show_nat (highlight + 1) @ lit ''/'' @ show_nat (length servers));
            popup = popup_frame rt (centered area width height) (lit '' LLM SERVERS '' @ position @ lit '' '' @ [183] @ lit '' Up/Down '' @ [183] @ lit '' Enter select '' @ [183] @ lit '' Esc close '');
            inner = fst popup
          in if rc_width inner = 0 \<or> rc_height inner = 0 then snd popup
             else let rows = selector_lines api (rt_width rt) servers selected_server highlight (unat (rc_width inner));
                 limits = overflow_lines api (rt_width rt) overflow;
                 shown = overflow_shown (unat (rc_height inner)) (servers \<noteq> []) (length limits);
                 viewport = unat (rc_height inner) - shown
               in snd popup @
                 (if 0 < viewport then [(rect (rc_x inner) (rc_y inner) (rc_width inner) (of_nat viewport),
                    PaintScrolled rows (list_scroll highlight (length rows) viewport))] else []) @
                 (if 0 < shown then [(rect (rc_x inner) (rc_y inner + of_nat viewport) (rc_width inner) (of_nat shown), paint_lines (clipped_overflow limits shown))] else []))"

section \<open>The highlighted server stays visible\<close>

lemma list_scroll_window:
  assumes "h < n" "2 \<le> viewport"
  shows "list_scroll h (2 * n) viewport \<le> 2 * h" "2 * h + 1 < list_scroll h (2 * n) viewport + viewport"
proof -
  obtain k where k: "viewport - viewport mod 2 = 2 * k" "1 \<le> k" "2 * k \<le> viewport"
    using assms(2) by (metis One_nat_def diff_le_self dvd_minus_mod dvdE div_greater_zero_iff minus_mod_eq_mult_div nat_mult_le_cancel_disj Suc_leI zero_less_numeral)
  have "selector_scroll (h * 2 + 1) (2 * n) (2 * k) = (if n \<le> k then 0 else 2 * min (h + 1 - k) (n - k))"
    using k(2) by (auto simp: selector_scroll_def min_def)
  then have e: "list_scroll h (2 * n) viewport = (if n \<le> k then 0 else 2 * min (h + 1 - k) (n - k))"
    using assms(2) k(1) by (simp add: list_scroll_def Let_def)
  show "list_scroll h (2 * n) viewport \<le> 2 * h" using k(2) assms(1) by (auto simp: e min_def)
  show "2 * h + 1 < list_scroll h (2 * n) viewport + viewport" using k(3) assms(1) by (auto simp: e min_def)
qed

lemma nth_pairs:
  "i < length xs \<Longrightarrow> concat (map (\<lambda>x. [f x, g x]) xs) ! (2 * i) = f (xs ! i) \<and> concat (map (\<lambda>x. [f x, g x]) xs) ! (2 * i + 1) = g (xs ! i)"
proof (induction xs arbitrary: i)
  case (Cons x xs)
  then show ?case by (cases i) simp_all
qed simp

lemma selector_lines_nth:
  assumes "i < length servers"
  shows "length (selector_lines api dw servers sel h w) = 2 * length servers"
    "selector_lines api dw servers sel h w ! (2 * i) = selector_header api dw sel h w i (servers ! i)"
    "selector_lines api dw servers sel h w ! (2 * i + 1) = selector_detail w (servers ! i)"
proof -
  let ?f = "\<lambda>x. selector_header api dw sel h w (fst x) (snd x)" let ?g = "\<lambda>x. selector_detail w (snd x)"
  have e: "selector_lines api dw servers sel h w = concat (map (\<lambda>x. [?f x, ?g x]) (enumerate 0 servers))"
    using assms by (auto simp: selector_lines_def case_prod_unfold)
  show "length (selector_lines api dw servers sel h w) = 2 * length servers" unfolding e by (simp add: length_concat comp_def sum_list_triv)
  show "selector_lines api dw servers sel h w ! (2 * i) = selector_header api dw sel h w i (servers ! i)"
    "selector_lines api dw servers sel h w ! (2 * i + 1) = selector_detail w (servers ! i)"
    unfolding e using nth_pairs [of i "enumerate 0 servers" ?f ?g] assms by (simp_all add: nth_enumerate_eq)
qed

text \<open>
  C37: Wherever the highlight is and however many servers are over the limit, both lines of the highlighted server are
  inside the part of the list on the screen, and the block that names the servers not monitored keeps its header.
\<close>
theorem selector_shows_highlight:
  assumes "servers \<noteq> []" "54 \<le> rc_width area"
    "rt_inner rt AllBorders (centered area (min (sat_sub (rc_width area) 6) 78)
       (selector_height (length servers) (overflow_line_count overflow) (rc_height area))) = inner" "3 \<le> rc_height inner" "0 < rc_width inner"
    "h = min highlight (length servers - 1)"
  shows "\<exists>view rows scroll. (view, PaintScrolled rows scroll) \<in> set (draw_server_selector api rt area servers sel highlight overflow) \<and>
    scroll \<le> 2 * h \<and> 2 * h + 1 < scroll + unat (rc_height view) \<and>
    rows ! (2 * h) = selector_header api (rt_width rt) sel h (unat (rc_width inner)) h (servers ! h) \<and>
    rows ! (2 * h + 1) = selector_detail (unat (rc_width inner)) (servers ! h) \<and>
    (overflow \<noteq> [] \<longrightarrow> (\<exists>block limits. (block, paint_lines limits) \<in> set (draw_server_selector api rt area servers sel highlight overflow) \<and>
      0 < rc_height block \<and> limits \<noteq> [] \<and> hd limits = hd (overflow_lines api (rt_width rt) overflow)))"
proof -
  let ?limits = "overflow_lines api (rt_width rt) overflow" let ?H = "unat (rc_height inner)"
  let ?shown = "overflow_shown ?H True (length ?limits)" let ?rows = "selector_lines api (rt_width rt) servers sel h (unat (rc_width inner))"
  have h: "h < length servers" using assms(1,6) by (cases servers) auto
  have H: "3 \<le> ?H" using assms(4) by (simp add: word_le_nat_alt)
  then have v: "?shown + 2 \<le> ?H" by (auto simp: overflow_shown_def)
  have u: "unat (of_nat k :: u16) = k" if "k \<le> ?H" for k
  proof -
    have "?H < 2 ^ 16" using unsigned_less [of "rc_height inner", where ?'a = nat] by simp
    then show ?thesis using that by (simp add: unat_of_nat take_bit_nat_eq_self)
  qed
  have w: "\<not> min (sat_sub (rc_width area) 6) 78 < (48 :: u16)" using assms(2) by (auto simp: word_le_nat_alt word_less_nat_alt min_def unat_sat_sub)
  have g: "\<not> selector_height (length servers) (overflow_line_count overflow) (rc_height area) < 5" by (simp add: selector_height_def)
  have d: "draw_server_selector api rt area servers sel highlight overflow =
      snd (popup_frame rt (centered area (min (sat_sub (rc_width area) 6) 78) (selector_height (length servers) (overflow_line_count overflow) (rc_height area)))
        (lit '' LLM SERVERS '' @ (show_nat (h + 1) @ lit ''/'' @ show_nat (length servers)) @ lit '' '' @ [183] @ lit '' Up/Down '' @ [183] @ lit '' Enter select '' @ [183] @ lit '' Esc close '')) @
      [(rect (rc_x inner) (rc_y inner) (rc_width inner) (of_nat (?H - ?shown)), PaintScrolled ?rows (list_scroll h (length ?rows) (?H - ?shown)))] @
      (if 0 < ?shown then [(rect (rc_x inner) (rc_y inner + of_nat (?H - ?shown)) (rc_width inner) (of_nat ?shown), paint_lines (clipped_overflow ?limits ?shown))] else [])"
    using assms(1,4,5) w g v unfolding draw_server_selector_def Let_def assms(3) popup_frame_def fst_conv assms(6)
    by (auto simp: word_gt_0)
  have o: "0 < ?shown \<and> clipped_overflow ?limits ?shown \<noteq> [] \<and> hd (clipped_overflow ?limits ?shown) = hd ?limits" if "overflow \<noteq> []"
  proof -
    have l: "2 \<le> length ?limits" using that by (cases overflow) (simp_all add: overflow_lines_def)
    then have s: "0 < ?shown" using H by (auto simp: overflow_shown_def)
    have "hd (butlast (take ?shown ?limits) @ xs) = hd ?limits \<and> butlast (take ?shown ?limits) @ xs \<noteq> []" if "2 \<le> ?shown" for xs
      using that l by (cases ?limits; cases "tl ?limits"; cases ?shown; cases "?shown - 1") auto
    then show ?thesis using s l by (auto simp: clipped_overflow_def Let_def)
  qed
  let ?view = "rect (rc_x inner) (rc_y inner) (rc_width inner) (of_nat (?H - ?shown))"
  let ?block = "rect (rc_x inner) (rc_y inner + of_nat (?H - ?shown)) (rc_width inner) (of_nat ?shown)"
  have "(?view, PaintScrolled ?rows (list_scroll h (length ?rows) (?H - ?shown))) \<in> set (draw_server_selector api rt area servers sel highlight overflow)"
    unfolding d by simp
  moreover have "unat (rc_height ?view) = ?H - ?shown" using u [of "?H - ?shown"] by (simp add: rect_def)
  moreover have "list_scroll h (length ?rows) (?H - ?shown) \<le> 2 * h \<and> 2 * h + 1 < list_scroll h (length ?rows) (?H - ?shown) + (?H - ?shown)"
    using list_scroll_window [OF h, of "?H - ?shown"] v by (simp add: selector_lines_nth(1) [OF h])
  moreover have "(?block, paint_lines (clipped_overflow ?limits ?shown)) \<in> set (draw_server_selector api rt area servers sel highlight overflow) \<and> 0 < rc_height ?block"
    if "overflow \<noteq> []"
    using o [OF that] u [of ?shown] v unfolding d by (simp add: rect_def word_gt_0_no word_neq_0_conv) (metis unat_0 less_numeral_extra(3) word_neq_0_conv)
  ultimately show ?thesis using selector_lines_nth(2,3) [OF h, of api "rt_width rt" sel h] o by metis
qed

definition example_summary :: ServerSummary where
  "example_summary = \<lparr>ss_key = lit ''a'', ss_endpoint = lit ''http://a:80'', ss_label = lit ''a'', ss_connected = True, ss_reconnecting = False,
     ss_phase = None, ss_age_ms = None, ss_sample_interval_ms = None, ss_backend = LlamaCpp, ss_slots_available = False, ss_slot_count = 0,
     ss_busy_slots = 0, ss_props_slot_count = 0, ss_context_used = None, ss_context_size = 0, ss_generation_tps = None\<rparr>"

theorem selector_shows_highlight_witness:
  "\<exists>view rows scroll. (view, PaintScrolled rows scroll) \<in> set (draw_server_selector sample_urls example_ratatui (rect 0 0 80 24) [example_summary, example_summary] [] 7 []) \<and>
    scroll \<le> 2 \<and> 3 < scroll + unat (rc_height view)"
proof -
  have i: "rt_inner example_ratatui AllBorders (centered (rect 0 0 80 24) (min (sat_sub (rc_width (rect 0 0 80 24)) 6) 78)
       (selector_height (length [example_summary, example_summary]) (overflow_line_count ([] :: ServerSpec list)) (rc_height (rect 0 0 80 24)))) = rect 4 9 72 6"
    by (simp add: example_ratatui_def centered_def rect_def selector_height_def overflow_line_count_def sat_sub_def)
  have "54 \<le> rc_width (rect 0 0 80 24)" "3 \<le> rc_height (rect 4 9 72 6)" "0 < rc_width (rect 4 9 72 6)"
    "1 = min 7 (length [example_summary, example_summary] - 1)" by (simp_all add: rect_def)
  from selector_shows_highlight [OF _ this(1) i this(2-4), of sample_urls "[]"] show ?thesis by fastforce
qed

section \<open>The settings\<close>

definition draw_settings_too_small :: "Ratatui \<Rightarrow> Rect \<Rightarrow> frame" where
  "draw_settings_too_small rt area = (if rc_width area < 12 \<or> rc_height area < 5 then []
     else case popup_frame rt (centered area (min 48 (rc_width area)) (min 3 (rc_height area))) (lit '' SETTINGS '') of (inner, painted) \<Rightarrow>
       painted @ [(inner, paint_lines [[styled (lit '' Terminal too small for settings (need 60x19)'') (fg MUTED)]])])"

definition fit_tail :: "rstr \<Rightarrow> nat \<Rightarrow> rstr" where
  "fit_tail s width = (if length s \<le> width then s else if width = 0 then [] else ELLIPSIS @ drop (length s - (width - 1)) s)"

definition display_label :: "('u, 'z) url_api_scheme \<Rightarrow> rstr \<Rightarrow> rstr" where
  "display_label api endpoint = safe_endpoint api endpoint"

definition edited_style :: Style where
  "edited_style = (bold BRIGHT_GREEN)\<lparr>sy_bg := Some PROCESS_SELECTED_BG\<rparr>"

definition field_line :: "(rstr \<Rightarrow> nat) \<Rightarrow> 'u Settings \<Rightarrow> SettingsField \<Rightarrow> string \<Rightarrow> rstr \<Rightarrow> Span list" where
  "field_line dw s field label v = (let selected = (st_field s = field) in
     [styled (lit '' '' @ pad_right 18 (lit label)) (fg (if selected then CYAN else MUTED)),
      styled (lit '' '' @ pad_cell dw v 42) (if selected then edited_style else fg WHITE)])"

definition primary_endpoint :: "('u, 'z) url_edit_api_scheme \<Rightarrow> 'u Settings \<Rightarrow> rstr option" where
  "primary_endpoint api s = (case settings_endpoint api s of Inr e \<Rightarrow> Some e | Inl _ \<Rightarrow> None)"

definition endpoint_preview :: "('u, 'z) url_edit_api_scheme \<Rightarrow> 'u Settings \<Rightarrow> rstr" where
  "endpoint_preview api s = (case primary_endpoint api s of None \<Rightarrow> ELLIPSIS
     | Some e \<Rightarrow> if safe_endpoint api e = UNPARSEABLE_ENDPOINT then compact_endpoint api e else safe_endpoint api e)"

definition server_list_focused :: "'u Settings \<Rightarrow> bool" where
  "server_list_focused s \<longleftrightarrow> st_field s = FServerList"

definition KEEP :: nat where "KEEP = 0"
definition PRIMARY_ROW :: nat where "PRIMARY_ROW = 1"
definition SPACER :: nat where "SPACER = 2"
definition FOOTER :: nat where "FOOTER = 3"

type_synonym row = "Span list \<times> nat"

definition settings_head :: "('u, 'z) url_edit_api_scheme \<Rightarrow> (rstr \<Rightarrow> nat) \<Rightarrow> 'u Settings \<Rightarrow> u16 \<Rightarrow> nat \<Rightarrow> row list" where
  "settings_head api dw s width entry_width = (let field = field_line dw s in
     [([styled (lit '' RUNTIME / CONNECTION'') (bold CYAN)], KEEP),
      (field FHost ''LLM Host/IP'' (fit_cell dw (st_host s) 40), KEEP),
      (field FPort ''LLM Port'' (st_port s), KEEP),
      (field FGpu ''GPU'' (st_gpu s), KEEP),
      (field FRefresh ''Refresh'' (st_refresh s @ lit '' ms''), KEEP),
      (field FProcessRefresh ''Process refresh'' (st_process_refresh s @ lit '' ms''), KEEP),
      (field FOfflineGrace ''Offline grace'' (st_offline_grace s @ lit '' ms''), KEEP),
      (field FAutoDiscovery ''Auto discovery'' (if st_auto s then lit ''ON'' else lit ''OFF''), KEEP),
      ([raw_span []], SPACER),
      ([styled (lit '' Endpoint          '') (fg MUTED), styled (fit_cell dw (endpoint_preview api s) (unat width - 20)) (fg CYAN)], KEEP),
      ([raw_span []], SPACER),
      ([styled (lit '' SERVER LIST'') (bold (if server_list_focused s then BRIGHT_GREEN else CYAN)),
        styled (lit ''  '' @ show_nat (length (st_servers s)) @ lit '' additional '' @ [183] @ lit '' monitored '' @
          show_nat (mo_monitored (settings_server_monitoring api s)) @ lit ''/'' @ show_nat MAX_MONITORED_SERVERS) (fg MUTED)], KEEP)] @
     (if primary_endpoint api s \<noteq> None
      then [([styled (lit ''   '') (fg MUTED), styled (pad_right entry_width (fit_cell dw (endpoint_preview api s) entry_width)) (fg WHITE), styled (lit ''  primary'') (fg DIM_GREEN)], PRIMARY_ROW)]
      else []))"

definition error_row :: "rstr \<Rightarrow> row" where
  "error_row e = ([styled (lit '' '' @ e) (bold RED)], KEEP)"

definition shown_error :: "'u Settings \<Rightarrow> rstr option" where
  "shown_error s = (case st_error s of Some e \<Rightarrow> Some e | None \<Rightarrow> st_server_error s)"

definition muted_row :: "rstr \<Rightarrow> nat \<Rightarrow> row" where
  "muted_row t priority = ([styled t (fg MUTED)], priority)"

definition settings_tail :: "('u, 'z) url_edit_api_scheme \<Rightarrow> 'u Settings \<Rightarrow> u16 \<Rightarrow> row list" where
  "settings_tail api s width = (let overflow = mo_overflow (settings_server_monitoring api s) in
     (if 0 < overflow then [([styled (lit '' '' @ show_nat overflow @ lit '' beyond the '' @ show_nat MAX_MONITORED_SERVERS @ lit ''-server limit: kept, not monitored'') (fg YELLOW)], KEEP)] else []) @
     (case st_draft s of
        Some draft \<Rightarrow> [([styled (if st_edit_index s \<noteq> None then lit '' edit '' else lit '' add  '') (fg ORK_GREEN),
            styled (fit_tail (mask_draft draft @ lit ''_'') (unat width - 10)) edited_style], KEEP),
          muted_row (lit '' Enter keep entry   Esc discard entry'') FOOTER]
      | None \<Rightarrow> if server_list_focused s
          then [muted_row (lit '' a add   e edit   d delete   '' @ [8593, 8595] @ lit '' move   Enter save'') KEEP] else []) @
     (case shown_error s of Some e \<Rightarrow> [error_row e] | None \<Rightarrow> []) @
     (if st_draft s = None then [([raw_span []], FOOTER),
        muted_row (lit '' Tab / '' @ [8593, 8595] @ lit '' select   Type to edit   Space / '' @ [8592, 8594] @ lit '' toggle   Enter apply + save'') FOOTER,
        muted_row (lit '' Esc cancel   Auto discovery uses a detected local llama server first'') FOOTER] else []))"

definition entry_row :: "('u, 'z) url_edit_api_scheme \<Rightarrow> (rstr \<Rightarrow> nat) \<Rightarrow> 'u Settings \<Rightarrow> nat \<Rightarrow> nat \<Rightarrow> nat \<times> rstr \<Rightarrow> row" where
  "entry_row api dw s entry_width highlight entry = (case entry of (index, endpoint) \<Rightarrow> let
       selected = (server_list_focused s \<and> index = highlight);
       (status, status_color) = (if unwrap_or False (nth_opt index (mo_flags (settings_server_monitoring api s)))
         then (lit ''monitored'', DIM_GREEN) else (lit ''not monitored'', YELLOW))
     in ([styled (if selected then lit '' > '' else lit ''   '') (fg (if selected then CYAN else MUTED)),
          styled (pad_right entry_width (fit_cell dw (display_label api endpoint) entry_width)) (if selected then edited_style else fg WHITE),
          styled (lit ''  '' @ status) (fg status_color)], KEEP))"

definition window_budget :: "nat \<Rightarrow> nat \<Rightarrow> nat \<Rightarrow> nat \<Rightarrow> bool \<Rightarrow> nat" where
  "window_budget entries others mandatory_others inner_rows drafting = (if entries + others \<le> inner_rows then entries
     else max (max (inner_rows - others) (min (inner_rows - mandatory_others) (min entries 4))) (if drafting then 0 else 1))"

definition settings_window :: "('u, 'z) url_edit_api_scheme \<Rightarrow> (rstr \<Rightarrow> nat) \<Rightarrow> 'u Settings \<Rightarrow> nat \<Rightarrow> nat \<Rightarrow> row list" where
  "settings_window api dw s entry_width budget = (let extras = st_servers s; n = length extras in
     if n = 0 then [muted_row (lit ''   (none yet; press a here to add one)'') KEEP]
     else let
         more_row = (budget < n \<and> 2 \<le> budget);
         visible = (if more_row then budget - 1 else min n budget);
         highlight = min (st_index s) (n - 1);
         start = selector_scroll highlight n visible
       in map (entry_row api dw s entry_width highlight) (take visible (drop start (enumerate 0 extras))) @
         (if more_row then [muted_row (lit ''   '' @ ELLIPSIS @ lit '' '' @ show_nat (n - visible) @ lit '' more'') KEEP] else []))"

definition mandatory :: "row list \<Rightarrow> row list" where
  "mandatory rows = filter (\<lambda>r. snd r = KEEP) rows"

definition settings_all_rows :: "('u, 'z) url_edit_api_scheme \<Rightarrow> (rstr \<Rightarrow> nat) \<Rightarrow> 'u Settings \<Rightarrow> u16 \<Rightarrow> nat \<Rightarrow> row list" where
  "settings_all_rows api dw s width inner_rows = (let
       entry_width = min (unat width - (2 + 3 + 15)) 40;
       head_rows = settings_head api dw s width entry_width; tail_rows = settings_tail api s width; others = head_rows @ tail_rows;
       budget = window_budget (length (st_servers s)) (length others) (length (mandatory others)) inner_rows (st_draft s \<noteq> None)
     in head_rows @ settings_window api dw s entry_width budget @ tail_rows)"

text \<open>The rows give way from the end, priority by priority.\<close>

fun rposition :: "('a \<Rightarrow> bool) \<Rightarrow> 'a list \<Rightarrow> nat option" where
  "rposition P [] = None"
| "rposition P (x # xs) = (case rposition P xs of Some i \<Rightarrow> Some (i + 1) | None \<Rightarrow> if P x then Some 0 else None)"

lemma rposition_Some: "rposition P xs = Some i \<Longrightarrow> i < length xs \<and> P (xs ! i)"
  by (induction xs arbitrary: i) (auto split: option.splits if_splits)

lemma rposition_None: "rposition P xs = None \<longleftrightarrow> (\<forall>x \<in> set xs. \<not> P x)"
  by (induction xs) (auto split: option.splits if_splits)

function drop_rows :: "nat \<Rightarrow> nat \<Rightarrow> row list \<Rightarrow> row list" where
  "drop_rows limit priority rows = (if limit < length rows
     then (case rposition (\<lambda>r. snd r = priority) rows of None \<Rightarrow> rows | Some i \<Rightarrow> drop_rows limit priority (remove_at i rows)) else rows)"
  by pat_completeness auto
termination
  by (relation "measure (\<lambda>(_, _, rows). length rows)") (auto simp: length_remove_at dest: rposition_Some)

declare drop_rows.simps [simp del]

definition settings_rows :: "('u, 'z) url_edit_api_scheme \<Rightarrow> (rstr \<Rightarrow> nat) \<Rightarrow> 'u Settings \<Rightarrow> u16 \<Rightarrow> nat \<Rightarrow> row list" where
  "settings_rows api dw s width inner_rows = foldl (\<lambda>rows priority. drop_rows inner_rows priority rows)
     (settings_all_rows api dw s width inner_rows) [FOOTER, SPACER, PRIMARY_ROW]"

definition draw_settings_popup :: "('u, 'z) url_edit_api_scheme \<Rightarrow> Ratatui \<Rightarrow> Rect \<Rightarrow> 'u Settings \<Rightarrow> frame" where
  "draw_settings_popup api rt area s = (let width = min (sat_sub (rc_width area) 6) 74; max_height = sat_sub (rc_height area) 4
     in if width < 54 \<or> max_height < 15 then draw_settings_too_small rt area
        else let rows = map fst (settings_rows api (rt_width rt) s width (unat (max_height - 2)));
            height = min (of_nat (length rows) + 2) max_height
          in case popup_frame rt (centered area width height) (lit '' SETTINGS '' @ [183] @ lit '' OrsikTop '') of (inner, painted) \<Rightarrow>
               painted @ [(inner, paint_lines rows)])"

section \<open>What gives way on a short screen\<close>

lemmas priorities = KEEP_def PRIMARY_ROW_def SPACER_def FOOTER_def

lemma mandatory_append [simp]: "mandatory (xs @ ys) = mandatory xs @ mandatory ys"
  by (simp add: mandatory_def)

lemma mandatory_idem [simp]: "mandatory (mandatory xs) = mandatory xs"
  by (simp add: mandatory_def)

lemma filter_remove_at: "i < length xs \<Longrightarrow> \<not> P (xs ! i) \<Longrightarrow> filter P (remove_at i xs) = filter P xs"
proof -
  assume i: "i < length xs" "\<not> P (xs ! i)"
  have "filter P xs = filter P (take i xs @ xs ! i # drop (Suc i) xs)" using id_take_nth_drop [OF i(1)] by simp
  then show ?thesis using i(2) by (simp add: remove_at_def)
qed

lemma drop_rows_props:
  "(p \<noteq> KEEP \<longrightarrow> mandatory (drop_rows n p rows) = mandatory rows) \<and> set (drop_rows n p rows) \<subseteq> set rows \<and>
   (length (drop_rows n p rows) \<le> n \<or> (\<forall>r \<in> set (drop_rows n p rows). snd r \<noteq> p))"
proof (induction n p rows rule: drop_rows.induct)
  case (1 n p rows)
  show ?case
  proof (cases "n < length rows")
    case True
    show ?thesis
    proof (cases "rposition (\<lambda>r. snd r = p) rows")
      case None
      then have "drop_rows n p rows = rows" by (subst drop_rows.simps) simp
      then show ?thesis using None by (auto simp: rposition_None)
    next
      case (Some i)
      have e: "drop_rows n p rows = drop_rows n p (remove_at i rows)" using True Some by (subst drop_rows.simps) simp
      have i: "i < length rows" "snd (rows ! i) = p" using rposition_Some [OF Some] by simp_all
      have "mandatory (remove_at i rows) = mandatory rows" if "p \<noteq> KEEP"
        using i that unfolding mandatory_def by (intro filter_remove_at) simp_all
      moreover have "set (remove_at i rows) \<subseteq> set rows" by (rule set_remove_at)
      ultimately show ?thesis using 1 [OF True Some] unfolding e by auto
    qed
  next
    case False
    then show ?thesis by (subst (1 2 3 4) drop_rows.simps) simp
  qed
qed

lemma settings_rows_props:
  assumes "\<forall>r \<in> set (settings_all_rows api dw s w n). snd r \<in> {KEEP, PRIMARY_ROW, SPACER, FOOTER}"
  shows "mandatory (settings_rows api dw s w n) = mandatory (settings_all_rows api dw s w n) \<and>
    (length (settings_rows api dw s w n) \<le> n \<or> settings_rows api dw s w n = mandatory (settings_all_rows api dw s w n))"
proof -
  define a where "a = settings_all_rows api dw s w n"
  define b where "b = drop_rows n FOOTER a"
  define c where "c = drop_rows n SPACER b"
  define d where "d = drop_rows n PRIMARY_ROW c"
  have ne: "FOOTER \<noteq> KEEP" "SPACER \<noteq> KEEP" "PRIMARY_ROW \<noteq> KEEP" by (simp_all add: priorities)
  note B = drop_rows_props [of FOOTER n a, folded b_def]
  note C = drop_rows_props [of SPACER n b, folded c_def]
  note D = drop_rows_props [of PRIMARY_ROW n c, folded d_def]
  have m: "mandatory d = mandatory a" using B C D ne by simp
  have k: "length b \<le> n \<Longrightarrow> c = b" "length c \<le> n \<Longrightarrow> d = c" unfolding c_def d_def by (subst drop_rows.simps, simp)+
  have "d = mandatory d" if "\<not> length d \<le> n"
  proof -
    have "\<not> length c \<le> n" using k(2) that by auto
    moreover have "\<not> length b \<le> n" using k(1) calculation by auto
    ultimately have "\<forall>r \<in> set d. snd r \<notin> {FOOTER, SPACER, PRIMARY_ROW}" using B C D that by blast
    moreover have "\<forall>r \<in> set d. snd r \<in> {KEEP, PRIMARY_ROW, SPACER, FOOTER}" using B C D assms unfolding a_def by blast
    ultimately have "\<forall>r \<in> set d. snd r = KEEP" by blast
    then show ?thesis by (simp add: mandatory_def)
  qed
  moreover have "settings_rows api dw s w n = d" by (simp add: settings_rows_def a_def b_def c_def d_def)
  ultimately show ?thesis using m unfolding a_def by metis
qed

lemma priority_neq [simp]: "PRIMARY_ROW \<noteq> KEEP" "SPACER \<noteq> KEEP" "FOOTER \<noteq> KEEP"
  by (simp_all add: priorities)

lemma length_mandatory: "length (mandatory rows) = length (filter (\<lambda>p. p = KEEP) (map snd rows))"
  by (simp add: mandatory_def filter_map comp_def)

lemma settings_head_kinds: "map snd (settings_head api dw s w e) =
    replicate 8 KEEP @ [SPACER, KEEP, SPACER, KEEP] @ (if primary_endpoint api s \<noteq> None then [PRIMARY_ROW] else [])"
  by (cases "primary_endpoint api s = None")
    (simp_all only: settings_head_def Let_def map_append list.map snd_conv not_True_eq_False not_False_eq_True if_True if_False, simp_all add: numeral_eq_Suc)

lemma settings_tail_kinds: "map snd (settings_tail api s w) = (if 0 < mo_overflow (settings_server_monitoring api s) then [KEEP] else []) @
    (if st_draft s \<noteq> None then [KEEP, FOOTER] else if server_list_focused s then [KEEP] else []) @
    (if shown_error s \<noteq> None then [KEEP] else []) @ (if st_draft s = None then [FOOTER, FOOTER, FOOTER] else [])"
proof -
  note d = settings_tail_def Let_def map_append list.map snd_conv muted_row_def error_row_def option.case option.distinct simp_thms if_True if_False
  show ?thesis
    by (cases "st_draft s"; cases "shown_error s"; cases "server_list_focused s"; cases "0 < mo_overflow (settings_server_monitoring api s)")
      (simp_all only: d)
qed

lemma settings_window_kinds: "set (map snd (settings_window api dw s e b)) \<subseteq> {KEEP}"
proof -
  have "snd (entry_row api dw s e h x) = KEEP" for h x by (cases x) (simp add: entry_row_def Let_def split: prod.split)
  then show ?thesis by (auto simp: settings_window_def muted_row_def Let_def)
qed

lemma settings_row_priorities: "\<forall>r \<in> set (settings_all_rows api dw s w n). snd r \<in> {KEEP, PRIMARY_ROW, SPACER, FOOTER}"
proof -
  let ?K = "{KEEP, PRIMARY_ROW, SPACER, FOOTER}"
  have h: "set (map snd (settings_head api dw s w e)) \<subseteq> ?K" for e unfolding settings_head_kinds by auto
  have t: "set (map snd (settings_tail api s w)) \<subseteq> ?K" unfolding settings_tail_kinds by auto
  have w: "set (map snd (settings_window api dw s e b)) \<subseteq> ?K" for e b using settings_window_kinds [of api dw s e b] by blast
  have "set (map snd (settings_all_rows api dw s w n)) \<subseteq> ?K"
    unfolding settings_all_rows_def Let_def map_append set_append by (intro Un_least h t w)
  then show ?thesis by (simp only: list.set_map image_subset_iff)
qed

lemma settings_window_mandatory: "mandatory (settings_window api dw s e b) = settings_window api dw s e b"
  unfolding mandatory_def using settings_window_kinds [of api dw s e b] by (intro filter_True) auto

lemma settings_window_length: "length (settings_window api dw s e b) = (if st_servers s = [] then 1 else min (length (st_servers s)) b)"
proof -
  let ?n = "length (st_servers s)"
  have sc: "selector_scroll h ?n v \<le> ?n - v" for h v by (simp add: selector_scroll_def)
  have "min v (?n - selector_scroll h ?n v) = min v ?n" for h v using sc [of h v] by (cases "v \<le> ?n") (simp_all add: selector_scroll_def)
  then have t: "length (take v (drop (selector_scroll h ?n v) (enumerate 0 (st_servers s)))) = min v ?n" for h v by (simp add: min.commute)
  show ?thesis unfolding settings_window_def Let_def length_0_conv
    by (cases "st_servers s = []"; cases "b < ?n \<and> 2 \<le> b") (simp_all only: if_True if_False length_append length_map t, auto)
qed

definition tail_mandatory :: "('u, 'z) url_edit_api_scheme \<Rightarrow> 'u Settings \<Rightarrow> nat" where
  "tail_mandatory api s = (if 0 < mo_overflow (settings_server_monitoring api s) then 1 else 0) +
     (if st_draft s \<noteq> None \<or> server_list_focused s then 1 else 0) + (if shown_error s \<noteq> None then 1 else 0)"

lemma head_counts: "length (mandatory (settings_head api dw s w e)) = 10"
  by (simp add: length_mandatory settings_head_kinds)

lemma tail_count: "length (mandatory (settings_tail api s w)) = tail_mandatory api s"
  by (simp add: length_mandatory settings_tail_kinds tail_mandatory_def)

lemma no_extras_no_overflow: "st_servers s = [] \<Longrightarrow> mo_overflow (settings_server_monitoring api s) = 0"
  by (simp add: settings_server_monitoring_def monitored_flags_def split_monitored_def MAX_MONITORED_SERVERS_def Let_def split: sum.split)

lemma tail_error_last:
  assumes "st_draft s = None" "shown_error s = Some e"
  shows "mandatory (settings_tail api s w) \<noteq> [] \<and> last (mandatory (settings_tail api s w)) = error_row e"
proof -
  let ?C = "[([raw_span []], FOOTER), muted_row (lit '' Tab / '' @ [8593, 8595] @ lit '' select   Type to edit   Space / '' @ [8592, 8594] @ lit '' toggle   Enter apply + save'') FOOTER,
        muted_row (lit '' Esc cancel   Auto discovery uses a detected local llama server first'') FOOTER]"
  have "\<exists>A. settings_tail api s w = A @ [error_row e] @ ?C"
    unfolding settings_tail_def Let_def assms option.case simp_thms(6) if_True by (intro exI, subst append.assoc [symmetric], rule refl)
  moreover have "mandatory ?C = []" by (simp only: mandatory_def muted_row_def filter.simps snd_conv priority_neq if_False)
  moreover have "mandatory [error_row e] = [error_row e]" by (simp add: mandatory_def error_row_def)
  ultimately show ?thesis by (auto simp only: mandatory_append append_Nil2 last_snoc if_True append_is_Nil_conv list.distinct)
qed

lemma tight_count: "m = 10 + t \<Longrightarrow> t \<le> 3 \<Longrightarrow> 13 \<le> n \<Longrightarrow> n < m + 1 \<Longrightarrow> n = 13 \<and> t = 3" for m t n :: nat
  by linarith

lemma settings_rows_cases:
  assumes "13 \<le> n"
  shows "mandatory (settings_rows api dw s w n) = mandatory (settings_all_rows api dw s w n) \<and>
    (length (settings_rows api dw s w n) \<le> n \<or>
     n = 13 \<and> length (settings_rows api dw s w n) = 14 \<and> 0 < mo_overflow (settings_server_monitoring api s) \<and> server_list_focused s \<and>
       st_draft s = None \<and> (\<exists>e. shown_error s = Some e \<and> last (settings_rows api dw s w n) = error_row e))"
proof -
  define e where "e = min (unat w - (2 + 3 + 15)) 40"
  define others where "others = settings_head api dw s w e @ settings_tail api s w"
  define b where "b = window_budget (length (st_servers s)) (length others) (length (mandatory others)) n (st_draft s \<noteq> None)"
  have all: "settings_all_rows api dw s w n = settings_head api dw s w e @ settings_window api dw s e b @ settings_tail api s w"
    by (simp add: settings_all_rows_def Let_def e_def others_def b_def)
  have m: "length (mandatory others) = 10 + tail_mandatory api s" by (simp add: others_def head_counts tail_count)
  have mle: "length (mandatory others) \<le> length others" by (simp add: mandatory_def)
  have am: "length (mandatory (settings_all_rows api dw s w n)) = length (mandatory others) + (if st_servers s = [] then 1 else min (length (st_servers s)) b)"
    by (simp add: all others_def settings_window_mandatory settings_window_length)
  have t: "tail_mandatory api s \<le> 3" by (simp add: tail_mandatory_def)
  note r = settings_rows_props [OF settings_row_priorities, of api dw s w n]
  show ?thesis
  proof (cases "length (mandatory (settings_all_rows api dw s w n)) \<le> n \<or> length (settings_rows api dw s w n) \<le> n")
    case True
    then show ?thesis using r by auto
  next
    case False
    have ne: "st_servers s \<noteq> []"
    proof
      assume "st_servers s = []"
      then have "tail_mandatory api s \<le> 2" using no_extras_no_overflow [of s api] by (simp add: tail_mandatory_def)
      then show False using False am m assms \<open>st_servers s = []\<close> by simp
    qed
    have "\<not> length (st_servers s) + length others \<le> n" using False am mle ne by auto
    then have b: "b = max (max (n - length others) (min (n - length (mandatory others)) (min (length (st_servers s)) 4))) (if st_draft s \<noteq> None then 0 else 1)"
      by (simp add: b_def window_budget_def)
    have "\<not> length (mandatory others) + b \<le> n" using False am ne by auto
    then have f: "st_draft s = None" "n = 13" "tail_mandatory api s = 3" "b = 1"
    proof -
      let ?M = "length (mandatory others)" let ?fl = "if st_draft s \<noteq> None then 0 else 1 :: nat"
      have "max (n - length others) (min (n - ?M) (min (length (st_servers s)) 4)) \<le> n - ?M" using mle by simp
      then have "b \<le> n - ?M \<or> b = ?fl" "1 \<le> ?fl \<longrightarrow> 1 \<le> b" using b by (auto simp: max_def)
      moreover have "?M \<le> n" using m t assms by simp
      ultimately have fl: "b = ?fl" "n < ?M + ?fl" using \<open>\<not> ?M + b \<le> n\<close> by linarith+
      have draft: "st_draft s = None"
      proof (rule ccontr)
        assume "st_draft s \<noteq> None"
        then have "n < ?M" using fl(2) by simp
        then show False using \<open>?M \<le> n\<close> by simp
      qed
      then show "st_draft s = None" "b = 1" using fl(1) by simp_all
      have "n < ?M + 1" using fl(2) draft by simp
      then show "n = 13" "tail_mandatory api s = 3" using tight_count [OF m t assms] by simp_all
    qed
    have c: "0 < mo_overflow (settings_server_monitoring api s)" "server_list_focused s" "shown_error s \<noteq> None"
      using f(1,3) by (simp_all add: tail_mandatory_def split: if_splits)
    have s: "settings_rows api dw s w n = mandatory (settings_all_rows api dw s w n)" using r False by blast
    moreover have "length (mandatory (settings_all_rows api dw s w n)) = 14" using am m f ne by (cases "st_servers s") simp_all
    moreover obtain err where "shown_error s = Some err" using c(3) by auto
    moreover have "last (mandatory (settings_all_rows api dw s w n)) = error_row err"
      using tail_error_last [OF f(1) calculation(3), of api w] by (simp add: all)
    ultimately show ?thesis using c f by auto
  qed
qed

definition one_row_too_many :: "('u, 'z) url_edit_api_scheme \<Rightarrow> 'u Settings \<Rightarrow> nat \<Rightarrow> bool" where
  "one_row_too_many api s n \<longleftrightarrow> n = 13 \<and> 0 < mo_overflow (settings_server_monitoring api s) \<and> server_list_focused s \<and> st_draft s = None \<and> shown_error s \<noteq> None"

lemma one_row_too_many_mandatory:
  assumes "one_row_too_many api s n"
  shows "n < length (mandatory (settings_all_rows api dw s w n))"
proof -
  have s: "st_servers s \<noteq> []" "st_draft s = None" "tail_mandatory api s = 3" "n = 13"
    using assms no_extras_no_overflow [of s api] by (auto simp: one_row_too_many_def tail_mandatory_def)
  have "1 \<le> window_budget (length (st_servers s)) others mand n False" for others mand
    using s(1) by (cases "st_servers s") (simp_all add: window_budget_def)
  then have "1 \<le> length (settings_window api dw s e (window_budget (length (st_servers s)) others mand n (st_draft s \<noteq> None)))" for e others mand
    using s by (cases "st_servers s") (simp_all add: settings_window_length)
  then show ?thesis using s(3,4)
    by (simp add: settings_all_rows_def Let_def settings_window_mandatory head_counts tail_count less_eq_Suc_le)
qed

text \<open>
  C36: A row that matters never gives way, and all of them are on the screen - except on the smallest one that shows the
  dialog: with servers over the limit, the focus on the list and an error to report, there is one row too many, and
  the one below the border is the error.
\<close>
theorem settings_rows_fit:
  assumes "13 \<le> n"
  shows "mandatory (settings_rows api dw s w n) = mandatory (settings_all_rows api dw s w n) \<and>
    (if one_row_too_many api s n
     then length (settings_rows api dw s w n) = 14 \<and> (\<exists>e. shown_error s = Some e \<and> last (settings_rows api dw s w n) = error_row e)
     else length (settings_rows api dw s w n) \<le> n)"
proof -
  have m: "mandatory (settings_rows api dw s w n) = mandatory (settings_all_rows api dw s w n)" using settings_rows_cases [OF assms] by blast
  have "length (mandatory (settings_rows api dw s w n)) \<le> length (settings_rows api dw s w n)" by (simp add: mandatory_def)
  then have "one_row_too_many api s n \<Longrightarrow> n < length (settings_rows api dw s w n)" using one_row_too_many_mandatory [of api s n dw w] m by simp
  then show ?thesis using settings_rows_cases [OF assms, of api dw s w] by (auto simp: one_row_too_many_def)
qed

theorem settings_rows_fit_witness:
  "mandatory (settings_rows sample_edit_urls length (open_settings sample_edit_urls [] sample_settings) 74 13)
    = mandatory (settings_all_rows sample_edit_urls length (open_settings sample_edit_urls [] sample_settings) 74 13)"
  using settings_rows_fit [of 13 sample_edit_urls length "open_settings sample_edit_urls [] sample_settings" 74] by simp

end
