(* ===== verification/SystemPanel.thy ===== *)
theory SystemPanel
  imports GpuPanel
begin

text \<open>
  The system panel of \<^verbatim>\<open>src/ui/system.rs\<close>: title, meters and readings, and one mark for each logical
  CPU, or the bars of the cores of a processor with two classes of them.
\<close>

record SystemStats =
  sm_cpu_usage :: f64
  sm_per_cpu_usage :: "f64 list"
  sm_cpu_topology :: CpuTopology
  sm_cpu_frequency_mhz :: "f64 option"
  sm_cpu_temperature_c :: "f64 option"
  sm_cpu_power_w :: "f64 option"
  sm_io_wait_pct :: "f64 option"
  sm_load_one :: "f64 option"
  sm_load_five :: "f64 option"
  sm_load_fifteen :: "f64 option"
  sm_memory_used_bytes :: u64
  sm_memory_total_bytes :: u64
  sm_swap_used_bytes :: u64
  sm_swap_total_bytes :: u64
  sm_processes :: "ProcessStats list"

section \<open>Texts and sizes\<close>

definition load_average_text :: "SystemStats \<Rightarrow> rstr" where
  "load_average_text s = (case (sm_load_one s, sm_load_five s, sm_load_fifteen s) of
     (Some one, Some five, Some fifteen) \<Rightarrow> fmt_fixed 2 one @ lit '' / '' @ fmt_fixed 2 five @ lit '' / '' @ fmt_fixed 2 fifteen
   | _ \<Rightarrow> EMPTY_CELL)"

definition shows_minibar :: "CpuTopology \<Rightarrow> bool" where
  "shows_minibar t \<longleftrightarrow> is_hybrid t \<and> ct_physical_core_groups t \<noteq> []"

definition cores_of :: "CpuCoreKind \<Rightarrow> CpuPhysicalCore list \<Rightarrow> CpuPhysicalCore list" where
  "cores_of kind cores = filter (\<lambda>c. pc_kind c = kind) cores"

definition system_panel_height :: "SystemStats \<Rightarrow> u16" where
  "system_panel_height s = (if shows_minibar (sm_cpu_topology s) then let
       groups = ct_physical_core_groups (sm_cpu_topology s);
       rows = max (max (length (cores_of KindPerformance groups)) (length (cores_of KindEfficiency groups))) 1
     in max (of_nat rows + 10) 13 else 13)"

definition system_full_view :: "u16 \<Rightarrow> u16 \<Rightarrow> bool" where
  "system_full_view width height \<longleftrightarrow> 35 \<le> width \<and> 9 \<le> height"

definition topology_text :: "CpuTopology \<Rightarrow> rstr" where
  "topology_text t = (
     if is_hybrid t then (case (ct_performance_cores t, ct_efficiency_cores t) of
          (Some p, Some e) \<Rightarrow> show_nat p @ lit ''P+'' @ show_nat e @ lit ''E/'' @ show_nat (ct_logical_cpus t) @ lit ''T''
        | _ \<Rightarrow> lit ''P'' @ show_nat (count_kind (ct_core_kinds t) KindPerformance) @ lit ''T+E'' @ show_nat (count_kind (ct_core_kinds t) KindEfficiency) @ lit ''T'') @
       (case opt_filter (\<lambda>low. 0 < low) (ct_low_power_cores t) of Some low \<Rightarrow> lit ''+'' @ show_nat low @ lit ''L'' | None \<Rightarrow> [])
     else case ct_physical_cores t of Some cores \<Rightarrow> show_nat cores @ lit ''C/'' @ show_nat (ct_logical_cpus t) @ lit ''T''
       | None \<Rightarrow> if 0 < ct_logical_cpus t then show_nat (ct_logical_cpus t) @ lit ''T'' else [])"

definition system_panel_title :: "(rstr \<Rightarrow> nat) \<Rightarrow> CpuTopology \<Rightarrow> u16 \<Rightarrow> rstr" where
  "system_panel_title dw t width = (let model = compact_cpu_model t;
       title = (if topology_text t = [] then lit '' SYSTEM '' @ [183] @ lit '' '' @ model @ lit '' ''
         else lit '' SYSTEM '' @ [183] @ lit '' '' @ model @ lit '' '' @ [183] @ lit '' '' @ topology_text t @ lit '' '');
       max_len = unat (sat_sub width 2)
     in if max_len < dw title \<and> 4 < max_len then truncate_title dw title max_len else title)"

section \<open>The cores of a hybrid processor\<close>

text \<open>\<^verbatim>\<open>get(i).copied().unwrap_or(true)\<close>.\<close>

definition is_online :: "bool list \<Rightarrow> nat \<Rightarrow> bool" where
  "is_online online i = unwrap_or True (nth_opt i online)"

definition average_step :: "f64 list \<Rightarrow> bool list \<Rightarrow> f64 \<times> nat \<Rightarrow> nat \<Rightarrow> f64 \<times> nat" where
  "average_step usages online acc cpu = (if \<not> is_online online cpu then acc
     else case nth_opt cpu usages of Some u \<Rightarrow> (fadd (fst acc) u, snd acc + 1) | None \<Rightarrow> acc)"

definition physical_core_average :: "CpuPhysicalCore \<Rightarrow> f64 list \<Rightarrow> bool list \<Rightarrow> f64" where
  "physical_core_average core usages online = (case foldl (average_step usages online) (Fin 0, 0) (pc_logical_cpus core) of
     (whole, n) \<Rightarrow> if n = 0 then Fin 0 else widget_clamp_percent (fdiv whole (f64_of_nat n)))"

definition physical_core_color :: "f64 \<Rightarrow> Color \<Rightarrow> Color" where
  "physical_core_color usage tint = interpolate_stops usage [(Fin 0, tint), (Fin 55, tint), (Fin 80, YELLOW), (Fin 92, ORANGE), (Fin 100, RED)]"

definition fceil :: "f64 \<Rightarrow> f64" where
  "fceil x = (case x of Fin q \<Rightarrow> Fin (of_int \<lceil>q\<rceil>) | other \<Rightarrow> other)"

definition mini_core_bar_spans :: "f64 \<Rightarrow> nat \<Rightarrow> Color \<Rightarrow> Span list" where
  "mini_core_bar_spans level width c = (let level = widget_clamp_percent level;
       scaled = fmul (fdiv level (Fin 100)) (f64_of_nat width);
       (full, half) = (if level < Fin 5 then (0, False) else if scaled < Fin (1 / 2) then (0, True)
         else (f64_to_nat 64 (fmin (fceil scaled) (f64_of_nat width)), False))
     in map (\<lambda>cell. if cell < full then styled [10495] (fg c) else if cell = full \<and> half then styled [10439] (fg c)
          else styled [10432] (fg BAR_EMPTY)) [0..<width])"

text \<open>A cell of the two columns: the label, the bar and the load.\<close>

definition core_spans :: "rstr \<Rightarrow> f64 \<Rightarrow> nat \<Rightarrow> Color \<Rightarrow> Span list" where
  "core_spans label usage width c = styled label (bold c) # mini_core_bar_spans usage width c @
     [styled (lit '' '' @ pad_left 3 (fmt_fixed 0 (widget_clamp_percent usage)) @ lit ''%'') (fg c)]"

definition minibar_row :: "(rstr \<Rightarrow> nat) \<Rightarrow> f64 list \<Rightarrow> bool list \<Rightarrow> CpuPhysicalCore list \<Rightarrow> CpuPhysicalCore list \<Rightarrow> nat \<Rightarrow> Span list" where
  "minibar_row dw usages online performance efficiency row = (let
       left = (case nth_opt row performance of
           Some core \<Rightarrow> let usage = physical_core_average core usages online; c = physical_core_color usage ORK_GREEN in
             core_spans (lit '' P'' @ show_nat row @ lit ''  '') usage 4 c
         | None \<Rightarrow> [raw_span (replicate 14 32)]);
       current_width = sum_list (map (\<lambda>s. dw (sn_content s)) left); e_column = 20;
       gap = (if current_width < e_column then raw_span (replicate (e_column - current_width) 32) else raw_span (lit ''  ''));
       right = (case nth_opt row efficiency of
           Some core \<Rightarrow> let usage = physical_core_average core usages online; c = physical_core_color usage CYAN in
             core_spans (lit ''E'' @ show_nat row @ lit ''  '') usage 3 c
         | None \<Rightarrow> [])
     in left @ [gap] @ right)"

definition physical_core_minibar_rows :: "(rstr \<Rightarrow> nat) \<Rightarrow> f64 list \<Rightarrow> bool list \<Rightarrow> CpuPhysicalCore list \<Rightarrow> u16 \<Rightarrow> Span list list" where
  "physical_core_minibar_rows dw usages online cores width = (let performance = cores_of KindPerformance cores; efficiency = cores_of KindEfficiency cores in
     if performance = [] \<or> efficiency = [] \<or> width < 30 then []
     else [styled (lit '' P-CORES'') (bold ORK_GREEN), raw_span (replicate 12 32), styled (lit ''E-CORES'') (bold MUTED)] #
       map (minibar_row dw usages online performance efficiency) [0..<max (length performance) (length efficiency)])"

section \<open>The heatmap\<close>

definition core_usage_color :: "f64 \<Rightarrow> Color" where
  "core_usage_color usage = (let v = widget_clamp_percent usage in if Fin 90 \<le> v then ORANGE else if Fin 75 \<le> v then YELLOW
     else if Fin 50 \<le> v then BRIGHT_GREEN else if Fin 25 \<le> v then ORK_GREEN else if Fin 2 \<le> v then DIM_GREEN else BAR_EMPTY)"

definition core_usage_glyph :: "f64 \<Rightarrow> rchar" where
  "core_usage_glyph usage = (let v = widget_clamp_percent usage in if Fin 75 \<le> v then 9608 else if Fin 50 \<le> v then 9619
     else if Fin 25 \<le> v then 9618 else if Fin 2 \<le> v then 9617 else 183)"

definition kind_suffix :: "CpuCoreKind list \<Rightarrow> bool \<Rightarrow> nat \<Rightarrow> rstr" where
  "kind_suffix kinds show_kind i = (if show_kind then (case unwrap_or KindUnknown (nth_opt i kinds) of
     KindPerformance \<Rightarrow> lit ''P'' | KindEfficiency \<Rightarrow> lit ''E'' | KindLowPower \<Rightarrow> lit ''L'' | KindUnknown \<Rightarrow> lit ''?'') else [])"

text \<open>The mark of a CPU, with its style.\<close>

definition heat_span :: "bool list \<Rightarrow> nat option \<Rightarrow> nat \<times> f64 \<Rightarrow> Span" where
  "heat_span online busiest iu = (case iu of (i, usage) \<Rightarrow> if \<not> is_online online i then styled EMPTY_CELL (fg MUTED)
     else styled [core_usage_glyph usage] ((fg (core_usage_color usage))\<lparr>sy_bold := busiest = Some i\<rparr>))"

definition numbered_spans :: "CpuCoreKind list \<Rightarrow> bool list \<Rightarrow> nat \<Rightarrow> nat option \<Rightarrow> bool \<Rightarrow> nat \<Rightarrow> nat \<times> f64 \<Rightarrow> Span list" where
  "numbered_spans kinds online start busiest show_kind digits iu = (case iu of (i, usage) \<Rightarrow>
     (if start < i then [raw_span (lit '' '')] else []) @
     [styled (zero_left digits (show_nat i) @ kind_suffix kinds show_kind i)
        ((fg MUTED)\<lparr>sy_bold := is_online online i \<and> busiest = Some i\<rparr>), heat_span online busiest iu])"

definition core_heatmap_numbered_line ::
  "f64 list \<Rightarrow> CpuCoreKind list \<Rightarrow> bool list \<Rightarrow> nat \<Rightarrow> nat \<Rightarrow> nat option \<Rightarrow> bool \<Rightarrow> nat \<Rightarrow> Span list" where
  "core_heatmap_numbered_line usages kinds online start stop busiest show_kind digits =
     raw_span (lit '' '') # concat (map (numbered_spans kinds online start busiest show_kind digits) (drop start (take stop (enumerate 0 usages))))"

definition compact_line :: "f64 list \<Rightarrow> bool list \<Rightarrow> nat option \<Rightarrow> nat \<Rightarrow> nat \<Rightarrow> nat \<Rightarrow> Span list" where
  "compact_line usages online busiest digits start stop =
     styled (lit '' '' @ zero_left digits (show_nat start) @ lit ''-'' @ zero_left digits (show_nat (stop - 1)) @ lit '' '') (fg MUTED) #
     map (heat_span online busiest) (drop start (take stop (enumerate 0 usages)))"

definition ceil_div :: "nat \<Rightarrow> nat \<Rightarrow> nat" where
  "ceil_div a b = (a + b - 1) div b"

definition compact_core_heatmap_rows :: "f64 list \<Rightarrow> bool list \<Rightarrow> nat option \<Rightarrow> nat \<Rightarrow> nat \<Rightarrow> Span list list" where
  "compact_core_heatmap_rows usages online busiest max_rows digits = (let
       rows = max (min (length usages) max_rows) 1; per_row = ceil_div (length usages) rows;
       bounds = map (\<lambda>row. (row * per_row, min ((row + 1) * per_row) (length usages))) [0..<rows]
     in map (\<lambda>(start, stop). compact_line usages online busiest digits start stop) (takeWhile (\<lambda>(start, stop). start < stop) bounds))"

definition heat_digits :: "nat \<Rightarrow> nat" where
  "heat_digits n = max (length (show_nat (n - 1))) 2"

definition heat_cell_width :: "nat \<Rightarrow> bool \<Rightarrow> nat" where
  "heat_cell_width n show_kind = heat_digits n + (if show_kind then 1 else 0) + 2"

definition heat_max_cols :: "u16 \<Rightarrow> nat \<Rightarrow> bool \<Rightarrow> nat" where
  "heat_max_cols width n show_kind = max (unat (sat_sub width 2) div heat_cell_width n show_kind) 1"

definition core_heatmap_rows ::
  "f64 list \<Rightarrow> CpuCoreKind list \<Rightarrow> bool list \<Rightarrow> u16 \<Rightarrow> nat option \<Rightarrow> bool \<Rightarrow> nat \<Rightarrow> Span list list" where
  "core_heatmap_rows usages kinds online width busiest show_kind max_rows = (
     if usages = [] \<or> max_rows = 0 then [[label_span (lit '' CORES ''), value_span EMPTY_CELL MUTED]]
     else let n = length usages; digits = heat_digits n; max_cols = heat_max_cols width n show_kind;
         cols = max (min 6 max_cols) (ceil_div n max_rows)
       in if cols \<le> max_cols
          then map (\<lambda>row. core_heatmap_numbered_line usages kinds online (row * cols) (min ((row + 1) * cols) n) busiest show_kind digits)
            [0..<min (ceil_div n cols) max_rows]
          else compact_core_heatmap_rows usages online busiest max_rows digits)"

section \<open>The panel\<close>

text \<open>\<^verbatim>\<open>max_by\<close> with \<^verbatim>\<open>total_cmp\<close>: the last of the greatest.\<close>

definition busier :: "nat \<times> f64 \<Rightarrow> nat \<times> f64 \<Rightarrow> nat \<times> f64" where
  "busier a b = (if f64_rank (snd a) \<le> f64_rank (snd b) then b else a)"

definition busiest_cpu :: "f64 list \<Rightarrow> nat option" where
  "busiest_cpu usages = (case enumerate 0 usages of [] \<Rightarrow> None | x # xs \<Rightarrow> Some (fst (foldl busier x xs)))"

definition one_decimal_percent :: "f64 \<Rightarrow> rstr" where
  "one_decimal_percent v = pad_left 4 (fmt_fixed 1 v) @ lit ''%''"

definition gib_text :: "u64 \<Rightarrow> rstr" where
  "gib_text bytes = fmt_fixed 1 (widget_bytes_to_gib bytes)"

definition cpu_meter :: "SystemStats \<Rightarrow> nat \<Rightarrow> Span list" where
  "cpu_meter s bar_width = meter_line (lit ''CPU'') (sm_cpu_usage s) bar_width ORK_GREEN (one_decimal_percent (widget_clamp_percent (sm_cpu_usage s))) []"

definition ram_meter :: "SystemStats \<Rightarrow> nat \<Rightarrow> Span list" where
  "ram_meter s bar_width = (if 0 < sm_memory_total_bytes s
     then let pct = percent_of (f64_of_u64 (sm_memory_used_bytes s)) (f64_of_u64 (sm_memory_total_bytes s)) in
       meter_line (lit ''RAM'') pct bar_width CYAN (one_decimal_percent pct) []
     else unavailable_meter_line (lit ''RAM'') bar_width [])"

definition memory_text :: "SystemStats \<Rightarrow> rstr \<Rightarrow> rstr" where
  "memory_text s known = (if 0 < sm_memory_total_bytes s then known @ lit '' GiB'' else EMPTY_CELL)"

definition compact_system_rows :: "SystemStats \<Rightarrow> nat \<Rightarrow> Span list list" where
  "compact_system_rows s bar_width = [cpu_meter s bar_width, ram_meter s bar_width,
     [label_span (lit '' USED     ''), value_span (memory_text s (gib_text (sm_memory_used_bytes s))) CYAN],
     [label_span (lit '' TOTAL    ''), value_span (memory_text s (gib_text (sm_memory_total_bytes s))) WHITE]]"

definition reading :: "(f64 \<Rightarrow> bool) \<Rightarrow> (f64 \<Rightarrow> rstr) \<Rightarrow> f64 option \<Rightarrow> rstr" where
  "reading valid show_value v = (case opt_filter valid v of Some x \<Rightarrow> show_value x | None \<Rightarrow> EMPTY_CELL)"

definition sensor_line :: "SystemStats \<Rightarrow> Span list" where
  "sensor_line s = [label_span (lit ''      ''),
     value_span (reading (\<lambda>v. is_finite v \<and> Fin 0 < v) (\<lambda>v. fmt_fixed 2 (fdiv v (Fin 1000)) @ lit '' GHz'') (sm_cpu_frequency_mhz s)) WHITE,
     label_span (lit ''   ''),
     value_span (reading is_finite (\<lambda>v. fmt_fixed 0 v @ [176, 67]) (sm_cpu_temperature_c s))
       (case sm_cpu_temperature_c s of Some v \<Rightarrow> temperature_color v | None \<Rightarrow> MUTED),
     label_span (lit ''   IOW ''),
     value_span (reading is_finite (\<lambda>v. fmt_fixed 1 v @ lit ''%'') (sm_io_wait_pct s))
       (if Fin 10 \<le> unwrap_or (Fin 0) (sm_io_wait_pct s) then YELLOW else MUTED)]"

definition load_line :: "SystemStats \<Rightarrow> Span list" where
  "load_line s = [label_span (lit '' LOAD ''), value_span (load_average_text s) (if sm_load_one s \<noteq> None then WHITE else MUTED)]"

definition cpu_power_line :: "SystemStats \<Rightarrow> Span list" where
  "cpu_power_line s = [label_span (lit '' POWER ''),
     value_span (reading (\<lambda>v. is_finite v \<and> Fin 0 \<le> v) (\<lambda>v. fmt_fixed 1 v @ lit '' W'') (sm_cpu_power_w s)) (if sm_cpu_power_w s \<noteq> None then CYAN else MUTED)]"

definition core_rows :: "(rstr \<Rightarrow> nat) \<Rightarrow> SystemStats \<Rightarrow> u16 \<Rightarrow> Span list list" where
  "core_rows dw s width = (let t = sm_cpu_topology s in
     if shows_minibar t then physical_core_minibar_rows dw (sm_per_cpu_usage s) (ct_online t) (ct_physical_core_groups t) width
     else core_heatmap_rows (sm_per_cpu_usage s) (ct_core_kinds t) (ct_online t) width (busiest_cpu (sm_per_cpu_usage s)) (is_hybrid t) 4)"

definition memory_lines :: "SystemStats \<Rightarrow> nat \<Rightarrow> Span list list" where
  "memory_lines s bar_width = [ram_meter s bar_width,
     [label_span (lit ''      ''), value_span (memory_text s (gib_text (sm_memory_used_bytes s) @ lit '' / '' @ gib_text (sm_memory_total_bytes s))) CYAN],
     [label_span (lit '' SWAP ''), value_span (gib_text (sm_swap_used_bytes s) @ lit '' / '' @ gib_text (sm_swap_total_bytes s) @ lit '' GiB'')
        (if 0 < sm_swap_used_bytes s then YELLOW else MUTED)]]"

definition system_rows :: "(rstr \<Rightarrow> nat) \<Rightarrow> SystemStats \<Rightarrow> u16 \<Rightarrow> nat \<Rightarrow> Span list list" where
  "system_rows dw s width bar_width =
     [cpu_meter s bar_width, sensor_line s, load_line s, cpu_power_line s] @ core_rows dw s width @ memory_lines s bar_width"

definition draw_system :: "Ratatui \<Rightarrow> Rect \<Rightarrow> SystemStats \<Rightarrow> frame" where
  "draw_system rt area s = (case boxed rt [raw_span (system_panel_title (rt_width rt) (sm_cpu_topology s) (rc_width area))] area of (inner, block) \<Rightarrow>
     if rc_width inner < 16 \<or> rc_height inner = 0 then block
     else let bar_width = unat (max (sat_sub (rc_width inner) 16) 8);
         rows = (if \<not> system_full_view (rc_width inner) (rc_height inner) then compact_system_rows s bar_width
           else system_rows (rt_width rt) s (rc_width inner) bar_width)
       in block @ [(inner, paint_lines (take (unat (rc_height inner)) rows))])"

section \<open>Every CPU is shown\<close>

lemma length_show_nat_mono: "i \<le> j \<Longrightarrow> length (show_nat i) \<le> length (show_nat j)"
proof (induction j arbitrary: i rule: show_nat.induct)
  case (1 j)
  show ?case
  proof (cases "j < 10")
    case True
    then show ?thesis using 1 by (simp add: show_nat.simps [of i] show_nat.simps [of j])
  next
    case False
    then have "i < 10 \<or> length (show_nat (i div 10)) \<le> length (show_nat (j div 10))" using 1 by (simp add: div_le_mono)
    then show ?thesis using False by (auto simp: show_nat.simps [of i] show_nat.simps [of j])
  qed
qed

lemma ceil_div_less: "0 < b \<Longrightarrow> i * b < a \<longleftrightarrow> i < ceil_div a b"
proof -
  assume "0 < b"
  have "i < ceil_div a b \<longleftrightarrow> (i + 1) * b \<le> a + b - 1"
    using \<open>0 < b\<close> less_eq_div_iff_mult_less_eq [of b "i + 1" "a + b - 1"] by (simp add: ceil_div_def Suc_le_eq)
  also have "\<dots> \<longleftrightarrow> i * b < a" using \<open>0 < b\<close> by auto
  finally show ?thesis by simp
qed

lemma ceil_div_le: "0 < b \<Longrightarrow> ceil_div a b \<le> k \<longleftrightarrow> a \<le> k * b"
  using ceil_div_less [of b k a] by (simp add: not_less [symmetric])

lemma chunk_concat: "concat (map (\<lambda>r. [r * c..<min ((r + 1) * c) n]) [0..<k]) = [0..<min (k * c) n]"
proof (induction k)
  case (Suc k)
  have "[0..<min (k * c) n] @ [k * c..<min ((k + 1) * c) n] = [0..<min (Suc k * c) n]"
  proof (cases "k * c \<le> n")
    case True
    then show ?thesis using upt_add_eq_append [of 0 "k * c" "min ((k + 1) * c) n - k * c"] by (simp add: min_def)
  qed (simp add: min_def)
  then show ?case using Suc by simp
qed simp

lemma takeWhile_upt:
  assumes "\<And>r. P r \<longleftrightarrow> r < m"
  shows "takeWhile P [0..<k] = [0..<min m k]"
proof -
  have "[0..<k] = [0..<min m k] @ [min m k..<k]" using upt_add_eq_append [of 0 "min m k" "k - min m k"] by simp
  moreover have "takeWhile P ([0..<min m k] @ [min m k..<k]) = [0..<min m k] @ takeWhile P [min m k..<k]"
    by (rule takeWhile_append2) (simp add: assms)
  ultimately have "takeWhile P [0..<k] = [0..<min m k] @ takeWhile P [min m k..<k]" by simp
  moreover have "takeWhile P [min m k..<k] = []" using assms by (cases "m < k") (simp_all add: upt_conv_Cons)
  ultimately show ?thesis by simp
qed

lemma enumerate_slice: "j \<le> length xs \<Longrightarrow> drop i (take j (enumerate 0 xs)) = map (\<lambda>k. (k, xs ! k)) [i..<j]"
  by (rule nth_equalityI) (simp_all add: nth_enumerate_eq)

definition heat_mark :: "f64 list \<Rightarrow> bool list \<Rightarrow> nat \<Rightarrow> rstr" where
  "heat_mark usages online i = (if is_online online i then [core_usage_glyph (usages ! i)] else EMPTY_CELL)"

lemma heat_span_text: "sn_content (heat_span online b (i, usages ! i)) = heat_mark usages online i"
  by (simp add: heat_span_def heat_mark_def styled_def)

definition heat_row_text :: "f64 list \<Rightarrow> CpuCoreKind list \<Rightarrow> bool list \<Rightarrow> bool \<Rightarrow> bool \<Rightarrow> nat \<times> nat \<Rightarrow> rstr" where
  "heat_row_text usages kinds online show_kind numbered bounds = (case bounds of (i, j) \<Rightarrow> let d = heat_digits (length usages) in
     if numbered then lit '' '' @ join (lit '' '') (map (\<lambda>k. zero_left d (show_nat k) @ kind_suffix kinds show_kind k @ heat_mark usages online k) [i..<j])
     else lit '' '' @ zero_left d (show_nat i) @ lit ''-'' @ zero_left d (show_nat (j - 1)) @ lit '' '' @ concat (map (heat_mark usages online) [i..<j]))"

lemma compact_line_text:
  "j \<le> length usages \<Longrightarrow> line_text (compact_line usages online b (heat_digits (length usages)) i j) = heat_row_text usages kinds online sk False (i, j)"
  by (simp add: compact_line_def heat_row_text_def line_text_def styled_def enumerate_slice heat_span_text comp_def Let_def)

lemma numbered_line_text:
  assumes "i < j" "j \<le> length usages"
  shows "line_text (core_heatmap_numbered_line usages kinds online i j b sk (heat_digits (length usages))) = heat_row_text usages kinds online sk True (i, j)"
proof -
  let ?d = "heat_digits (length usages)"
  let ?t = "\<lambda>k. zero_left ?d (show_nat k) @ kind_suffix kinds sk k @ heat_mark usages online k"
  have f: "line_text (numbered_spans kinds online i b sk ?d (k, usages ! k)) = (if i < k then lit '' '' @ ?t k else ?t k)" for k
    by (simp add: numbered_spans_def line_text_def styled_def raw_span_def heat_span_text)
  have g: "line_text (concat (map (numbered_spans kinds online i b sk ?d) (map (\<lambda>k. (k, usages ! k)) ks)))
      = concat (map (\<lambda>k. if i < k then lit '' '' @ ?t k else ?t k) ks)" for ks
    by (induction ks) (simp_all add: f [symmetric] line_text_def)
  have e: "[i..<j] = i # [Suc i..<j]" using assms(1) by (rule upt_conv_Cons)
  have t: "map (\<lambda>k. if i < k then lit '' '' @ ?t k else ?t k) [Suc i..<j] = map (\<lambda>k. lit '' '' @ ?t k) [Suc i..<j]" by simp
  have "line_text (core_heatmap_numbered_line usages kinds online i j b sk ?d) = lit '' '' @ concat (map (\<lambda>k. if i < k then lit '' '' @ ?t k else ?t k) [i..<j])"
    unfolding core_heatmap_numbered_line_def enumerate_slice [OF assms(2)] using g [of "[i..<j]"] by (simp add: line_text_def raw_span_def styled_def)
  also have "\<dots> = lit '' '' @ ?t i @ concat (map (\<lambda>k. lit '' '' @ ?t k) [Suc i..<j])"
    by (simp only: e list.map(2) concat.simps less_irrefl if_False t)
  also have "\<dots> = heat_row_text usages kinds online sk True (i, j)" by (simp add: heat_row_text_def Let_def e join_Cons comp_def)
  finally show ?thesis .
qed

lemma heat_mark_length [simp]: "length (heat_mark usages online i) = 1"
  by (simp add: heat_mark_def EMPTY_CELL_def)

lemma kind_suffix_length: "length (kind_suffix kinds sk i) = (if sk then 1 else 0)"
  by (simp add: kind_suffix_def lit_def split: CpuCoreKind.split)

lemma numbered_text_length:
  assumes "i < j" "j \<le> length usages"
  shows "length (heat_row_text usages kinds online sk True (i, j)) = (j - i) * heat_cell_width (length usages) sk"
proof -
  let ?d = "heat_digits (length usages)"
  let ?t = "\<lambda>k. zero_left ?d (show_nat k) @ kind_suffix kinds sk k @ heat_mark usages online k"
  have d: "length (zero_left ?d (show_nat k)) = ?d" if "k < j" for k
  proof -
    have "k \<le> length usages - 1" using that assms(2) by simp
    then have "length (show_nat k) \<le> ?d" using length_show_nat_mono [of k "length usages - 1"] by (simp add: heat_digits_def)
    then show ?thesis by (simp add: zero_left_def)
  qed
  have "map (length \<circ> ?t) [i..<j] = map (\<lambda>_. ?d + (if sk then 1 else 0) + 1) [i..<j]"
    using d by (intro map_cong) (simp_all add: kind_suffix_length)
  then have "sum_list (map length (map ?t [i..<j])) = (j - i) * (?d + (if sk then 1 else 0) + 1)"
    by (simp only: map_map) (simp add: sum_list_triv)
  then have "length (heat_row_text usages kinds online sk True (i, j)) = 1 + ((j - i) * (?d + (if sk then 1 else 0) + 1) + (j - i - 1))"
    by (simp add: heat_row_text_def Let_def join_length lit_def)
  also have "\<dots> = (j - i) * heat_cell_width (length usages) sk" using assms(1) by (simp add: heat_cell_width_def algebra_simps)
  finally show ?thesis .
qed

text \<open>The chunks of a heatmap with \<open>c\<close> CPUs to a row.\<close>

definition heat_bounds :: "nat \<Rightarrow> nat \<Rightarrow> (nat \<times> nat) list" where
  "heat_bounds c n = map (\<lambda>row. (row * c, min ((row + 1) * c) n)) [0..<ceil_div n c]"

lemma heat_bounds_props:
  assumes "0 < c"
  shows "concat (map (\<lambda>(i, j). [i..<j]) (heat_bounds c n)) = [0..<n]"
    "(i, j) \<in> set (heat_bounds c n) \<Longrightarrow> i < j \<and> j \<le> n \<and> j - i \<le> c"
proof -
  have "min (ceil_div n c * c) n = n" using ceil_div_le [OF assms, of n "ceil_div n c"] by simp
  then show "concat (map (\<lambda>(i, j). [i..<j]) (heat_bounds c n)) = [0..<n]"
    using chunk_concat [of c n "ceil_div n c"] by (simp add: heat_bounds_def comp_def)
  show "i < j \<and> j \<le> n \<and> j - i \<le> c" if m: "(i, j) \<in> set (heat_bounds c n)"
  proof -
    have "\<exists>r < ceil_div n c. i = r * c \<and> j = min (r * c + c) n" using m by (auto simp: heat_bounds_def add.commute)
    then obtain r where r: "i = r * c" "j = min (r * c + c) n" "r < ceil_div n c" by blast
    then have "r * c < n" using ceil_div_less [OF assms] by blast
    then show ?thesis using r(1,2) assms by simp
  qed
qed

lemma compact_rows_bounds:
  assumes "usages \<noteq> []" "0 < max_rows"
  shows "\<exists>c. 0 < c \<and> ceil_div (length usages) c \<le> max_rows \<and>
    compact_core_heatmap_rows usages online b max_rows d = map (\<lambda>(i, j). compact_line usages online b d i j) (heat_bounds c (length usages))"
proof -
  let ?n = "length usages" let ?rows = "max (min ?n max_rows) 1" let ?c = "ceil_div ?n ?rows"
  have n: "0 < ?n" using assms(1) by simp
  have c: "0 < ?c" using n ceil_div_less [of ?rows 0 ?n] by simp
  have le: "ceil_div ?n ?c \<le> ?rows" using ceil_div_le [of ?rows ?n ?c] ceil_div_le [OF c, of ?n ?rows] by (simp add: mult.commute)
  have "takeWhile (\<lambda>r. r * ?c < min ((r + 1) * ?c) ?n) [0..<?rows] = [0..<min (ceil_div ?n ?c) ?rows]"
    using ceil_div_less [OF c, of _ ?n] c by (intro takeWhile_upt) auto
  then have "takeWhile (\<lambda>(i, j). i < j) (map (\<lambda>r. (r * ?c, min ((r + 1) * ?c) ?n)) [0..<?rows]) = heat_bounds ?c ?n"
    using le by (simp add: takeWhile_map heat_bounds_def comp_def)
  then have "compact_core_heatmap_rows usages online b max_rows d = map (\<lambda>(i, j). compact_line usages online b d i j) (heat_bounds ?c ?n)"
    by (simp add: compact_core_heatmap_rows_def Let_def)
  moreover have "ceil_div ?n ?c \<le> max_rows" using n assms(2) by (intro le_trans [OF le]) simp
  ultimately show ?thesis using c by blast
qed

text \<open>
  C39: The heatmap has a mark for every logical CPU, each exactly once and in order, on at most the rows it is given.  The
  CPUs carry their numbers whenever they fit, and numbered rows stay within the panel.
\<close>
theorem heatmap_shows_every_cpu:
  assumes "usages \<noteq> []" "0 < max_rows"
  shows "\<exists>bounds. let numbered = (ceil_div (length usages) max_rows \<le> heat_max_cols w (length usages) sk);
        rows = core_heatmap_rows usages kinds online w busiest sk max_rows
      in concat (map (\<lambda>(i, j). [i..<j]) bounds) = [0..<length usages] \<and> length bounds \<le> max_rows \<and>
        map line_text rows = map (heat_row_text usages kinds online sk numbered) bounds \<and>
        (numbered \<longrightarrow> 2 + heat_cell_width (length usages) sk \<le> unat w \<longrightarrow> (\<forall>row \<in> set rows. line_length row + 2 \<le> unat w))"
proof -
  let ?n = "length usages" let ?m = "heat_max_cols w ?n sk"
  show ?thesis
  proof (cases "ceil_div ?n max_rows \<le> ?m")
    case True
    define c where "c = max (min 6 ?m) (ceil_div ?n max_rows)"
    have c: "0 < c" "c \<le> ?m" "ceil_div ?n max_rows \<le> c" using True by (auto simp: c_def heat_max_cols_def)
    have "ceil_div ?n c \<le> max_rows"
      using c(3) ceil_div_le [OF assms(2), of ?n c] ceil_div_le [OF c(1), of ?n max_rows] by (simp add: mult.commute)
    moreover have r: "core_heatmap_rows usages kinds online w busiest sk max_rows
        = map (\<lambda>(i, j). core_heatmap_numbered_line usages kinds online i j busiest sk (heat_digits ?n)) (heat_bounds c ?n)"
      using assms True calculation c(2) by (simp add: core_heatmap_rows_def Let_def heat_bounds_def c_def [symmetric] comp_def min_absorb1)
    moreover have t: "map line_text (core_heatmap_rows usages kinds online w busiest sk max_rows) = map (heat_row_text usages kinds online sk True) (heat_bounds c ?n)"
      unfolding r using heat_bounds_props(2) [OF c(1)] by (auto simp: numbered_line_text)
    moreover have "line_length row + 2 \<le> unat w"
      if fits: "2 + heat_cell_width ?n sk \<le> unat w" and row: "row \<in> set (core_heatmap_rows usages kinds online w busiest sk max_rows)" for row
    proof -
      obtain i j where ij: "(i, j) \<in> set (heat_bounds c ?n)" "line_text row = heat_row_text usages kinds online sk True (i, j)"
        using row heat_bounds_props(2) [OF c(1)] by (auto simp: r numbered_line_text)
      have "?m = (unat w - 2) div heat_cell_width ?n sk" using fits by (simp add: heat_max_cols_def unat_sat_sub div_greater_zero_iff heat_cell_width_def max_absorb1 Suc_le_eq)
      then have "(j - i) * heat_cell_width ?n sk \<le> unat w - 2"
        using heat_bounds_props(2) [OF c(1) ij(1)] c(2) by (metis (no_types, lifting) div_times_less_eq_dividend le_trans mult_le_mono1)
      then show ?thesis using ij heat_bounds_props(2) [OF c(1) ij(1)] fits numbered_text_length [of i j usages kinds online sk] by (simp add: line_length_def)
    qed
    ultimately show ?thesis using True heat_bounds_props(1) [OF c(1), of ?n] by (intro exI [of _ "heat_bounds c ?n"]) (simp add: Let_def heat_bounds_def)
  next
    case False
    then have "\<not> max (min 6 ?m) (ceil_div ?n max_rows) \<le> ?m" by simp
    obtain c where c: "0 < c" "ceil_div ?n c \<le> max_rows"
        "compact_core_heatmap_rows usages online busiest max_rows (heat_digits ?n) = map (\<lambda>(i, j). compact_line usages online busiest (heat_digits ?n) i j) (heat_bounds c ?n)"
      using compact_rows_bounds [OF assms] by blast
    have "core_heatmap_rows usages kinds online w busiest sk max_rows = compact_core_heatmap_rows usages online busiest max_rows (heat_digits ?n)"
      using assms False by (auto simp: core_heatmap_rows_def Let_def)
    then have "map line_text (core_heatmap_rows usages kinds online w busiest sk max_rows) = map (heat_row_text usages kinds online sk False) (heat_bounds c ?n)"
      unfolding c(3) using heat_bounds_props(2) [OF c(1)] by (auto simp: compact_line_text)
    then show ?thesis using False c heat_bounds_props(1) [OF c(1), of ?n] by (intro exI [of _ "heat_bounds c ?n"]) (simp add: Let_def heat_bounds_def)
  qed
qed

theorem heatmap_shows_every_cpu_witness:
  "\<exists>bounds. concat (map (\<lambda>(i, j). [i..<j]) bounds) = [0..<5] \<and> length bounds \<le> 2 \<and>
    map line_text (core_heatmap_rows [Fin 1, Fin 20, Fin 40, Fin 60, Fin 99] [] [True, False] 20 (Some 4) False 2)
      = map (heat_row_text [Fin 1, Fin 20, Fin 40, Fin 60, Fin 99] [] [True, False] False (ceil_div 5 2 \<le> heat_max_cols 20 5 False)) bounds"
proof -
  have l: "length [Fin 1, Fin 20, Fin 40, Fin 60, Fin 99] = 5" by simp
  have "[Fin 1, Fin 20, Fin 40, Fin 60, Fin 99] \<noteq> []" "0 < (2::nat)" by simp_all
  from heatmap_shows_every_cpu [OF this, of 20 False "[]" "[True, False]" "Some 4"] show ?thesis unfolding l Let_def by blast
qed

text \<open>The height the panel asks for is enough for everything it shows: nothing of the full view is cut off.\<close>

lemma minibar_length: "length (physical_core_minibar_rows dw usages online cores width)
    \<le> max (length (cores_of KindPerformance cores)) (length (cores_of KindEfficiency cores)) + 1"
  by (simp add: physical_core_minibar_rows_def Let_def)

lemma heatmap_length: "length (core_heatmap_rows usages kinds online w b sk 4) \<le> 4"
proof -
  have "length (compact_core_heatmap_rows usages online b 4 d) \<le> max (min (length usages) 4) 1" for d
    unfolding compact_core_heatmap_rows_def Let_def length_map by (rule le_trans [OF length_takeWhile_le]) simp
  also have "max (min (length usages) 4) 1 \<le> 4" by simp
  finally show ?thesis by (simp add: core_heatmap_rows_def Let_def)
qed

lemma system_rows_length:
  assumes "length (ct_physical_core_groups (sm_cpu_topology s)) < 65526"
  shows "length (system_rows dw s width bar_width) + 2 \<le> unat (system_panel_height s)"
proof (cases "shows_minibar (sm_cpu_topology s)")
  case True
  let ?g = "ct_physical_core_groups (sm_cpu_topology s)"
  let ?r = "max (max (length (cores_of KindPerformance ?g)) (length (cores_of KindEfficiency ?g))) 1"
  have "length (cores_of k ?g) < 65526" for k unfolding cores_of_def by (rule le_less_trans [OF length_filter_le assms])
  then have r: "?r < 65526" by simp
  have "unat (of_nat m + 10 :: u16) = m + 10" if "m < 65526" for m
  proof -
    have "(of_nat m + 10 :: u16) = of_nat (m + 10)" by simp
    then show ?thesis using that by (simp only: unat_of_nat) (simp add: take_bit_nat_eq_self)
  qed
  from this [OF r] have "?r + 10 \<le> unat (system_panel_height s)" using True
    by (simp add: system_panel_height_def Let_def) (metis (no_types) max.cobounded1 word_le_nat_alt)
  then show ?thesis using minibar_length [of dw "sm_per_cpu_usage s" "ct_online (sm_cpu_topology s)" ?g width] True
    by (simp add: system_rows_def core_rows_def memory_lines_def Let_def)
next
  case False
  then show ?thesis using heatmap_length [of "sm_per_cpu_usage s" "ct_core_kinds (sm_cpu_topology s)" "ct_online (sm_cpu_topology s)" width]
    by (simp add: system_rows_def core_rows_def memory_lines_def system_panel_height_def Let_def)
qed

theorem system_panel_complete:
  assumes "length (ct_physical_core_groups (sm_cpu_topology s)) < 65526" "rt_inner rt AllBorders area = inner"
    "unat (system_panel_height s) \<le> unat (rc_height inner) + 2" "35 \<le> rc_width inner"
  shows "\<exists>bar_width title. draw_system rt area s = [(area, PaintBlock title AllBorders DIM_GREEN),
    (inner, paint_lines (system_rows (rt_width rt) s (rc_width inner) bar_width))]"
proof -
  have "13 \<le> unat (system_panel_height s)" by (simp add: system_panel_height_def Let_def max_def word_le_nat_alt)
  then have h: "9 \<le> rc_height inner" "rc_height inner \<noteq> 0" using assms(3) by (auto simp: word_le_nat_alt)
  have w: "\<not> rc_width inner < 16" using assms(4) by (simp add: word_less_nat_alt word_le_nat_alt)
  have "take (unat (rc_height inner)) (system_rows dw s x b) = system_rows dw s x b" for dw x b
    using system_rows_length [OF assms(1), of dw x b] assms(3) by simp
  then show ?thesis using h w assms(2,4) by (auto simp: draw_system_def boxed_def system_full_view_def Let_def)
qed

text \<open>A processor with four and eight cores.\<close>

definition example_system :: SystemStats where
  "example_system = \<lparr>sm_cpu_usage = Fin 20, sm_per_cpu_usage = replicate 12 (Fin 20),
     sm_cpu_topology = \<lparr>ct_vendor = VendorIntel, ct_model = [], ct_logical_cpus = 12, ct_physical_cores = Some 12, ct_performance_cores = Some 4,
       ct_efficiency_cores = Some 8, ct_low_power_cores = None, ct_core_kinds = replicate 4 KindPerformance @ replicate 8 KindEfficiency,
       ct_physical_core_groups = map (\<lambda>i. \<lparr>pc_kind = if i < 4 then KindPerformance else KindEfficiency, pc_logical_cpus = [i]\<rparr>) [0..<12], ct_online = []\<rparr>,
     sm_cpu_frequency_mhz = None, sm_cpu_temperature_c = None, sm_cpu_power_w = None, sm_io_wait_pct = None, sm_load_one = None, sm_load_five = None,
     sm_load_fifteen = None, sm_memory_used_bytes = 0, sm_memory_total_bytes = 0, sm_swap_used_bytes = 0, sm_swap_total_bytes = 0, sm_processes = []\<rparr>"

theorem system_panel_complete_witness:
  "\<exists>bar_width title. draw_system example_ratatui (rect 0 0 40 18) example_system = [(rect 0 0 40 18, PaintBlock title AllBorders DIM_GREEN),
    (rect 1 1 38 16, paint_lines (system_rows length example_system 38 bar_width))]"
proof -
  have h: "system_panel_height example_system = 18"
    by (simp add: system_panel_height_def shows_minibar_def is_hybrid_def example_system_def cores_of_def upt_rec Let_def list_ex_iff)
  have "rt_inner example_ratatui AllBorders (rect 0 0 40 18) = rect 1 1 38 16" by (simp add: example_ratatui_def rect_def)
  then show ?thesis
    using system_panel_complete [of example_system example_ratatui "rect 0 0 40 18" "rect 1 1 38 16"] h
    by (simp add: example_system_def example_ratatui_def rect_def)
qed

end
