(* ===== verification/CommandLine.thy ===== *)
theory CommandLine
  imports Store Discovery
begin

text \<open>
  The command line, from \<^verbatim>\<open>src/main.rs\<close>: how the options override the saved settings, what each
  command runs, the wait for the update helper, and the uninstaller over the filesystem of Store.  What clap parses, the
  path of the running binary, the answers of \<^verbatim>\<open>try_wait\<close> and the clock are parameters.
\<close>

section \<open>Options and dispatch\<close>

datatype Commands = CmdUpdate | CmdDiag bool | CmdUninstall bool

record Args =
  ar_command :: "Commands option"
  ar_server :: "rstr option"
  ar_interval_ms :: "u64 option"
  ar_gpu :: "rstr option"
  ar_gpu_index :: "u32 option"

definition override_server :: "rstr option \<Rightarrow> AppConfig \<Rightarrow> AppConfig" where
  "override_server server s = (case server of
       Some v \<Rightarrow> if trim v \<noteq> [] then s\<lparr>cf_server := Some v, cf_auto_discovery := False\<rparr> else s
     | None \<Rightarrow> s)"

definition override_gpu :: "rstr option \<Rightarrow> u32 option \<Rightarrow> AppConfig \<Rightarrow> AppConfig" where
  "override_gpu gpu gpu_index s = (case gpu of
       Some v \<Rightarrow> s\<lparr>cf_gpu_selector := GpuSelector_parse v\<rparr>
     | None \<Rightarrow> (case gpu_index of Some i \<Rightarrow> s\<lparr>cf_gpu_selector := Index i\<rparr> | None \<Rightarrow> s))"

definition startup_settings :: "('u, 'z) url_api_scheme \<Rightarrow> Args \<Rightarrow> AppConfig \<Rightarrow> AppConfig" where
  "startup_settings api args loaded = (let
       s = override_server (ar_server args) loaded;
       s = (case ar_interval_ms args of Some n \<Rightarrow> s\<lparr>cf_refresh_ms := n\<rparr> | None \<Rightarrow> s);
       s = override_gpu (ar_gpu args) (ar_gpu_index args) s
     in AppConfig_sanitized api s)"

text \<open>What the program goes on to do; the two scans of /proc happen one after the other.\<close>

datatype Dispatch = RunUpdate | RunUninstall bool | RunDiag AppConfig bool
  | RunApp rstr "LocalServerIdentity option" AppConfig bool ServerList rstr

definition main_dispatch ::
  "('u, 'z) url_api_scheme \<Rightarrow> (nat \<Rightarrow> Sys) \<Rightarrow> (nat \<Rightarrow> Sys) \<Rightarrow> Args \<Rightarrow> AppConfig \<Rightarrow> Dispatch" where
  "main_dispatch api scan1 scan2 args loaded = (let settings = startup_settings api args loaded in
     case ar_command args of
       Some CmdUpdate \<Rightarrow> RunUpdate
     | Some (CmdUninstall purge) \<Rightarrow> RunUninstall purge
     | Some (CmdDiag servers) \<Rightarrow> RunDiag settings servers
     | None \<Rightarrow> (let resolved = resolve_monitor_target_with scan1 settings;
           server_list = collect_server_list_with api scan2 settings;
           default_selected = server_key api (rs_endpoint resolved)
         in RunApp (rs_endpoint resolved) (rs_identity resolved) settings (rs_auto resolved) server_list default_selected))"

section \<open>The update helper\<close>

definition CARGO_UPDATE_COMMAND :: rstr where
  "CARGO_UPDATE_COMMAND = lit ''cargo install --git https://github.com/exclude-barrier/OrsikTop --locked --force''"

definition UPDATER_TIMEOUT_MS :: nat where "UPDATER_TIMEOUT_MS = 10 * 60 * 1000"

datatype UpdaterError = UpdaterNotFound | UpdaterTimedOut | UpdaterFailed rstr

text \<open>
  The \<open>i\<close>-th \<^verbatim>\<open>try_wait\<close> answers \<open>tw i\<close>: an error, still running, or an exit status with its text;
  the clock read after it is \<open>now i\<close>.  The flag tells that the child was killed.
\<close>

type_synonym try_wait = "nat \<Rightarrow> rstr + (bool \<times> rstr) option"

definition exit_result :: "bool \<times> rstr \<Rightarrow> UpdaterError + unit" where
  "exit_result st = (case st of (success, status) \<Rightarrow>
     if success then Inr () else Inl (UpdaterFailed (lit ''OrsikTop updater exited with status '' @ status)))"

partial_function (option) wait_loop :: "try_wait \<Rightarrow> (nat \<Rightarrow> instant) \<Rightarrow> instant \<Rightarrow> nat \<Rightarrow> ((UpdaterError + unit) \<times> bool) option" where
  "wait_loop tw now deadline i = (case tw i of
       Inl e \<Rightarrow> Some (Inl (UpdaterFailed e), False)
     | Inr (Some st) \<Rightarrow> Some (exit_result st, False)
     | Inr None \<Rightarrow> if deadline \<le> now i then Some (Inl UpdaterTimedOut, True) else wait_loop tw now deadline (i + 1))"

definition wait_for_child :: "try_wait \<Rightarrow> (nat \<Rightarrow> instant) \<Rightarrow> instant \<Rightarrow> duration \<Rightarrow> ((UpdaterError + unit) \<times> bool) option" where
  "wait_for_child tw now start timeout = wait_loop tw now (start + timeout) 0"

definition run_updater_command :: "IoError + unit \<Rightarrow> try_wait \<Rightarrow> (nat \<Rightarrow> instant) \<Rightarrow> instant \<Rightarrow> (UpdaterError + unit) option" where
  "run_updater_command spawned tw now start = (case spawned of
       Inl NotFound \<Rightarrow> Some (Inl UpdaterNotFound)
     | Inl e \<Rightarrow> Some (Inl (UpdaterFailed (io_error_text e)))
     | Inr _ \<Rightarrow> map_option fst (wait_for_child tw now start (UPDATER_TIMEOUT_MS * 1000000)))"

definition sibling_updater :: "(rstr \<Rightarrow> bool) \<Rightarrow> rstr \<Rightarrow> rstr option" where
  "sibling_updater is_file exe = (case path_parent exe of None \<Rightarrow> None
     | Some dir \<Rightarrow> let p = path_join dir (lit ''orsiktop-update'') in if is_file p then Some p else None)"

definition updater_missing :: rstr where
  "updater_missing = lit ''orsiktop-update was not found next to the running binary. Self-update is available for standalone installations created by the OrsikTop installer. If you installed OrsikTop with Cargo, update it with:'' @ [10] @ CARGO_UPDATE_COMMAND"

text \<open>\<open>run p\<close> is what running the command \<open>p\<close> gives.\<close>

definition run_updater :: "(rstr \<Rightarrow> bool) \<Rightarrow> rstr option \<Rightarrow> (rstr \<Rightarrow> (UpdaterError + unit) option) \<Rightarrow> (rstr + unit) option" where
  "run_updater is_file exe run = (case Option.bind exe (sibling_updater is_file) of
       None \<Rightarrow> Some (Inl updater_missing)
     | Some p \<Rightarrow> map_option (\<lambda>r. case r of
           Inr _ \<Rightarrow> Inr ()
         | Inl UpdaterNotFound \<Rightarrow> Inl updater_missing
         | Inl UpdaterTimedOut \<Rightarrow> Inl (lit ''orsiktop-update did not finish within '' @ show_nat (UPDATER_TIMEOUT_MS div 1000) @ lit '' s and was terminated.'')
         | Inl (UpdaterFailed message) \<Rightarrow> Inl message) (run p))"

section \<open>The uninstaller\<close>

definition is_cargo_install_dir :: "rstr \<Rightarrow> bool" where
  "is_cargo_install_dir dir \<longleftrightarrow> path_name dir = Some (lit ''bin'') \<and> Option.bind (path_parent dir) path_name = Some (lit ''.cargo'')"

datatype InstallEntry = InstallRegular rstr | InstallSymlink rstr

definition install_entry :: "faults \<Rightarrow> rstr \<Rightarrow> InstallEntry option io" where
  "install_entry fault p = io_catch (io_bind (symlink_metadata fault p) (\<lambda>node. io_return (case node of
       Symlink _ \<Rightarrow> Some (InstallSymlink p) | Regular _ _ \<Rightarrow> Some (InstallRegular p) | Directory \<Rightarrow> None))) (\<lambda>_. io_return None)"

definition uninstall_entries :: "faults \<Rightarrow> rstr \<Rightarrow> InstallEntry list io" where
  "uninstall_entries fault dir =
     io_bind (install_entry fault (path_join dir (lit ''orsiktop''))) (\<lambda>a.
     io_bind (install_entry fault (path_join dir (lit ''orsiktop-update''))) (\<lambda>b.
     io_return (List.map_filter (\<lambda>e. e) [a, b])))"

definition removal_failed :: "rstr \<Rightarrow> IoError \<Rightarrow> IoError" where
  "removal_failed p e = OtherIo (lit ''failed to remove '' @ p @ lit '': '' @ io_error_text e)"

fun remove_entries :: "faults \<Rightarrow> InstallEntry list \<Rightarrow> rstr list io" where
  "remove_entries fault [] = io_return []"
| "remove_entries fault (InstallRegular p # es) =
     io_bind (io_catch (remove_file fault p) (\<lambda>e. io_fail (removal_failed p e))) (\<lambda>_.
     io_bind (remove_entries fault es) (\<lambda>ls. io_return ((lit ''removed '' @ p) # ls)))"
| "remove_entries fault (InstallSymlink p # es) =
     io_bind (remove_entries fault es) (\<lambda>ls. io_return ((lit ''skipped '' @ p @ lit '' (symlink; not removed)'') # ls))"

text \<open>
  \<^verbatim>\<open>fs::remove_dir_all\<close>: a link is removed itself, a directory with all below it; when it fails on the
  way, \<open>gone\<close> tells what is already removed.
\<close>

definition inside :: "rstr \<Rightarrow> rstr \<Rightarrow> bool" where
  "inside p q \<longleftrightarrow> q = p \<or> starts_with (p @ lit ''/'') q"

definition remove_dir_all :: "faults \<Rightarrow> (nat \<Rightarrow> rstr \<Rightarrow> bool) \<Rightarrow> rstr \<Rightarrow> unit io" where
  "remove_dir_all fault gone p = sys_call fault OpRemove
     (\<lambda>n m q. if m p = Some Directory \<and> inside p q \<and> gone n q then None else m q)
     (\<lambda>m. case m p of
         None \<Rightarrow> (Inl NotFound, m)
       | Some (Symlink _) \<Rightarrow> (Inr (), m(p := None))
       | Some (Regular _ _) \<Rightarrow> (Inl (OtherIo (lit ''not a directory'')), m)
       | Some Directory \<Rightarrow> (Inr (), \<lambda>q. if inside p q then None else m q))"

definition is_dir :: "faults \<Rightarrow> rstr \<Rightarrow> bool io" where
  "is_dir fault p = io_catch (sys_call fault OpMetadata (\<lambda>_ m. m) (\<lambda>m. (case kernel_follow m 40 p of
       None \<Rightarrow> Inl (OtherIo (lit ''too many levels of symbolic links'')) | Some q \<Rightarrow> Inr (m q = Some Directory), m))) (\<lambda>_. io_return False)"

definition remove_binaries :: "faults \<Rightarrow> rstr \<Rightarrow> rstr list io" where
  "remove_binaries fault dir = (if is_cargo_install_dir dir
     then io_return [lit ''OrsikTop was installed with Cargo, so the binaries were left in place. Remove it with:'', lit ''cargo uninstall orsiktop'']
     else io_bind (uninstall_entries fault dir) (remove_entries fault))"

definition remove_config :: "faults \<Rightarrow> (nat \<Rightarrow> rstr \<Rightarrow> bool) \<Rightarrow> rstr option \<Rightarrow> bool \<Rightarrow> rstr list \<Rightarrow> rstr list io" where
  "remove_config fault gone cdir purge ls = (case cdir of
       None \<Rightarrow> io_return ls
     | Some d \<Rightarrow> if purge
         then io_catch (io_bind (remove_dir_all fault gone d) (\<lambda>_. io_return (ls @ [lit ''removed '' @ d])))
           (\<lambda>e. if e = NotFound then io_return ls else io_fail (removal_failed d e))
         else io_bind (is_dir fault d) (\<lambda>there. io_return (if there
           then ls @ [lit ''kept config at '' @ d @ lit '' (remove it with: orsiktop uninstall --purge)''] else ls)))"

definition run_uninstall ::
  "faults \<Rightarrow> (nat \<Rightarrow> rstr \<Rightarrow> bool) \<Rightarrow> IoError + rstr \<Rightarrow> (rstr \<Rightarrow> rstr option) \<Rightarrow> bool \<Rightarrow> rstr list io" where
  "run_uninstall fault gone current_exe env purge = (case current_exe of
       Inl e \<Rightarrow> io_fail (OtherIo (lit ''could not determine the running binary: '' @ io_error_text e))
     | Inr exe \<Rightarrow> (case path_parent exe of
         None \<Rightarrow> io_fail (OtherIo (lit ''could not determine the installation directory''))
       | Some dir \<Rightarrow>
           io_bind (remove_binaries fault dir) (\<lambda>ls.
           io_bind (remove_config fault gone (config_dir env) purge ls) (\<lambda>ls.
           io_return (if ls = [] then [lit ''no OrsikTop binaries found; nothing to remove''] else ls)))))"

section \<open>A server given on the command line\<close>

lemma resolve_manual:
  assumes "cf_auto_discovery s = False" "cf_server s = Some e" "trim e = e" "e \<noteq> []"
  shows "resolve_monitor_target_with sys s = \<lparr>rs_endpoint = e, rs_identity = None, rs_auto = False\<rparr>"
  using assms by (simp add: resolve_monitor_target_with_def collect_candidates_def select_endpoint_def
    selected_endpoint_server_def candidate_identity_def is_process_def Let_def)

lemma collect_manual:
  assumes "cf_auto_discovery s = False" "cf_server s = Some e" "trim e = e" "e \<noteq> []"
  shows "hd (sl_monitored (collect_server_list_with api sys s)) = \<lparr>sv_key = server_key api e, sv_endpoint = e, sv_identity = None\<rparr>"
    and "\<forall>spec \<in> set (sl_monitored (collect_server_list_with api sys s) @ sl_overflow (collect_server_list_with api sys s)). sv_identity spec = None"
proof -
  let ?es = "keyed_entries api (server_entries sys s)"
  have es: "?es = (server_key api e, e, None) # keyed_entries api (map (\<lambda>v. (v, None)) (cf_servers s))"
    using assms by (simp add: server_entries_def keyed_entries_def)
  have none: "first_some (map (\<lambda>e. snd (snd e)) (filter P ?es)) = None" for P
  proof -
    have "x = None" if "x \<in> set (map (\<lambda>e. snd (snd e)) (filter P ?es))" for x
      using that assms(1) by (auto simp: keyed_entries_def server_entries_def split: option.splits)
    then show ?thesis using first_some_in [of "map (\<lambda>e. snd (snd e)) (filter P ?es)"]
      by (cases "first_some (map (\<lambda>e. snd (snd e)) (filter P ?es))") auto
  qed
  have sp: "spec_at ?es (server_key api e) = \<lparr>sv_key = server_key api e, sv_endpoint = e, sv_identity = None\<rparr>"
    using none [of "\<lambda>x. fst x = server_key api e"] by (simp add: spec_at_def es)
  have specs: "specs_of ?es = spec_at ?es (server_key api e) # tl (specs_of ?es)"
    by (simp add: specs_of_def es)
  have mon: "collect_server_list_with api sys s = \<lparr>sl_monitored = take 16 (specs_of ?es), sl_overflow = drop 16 (specs_of ?es)\<rparr>"
    by (simp add: collect_specs monitored_entries_def es MAX_MONITORED_SERVERS_def Let_def)
  show "hd (sl_monitored (collect_server_list_with api sys s)) = \<lparr>sv_key = server_key api e, sv_endpoint = e, sv_identity = None\<rparr>"
    by (subst mon, subst specs) (simp add: sp)
  show "\<forall>spec \<in> set (sl_monitored (collect_server_list_with api sys s) @ sl_overflow (collect_server_list_with api sys s)). sv_identity spec = None"
    unfolding mon using none by (auto simp: specs_of_def spec_at_def Let_def)
qed

text \<open>
  A server given on the command line is the one the program starts with, whatever runs on the machine: it is the first of
  the monitored servers and the selected one, its address is the option without the blanks around it, discovery is off,
  and no server is attributed to a local process.
\<close>

theorem command_line_server:
  assumes "ar_command args = None" "ar_server args = Some v" "trim v \<noteq> []"
  shows "\<exists>settings servers. main_dispatch api scan1 scan2 args loaded
      = RunApp (trim v) None settings False servers (sv_key (hd (sl_monitored servers)))
    \<and> sv_endpoint (hd (sl_monitored servers)) = trim v
    \<and> list_all (\<lambda>spec. sv_identity spec = None) (sl_monitored servers @ sl_overflow servers)"
proof -
  let ?s = "startup_settings api args loaded"
  have s: "cf_auto_discovery ?s = False" "cf_server ?s = Some (trim v)"
    using assms(2,3) by (auto simp: startup_settings_def override_server_def override_gpu_def AppConfig_sanitized_def
      nonempty_trim_def Let_def split: option.split)
  have t: "trim (trim v) = trim v" by simp
  show ?thesis
    using resolve_manual [OF s t assms(3), of scan1] collect_manual [OF s t assms(3), of api scan2] assms(1)
    by (simp add: main_dispatch_def Let_def list_all_iff)
qed

theorem command_line_server_witness:
  "\<exists>settings servers. main_dispatch sample_urls (\<lambda>_. sample_proc) (\<lambda>_. sample_proc)
       \<lparr>ar_command = None, ar_server = Some (lit '' http://a:1''), ar_interval_ms = None, ar_gpu = None, ar_gpu_index = None\<rparr> AppConfig_default
      = RunApp (trim (lit '' http://a:1'')) None settings False servers (sv_key (hd (sl_monitored servers)))
    \<and> sv_endpoint (hd (sl_monitored servers)) = trim (lit '' http://a:1'')
    \<and> list_all (\<lambda>spec. sv_identity spec = None) (sl_monitored servers @ sl_overflow servers)"
  by (rule command_line_server) (simp, simp, code_simp)

section \<open>The wait for the helper\<close>

lemma wait_loop_skip:
  assumes "\<forall>j < n. tw (i + j) = Inr None \<and> now (i + j) < deadline"
  shows "wait_loop tw now deadline i = wait_loop tw now deadline (i + n)"
  using assms
proof (induction n arbitrary: i)
  case (Suc n)
  have "wait_loop tw now deadline i = wait_loop tw now deadline (i + 1)"
    using Suc.prems [rule_format, of 0] by (subst wait_loop.simps) simp
  also have "\<dots> = wait_loop tw now deadline (i + 1 + n)"
    using Suc.prems by (intro Suc.IH) (metis Suc_mono add.assoc plus_1_eq_Suc)
  finally show ?case by simp
qed simp

text \<open>
  C30: The wait for the update helper ends: when every pause lets the clock advance by the poll interval, it looks at the child
  at most once for each interval that fits in the timeout and once more.  The answer is the first exit status or error
  seen before the deadline; without one the child is killed and reported as timed out, and not before the deadline.
\<close>

theorem updater_wait_ends:
  assumes "\<forall>i. now i + poll \<le> now (i + 1)" "0 < poll" "start \<le> now 0"
  shows "\<exists>n r. wait_for_child tw now start timeout = Some r \<and> n \<le> timeout div poll + 1 \<and>
    (\<forall>j < n. tw j = Inr None \<and> now j < start + timeout) \<and>
    r = (case tw n of Inl e \<Rightarrow> (Inl (UpdaterFailed e), False) | Inr (Some st) \<Rightarrow> (exit_result st, False) | Inr None \<Rightarrow> (Inl UpdaterTimedOut, True)) \<and>
    (snd r \<longrightarrow> start + timeout \<le> now n)"
proof -
  let ?stop = "\<lambda>i. tw i \<noteq> Inr None \<or> start + timeout \<le> now i"
  have clock: "start + i * poll \<le> now i" for i
  proof (induction i)
    case (Suc i)
    then show ?case using assms(1) [rule_format, of i] by simp
  qed (use assms(3) in simp)
  let ?N = "timeout div poll + 1"
  have "timeout < ?N * poll" using assms(2) dividend_less_div_times [of poll timeout] by (simp add: add.commute)
  then have "?stop ?N" using clock [of ?N] by simp
  moreover define n where "n = (LEAST i. ?stop i)"
  ultimately have n: "?stop n" "n \<le> ?N" unfolding n_def by (metis (mono_tags, lifting) LeastI, metis (mono_tags, lifting) Least_le)
  have before: "tw j = Inr None \<and> now j < start + timeout" if "j < n" for j
    using not_less_Least [of j ?stop] that unfolding n_def by auto
  then have "wait_for_child tw now start timeout = wait_loop tw now (start + timeout) n"
    using wait_loop_skip [of n tw 0 now] by (simp add: wait_for_child_def)
  then show ?thesis
    using n before by (intro exI [of _ n]) (auto simp: wait_loop.simps [of tw now _ n] exit_result_def split: sum.split option.split prod.splits)
qed

definition sample_wait :: try_wait where
  "sample_wait i = Inr (if i < 3 then None else Some (False, lit ''exit status: 3''))"

theorem updater_wait_ends_witness:
  "\<exists>n r. wait_for_child sample_wait (\<lambda>i. i * 10) 0 30 = Some r \<and> n \<le> 30 div 10 + 1 \<and>
    (\<forall>j < n. sample_wait j = Inr None \<and> j * 10 < 0 + 30) \<and>
    r = (case sample_wait n of Inl e \<Rightarrow> (Inl (UpdaterFailed e), False) | Inr (Some st) \<Rightarrow> (exit_result st, False) | Inr None \<Rightarrow> (Inl UpdaterTimedOut, True)) \<and>
    (snd r \<longrightarrow> 0 + 30 \<le> n * 10)"
  by (rule updater_wait_ends [where poll = 10]) simp_all

text \<open>Only the helper beside the binary is run, and only if it is a file.\<close>

theorem updater_runs_sibling:
  assumes "path_parent exe = Some dir" "helper = path_join dir (lit ''orsiktop-update'')"
  shows "run_updater is_file (Some exe) run = (if is_file helper
    then run_updater (\<lambda>p. p = helper) (Some exe) (\<lambda>p. if p = helper then run helper else None) else Some (Inl updater_missing))"
  using assms by (simp add: run_updater_def sibling_updater_def Let_def)

section \<open>What the uninstaller removes\<close>

text \<open>The entries it may remove: its own two files in a directory that is not Cargo's, and with --purge the configuration.\<close>

definition own_entry :: "rstr \<Rightarrow> bool \<Rightarrow> rstr option \<Rightarrow> rstr \<Rightarrow> Node \<Rightarrow> bool" where
  "own_entry dir purge cdir q node \<longleftrightarrow>
     \<not> is_cargo_install_dir dir \<and> q \<in> {path_join dir (lit ''orsiktop''), path_join dir (lit ''orsiktop-update'')} \<and> (\<exists>t mode. node = Regular t mode) \<or>
     purge \<and> (\<exists>d. cdir = Some d \<and> inside d q)"

definition only_own :: "nodes \<Rightarrow> (rstr \<Rightarrow> Node \<Rightarrow> bool) \<Rightarrow> nodes \<Rightarrow> bool" where
  "only_own m0 own m \<longleftrightarrow> (\<forall>q. m q = m0 q \<or> m q = None \<and> (\<exists>node. m0 q = Some node \<and> own q node))"

definition removing :: "nodes \<Rightarrow> (rstr \<Rightarrow> Node \<Rightarrow> bool) \<Rightarrow> Fs \<Rightarrow> bool" where
  "removing m0 own s \<longleftrightarrow> only_own m0 own (fs_nodes s) \<and> list_all (only_own m0 own) (fs_log s)"

lemma only_own_refl [simp]: "only_own m own m"
  by (simp add: only_own_def)

lemma wp_removing_call:
  assumes "removing m0 own s"
    and "\<And>n. only_own m0 own (partial n (fs_nodes s))"
    and "\<And>v m. act (fs_nodes s) = (v, m) \<Longrightarrow> only_own m0 own m"
  shows "wp (sys_call fault oper partial act) (\<lambda>_. removing m0 own) (\<lambda>_. removing m0 own) s"
  using assms by (intro wp_call) (auto simp: removing_def)

lemma only_own_remove: "only_own m0 own m \<Longrightarrow> (\<And>node. m0 p = Some node \<Longrightarrow> own p node) \<Longrightarrow> only_own m0 own (m(p := None))"
  by (auto simp: only_own_def)

lemma only_own_remove_some:
  assumes "only_own m0 own m" "\<And>q node. c q \<Longrightarrow> m0 q = Some node \<Longrightarrow> own q node"
  shows "only_own m0 own (\<lambda>q. if c q then None else m q)"
  using assms unfolding only_own_def by (metis option.exhaust)

text \<open>An entry listed as a file was one, and still may be removed.\<close>

definition entry_ok :: "nodes \<Rightarrow> rstr \<Rightarrow> InstallEntry \<Rightarrow> bool" where
  "entry_ok m0 dir e = (case e of InstallSymlink _ \<Rightarrow> True
     | InstallRegular p \<Rightarrow> p \<in> {path_join dir (lit ''orsiktop''), path_join dir (lit ''orsiktop-update'')} \<and> (\<exists>t mode. m0 p = Some (Regular t mode)))"

lemma wp_install_entry:
  assumes "removing m0 own s"
  shows "wp (install_entry fault p) (\<lambda>e s. removing m0 own s \<and> (\<forall>q. e = Some (InstallRegular q) \<longrightarrow> q = p \<and> (\<exists>t mode. m0 p = Some (Regular t mode))))
    (\<lambda>_ _. False) s"
proof -
  have m0: "m0 p = Some node" if "fs_nodes s p = Some node" for node
    using assms that by (auto simp: removing_def only_own_def dest: spec [of _ p])
  show ?thesis unfolding install_entry_def symlink_metadata_def
    using assms m0 by (auto intro!: wp_call simp: removing_def split: option.splits Node.splits)
qed

lemma wp_uninstall_entries:
  assumes "removing m0 own s"
  shows "wp (uninstall_entries fault dir) (\<lambda>es s. removing m0 own s \<and> list_all (entry_ok m0 dir) es) (\<lambda>_ s. removing m0 own s) s"
  unfolding uninstall_entries_def wp_bind
  by (rule wp_mono [OF wp_install_entry [OF assms]], elim conjE, rule wp_mono [OF wp_install_entry])
    (auto simp: entry_ok_def map_filter_def split: InstallEntry.splits option.splits)

lemma wp_remove_entries:
  assumes "removing m0 own s" "list_all (entry_ok m0 dir) es"
    and "\<And>p t mode. p \<in> {path_join dir (lit ''orsiktop''), path_join dir (lit ''orsiktop-update'')} \<Longrightarrow> own p (Regular t mode)"
  shows "wp (remove_entries fault es) (\<lambda>_. removing m0 own) (\<lambda>_. removing m0 own) s"
  using assms(1,2)
proof (induction es arbitrary: s)
  case (Cons e es)
  show ?case
  proof (cases e)
    case (InstallSymlink p)
    then show ?thesis using Cons by simp
  next
    case (InstallRegular p)
    have own: "own p node" if "m0 p = Some node" for node
      using that Cons.prems(2) assms(3) by (auto simp: InstallRegular entry_ok_def)
    have r: "wp (remove_file fault p) (\<lambda>_. removing m0 own) (\<lambda>_. removing m0 own) s"
      unfolding remove_file_def using Cons.prems(1) own
      by (intro wp_removing_call) (auto simp: removing_def intro: only_own_remove split: if_splits)
    have es: "list_all (entry_ok m0 dir) es" using Cons.prems(2) by simp
    show ?thesis unfolding InstallRegular by (simp, rule wp_mono [OF r]) (simp_all add: Cons.IH es)
  qed
qed simp

lemma wp_remove_binaries:
  assumes "removing m0 (own_entry dir purge cdir) s"
  shows "wp (remove_binaries fault dir) (\<lambda>_. removing m0 (own_entry dir purge cdir)) (\<lambda>_. removing m0 (own_entry dir purge cdir)) s"
proof (cases "is_cargo_install_dir dir")
  case False
  have own: "own_entry dir purge cdir p (Regular t mode)"
    if "p \<in> {path_join dir (lit ''orsiktop''), path_join dir (lit ''orsiktop-update'')}" for p t mode
    using that False by (auto simp: own_entry_def)
  show ?thesis using False
    by (simp add: remove_binaries_def, intro wp_mono [OF wp_uninstall_entries [OF assms]])
      (auto intro: wp_remove_entries own)
qed (use assms in \<open>simp add: remove_binaries_def\<close>)

lemma wp_remove_config:
  assumes s: "removing m0 (own_entry dir purge cdir) s"
  shows "wp (remove_config fault gone cdir purge ls) (\<lambda>_. removing m0 (own_entry dir purge cdir)) (\<lambda>_. removing m0 (own_entry dir purge cdir)) s"
    (is "wp _ (\<lambda>_. ?R) _ s")
proof (cases cdir)
  case (Some d)
  have own: "own_entry dir purge cdir q node" if "purge" "inside d q" for q node
    using that Some by (auto simp: own_entry_def)
  have selfd: "inside d d" by (simp add: inside_def)
  have n: "only_own m0 (own_entry dir purge cdir) (fs_nodes s)" using s by (simp add: removing_def)
  have r: "wp (remove_dir_all fault gone d) (\<lambda>_. ?R) (\<lambda>_. ?R) s" if purge
    unfolding remove_dir_all_def
    by (rule wp_removing_call [OF s])
      (auto intro!: only_own_remove_some only_own_remove n own [OF that] selfd split: option.splits Node.splits if_splits)
  have d: "wp (is_dir fault d) (\<lambda>_. ?R) (\<lambda>_. ?R) s"
    unfolding is_dir_def wp_catch wp_return by (rule wp_removing_call [OF s]) (auto intro: n split: option.splits)
  show ?thesis
    using wp_mono [OF r] wp_mono [OF d] by (auto simp: remove_config_def Some intro!: wp_mono [OF r] wp_mono [OF d])
qed (use s in \<open>simp add: remove_config_def\<close>)

definition sample_install :: nodes where
  "sample_install = [lit ''/b/orsiktop'' \<mapsto> Regular [] 493, lit ''/b/orsiktop-update'' \<mapsto> Symlink (lit ''/v''), lit ''/v'' \<mapsto> Regular [] 420,
     lit ''/h/orsiktop'' \<mapsto> Directory, lit ''/h/orsiktop/config'' \<mapsto> Regular [] 384]"

definition sample_install_fs :: Fs where
  "sample_install_fs = \<lparr>fs_nodes = sample_install, fs_calls = 0, fs_log = []\<rparr>"

definition sample_home :: "rstr \<Rightarrow> rstr option" where
  "sample_home name = (if name = lit ''XDG_CONFIG_HOME'' then Some (lit ''/h'') else None)"

text \<open>
  C29: Whatever call fails, at every moment the uninstaller has removed nothing but its two binaries, where they are plain files
  in an installation directory that is not Cargo's, and, with --purge, what is inside its configuration directory; links
  it finds in place of the binaries and all else stay as they were.
\<close>

theorem uninstall_only_own:
  assumes "path_parent exe = Some dir" "s = \<lparr>fs_nodes = m0, fs_calls = 0, fs_log = []\<rparr>"
    and "m \<in> set (fs_log (snd (run_uninstall fault gone (Inr exe) env purge s)))"
  shows "m q = m0 q \<or> m q = None \<and> (\<exists>node. m0 q = Some node \<and> own_entry dir purge (config_dir env) q node)"
proof -
  let ?own = "own_entry dir purge (config_dir env)"
  have s: "removing m0 ?own s" by (simp add: assms(2) removing_def)
  have "wp (run_uninstall fault gone (Inr exe) env purge) (\<lambda>_. removing m0 ?own) (\<lambda>_. removing m0 ?own) s"
    using assms(1) by (simp add: run_uninstall_def, intro wp_mono [OF wp_remove_binaries [OF s]])
      (auto intro: wp_mono [OF wp_remove_config])
  then have "removing m0 ?own (snd (run_uninstall fault gone (Inr exe) env purge s))" by (simp only: wp_always)
  then show ?thesis using assms(3) by (auto simp: removing_def list_all_iff only_own_def)
qed


theorem uninstall_only_own_witness:
  "let m = last (fs_log (snd (run_uninstall (\<lambda>_ _. None) (\<lambda>_ _. True) (Inr (lit ''/b/orsiktop'')) sample_home True sample_install_fs))) in
     m (lit ''/v'') = sample_install (lit ''/v'') \<or> m (lit ''/v'') = None \<and>
       (\<exists>node. sample_install (lit ''/v'') = Some node \<and> own_entry (lit ''/b'') True (config_dir sample_home) (lit ''/v'') node)"
  unfolding Let_def
proof (rule uninstall_only_own)
  show "path_parent (lit ''/b/orsiktop'') = Some (lit ''/b'')" by code_simp
  show "sample_install_fs = \<lparr>fs_nodes = sample_install, fs_calls = 0, fs_log = []\<rparr>" by (rule sample_install_fs_def)
  have "0 < length (fs_log (snd (run_uninstall (\<lambda>_ _. None) (\<lambda>_ _. True) (Inr (lit ''/b/orsiktop'')) sample_home True sample_install_fs)))"
    by code_simp
  then show "last (fs_log (snd (run_uninstall (\<lambda>_ _. None) (\<lambda>_ _. True) (Inr (lit ''/b/orsiktop'')) sample_home True sample_install_fs)))
    \<in> set (fs_log (snd (run_uninstall (\<lambda>_ _. None) (\<lambda>_ _. True) (Inr (lit ''/b/orsiktop'')) sample_home True sample_install_fs)))"
    by (intro last_in_set) auto
qed

text \<open>Calls that cannot fail.\<close>

definition no_faults :: faults where
  "no_faults oper n = None"

lemma wp_ok:
  assumes "\<And>e m. act (fs_nodes s) = (Inl e, m) \<Longrightarrow> E e \<lparr>fs_nodes = m, fs_calls = fs_calls s + 1, fs_log = fs_log s @ [m]\<rparr>"
    and "\<And>v m. act (fs_nodes s) = (Inr v, m) \<Longrightarrow> Q v \<lparr>fs_nodes = m, fs_calls = fs_calls s + 1, fs_log = fs_log s @ [m]\<rparr>"
  shows "wp (sys_call no_faults oper partial act) Q E s"
  using assms by (intro wp_call) (auto simp: no_faults_def)

definition classified :: "nodes \<Rightarrow> rstr \<Rightarrow> InstallEntry list" where
  "classified m p = (case m p of Some (Regular _ _) \<Rightarrow> [InstallRegular p] | Some (Symlink _) \<Rightarrow> [InstallSymlink p] | _ \<Rightarrow> [])"

lemma wp_uninstall_entries_ok:
  "wp (uninstall_entries no_faults dir) (\<lambda>es s'. fs_nodes s' = fs_nodes s \<and>
      es = concat (map (classified (fs_nodes s)) [path_join dir (lit ''orsiktop''), path_join dir (lit ''orsiktop-update'')])) (\<lambda>_ _. False) s"
proof -
  have e: "wp (install_entry no_faults p) (\<lambda>e s'. fs_nodes s' = fs_nodes s \<and> List.map_filter (\<lambda>e. e) [e] = classified (fs_nodes s) p) (\<lambda>_ _. False) s" for p s
    unfolding install_entry_def symlink_metadata_def wp_catch wp_bind
    by (intro wp_ok) (auto simp: classified_def map_filter_def split: option.splits Node.splits)
  show ?thesis unfolding uninstall_entries_def wp_bind
    by (rule wp_mono [OF e], elim conjE, rule wp_mono [OF e]) (auto simp: map_filter_def split: option.splits if_splits)
qed

fun entry_line :: "InstallEntry \<Rightarrow> rstr" where
  "entry_line (InstallRegular p) = lit ''removed '' @ p"
| "entry_line (InstallSymlink p) = lit ''skipped '' @ p @ lit '' (symlink; not removed)''"

fun entry_path :: "InstallEntry \<Rightarrow> rstr" where
  "entry_path (InstallRegular p) = p"
| "entry_path (InstallSymlink p) = p"

definition is_regular :: "InstallEntry \<Rightarrow> bool" where
  "is_regular e = (e = InstallRegular (entry_path e))"

lemma wp_remove_entries_ok:
  assumes "distinct (map entry_path es)" "\<forall>e \<in> set es. fs_nodes s (entry_path e) \<noteq> None"
  shows "wp (remove_entries no_faults es) (\<lambda>ls s'. ls = map entry_line es \<and>
      fs_nodes s' = fs_nodes s |` (- entry_path ` set (filter is_regular es))) (\<lambda>_ _. False) s"
  using assms
proof (induction es arbitrary: s)
  case (Cons e es)
  show ?case
  proof (cases e)
    case (InstallSymlink p)
    then show ?thesis using Cons by (auto intro!: wp_mono [OF Cons.IH] simp: is_regular_def)
  next
    case (InstallRegular p)
    define s' where "s' = \<lparr>fs_nodes = (fs_nodes s)(p := None), fs_calls = fs_calls s + 1, fs_log = fs_log s @ [(fs_nodes s)(p := None)]\<rparr>"
    have r: "wp (remove_file no_faults p) (\<lambda>_ t. t = s') (\<lambda>_ _. False) s"
      unfolding remove_file_def s'_def using Cons.prems by (intro wp_ok) (auto simp: InstallRegular split: if_splits)
    have t: "wp (remove_entries no_faults es) (\<lambda>ls t. ls = map entry_line es \<and>
        fs_nodes t = fs_nodes s' |` (- entry_path ` set (filter is_regular es))) (\<lambda>_ _. False) s'"
      using Cons.prems by (intro Cons.IH) (auto simp: s'_def InstallRegular image_iff)
    have m: "fs_nodes s' |` (- X) = fs_nodes s |` (- insert p X)" for X
      by (auto simp: s'_def restrict_map_def)
    have "wp (remove_entries no_faults es) (\<lambda>ls t. (lit ''removed '' @ p) # ls = map entry_line (e # es) \<and>
        fs_nodes t = fs_nodes s |` (- entry_path ` set (filter is_regular (e # es)))) (\<lambda>_ _. False) s'"
      by (rule wp_mono [OF t]) (auto simp: m InstallRegular is_regular_def)
    then show ?thesis unfolding InstallRegular remove_entries.simps wp_bind wp_catch wp_fail wp_return
      by (intro wp_mono [OF r]) simp_all
  qed
qed (simp add: restrict_map_def)

lemma wp_remove_config_ok:
  assumes "\<And>d t mode. cdir = Some d \<Longrightarrow> fs_nodes s d \<noteq> Some (Regular t mode)"
  shows "wp (remove_config no_faults gone cdir True ls) (\<lambda>_ s'. \<forall>q. fs_nodes s' q = (if (\<exists>d. cdir = Some d \<and> inside d q \<and> (q = d \<or> fs_nodes s d = Some Directory)) then None else fs_nodes s q))
    (\<lambda>_ _. False) s"
proof (cases cdir)
  case (Some d)
  have selfd: "inside d d" by (simp add: inside_def)
  show ?thesis unfolding remove_config_def Some remove_dir_all_def
    using assms [OF Some] selfd by (simp, intro wp_ok) (auto split: option.splits Node.splits if_splits)
qed (simp add: remove_config_def)

definition binaries :: "rstr \<Rightarrow> rstr set" where
  "binaries dir = {path_join dir (lit ''orsiktop''), path_join dir (lit ''orsiktop-update'')}"

lemma classified_in: "e \<in> set (classified m p) \<Longrightarrow> entry_path e = p \<and> m p \<noteq> None"
  by (cases "m p"; cases "the (m p)") (auto simp: classified_def)

lemma classified_regular: "entry_path ` set (filter is_regular (classified m p)) = {q. q = p \<and> (\<exists>t mode. m p = Some (Regular t mode))}"
  by (cases "m p"; cases "the (m p)") (auto simp: classified_def is_regular_def)

lemma classified_binaries:
  assumes "es = concat (map (classified m) [path_join dir (lit ''orsiktop''), path_join dir (lit ''orsiktop-update'')])"
  shows "distinct (map entry_path es)" "\<forall>e \<in> set es. m (entry_path e) \<noteq> None"
    "entry_path ` set (filter is_regular es) = {q \<in> binaries dir. \<exists>t mode. m q = Some (Regular t mode)}"
proof -
  have "length (path_join dir (lit ''orsiktop'')) \<noteq> length (path_join dir (lit ''orsiktop-update''))"
    by (simp add: path_join_def) (simp add: lit_def starts_with_def)
  then have ne: "path_join dir (lit ''orsiktop'') \<noteq> path_join dir (lit ''orsiktop-update'')" by metis
  show "distinct (map entry_path es)"
    using ne by (auto simp: assms classified_def split: option.split Node.split)
  show "\<forall>e \<in> set es. m (entry_path e) \<noteq> None" by (auto simp: assms dest: classified_in)
  show "entry_path ` set (filter is_regular es) = {q \<in> binaries dir. \<exists>t mode. m q = Some (Regular t mode)}"
    unfolding assms by (simp only: list.map concat.simps append_Nil2 filter_append set_append image_Un classified_regular) (auto simp: binaries_def)
qed

text \<open>
  When no call fails, uninstalling with --purge removes exactly the two binaries that are plain files and the configuration
  directory with all in it, and nothing else; a link in place of the configuration directory is removed itself.
\<close>

theorem uninstall_purges:
  assumes "path_parent exe = Some dir" "\<not> is_cargo_install_dir dir"
    and "\<And>d t mode. config_dir env = Some d \<Longrightarrow> fs_nodes s d \<noteq> Some (Regular t mode)"
  shows "\<exists>ls s'. run_uninstall no_faults gone (Inr exe) env True s = (Inr ls, s') \<and> ls \<noteq> [] \<and>
    (\<forall>q. fs_nodes s' q = (if q \<in> binaries dir \<and> (\<exists>t mode. fs_nodes s q = Some (Regular t mode)) \<or>
        (\<exists>d. config_dir env = Some d \<and> inside d q \<and> (q = d \<or> fs_nodes s d = Some Directory)) then None else fs_nodes s q))"
proof -
  let ?m = "fs_nodes s"
  let ?bin = "{q \<in> binaries dir. \<exists>t mode. ?m q = Some (Regular t mode)}"
  have "wp (uninstall_entries no_faults dir) (\<lambda>es. wp (remove_entries no_faults es) (\<lambda>_ s'. fs_nodes s' = ?m |` (- ?bin)) (\<lambda>_ _. False)) (\<lambda>_ _. False) s"
  proof (rule wp_mono [OF wp_uninstall_entries_ok], elim conjE)
    fix es and s' :: Fs
    assume s': "fs_nodes s' = ?m" and es: "es = concat (map (classified ?m) [path_join dir (lit ''orsiktop''), path_join dir (lit ''orsiktop-update'')])"
    note c = classified_binaries [OF es]
    show "wp (remove_entries no_faults es) (\<lambda>_ s'. fs_nodes s' = ?m |` (- ?bin)) (\<lambda>_ _. False) s'"
      by (rule wp_mono [OF wp_remove_entries_ok]) (use c s' in auto)
  qed simp
  then have b: "wp (remove_binaries no_faults dir) (\<lambda>_ s'. fs_nodes s' = ?m |` (- ?bin)) (\<lambda>_ _. False) s"
    using assms(2) by (simp add: remove_binaries_def)
  have keep: "(?m |` (- ?bin)) d = ?m d" if "config_dir env = Some d" for d
    using assms(3) [OF that] by (auto simp: restrict_map_def)
  have "wp (run_uninstall no_faults gone (Inr exe) env True) (\<lambda>ls s'. ls \<noteq> [] \<and>
    (\<forall>q. fs_nodes s' q = (if q \<in> ?bin \<or> (\<exists>d. config_dir env = Some d \<and> inside d q \<and> (q = d \<or> ?m d = Some Directory)) then None else ?m q)))
    (\<lambda>_ _. False) s"
    using assms(1) unfolding run_uninstall_def sum.case option.case wp_bind wp_return
    by (simp, intro wp_mono [OF b] wp_mono [OF wp_remove_config_ok]) (use keep assms(3) in \<open>auto simp: restrict_map_def\<close>)
  then show ?thesis unfolding wp_def by (auto split: prod.splits sum.splits)
qed

theorem uninstall_purges_witness:
  "\<exists>ls s'. run_uninstall no_faults (\<lambda>_ _. True) (Inr (lit ''/b/orsiktop'')) sample_home True sample_install_fs = (Inr ls, s') \<and> ls \<noteq> [] \<and>
    (\<forall>q. fs_nodes s' q = (if q \<in> binaries (lit ''/b'') \<and> (\<exists>t mode. fs_nodes sample_install_fs q = Some (Regular t mode)) \<or>
        (\<exists>d. config_dir sample_home = Some d \<and> inside d q \<and> (q = d \<or> fs_nodes sample_install_fs d = Some Directory))
        then None else fs_nodes sample_install_fs q))"
proof (rule uninstall_purges)
  show "path_parent (lit ''/b/orsiktop'') = Some (lit ''/b'')" "\<not> is_cargo_install_dir (lit ''/b'')" by code_simp+
  have c: "config_dir sample_home = Some (lit ''/h/orsiktop'')" by code_simp
  have "fs_nodes sample_install_fs (lit ''/h/orsiktop'') = Some Directory" by code_simp
  then show "fs_nodes sample_install_fs d \<noteq> Some (Regular t mode)" if "config_dir sample_home = Some d" for d t mode
    using that c by simp
qed

end
