(* ===== verification/Diagnostics.thy ===== *)
theory Diagnostics
  imports CommandLine Monitor GpuMap CpuSensors Providers Cells
begin

text \<open>
  The diagnostics report, from \<^verbatim>\<open>src/diagnostics.rs\<close>: the host sections, the server section with its
  probe, and the overview of all monitored servers.  The answers of the filesystem, of NVML and of the servers are
  parameters, as is \<open>dbg\<close>, the debug form of a string; each section reads the host at its own moment.
\<close>

section \<open>Lines\<close>

definition put :: "string \<Rightarrow> rstr \<Rightarrow> rstr" where
  "put label v = lit label @ v @ [10]"

definition opt_text :: "rstr option \<Rightarrow> rstr" where
  "opt_text v = unwrap_or EM_DASH v"

definition join_or_none :: "rstr list \<Rightarrow> rstr" where
  "join_or_none items = (if items = [] then EM_DASH else join (lit '', '') items)"

definition hex_char :: "nat \<Rightarrow> rchar" where
  "hex_char d = (if d < 10 then 48 + d else 87 + d)"

fun show_hex :: "nat \<Rightarrow> rstr" where
  "show_hex n = (if n < 16 then [hex_char n] else show_hex (n div 16) @ [hex_char (n mod 16)])"

declare show_hex.simps [simp del]

section \<open>The host\<close>

definition kind_short :: "CpuCoreKind \<Rightarrow> rstr" where
  "kind_short k = (case k of KindPerformance \<Rightarrow> lit ''P'' | KindEfficiency \<Rightarrow> lit ''E'' | KindLowPower \<Rightarrow> lit ''L'' | KindUnknown \<Rightarrow> lit ''?'')"

definition cpu_section :: "Sys \<Rightarrow> nat \<Rightarrow> rstr" where
  "cpu_section sys logical = (let topology = detect_topology logical sys; number = (\<lambda>n. opt_text (map_option show_nat n)) in
     put ''CPU'' [] @
     put ''  vendor     : '' (cpu_vendor_label (ct_vendor topology)) @
     put ''  model      : '' (ct_model topology) @
     put ''  logical    : '' (show_nat (ct_logical_cpus topology) @ lit '' CPUs'') @
     put ''  physical   : '' (number (ct_physical_cores topology) @ lit '' cores'') @
     put ''  classes    : P='' (number (ct_performance_cores topology) @ lit '' E='' @ number (ct_efficiency_cores topology) @
       lit '' LP='' @ number (ct_low_power_cores topology)) @
     put ''  hybrid     : '' (if is_hybrid topology then lit ''yes (P/E minibar)'' else lit ''no'') @
     (if ct_core_kinds topology = [] then [] else put ''  core kinds : '' (join (lit '','') (map kind_short (ct_core_kinds topology)))))"

definition vendor_name :: "GpuVendor \<Rightarrow> rstr" where
  "vendor_name v = (case v of Nvidia \<Rightarrow> lit ''nvidia'' | Amd \<Rightarrow> lit ''amd'' | Intel \<Rightarrow> lit ''intel'' | Other \<Rightarrow> lit ''other''
     | UnknownVendor \<Rightarrow> lit ''unknown'')"

definition gpu_lines :: "nat \<times> DiscoveredGpu \<Rightarrow> rstr" where
  "gpu_lines entry = (case entry of (i, gpu) \<Rightarrow> let bdf = DeviceId_key (dg_device_id gpu) in
     put ''  ['' (show_nat i @ lit ''] '' @ dg_card gpu @ lit '' '' @ (if bdf = [] then lit ''<no BDF>'' else bdf) @ lit '' vendor='' @ vendor_name (dg_vendor gpu)) @
     put ''       pci '' (zero_left 4 (show_hex (unat (dg_pci_vendor_id gpu))) @ lit '':'' @ zero_left 4 (show_hex (unat (dg_pci_device_id gpu))) @
       lit '' class='' @ zero_left 8 (show_hex (unat (dg_pci_class_code gpu))) @
       lit '' driver='' @ (if DiscoveredGpu.dg_driver gpu = [] then lit ''<unbound>'' else DiscoveredGpu.dg_driver gpu) @
       lit '' render='' @ opt_text (if dg_render_nodes gpu \<noteq> [] then Some (join (lit '', '') (dg_render_nodes gpu)) else None)) @
     (if dg_outputs gpu = [] then [] else put ''       outputs  : '' (join (lit '', '') (dg_outputs gpu))))"

definition selector_debug :: "(rstr \<Rightarrow> rstr) \<Rightarrow> GpuSelector \<Rightarrow> rstr" where
  "selector_debug dbg s = (case s of Auto \<Rightarrow> lit ''Auto'' | Uuid u \<Rightarrow> lit ''Uuid('' @ dbg u @ lit '')''
     | PciBusId b \<Rightarrow> lit ''PciBusId('' @ dbg b @ lit '')'' | Index i \<Rightarrow> lit ''Index('' @ show_word i @ lit '')'')"

definition capabilities :: "GpuStats \<Rightarrow> (rstr \<times> bool) list" where
  "capabilities stats = [(lit ''utilization'', gs_utilization stats \<noteq> None),
     (lit ''memory'', gs_memory_total_mib stats \<noteq> None \<and> gs_memory_used_mib stats \<noteq> None),
     (lit ''temperature'', gs_temperature_c stats \<noteq> None), (lit ''power'', gs_power_w stats \<noteq> None),
     (lit ''clocks'', gs_graphics_clock_mhz stats \<noteq> None), (lit ''fan'', gs_fan_percent stats \<noteq> None),
     (lit ''pcie'', gs_pcie_link_speed_gts stats \<noteq> None),
     (lit ''enc/dec'', gs_encoder_utilization stats \<noteq> None \<or> gs_decoder_utilization stats \<noteq> None)]"

definition DEGREES :: rstr where
  "DEGREES = [176, 67]"

definition provider_section :: "(rstr \<Rightarrow> rstr) \<Rightarrow> DiscoveredGpu list \<Rightarrow> GpuSelector \<Rightarrow> GpuStats \<Rightarrow> rstr" where
  "provider_section dbg gpus selector stats =
     put ''GPU provider (selector = '' (selector_debug dbg selector @ lit '')'') @
     (if gs_available stats then
        put ''  device     : '' (if gs_name stats = [] then lit ''<unnamed>'' else gs_name stats) @
        put ''  utilization: '' (opt_text (map_option (\<lambda>u. fmt_fixed 0 u @ lit ''%'') (gs_utilization stats)) @
          lit ''  temperature: '' @ opt_text (map_option (\<lambda>t. fmt_fixed 0 t @ DEGREES) (gs_temperature_c stats)) @
          lit ''  power: '' @ opt_text (map_option (\<lambda>p. fmt_fixed 1 p @ lit ''W'') (gs_power_w stats)))
      else if gpus \<noteq> [] then put ''  no sample  : '' (if gs_error stats = [] then lit ''<no error>'' else gs_error stats)
      else put ''  no sample  : no devices to probe'' []) @
     put ''  available  : '' (join_or_none (map fst (filter snd (capabilities stats)))) @
     put ''  unavailable: '' (join_or_none (map fst (filter (\<lambda>c. \<not> snd c) (capabilities stats))))"

text \<open>The host as one report sees it.\<close>

record Host =
  ho_sys :: Sys
  ho_provider_sys :: Sys
  ho_nvml_init :: "rstr + Nvml"
  ho_nvml :: Nvml
  ho_now :: instant
  ho_after :: instant
  ho_power_sys :: Sys
  ho_power_elapsed :: duration
  ho_map_init :: "rstr + Nvml"
  ho_map_compute :: "NvmlDevice option list"
  ho_moments :: "rstr \<Rightarrow> Sys \<times> Sys"

definition gpu_section :: "(rstr \<Rightarrow> rstr) \<Rightarrow> Host \<Rightarrow> GpuSelector \<Rightarrow> rstr" where
  "gpu_section dbg host selector = (let gpus = discover_gpus (ho_sys host);
       provider = new_gpu_provider_with (ho_nvml_init host) selector gpus (ho_provider_sys host);
       stats = fst (provider_sample provider (ho_nvml host) (ho_provider_sys host) (ho_now host) (ho_after host))
     in put ''GPU discovery (DRM sysfs)'' [] @
       (if gpus = [] then put ''  no display-class DRM devices found'' [] else []) @
       concat (map gpu_lines (zip [0..<length gpus] gpus)) @ provider_section dbg gpus selector stats)"

definition cpu_sensors_section :: "Host \<Rightarrow> rstr" where
  "cpu_sensors_section host = (let sys = ho_sys host; layout = discover sys;
       freq = sample_frequency_mhz layout sys; temp = sample_temperature_c layout sys;
       power = sample_power_w layout sys (ho_power_sys host) (ho_power_elapsed host)
     in put ''CPU sensors'' [] @
       put ''  frequency  : '' (opt_text (map_option (fmt_fixed 0) freq) @ lit '' MHz'') @
       put ''  temperature: '' (opt_text (map_option (fmt_fixed 0) temp) @ lit '' '' @ DEGREES) @
       put ''  power      : '' (opt_text (map_option (fmt_fixed 1) power) @ lit '' W'' @ (if power = None then lit '' (unavailable)'' else [])))"

section \<open>The server\<close>

definition evidence_name :: "GpuEvidence \<Rightarrow> rstr" where
  "evidence_name e = (case e of NvmlCompute \<Rightarrow> lit ''NVML compute'' | RenderNodeFd \<Rightarrow> lit ''DRM render-node fd'')"

definition describe_mapping :: "GpuMapping \<Rightarrow> rstr" where
  "describe_mapping m = (case m of MapNone \<Rightarrow> lit ''not computed (no local server process)''
     | Single gpu \<Rightarrow> lit ''single '' @ MappedGpu_key gpu @ lit '' (evidence: '' @ evidence_name (mg_evidence gpu) @ lit '')''
     | Multi gpus \<Rightarrow> lit ''multi ('' @ show_nat (length gpus) @ lit '' devices)''
     | MapUnknown \<Rightarrow> lit ''unknown (insufficient evidence)'')"

text \<open>
  What the attribution of a process reads: the GPUs and NVML once for all servers, then for each process its start time and
  its open files.
\<close>

record HostGpus =
  hg_gpus :: "DiscoveredGpu list"
  hg_nvml :: "NvmlDevice option list option"
  hg_mig :: "MigChild list"

definition host_gpus :: "Sys \<Rightarrow> rstr + Nvml \<Rightarrow> NvmlDevice option list \<Rightarrow> HostGpus" where
  "host_gpus sys init compute = \<lparr>hg_gpus = discover_gpus sys, hg_nvml = (case init of Inr _ \<Rightarrow> Some compute | Inl _ \<Rightarrow> None),
     hg_mig = (case init of Inr nvml \<Rightarrow> discover_mig_children nvml | Inl _ \<Rightarrow> [])\<rparr>"

definition server_gpu_mapping :: "HostGpus \<Rightarrow> Sys \<times> Sys \<Rightarrow> LocalServerIdentity option \<Rightarrow> GpuMapping" where
  "server_gpu_mapping hg moments identity = (case identity of None \<Rightarrow> MapNone | Some i \<Rightarrow>
     if read_process_start_time (fst moments) (ls_pid i) \<noteq> Some (ls_start_time i) then MapUnknown
     else map_server_gpus True (process_render_gpus (snd moments) (ls_pid i) (hg_gpus hg))
       (nvml_compute_gpus (hg_nvml hg) (ls_pid i) (hg_mig hg)) (hg_gpus hg))"

definition source_label :: "bool \<Rightarrow> rstr option \<Rightarrow> LlamaServerCandidate list \<Rightarrow> rstr" where
  "source_label auto_discovery server candidates =
     (if auto_discovery \<and> candidates \<noteq> [] \<and> is_process (lc_source (hd candidates)) then lit ''auto-discovered''
      else if server \<noteq> None then lit ''configured'' else lit ''default'')"

definition candidate_line :: "('u, 'z) url_api_scheme \<Rightarrow> nat \<times> LlamaServerCandidate \<Rightarrow> rstr" where
  "candidate_line api entry = (case entry of (i, c) \<Rightarrow> put ''  candidate['' (show_nat i @ lit '']: '' @
     (case lc_source c of Process pid \<Rightarrow> lit ''process (pid '' @ show_word pid @ lit '')'' | Configured \<Rightarrow> lit ''configured'') @
     lit '' '' @ safe_endpoint api (lc_endpoint c)))"

definition llama_section :: "('u, 'z) url_api_scheme \<Rightarrow> (nat \<Rightarrow> Sys) \<Rightarrow> Host \<Rightarrow> bool \<Rightarrow> rstr option \<Rightarrow> rstr" where
  "llama_section api scan host auto_discovery server = (let
       candidates = collect_candidates scan auto_discovery server;
       endpoint = select_endpoint candidates DEFAULT_SERVER;
       gpus = host_gpus (ho_sys host) (ho_map_init host) (ho_map_compute host);
       mapping = server_gpu_mapping gpus (ho_moments host []) (selected_endpoint_server candidates endpoint)
     in put ''llama.cpp'' [] @
       (if candidates = [] then put ''  no local server processes found'' [] else []) @
       concat (map (candidate_line api) (zip [0..<length candidates] candidates)) @
       put ''  endpoint   : '' (safe_endpoint api endpoint @ lit '' ('' @ source_label auto_discovery server candidates @ lit '')'') @
       put ''  gpu map    : '' (describe_mapping mapping))"

definition VERSION_LINE :: "rstr \<Rightarrow> rstr" where
  "VERSION_LINE version = put ''  version    : '' version"

definition render :: "('u, 'z) url_api_scheme \<Rightarrow> (rstr \<Rightarrow> rstr) \<Rightarrow> rstr \<Rightarrow> Host \<Rightarrow> (nat \<Rightarrow> Sys) \<Rightarrow> nat \<Rightarrow> bool \<Rightarrow> rstr option \<Rightarrow> GpuSelector \<Rightarrow> rstr" where
  "render api dbg version host scan logical auto_discovery server gpu_selector =
     put ''OrsikTop diagnostics'' [] @ VERSION_LINE version @ cpu_section (ho_sys host) logical @
     gpu_section dbg host gpu_selector @ cpu_sensors_section host @ llama_section api scan host auto_discovery server"

section \<open>The probe\<close>

definition slots_line :: "LlmStats \<Rightarrow> rstr" where
  "slots_line s = (if slots_available s then show_word (busy_slots s) @ lit '' busy / '' @ show_word (slot_count s) @ lit '' total''
     else if 0 < props_slot_count s then EM_DASH @ lit ''/'' @ show_word (props_slot_count s) @ lit '' total'' else EM_DASH)"

definition tps_text :: "f64 option \<Rightarrow> rstr" where
  "tps_text v = (case v of None \<Rightarrow> EM_DASH | Some x \<Rightarrow> fmt_fixed 1 x)"

definition availability :: "bool \<Rightarrow> rstr" where
  "availability b = (if b then lit ''available'' else lit ''unavailable'')"

definition connected_probe_report :: "LlmStats \<Rightarrow> rstr" where
  "connected_probe_report s = (let
       name = (if model s = [] then lit ''<unnamed>'' else model s);
       watermark = (if metrics_available s then opt_text (map_option show_word (context_high_watermark s)) else EM_DASH);
       used = opt_text (map_option show_word (context_used s));
       context = (if 0 < context_size s then used @ lit ''/'' @ show_word (context_size s) else EM_DASH)
     in join [10] ([lit ''  status     : connected'', lit ''  model      : '' @ name,
         lit ''  metrics    : '' @ availability (metrics_available s),
         lit ''  context    : '' @ context @ lit '' (watermark '' @ watermark @ lit '')'', lit ''  slots      : '' @ slots_line s] @
       (if metrics_available s \<and> (prompt_tps s \<noteq> None \<or> generation_tps s \<noteq> None)
        then [lit ''  rate       : prompt '' @ tps_text (prompt_tps s) @ lit '' tps, generation '' @ tps_text (generation_tps s) @ lit '' tps''] else [])))"

text \<open>
  The servers as a probe finds them: the error of building a client for an address, what its endpoints answer, and
  whether the probing thread panics.
\<close>

record Network =
  nw_client_error :: "rstr \<Rightarrow> rstr option"
  nw_poll :: "rstr \<Rightarrow> Poll"
  nw_panics :: "rstr \<Rightarrow> bool"
  nw_json :: "rstr \<Rightarrow> json option"

definition client_error_text :: "('u, 'z) url_api_scheme \<Rightarrow> rstr \<Rightarrow> rstr" where
  "client_error_text api err = sanitize_display_text (redact_urls api err) MAX_UNTRUSTED_DISPLAY_CHARS"

definition error_detail :: "('u, 'z) url_api_scheme \<Rightarrow> LlmStats \<Rightarrow> rstr" where
  "error_detail api s = (if error_text s = [] then lit ''no error detail'' else redact_urls api (error_text s))"

definition fresh_sample :: "('u, 'z) url_api_scheme \<Rightarrow> Network \<Rightarrow> rstr \<Rightarrow> LlmStats" where
  "fresh_sample api net endpoint = snd (sample (nw_json net) api (LlamaMonitor_new endpoint) (nw_poll net endpoint))"

definition probe_llama :: "('u, 'z) url_api_scheme \<Rightarrow> Network \<Rightarrow> (nat \<Rightarrow> Sys) \<Rightarrow> bool \<Rightarrow> rstr option \<Rightarrow> rstr" where
  "probe_llama api net scan auto_discovery server = (let
       endpoint = select_endpoint (collect_candidates scan auto_discovery server) DEFAULT_SERVER
     in case nw_client_error net endpoint of
         Some err \<Rightarrow> put ''  status     : client init failed ('' (client_error_text api err @ lit '')'')
       | None \<Rightarrow> (let stats = fresh_sample api net endpoint in
           if connected stats then connected_probe_report stats @ [10]
           else put ''  status     : unreachable ('' (error_detail api stats @ lit '')'')))"

section \<open>All servers\<close>

record MultiServerEntry =
  me_label :: rstr
  me_endpoint :: rstr
  me_stats :: LlmStats
  me_mapping :: GpuMapping

definition probe_server :: "('u, 'z) url_api_scheme \<Rightarrow> Network \<Rightarrow> ServerSpec \<Rightarrow> LlmStats" where
  "probe_server api net spec = (let endpoint = sv_endpoint spec in
     if nw_panics net endpoint then LlmStats_default
     else case nw_client_error net endpoint of
         Some err \<Rightarrow> LlmStats_default\<lparr>error_text := client_error_text api err\<rparr>
       | None \<Rightarrow> fresh_sample api net endpoint)"

definition probe_servers :: "('u, 'z) url_api_scheme \<Rightarrow> Network \<Rightarrow> ServerSpec list \<Rightarrow> LlmStats list" where
  "probe_servers api net servers = map (probe_server api net) (take MAX_MONITORED_SERVERS servers)"

definition entry_label :: "('u, 'z) url_api_scheme \<Rightarrow> LlmStats \<Rightarrow> rstr \<Rightarrow> rstr" where
  "entry_label api stats endpoint = (if connected stats \<and> model stats \<noteq> [] \<and> model stats \<noteq> UNKNOWN_MODEL_LABEL then model stats
     else safe_endpoint api endpoint)"

definition status_line :: "('u, 'z) url_api_scheme \<Rightarrow> LlmStats \<Rightarrow> rstr" where
  "status_line api s = (if connected s then (if metrics_available s then lit ''connected'' else lit ''connected (metrics unavailable)'')
     else lit ''unreachable ('' @ error_detail api s @ lit '')'')"

definition context_line :: "LlmStats \<Rightarrow> rstr" where
  "context_line s = (if 0 < context_size s then opt_text (map_option show_word (context_used s)) @ lit ''/'' @ show_word (context_size s)
     else EM_DASH)"

definition entry_lines :: "('u, 'z) url_api_scheme \<Rightarrow> nat \<times> MultiServerEntry \<Rightarrow> rstr" where
  "entry_lines api ie = (case ie of (index, e) \<Rightarrow>
     [10] @ put ''['' (show_nat (index + 1) @ lit ''] '' @ me_label e) @
     put ''  endpoint   : '' (safe_endpoint api (me_endpoint e)) @
     put ''  status     : '' (status_line api (me_stats e)) @
     put ''  metrics    : '' (availability (metrics_available (me_stats e))) @
     put ''  slots      : '' (slots_line (me_stats e)) @
     put ''  context    : '' (context_line (me_stats e)) @
     put ''  gpu        : '' (describe_mapping (me_mapping e)))"

definition overflow_line :: "('u, 'z) url_api_scheme \<Rightarrow> nat \<times> rstr \<Rightarrow> rstr" where
  "overflow_line api ie = (case ie of (index, endpoint) \<Rightarrow> put ''  ['' (show_nat (index + 1) @ lit ''] '' @ safe_endpoint api endpoint))"

definition render_multi_report :: "('u, 'z) url_api_scheme \<Rightarrow> rstr \<Rightarrow> MultiServerEntry list \<Rightarrow> rstr list \<Rightarrow> rstr" where
  "render_multi_report api version entries overflow =
     put ''OrsikTop multi-server diagnostics'' [] @ VERSION_LINE version @
     put ''  monitored  : '' (show_nat (length entries) @ lit '' / '' @ show_nat MAX_MONITORED_SERVERS) @
     put ''  over limit : '' (show_nat (length overflow)) @
     concat (map (entry_lines api) (zip [0..<length entries] entries)) @
     (if overflow = [] then [] else
        [10] @ put ''Not monitored (server cap of '' (show_nat MAX_MONITORED_SERVERS @ lit '' reached; not polled '' @ EM_DASH @ lit '' availability not checked):'') @
        concat (map (overflow_line api) (zip [0..<length overflow] overflow)))"

definition multi_entry :: "('u, 'z) url_api_scheme \<Rightarrow> Host \<Rightarrow> HostGpus \<Rightarrow> ServerSpec \<times> LlmStats \<Rightarrow> MultiServerEntry" where
  "multi_entry api host gpus pair = (case pair of (spec, stats) \<Rightarrow>
     \<lparr>me_label = entry_label api stats (sv_endpoint spec), me_endpoint = sv_endpoint spec, me_stats = stats,
      me_mapping = server_gpu_mapping gpus (ho_moments host (sv_key spec)) (sv_identity spec)\<rparr>)"

definition run_multi :: "('u, 'z) url_api_scheme \<Rightarrow> rstr \<Rightarrow> Host \<Rightarrow> Network \<Rightarrow> ServerList \<Rightarrow> rstr" where
  "run_multi api version host net servers = (let
       stats = probe_servers api net (sl_monitored servers);
       gpus = host_gpus (ho_sys host) (ho_map_init host) (ho_map_compute host)
     in render_multi_report api version (map (multi_entry api host gpus) (zip (sl_monitored servers) stats)) (map sv_endpoint (sl_overflow servers)))"

text \<open>\<^verbatim>\<open>run\<close>: the default report scans /proc once for its text and once more for the probe.\<close>

definition run_diag ::
  "('u, 'z) url_api_scheme \<Rightarrow> (rstr \<Rightarrow> rstr) \<Rightarrow> rstr \<Rightarrow> Host \<Rightarrow> Network \<Rightarrow> (nat \<Rightarrow> Sys) \<Rightarrow> (nat \<Rightarrow> Sys) \<Rightarrow> nat option \<Rightarrow> AppConfig \<Rightarrow> bool \<Rightarrow> rstr" where
  "run_diag api dbg version host net scan1 scan2 logical settings multi =
     (if multi then run_multi api version host net (collect_server_list_with api scan1 settings)
      else render api dbg version host scan1 (unwrap_or 0 logical) (cf_auto_discovery settings) (cf_server settings) (cf_gpu_selector settings) @
        probe_llama api net scan2 (cf_auto_discovery settings) (cf_server settings))"

section \<open>The report keeps the secrets of an address\<close>

text \<open>Two addresses with the same public parts, or both no URL.\<close>

definition same_public :: "('u, 'z) url_api_scheme \<Rightarrow> rstr \<Rightarrow> rstr \<Rightarrow> bool" where
  "same_public api e1 e2 \<longleftrightarrow> map_option (public_view api) (url_parse api (trim e1)) = map_option (public_view api) (url_parse api (trim e2))"

lemma safe_endpoint_public: "same_public api e1 e2 \<Longrightarrow> safe_endpoint api e1 = safe_endpoint api e2"
  unfolding same_public_def safe_endpoint_def
  by (cases "url_parse api (trim e1)"; cases "url_parse api (trim e2)") (auto intro: safe_endpoint_of_public)

text \<open>Two results of a probe that differ at most in what redaction removes from the error.\<close>

definition same_shown :: "('u, 'z) url_api_scheme \<Rightarrow> LlmStats \<Rightarrow> LlmStats \<Rightarrow> bool" where
  "same_shown api s1 s2 \<longleftrightarrow> s1\<lparr>error_text := redact_urls api (error_text s1)\<rparr> = s2\<lparr>error_text := redact_urls api (error_text s2)\<rparr> \<and>
     (error_text s1 = [] \<longleftrightarrow> error_text s2 = [])"

lemma same_shown_refl [simp]: "same_shown api s s"
  by (simp add: same_shown_def)

lemma same_shown_lines:
  assumes "same_shown api s1 s2"
  shows "connected s1 = connected s2" "metrics_available s1 = metrics_available s2" "model s1 = model s2"
    "error_detail api s1 = error_detail api s2" "slots_line s1 = slots_line s2" "context_line s1 = context_line s2"
    "connected_probe_report s1 = connected_probe_report s2"
  using assms by (cases s1; cases s2; simp add: same_shown_def error_detail_def slots_line_def context_line_def connected_probe_report_def)+

lemma discovered_process: "c \<in> set (discover_processes scan) \<Longrightarrow> is_process (lc_source c)"
proof -
  have "is_process (lc_source c)" if "probe_entry s1 s2 s3 entry = Some c" for s1 s2 s3 entry
    using that by (auto simp: probe_entry_def is_process_def Let_def split: option.splits if_splits)
  then show "c \<in> set (discover_processes scan) \<Longrightarrow> is_process (lc_source c)"
    by (auto simp: discover_processes_def map_filter_def dest!: subsetD [OF set_dedup_endpoints] split: option.splits)
qed

text \<open>A configured address that no process of the scan serves.\<close>

definition not_local :: "(nat \<Rightarrow> Sys) \<Rightarrow> bool \<Rightarrow> rstr \<Rightarrow> bool" where
  "not_local scan auto_discovery e \<longleftrightarrow> trim e \<noteq> [] \<and>
     (auto_discovery \<longrightarrow> list_all (\<lambda>c. lc_endpoint c \<noteq> trim e) (discover_processes scan))"

definition configured_candidate :: "rstr \<Rightarrow> LlamaServerCandidate" where
  "configured_candidate e = \<lparr>lc_endpoint = trim e, lc_source = Configured, lc_command = None, lc_start_time = None\<rparr>"

lemma candidates_not_local:
  assumes "not_local scan auto e" "procs = (if auto then discover_processes scan else [])"
  shows "collect_candidates scan auto (Some e) = procs @ [configured_candidate e]"
    and "select_endpoint (procs @ [configured_candidate e]) DEFAULT_SERVER = (if procs = [] then trim e else lc_endpoint (hd procs))"
    and "selected_endpoint_server (procs @ [configured_candidate e]) (if procs = [] then trim e else lc_endpoint (hd procs))
       = (if procs = [] then None else candidate_identity (hd procs))"
proof -
  have p: "is_process (lc_source c)" if "c \<in> set procs" for c
    using that assms(2) discovered_process by (auto split: if_splits)
  show "collect_candidates scan auto (Some e) = procs @ [configured_candidate e]"
    using assms by (auto simp: collect_candidates_def not_local_def configured_candidate_def list_all_iff list_ex_iff Let_def)
  show "select_endpoint (procs @ [configured_candidate e]) DEFAULT_SERVER = (if procs = [] then trim e else lc_endpoint (hd procs))"
    using p by (cases procs) (auto simp: select_endpoint_def configured_candidate_def is_process_def)
  show "selected_endpoint_server (procs @ [configured_candidate e]) (if procs = [] then trim e else lc_endpoint (hd procs))
       = (if procs = [] then None else candidate_identity (hd procs))"
    by (cases procs) (simp_all add: selected_endpoint_server_def configured_candidate_def candidate_identity_def)
qed

lemma candidate_lines_public:
  "same_public api (trim e1) (trim e2) \<Longrightarrow> map (candidate_line api) (zip [0..<length (procs @ [configured_candidate e1])] (procs @ [configured_candidate e1]))
    = map (candidate_line api) (zip [0..<length (procs @ [configured_candidate e2])] (procs @ [configured_candidate e2]))"
  by (simp add: candidate_line_def configured_candidate_def safe_endpoint_public)

lemma llama_section_public:
  assumes "not_local scan auto e1" "not_local scan auto e2" "same_public api (trim e1) (trim e2)"
  shows "llama_section api scan host auto (Some e1) = llama_section api scan host auto (Some e2)"
proof -
  define procs where "procs = (if auto then discover_processes scan else [])"
  note c1 = candidates_not_local [OF assms(1) procs_def] and c2 = candidates_not_local [OF assms(2) procs_def]
  have l: "source_label auto (Some e1) (procs @ [configured_candidate e1]) = source_label auto (Some e2) (procs @ [configured_candidate e2])"
    by (cases procs) (simp_all add: source_label_def configured_candidate_def is_process_def)
  have s: "safe_endpoint api (trim e1) = safe_endpoint api (trim e2)" using assms(3) by (rule safe_endpoint_public)
  show ?thesis unfolding llama_section_def Let_def c1 c2 candidate_lines_public [OF assms(3), of procs] l
    by (simp add: s)
qed

text \<open>Two addresses whose probes end alike: with client errors redacted to the same text, or with the same shown statistics.\<close>

definition same_probe :: "('u, 'z) url_api_scheme \<Rightarrow> Network \<Rightarrow> rstr \<Rightarrow> rstr \<Rightarrow> bool" where
  "same_probe api net e1 e2 \<longleftrightarrow>
     map_option (client_error_text api) (nw_client_error net e1) = map_option (client_error_text api) (nw_client_error net e2) \<and>
     (nw_client_error net e1 = None \<longrightarrow> same_shown api (fresh_sample api net e1) (fresh_sample api net e2))"

lemma probe_public:
  assumes "not_local scan auto e1" "not_local scan auto e2" "same_probe api net (trim e1) (trim e2)"
  shows "probe_llama api net scan auto (Some e1) = probe_llama api net scan auto (Some e2)"
proof -
  define procs where "procs = (if auto then discover_processes scan else [])"
  note c1 = candidates_not_local [OF assms(1) procs_def] and c2 = candidates_not_local [OF assms(2) procs_def]
  show ?thesis unfolding probe_llama_def Let_def c1 c2
    using assms(3) by (auto simp: same_probe_def same_shown_lines split: option.splits)
qed


text \<open>The same of the overview: each server is shown by its public parts only, as are the servers over the limit.\<close>

definition same_server :: "('u, 'z) url_api_scheme \<Rightarrow> Host \<Rightarrow> Network \<Rightarrow> ServerSpec \<Rightarrow> ServerSpec \<Rightarrow> bool" where
  "same_server api host net a b \<longleftrightarrow> same_public api (sv_endpoint a) (sv_endpoint b) \<and> sv_identity a = sv_identity b \<and>
     ho_moments host (sv_key a) = ho_moments host (sv_key b) \<and> same_shown api (probe_server api net a) (probe_server api net b)"

lemma entry_lines_same:
  assumes "same_server api host net a b"
  shows "entry_lines api (i, multi_entry api host gpus (a, probe_server api net a)) = entry_lines api (i, multi_entry api host gpus (b, probe_server api net b))"
proof -
  note s = assms [unfolded same_server_def]
  have e: "safe_endpoint api (sv_endpoint a) = safe_endpoint api (sv_endpoint b)" using s by (intro safe_endpoint_public) simp
  have l: "same_shown api (probe_server api net a) (probe_server api net b)" using s by simp
  show ?thesis using s e same_shown_lines [OF l]
    by (simp add: entry_lines_def multi_entry_def entry_label_def status_line_def)
qed

lemma map_zip_self: "map h (zip xs (map g xs)) = map (\<lambda>x. h (x, g x)) xs"
  by (induction xs) auto

lemma run_multi_eq:
  assumes "length (sl_monitored l) \<le> MAX_MONITORED_SERVERS"
  shows "run_multi api version host net l = (let gpus = host_gpus (ho_sys host) (ho_map_init host) (ho_map_compute host) in
    render_multi_report api version (map (\<lambda>a. multi_entry api host gpus (a, probe_server api net a)) (sl_monitored l)) (map sv_endpoint (sl_overflow l)))"
  using assms by (simp add: run_multi_def probe_servers_def Let_def map_zip_self)

lemma map_enumerated_cong:
  assumes "list_all2 (\<lambda>x y. \<forall>i. h (i, x) = h (i, y)) xs ys"
  shows "map h (zip [0..<length xs] xs) = map h (zip [0..<length ys] ys)"
  using assms by (intro nth_equalityI) (auto simp: list_all2_conv_all_nth)

theorem multi_report_hides_endpoints:
  assumes "list_all2 (same_server api host net) (sl_monitored l1) (sl_monitored l2)" "length (sl_monitored l1) \<le> MAX_MONITORED_SERVERS"
    and "list_all2 (\<lambda>a b. same_public api (sv_endpoint a) (sv_endpoint b)) (sl_overflow l1) (sl_overflow l2)"
  shows "run_multi api version host net l1 = run_multi api version host net l2"
proof -
  let ?g = "host_gpus (ho_sys host) (ho_map_init host) (ho_map_compute host)"
  let ?e = "\<lambda>a. multi_entry api host ?g (a, probe_server api net a)"
  have n: "length (sl_monitored l1) = length (sl_monitored l2)" "length (sl_overflow l1) = length (sl_overflow l2)"
    using assms(1,3) by (auto dest: list_all2_lengthD)
  have m: "map (entry_lines api) (zip [0..<length (map ?e (sl_monitored l1))] (map ?e (sl_monitored l1)))
      = map (entry_lines api) (zip [0..<length (map ?e (sl_monitored l2))] (map ?e (sl_monitored l2)))"
    using assms(1) by (intro map_enumerated_cong) (auto simp: list.rel_map elim!: list_all2_mono intro: entry_lines_same)
  have o: "map (overflow_line api) (zip [0..<length (map sv_endpoint (sl_overflow l1))] (map sv_endpoint (sl_overflow l1)))
      = map (overflow_line api) (zip [0..<length (map sv_endpoint (sl_overflow l2))] (map sv_endpoint (sl_overflow l2)))"
    using assms(3) by (intro map_enumerated_cong) (auto simp: list.rel_map overflow_line_def elim!: list_all2_mono dest!: safe_endpoint_public)
  have z: "(sl_overflow l1 = []) = (sl_overflow l2 = [])" using n by auto
  have "length (sl_monitored l2) \<le> MAX_MONITORED_SERVERS" using n assms(2) by simp
  then show ?thesis
    unfolding run_multi_eq [OF assms(2)] run_multi_eq [of l2] Let_def render_multi_report_def m o by (simp add: n z run_multi_eq render_multi_report_def Let_def)
qed

section \<open>No server can forge a line\<close>

definition one_line :: "rstr \<Rightarrow> bool" where
  "one_line s \<longleftrightarrow> 10 \<notin> set s"

lemma one_line_simps [simp]: "one_line []" "one_line (a @ b) \<longleftrightarrow> one_line a \<and> one_line b" "one_line (c # s) \<longleftrightarrow> c \<noteq> 10 \<and> one_line s"
  by (auto simp: one_line_def)

text \<open>What the URL library documents of the scheme and the host of a URL it has parsed: they hold no line break.\<close>

definition url_one_line :: "('u, 'z) url_api_scheme \<Rightarrow> bool" where
  "url_one_line api \<longleftrightarrow> (\<forall>u. one_line (url_scheme api u) \<and> (\<forall>h. url_host_str api u = Some h \<longrightarrow> one_line h))"

lemma one_line_numbers [simp]: "one_line (show_nat n)" "one_line (show_word w)"
proof -
  show "one_line (show_nat n)" for n using show_nat_digits [of 10 n] by (auto simp: one_line_def is_digit_def)
  then show "one_line (show_word w)" by (simp add: show_word_def)
qed

lemma one_line_safe_endpoint_of: "url_one_line api \<Longrightarrow> one_line (safe_endpoint_of api u)"
  by (auto simp: safe_endpoint_of_def url_one_line_def UNPARSEABLE_ENDPOINT_def lit_def Let_def split: option.split)

lemma one_line_safe_endpoint: "url_one_line api \<Longrightarrow> one_line (safe_endpoint api e)"
  by (auto simp: safe_endpoint_def one_line_safe_endpoint_of UNPARSEABLE_ENDPOINT_def lit_def split: option.split)

lemma one_line_sub: "one_line s \<Longrightarrow> set t \<subseteq> set s \<Longrightarrow> one_line t"
  by (auto simp: one_line_def)

lemma one_line_token: "url_one_line api \<Longrightarrow> one_line t \<Longrightarrow> one_line (redact_url_token api t)"
  by (auto simp: redact_url_token_def parse_safe_def one_line_safe_endpoint_of UNPARSEABLE_ENDPOINT_def lit_def Let_def
      elim: one_line_sub dest: in_set_dropD split: option.split)

lemma one_line_redact: "url_one_line api \<Longrightarrow> one_line t \<Longrightarrow> one_line (redact_urls api t)"
proof (induction api t rule: redact_urls.induct)
  case (1 api t)
  show ?case
  proof (cases "find_url_start t")
    case None
    then show ?thesis using 1 by (simp add: redact_urls.simps [of api t])
  next
    case (Some i)
    let ?c = "drop i t" let ?k = "takeWhile (\<lambda>c. \<not> is_ws c) ?c"
    have sub: "one_line (take i t)" "one_line ?k" "one_line (drop (length ?k) ?c)"
      using 1(3) by (auto elim!: one_line_sub dest: in_set_takeD in_set_dropD set_takeWhileD)
    then show ?thesis using 1(1) [OF Some refl refl 1(2)] 1(2) Some
      by (simp add: redact_urls.simps [of api t] one_line_token Let_def)
  qed
qed

lemma one_line_safe_text: "safe_text n s \<Longrightarrow> one_line s"
  by (auto simp: safe_text_def list_all_iff one_line_def is_ctl_def)

lemma one_line_sanitized: "one_line (sanitize_display_text s n)"
  using safe_text_sanitize by (rule one_line_safe_text)

lemma fresh_sample_one_line: "one_line (model (fresh_sample api net e)) \<and> one_line (error_text (fresh_sample api net e))"
proof -
  have "model_safe (LlamaMonitor_new e)"
    by (simp add: model_safe_def LlamaMonitor_new_def CachedProps_default_def safe_text_def)
  then have "list_all texts_safe (monitor_run (nw_json net) api (LlamaMonitor_new e) [nw_poll net e])" by (rule monitor_run_safe)
  then show ?thesis
    by (auto simp: fresh_sample_def Let_def case_prod_unfold texts_safe_def dest: one_line_safe_text)
qed

lemma probe_server_one_line: "one_line (model (probe_server api net spec)) \<and> one_line (error_text (probe_server api net spec))"
  using fresh_sample_one_line
  by (auto simp: probe_server_def LlmStats_default_def client_error_text_def one_line_sanitized Let_def split: option.split)

text \<open>The text of a list of lines.\<close>

definition text_of :: "rstr list \<Rightarrow> rstr" where
  "text_of ls = concat (map (\<lambda>l. l @ [10]) ls)"

lemma text_of_simps: "text_of [] = []" "text_of (l # ls) = l @ [10] @ text_of ls" "text_of (as @ bs) = text_of as @ text_of bs"
  by (simp_all add: text_of_def)

lemma split_text_of: "list_all one_line ls \<Longrightarrow> split_on 10 (text_of ls) = ls @ [[]]"
  by (induction ls) (auto simp: text_of_simps one_line_def split_on_append)

lemma text_of_concat: "text_of (concat (map f xs)) = concat (map (\<lambda>x. text_of (f x)) xs)"
  by (induction xs) (simp_all add: text_of_simps)

text \<open>The lines of a server, and what they start with.\<close>

definition server_labels :: "nat \<Rightarrow> rstr list" where
  "server_labels i = [[], lit ''['' @ show_nat (i + 1) @ lit ''] '', lit ''  endpoint   : '', lit ''  status     : '', lit ''  metrics    : '',
     lit ''  slots      : '', lit ''  context    : '', lit ''  gpu        : '']"

definition server_values :: "('u, 'z) url_api_scheme \<Rightarrow> MultiServerEntry \<Rightarrow> rstr list" where
  "server_values api e = [[], me_label e, safe_endpoint api (me_endpoint e), status_line api (me_stats e),
     availability (metrics_available (me_stats e)), slots_line (me_stats e), context_line (me_stats e), describe_mapping (me_mapping e)]"

definition server_block :: "('u, 'z) url_api_scheme \<Rightarrow> nat \<times> MultiServerEntry \<Rightarrow> rstr list" where
  "server_block api ie = map2 (@) (server_labels (fst ie)) (server_values api (snd ie))"

lemma entry_lines_block: "entry_lines api ie = text_of (server_block api ie)"
  by (cases ie) (simp add: entry_lines_def server_block_def server_labels_def server_values_def text_of_simps put_def)

lemma length_server_block [simp]: "length (server_block api ie) = 8"
  by (simp add: server_block_def server_labels_def server_values_def)

definition entry_one_line :: "MultiServerEntry \<Rightarrow> bool" where
  "entry_one_line e \<longleftrightarrow> one_line (me_label e) \<and> one_line (model (me_stats e)) \<and> one_line (error_text (me_stats e)) \<and> one_line (describe_mapping (me_mapping e))"

lemma one_line_lits: "list_all one_line (map lit [''  endpoint   : '', ''  status     : '', ''  metrics    : '', ''  slots      : '', ''  context    : '',
   ''  gpu        : '', ''connected'', ''connected (metrics unavailable)'', ''unreachable ('', '')'', ''no error detail'', ''available'', ''unavailable'',
   '' busy / '', '' total'', ''/'', ''['', ''] ''])"
  by (simp add: lit_def)

lemma server_block_one_line:
  assumes "url_one_line api" "entry_one_line e"
  shows "list_all one_line (server_block api (i, e))"
  using assms one_line_lits
  by (auto simp: server_block_def server_labels_def server_values_def entry_one_line_def one_line_safe_endpoint status_line_def error_detail_def
      one_line_redact availability_def slots_line_def context_line_def opt_text_def EM_DASH_def unwrap_or_def split: option.split)

definition report_head :: "rstr \<Rightarrow> nat \<Rightarrow> nat \<Rightarrow> rstr list" where
  "report_head version n m = [lit ''OrsikTop multi-server diagnostics'', lit ''  version    : '' @ version,
     lit ''  monitored  : '' @ show_nat n @ lit '' / '' @ show_nat MAX_MONITORED_SERVERS, lit ''  over limit : '' @ show_nat m]"

definition overflow_block :: "('u, 'z) url_api_scheme \<Rightarrow> rstr list \<Rightarrow> rstr list" where
  "overflow_block api overflow = (if overflow = [] then [] else
     [[], lit ''Not monitored (server cap of '' @ show_nat MAX_MONITORED_SERVERS @ lit '' reached; not polled '' @ EM_DASH @ lit '' availability not checked):''] @
     map (\<lambda>(i, e). lit ''  ['' @ show_nat (i + 1) @ lit ''] '' @ safe_endpoint api e) (zip [0..<length overflow] overflow))"

lemma render_multi_text:
  "render_multi_report api version entries overflow = text_of (report_head version (length entries) (length overflow) @
     concat (map (server_block api) (zip [0..<length entries] entries)) @ overflow_block api overflow)"
proof -
  have o: "concat (map (overflow_line api) xs) = text_of (map (\<lambda>(i, e). lit ''  ['' @ show_nat (i + 1) @ lit ''] '' @ safe_endpoint api e) xs)" for xs
    by (induction xs) (auto simp: overflow_line_def put_def text_of_simps)
  show ?thesis
    unfolding render_multi_report_def o
    by (simp add: text_of_simps report_head_def put_def VERSION_LINE_def overflow_block_def text_of_concat entry_lines_block [abs_def])
qed

lemma block_at:
  assumes "\<And>x. length (f x) = k" "i < length xs"
  shows "take k (drop (k * i) (concat (map f xs) @ r)) = f (xs ! i)"
  using assms(2)
proof (induction xs arbitrary: i)
  case (Cons x xs)
  then show ?case using assms(1) by (cases i) simp_all
qed simp

lemma length_blocks: "(\<And>x. length (f x) = k) \<Longrightarrow> length (concat (map f xs)) = k * length xs"
  by (induction xs) simp_all

lemma list_all_concat: "list_all P (concat xss) \<longleftrightarrow> (\<forall>xs \<in> set xss. list_all P xs)"
  by (auto simp: list_all_iff)

lemma overflow_one_line: "url_one_line api \<Longrightarrow> list_all one_line (overflow_block api overflow)"
  by (auto simp: overflow_block_def list_all_iff one_line_safe_endpoint EM_DASH_def lit_def)

lemma head_one_line: "one_line version \<Longrightarrow> list_all one_line (report_head version n m)"
  by (simp add: report_head_def) (simp add: lit_def)


lemma length_report_head [simp]: "length (report_head version n m) = 4"
  by (simp add: report_head_def)

lemma server_block_shape:
  "list_all2 starts_with (server_labels i) (server_block api (i, e)) \<and> server_block api (i, e) ! 0 = [] \<and>
   server_block api (i, e) ! 2 = lit ''  endpoint   : '' @ safe_endpoint api (me_endpoint e)"
  by (simp add: server_block_def server_labels_def server_values_def) (simp add: starts_with_iff)

definition shown_entries :: "('u, 'z) url_api_scheme \<Rightarrow> Host \<Rightarrow> Network \<Rightarrow> ServerSpec list \<Rightarrow> MultiServerEntry list" where
  "shown_entries api host net servers = map (\<lambda>a. multi_entry api host (host_gpus (ho_sys host) (ho_map_init host) (ho_map_compute host))
     (a, probe_server api net a)) servers"

definition mapping_one_line :: "Host \<Rightarrow> ServerSpec \<Rightarrow> bool" where
  "mapping_one_line host spec \<longleftrightarrow> one_line (describe_mapping (server_gpu_mapping (host_gpus (ho_sys host) (ho_map_init host)
     (ho_map_compute host)) (ho_moments host (sv_key spec)) (sv_identity spec)))"

lemma run_multi_lines:
  assumes "url_one_line api" "one_line version" "length (sl_monitored l) \<le> MAX_MONITORED_SERVERS" "list_all (mapping_one_line host) (sl_monitored l)"
    and "es = shown_entries api host net (sl_monitored l)"
  shows "split_on 10 (run_multi api version host net l) = report_head version (length es) (length (sl_overflow l)) @
    concat (map (server_block api) (zip [0..<length es] es)) @ overflow_block api (map sv_endpoint (sl_overflow l)) @ [[]]"
proof -
  have e: "entry_one_line x" if "x \<in> set es" for x
    using that assms(1,4) probe_server_one_line [of api net]
    by (auto simp: assms(5) shown_entries_def entry_one_line_def multi_entry_def entry_label_def one_line_safe_endpoint mapping_one_line_def list_all_iff)
  have "list_all one_line (concat (map (server_block api) (zip [0..<length es] es)))"
    using server_block_one_line [OF assms(1) e] by (auto simp: list_all_concat dest: set_zip_rightD)
  then show ?thesis
    using assms(1,2) unfolding run_multi_eq [OF assms(3)] Let_def shown_entries_def [symmetric] assms(5) [symmetric] render_multi_text
    by (subst split_text_of) (simp_all add: overflow_one_line head_one_line)
qed

text \<open>
  C32: No server can forge the overview: whatever the servers answer, the report has four lines of heading, then for each server
  in order exactly eight lines, which start with their labels and of which the third shows that server's address redacted,
  then the lines of the servers over the limit.
\<close>

theorem multi_report_lines:
  assumes "url_one_line api" "one_line version" "length (sl_monitored l) \<le> MAX_MONITORED_SERVERS" "list_all (mapping_one_line host) (sl_monitored l)"
    and "ls = split_on 10 (run_multi api version host net l)"
  shows "length ls = 5 + 8 * length (sl_monitored l) + (if sl_overflow l = [] then 0 else 2 + length (sl_overflow l)) \<and>
    (\<forall>i < length (sl_monitored l). list_all2 starts_with (server_labels i) (take 8 (drop (4 + 8 * i) ls)) \<and>
      ls ! (4 + 8 * i) = [] \<and> ls ! (4 + 8 * i + 2) = lit ''  endpoint   : '' @ safe_endpoint api (sv_endpoint (sl_monitored l ! i)))"
proof (intro conjI allI impI)
  define es where "es = shown_entries api host net (sl_monitored l)"
  let ?head = "report_head version (length es) (length (sl_overflow l))"
  let ?rest = "overflow_block api (map sv_endpoint (sl_overflow l)) @ [[]]"
  have n: "length es = length (sl_monitored l)" by (simp add: es_def shown_entries_def)
  have ls: "ls = ?head @ concat (map (server_block api) (zip [0..<length es] es)) @ ?rest"
    unfolding assms(5) by (rule run_multi_lines [OF assms(1-4) es_def])
  show len: "length ls = 5 + 8 * length (sl_monitored l) + (if sl_overflow l = [] then 0 else 2 + length (sl_overflow l))"
    by (simp add: ls length_blocks n) (simp add: overflow_block_def)
  fix i assume i: "i < length (sl_monitored l)"
  have b: "take 8 (drop (4 + 8 * i) ls) = server_block api (i, es ! i)"
    using block_at [of "server_block api" 8 i "zip [0..<length es] es" ?rest] i n by (simp add: ls)
  have k: "ls ! (4 + 8 * i + k) = server_block api (i, es ! i) ! k" if "k < 8" for k
    using that i len unfolding b [symmetric] by simp
  have "me_endpoint (es ! i) = sv_endpoint (sl_monitored l ! i)" using i by (simp add: es_def shown_entries_def multi_entry_def)
  then show "list_all2 starts_with (server_labels i) (take 8 (drop (4 + 8 * i) ls))" "ls ! (4 + 8 * i) = []"
    "ls ! (4 + 8 * i + 2) = lit ''  endpoint   : '' @ safe_endpoint api (sv_endpoint (sl_monitored l ! i))"
    using b k [of 0] k [of 2] server_block_shape [of i api "es ! i"] by simp_all
qed

section \<open>Samples\<close>

definition sample_network :: Network where
  "sample_network = \<lparr>nw_client_error = (\<lambda>e. Some (lit ''builder error for url '' @ e)), nw_poll = (\<lambda>_. outage_poll), nw_panics = (\<lambda>_. False),
     nw_json = (\<lambda>_. None)\<rparr>"

definition secret_url :: rstr where
  "secret_url = lit ''http://u:p@h/v1''"

definition public_url :: rstr where
  "public_url = lit ''http://h/v1/''"

definition sample_spec :: "rstr \<Rightarrow> ServerSpec" where
  "sample_spec e = \<lparr>sv_key = lit ''k'', sv_endpoint = e, sv_identity = None\<rparr>"

lemma sample_client_texts: "client_error_text sample_urls (lit ''builder error for url '' @ secret_url) = client_error_text sample_urls (lit ''builder error for url '' @ public_url)"
  by code_simp

lemma sample_same_public: "same_public sample_urls secret_url public_url"
  by (simp add: same_public_def) code_simp

definition sample_host :: Host where
  "sample_host = \<lparr>ho_sys = sample_proc, ho_provider_sys = sample_proc, ho_nvml_init = Inl [], ho_nvml = no_nvml, ho_now = 0, ho_after = 0,
     ho_power_sys = sample_proc, ho_power_elapsed = 0, ho_map_init = Inl [], ho_map_compute = [], ho_moments = (\<lambda>_. (sample_proc, sample_proc))\<rparr>"


theorem multi_report_hides_endpoints_witness:
  "run_multi sample_urls (lit ''1'') sample_host sample_network \<lparr>sl_monitored = [sample_spec secret_url], sl_overflow = [sample_spec secret_url]\<rparr>
   = run_multi sample_urls (lit ''1'') sample_host sample_network \<lparr>sl_monitored = [sample_spec public_url], sl_overflow = [sample_spec public_url]\<rparr>"
proof (rule multi_report_hides_endpoints)
  have "probe_server sample_urls sample_network (sample_spec secret_url) = probe_server sample_urls sample_network (sample_spec public_url)"
    using sample_client_texts by (simp add: probe_server_def sample_network_def sample_spec_def)
  then show "list_all2 (same_server sample_urls sample_host sample_network)
      (sl_monitored \<lparr>sl_monitored = [sample_spec secret_url], sl_overflow = [sample_spec secret_url]\<rparr>)
      (sl_monitored \<lparr>sl_monitored = [sample_spec public_url], sl_overflow = [sample_spec public_url]\<rparr>)"
    using sample_same_public by (simp add: same_server_def) (simp add: sample_spec_def)
qed (use sample_same_public in \<open>simp_all add: sample_spec_def MAX_MONITORED_SERVERS_def\<close>)

theorem multi_report_lines_witness:
  "let l = \<lparr>sl_monitored = [sample_spec secret_url], sl_overflow = []\<rparr>; ls = split_on 10 (run_multi sample_urls (lit ''1'') sample_host sample_network l) in
     length ls = 5 + 8 * length (sl_monitored l) + (if sl_overflow l = [] then 0 else 2 + length (sl_overflow l)) \<and>
    (\<forall>i < length (sl_monitored l). list_all2 starts_with (server_labels i) (take 8 (drop (4 + 8 * i) ls)) \<and>
      ls ! (4 + 8 * i) = [] \<and> ls ! (4 + 8 * i + 2) = lit ''  endpoint   : '' @ safe_endpoint sample_urls (sv_endpoint (sl_monitored l ! i)))"
  unfolding Let_def
proof (rule multi_report_lines [OF _ _ _ _ refl])
  show "url_one_line sample_urls" by (simp add: url_one_line_def sample_urls_def lit_def)
  show "one_line (lit ''1'')" by (simp add: lit_def)
  show "list_all (mapping_one_line sample_host) (sl_monitored \<lparr>sl_monitored = [sample_spec secret_url], sl_overflow = []\<rparr>)"
    by (simp add: mapping_one_line_def sample_spec_def server_gpu_mapping_def describe_mapping_def lit_def)
qed (simp add: MAX_MONITORED_SERVERS_def)

end
