(* ===== verification/Screen.thy ===== *)
theory Screen
  imports DialogText SystemPanel Diagnostics
begin

text \<open>
  The whole screen of \<^verbatim>\<open>src/ui/draw.rs\<close> and \<^verbatim>\<open>src/ui/state_shell.rs\<close>: the three
  layouts, the header with its buttons, the footer, the panels side by side and the dialog on top of them.  Drawing
  returns the state too, because the process table remembers where its rows are.
\<close>

section \<open>The state of the shell\<close>

record 'u Screen =
  sc_host :: HostHistory
  sc_llm :: LlmHistory
  sc_table :: Table
  sc_settings :: "'u Settings"
  sc_selector :: ServerSelector
  sc_fast_drops :: u64
  sc_llm_drops :: u64

definition set_snapshot_drops :: "u64 \<Rightarrow> u64 \<Rightarrow> 'u Screen \<Rightarrow> 'u Screen" where
  "set_snapshot_drops fast llm sc = sc\<lparr>sc_fast_drops := fast, sc_llm_drops := llm\<rparr>"

definition snapshot_drop_text :: "'u Screen \<Rightarrow> rstr option" where
  "snapshot_drop_text sc = (if 0 < sc_fast_drops sc \<or> 0 < sc_llm_drops sc
     then Some (lit ''DROPS f'' @ show_word (sc_fast_drops sc) @ lit '' l'' @ show_word (sc_llm_drops sc)) else None)"

text \<open>The dialogs are shared with the settings and with the table.\<close>

definition set_dialogs :: "bool \<Rightarrow> bool \<Rightarrow> bool \<Rightarrow> 'u Screen \<Rightarrow> 'u Screen" where
  "set_dialogs settings search help sc = sc\<lparr>
     sc_settings := (sc_settings sc)\<lparr>st_open := settings, st_search_open := search, st_help_open := help\<rparr>,
     sc_table := (sc_table sc)\<lparr>tb_settings_open := settings, tb_search_open := search, tb_help_open := help\<rparr>\<rparr>"

definition toggle_help :: "'u Screen \<Rightarrow> 'u Screen" where
  "toggle_help sc = set_dialogs False False (\<not> st_help_open (sc_settings sc)) sc"

definition close_help :: "'u Screen \<Rightarrow> 'u Screen" where
  "close_help sc = set_dialogs (st_open (sc_settings sc)) (st_search_open (sc_settings sc)) False sc"

section \<open>The buttons\<close>

definition REFRESH_CONTROL_WIDTH :: u16 where "REFRESH_CONTROL_WIDTH = 22"
definition COMPACT_MIN_WIDTH :: u16 where "COMPACT_MIN_WIDTH = 54"
definition COMPACT_MIN_HEIGHT :: u16 where "COMPACT_MIN_HEIGHT = 16"
definition FULL_MIN_WIDTH :: u16 where "FULL_MIN_WIDTH = 72"
definition FULL_MIN_HEIGHT :: u16 where "FULL_MIN_HEIGHT = 22"

record RefreshControls =
  rf_minus :: Rect
  rf_plus :: Rect

definition refresh_controls :: "Rect \<Rightarrow> RefreshControls option" where
  "refresh_controls area = (if rc_height area < 3 \<or> rc_width area < REFRESH_CONTROL_WIDTH + 6 then None
     else let inner_right = rc_x area + sat_sub (rc_width area) 1; start_x = sat_sub inner_right REFRESH_CONTROL_WIDTH; y = rc_y area + 1
       in Some \<lparr>rf_minus = rect (start_x + 1) y 5 1, rf_plus = rect (start_x + 17) y 5 1\<rparr>)"

definition uses_full_layout :: "u16 \<Rightarrow> u16 \<Rightarrow> bool" where
  "uses_full_layout width height \<longleftrightarrow> FULL_MIN_WIDTH \<le> width \<and> FULL_MIN_HEIGHT \<le> height"

definition refresh_line :: "u64 \<Rightarrow> Span list" where
  "refresh_line refresh_ms = [raw_span (lit '' ''), button_span (lit ''[ - ]''),
     styled (lit ''  '' @ pad_left 4 (show_word refresh_ms) @ lit '' ms  '') (fg WHITE), button_span (lit ''[ + ]'')]"

section \<open>Header and footer\<close>

definition selected_position :: "ServerSummary list \<Rightarrow> rstr \<Rightarrow> nat" where
  "selected_position servers selected_server = length (takeWhile (\<lambda>s. ss_key s \<noteq> selected_server) servers) + 1"

definition selected_index :: "ServerSummary list \<Rightarrow> rstr \<Rightarrow> nat" where
  "selected_index servers selected_server = (if list_ex (\<lambda>s. ss_key s = selected_server) servers then selected_position servers selected_server else 0)"

record Header =
  hd_server :: rstr
  hd_refresh_ms :: u64
  hd_auto :: bool
  hd_servers :: "ServerSummary list"
  hd_selected :: rstr
  hd_overflow :: "ServerSpec list"

definition header_text :: "('u, 'z) url_api_scheme \<Rightarrow> Header \<Rightarrow> rstr \<times> Color \<Rightarrow> u16 \<Rightarrow> Span list" where
  "header_text api h status left_width =
     [styled (lit '' OrsikTop '') (bold ORK_GREEN), styled ([183] @ lit '' '') (fg DIM_GREEN)] @
     (if 78 \<le> left_width then [styled (lit ''btop for local LLM Orks   '') (fg WHITE)] else []) @
     [styled (fst status) (bold (snd status)), styled (lit ''   '') plain_style, styled (lit ''LLM ENDPOINT '') (fg WHITE),
      styled (compact_endpoint api (hd_server h)) (fg MUTED)] @
     (if hd_auto h then [styled (lit '' '' @ [183] @ lit ''auto'') (fg MUTED)] else []) @
     (if 1 < length (hd_servers h) \<or> hd_overflow h \<noteq> []
      then [styled (lit ''  ['' @ show_nat (selected_index (hd_servers h) (hd_selected h)) @ lit ''/'' @ show_nat (length (hd_servers h)) @ lit '']  s = servers'') (fg MUTED)] @
        (if hd_overflow h \<noteq> [] then [styled (lit ''  '' @ [183] @ lit '' '' @ show_nat (length (hd_overflow h)) @ lit '' over limit'') (fg YELLOW)] else [])
      else [])"

definition draw_header :: "('u, 'z) url_api_scheme \<Rightarrow> Ratatui \<Rightarrow> instant \<Rightarrow> Rect \<Rightarrow> LlmStats \<Rightarrow> LlmHistory \<Rightarrow> Header \<Rightarrow> frame" where
  "draw_header api rt now area llm lh h = (let
       inner = rt_inner rt AllBorders area; block = (area, PaintBlock [] AllBorders DIM_GREEN); controls = refresh_controls area;
       controls_start = (case controls of Some c \<Rightarrow> sat_sub (rc_x (rf_minus c)) 1 | None \<Rightarrow> sat_add (rc_x inner) (rc_width inner));
       left_width = sat_sub (sat_sub controls_start (rc_x inner)) 1
     in [block] @
       (if 0 < left_width then [(rect (rc_x inner) (rc_y inner) left_width 1, paint_lines [header_text api h (llm_link_status lh llm now) left_width])] else []) @
       (case controls of None \<Rightarrow> []
        | Some c \<Rightarrow> [(rect (sat_sub (rc_x (rf_minus c)) 1) (rc_y inner) REFRESH_CONTROL_WIDTH 1, paint_lines [refresh_line (hd_refresh_ms h)])]))"

definition footer_status :: "LlmStats \<Rightarrow> GpuStats \<Rightarrow> rstr" where
  "footer_status llm gpu = (if error_text llm \<noteq> []
     then if connected llm \<and> \<not> metrics_available llm then metrics_unavailable_reason (error_text llm) else friendly_llm_error (error_text llm)
     else if gs_error gpu \<noteq> [] then lit ''GPU '' @ [183] @ lit '' '' @ gs_error gpu
     else lit ''READY '' @ [183] @ lit '' MORE POWER, HAPPIER ORKS'')"

definition footer_help :: "(rstr \<Rightarrow> nat) \<Rightarrow> u16 \<Rightarrow> Table \<Rightarrow> rstr" where
  "footer_help dw width t = (if tb_search_open t
     then lit '' SEARCH /'' @ fit_cell dw (tb_search_query t) 30 @ [9615] @ lit ''  [enter] apply  [esc] clear ''
     else if 110 \<le> width
     then lit '' [esc] quit  [h] help  [s] servers  [q] settings  [-/+] refresh  [/] search  [dbl] pin ''
     else lit '' [esc] quit  [h] help  [q] settings  [/] search  [dbl] pin '')"

definition draw_footer :: "Ratatui \<Rightarrow> Rect \<Rightarrow> LlmStats \<Rightarrow> GpuStats \<Rightarrow> 'u Screen \<Rightarrow> frame" where
  "draw_footer rt area llm gpu sc = (let
       drops = snapshot_drop_text sc;
       status = (case drops of Some d \<Rightarrow> d @ lit '' '' @ [183] @ lit '' '' @ footer_status llm gpu | None \<Rightarrow> footer_status llm gpu);
       status_color = (if error_text llm \<noteq> [] \<or> gs_error gpu \<noteq> [] \<or> drops \<noteq> None then YELLOW else ORK_GREEN);
       inner = rt_inner rt AllBorders area;
       help = footer_help (rt_width rt) (rc_width inner) (sc_table sc);
       help_width = of_nat (length help) :: u16
     in [(area, PaintBlock [] AllBorders DIM_GREEN),
         (rect (rc_x inner) (rc_y inner) (min (rc_width inner) help_width) 1, PaintText [[raw_span help]] (fg (if tb_search_open (sc_table sc) then CYAN else MUTED)))] @
        (if help_width < rc_width inner
         then [(rect (sat_add (rc_x inner) help_width) (rc_y inner) (sat_sub (rc_width inner) help_width) 1, PaintText [[raw_span status]] (bold status_color))]
         else []))"

section \<open>The three layouts\<close>

definition draw_overlays :: "('u, 'z) url_edit_api_scheme \<Rightarrow> Ratatui \<Rightarrow> Rect \<Rightarrow> Header \<Rightarrow> 'u Screen \<Rightarrow> frame" where
  "draw_overlays api rt area h sc = (
     if server_selector_open (sc_selector sc)
     then draw_server_selector api rt area (hd_servers h) (hd_selected h) (server_selector_index (sc_selector sc)) (hd_overflow h)
     else if st_open (sc_settings sc) then draw_settings_popup api rt area (sc_settings sc)
     else if st_help_open (sc_settings sc) then draw_help_popup rt area else [])"

definition draw_too_small :: "Rect \<Rightarrow> frame" where
  "draw_too_small area = [(area, PaintFramed [raw_span (lit '' OrsikTop '')] AllBorders DIM_GREEN
     [[raw_span (lit ''OrsikTop needs at least 54x16 terminal cells'')]] (bold ORK_GREEN))]"

definition compact_lines :: "('u, 'z) url_edit_api_scheme \<Rightarrow> (rstr \<Rightarrow> nat) \<Rightarrow> instant \<Rightarrow> Rect \<Rightarrow> LlmStats \<Rightarrow> SystemStats \<Rightarrow> 'u Screen \<Rightarrow> Header \<Rightarrow> Span list list" where
  "compact_lines api dw now inner llm system sc h = (let (status, status_color) = llm_link_status (sc_llm sc) llm now;
       rows = [[styled (lit '' '' @ status @ lit '' '') (bold status_color), styled ([183] @ lit '' '') (fg DIM_GREEN),
             styled (compact_endpoint api (hd_server h)) (fg MUTED)] @ (if hd_auto h then [styled (lit '' '' @ [183] @ lit ''auto'') (fg MUTED)] else []),
           [styled (lit '' MODEL '') (fg MUTED),
            styled (if model llm = [] then EMPTY_CELL else fit_cell dw (model llm) (unat (sat_sub (rc_width inner) 8))) (fg WHITE)],
           [styled (lit '' CTX '') (fg MUTED), styled (pad_right 18 (plain_ctx_text (context_used llm) (context_size llm))) (fg WHITE),
            styled (lit ''GEN '') (fg MUTED), styled (tok_s (generation_tps llm)) (fg WHITE)]] @
         (if 1 < length (hd_servers h) then [[styled (lit '' ['' @ show_nat (selected_index (hd_servers h) (hd_selected h)) @ lit ''/'' @ show_nat (length (hd_servers h)) @
            lit ''] servers '' @ [183] @ lit '' s = selector'') (fg MUTED)]] else []) @
         (if tb_search_open (sc_table sc) then [[styled (lit '' SEARCH '') (fg CYAN),
            styled (lit ''/'' @ fit_cell dw (tb_search_query (sc_table sc)) (unat (sat_sub (rc_width inner) 20))) (fg WHITE),
            styled (lit ''  '' @ [183] @ lit '' Esc cancel'') (fg MUTED)]] else []) @
         [[styled (lit '' '' @ show_word (hd_refresh_ms h) @ lit ''ms '' @ [183] @ lit '' h help '' @ [183] @ lit '' q settings '' @ [183] @ lit '' esc quit'') (fg MUTED)]]
     in rows @ (if length rows < unat (rc_height inner)
       then [[styled (lit '' LOAD '') (fg MUTED), styled (load_average_text system) (fg WHITE), styled (lit ''  CPU '') (fg MUTED),
              styled (fmt_fixed 0 (sm_cpu_usage system) @ lit ''%'') (fg WHITE)]] else []))"

definition draw_compact :: "('u, 'z) url_edit_api_scheme \<Rightarrow> Ratatui \<Rightarrow> instant \<Rightarrow> Rect \<Rightarrow> LlmStats \<Rightarrow> SystemStats \<Rightarrow> 'u Screen \<Rightarrow> Header \<Rightarrow> frame" where
  "draw_compact api rt now area llm system sc h = (case boxed rt [raw_span (lit '' OrsikTop '' @ [183] @ lit '' compact '')] area of (inner, block) \<Rightarrow>
     if rc_width inner = 0 \<or> rc_height inner = 0 then block
     else block @ [(inner, paint_lines (compact_lines api (rt_width rt) now inner llm system sc h))])"

text \<open>The readings of the clock: \<open>clock p c i\<close> is the \<open>i\<close>-th one of column \<open>c\<close> of panel \<open>p\<close>.\<close>

type_synonym clocks = "nat \<Rightarrow> nat \<Rightarrow> nat \<Rightarrow> instant"

definition draw_llm_and_system :: "Ratatui \<Rightarrow> clocks \<Rightarrow> Rect \<Rightarrow> SystemStats \<Rightarrow> LlmStats \<Rightarrow> LlmHistory \<Rightarrow> GpuMapping \<Rightarrow> frame" where
  "draw_llm_and_system rt clock area system llm lh m = (let parts = rt_split rt Horizontal [Percentage 65, Percentage 35] area in
     draw_llm rt (clock 0 0) (clock 1) (parts 0) llm lh m @ draw_system rt (parts 1) system)"

definition table_paint :: "Rect \<times> Widget \<Rightarrow> Rect \<times> Paint" where
  "table_paint rw = (fst rw, case snd rw of BlockWidget title \<Rightarrow> PaintBlock [raw_span title] AllBorders ORK_GREEN | ParagraphWidget rows \<Rightarrow> paint_lines rows)"

definition draw_bottom :: "Ratatui \<Rightarrow> clocks \<Rightarrow> Rect \<Rightarrow> 'u Screen \<Rightarrow> ProcessStats list \<Rightarrow> frame \<times> Table" where
  "draw_bottom rt clock area sc processes = (
     if rc_width area < 100 then (draw_history rt (clock 2) area (sc_host sc) (sc_llm sc), sc_table sc)
     else let panes = rt_split rt Horizontal [Percentage 52, Percentage 48] area;
         (table, t) = draw_processes (rt_width rt) (rt_inner rt AllBorders) (panes 1) processes (sc_table sc)
       in (draw_history rt (clock 2) (panes 0) (sc_host sc) (sc_llm sc) @ map table_paint table, t))"

definition draw_full :: "('u, 'z) url_edit_api_scheme \<Rightarrow> Ratatui \<Rightarrow> clocks \<Rightarrow> Rect \<Rightarrow> SystemStats \<Rightarrow> LlmStats \<Rightarrow> GpuStats \<Rightarrow> GpuMapping \<Rightarrow> Header \<Rightarrow> 'u Screen \<Rightarrow> frame \<times> Table" where
  "draw_full api rt clock area system llm gpu m h sc = (let
       llm_height = (if connected llm then 12 else 5); middle_height = max llm_height (system_panel_height system);
       gpu_height = (if enc_dec_idle gpu then 6 else 7);
       show_history = (3 + gpu_height + middle_height + 5 + 3 \<le> rc_height area);
       rows = rt_split rt Vertical [Fixed 3, Fixed (unat gpu_height), Fixed (unat middle_height), AtLeast (if show_history then 5 else 0), Fixed 3] area;
       (below, t) = (if show_history then draw_bottom rt clock (rows 3) sc (sm_processes system) else ([], sc_table sc))
     in (draw_header api rt (clock 3 0 0) (rows 0) llm (sc_llm sc) h @ draw_gpu rt (rows 1) gpu m @
         draw_llm_and_system rt clock (rows 2) system llm (sc_llm sc) m @ below @ draw_footer rt (rows 4) llm gpu sc @ draw_overlays api rt area h sc, t))"

definition draw :: "('u, 'z) url_edit_api_scheme \<Rightarrow> Ratatui \<Rightarrow> clocks \<Rightarrow> Rect \<Rightarrow> SystemStats \<Rightarrow> LlmStats \<Rightarrow> GpuStats \<Rightarrow> GpuMapping \<Rightarrow> Header \<Rightarrow> 'u Screen \<Rightarrow> frame \<times> 'u Screen" where
  "draw api rt clock area system llm gpu m h sc0 = (let sc = sc0\<lparr>sc_table := clear_process_interaction (sc_table sc0)\<rparr>; ground = [(area, PaintFill BG_BLACK)] in
     if rc_width area < COMPACT_MIN_WIDTH \<or> rc_height area < COMPACT_MIN_HEIGHT then (ground @ draw_too_small area, sc)
     else if rc_width area < FULL_MIN_WIDTH \<or> rc_height area < FULL_MIN_HEIGHT
     then (ground @ draw_compact api rt (clock 3 0 0) area llm system sc h @ draw_overlays api rt area h sc, sc)
     else case draw_full api rt clock area system llm gpu m h sc of (painted, t) \<Rightarrow> (ground @ painted, sc\<lparr>sc_table := t\<rparr>))"


section \<open>The buttons are where the clicks are\<close>

lemma length_show_nat_iff: "length (show_nat n) \<le> Suc k \<longleftrightarrow> n < 10 ^ Suc k"
proof (induction k arbitrary: n)
  case 0
  show ?case by (subst show_nat.simps, subst show_nat.simps) auto
next
  case (Suc k)
  show ?case
  proof (cases "n < 10")
    case True
    then have "n < 10 ^ Suc (Suc k)" by (rule less_le_trans) simp
    then show ?thesis using True by (subst show_nat.simps) simp
  next
    case False
    then have "length (show_nat n) = Suc (length (show_nat (n div 10)))" by (subst show_nat.simps) simp
    then show ?thesis using Suc.IH [of "n div 10"] by (simp add: div_less_iff_less_mult mult.commute)
  qed
qed

lemma refresh_text: "line_text (refresh_line n) = lit '' [ - ]  '' @ pad_left 4 (show_word n) @ lit '' ms  [ + ]''"
  by (simp add: refresh_line_def line_text_def raw_span_def button_span_def styled_def lit_def)

lemma refresh_text_short:
  assumes "n < 10000" shows "take 5 (drop 17 (line_text (refresh_line n))) = lit ''[ + ]''"
proof -
  have "unat n < 10 ^ Suc 3" using assms by (simp add: word_less_nat_alt)
  then have "length (pad_left 4 (show_word n)) = 4"
    using length_show_nat_iff [of "unat n" 3] by (simp add: pad_left_length show_word_def)
  then show ?thesis by (simp add: refresh_text lit_def)
qed

lemma refresh_text_long:
  assumes "\<not> n < 10000" shows "line_text (refresh_line n) ! 17 \<noteq> 91"
proof -
  have "\<not> unat n < 10 ^ Suc 3" using assms by (simp add: word_less_nat_alt)
  then have l: "5 \<le> length (show_word n)" using length_show_nat_iff [of "unat n" 3] by (simp add: show_word_def)
  let ?d = "show_word n @ lit '' ms  ''"
  have t: "line_text (refresh_line n) = lit '' [ - ]  '' @ ?d @ lit ''[ + ]''" using l by (simp add: refresh_text pad_left_def lit_def)
  obtain d where d: "d = ?d" by simp
  have ld: "9 < length d" using l by (simp add: d lit_def)
  have "line_text (refresh_line n) ! 17 = d ! 9" using ld by (simp add: t [folded d] nth_append lit_def)
  moreover have "d ! 9 \<in> set d" by (rule nth_mem) (rule ld)
  moreover have "91 \<notin> set d" by (auto simp: d show_word_def is_digit_def lit_def dest: show_nat_digits)
  ultimately show ?thesis by metis
qed

text \<open>
  the refresh buttons are drawn where a click on them is recognised: in a header wide enough for them the five cells of the minus area
  read \<open>[ - ]\<close>, and the five cells of the plus area read \<open>[ + ]\<close> exactly as long as the interval has at
  most four digits; at ten seconds, the longest interval, the plus is drawn one cell to the right of its area.
\<close>

theorem refresh_buttons_on_targets:
  assumes "3 \<le> rc_height area" "28 \<le> rc_width area" "unat (rc_x area) + unat (rc_width area) < 2 ^ 16" "unat (rc_y area) + 2 < 2 ^ 16"
    and "rc_y (rt_inner rt AllBorders area) = rc_y area + 1"
  shows "\<exists>c row. refresh_controls area = Some c \<and> (row, paint_lines [refresh_line (hd_refresh_ms h)]) \<in> set (draw_header api rt now area llm lh h) \<and>
    rc_y (rf_minus c) = rc_y row \<and> rc_y (rf_plus c) = rc_y row \<and>
    take (unat (rc_width (rf_minus c))) (drop (unat (rc_x (rf_minus c) - rc_x row)) (line_text (refresh_line (hd_refresh_ms h)))) = lit ''[ - ]'' \<and>
    (take (unat (rc_width (rf_plus c))) (drop (unat (rc_x (rf_plus c) - rc_x row)) (line_text (refresh_line (hd_refresh_ms h)))) = lit ''[ + ]''
      \<longleftrightarrow> hd_refresh_ms h < 10000)"
proof -
  let ?start = "sat_sub (rc_x area + sat_sub (rc_width area) 1) REFRESH_CONTROL_WIDTH"
  let ?c = "\<lparr>rf_minus = rect (?start + 1) (rc_y area + 1) 5 1, rf_plus = rect (?start + 17) (rc_y area + 1) 5 1\<rparr>"
  let ?row = "rect (sat_sub (rc_x (rf_minus ?c)) 1) (rc_y (rt_inner rt AllBorders area)) REFRESH_CONTROL_WIDTH 1"
  have start: "sat_sub (?start + 1) 1 = ?start"
  proof -
    have "unat (rc_width area) < 2 ^ 16" using unsigned_less [of "rc_width area"] by simp
    then have "unat ?start + 1 < 2 ^ 16" using assms(2,3)
      by (simp add: sat_simps REFRESH_CONTROL_WIDTH_def unat_word_ariths word_le_nat_alt)
    then have "unat (?start + 1) = unat ?start + 1" by (simp add: unat_word_ariths)
    then show ?thesis by (simp add: word_unat_eq_iff sat_simps)
  qed
  have c: "refresh_controls area = Some ?c"
    using assms(1,2) by (simp add: refresh_controls_def REFRESH_CONTROL_WIDTH_def Let_def word_le_nat_alt word_less_nat_alt)
  then have "(?row, paint_lines [refresh_line (hd_refresh_ms h)]) \<in> set (draw_header api rt now area llm lh h)"
    by (simp add: draw_header_def Let_def)
  moreover have "take 5 (drop 1 (line_text (refresh_line n))) = lit ''[ - ]''" for n by (simp add: refresh_text lit_def)
  moreover have "take 5 (drop 17 (line_text (refresh_line n))) = lit ''[ + ]'' \<longleftrightarrow> n < 10000" for n
  proof
    assume e: "take 5 (drop 17 (line_text (refresh_line n))) = lit ''[ + ]''"
    then have "length (take 5 (drop 17 (line_text (refresh_line n)))) = 5" by (simp add: lit_def)
    then have "line_text (refresh_line n) ! 17 = take 5 (drop 17 (line_text (refresh_line n))) ! 0" by simp
    then show "n < 10000" using refresh_text_long [of n] by (auto simp: e lit_def)
  qed (rule refresh_text_short)
  ultimately show ?thesis using c assms(5) by (intro exI [of _ ?c] exI [of _ ?row]) (simp add: rect_def start)
qed

theorem refresh_buttons_on_targets_witness:
  "\<forall>api now llm lh h. \<exists>c row. refresh_controls (rect 0 0 80 3) = Some c \<and>
    (row, paint_lines [refresh_line (hd_refresh_ms h)]) \<in> set (draw_header api example_ratatui now (rect 0 0 80 3) llm lh h) \<and>
    rc_y (rf_minus c) = rc_y row \<and> rc_y (rf_plus c) = rc_y row \<and>
    take (unat (rc_width (rf_minus c))) (drop (unat (rc_x (rf_minus c) - rc_x row)) (line_text (refresh_line (hd_refresh_ms h)))) = lit ''[ - ]'' \<and>
    (take (unat (rc_width (rf_plus c))) (drop (unat (rc_x (rf_plus c) - rc_x row)) (line_text (refresh_line (hd_refresh_ms h)))) = lit ''[ + ]''
      \<longleftrightarrow> hd_refresh_ms h < 10000)"
  by (intro allI refresh_buttons_on_targets) (simp_all add: rect_def example_ratatui_def)

section \<open>Clicks on the table\<close>

lemma body_lines_enough: "length shown \<le> length (body_lines dw t w shown)"
  by (simp add: body_lines_def)

lemma drawn_table_hits:
  assumes "draw_processes dw inner_of area processes t = (widgets, t')" "tb_header_hits t = []" "tb_rows t = None"
  shows "tb_pane t' = Some area \<and> (\<exists>title. (area, BlockWidget title) \<in> set widgets) \<and>
    (\<forall>hit. tb_rows t' = Some hit \<longrightarrow> (\<exists>rows. (rh_rect hit, ParagraphWidget rows) \<in> set widgets \<and> length (rh_targets hit) \<le> length rows)) \<and>
    (tb_header_hits t' = [] \<or> tb_rows t' \<noteq> None)"
proof (cases "rc_width (inner_of area) < 30 \<or> rc_height (inner_of area) < 2")
  case True
  then show ?thesis using assms by (auto simp: draw_processes_def scroll_window_def Let_def split: prod.splits)
next
  case False
  obtain pinned pinned_rows rows where r: "table_rows processes t = (pinned, pinned_rows, rows)" by (cases "table_rows processes t") auto
  let ?t = "scroll_window area pinned pinned_rows rows t" and ?inner = "inner_of area"
  define w where "w = table_width_of ?inner rows ?t"
  define shown where "shown = visible_rows pinned pinned_rows rows ?t"
  have t': "t' = with_hits ?inner w shown ?t"
    using assms(1) False by (simp add: draw_processes_def r Let_def w_def shown_def)
  have "(TableText.body_of ?inner w, ParagraphWidget (body_lines dw t' w shown)) \<in> set widgets"
    "\<exists>title. (area, BlockWidget title) \<in> set widgets"
    using assms(1) False unfolding draw_processes_def r w_def shown_def by (auto simp add: Let_def)
  then show ?thesis using t' body_lines_enough [of shown dw t' w] by (auto simp: with_hits_def scroll_window_def Let_def)
qed

lemma draw_bottom_hits:
  assumes "draw_bottom rt clock area sc processes = (painted, t)" "tb_header_hits (sc_table sc) = []" "tb_rows (sc_table sc) = None" "tb_pane (sc_table sc) = None"
  shows "(tb_rows t = None \<and> tb_header_hits t = [] \<and> tb_pane t = None) \<or>
    (\<exists>pane title. tb_pane t = Some pane \<and> (pane, PaintBlock [raw_span title] AllBorders ORK_GREEN) \<in> set painted \<and>
      (\<forall>hit. tb_rows t = Some hit \<longrightarrow> (\<exists>rows. (rh_rect hit, paint_lines rows) \<in> set painted \<and> length (rh_targets hit) \<le> length rows)) \<and>
      (tb_header_hits t = [] \<or> tb_rows t \<noteq> None))"
proof (cases "rc_width area < 100")
  case True
  then show ?thesis using assms by (auto simp: draw_bottom_def)
next
  case False
  let ?panes = "rt_split rt Horizontal [Percentage 52, Percentage 48] area"
  obtain widgets where w: "draw_processes (rt_width rt) (rt_inner rt AllBorders) (?panes 1) processes (sc_table sc) = (widgets, t)"
    and p: "set (map table_paint widgets) \<subseteq> set painted"
    using False assms(1) by (auto simp: draw_bottom_def Let_def split: prod.splits)
  have in_frame: "(r, case x of BlockWidget title \<Rightarrow> PaintBlock [raw_span title] AllBorders ORK_GREEN | ParagraphWidget rows \<Rightarrow> paint_lines rows) \<in> set painted"
    if "(r, x) \<in> set widgets" for r x using that p by (force simp: table_paint_def)
  from drawn_table_hits [OF w assms(2,3)] show ?thesis
    by (intro disjI2) (elim conjE exE, intro exI conjI; (fastforce dest: in_frame)?)
qed

lemma draw_full_bottom:
  assumes "draw_full api rt clock area system llm gpu m h sc = (below, t)"
  shows "t = sc_table sc \<or> (\<exists>part. t = snd (draw_bottom rt clock part sc (sm_processes system)) \<and>
    set (fst (draw_bottom rt clock part sc (sm_processes system))) \<subseteq> set below)"
proof -
  have choice: "t = sc_table sc \<or> (\<exists>part. t = snd (draw_bottom rt clock part sc ps) \<and> set (fst (draw_bottom rt clock part sc ps)) \<subseteq> set below)"
    if "(case (if c then draw_bottom rt clock part sc ps else ([], sc_table sc)) of (shown, t) \<Rightarrow> (A @ B @ C @ shown @ D @ E, t)) = (below, t)"
    for c part ps A B C D E
    using that by (cases c) (auto split: prod.splits intro!: exI [of _ part])
  show ?thesis using assms unfolding draw_full_def Let_def by (rule choice)
qed

lemma draw_hits:
  assumes "draw api rt clock area system llm gpu m h sc = (painted, sc')"
  shows "(tb_rows (sc_table sc') = None \<and> tb_header_hits (sc_table sc') = [] \<and> tb_pane (sc_table sc') = None) \<or>
    (\<exists>pane title. tb_pane (sc_table sc') = Some pane \<and> (pane, PaintBlock [raw_span title] AllBorders ORK_GREEN) \<in> set painted \<and>
      (\<forall>hit. tb_rows (sc_table sc') = Some hit \<longrightarrow> (\<exists>rows. (rh_rect hit, paint_lines rows) \<in> set painted \<and> length (rh_targets hit) \<le> length rows)) \<and>
      (tb_header_hits (sc_table sc') = [] \<or> tb_rows (sc_table sc') \<noteq> None))"
proof (cases "rc_width area < FULL_MIN_WIDTH \<or> rc_height area < FULL_MIN_HEIGHT")
  case True
  then have "sc_table sc' = clear_process_interaction (sc_table sc)"
    using assms by (auto simp: draw_def Let_def split: if_splits)
  then show ?thesis by (simp add: clear_process_interaction_def)
next
  case False
  let ?sc = "sc\<lparr>sc_table := clear_process_interaction (sc_table sc)\<rparr>"
  have large: "\<not> (rc_width area < COMPACT_MIN_WIDTH \<or> rc_height area < COMPACT_MIN_HEIGHT)"
    using False by (auto simp: FULL_MIN_WIDTH_def FULL_MIN_HEIGHT_def COMPACT_MIN_WIDTH_def COMPACT_MIN_HEIGHT_def word_less_nat_alt)
  obtain below t where d: "draw_full api rt clock area system llm gpu m h ?sc = (below, t)" by (cases "draw_full api rt clock area system llm gpu m h ?sc")
  then have p: "painted = (area, PaintFill BG_BLACK) # below" "sc_table sc' = t"
    using assms False large by (auto simp: draw_def Let_def)
  have cleared: "tb_header_hits (sc_table ?sc) = []" "tb_rows (sc_table ?sc) = None" "tb_pane (sc_table ?sc) = None"
    by (simp_all add: clear_process_interaction_def)
  show ?thesis
  proof (cases "t = sc_table ?sc")
    case True
    then show ?thesis using cleared p by simp
  next
    case False
    then obtain part bottom where b: "draw_bottom rt clock part ?sc (sm_processes system) = (bottom, t)" and sub: "set bottom \<subseteq> set below"
      using draw_full_bottom [OF d] by (metis prod.collapse)
    from draw_bottom_hits [OF b cleared] show ?thesis unfolding p using sub by fastforce
  qed
qed


lemma example_pane:
  "tb_pane (sc_table (snd (draw api example_ratatui clock (rect 0 0 120 60) example_system llm gpu m h sc))) = Some (rect 0 0 120 60)"
proof -
  let ?sc = "sc\<lparr>sc_table := clear_process_interaction (sc_table sc)\<rparr>" and ?area = "rect 0 0 120 60"
  have height: "system_panel_height example_system = 18"
    by (simp add: system_panel_height_def shows_minibar_def is_hybrid_def example_system_def cores_of_def upt_rec Let_def list_ex_iff)
  have shown: "3 + (if enc_dec_idle gpu then 6 else 7) + max (if connected llm then 12 else 5) (system_panel_height example_system) + 5 + 3 \<le> rc_height ?area"
    by (simp add: height rect_def max_def)
  obtain widgets t where w: "draw_processes length (rt_inner example_ratatui AllBorders) ?area (sm_processes example_system) (sc_table ?sc) = (widgets, t)"
    by (cases "draw_processes length (rt_inner example_ratatui AllBorders) ?area (sm_processes example_system) (sc_table ?sc)")
  have "tb_pane t = Some ?area" using drawn_table_hits [OF w] by (simp add: clear_process_interaction_def)
  moreover have "snd (draw_bottom example_ratatui clock ?area ?sc (sm_processes example_system)) = t"
    using w by (simp add: draw_bottom_def rect_def example_ratatui_def)
  moreover have "snd (draw_full api example_ratatui clock ?area example_system llm gpu m h ?sc) = snd (draw_bottom example_ratatui clock ?area ?sc (sm_processes example_system))"
    unfolding draw_full_def Let_def if_P [OF shown] by (simp add: example_ratatui_def split: prod.splits)
  ultimately show ?thesis
    by (simp add: draw_def Let_def COMPACT_MIN_WIDTH_def COMPACT_MIN_HEIGHT_def FULL_MIN_WIDTH_def FULL_MIN_HEIGHT_def rect_def split_def)
qed


section \<open>The screen keeps the secrets of an address\<close>

text \<open>Addresses that are shown alike: the same, or URLs of a host with the same public parts.\<close>

definition shown_alike :: "('u, 'z) url_api_scheme \<Rightarrow> rstr \<Rightarrow> rstr \<Rightarrow> bool" where
  "shown_alike api e1 e2 \<longleftrightarrow> e1 = e2 \<or> same_public api e1 e2 \<and> safe_endpoint api e1 \<noteq> UNPARSEABLE_ENDPOINT"

lemma compact_endpoint_alike: "shown_alike api e1 e2 \<Longrightarrow> compact_endpoint api e1 = compact_endpoint api e2"
  by (auto simp: shown_alike_def compact_endpoint_def Let_def dest: safe_endpoint_public)

definition same_summary :: "('u, 'z) url_api_scheme \<Rightarrow> ServerSummary \<Rightarrow> ServerSummary \<Rightarrow> bool" where
  "same_summary api s1 s2 \<longleftrightarrow> (\<exists>e. s2 = s1\<lparr>ss_endpoint := e\<rparr> \<and> shown_alike api (ss_endpoint s1) e)"

definition same_header :: "('u, 'z) url_api_scheme \<Rightarrow> Header \<Rightarrow> Header \<Rightarrow> bool" where
  "same_header api h1 h2 \<longleftrightarrow> shown_alike api (hd_server h1) (hd_server h2) \<and> list_all2 (same_summary api) (hd_servers h1) (hd_servers h2) \<and>
     list_all2 (\<lambda>a b. shown_alike api (sv_endpoint a) (sv_endpoint b)) (hd_overflow h1) (hd_overflow h2) \<and>
     hd_refresh_ms h1 = hd_refresh_ms h2 \<and> hd_auto h1 = hd_auto h2 \<and> hd_selected h1 = hd_selected h2"

lemma map_list_all2: "list_all2 R xs ys \<Longrightarrow> (\<And>x y. R x y \<Longrightarrow> f x = g y) \<Longrightarrow> map f xs = map g ys"
  by (induction rule: list_all2_induct) auto

lemma enumerate_list_all2:
  "list_all2 R xs ys \<Longrightarrow> (\<And>i x y. R x y \<Longrightarrow> f i x = g i y) \<Longrightarrow>
    map (\<lambda>(i, x). f i x) (enumerate n xs) = map (\<lambda>(i, y). g i y) (enumerate n ys)"
  by (induction arbitrary: n rule: list_all2_induct) auto

lemma same_summary_lines:
  assumes "same_summary api s1 s2"
  shows "ss_key s1 = ss_key s2" "selector_header api dw sel hi w i s1 = selector_header api dw sel hi w i s2" "selector_detail w s1 = selector_detail w s2"
proof -
  from assms obtain e where e: "s2 = s1\<lparr>ss_endpoint := e\<rparr>" and c: "compact_endpoint api (ss_endpoint s1) = compact_endpoint api e"
    by (auto simp: same_summary_def dest: compact_endpoint_alike)
  have fields: "ss_key s2 = ss_key s1" "ss_label s2 = ss_label s1" "ss_connected s2 = ss_connected s1" "ss_reconnecting s2 = ss_reconnecting s1"
    "ss_phase s2 = ss_phase s1" "ss_age_ms s2 = ss_age_ms s1" "ss_sample_interval_ms s2 = ss_sample_interval_ms s1" "ss_backend s2 = ss_backend s1"
    "ss_slots_available s2 = ss_slots_available s1" "ss_slot_count s2 = ss_slot_count s1" "ss_busy_slots s2 = ss_busy_slots s1"
    "ss_props_slot_count s2 = ss_props_slot_count s1" "ss_context_used s2 = ss_context_used s1" "ss_context_size s2 = ss_context_size s1"
    "ss_generation_tps s2 = ss_generation_tps s1" "compact_endpoint api (ss_endpoint s2) = compact_endpoint api (ss_endpoint s1)"
    by (simp_all add: e c)
  show "ss_key s1 = ss_key s2" by (simp only: fields)
  show "selector_header api dw sel hi w i s1 = selector_header api dw sel hi w i s2"
    by (simp only: selector_header_def selector_state_def fields)
  show "selector_detail w s1 = selector_detail w s2"
    by (simp only: selector_detail_def selector_slots_def selector_sample_def fields)
qed

lemma selector_lines_alike:
  assumes "list_all2 (same_summary api) ss1 ss2"
  shows "selector_lines api dw ss1 sel hi w = selector_lines api dw ss2 sel hi w"
proof -
  have "map (\<lambda>(i, s). [selector_header api dw sel hi w i s, selector_detail w s]) (enumerate 0 ss1) =
    map (\<lambda>(i, s). [selector_header api dw sel hi w i s, selector_detail w s]) (enumerate 0 ss2)"
    by (rule enumerate_list_all2 [OF assms]) (simp only: same_summary_lines)
  moreover have "ss1 = [] \<longleftrightarrow> ss2 = []" using assms by auto
  ultimately show ?thesis by (simp add: selector_lines_def)
qed

lemma overflow_lines_alike:
  assumes "list_all2 (\<lambda>a b. shown_alike api (sv_endpoint a) (sv_endpoint b)) o1 o2"
  shows "overflow_lines api dw o1 = overflow_lines api dw o2"
proof -
  have "map (\<lambda>spec. compact_endpoint api (sv_endpoint spec)) o1 = map (\<lambda>spec. compact_endpoint api (sv_endpoint spec)) o2"
    by (rule map_list_all2 [OF assms]) (rule compact_endpoint_alike)
  from arg_cong [OF this, where f = "map (\<lambda>e. [styled (lit ''  '' @ [10007, 32]) (fg YELLOW), styled (fit_cell dw e 40) (fg MUTED),
      styled (lit ''  not monitored '' @ EMPTY_CELL @ lit '' limit reached'') (fg MUTED)])"]
  show ?thesis using list_all2_lengthD [OF assms] assms by (auto simp: overflow_lines_def comp_def)
qed

lemma same_header_parts:
  assumes "same_header api h1 h2"
  shows "length (hd_servers h1) = length (hd_servers h2)" "length (hd_overflow h1) = length (hd_overflow h2)"
    "hd_servers h1 = [] \<longleftrightarrow> hd_servers h2 = []" "hd_overflow h1 = [] \<longleftrightarrow> hd_overflow h2 = []"
    "hd_refresh_ms h1 = hd_refresh_ms h2" "hd_auto h1 = hd_auto h2" "hd_selected h1 = hd_selected h2"
    "compact_endpoint api (hd_server h1) = compact_endpoint api (hd_server h2)"
    "selector_lines api dw (hd_servers h1) sel hi w = selector_lines api dw (hd_servers h2) sel hi w"
    "overflow_lines api dw (hd_overflow h1) = overflow_lines api dw (hd_overflow h2)"
    "map ss_key (hd_servers h1) = map ss_key (hd_servers h2)"
  using assms unfolding same_header_def
  by (auto dest: list_all2_lengthD intro: compact_endpoint_alike selector_lines_alike overflow_lines_alike map_list_all2 simp: same_summary_lines(1))

lemma selected_index_keys: "selected_index ss sel = selected_index ss' sel" if "map ss_key ss = map ss_key ss'"
proof -
  have t: "length (takeWhile (\<lambda>s. ss_key s \<noteq> sel) xs) = length (takeWhile (\<lambda>k. k \<noteq> sel) (map ss_key xs))" for xs
    by (simp add: takeWhile_map comp_def)
  have e: "list_ex (\<lambda>s. ss_key s = sel) xs \<longleftrightarrow> sel \<in> set (map ss_key xs)" for xs by (auto simp: list_ex_iff)
  show ?thesis by (simp only: selected_index_def selected_position_def t e that)
qed


definition secret_header :: "rstr \<Rightarrow> ServerSummary \<Rightarrow> Header" where
  "secret_header e s = \<lparr>hd_server = e, hd_refresh_ms = 500, hd_auto = False, hd_servers = [s\<lparr>ss_endpoint := e\<rparr>], hd_selected = lit ''k'',
     hd_overflow = [sample_spec e]\<rparr>"


end
