(* ===== verification/Spec2Isabelle.thy ===== *)
theory Spec2Isabelle
  imports Monitor Http CpuSensors Providers Settings Store Workers TableText Screen
begin

text \<open>
  OrsikTop is a terminal monitor for local LLM servers.  One thread draws and handles keys
  (\<^verbatim>\<open>src/app.rs\<close>, \<^verbatim>\<open>src/app/loop_events.rs\<close>); an LLM worker polls the monitored servers over
  HTTP and a fast worker reads the CPU, the GPU and the processes (\<^verbatim>\<open>src/app/workers.rs\<close>).  They exchange
  messages over bounded channels, and commands and samples carry generation numbers, so that an answer to a question
  that is no longer asked is dropped.  Everything the operating system, a server, NVML or the URL library answers is a
  parameter of the definitions; the code between those answers and the values on the screen is what is modelled.

  \<^bold>\<open>Shared groundwork.\<close> F64 is binary64 arithmetic over the rationals with one rounding per operation; RStr is
  Rust's strings as lists of scalar values, with trimming, splitting, searching and number parsing; Utf8 is
  \<^verbatim>\<open>String::from_utf8\<close> and its lossy sibling; Prelude has the machine integers with saturation, durations and
  instants; Json is \<^verbatim>\<open>serde_json::Value\<close>; Sys is the trait \<^verbatim>\<open>Sys\<close> of \<^verbatim>\<open>src/system.rs\<close>,
  a record of the answers of the filesystem at one moment.

  \<^bold>\<open>Identities and configuration.\<close> Domain models \<^verbatim>\<open>src/domain.rs\<close>: PCI addresses, MIG identifiers, device
  keys, GPU selectors and server keys, with their canonical forms.  Config models the text form of
  \<^verbatim>\<open>src/config.rs\<close> (rendering and parsing are inverse on sanitised configurations) and Store its files: saving
  goes through a private temporary file over a filesystem with symbolic links in which every call can fail, and the file
  read afterwards is the old one or the new one.  Settings models the dialog of \<^verbatim>\<open>src/ui/state_settings.rs\<close>
  with \<^verbatim>\<open>src/server_editor.rs\<close>, key by key.  Redact models \<^verbatim>\<open>src/redact.rs\<close>: what is shown of a
  URL does not depend on its credentials, path or query.

  \<^bold>\<open>A server.\<close> Prometheus, \<^verbatim>\<open>Strata_Metrics\<close>, Speculative, Llama and Slots model the parsers and rate computations
  of \<^verbatim>\<open>src/llama/\<close> and \<^verbatim>\<open>src/strata.rs\<close>; Http models \<^verbatim>\<open>src/llama/http.rs\<close>, the
  bounded read of a body included; Monitor composes them to one poll of \<^verbatim>\<open>src/llama/monitor.rs\<close>, with its
  state: cached properties, counter baselines and the previous slots.  The locale \<^verbatim>\<open>baseline\<close> states what a
  stored baseline may be used for, and is interpreted for the counters and for the slots.

  \<^bold>\<open>The application.\<close> Discovery models the scan of /proc for servers and the list of servers to monitor
  (\<^verbatim>\<open>src/discovery_llm.rs\<close>, \<^verbatim>\<open>src/app/server.rs\<close>); GpuMap the attribution of GPUs to a server
  process (\<^verbatim>\<open>src/gpu_map.rs\<close>); AppServer the registry, selection and generations of the loop; Channel the
  bounded channels; Workers the whole as a step relation over all interleavings of the loop, the two workers and the poll
  threads, with the locale \<^verbatim>\<open>generation_gate\<close> for the two generation checks; its invariants are proved by
  induction over the steps.  History models the sixty-second windows of \<^verbatim>\<open>src/ui/history.rs\<close> and
  \<^verbatim>\<open>src/ui/state_llm.rs\<close>, with the locale \<^verbatim>\<open>bounded_history\<close>.

  \<^bold>\<open>The host.\<close> Cpu and CpuSensors model \<^verbatim>\<open>src/cpu.rs\<close> and \<^verbatim>\<open>src/cpu_sensors.rs\<close>; Gpus
  models \<^verbatim>\<open>src/discovery.rs\<close> and the hwmon search of \<^verbatim>\<open>src/providers/mod.rs\<close>; Providers models
  \<^verbatim>\<open>src/gpu.rs\<close> and the AMD, Intel and NVIDIA samplers; Drm models \<^verbatim>\<open>src/drm.rs\<close>, the use of GPUs
  by a process; Procs models \<^verbatim>\<open>src/app/process.rs\<close>; ProcTable the process table of
  \<^verbatim>\<open>src/ui/processes.rs\<close> and \<^verbatim>\<open>src/ui/state_process.rs\<close>.

  \<^bold>\<open>The screen.\<close> Cells models the text of \<^verbatim>\<open>src/ui/widgets.rs\<close>, cells, bars and colours; TableText
  what the process table draws and where it reacts to the mouse.  Paint has the frame, the list of the widgets in the order
  they are rendered, each with its area, spans and colours; the border of a block, the split of an area and the width of a text
  are ratatui's and fields of the parameter \<^verbatim>\<open>Ratatui\<close>.  HistoryText models the Braille graphs of
  \<^verbatim>\<open>src/ui/history.rs\<close>, GpuPanel, LlmPanel and SystemPanel the panels of
  \<^verbatim>\<open>src/ui/gpu_panel.rs\<close>, \<^verbatim>\<open>src/ui/llm.rs\<close> and \<^verbatim>\<open>src/ui/system.rs\<close>, DialogText
  the help, the server selector and the settings of \<^verbatim>\<open>src/ui/dialogs.rs\<close>, and Screen the layouts, header and footer of
  \<^verbatim>\<open>src/ui/draw.rs\<close> around them.

  \<^bold>\<open>The commands.\<close> CommandLine models \<^verbatim>\<open>src/main.rs\<close>: the overrides, the choice of the server, the wait for the
  update helper and the uninstaller over a file system in which every call can fail; Diagnostics the two reports of
  \<^verbatim>\<open>src/diagnostics.rs\<close>.

  \<^bold>\<open>What is shown.\<close> Freshness: a sample, a GPU mapping and a panel belong to the list of servers and the
  selection of their generation.  Continuity: rates are never negative, never computed across an outage, and a short
  outage does not blank a server.  Agreement with references: slot throughput, histories, physical cores, server list,
  process totals, hwmon and card selection equal plain specifications of what they compute.  Confidentiality: redacted
  texts, masked drafts, the reports and the whole screen do not depend on the secret.  Durability: saving and loading.  Interaction: selection, scrolling
  and clicks of the table hit the row that is shown, and only what the last frame painted; the highlighted server and the rows that matter
  of a dialog are on the screen.  Drawing: every CPU has its mark, a dot of a graph is a reading, rows fit their panel.  Ends: a poll ends
  and reads at most its limit.

  \<^bold>\<open>Bounds.\<close> At most sixteen servers are monitored (the code's limit), so a poll round has at most sixteen
  threads.  A body is read up to four mebibytes and one byte.  A temporary file is tried under eight names, and symbolic
  links are followed sixteen hops by the code and forty by the kernel: these are the fuels of the recursions in Store, and
  running out of them is an error there as in the code.  Generation numbers are 64 bits wide; the theorems on them
  assume fewer than \<open>2^64\<close> publications, where the number would wrap around.  Counters and sizes are machine
  words, with the saturation of the code written out.

  \<^bold>\<open>Not modelled.\<close> The real and the fake implementation of \<^verbatim>\<open>Sys\<close>, the rendering of widgets to cells by ratatui,
  the terminal and its guard, the HTTP client, NVML, the URL parser, the JSON parser and the command-line parser, which are
  parameters or outside the definitions; the helpers and cases of the tests.
\<close>

end
